(* ===== verification/Prelude.thy ===== *)
theory Prelude
  imports Complex_Main "HOL-Library.Sublist"
begin

text \<open>
  Prelude of the development: the part of the language the gateway is written in that
  the components use.

  \<^item> Numbers. A JavaScript number is \<open>jsnum\<close>: a finite value (an exact rational, so
    rounding of doubles is abstracted), the two infinities, or NaN, with the language's
    comparisons (every comparison with NaN is false). A quantity the code has already
    checked to be finite is a plain \<open>rat\<close>, a counter a \<open>nat\<close>, a time in milliseconds
    an \<open>int\<close>.
  \<^item> Strings are \<open>string\<close> (code units below 256); \<open>toLowerCase\<close>, \<open>trim\<close>, \<open>startsWith\<close>,
    \<open>includes\<close>, \<open>join\<close> and \<open>Number(s)\<close> are written out for them.
  \<^item> \<open>Map\<close> keeps insertion order: it is an association list with distinct keys;
    \<open>jm_set\<close> overwrites in place or appends, \<open>jm_del\<close> removes.
  \<^item> JSON values and property access; a missing property is \<open>None\<close>.
  \<^item> A thrown error is \<open>Inl\<close> of a sum.
\<close>

named_theorems js_simps \<open>evaluation rules of the language model\<close>
named_theorems inv_intros \<open>operations that keep a component's invariant\<close>
named_theorems return_iff \<open>when a fallible operation returns normally\<close>

subsection \<open>Numbers\<close>

datatype jsnum = Fin rat | PosInf | NegInf | NaN

fun js_lt :: "jsnum \<Rightarrow> jsnum \<Rightarrow> bool" where
  "js_lt (Fin a) (Fin b) = (a < b)"
| "js_lt (Fin a) PosInf = True"
| "js_lt NegInf (Fin b) = True"
| "js_lt NegInf PosInf = True"
| "js_lt _ _ = False"

definition js_le :: "jsnum \<Rightarrow> jsnum \<Rightarrow> bool" where
  "js_le x y \<longleftrightarrow> js_lt x y \<or> (x = y \<and> x \<noteq> NaN)"

abbreviation js_ge :: "jsnum \<Rightarrow> jsnum \<Rightarrow> bool" where
  "js_ge x y \<equiv> js_le y x"

abbreviation js_gt :: "jsnum \<Rightarrow> jsnum \<Rightarrow> bool" where
  "js_gt x y \<equiv> js_lt y x"

fun is_finite :: "jsnum \<Rightarrow> bool" where
  "is_finite (Fin _) = True"
| "is_finite _ = False"

text \<open>Arithmetic: infinities and NaN propagate as in IEEE 754.\<close>

fun js_add :: "jsnum \<Rightarrow> jsnum \<Rightarrow> jsnum" where
  "js_add (Fin a) (Fin b) = Fin (a + b)"
| "js_add NaN y = NaN"
| "js_add x NaN = NaN"
| "js_add PosInf NegInf = NaN"
| "js_add NegInf PosInf = NaN"
| "js_add PosInf y = PosInf"
| "js_add NegInf y = NegInf"
| "js_add x PosInf = PosInf"
| "js_add x NegInf = NegInf"

fun js_sgn :: "jsnum \<Rightarrow> rat" where
  "js_sgn (Fin a) = sgn a"
| "js_sgn PosInf = 1"
| "js_sgn NegInf = -1"
| "js_sgn NaN = 0"

definition js_mul :: "jsnum \<Rightarrow> jsnum \<Rightarrow> jsnum" where
  "js_mul x y = (if x = NaN \<or> y = NaN then NaN else
     case (x, y) of (Fin a, Fin b) \<Rightarrow> Fin (a * b)
     | _ \<Rightarrow> let s = js_sgn x * js_sgn y in if s = 0 then NaN else if 0 < s then PosInf else NegInf)"

fun js_div1000 :: "jsnum \<Rightarrow> jsnum" where
  "js_div1000 (Fin a) = Fin (a / 1000)"
| "js_div1000 x = x"

lemma js_le_Fin [simp, js_simps]: "js_le (Fin a) (Fin b) \<longleftrightarrow> a \<le> b"
  by (auto simp: js_le_def)

lemma js_le_special [simp, js_simps]:
  "js_le (Fin a) PosInf" "\<not> js_le PosInf (Fin a)" "js_le NegInf (Fin a)"
  "\<not> js_le (Fin a) NegInf" "\<not> js_le NaN x" "\<not> js_le x NaN" "js_le PosInf PosInf"
  "js_le NegInf NegInf" "js_le NegInf PosInf" "\<not> js_le PosInf NegInf"
  by (cases x; simp add: js_le_def)+

lemma js_le_trans: "js_le x y \<Longrightarrow> js_le y z \<Longrightarrow> js_le x z"
  by (cases x; cases y; cases z) auto

lemma js_ge_Fin_mono: "js_ge (Fin a) x \<Longrightarrow> a \<le> b \<Longrightarrow> js_ge (Fin b) x"
  by (cases x) auto

lemma is_finite_iff: "is_finite x \<longleftrightarrow> (\<exists>q. x = Fin q)"
  by (cases x) auto

text \<open>\<open>Number.isInteger\<close>, with the integer.\<close>

definition js_integer :: "jsnum \<Rightarrow> int option" where
  "js_integer n = (case n of Fin q \<Rightarrow> if of_int (floor q) = q then Some (floor q) else None | _ \<Rightarrow> None)"

subsection \<open>Strings\<close>

definition lower_char :: "char \<Rightarrow> char" where
  "lower_char c = (let n = of_char c :: nat in
     if 65 \<le> n \<and> n \<le> 90 then char_of (n + 32) else c)"

definition to_lower :: "string \<Rightarrow> string" where
  "to_lower s = map lower_char s"

definition to_upper :: "string \<Rightarrow> string" where
  "to_upper s = map (\<lambda>c. let n = of_char c :: nat in if 97 \<le> n \<and> n \<le> 122 then char_of (n - 32) else c) s"

definition js_space :: "char \<Rightarrow> bool" where
  "js_space c \<longleftrightarrow> (let n = of_char c :: nat in (9 \<le> n \<and> n \<le> 13) \<or> n = 32 \<or> n = 160)"

definition trim :: "string \<Rightarrow> string" where
  "trim s = rev (dropWhile js_space (rev (dropWhile js_space s)))"

abbreviation starts_with :: "string \<Rightarrow> string \<Rightarrow> bool" where
  "starts_with s p \<equiv> prefix p s"

abbreviation ends_with :: "string \<Rightarrow> string \<Rightarrow> bool" where
  "ends_with s p \<equiv> suffix p s"

abbreviation includes_str :: "string \<Rightarrow> string \<Rightarrow> bool" where
  "includes_str s p \<equiv> sublist p s"

fun join :: "string \<Rightarrow> string list \<Rightarrow> string" where
  "join sep [] = []"
| "join sep [x] = x"
| "join sep (x # y # zs) = x @ sep @ join sep (y # zs)"

text \<open>\<open>s.split(c)\<close> for a one-character separator.\<close>

fun split_on :: "char \<Rightarrow> string \<Rightarrow> string list" where
  "split_on c [] = [[]]"
| "split_on c (x # xs) = (if x = c then [] # split_on c xs
     else case split_on c xs of [] \<Rightarrow> [[x]] | p # ps \<Rightarrow> (x # p) # ps)"

lemma split_on_not_Nil [simp]: "split_on c s \<noteq> []"
  by (induction c s rule: split_on.induct) (auto split: list.splits)

lemma split_on_fresh: "c \<notin> set s \<Longrightarrow> split_on c s = [s]"
  by (induction c s rule: split_on.induct) auto

lemma split_on_append: "c \<notin> set s \<Longrightarrow> split_on c (s @ c # t) = s # split_on c t"
  by (induction c s rule: split_on.induct) auto

definition is_digit :: "char \<Rightarrow> bool" where
  "is_digit c \<longleftrightarrow> (let n = of_char c :: nat in 48 \<le> n \<and> n \<le> 57)"

definition digit_val :: "char \<Rightarrow> nat" where
  "digit_val c = of_char c - 48"

definition digit_char :: "nat \<Rightarrow> char" where
  "digit_char d = char_of (48 + d)"

fun digits_of :: "nat \<Rightarrow> string" where
  "digits_of n = (if n < 10 then [digit_char n] else digits_of (n div 10) @ [digit_char (n mod 10)])"

declare digits_of.simps [simp del]

definition string_of_int :: "int \<Rightarrow> string" where
  "string_of_int n = (if n < 0 then CHR ''-'' # digits_of (nat (- n)) else digits_of (nat n))"

text \<open>Truthiness of an optional string: a missing or empty string is falsy.\<close>

definition truthy_str :: "string option \<Rightarrow> bool" where
  "truthy_str s \<longleftrightarrow> (case s of None \<Rightarrow> False | Some t \<Rightarrow> t \<noteq> [])"

text \<open>\<open>a || b\<close> on optional strings.\<close>

definition or_str :: "string option \<Rightarrow> string option \<Rightarrow> string option" where
  "or_str a b = (if truthy_str a then a else b)"

text \<open>\<open>a ?? b\<close>.\<close>

fun nullish :: "'a option \<Rightarrow> 'a option \<Rightarrow> 'a option" where
  "nullish (Some a) _ = Some a"
| "nullish None b = b"

lemma truthy_str_simps [simp, js_simps]:
  "\<not> truthy_str None" "truthy_str (Some t) \<longleftrightarrow> t \<noteq> []"
  by (simp_all add: truthy_str_def)

text \<open>
  \<open>Number(s)\<close> on a string: surrounding white space is ignored, the empty string is 0, then an
  unsigned hexadecimal, octal or binary literal, an infinity, or a decimal literal with an optional
  exponent; anything else is NaN.
\<close>

fun nat_of_digits :: "nat \<Rightarrow> string \<Rightarrow> nat" where
  "nat_of_digits acc [] = acc"
| "nat_of_digits acc (c # cs) = nat_of_digits (10 * acc + digit_val c) cs"

definition radix_val :: "char \<Rightarrow> nat" where
  "radix_val c = (let n = of_char (lower_char c) :: nat in if n < 58 then n - 48 else n - 87)"

definition radix_digit :: "nat \<Rightarrow> char \<Rightarrow> bool" where
  "radix_digit b c \<longleftrightarrow> (let n = of_char (lower_char c) :: nat in
     ((48 \<le> n \<and> n \<le> 57) \<or> (97 \<le> n \<and> n \<le> 102)) \<and> radix_val c < b)"

fun radix_num :: "nat \<Rightarrow> string \<Rightarrow> jsnum" where
  "radix_num b cs = (if cs = [] \<or> \<not> list_all (radix_digit b) cs then NaN
     else Fin (of_nat (foldl (\<lambda>a c. b * a + radix_val c) 0 cs)))"

definition exp_part :: "rat \<Rightarrow> string \<Rightarrow> jsnum" where
  "exp_part m cs = (case cs of [] \<Rightarrow> Fin m
     | e # rest \<Rightarrow> if e \<noteq> CHR ''e'' \<and> e \<noteq> CHR ''E'' then NaN
         else let neg = (case rest of [] \<Rightarrow> False | s # _ \<Rightarrow> s = CHR ''-'');
                  ds = (case rest of [] \<Rightarrow> [] | s # r \<Rightarrow> if s = CHR ''-'' \<or> s = CHR ''+'' then r else rest)
              in if ds = [] \<or> \<not> list_all is_digit ds then NaN
                 else let k = nat_of_digits 0 ds
                      in Fin (if neg then m / 10 ^ k else m * 10 ^ k))"

definition decimal_num :: "string \<Rightarrow> jsnum" where
  "decimal_num cs =
    (let ip = takeWhile is_digit cs; r1 = dropWhile is_digit cs;
         dot = (case r1 of [] \<Rightarrow> False | c # _ \<Rightarrow> c = CHR ''.'');
         r2 = (if dot then tl r1 else r1);
         fp = (if dot then takeWhile is_digit r2 else []);
         r3 = (if dot then dropWhile is_digit r2 else r2)
     in if ip = [] \<and> fp = [] then NaN
        else exp_part (of_nat (nat_of_digits 0 (ip @ fp)) / 10 ^ length fp) r3)"

fun js_neg :: "jsnum \<Rightarrow> jsnum" where
  "js_neg (Fin a) = Fin (- a)"
| "js_neg PosInf = NegInf"
| "js_neg NegInf = PosInf"
| "js_neg NaN = NaN"

definition js_Number :: "string \<Rightarrow> jsnum" where
  "js_Number s0 =
    (let s = trim s0; p2 = to_lower (take 2 s) in
     if s = [] then Fin 0
     else if p2 = ''0x'' then radix_num 16 (drop 2 s)
     else if p2 = ''0o'' then radix_num 8 (drop 2 s)
     else if p2 = ''0b'' then radix_num 2 (drop 2 s)
     else let neg = (hd s = CHR ''-''); signed = (neg \<or> hd s = CHR ''+'');
              body = (if signed then tl s else s);
              v = (if body = ''Infinity'' then PosInf else decimal_num body)
          in if neg then js_neg v else v)"

text \<open>Decimal digits read back as the number they print, and hold no other character.\<close>

lemma nat_of_digits_snoc: "nat_of_digits acc (xs @ [c]) = 10 * nat_of_digits acc xs + digit_val c"
  by (induction xs arbitrary: acc) auto

lemma nat_of_digits_append: "nat_of_digits acc (xs @ ys) = nat_of_digits (nat_of_digits acc xs) ys"
  by (induction xs arbitrary: acc) auto

lemma digit_val_char [simp]: "d < 10 \<Longrightarrow> digit_val (digit_char d) = d"
  by (simp add: digit_val_def digit_char_def of_char_of)

lemma is_digit_char [simp]: "d < 10 \<Longrightarrow> is_digit (digit_char d)"
  by (simp add: is_digit_def digit_char_def of_char_of Let_def)

lemma nat_of_digits_of [simp]: "nat_of_digits 0 (digits_of n) = n"
proof (induction n rule: digits_of.induct)
  case (1 n)
  then show ?case by (subst digits_of.simps) (auto simp: nat_of_digits_snoc)
qed

lemma digits_of_digits: "list_all is_digit (digits_of n)"
proof (induction n rule: digits_of.induct)
  case (1 n)
  then show ?case by (subst digits_of.simps) auto
qed

lemma string_of_nonneg: "0 \<le> k \<Longrightarrow> string_of_int k = digits_of (nat k)"
  by (simp add: string_of_int_def)

subsection \<open>Insertion-ordered maps\<close>

type_synonym ('k, 'v) jmap = "('k \<times> 'v) list"

abbreviation jm_get :: "('k, 'v) jmap \<Rightarrow> 'k \<Rightarrow> 'v option" where
  "jm_get m k \<equiv> map_of m k"

abbreviation jm_keys :: "('k, 'v) jmap \<Rightarrow> 'k list" where
  "jm_keys m \<equiv> map fst m"

fun jm_set :: "'k \<Rightarrow> 'v \<Rightarrow> ('k, 'v) jmap \<Rightarrow> ('k, 'v) jmap" where
  "jm_set k v [] = [(k, v)]"
| "jm_set k v ((k', v') # m) = (if k' = k then (k, v) # m else (k', v') # jm_set k v m)"

definition jm_del :: "'k \<Rightarrow> ('k, 'v) jmap \<Rightarrow> ('k, 'v) jmap" where
  "jm_del k m = filter (\<lambda>e. fst e \<noteq> k) m"

definition jm_wf :: "('k, 'v) jmap \<Rightarrow> bool" where
  "jm_wf m \<longleftrightarrow> distinct (jm_keys m)"

lemma jm_get_set [simp, js_simps]: "jm_get (jm_set k v m) = (jm_get m)(k \<mapsto> v)"
  by (induction m) auto

lemma jm_get_del [simp, js_simps]: "jm_get (jm_del k m) = (jm_get m)(k := None)"
  by (induction m) (auto simp: jm_del_def)

lemma set_jm_keys_set [simp]: "fst ` set (jm_set k v m) = insert k (fst ` set m)"
proof (induction m)
  case (Cons e m)
  then show ?case by (cases e) (simp add: insert_commute)
qed simp

lemma set_jm_keys_del [simp]: "fst ` set (jm_del k m) = fst ` set m - {k}"
  by (auto simp: jm_del_def)

lemma jm_wf_Nil [simp, inv_intros]: "jm_wf []"
  by (simp add: jm_wf_def)

lemma jm_wf_set [inv_intros]: "jm_wf m \<Longrightarrow> jm_wf (jm_set k v m)"
proof (induction m)
  case (Cons e m)
  then show ?case
    by (cases e) (auto simp: jm_wf_def)
qed (simp add: jm_wf_def)

lemma jm_wf_del [inv_intros]: "jm_wf m \<Longrightarrow> jm_wf (jm_del k m)"
  by (induction m) (auto simp: jm_wf_def jm_del_def)

lemma jm_wf_ConsD: "jm_wf (e # m) \<Longrightarrow> jm_wf m"
  by (simp add: jm_wf_def)

lemma jm_wf_drop [inv_intros]: "jm_wf m \<Longrightarrow> jm_wf (drop n m)"
  by (simp add: jm_wf_def distinct_drop drop_map flip: drop_map)

lemma jm_set_fresh: "k \<notin> fst ` set m \<Longrightarrow> jm_set k v m = m @ [(k, v)]"
  by (induction m) auto

lemma jm_del_fresh: "k \<notin> fst ` set m \<Longrightarrow> jm_del k m = m"
  by (induction m) (auto simp: jm_del_def)

lemma jm_set_after_del: "jm_set k v (jm_del k m) = jm_del k m @ [(k, v)]"
  by (rule jm_set_fresh) auto

lemma length_jm_del_le: "length (jm_del k m) \<le> length m"
  by (simp add: jm_del_def)

lemma length_jm_del_present:
  "jm_wf m \<Longrightarrow> k \<in> fst ` set m \<Longrightarrow> Suc (length (jm_del k m)) = length m"
proof (induction m)
  case (Cons e m)
  show ?case
  proof (cases "fst e = k")
    case True
    with Cons.prems have "k \<notin> fst ` set m" by (auto simp: jm_wf_def)
    with True show ?thesis using jm_del_fresh [of k m] by (simp add: jm_del_def)
  next
    case False
    with Cons show ?thesis by (auto simp: jm_wf_def jm_del_def)
  qed
qed simp

lemma length_jm_set:
  "length (jm_set k v m) = (if k \<in> fst ` set m then length m else Suc (length m))"
proof (induction m)
  case (Cons e m)
  then show ?case by (cases e) simp
qed simp

lemma jm_get_Some_in: "jm_get m k = Some v \<Longrightarrow> (k, v) \<in> set m"
  by (rule map_of_SomeD)

lemma jm_get_dom: "(\<exists>v. jm_get m k = Some v) \<longleftrightarrow> k \<in> fst ` set m"
  by (metis domI domIff dom_map_of_conv_image_fst not_None_eq)

subsection \<open>JSON values\<close>

datatype json =
    JNull
  | JBool bool
  | JNum jsnum
  | JStr string
  | JArr "json list"
  | JObj "(string \<times> json) list"

text \<open>\<open>v[name]\<close> of a possibly absent value; property access on a non-object gives \<open>undefined\<close>.\<close>

fun prop_of :: "json option \<Rightarrow> string \<Rightarrow> json option" where
  "prop_of (Some (JObj fs)) n = map_of fs n"
| "prop_of _ _ = None"

fun obj_keys :: "json \<Rightarrow> string list" where
  "obj_keys (JObj fs) = map fst fs"
| "obj_keys _ = []"

text \<open>\<open>v ?? d\<close> on JSON values: \<open>undefined\<close> and \<open>null\<close> give the default.\<close>

fun json_or :: "json option \<Rightarrow> json \<Rightarrow> json" where
  "json_or None d = d"
| "json_or (Some JNull) d = d"
| "json_or (Some v) d = v"

text \<open>\<open>a ?? b\<close> on JSON values, where \<open>null\<close> counts as missing.\<close>

fun present :: "json option \<Rightarrow> json option" where
  "present (Some JNull) = None"
| "present v = v"

definition json_nullish :: "json option \<Rightarrow> json option \<Rightarrow> json option" where
  "json_nullish a b = nullish (present a) b"

fun json_fields :: "json \<Rightarrow> (string \<times> json) list option" where
  "json_fields (JObj fs) = Some fs"
| "json_fields _ = None"

text \<open>The own enumerable properties of a value, \<open>None\<close> where reading them throws.\<close>

fun own_entries :: "json \<Rightarrow> (string \<times> json) list option" where
  "own_entries JNull = None"
| "own_entries (JObj fs) = Some fs"
| "own_entries (JArr vs) = Some (map (\<lambda>i. (digits_of i, vs ! i)) [0..<length vs])"
| "own_entries (JStr s) = Some (map (\<lambda>i. (digits_of i, JStr [s ! i])) [0..<length s])"
| "own_entries _ = Some []"

fun json_text :: "json option \<Rightarrow> string option" where
  "json_text (Some (JStr s)) = Some s"
| "json_text _ = None"

text \<open>The first own key that is not among the known ones.\<close>

definition unknown_field :: "string list \<Rightarrow> (string \<times> json) list \<Rightarrow> string option" where
  "unknown_field known fs = List.find (\<lambda>k. k \<notin> set known) (map fst fs)"

text \<open>The conversion of a JSON value to a number in arithmetic. An array is converted through its
  string: none or one element, or a list with commas, which is no number.\<close>

fun js_to_number :: "json \<Rightarrow> jsnum" where
  "js_to_number JNull = Fin 0"
| "js_to_number (JBool b) = Fin (if b then 1 else 0)"
| "js_to_number (JNum n) = n"
| "js_to_number (JStr s) = js_Number s"
| "js_to_number (JArr []) = Fin 0"
| "js_to_number (JArr [x]) = (case x of JBool _ \<Rightarrow> NaN | _ \<Rightarrow> js_to_number x)"
| "js_to_number (JArr (x # y # zs)) = NaN"
| "js_to_number (JObj _) = NaN"

fun truthy_json :: "json option \<Rightarrow> bool" where
  "truthy_json None = False"
| "truthy_json (Some JNull) = False"
| "truthy_json (Some (JBool b)) = b"
| "truthy_json (Some (JNum n)) = (n \<noteq> Fin 0 \<and> n \<noteq> NaN)"
| "truthy_json (Some (JStr s)) = (s \<noteq> [])"
| "truthy_json (Some _) = True"

text \<open>\<open>XS.includes(v)\<close> on a JSON value, giving the constant.\<close>

definition choice :: "('a \<Rightarrow> string) \<Rightarrow> 'a list \<Rightarrow> json option \<Rightarrow> 'a option" where
  "choice txt xs v = (case v of Some (JStr s) \<Rightarrow> List.find (\<lambda>x. txt x = s) xs | _ \<Rightarrow> None)"

text \<open>The names every plain object inherits: looked up in a table, they give a value.\<close>

definition INHERITED :: "string list" where
  "INHERITED = [''constructor'', ''__defineGetter__'', ''__defineSetter__'', ''hasOwnProperty'', ''__lookupGetter__'',
     ''__lookupSetter__'', ''isPrototypeOf'', ''propertyIsEnumerable'', ''toString'', ''valueOf'', ''__proto__'', ''toLocaleString'']"

subsection \<open>Lists\<close>

text \<open>\<open>indexOf\<close>: the first position, or \<open>-1\<close>.\<close>

fun index_from :: "int \<Rightarrow> 'a list \<Rightarrow> 'a \<Rightarrow> int" where
  "index_from i [] x = -1"
| "index_from i (y # ys) x = (if y = x then i else index_from (i + 1) ys x)"

definition index_of :: "'a list \<Rightarrow> 'a \<Rightarrow> int" where
  "index_of xs x = index_from 0 xs x"

lemma index_from_notin: "x \<notin> set xs \<Longrightarrow> index_from i xs x = -1"
  by (induction xs arbitrary: i) auto

lemma index_from_ge: "x \<in> set xs \<Longrightarrow> i \<le> index_from i xs x"
proof (induction xs arbitrary: i)
  case (Cons y ys)
  show ?case
  proof (cases "y = x")
    case False
    with Cons have "i + 1 \<le> index_from (i + 1) ys x" by auto
    with False show ?thesis by simp
  qed simp
qed simp

lemma index_of_nonneg_iff [simp]: "0 \<le> index_of xs x \<longleftrightarrow> x \<in> set xs"
  using index_from_ge [of x xs 0] index_from_notin [of x xs 0]
  by (cases "x \<in> set xs") (auto simp: index_of_def)

lemma index_of_neg [simp]: "x \<notin> set xs \<Longrightarrow> index_of xs x = -1"
  by (simp add: index_of_def index_from_notin)

lemma find_SomeD: "List.find P xs = Some x \<Longrightarrow> P x \<and> x \<in> set xs"
  by (induction xs) (auto split: if_splits)

text \<open>Splitting a joined key: a separator that does not occur in the parts is unambiguous.\<close>

lemma append_sep_inj:
  assumes "x @ s # xs = y @ s # ys" "s \<notin> set x" "s \<notin> set y"
  shows "x = y \<and> xs = ys"
  using assms
proof (induction x arbitrary: y)
  case Nil
  then show ?case by (cases y) auto
next
  case (Cons c cs)
  then show ?case by (cases y) auto
qed

lemma join_sep_inj:
  assumes "join [s] xs = join [s] ys" "length xs = length ys"
    and "\<forall>x \<in> set xs. s \<notin> set x" "\<forall>y \<in> set ys. s \<notin> set y"
  shows "xs = ys"
  using assms(2,1,3,4)
proof (induction xs ys rule: list_induct2)
  case (Cons x xs y ys)
  then show ?case
    by (cases xs; cases ys) (auto dest: append_sep_inj)
qed simp

subsection \<open>Results of fallible operations\<close>

fun rbind :: "'e + 'a \<Rightarrow> ('a \<Rightarrow> 'e + 'b) \<Rightarrow> 'e + 'b" where
  "rbind (Inl e) f = Inl e"
| "rbind (Inr x) f = f x"

definition ensure :: "bool \<Rightarrow> 'e \<Rightarrow> 'e + unit" where
  "ensure b e = (if b then Inr () else Inl e)"

lemma rbind_return_iff [return_iff]: "rbind m f = Inr y \<longleftrightarrow> (\<exists>x. m = Inr x \<and> f x = Inr y)"
  by (cases m) auto

lemma rbind_error_iff: "rbind m f = Inl e \<longleftrightarrow> m = Inl e \<or> (\<exists>x. m = Inr x \<and> f x = Inl e)"
  by (cases m) auto

lemma ensure_return_iff [return_iff]: "ensure b e = Inr u \<longleftrightarrow> b"
  by (simp add: ensure_def)

lemma ensure_simps [simp]: "ensure True e = Inr ()" "ensure False e = Inl e"
  by (simp_all add: ensure_def)

definition lift_option :: "'e \<Rightarrow> 'a option \<Rightarrow> 'e + 'a" where
  "lift_option e x = (case x of None \<Rightarrow> Inl e | Some v \<Rightarrow> Inr v)"

lemma lift_option_return [return_iff]: "lift_option e x = Inr v \<longleftrightarrow> x = Some v"
  by (auto simp: lift_option_def split: option.splits)

fun map_res :: "('a \<Rightarrow> 'e + 'b) \<Rightarrow> 'a list \<Rightarrow> 'e + 'b list" where
  "map_res f [] = Inr []"
| "map_res f (x # xs) = rbind (f x) (\<lambda>y. rbind (map_res f xs) (\<lambda>ys. Inr (y # ys)))"

lemma map_res_return_iff:
  "map_res f xs = Inr ys \<longleftrightarrow> list_all2 (\<lambda>x y. f x = Inr y) xs ys"
proof (induction xs arbitrary: ys)
  case (Cons x xs)
  then show ?case by (cases ys) (auto simp: return_iff)
qed auto

end
