(* ===== verification/Failover_Classify.thy ===== *)
theory Failover_Classify
  imports Prelude
begin

text \<open>
  Failure classification of the failover engine
  (\<open>gateway/src/middlewares/psFailover/index.ts\<close>, "classification"): a provider failure is
  reduced to a \<open>failure_info\<close>, and \<open>classifyFailure\<close> maps it to an error class, the action of
  the failover matrix and whether it counts against the provider's circuit breaker.

  The two regular expressions of the source have no repetition, so each is a finite set of
  literals searched without regard to ASCII case.
\<close>

datatype failover_action = Retry_after | Next | Next_larger_context | Raise

datatype skip_reason = Circuit_open | Context_window | Non_compliant

record failure_info =
  fi_status :: "int option"
  fi_kind :: "string option"
  fi_code :: "string option"
  fi_message :: "string option"
  fi_retryAfter :: "jsnum option"

definition empty_info :: failure_info where
  "empty_info = \<lparr>fi_status = None, fi_kind = None, fi_code = None, fi_message = None,
     fi_retryAfter = None\<rparr>"

record classification =
  errorClass :: string
  action :: failover_action
  tripsBreaker :: bool

definition CONTENT_FILTER_CODES :: "string list" where
  "CONTENT_FILTER_CODES = [''content_filter'', ''content_policy_violation'']"

text \<open>\<open>/content[ _-]?(management )?(filter|policy)/i\<close>\<close>

definition CONTENT_FILTER_RE :: "string list" where
  "CONTENT_FILTER_RE = [''content'' @ sep @ mgmt @ what .
     sep \<leftarrow> ['''', '' '', ''_'', ''-''], mgmt \<leftarrow> ['''', ''management ''],
     what \<leftarrow> [''filter'', ''policy'']]"

text \<open>\<open>/context[ _-]?(length|window)|prompt is too long|too many (input )?tokens/i\<close>\<close>

definition CONTEXT_RE :: "string list" where
  "CONTEXT_RE = [''context'' @ sep @ what .
     sep \<leftarrow> ['''', '' '', ''_'', ''-''], what \<leftarrow> [''length'', ''window'']]
     @ [''prompt is too long'', ''too many tokens'', ''too many input tokens'']"

definition re_test :: "string list \<Rightarrow> string \<Rightarrow> bool" where
  "re_test alts s \<longleftrightarrow> list_ex (\<lambda>lit. includes_str (to_lower s) lit) alts"

definition cls :: "string \<Rightarrow> failover_action \<Rightarrow> bool \<Rightarrow> classification" where
  "cls e a t = \<lparr>errorClass = e, action = a, tripsBreaker = t\<rparr>"

definition str_or_empty :: "string option \<Rightarrow> string" where
  "str_or_empty s = (case s of None \<Rightarrow> [] | Some t \<Rightarrow> t)"

text \<open>The refusals that are looked for in a status below 500.\<close>

definition is_content_filter :: "failure_info \<Rightarrow> bool" where
  "is_content_filter info \<longleftrightarrow>
     to_lower (str_or_empty (fi_code info)) \<in> set CONTENT_FILTER_CODES \<or>
     re_test CONTENT_FILTER_RE (str_or_empty (fi_message info))"

definition is_context_length :: "int \<Rightarrow> failure_info \<Rightarrow> bool" where
  "is_context_length status info \<longleftrightarrow> status = 413 \<or>
     (status = 400 \<and> (to_lower (str_or_empty (fi_code info)) = ''context_length_exceeded'' \<or>
                       re_test CONTEXT_RE (str_or_empty (fi_message info))))"

definition classifyFailure :: "failure_info \<Rightarrow> classification" where
  "classifyFailure info =
    (if fi_kind info = Some ''stream_interrupted'' then cls ''stream_interrupted'' Raise True
     else if fi_kind info = Some ''timeout'' then cls ''timeout'' Next True
     else if fi_kind info = Some ''network'' then cls ''network_error'' Next True
     else case fi_status info of
       None \<Rightarrow> cls ''unknown_error'' Raise False
     | Some status \<Rightarrow>
         if status < 500 \<and> is_content_filter info then cls ''content_filter'' Raise False
         else if status < 500 \<and> is_context_length status info
           then cls ''context_length_exceeded'' Next_larger_context False
         else if status = 408 \<or> status = 504 then cls ''timeout'' Next True
         else if status = 429 then cls ''rate_limited'' Retry_after True
         else if status \<ge> 500 then cls ''server_error'' Next True
         else if status \<ge> 400 then cls ''client_error'' Raise False
         else cls ''unknown_error'' Raise False)"

text \<open>\<open>Math.max(0, x)\<close>.\<close>

fun js_max0 :: "jsnum \<Rightarrow> jsnum" where
  "js_max0 (Fin a) = Fin (max 0 a)"
| "js_max0 PosInf = PosInf"
| "js_max0 NegInf = Fin 0"
| "js_max0 NaN = NaN"

fun js_minus_int :: "jsnum \<Rightarrow> int \<Rightarrow> jsnum" where
  "js_minus_int (Fin a) n = Fin (a - of_int n)"
| "js_minus_int x n = x"

text \<open>
  \<open>retryAfterOf\<close>: \<open>headers\<close> is the \<open>get\<close> function of a header bag (\<open>None\<close> for no headers).
  The dialect of \<open>Date.parse\<close> is left to the JavaScript engine, so it is a parameter, and
  \<open>dateNow\<close> is the value of \<open>Date.now()\<close>.
\<close>

definition retryAfterOf ::
  "(string \<Rightarrow> jsnum) \<Rightarrow> int \<Rightarrow> (string \<Rightarrow> string option) option \<Rightarrow> jsnum option" where
  "retryAfterOf dateParse dateNow headers =
    (case headers of None \<Rightarrow> None
     | Some get \<Rightarrow>
        (case (case get ''retry-after-ms'' of None \<Rightarrow> None
               | Some ms \<Rightarrow> if trim ms \<noteq> [] \<and> js_Number ms \<noteq> NaN
                   then Some (js_max0 (js_div1000 (js_Number ms))) else None) of
           Some r \<Rightarrow> Some r
         | None \<Rightarrow>
            (case get ''retry-after'' of None \<Rightarrow> None
             | Some v \<Rightarrow>
                if trim v = [] then None
                else if js_Number v \<noteq> NaN then Some (js_max0 (js_Number v))
                else let w = dateParse v in
                     if w = NaN then None
                     else Some (js_max0 (js_div1000 (js_minus_int w dateNow))))))"

text \<open>What a provider call can throw: the engine's own \<open>UpstreamError\<close>, a \<open>TypeError\<close> (what
  \<open>fetch\<close> throws when a connection fails), or any other value with an optional \<open>name\<close>.\<close>

datatype thrown =
    Upstream_error failure_info
  | Type_error "string option" string
  | Other_error "string option"

fun thrown_name :: "thrown \<Rightarrow> string option" where
  "thrown_name (Upstream_error _) = Some ''UpstreamError''"
| "thrown_name (Type_error n _) = n"
| "thrown_name (Other_error n) = n"

definition failureFromError :: "thrown \<Rightarrow> failure_info" where
  "failureFromError err =
    (case err of Upstream_error info \<Rightarrow> info
     | _ \<Rightarrow>
        if thrown_name err = Some ''AbortError'' \<or> thrown_name err = Some ''TimeoutError''
        then empty_info\<lparr>fi_kind := Some ''timeout''\<rparr>
        else case err of
          Type_error _ msg \<Rightarrow>
            if re_test [''fetch'', ''network'', ''socket''] msg
            then empty_info\<lparr>fi_kind := Some ''network''\<rparr> else empty_info
        | _ \<Rightarrow> empty_info)"

subsection \<open>The failover matrix\<close>

lemmas classify_defs = classifyFailure_def cls_def

lemma classify_action_cases:
  "action (classifyFailure info) = Raise \<or> tripsBreaker (classifyFailure info) \<or>
   action (classifyFailure info) = Next_larger_context"
  by (auto simp: classify_defs split: option.splits)

lemma client_error_raises:
  assumes "fi_status info = Some s" "400 \<le> s" "s < 500" "s \<notin> {408, 413, 429}"
    and "\<not> is_context_length s info"
    and "fi_kind info = None"
  shows "action (classifyFailure info) = Raise \<and> \<not> tripsBreaker (classifyFailure info)"
  using assms by (simp add: classify_defs)

lemma server_error_fails_over:
  assumes "fi_status info = Some s" "500 \<le> s" "fi_kind info = None"
  shows "action (classifyFailure info) = Next \<and> tripsBreaker (classifyFailure info)"
  using assms by (simp add: classify_defs)

lemma raise_and_trip_is_interrupted_stream:
  "action (classifyFailure info) = Raise \<and> tripsBreaker (classifyFailure info) \<longleftrightarrow>
   fi_kind info = Some ''stream_interrupted''"
  by (auto simp: classify_defs split: option.splits)

lemma js_max0_nonneg: "js_max0 x \<noteq> NaN \<Longrightarrow> js_ge (js_max0 x) (Fin 0)"
  by (cases x) auto

lemma js_div1000_NaN [simp]: "js_div1000 x = NaN \<longleftrightarrow> x = NaN"
  by (cases x) auto

lemma js_max0_NaN [simp]: "js_max0 x = NaN \<longleftrightarrow> x = NaN"
  by (cases x) auto

lemma js_minus_int_NaN [simp]: "js_minus_int x n = NaN \<longleftrightarrow> x = NaN"
  by (cases x) auto

text \<open>A wait read from the headers is a number and never negative.\<close>

lemma retryAfterOf_nonneg:
  "retryAfterOf dp now h = Some r \<Longrightarrow> js_ge r (Fin 0)"
  by (auto simp: retryAfterOf_def Let_def intro!: js_max0_nonneg
      split: option.splits if_splits)

text \<open>The part of the matrix that keeps the data policy: a refusal by a content filter is never
  retried elsewhere and says nothing about the provider's health.
\<close>

lemma content_filter_raises:
  assumes "fi_status info = Some s" "s < 500" "is_content_filter info"
    and "fi_kind info \<notin> {Some ''timeout'', Some ''network'', Some ''stream_interrupted''}"
  shows "action (classifyFailure info) = Raise \<and> \<not> tripsBreaker (classifyFailure info)"
  using assms by (simp add: classify_defs)

text \<open>A wait taken from the \<open>retry-after-ms\<close> or \<open>retry-after\<close> header is always a number and never
  negative, whatever the header holds and whatever \<open>Date.parse\<close> makes of it.\<close>

lemma retryAfter_nonneg:
  "\<forall>r. retryAfterOf dp now h = Some r \<longrightarrow> js_ge r (Fin 0) \<and> r \<noteq> NaN"
  using retryAfterOf_nonneg [of dp now h] by auto

end
