(* ===== verification/Circuit_Breaker.thy ===== *)
theory Circuit_Breaker
  imports Prelude
begin

text \<open>
  The per-provider circuit breaker (\<open>class CircuitBreaker\<close> of
  \<open>gateway/src/middlewares/psFailover/index.ts\<close>): its mutable fields are a record, the
  configuration is an argument, and the clock reading an operation takes is its \<open>now\<close> argument
  (no operation reads the clock twice). Every operation also returns the transitions it
  reported through \<open>onTransition\<close>, oldest first.

  Shown here: the breaker's invariant, that the transitions of any run follow the state machine
  closed -> open -> half_open -> closed or open, that an open breaker admits nothing before its
  wait is over, and that at most \<open>halfOpenMaxProbes\<close> calls are admitted while half-open.
\<close>

datatype breaker_state = Closed | Open | Half_open

record breaker_config =
  failureThreshold :: jsnum
  openSeconds :: jsnum
  halfOpenMaxProbes :: jsnum

definition DEFAULT_BREAKER_CONFIG :: breaker_config where
  "DEFAULT_BREAKER_CONFIG =
     \<lparr>failureThreshold = Fin 5, openSeconds = Fin 30, halfOpenMaxProbes = Fin 1\<rparr>"

record breaker =
  br_state :: breaker_state
  failures :: nat
  openedAt :: rat
  probes :: nat

type_synonym transition = "breaker_state \<times> breaker_state"

datatype range_error =
    Bad_failureThreshold
  | Bad_openSeconds
  | Bad_halfOpenMaxProbes
  | Bad_maxEntries

abbreviation js_nat :: "nat \<Rightarrow> jsnum" where
  "js_nat n \<equiv> Fin (of_nat n)"

definition breaker_init :: breaker where
  "breaker_init = \<lparr>br_state = Closed, failures = 0, openedAt = 0, probes = 0\<rparr>"

text \<open>The constructor; its guards are written \<open>!(x >= 1)\<close>, so NaN is refused too.\<close>

definition new_CircuitBreaker :: "breaker_config \<Rightarrow> range_error + breaker" where
  "new_CircuitBreaker cfg =
    (if \<not> js_ge (failureThreshold cfg) (Fin 1) then Inl Bad_failureThreshold
     else if \<not> js_ge (openSeconds cfg) (Fin 0) then Inl Bad_openSeconds
     else if \<not> js_ge (halfOpenMaxProbes cfg) (Fin 1) then Inl Bad_halfOpenMaxProbes
     else Inr breaker_init)"

definition move :: "rat \<Rightarrow> breaker_state \<Rightarrow> breaker \<Rightarrow> breaker \<times> transition list" where
  "move now to b =
    (if to = br_state b then (b, [])
     else (b\<lparr>br_state := to,
             openedAt := (if to = Open then now else openedAt b),
             probes := 0,
             failures := (if to = Closed then 0 else failures b)\<rparr>,
           [(br_state b, to)]))"

definition currentState ::
  "breaker_config \<Rightarrow> rat \<Rightarrow> breaker \<Rightarrow> breaker_state \<times> breaker \<times> transition list" where
  "currentState cfg now b =
    (let (b', ts) =
       (if br_state b = Open \<and> js_ge (Fin (now - openedAt b)) (openSeconds cfg)
        then move now Half_open b else (b, []))
     in (br_state b', b', ts))"

definition cb_allow :: "breaker_config \<Rightarrow> rat \<Rightarrow> breaker \<Rightarrow> bool \<times> breaker \<times> transition list" where
  "cb_allow cfg now b =
    (let (st, b', ts) = currentState cfg now b in
     if st = Closed then (True, b', ts)
     else if st = Half_open \<and> js_lt (js_nat (probes b')) (halfOpenMaxProbes cfg)
       then (True, b'\<lparr>probes := Suc (probes b')\<rparr>, ts)
     else (False, b', ts))"

definition cb_recordSuccess :: "rat \<Rightarrow> breaker \<Rightarrow> breaker \<times> transition list" where
  "cb_recordSuccess now b =
    (if br_state b = Half_open then move now Closed b
     else if br_state b = Closed then (b\<lparr>failures := 0\<rparr>, [])
     else (b, []))"

definition cb_recordFailure ::
  "breaker_config \<Rightarrow> rat \<Rightarrow> breaker \<Rightarrow> breaker \<times> transition list" where
  "cb_recordFailure cfg now b =
    (if br_state b = Half_open then move now Open b
     else if br_state b = Closed then
       (let b' = b\<lparr>failures := Suc (failures b)\<rparr> in
        if js_ge (js_nat (failures b')) (failureThreshold cfg) then move now Open b' else (b', []))
     else (b, []))"

definition cb_release :: "breaker \<Rightarrow> breaker" where
  "cb_release b =
    (if br_state b = Half_open \<and> probes b > 0 then b\<lparr>probes := probes b - 1\<rparr> else b)"

definition cb_forceOpen :: "rat \<Rightarrow> breaker \<Rightarrow> breaker \<times> transition list" where
  "cb_forceOpen now b =
    (if br_state b = Open then (b\<lparr>openedAt := now\<rparr>, []) else move now Open b)"

lemmas breaker_defs = move_def currentState_def cb_allow_def cb_recordSuccess_def
  cb_recordFailure_def cb_release_def cb_forceOpen_def

subsection \<open>The state machine\<close>

text \<open>The breaker as a labelled machine: one step per public method, at a clock reading.\<close>

datatype breaker_op = Op_allow | Op_state | Op_success | Op_failure | Op_release | Op_force

definition breaker_step ::
  "breaker_config \<Rightarrow> breaker_op \<times> rat \<Rightarrow> breaker \<Rightarrow> breaker \<times> transition list" where
  "breaker_step cfg on b = (let now = snd on in
    case fst on of
      Op_allow \<Rightarrow> snd (cb_allow cfg now b)
    | Op_state \<Rightarrow> snd (currentState cfg now b)
    | Op_success \<Rightarrow> cb_recordSuccess now b
    | Op_failure \<Rightarrow> cb_recordFailure cfg now b
    | Op_release \<Rightarrow> (cb_release b, [])
    | Op_force \<Rightarrow> cb_forceOpen now b)"

inductive breaker_edge :: "breaker_state \<Rightarrow> breaker_state \<Rightarrow> bool" where
  trip: "breaker_edge Closed Open"
| probe: "breaker_edge Open Half_open"
| recover: "breaker_edge Half_open Closed"
| retrip: "breaker_edge Half_open Open"

inductive_simps breaker_edge_simps [simp]:
  "breaker_edge Closed s" "breaker_edge Open s" "breaker_edge Half_open s"

text \<open>A list of reported transitions is a path of the machine from one state to another.\<close>

fun path :: "breaker_state \<Rightarrow> transition list \<Rightarrow> breaker_state \<Rightarrow> bool" where
  "path s [] t \<longleftrightarrow> s = t"
| "path s ((a, b) # ts) t \<longleftrightarrow> s = a \<and> breaker_edge a b \<and> path b ts t"

lemma path_append: "path s xs u \<Longrightarrow> path u ys t \<Longrightarrow> path s (xs @ ys) t"
proof (induction xs arbitrary: s)
  case (Cons e xs)
  then show ?case by (cases e) auto
qed simp

lemma breaker_step_path: "breaker_step cfg on b = (b', ts) \<Longrightarrow> path (br_state b) ts (br_state b')"
  by (cases "br_state b")
     (auto simp: breaker_step_def breaker_defs Let_def split: breaker_op.splits if_splits)

fun breaker_run ::
  "breaker_config \<Rightarrow> (breaker_op \<times> rat) list \<Rightarrow> breaker \<Rightarrow> breaker \<times> transition list" where
  "breaker_run cfg [] b = (b, [])"
| "breaker_run cfg (on # ops) b =
     (let (b1, t1) = breaker_step cfg on b; (b2, t2) = breaker_run cfg ops b1 in (b2, t1 @ t2))"

lemma breaker_run_path:
  "breaker_run cfg ops b = (b', ts) \<Longrightarrow> path (br_state b) ts (br_state b')"
proof (induction ops arbitrary: b b' ts)
  case (Cons on ops)
  obtain b1 t1 where s: "breaker_step cfg on b = (b1, t1)" by fastforce
  obtain b2 t2 where r: "breaker_run cfg ops b1 = (b2, t2)" by fastforce
  from s r Cons.prems have "b' = b2" "ts = t1 @ t2" by auto
  with breaker_step_path [OF s] Cons.IH [OF r] show ?case
    by (auto intro: path_append)
qed simp

subsection \<open>The invariant\<close>

text \<open>
  Probe slots are only taken while half-open and never beyond the limit; a closed breaker has
  fewer failures than the threshold.
\<close>

definition config_ok :: "breaker_config \<Rightarrow> bool" where
  "config_ok cfg \<longleftrightarrow> js_ge (failureThreshold cfg) (Fin 1) \<and> js_ge (openSeconds cfg) (Fin 0) \<and>
     js_ge (halfOpenMaxProbes cfg) (Fin 1)"

definition breaker_inv :: "breaker_config \<Rightarrow> breaker \<Rightarrow> bool" where
  "breaker_inv cfg b \<longleftrightarrow>
     (br_state b \<noteq> Half_open \<longrightarrow> probes b = 0) \<and>
     (probes b > 0 \<longrightarrow> js_lt (Fin (of_nat (probes b) - 1)) (halfOpenMaxProbes cfg)) \<and>
     (br_state b = Closed \<longrightarrow> js_lt (js_nat (failures b)) (failureThreshold cfg))"

lemma new_CircuitBreaker_iff [return_iff]:
  "new_CircuitBreaker cfg = Inr b \<longleftrightarrow> config_ok cfg \<and> b = breaker_init"
  by (auto simp: new_CircuitBreaker_def config_ok_def)

lemma js_not_ge_lt: "\<not> js_ge x y \<Longrightarrow> x \<noteq> NaN \<Longrightarrow> y \<noteq> NaN \<Longrightarrow> js_lt x y"
  by (cases x; cases y) auto

lemma config_ok_threshold: "config_ok cfg \<Longrightarrow> js_lt (Fin 0) (failureThreshold cfg)"
  by (cases "failureThreshold cfg") (auto simp: config_ok_def)

lemma config_ok_not_NaN: "config_ok cfg \<Longrightarrow> failureThreshold cfg \<noteq> NaN"
  by (auto simp: config_ok_def)

lemma breaker_inv_init [inv_intros]: "config_ok cfg \<Longrightarrow> breaker_inv cfg breaker_init"
  by (simp add: breaker_inv_def breaker_init_def config_ok_threshold)

lemma breaker_inv_move [inv_intros]:
  "config_ok cfg \<Longrightarrow> breaker_inv cfg (b\<lparr>br_state := to, openedAt := a, probes := 0, failures := 0\<rparr>)"
  "config_ok cfg \<Longrightarrow> to \<noteq> Closed \<Longrightarrow>
     breaker_inv cfg (b\<lparr>br_state := to, openedAt := a, probes := 0, failures := k\<rparr>)"
  by (simp_all add: breaker_inv_def config_ok_threshold)

lemma breaker_inv_allow [inv_intros]:
  assumes "config_ok cfg" "breaker_inv cfg b"
  shows "breaker_inv cfg (fst (snd (cb_allow cfg now b)))"
  using assms
  by (auto simp: breaker_inv_def cb_allow_def currentState_def move_def Let_def)

lemma breaker_inv_state [inv_intros]:
  assumes "config_ok cfg" "breaker_inv cfg b"
  shows "breaker_inv cfg (fst (snd (currentState cfg now b)))"
  using assms by (auto simp: breaker_inv_def currentState_def move_def)

lemma breaker_inv_success [inv_intros]:
  assumes "config_ok cfg" "breaker_inv cfg b"
  shows "breaker_inv cfg (fst (cb_recordSuccess now b))"
  using assms config_ok_threshold [OF assms(1)]
  by (auto simp: breaker_inv_def cb_recordSuccess_def move_def)

lemma breaker_inv_failure [inv_intros]:
  assumes "config_ok cfg" "breaker_inv cfg b"
  shows "breaker_inv cfg (fst (cb_recordFailure cfg now b))"
  using assms js_not_ge_lt [where x = "js_nat (Suc (failures b))" and y = "failureThreshold cfg"]
    config_ok_not_NaN [OF assms(1)]
  by (auto simp: breaker_inv_def cb_recordFailure_def move_def Let_def simp del: of_nat_Suc)

lemma breaker_inv_release [inv_intros]:
  assumes "breaker_inv cfg b"
  shows "breaker_inv cfg (cb_release b)"
proof -
  have "js_lt (Fin (of_nat (probes b - Suc 0) - 1)) (halfOpenMaxProbes cfg)"
    if "js_lt (Fin (of_nat (probes b) - 1)) (halfOpenMaxProbes cfg)"
    using that by (cases "halfOpenMaxProbes cfg") (auto simp: of_nat_diff_if)
  with assms show ?thesis by (auto simp: breaker_inv_def cb_release_def)
qed

lemma breaker_inv_force [inv_intros]:
  assumes "config_ok cfg" "breaker_inv cfg b"
  shows "breaker_inv cfg (fst (cb_forceOpen now b))"
  using assms by (auto simp: breaker_inv_def cb_forceOpen_def move_def)

lemma breaker_inv_step [inv_intros]:
  assumes "config_ok cfg" "breaker_inv cfg b"
  shows "breaker_inv cfg (fst (breaker_step cfg on b))"
  using assms
  by (auto simp: breaker_step_def Let_def intro: inv_intros split: breaker_op.splits)

lemma breaker_inv_run [inv_intros]:
  "config_ok cfg \<Longrightarrow> breaker_inv cfg b \<Longrightarrow> breaker_inv cfg (fst (breaker_run cfg ops b))"
proof (induction ops arbitrary: b)
  case (Cons on ops)
  have "breaker_inv cfg (fst (breaker_step cfg on b))"
    using Cons.prems by (rule breaker_inv_step)
  from Cons.IH [OF Cons.prems(1) this] show ?case by (simp add: case_prod_beta)
qed simp

subsection \<open>What the states mean\<close>

lemma open_refuses:
  assumes "br_state b = Open" "\<not> js_ge (Fin (now - openedAt b)) (openSeconds cfg)"
  shows "cb_allow cfg now b = (False, b, [])"
  using assms by (simp add: cb_allow_def currentState_def)

lemma open_recovers:
  assumes "config_ok cfg" "br_state b = Open" "js_ge (Fin (now - openedAt b)) (openSeconds cfg)"
  shows "cb_allow cfg now b =
    (True, b\<lparr>br_state := Half_open, probes := 1\<rparr>, [(Open, Half_open)])"
proof -
  have "js_lt (Fin 0) (halfOpenMaxProbes cfg)"
    using assms(1) by (cases "halfOpenMaxProbes cfg") (auto simp: config_ok_def)
  with assms show ?thesis by (simp add: cb_allow_def currentState_def move_def)
qed

lemma half_open_admits_iff:
  assumes "br_state b = Half_open"
  shows "fst (cb_allow cfg now b) \<longleftrightarrow> js_lt (js_nat (probes b)) (halfOpenMaxProbes cfg)"
  using assms by (simp add: cb_allow_def currentState_def)

text \<open>Consecutive failures of a closed breaker: it opens exactly at the threshold.\<close>

fun fail_times :: "breaker_config \<Rightarrow> rat list \<Rightarrow> breaker \<Rightarrow> breaker" where
  "fail_times cfg [] b = b"
| "fail_times cfg (now # ts) b = fail_times cfg ts (fst (cb_recordFailure cfg now b))"

lemma fail_times_open: "br_state b = Open \<Longrightarrow> fail_times cfg ts b = b"
  by (induction ts) (auto simp: cb_recordFailure_def)

text \<open>Consecutive failures, at any times, open a closed breaker exactly when their number reaches
  the configured threshold; until then it stays closed.\<close>

lemma breaker_opens_exactly_at_threshold:
  assumes "config_ok cfg" "br_state b = Closed" "js_lt (js_nat (failures b)) (failureThreshold cfg)"
  shows "br_state (fail_times cfg ts b) =
    (if js_ge (js_nat (failures b + length ts)) (failureThreshold cfg) then Open else Closed)"
  using assms(2,3)
proof (induction ts arbitrary: b)
  case Nil
  have "js_lt x y \<Longrightarrow> \<not> js_ge x y" for x y by (cases x; cases y) auto
  with Nil show ?case by auto
next
  case (Cons now ts)
  let ?b' = "fst (cb_recordFailure cfg now b)"
  show ?case
  proof (cases "js_ge (js_nat (Suc (failures b))) (failureThreshold cfg)")
    case True
    then have "br_state ?b' = Open"
      using Cons.prems by (simp add: cb_recordFailure_def move_def Let_def del: of_nat_Suc)
    moreover have "js_ge (js_nat (failures b + length (now # ts))) (failureThreshold cfg)"
      by (rule js_ge_Fin_mono [OF True]) (simp del: of_nat_Suc of_nat_add)
    ultimately show ?thesis by (simp add: fail_times_open)
  next
    case False
    then have "?b' = b\<lparr>failures := Suc (failures b)\<rparr>"
      using Cons.prems by (simp add: cb_recordFailure_def Let_def del: of_nat_Suc)
    moreover have "js_lt (js_nat (Suc (failures b))) (failureThreshold cfg)"
      using js_not_ge_lt [OF False] config_ok_not_NaN [OF assms(1)] by simp
    ultimately show ?thesis
      using Cons.prems(1) Cons.IH [of ?b'] by (simp del: of_nat_Suc)
  qed
qed

text \<open>C11. Whatever methods are called on a new breaker and whenever, the transitions it reports form a
  path of the machine closed to open to half-open to closed or open, from closed to its present state, and
  it keeps its invariant: no probe is out unless it is half-open, never more than \<open>halfOpenMaxProbes\<close> are
  out, and a closed breaker has fewer failures than the threshold.\<close>

theorem breaker_run_legal:
  assumes "new_CircuitBreaker cfg = Inr b0" "breaker_run cfg ops b0 = (b', ts)"
  shows "path Closed ts (br_state b') \<and> (br_state b' \<noteq> Half_open \<longrightarrow> probes b' = 0) \<and>
    (probes b' > 0 \<longrightarrow> js_lt (Fin (of_nat (probes b') - 1)) (halfOpenMaxProbes cfg)) \<and>
    (br_state b' = Closed \<longrightarrow> js_lt (js_nat (failures b')) (failureThreshold cfg))"
proof -
  have cfg: "config_ok cfg" "b0 = breaker_init" using assms(1) by (simp_all add: return_iff)
  with breaker_inv_run [OF cfg(1) breaker_inv_init [OF cfg(1)], of ops] assms(2)
  have "breaker_inv cfg b'" by simp
  moreover have "path (br_state b0) ts (br_state b')" using assms(2) by (rule breaker_run_path)
  ultimately show ?thesis using cfg(2) by (simp add: breaker_inv_def breaker_init_def)
qed

theorem breaker_run_legal_witness:
  "path Closed (snd (breaker_run DEFAULT_BREAKER_CONFIG [(Op_force, 0), (Op_allow, 31), (Op_success, 32)] breaker_init)) Closed"
proof -
  let ?r = "breaker_run DEFAULT_BREAKER_CONFIG [(Op_force, 0), (Op_allow, 31), (Op_success, 32)] breaker_init"
  have "new_CircuitBreaker DEFAULT_BREAKER_CONFIG = Inr breaker_init" by code_simp
  moreover have "br_state (fst ?r) = Closed" by code_simp
  ultimately show ?thesis
    using breaker_run_legal [of DEFAULT_BREAKER_CONFIG breaker_init _ "fst ?r" "snd ?r"]
    by (metis prod.collapse)
qed

text \<open>An open breaker refuses every call until \<open>openSeconds\<close> have passed since it opened, and the
  first call after that is admitted as a probe.\<close>

lemma open_breaker_cooldown:
  assumes "config_ok cfg" "br_state b = Open"
  shows "cb_allow cfg now b =
    (if js_ge (Fin (now - openedAt b)) (openSeconds cfg)
     then (True, b\<lparr>br_state := Half_open, probes := 1\<rparr>, [(Open, Half_open)])
     else (False, b, []))"
  using open_refuses [OF assms(2)] open_recovers [OF assms] by simp

end
