(* ===== verification/Breaker_Registry.thy ===== *)
theory Breaker_Registry
  imports Circuit_Breaker
begin

text \<open>
  The registry of breakers (\<open>class BreakerRegistry\<close> of
  \<open>gateway/src/middlewares/psFailover/index.ts\<close>): an insertion-ordered map that re-inserts
  a breaker when it is used, so its first entry is the least recently used, and evicts from
  the front when it holds more than \<open>maxEntries\<close> providers. The counters of \<open>moved\<close> and the
  increments of the metric \<open>ps_gateway_circuit_breaker_transitions_total\<close> (label and new state,
  oldest first) are part of the state.

  A breaker is created on first use, where its constructor may throw; so every operation that
  can create one returns a sum.
\<close>

record registry =
  rg_config :: breaker_config
  rg_maxEntries :: jsnum
  rg_breakers :: "(string, breaker) jmap"
  rg_opened :: nat
  rg_half_opened :: nat
  rg_closed :: nat
  rg_evictions :: nat
  rg_metric :: "(string \<times> breaker_state) list"

text \<open>The constructor: defaults first, then the check of \<open>maxEntries\<close>.\<close>

definition new_BreakerRegistry ::
  "jsnum option \<Rightarrow> jsnum option \<Rightarrow> jsnum option \<Rightarrow> jsnum option \<Rightarrow> range_error + registry" where
  "new_BreakerRegistry threshold openSecs maxProbes maxEntries =
    (let d = DEFAULT_BREAKER_CONFIG; opt = (\<lambda>x dflt. case x of None \<Rightarrow> dflt | Some v \<Rightarrow> v);
         m = opt maxEntries (Fin 256)
     in if \<not> js_ge m (Fin 1) then Inl Bad_maxEntries
        else Inr \<lparr>rg_config = \<lparr>failureThreshold = opt threshold (failureThreshold d),
                             openSeconds = opt openSecs (openSeconds d),
                             halfOpenMaxProbes = opt maxProbes (halfOpenMaxProbes d)\<rparr>,
               rg_maxEntries = m, rg_breakers = [], rg_opened = 0, rg_half_opened = 0,
               rg_closed = 0, rg_evictions = 0, rg_metric = []\<rparr>)"

text \<open>The \<open>while\<close> loop that deletes the oldest entries.\<close>

fun evict_oldest ::
  "jsnum \<Rightarrow> (string, breaker) jmap \<Rightarrow> nat \<Rightarrow> (string, breaker) jmap \<times> nat" where
  "evict_oldest mx [] n = ([], n)"
| "evict_oldest mx (e # m) n =
     (if js_gt (js_nat (length (e # m))) mx then evict_oldest mx m (Suc n) else (e # m, n))"

definition rg_get :: "string \<Rightarrow> registry \<Rightarrow> range_error + breaker \<times> registry" where
  "rg_get provider r =
    (case jm_get (rg_breakers r) provider of
       Some b \<Rightarrow> Inr (b, r\<lparr>rg_breakers := jm_set provider b (jm_del provider (rg_breakers r))\<rparr>)
     | None \<Rightarrow>
        rbind (new_CircuitBreaker (rg_config r)) (\<lambda>b.
          let (m, n) = evict_oldest (rg_maxEntries r) (jm_set provider b (rg_breakers r))
                         (rg_evictions r)
          in Inr (b, r\<lparr>rg_breakers := m, rg_evictions := n\<rparr>)))"

text \<open>\<open>provider.split('#', 1)[0].slice(0, 128)\<close>: the label without the caller scope.\<close>

definition metric_label :: "string \<Rightarrow> string" where
  "metric_label provider = take 128 (takeWhile (\<lambda>ch. ch \<noteq> CHR ''#'') provider)"

definition moved :: "string \<Rightarrow> transition \<Rightarrow> registry \<Rightarrow> registry" where
  "moved provider tr r =
    (let r1 = (case snd tr of
           Open \<Rightarrow> r\<lparr>rg_opened := Suc (rg_opened r)\<rparr>
         | Half_open \<Rightarrow> r\<lparr>rg_half_opened := Suc (rg_half_opened r)\<rparr>
         | Closed \<Rightarrow> r\<lparr>rg_closed := Suc (rg_closed r)\<rparr>)
     in r1\<lparr>rg_metric := rg_metric r1 @ [(metric_label provider, snd tr)]\<rparr>)"

text \<open>Writing a breaker back: the code mutates the object the map holds.\<close>

definition put_breaker :: "string \<Rightarrow> breaker \<times> transition list \<Rightarrow> registry \<Rightarrow> registry" where
  "put_breaker provider bt r =
    fold (moved provider) (snd bt) (r\<lparr>rg_breakers := jm_set provider (fst bt) (rg_breakers r)\<rparr>)"

definition rg_allow :: "string \<Rightarrow> rat \<Rightarrow> registry \<Rightarrow> range_error + bool \<times> registry" where
  "rg_allow provider now r =
    rbind (rg_get provider r) (\<lambda>(b, r1).
      let (ok, bt) = cb_allow (rg_config r) now b in Inr (ok, put_breaker provider bt r1))"

definition rg_recordSuccess :: "string \<Rightarrow> rat \<Rightarrow> registry \<Rightarrow> range_error + registry" where
  "rg_recordSuccess provider now r =
    rbind (rg_get provider r) (\<lambda>(b, r1). Inr (put_breaker provider (cb_recordSuccess now b) r1))"

definition rg_recordFailure :: "string \<Rightarrow> rat \<Rightarrow> registry \<Rightarrow> range_error + registry" where
  "rg_recordFailure provider now r =
    rbind (rg_get provider r) (\<lambda>(b, r1).
      Inr (put_breaker provider (cb_recordFailure (rg_config r) now b) r1))"

definition rg_release :: "string \<Rightarrow> rat \<Rightarrow> registry \<Rightarrow> range_error + registry" where
  "rg_release provider now r =
    rbind (rg_get provider r) (\<lambda>(b, r1). Inr (put_breaker provider (cb_release b, []) r1))"

definition rg_forceOpen :: "string \<Rightarrow> rat \<Rightarrow> registry \<Rightarrow> range_error + registry" where
  "rg_forceOpen provider now r =
    rbind (rg_get provider r) (\<lambda>(b, r1). Inr (put_breaker provider (cb_forceOpen now b) r1))"

text \<open>\<open>state\<close> does not mark the breaker as used and never creates one.\<close>

definition rg_state :: "string \<Rightarrow> rat \<Rightarrow> registry \<Rightarrow> breaker_state \<times> registry" where
  "rg_state provider now r =
    (case jm_get (rg_breakers r) provider of
       None \<Rightarrow> (Closed, r)
     | Some b \<Rightarrow> let (st, bt) = currentState (rg_config r) now b in (st, put_breaker provider bt r))"

fun snapshot_loop ::
  "rat \<Rightarrow> string list \<Rightarrow> registry \<Rightarrow> (string \<times> breaker_state) list \<times> registry" where
  "snapshot_loop now [] r = ([], r)"
| "snapshot_loop now (p # ps) r =
     (let (st, r1) = rg_state p now r; (out, r2) = snapshot_loop now ps r1 in ((p, st) # out, r2))"

definition rg_snapshot :: "rat \<Rightarrow> registry \<Rightarrow> (string \<times> breaker_state) list \<times> registry" where
  "rg_snapshot now r = snapshot_loop now (jm_keys (rg_breakers r)) r"

record registry_metrics =
  m_opened :: nat
  m_half_opened :: nat
  m_closed :: nat
  m_tracked :: nat
  m_evicted :: nat

definition rg_metrics :: "registry \<Rightarrow> registry_metrics" where
  "rg_metrics r = \<lparr>m_opened = rg_opened r, m_half_opened = rg_half_opened r,
     m_closed = rg_closed r, m_tracked = length (rg_breakers r), m_evicted = rg_evictions r\<rparr>"

subsection \<open>Invariant\<close>

text \<open>
  At most \<open>maxEntries\<close> breakers with distinct keys, each in its own invariant; a breaker exists
  only under a valid configuration; the counters count the metric's increments.
\<close>

definition count_to :: "breaker_state \<Rightarrow> (string \<times> breaker_state) list \<Rightarrow> nat" where
  "count_to s xs = length (filter (\<lambda>e. snd e = s) xs)"

definition registry_inv :: "registry \<Rightarrow> bool" where
  "registry_inv r \<longleftrightarrow>
     js_ge (rg_maxEntries r) (Fin 1) \<and>
     jm_wf (rg_breakers r) \<and>
     \<not> js_gt (js_nat (length (rg_breakers r))) (rg_maxEntries r) \<and>
     (\<forall>b \<in> snd ` set (rg_breakers r). config_ok (rg_config r) \<and> breaker_inv (rg_config r) b) \<and>
     rg_opened r = count_to Open (rg_metric r) \<and>
     rg_half_opened r = count_to Half_open (rg_metric r) \<and>
     rg_closed r = count_to Closed (rg_metric r)"

lemma ge1_not_lt0: "js_ge m (Fin 1) \<Longrightarrow> \<not> js_gt (Fin 0) m"
  by (cases m) auto

lemma ge1_not_lt1: "js_ge m (Fin 1) \<Longrightarrow> \<not> js_gt (Fin 1) m"
  by (cases m) auto

lemma registry_inv_new [inv_intros]:
  "new_BreakerRegistry t s p m = Inr r \<Longrightarrow> registry_inv r"
  by (auto simp: new_BreakerRegistry_def registry_inv_def count_to_def Let_def ge1_not_lt0
      split: if_splits option.splits)

lemma evict_oldest_drop: "\<exists>k. fst (evict_oldest mx m n) = drop k m"
proof (induction m arbitrary: n)
  case (Cons e m)
  show ?case
  proof (cases "js_gt (js_nat (length (e # m))) mx")
    case True
    from Cons obtain k where "fst (evict_oldest mx m (Suc n)) = drop k m" by blast
    with True have "fst (evict_oldest mx (e # m) n) = drop (Suc k) (e # m)" by simp
    then show ?thesis ..
  next
    case False
    then have "fst (evict_oldest mx (e # m) n) = drop 0 (e # m)" by simp
    then show ?thesis ..
  qed
qed simp

lemma evict_oldest_bound:
  "js_ge mx (Fin 1) \<Longrightarrow> \<not> js_gt (js_nat (length (fst (evict_oldest mx m n)))) mx"
  by (induction m arbitrary: n) (auto dest: ge1_not_lt0)

lemma evict_oldest_keeps_last:
  "js_ge mx (Fin 1) \<Longrightarrow> e \<in> set (fst (evict_oldest mx (m @ [e]) n))"
proof (induction m arbitrary: n)
  case Nil
  then show ?case using ge1_not_lt1 [of mx] by simp
next
  case (Cons x m)
  then show ?case by simp
qed

lemma evict_oldest_id: "\<not> js_gt (js_nat (length m)) mx \<Longrightarrow> evict_oldest mx m n = (m, n)"
  by (cases m) auto

text \<open>What one use of a breaker does to the map.\<close>

lemma registry_inv_breakers:
  assumes "registry_inv r" "jm_wf m" "\<not> js_gt (js_nat (length m)) (rg_maxEntries r)"
    and "config_ok (rg_config r)" "snd ` set m \<subseteq> insert b (snd ` set (rg_breakers r))"
    and "breaker_inv (rg_config r) b"
  shows "registry_inv (r\<lparr>rg_breakers := m\<rparr>)"
proof -
  have "breaker_inv (rg_config r) x" if "x \<in> snd ` set m" for x
    using that assms(1,5,6) unfolding registry_inv_def by blast
  with assms(1-4) show ?thesis by (simp add: registry_inv_def)
qed

lemma snd_set_jm_set: "snd ` set (jm_set k v m) \<subseteq> insert v (snd ` set m)"
proof (induction m)
  case (Cons e m)
  then show ?case by (cases e) auto
qed simp

lemma snd_set_jm_del: "snd ` set (jm_del k m) \<subseteq> snd ` set m"
  by (auto simp: jm_del_def)

definition uses_breaker :: "string \<Rightarrow> registry \<Rightarrow> breaker \<Rightarrow> registry \<Rightarrow> bool" where
  "uses_breaker p r b r1 \<longleftrightarrow>
     config_ok (rg_config r) \<and> breaker_inv (rg_config r) b \<and>
     registry_inv r1 \<and> jm_get (rg_breakers r1) p = Some b \<and> rg_config r1 = rg_config r"

lemma rg_get_old:
  assumes "registry_inv r" "jm_get (rg_breakers r) p = Some b"
  shows "rg_get p r = Inr (b, r\<lparr>rg_breakers := jm_del p (rg_breakers r) @ [(p, b)]\<rparr>)"
    and "registry_inv (r\<lparr>rg_breakers := jm_del p (rg_breakers r) @ [(p, b)]\<rparr>)"
proof -
  show "rg_get p r = Inr (b, r\<lparr>rg_breakers := jm_del p (rg_breakers r) @ [(p, b)]\<rparr>)"
    using assms(2) by (simp add: rg_get_def jm_set_after_del)
  have mem: "(p, b) \<in> set (rg_breakers r)" using assms(2) by (rule jm_get_Some_in)
  have wf: "jm_wf (rg_breakers r)" using assms(1) by (simp add: registry_inv_def)
  have "length (jm_del p (rg_breakers r) @ [(p, b)]) = length (rg_breakers r)"
    using length_jm_del_present [OF wf, of p] mem by force
  moreover have "jm_wf (jm_del p (rg_breakers r) @ [(p, b)])"
    using jm_wf_set [OF jm_wf_del [OF wf, of p], of p b] by (simp add: jm_set_after_del)
  moreover have "b \<in> snd ` set (rg_breakers r)" using mem by force
  moreover from this assms(1) have "config_ok (rg_config r)" "breaker_inv (rg_config r) b"
    by (auto simp: registry_inv_def)
  ultimately show "registry_inv (r\<lparr>rg_breakers := jm_del p (rg_breakers r) @ [(p, b)]\<rparr>)"
    using assms(1) snd_set_jm_del [of p "rg_breakers r"]
    by (intro registry_inv_breakers [where b = b]) (auto simp: registry_inv_def)
qed

lemma rg_get_new:
  assumes "registry_inv r" "jm_get (rg_breakers r) p = None" "config_ok (rg_config r)"
    and e: "evict_oldest (rg_maxEntries r) (rg_breakers r @ [(p, breaker_init)]) (rg_evictions r) = (m, n)"
  shows "rg_get p r = Inr (breaker_init, r\<lparr>rg_breakers := m, rg_evictions := n\<rparr>)"
    and "registry_inv (r\<lparr>rg_breakers := m, rg_evictions := n\<rparr>)"
    and "jm_get m p = Some breaker_init"
proof -
  have fresh: "p \<notin> fst ` set (rg_breakers r)" using assms(2) by (simp add: map_of_eq_None_iff)
  have new: "new_CircuitBreaker (rg_config r) = Inr breaker_init"
    using assms(3) by (simp add: return_iff)
  show "rg_get p r = Inr (breaker_init, r\<lparr>rg_breakers := m, rg_evictions := n\<rparr>)"
    using assms(2) new e by (simp add: rg_get_def jm_set_fresh [OF fresh])
  let ?l = "rg_breakers r @ [(p, breaker_init)]"
  have mx: "js_ge (rg_maxEntries r) (Fin 1)" using assms(1) by (simp add: registry_inv_def)
  obtain k where m: "m = drop k ?l" using evict_oldest_drop [of "rg_maxEntries r" ?l "rg_evictions r"] e by auto
  have wl: "jm_wf ?l" using assms(1) fresh by (auto simp: registry_inv_def jm_wf_def)
  have wm: "jm_wf m" unfolding m using wl by (rule jm_wf_drop)
  have "set m \<subseteq> set ?l" unfolding m by (rule set_drop_subset)
  then have "\<forall>b \<in> snd ` set m. config_ok (rg_config r) \<and> breaker_inv (rg_config r) b"
    using assms(1,3) breaker_inv_init [OF assms(3)] by (auto simp: registry_inv_def)
  then show "registry_inv (r\<lparr>rg_breakers := m, rg_evictions := n\<rparr>)"
    using assms(1) wm evict_oldest_bound [OF mx, of ?l "rg_evictions r"] e
    by (auto simp: registry_inv_def)
  have "(p, breaker_init) \<in> set m"
    using evict_oldest_keeps_last [OF mx, of "(p, breaker_init)" "rg_breakers r" "rg_evictions r"] e by simp
  then show "jm_get m p = Some breaker_init"
    using wm by (simp add: jm_wf_def)
qed

lemma rg_get_uses:
  assumes "registry_inv r" "rg_get p r = Inr (b, r1)"
  shows "uses_breaker p r b r1"
proof (cases "jm_get (rg_breakers r) p")
  case (Some b')
  then have "b' \<in> snd ` set (rg_breakers r)" by (force dest: jm_get_Some_in)
  with assms(1) have "config_ok (rg_config r)" "breaker_inv (rg_config r) b'"
    by (auto simp: registry_inv_def)
  with rg_get_old [OF assms(1) Some] assms(2) show ?thesis
    by (auto simp: uses_breaker_def map_add_def)
next
  case None
  then have ok: "config_ok (rg_config r)"
    using assms(2) by (auto simp: rg_get_def return_iff case_prod_beta)
  obtain m n where e: "evict_oldest (rg_maxEntries r) (rg_breakers r @ [(p, breaker_init)])
      (rg_evictions r) = (m, n)" by fastforce
  from rg_get_new [OF assms(1) None ok e] assms(2) ok show ?thesis
    by (auto simp: uses_breaker_def intro: breaker_inv_init)
qed

lemma rg_get_total: "config_ok (rg_config r) \<Longrightarrow> \<exists>b r1. rg_get p r = Inr (b, r1)"
  by (auto simp: rg_get_def new_CircuitBreaker_def config_ok_def case_prod_beta Let_def
      split: option.splits)

lemma moved_inv [inv_intros]: "registry_inv r \<Longrightarrow> registry_inv (moved p tr r)"
  by (auto simp: moved_def registry_inv_def count_to_def Let_def split: breaker_state.splits)

lemma moved_fields [simp]:
  "rg_config (moved p tr r) = rg_config r" "rg_breakers (moved p tr r) = rg_breakers r"
  by (auto simp: moved_def Let_def split: breaker_state.splits)

lemma fold_moved_fields [simp]:
  "rg_config (fold (moved p) ts r) = rg_config r" "rg_breakers (fold (moved p) ts r) = rg_breakers r"
  by (induction ts arbitrary: r) auto

lemma fold_moved_inv: "registry_inv r \<Longrightarrow> registry_inv (fold (moved p) ts r)"
  by (induction ts arbitrary: r) (auto intro: moved_inv)

lemma put_breaker_fields [simp]:
  "rg_config (put_breaker p bt r) = rg_config r"
  "rg_breakers (put_breaker p bt r) = jm_set p (fst bt) (rg_breakers r)"
  by (simp_all add: put_breaker_def)

lemma put_breaker_inv:
  assumes "registry_inv r" "jm_get (rg_breakers r) p = Some b0" "breaker_inv (rg_config r) (fst bt)"
  shows "registry_inv (put_breaker p bt r)"
proof -
  have k: "p \<in> fst ` set (rg_breakers r)" using assms(2) by (force dest: jm_get_Some_in)
  have "config_ok (rg_config r)" using assms(1,2) by (force simp: registry_inv_def dest: jm_get_Some_in)
  then have "registry_inv (r\<lparr>rg_breakers := jm_set p (fst bt) (rg_breakers r)\<rparr>)"
    using assms(1,3) k snd_set_jm_set [of p "fst bt" "rg_breakers r"]
    by (intro registry_inv_breakers [where b = "fst bt"])
       (auto simp: registry_inv_def length_jm_set intro: jm_wf_set)
  then show ?thesis unfolding put_breaker_def by (rule fold_moved_inv)
qed

lemma uses_breaker_put:
  "uses_breaker p r b r1 \<Longrightarrow> breaker_inv (rg_config r) (fst bt) \<Longrightarrow> registry_inv (put_breaker p bt r1)"
  by (auto simp: uses_breaker_def intro: put_breaker_inv)

lemma registry_inv_allow [inv_intros]:
  assumes "registry_inv r" "rg_allow p now r = Inr (ok, r')"
  shows "registry_inv r'"
proof -
  obtain b r1 where g: "rg_get p r = Inr (b, r1)"
    and r': "r' = put_breaker p (snd (cb_allow (rg_config r) now b)) r1"
    using assms(2) by (auto simp: rg_allow_def return_iff case_prod_beta Let_def)
  have u: "uses_breaker p r b r1" using assms(1) g by (rule rg_get_uses)
  then have "breaker_inv (rg_config r) (fst (snd (cb_allow (rg_config r) now b)))"
    by (auto simp: uses_breaker_def intro: breaker_inv_allow)
  with u show ?thesis unfolding r' by (rule uses_breaker_put)
qed

lemma registry_inv_success [inv_intros]:
  assumes "registry_inv r" "rg_recordSuccess p now r = Inr r'"
  shows "registry_inv r'"
  using assms by (auto simp: rg_recordSuccess_def return_iff dest!: rg_get_uses
      intro!: uses_breaker_put breaker_inv_success) (auto simp: uses_breaker_def)

lemma registry_inv_failure [inv_intros]:
  assumes "registry_inv r" "rg_recordFailure p now r = Inr r'"
  shows "registry_inv r'"
  using assms by (auto simp: rg_recordFailure_def return_iff dest!: rg_get_uses
      intro!: uses_breaker_put breaker_inv_failure) (auto simp: uses_breaker_def)

lemma registry_inv_release [inv_intros]:
  assumes "registry_inv r" "rg_release p now r = Inr r'"
  shows "registry_inv r'"
  using assms by (auto simp: rg_release_def return_iff dest!: rg_get_uses
      intro!: uses_breaker_put breaker_inv_release) (auto simp: uses_breaker_def)

lemma registry_inv_force [inv_intros]:
  assumes "registry_inv r" "rg_forceOpen p now r = Inr r'"
  shows "registry_inv r'"
  using assms by (auto simp: rg_forceOpen_def return_iff dest!: rg_get_uses
      intro!: uses_breaker_put breaker_inv_force) (auto simp: uses_breaker_def)

lemma registry_inv_state [inv_intros]:
  assumes "registry_inv r"
  shows "registry_inv (snd (rg_state p now r))"
proof (cases "jm_get (rg_breakers r) p")
  case (Some b)
  then have "b \<in> snd ` set (rg_breakers r)" by (force dest: jm_get_Some_in)
  with assms have "config_ok (rg_config r)" "breaker_inv (rg_config r) b" by (auto simp: registry_inv_def)
  then have "breaker_inv (rg_config r) (fst (snd (currentState (rg_config r) now b)))"
    by (rule breaker_inv_state)
  with Some put_breaker_inv [OF assms Some] show ?thesis
    by (simp add: rg_state_def case_prod_beta)
qed (simp add: rg_state_def assms)

lemma registry_inv_snapshot_loop: "registry_inv r \<Longrightarrow> registry_inv (snd (snapshot_loop now ps r))"
proof (induction ps arbitrary: r)
  case (Cons p ps)
  from Cons.IH [OF registry_inv_state [OF Cons.prems]] show ?case by (simp add: case_prod_beta)
qed simp

subsection \<open>Isolation\<close>

text \<open>Using one provider's breaker leaves every other breaker as it was, or evicts it.\<close>

lemma map_of_drop: "jm_wf m \<Longrightarrow> map_of (drop k m) q = map_of m q \<or> map_of (drop k m) q = None"
proof (induction m arbitrary: k)
  case (Cons e m)
  show ?case
  proof (cases k)
    case (Suc k')
    have "jm_wf m" using Cons.prems by (rule jm_wf_ConsD)
    from Cons.IH [OF this, of k'] show ?thesis
    proof
      assume h: "map_of (drop k' m) q = map_of m q"
      show ?thesis
      proof (cases "fst e = q")
        case True
        with Cons.prems have "map_of m q = None" by (auto simp: jm_wf_def map_of_eq_None_iff)
        with h Suc show ?thesis by simp
      next
        case False
        with h Suc show ?thesis by (cases e) simp
      qed
    qed (use Suc in simp)
  qed simp
qed simp

definition untouched :: "string \<Rightarrow> registry \<Rightarrow> registry \<Rightarrow> bool" where
  "untouched q r r' \<longleftrightarrow> jm_get (rg_breakers r') q = jm_get (rg_breakers r) q \<or>
     jm_get (rg_breakers r') q = None"

lemma rg_get_untouched:
  assumes "registry_inv r" "rg_get p r = Inr (b, r1)" "q \<noteq> p"
  shows "untouched q r r1"
proof (cases "jm_get (rg_breakers r) p")
  case (Some b')
  with rg_get_old(1) [OF assms(1) Some] assms(2,3) show ?thesis
    by (auto simp: untouched_def map_add_def split: option.splits)
next
  case None
  then have ok: "config_ok (rg_config r)"
    using assms(2) by (auto simp: rg_get_def return_iff case_prod_beta)
  let ?l = "rg_breakers r @ [(p, breaker_init)]"
  obtain m n where e: "evict_oldest (rg_maxEntries r) ?l (rg_evictions r) = (m, n)" by fastforce
  obtain k where m: "m = drop k ?l"
    using evict_oldest_drop [of "rg_maxEntries r" ?l "rg_evictions r"] e by auto
  have "jm_wf ?l" using assms(1) None by (auto simp: registry_inv_def jm_wf_def map_of_eq_None_iff)
  from map_of_drop [OF this, of k q] m
  have "map_of m q = map_of ?l q \<or> map_of m q = None" by simp
  moreover have "map_of ?l q = jm_get (rg_breakers r) q"
    using assms(3) by (simp add: map_add_def split: option.splits)
  ultimately show ?thesis
    using rg_get_new(1) [OF assms(1) None ok e] assms(2) by (auto simp: untouched_def)
qed

lemma put_breaker_untouched: "q \<noteq> p \<Longrightarrow> untouched q r r1 \<Longrightarrow> untouched q r (put_breaker p bt r1)"
  by (simp add: untouched_def)

text \<open>The public operations that change a breaker, as one step of the registry.\<close>

datatype registry_op = R_allow | R_success | R_failure | R_release | R_force

definition registry_step :: "registry_op \<Rightarrow> string \<Rightarrow> rat \<Rightarrow> registry \<Rightarrow> range_error + registry" where
  "registry_step op p now r = (case op of
      R_allow \<Rightarrow> rbind (rg_allow p now r) (\<lambda>(ok, r'). Inr r')
    | R_success \<Rightarrow> rg_recordSuccess p now r
    | R_failure \<Rightarrow> rg_recordFailure p now r
    | R_release \<Rightarrow> rg_release p now r
    | R_force \<Rightarrow> rg_forceOpen p now r)"

fun registry_run :: "(registry_op \<times> string \<times> rat) list \<Rightarrow> registry \<Rightarrow> range_error + registry" where
  "registry_run [] r = Inr r"
| "registry_run ((op, p, now) # xs) r = rbind (registry_step op p now r) (registry_run xs)"

lemma registry_inv_step: "registry_inv r \<Longrightarrow> registry_step op p now r = Inr r' \<Longrightarrow> registry_inv r'"
  by (auto simp: registry_step_def return_iff split: registry_op.splits
      intro: registry_inv_allow registry_inv_success registry_inv_failure registry_inv_release
        registry_inv_force)

lemma registry_step_put:
  "registry_step op p now r = Inr r' \<Longrightarrow> \<exists>b r1 bt. rg_get p r = Inr (b, r1) \<and> r' = put_breaker p bt r1"
  by (auto simp: registry_step_def rg_allow_def rg_recordSuccess_def rg_recordFailure_def rg_release_def
      rg_forceOpen_def return_iff case_prod_beta Let_def split: registry_op.splits)
     (metis prod.collapse)+

text \<open>Operations on one provider's breaker never change another provider's: afterwards it is as it
  was, or it has been evicted as the least recently used.\<close>

lemma breakers_isolated:
  assumes "registry_inv r" "registry_step op p now r = Inr r'" "q \<noteq> p"
  shows "jm_get (rg_breakers r') q = jm_get (rg_breakers r) q \<or> jm_get (rg_breakers r') q = None"
proof -
  obtain b r1 bt where g: "rg_get p r = Inr (b, r1)" "r' = put_breaker p bt r1"
    using registry_step_put [OF assms(2)] by blast
  show ?thesis
    using put_breaker_untouched [OF assms(3) rg_get_untouched [OF assms(1) g(1) assms(3)], of bt]
    by (simp add: g(2) untouched_def)
qed

text \<open>However it is used, a registry never tracks more than \<open>maxEntries\<close> providers, has one breaker
  per provider, and its transition counters agree with the metric it reports.\<close>

lemma registry_bounded:
  assumes "new_BreakerRegistry t s p m = Inr r0" "registry_run ops r0 = Inr r"
  shows "\<not> js_gt (js_nat (m_tracked (rg_metrics r))) (rg_maxEntries r) \<and> distinct (jm_keys (rg_breakers r)) \<and>
    m_opened (rg_metrics r) = length (filter (\<lambda>e. snd e = Open) (rg_metric r)) \<and>
    m_half_opened (rg_metrics r) = length (filter (\<lambda>e. snd e = Half_open) (rg_metric r)) \<and>
    m_closed (rg_metrics r) = length (filter (\<lambda>e. snd e = Closed) (rg_metric r))"
proof -
  have "registry_inv r" if "registry_inv r1" "registry_run ops r1 = Inr r" for r1
    using that
  proof (induction ops arbitrary: r1)
    case (Cons e ops)
    obtain op q now where e: "e = (op, q, now)" by (cases e)
    with Cons.prems(2) obtain r2 where "registry_step op q now r1 = Inr r2" "registry_run ops r2 = Inr r"
      by (auto simp: return_iff)
    with Cons registry_inv_step show ?case by blast
  qed simp
  with registry_inv_new [OF assms(1)] assms(2) have "registry_inv r" by blast
  then show ?thesis by (simp add: registry_inv_def rg_metrics_def count_to_def jm_wf_def)
qed

definition sample_ops :: "(registry_op \<times> string \<times> rat) list" where
  "sample_ops = [(R_force, ''a'', 1), (R_allow, ''b'', 2), (R_failure, ''c'', 3), (R_allow, ''b'', 4)]"

end
