(* ===== verification/Failover_Engine.thy ===== *)
theory Failover_Engine
  imports Failover_Classify Breaker_Registry
begin

text \<open>
  The failover engine (\<open>runFailover\<close> of \<open>gateway/src/middlewares/psFailover/index.ts\<close>).

  The engine takes its breakers as an option, so it is written over a record of the four breaker
  operations it calls; \<open>breaker_service\<close> is the contract it relies on and \<open>registry_ops\<close> the
  instance the gateway uses. Everything the engine does not own is in a shared state of type
  \<open>'s\<close> that every awaited call may change: the registry (other requests use the same breakers while
  one awaits its provider), the clock and the provider's answers. So the theorems hold under any
  interleaving with other requests.

  \<open>fo_iter\<close> is the body of the \<open>while (c)\<close> loop and \<open>fo_next\<close> its \<open>next()\<close>; the loop ends because an
  iteration either takes a candidate off the queue or uses one of the \<open>rateLimitRetries\<close>.
\<close>

record 'd candidate =
  cd_provider :: string
  cd_model :: string
  cd_contextWindow :: "rat option"
  cd_data :: 'd

record failover_attempt =
  fa_provider :: string
  fa_model :: string
  fa_ok :: bool
  fa_latency_ms :: int
  fa_error_class :: "string option"
  fa_status :: "int option"

record skipped =
  sk_provider :: string
  sk_model :: string
  sk_reason :: skip_reason

text \<open>\<open>chainOf\<close>: the error class of each failed attempt, in order.\<close>

definition chainOf :: "failover_attempt list \<Rightarrow> string list" where
  "chainOf as = [cl. a \<leftarrow> as, \<not> fa_ok a \<and> truthy_str (fa_error_class a),
                     cl \<leftarrow> (case fa_error_class a of None \<Rightarrow> [] | Some cl \<Rightarrow> [cl])]"

record 's breaker_ops =
  bo_allow :: "string \<Rightarrow> 's \<Rightarrow> range_error + bool \<times> 's"
  bo_success :: "string \<Rightarrow> 's \<Rightarrow> range_error + 's"
  bo_failure :: "string \<Rightarrow> 's \<Rightarrow> range_error + 's"
  bo_release :: "string \<Rightarrow> 's \<Rightarrow> range_error + 's"

text \<open>The options of one run with their defaults applied, and the environment it runs in.\<close>

record ('d, 'e, 'r, 's) engine_env =
  en_call :: "'d candidate \<Rightarrow> 's \<Rightarrow> ('e + 'r) \<times> 's"
  en_sleep :: "jsnum \<Rightarrow> 's \<Rightarrow> 's"
  en_dateNow :: "'s \<Rightarrow> int"
  en_allow :: "('d candidate \<Rightarrow> bool) option"
  en_failureOf :: "'e \<Rightarrow> failure_info"
  en_maxWait :: jsnum
  en_rateLimitRetries :: nat

record ('d, 'e, 's) fo_state =
  fs_queue :: "'d candidate list"
  fs_attempts :: "failover_attempt list"
  fs_skipped :: "skipped list"
  fs_minWindow :: "rat option"
  fs_lastError :: "'e option"
  fs_shared :: 's

text \<open>How a run ends: an answer, an error rethrown with its attempts, \<open>NoCompliantCandidate\<close>, or the
  \<open>RangeError\<close> of a breaker that could not be built.\<close>

datatype ('d, 'e, 'r, 's) fo_result =
    FO_done 'r "'d candidate" "failover_attempt list" "skipped list" 's
  | FO_raised 'e "failover_attempt list" "skipped list" 's
  | FO_no_candidate "failover_attempt list" "skipped list" "'e option" 's
  | FO_range range_error

fun fo_attempts :: "('d, 'e, 'r, 's) fo_result \<Rightarrow> failover_attempt list" where
  "fo_attempts (FO_done r c as sk s) = as"
| "fo_attempts (FO_raised e as sk s) = as"
| "fo_attempts (FO_no_candidate as sk e s) = as"
| "fo_attempts (FO_range e) = []"

fun fo_skipped :: "('d, 'e, 'r, 's) fo_result \<Rightarrow> skipped list" where
  "fo_skipped (FO_done r c as sk s) = sk"
| "fo_skipped (FO_raised e as sk s) = sk"
| "fo_skipped (FO_no_candidate as sk e s) = sk"
| "fo_skipped (FO_range e) = []"

definition skip_entry :: "'d candidate \<Rightarrow> skip_reason \<Rightarrow> skipped" where
  "skip_entry c why = \<lparr>sk_provider = cd_provider c, sk_model = cd_model c, sk_reason = why\<rparr>"

definition permitted :: "('d, 'e, 'r, 's) engine_env \<Rightarrow> 'd candidate \<Rightarrow> bool" where
  "permitted env c \<longleftrightarrow> (case en_allow env of None \<Rightarrow> True | Some f \<Rightarrow> f c)"

definition window_ok :: "rat option \<Rightarrow> 'd candidate \<Rightarrow> bool" where
  "window_ok mw c \<longleftrightarrow> (case mw of None \<Rightarrow> True
     | Some m \<Rightarrow> (case cd_contextWindow c of None \<Rightarrow> False | Some w \<Rightarrow> m < w))"

fun next_loop ::
  "'s breaker_ops \<Rightarrow> ('d, 'e, 'r, 's) engine_env \<Rightarrow> rat option \<Rightarrow> 'd candidate list \<Rightarrow> skipped list \<Rightarrow> 's
   \<Rightarrow> range_error + 'd candidate option \<times> 'd candidate list \<times> skipped list \<times> 's" where
  "next_loop ops env mw [] sk s = Inr (None, [], sk, s)"
| "next_loop ops env mw (c # q) sk s =
    (if \<not> permitted env c then next_loop ops env mw q (sk @ [skip_entry c Non_compliant]) s
     else if \<not> window_ok mw c then next_loop ops env mw q (sk @ [skip_entry c Context_window]) s
     else case bo_allow ops (cd_provider c) s of
       Inl e \<Rightarrow> Inl e
     | Inr (ok, s') \<Rightarrow>
         if \<not> ok then next_loop ops env mw q (sk @ [skip_entry c Circuit_open]) s'
         else Inr (Some c, q, sk, s'))"

definition fo_next ::
  "'s breaker_ops \<Rightarrow> ('d, 'e, 'r, 's) engine_env \<Rightarrow> ('d, 'e, 's) fo_state
   \<Rightarrow> range_error + 'd candidate option \<times> ('d, 'e, 's) fo_state" where
  "fo_next ops env st =
    rbind (next_loop ops env (fs_minWindow st) (fs_queue st) (fs_skipped st) (fs_shared st))
      (\<lambda>(c, q, sk, s). Inr (c, st\<lparr>fs_queue := q, fs_skipped := sk, fs_shared := s\<rparr>))"

definition ok_attempt :: "'d candidate \<Rightarrow> int \<Rightarrow> failover_attempt" where
  "ok_attempt c ms = \<lparr>fa_provider = cd_provider c, fa_model = cd_model c, fa_ok = True,
     fa_latency_ms = ms, fa_error_class = None, fa_status = None\<rparr>"

definition failed_attempt :: "'d candidate \<Rightarrow> int \<Rightarrow> failure_info \<Rightarrow> failover_attempt" where
  "failed_attempt c ms info = \<lparr>fa_provider = cd_provider c, fa_model = cd_model c, fa_ok = False,
     fa_latency_ms = ms, fa_error_class = Some (errorClass (classifyFailure info)),
     fa_status = fi_status info\<rparr>"

text \<open>The tail of the \<open>catch\<close> block: raise the window, take the next candidate, reset \<open>retries\<close>.\<close>

definition fo_advance ::
  "'s breaker_ops \<Rightarrow> ('d, 'e, 'r, 's) engine_env \<Rightarrow> failover_action \<Rightarrow> 'd candidate \<Rightarrow> ('d, 'e, 's) fo_state
   \<Rightarrow> ('d, 'e, 'r, 's) fo_result + 'd candidate \<times> nat \<times> ('d, 'e, 's) fo_state" where
  "fo_advance ops env act c st =
    (let num = (\<lambda>x. case x of None \<Rightarrow> 0 | Some w \<Rightarrow> w);
         st1 = (if act = Next_larger_context
                then st\<lparr>fs_minWindow := Some (max (num (fs_minWindow st)) (num (cd_contextWindow c)))\<rparr>
                else st)
     in case fo_next ops env st1 of
          Inl e \<Rightarrow> Inl (FO_range e)
        | Inr (None, st2) \<Rightarrow>
            Inl (FO_no_candidate (fs_attempts st2) (fs_skipped st2) (fs_lastError st2) (fs_shared st2))
        | Inr (Some c', st2) \<Rightarrow> Inr (c', 0, st2))"

text \<open>A failed attempt is logged and its error kept.\<close>

definition logged ::
  "('d, 'e, 'r, 's) engine_env \<Rightarrow> 'd candidate \<Rightarrow> int \<Rightarrow> 'e \<Rightarrow> 's \<Rightarrow> ('d, 'e, 's) fo_state \<Rightarrow> ('d, 'e, 's) fo_state" where
  "logged env c ms err s st = st\<lparr>fs_shared := s, fs_lastError := Some err,
     fs_attempts := fs_attempts st @ [failed_attempt c ms (en_failureOf env err)]\<rparr>"

lemma logged_simps [simp]:
  "(logged env c ms err s st)\<lparr>fs_shared := s'\<rparr> = logged env c ms err s' st"
  "fs_skipped (logged env c ms err s st) = fs_skipped st" "fs_queue (logged env c ms err s st) = fs_queue st"
  "fs_shared (logged env c ms err s st) = s"
  by (simp_all add: logged_def)

text \<open>The \<open>catch\<close> block up to the retry of the same candidate.\<close>

definition fo_catch ::
  "'s breaker_ops \<Rightarrow> ('d, 'e, 'r, 's) engine_env \<Rightarrow> int \<Rightarrow> 'd candidate \<Rightarrow> nat \<Rightarrow> 'e \<Rightarrow> ('d, 'e, 's) fo_state
   \<Rightarrow> ('d, 'e, 'r, 's) fo_result + 'd candidate \<times> nat \<times> ('d, 'e, 's) fo_state" where
  "fo_catch ops env start c retries err st =
    (let info = en_failureOf env err; verdict = classifyFailure info; p = cd_provider c in
     case (if tripsBreaker verdict then bo_failure ops p (fs_shared st)
           else bo_release ops p (fs_shared st)) of
       Inl e \<Rightarrow> Inl (FO_range e)
     | Inr s1 \<Rightarrow>
        let st1 = logged env c (en_dateNow env s1 - start) err s1 st
        in if action verdict = Raise
             then Inl (FO_raised err (fs_attempts st1) (fs_skipped st1) s1)
           else case (if action verdict = Retry_after then fi_retryAfter info else None) of
             None \<Rightarrow> fo_advance ops env (action verdict) c st1
           | Some wait \<Rightarrow>
               if \<not> (js_le wait (en_maxWait env) \<and> retries < en_rateLimitRetries env)
                 then fo_advance ops env (action verdict) c st1
               else case bo_allow ops p s1 of
                 Inl e \<Rightarrow> Inl (FO_range e)
               | Inr (ok, s2) \<Rightarrow>
                   if ok then Inr (c, Suc retries, st1\<lparr>fs_shared := en_sleep env wait s2\<rparr>)
                   else fo_advance ops env (action verdict) c (st1\<lparr>fs_shared := s2\<rparr>))"

definition fo_iter ::
  "'s breaker_ops \<Rightarrow> ('d, 'e, 'r, 's) engine_env \<Rightarrow> 'd candidate \<Rightarrow> nat \<Rightarrow> ('d, 'e, 's) fo_state
   \<Rightarrow> ('d, 'e, 'r, 's) fo_result + 'd candidate \<times> nat \<times> ('d, 'e, 's) fo_state" where
  "fo_iter ops env c retries st =
    (let start = en_dateNow env (fs_shared st);
         (out, s1) = en_call env c (fs_shared st)
     in case out of
          Inr response \<Rightarrow>
            (case bo_success ops (cd_provider c) s1 of
               Inl e \<Rightarrow> Inl (FO_range e)
             | Inr s2 \<Rightarrow> Inl (FO_done response c
                 (fs_attempts st @ [ok_attempt c (en_dateNow env s2 - start)]) (fs_skipped st) s2))
        | Inl err \<Rightarrow> fo_catch ops env start c retries err (st\<lparr>fs_shared := s1\<rparr>))"

lemma next_loop_queue:
  "next_loop ops env mw q sk s = Inr (Some c, q', sk', s') \<Longrightarrow> length q' < length q"
  by (induction ops env mw q sk s rule: next_loop.induct)
     (auto split: if_splits sum.splits simp: less_Suc_eq)

lemma fo_advance_queue:
  "fo_advance ops env act c st = Inr (c', r', st') \<Longrightarrow> length (fs_queue st') < length (fs_queue st)"
  by (auto simp: fo_advance_def fo_next_def Let_def return_iff dest!: next_loop_queue
      split: sum.splits option.splits if_splits)

lemma fo_catch_progress:
  assumes "fo_catch ops env start c r err st = Inr (c', r', st')"
  shows "length (fs_queue st') < length (fs_queue st) \<or>
    (fs_queue st' = fs_queue st \<and> r' = Suc r \<and> r < en_rateLimitRetries env)"
  using assms
  by (auto simp: fo_catch_def Let_def dest!: fo_advance_queue
      split: sum.splits option.splits if_splits)

lemma fo_iter_progress:
  assumes "fo_iter ops env c r st = Inr (c', r', st')"
  shows "length (fs_queue st') < length (fs_queue st) \<or>
    (fs_queue st' = fs_queue st \<and> r' = Suc r \<and> r < en_rateLimitRetries env)"
  using assms
  by (auto simp: fo_iter_def Let_def case_prod_beta dest!: fo_catch_progress split: sum.splits)

function fo_loop ::
  "'s breaker_ops \<Rightarrow> ('d, 'e, 'r, 's) engine_env \<Rightarrow> 'd candidate \<Rightarrow> nat \<Rightarrow> ('d, 'e, 's) fo_state
   \<Rightarrow> ('d, 'e, 'r, 's) fo_result" where
  "fo_loop ops env c r st =
    (case fo_iter ops env c r st of Inl res \<Rightarrow> res | Inr (c', r', st') \<Rightarrow> fo_loop ops env c' r' st')"
  by pat_completeness auto
termination
  by (relation "measures [\<lambda>(ops, env, c, r, st). length (fs_queue st),
                          \<lambda>(ops, env, c, r, st). en_rateLimitRetries env - r]")
     (auto dest!: fo_iter_progress)

declare fo_loop.simps [simp del]

definition runFailover ::
  "'s breaker_ops \<Rightarrow> ('d, 'e, 'r, 's) engine_env \<Rightarrow> 'd candidate list \<Rightarrow> 's \<Rightarrow> ('d, 'e, 'r, 's) fo_result" where
  "runFailover ops env cands s =
    (case fo_next ops env \<lparr>fs_queue = cands, fs_attempts = [], fs_skipped = [], fs_minWindow = None,
                         fs_lastError = None, fs_shared = s\<rparr> of
       Inl e \<Rightarrow> FO_range e
     | Inr (None, st) \<Rightarrow>
         FO_no_candidate (fs_attempts st) (fs_skipped st) (fs_lastError st) (fs_shared st)
     | Inr (Some c, st) \<Rightarrow> fo_loop ops env c 0 st)"

text \<open>The message of \<open>NoCompliantCandidate\<close>.\<close>

fun reason_text :: "skip_reason \<Rightarrow> string" where
  "reason_text Circuit_open = ''circuit_open''"
| "reason_text Context_window = ''context_window''"
| "reason_text Non_compliant = ''non_compliant''"

definition no_candidate_message :: "failover_attempt list \<Rightarrow> skipped list \<Rightarrow> string" where
  "no_candidate_message as sks =
    (let parts = map (\<lambda>a. fa_provider a @ ''/'' @ fa_model a @ '': '' @
                        (case fa_error_class a of None \<Rightarrow> ''undefined'' | Some cl \<Rightarrow> cl))
                   (filter (\<lambda>a. \<not> fa_ok a) as)
               @ map (\<lambda>k. sk_provider k @ ''/'' @ sk_model k @ '': skipped ('' @ reason_text (sk_reason k) @ '')'') sks
     in if parts \<noteq> []
        then ''no compliant candidate left after '' @ string_of_int (int (length as)) @
             '' attempt(s); failing closed ('' @ join ''; '' parts @ '')''
        else ''no compliant candidate to serve the call; failing closed'')"

subsection \<open>Rules for the loop\<close>

lemma fo_loop_rule:
  assumes "I c r st"
    and "\<And>c r st c' r' st'. I c r st \<Longrightarrow> fo_iter ops env c r st = Inr (c', r', st') \<Longrightarrow> I c' r' st'"
    and "\<And>c r st res. I c r st \<Longrightarrow> fo_iter ops env c r st = Inl res \<Longrightarrow> Q res"
  shows "Q (fo_loop ops env c r st)"
  using assms
proof (induction ops env c r st rule: fo_loop.induct)
  case (1 ops env c r st)
  show ?case
  proof (cases "fo_iter ops env c r st")
    case (Inl res)
    with "1.prems"(1) have "Q res" by (rule "1.prems"(3))
    with Inl show ?thesis by (simp add: fo_loop.simps [of ops env c r st])
  next
    case (Inr x)
    then obtain c' r' st' where x: "fo_iter ops env c r st = Inr (c', r', st')" by (cases x) auto
    have "I c' r' st'" using "1.prems"(1) x by (rule "1.prems"(2))
    then have "Q (fo_loop ops env c' r' st')"
      by (rule "1.IH" [OF x refl refl _ "1.prems"(2,3)])
    with x show ?thesis by (simp add: fo_loop.simps [of ops env c r st])
  qed
qed

definition matches :: "'d candidate \<Rightarrow> failover_attempt \<Rightarrow> bool" where
  "matches c a \<longleftrightarrow> fa_provider a = cd_provider c \<and> fa_model a = cd_model c"

lemma matches_attempts [simp]: "matches c (ok_attempt c ms)" "matches c (failed_attempt c ms info)"
  by (simp_all add: matches_def ok_attempt_def failed_attempt_def)

text \<open>\<open>next()\<close> splits the queue: what it passes over it records with the reason, and what it returns
  is permitted, large enough and admitted by its breaker.\<close>

definition skips :: "('d, 'e, 'r, 's) engine_env \<Rightarrow> rat option \<Rightarrow> 'd candidate \<Rightarrow> skipped \<Rightarrow> bool" where
  "skips env mw c k \<longleftrightarrow> (\<exists>why. k = skip_entry c why \<and>
     (why = Non_compliant \<longleftrightarrow> \<not> permitted env c) \<and>
     (why = Context_window \<longleftrightarrow> permitted env c \<and> \<not> window_ok mw c))"

lemma skips_intros:
  "\<not> permitted env c \<Longrightarrow> skips env mw c (skip_entry c Non_compliant)"
  "permitted env c \<Longrightarrow> \<not> window_ok mw c \<Longrightarrow> skips env mw c (skip_entry c Context_window)"
  "permitted env c \<Longrightarrow> window_ok mw c \<Longrightarrow> skips env mw c (skip_entry c Circuit_open)"
  by (auto simp: skips_def)

lemma next_loop_split:
  assumes "next_loop ops env mw q sk s = Inr (co, q', sk', s')"
  shows "\<exists>pre sks. q = pre @ (case co of None \<Rightarrow> [] | Some c \<Rightarrow> c # q') \<and>
     sk' = sk @ sks \<and> list_all2 (skips env mw) pre sks \<and> (co = None \<longrightarrow> q' = []) \<and>
     (\<forall>c. co = Some c \<longrightarrow> permitted env c \<and> window_ok mw c)"
  using assms
proof (induction ops env mw q sk s rule: next_loop.induct)
  case (2 ops env mw c q sk s)
  have extend: ?case if "next_loop ops env mw q (sk @ [k]) s1 = Inr (co, q', sk', s')"
      and "skips env mw c k"
      and "\<exists>pre sks. q = pre @ (case co of None \<Rightarrow> [] | Some c \<Rightarrow> c # q') \<and>
        sk' = (sk @ [k]) @ sks \<and> list_all2 (skips env mw) pre sks \<and> (co = None \<longrightarrow> q' = []) \<and>
        (\<forall>c. co = Some c \<longrightarrow> permitted env c \<and> window_ok mw c)" for k s1
  proof -
    from that(3) obtain pre sks where *: "q = pre @ (case co of None \<Rightarrow> [] | Some c \<Rightarrow> c # q')"
      "sk' = (sk @ [k]) @ sks" "list_all2 (skips env mw) pre sks" "co = None \<longrightarrow> q' = []"
      "\<forall>c. co = Some c \<longrightarrow> permitted env c \<and> window_ok mw c" by blast
    then have "c # q = (c # pre) @ (case co of None \<Rightarrow> [] | Some c \<Rightarrow> c # q') \<and>
      sk' = sk @ (k # sks) \<and> list_all2 (skips env mw) (c # pre) (k # sks)" using that(2) by simp
    with *(4,5) show ?case by blast
  qed
  show ?case
  proof (cases "permitted env c")
    case False
    with "2.prems" have *: "next_loop ops env mw q (sk @ [skip_entry c Non_compliant]) s =
      Inr (co, q', sk', s')" by simp
    show ?thesis by (rule extend [OF * skips_intros(1) [OF False] "2.IH"(1) [OF False *]])
  next
    case p: True
    show ?thesis
    proof (cases "window_ok mw c")
      case False
      with p "2.prems" have *: "next_loop ops env mw q (sk @ [skip_entry c Context_window]) s =
        Inr (co, q', sk', s')" by simp
      show ?thesis using extend [OF * skips_intros(2) [OF p False] "2.IH"(2) [OF _ False *]] p by blast
    next
      case w: True
      show ?thesis
      proof (cases "bo_allow ops (cd_provider c) s")
        case (Inr x)
        obtain ok s1 where x: "bo_allow ops (cd_provider c) s = Inr (ok, s1)" using Inr by (cases x) auto
        show ?thesis
        proof (cases ok)
          case False
          with p w x "2.prems" have *: "next_loop ops env mw q (sk @ [skip_entry c Circuit_open]) s1 =
            Inr (co, q', sk', s')" by simp
          show ?thesis
            using extend [OF * skips_intros(3) [OF p w] "2.IH"(3) [OF _ _ x refl False *]] p w by blast
        next
          case True
          with p w x "2.prems" show ?thesis by auto
        qed
      qed (use "2.prems" p w in simp)
    qed
  qed
qed simp

lemma fo_next_SomeD:
  assumes "fo_next ops env st = Inr (Some c, st')"
  shows "\<exists>pre sks. fs_queue st = pre @ c # fs_queue st' \<and> fs_skipped st' = fs_skipped st @ sks \<and>
     list_all2 (skips env (fs_minWindow st)) pre sks \<and> permitted env c \<and>
     window_ok (fs_minWindow st) c \<and> fs_attempts st' = fs_attempts st \<and>
     fs_minWindow st' = fs_minWindow st"
  using assms by (auto simp: fo_next_def return_iff dest!: next_loop_split)

lemma fo_next_NoneD:
  assumes "fo_next ops env st = Inr (None, st')"
  shows "\<exists>sks. fs_skipped st' = fs_skipped st @ sks \<and>
     list_all2 (skips env (fs_minWindow st)) (fs_queue st) sks \<and> fs_attempts st' = fs_attempts st"
  using assms by (auto simp: fo_next_def return_iff dest!: next_loop_split)

subsection \<open>The invariant of a run\<close>

text \<open>An attempt that failed without ending the run, and what has become of a candidate that left
  the queue.\<close>

definition failed_on :: "failover_attempt \<Rightarrow> bool" where
  "failed_on a \<longleftrightarrow> \<not> fa_ok a \<and> (\<exists>info. action (classifyFailure info) \<noteq> Raise \<and>
     fa_error_class a = Some (errorClass (classifyFailure info)) \<and> fa_status a = fi_status info)"

definition called :: "('d, 'e, 'r, 's) engine_env \<Rightarrow> 'd candidate list \<Rightarrow> failover_attempt \<Rightarrow> bool" where
  "called env cands a \<longleftrightarrow> (\<exists>c \<in> set cands. permitted env c \<and> matches c a)"

definition passed_over :: "'d candidate \<Rightarrow> skipped list \<Rightarrow> bool" where
  "passed_over c sk \<longleftrightarrow> (\<exists>why. skip_entry c why \<in> set sk)"

definition accounted :: "failover_attempt list \<Rightarrow> skipped list \<Rightarrow> 'd candidate \<Rightarrow> bool" where
  "accounted as sk c \<longleftrightarrow> (\<exists>a \<in> set as. matches c a) \<or> passed_over c sk"

definition run_inv ::
  "('d, 'e, 'r, 's) engine_env \<Rightarrow> 'd candidate list \<Rightarrow> 'd candidate \<Rightarrow> nat \<Rightarrow> ('d, 'e, 's) fo_state \<Rightarrow> bool" where
  "run_inv env cands c r st \<longleftrightarrow> (\<exists>used. cands = used @ c # fs_queue st \<and>
     r \<le> en_rateLimitRetries env \<and> permitted env c \<and> window_ok (fs_minWindow st) c \<and>
     (\<forall>a \<in> set (fs_attempts st). failed_on a \<and> called env cands a) \<and>
     (\<forall>u \<in> set used. accounted (fs_attempts st) (fs_skipped st) u) \<and>
     length (fs_attempts st) \<le> r + length used * Suc (en_rateLimitRetries env))"

lemma skips_passed_over:
  "list_all2 (skips env mw) pre sks \<Longrightarrow> u \<in> set pre \<Longrightarrow> passed_over u (sk @ sks)"
  unfolding passed_over_def skips_def list_all2_conv_all_nth
  by (metis UnCI in_set_conv_nth set_append)

lemma accounted_mono: "accounted as sk u \<Longrightarrow> accounted (as @ bs) (sk @ sks) u"
  by (auto simp: accounted_def passed_over_def)

lemma accounted_extend:
  assumes "\<forall>u \<in> set us. accounted as sk u" "list_all2 (skips env mw) pre sks"
  shows "\<forall>u \<in> set (us @ pre). accounted as (sk @ sks) u"
proof
  fix u assume "u \<in> set (us @ pre)"
  then consider "u \<in> set us" | "u \<in> set pre" by auto
  then show "accounted as (sk @ sks) u"
  proof cases
    case 1
    with assms(1) show ?thesis using accounted_mono [of as sk u "[]" sks] by simp
  next
    case 2
    with skips_passed_over [OF assms(2)] show ?thesis by (simp add: accounted_def)
  qed
qed

text \<open>The state after a failed call of \<open>c\<close>, before the next candidate is chosen.\<close>

definition after_fail ::
  "('d, 'e, 'r, 's) engine_env \<Rightarrow> 'd candidate list \<Rightarrow> 'd candidate \<Rightarrow> nat \<Rightarrow> ('d, 'e, 's) fo_state \<Rightarrow> bool" where
  "after_fail env cands c r st \<longleftrightarrow> (\<exists>used. cands = used @ c # fs_queue st \<and>
     r \<le> en_rateLimitRetries env \<and> permitted env c \<and> window_ok (fs_minWindow st) c \<and>
     (\<forall>a \<in> set (fs_attempts st). failed_on a \<and> called env cands a) \<and>
     (\<forall>u \<in> set (used @ [c]). accounted (fs_attempts st) (fs_skipped st) u) \<and>
     length (fs_attempts st) \<le> Suc r + length used * Suc (en_rateLimitRetries env))"

lemma after_fail_retry:
  "after_fail env cands c r st \<Longrightarrow> r < en_rateLimitRetries env \<Longrightarrow>
   run_inv env cands c (Suc r) (st\<lparr>fs_shared := s\<rparr>)"
  by (force simp: after_fail_def run_inv_def)

lemma after_fail_shared [simp]:
  "after_fail env cands c r (st\<lparr>fs_shared := s\<rparr>) = after_fail env cands c r st"
  by (simp add: after_fail_def)

lemma bound_next:
  assumes "n \<le> Suc r + k * Suc R" "r \<le> R"
  shows "n \<le> Suc k * Suc R" "n \<le> (Suc k + j) * Suc R"
  using assms by (simp_all add: add_mult_distrib)

lemma run_inv_failed:
  assumes "run_inv env cands c r st" "action (classifyFailure (en_failureOf env err)) \<noteq> Raise"
  shows "after_fail env cands c r (logged env c ms err s st)"
proof -
  from assms(1) obtain used where u: "cands = used @ c # fs_queue st" "r \<le> en_rateLimitRetries env"
    "permitted env c" "window_ok (fs_minWindow st) c"
    "\<forall>a \<in> set (fs_attempts st). failed_on a \<and> called env cands a"
    "\<forall>u \<in> set used. accounted (fs_attempts st) (fs_skipped st) u"
    "length (fs_attempts st) \<le> r + length used * Suc (en_rateLimitRetries env)"
    unfolding run_inv_def by blast
  let ?a = "failed_attempt c ms (en_failureOf env err)"
  have "failed_on ?a" using assms(2) by (auto simp: failed_on_def failed_attempt_def)
  moreover have "called env cands ?a" using u(1,3) matches_attempts(2)
    unfolding called_def by auto
  moreover have "\<forall>v \<in> set (used @ [c]). accounted (fs_attempts st @ [?a]) (fs_skipped st) v"
    using u(6) by (auto simp: accounted_def)
  ultimately show ?thesis using u unfolding after_fail_def logged_def by (intro exI [of _ used]) auto
qed

lemma fo_advance_inv:
  assumes "after_fail env cands c r st" "fo_advance ops env act c st = Inr (c', r', st')"
  shows "run_inv env cands c' r' st'"
proof -
  define num :: "rat option \<Rightarrow> rat" where "num = (\<lambda>x. case x of None \<Rightarrow> 0 | Some w \<Rightarrow> w)"
  define st1 where "st1 = (if act = Next_larger_context
    then st\<lparr>fs_minWindow := Some (max (num (fs_minWindow st)) (num (cd_contextWindow c)))\<rparr> else st)"
  have nx: "fo_next ops env st1 = Inr (Some c', st')" and r': "r' = 0"
    using assms(2) by (auto simp: fo_advance_def Let_def num_def st1_def
        split: sum.splits option.splits if_splits)
  have same: "fs_queue st1 = fs_queue st" "fs_attempts st1 = fs_attempts st" "fs_skipped st1 = fs_skipped st"
    by (simp_all add: st1_def)
  from fo_next_SomeD [OF nx] obtain pre sks where q: "fs_queue st = pre @ c' # fs_queue st'"
    "fs_skipped st' = fs_skipped st @ sks" "list_all2 (skips env (fs_minWindow st1)) pre sks"
    "permitted env c'" "window_ok (fs_minWindow st') c'" "fs_attempts st' = fs_attempts st"
    unfolding same by auto
  from assms(1) obtain used where u: "cands = used @ c # fs_queue st" "r \<le> en_rateLimitRetries env"
    "\<forall>a \<in> set (fs_attempts st). failed_on a \<and> called env cands a"
    "\<forall>u \<in> set (used @ [c]). accounted (fs_attempts st) (fs_skipped st) u"
    "length (fs_attempts st) \<le> Suc r + length used * Suc (en_rateLimitRetries env)"
    unfolding after_fail_def by blast
  have "cands = (used @ c # pre) @ c' # fs_queue st'" using u(1) q(1) by simp
  moreover have "\<forall>v \<in> set (used @ c # pre). accounted (fs_attempts st') (fs_skipped st') v"
    using accounted_extend [OF u(4) q(3)] by (simp add: q(2,6))
  moreover have "length (fs_attempts st') \<le> length (used @ c # pre) * Suc (en_rateLimitRetries env)"
    using bound_next(2) [OF u(5,2), of "length pre"] by (simp add: q(6))
  ultimately show ?thesis using q u(3) unfolding run_inv_def r' by (metis add_0 zero_le)
qed

text \<open>What a finished run says about its candidates; the three ways the loop ends.\<close>

fun run_post :: "('d, 'e, 'r, 's) engine_env \<Rightarrow> 'd candidate list \<Rightarrow> ('d, 'e, 'r, 's) fo_result \<Rightarrow> bool" where
  "run_post env cands (FO_done resp c as sk s) \<longleftrightarrow>
     (\<exists>bs ms. as = bs @ [ok_attempt c ms] \<and> (\<forall>b \<in> set bs. failed_on b)) \<and>
     c \<in> set cands \<and> permitted env c \<and> (\<exists>s0 s1. en_call env c s0 = (Inr resp, s1))"
| "run_post env cands (FO_raised err as sk s) \<longleftrightarrow>
     action (classifyFailure (en_failureOf env err)) = Raise \<and>
     (\<exists>bs c ms s0 s1. as = bs @ [failed_attempt c ms (en_failureOf env err)] \<and>
        (\<forall>b \<in> set bs. failed_on b) \<and> c \<in> set cands \<and> permitted env c \<and> en_call env c s0 = (Inl err, s1))"
| "run_post env cands (FO_no_candidate as sk le s) \<longleftrightarrow>
     (\<forall>a \<in> set as. failed_on a) \<and> (\<forall>c \<in> set cands. accounted as sk c)"
| "run_post env cands (FO_range e) \<longleftrightarrow> True"

definition run_bounds :: "('d, 'e, 'r, 's) engine_env \<Rightarrow> 'd candidate list \<Rightarrow> ('d, 'e, 'r, 's) fo_result \<Rightarrow> bool" where
  "run_bounds env cands res \<longleftrightarrow> (\<forall>a \<in> set (fo_attempts res). called env cands a) \<and>
     length (fo_attempts res) \<le> length cands * Suc (en_rateLimitRetries env)"

lemma fo_advance_result:
  assumes "after_fail env cands c r st" "fo_advance ops env act c st = Inl res"
  shows "run_post env cands res \<and> run_bounds env cands res"
proof (cases "\<exists>e. res = FO_range e")
  case False
  define num :: "rat option \<Rightarrow> rat" where "num = (\<lambda>x. case x of None \<Rightarrow> 0 | Some w \<Rightarrow> w)"
  define st1 where "st1 = (if act = Next_larger_context
    then st\<lparr>fs_minWindow := Some (max (num (fs_minWindow st)) (num (cd_contextWindow c)))\<rparr> else st)"
  obtain st2 where nx: "fo_next ops env st1 = Inr (None, st2)" and
    res: "res = FO_no_candidate (fs_attempts st2) (fs_skipped st2) (fs_lastError st2) (fs_shared st2)"
    using assms(2) False by (auto simp: fo_advance_def Let_def num_def st1_def
        split: sum.splits option.splits if_splits)
  have same: "fs_queue st1 = fs_queue st" "fs_attempts st1 = fs_attempts st" "fs_skipped st1 = fs_skipped st"
    by (simp_all add: st1_def)
  from fo_next_NoneD [OF nx] obtain sks where q: "fs_skipped st2 = fs_skipped st @ sks"
    "list_all2 (skips env (fs_minWindow st1)) (fs_queue st) sks" "fs_attempts st2 = fs_attempts st"
    unfolding same by auto
  from assms(1) obtain used where u: "cands = used @ c # fs_queue st" "r \<le> en_rateLimitRetries env"
    "\<forall>a \<in> set (fs_attempts st). failed_on a \<and> called env cands a"
    "\<forall>u \<in> set (used @ [c]). accounted (fs_attempts st) (fs_skipped st) u"
    "length (fs_attempts st) \<le> Suc r + length used * Suc (en_rateLimitRetries env)"
    unfolding after_fail_def by blast
  have "\<forall>v \<in> set cands. accounted (fs_attempts st2) (fs_skipped st2) v"
    using accounted_extend [OF u(4) q(2)] by (simp add: q(1,3) u(1))
  moreover have "length (fs_attempts st2) \<le> length cands * Suc (en_rateLimitRetries env)"
    using bound_next(2) [OF u(5,2), of "length (fs_queue st)"] by (simp add: q(3) u(1))
  ultimately show ?thesis using u(3) by (simp add: res run_bounds_def q(3))
qed (auto simp: run_bounds_def)

lemma fo_catch_cases:
  assumes "fo_catch ops env start c r err st = out"
  obtains (range) e where "out = Inl (FO_range e)"
  | (raised) ms s where "action (classifyFailure (en_failureOf env err)) = Raise"
      "out = Inl (FO_raised err (fs_attempts (logged env c ms err s st)) (fs_skipped st) s)"
  | (advance) ms s where "action (classifyFailure (en_failureOf env err)) \<noteq> Raise"
      "out = fo_advance ops env (action (classifyFailure (en_failureOf env err))) c (logged env c ms err s st)"
  | (retry) ms s where "action (classifyFailure (en_failureOf env err)) \<noteq> Raise"
      "r < en_rateLimitRetries env" "out = Inr (c, Suc r, logged env c ms err s st)"
  using assms
  by (auto simp: fo_catch_def Let_def split: sum.splits option.splits if_splits)

lemma fo_iter_cases:
  assumes "fo_iter ops env c r st = out"
  obtains (answered) resp ms s0 s1 s2 where "en_call env c s0 = (Inr resp, s1)"
      "out = Inl (FO_done resp c (fs_attempts st @ [ok_attempt c ms]) (fs_skipped st) s2)"
  | (range) e where "out = Inl (FO_range e)"
  | (catch) start err s0 s1 where "en_call env c s0 = (Inl err, s1)"
      "out = fo_catch ops env start c r err (st\<lparr>fs_shared := s1\<rparr>)"
  using assms
  by (auto simp: fo_iter_def Let_def split: sum.splits prod.splits)

lemma run_inv_shared [simp]: "run_inv env cands c r (st\<lparr>fs_shared := s\<rparr>) = run_inv env cands c r st"
  by (simp add: run_inv_def)

lemma run_inv_retry:
  "after_fail env cands c r st \<Longrightarrow> r < en_rateLimitRetries env \<Longrightarrow> run_inv env cands c (Suc r) st"
  using after_fail_retry [of env cands c r st "fs_shared st"] by simp

lemma fo_catch_inv:
  assumes "run_inv env cands c r st" "fo_catch ops env start c r err st = Inr (c', r', st')"
  shows "run_inv env cands c' r' st'"
  using assms(2)
proof (cases rule: fo_catch_cases)
  case (advance ms s)
  from run_inv_failed [OF assms(1) advance(1)] advance(2) [symmetric] show ?thesis by (rule fo_advance_inv)
next
  case (retry ms s)
  from run_inv_retry [OF run_inv_failed [OF assms(1) retry(1)] retry(2)] retry(3) show ?thesis by simp
qed simp_all

lemma run_inv_raised:
  assumes "run_inv env cands c r st" "en_call env c s0 = (Inl err, s1)"
    "action (classifyFailure (en_failureOf env err)) = Raise"
    "res = FO_raised err (fs_attempts (logged env c ms err s st)) sk s"
  shows "run_post env cands res \<and> run_bounds env cands res"
proof -
  from assms(1) obtain used where u: "cands = used @ c # fs_queue st" "r \<le> en_rateLimitRetries env"
    "permitted env c" "\<forall>a \<in> set (fs_attempts st). failed_on a \<and> called env cands a"
    "length (fs_attempts st) \<le> r + length used * Suc (en_rateLimitRetries env)"
    unfolding run_inv_def by blast
  have "called env cands (failed_attempt c ms (en_failureOf env err))"
    using u(1,3) matches_attempts(2) unfolding called_def by auto
  moreover have "Suc (length (fs_attempts st)) \<le> length cands * Suc (en_rateLimitRetries env)"
    using bound_next(2) [of "Suc (length (fs_attempts st))" r "length used"
        "en_rateLimitRetries env" "length (fs_queue st)"] u(2,5)
    by (simp add: u(1))
  ultimately show ?thesis using u assms(2,3) by (auto simp: assms(4) run_bounds_def logged_def)
qed

lemma run_inv_done:
  assumes "run_inv env cands c r st" "en_call env c s0 = (Inr resp, s1)"
    "res = FO_done resp c (fs_attempts st @ [ok_attempt c ms]) sk s"
  shows "run_post env cands res \<and> run_bounds env cands res"
proof -
  from assms(1) obtain used where u: "cands = used @ c # fs_queue st" "r \<le> en_rateLimitRetries env"
    "permitted env c" "\<forall>a \<in> set (fs_attempts st). failed_on a \<and> called env cands a"
    "length (fs_attempts st) \<le> r + length used * Suc (en_rateLimitRetries env)"
    unfolding run_inv_def by blast
  have "called env cands (ok_attempt c ms)"
    using u(1,3) matches_attempts(1) unfolding called_def by auto
  moreover have "Suc (length (fs_attempts st)) \<le> length cands * Suc (en_rateLimitRetries env)"
    using bound_next(2) [of "Suc (length (fs_attempts st))" r "length used"
        "en_rateLimitRetries env" "length (fs_queue st)"] u(2,5)
    by (simp add: u(1))
  ultimately show ?thesis using u assms(2) by (auto simp: assms(3) run_bounds_def)
qed

lemma fo_iter_inv:
  assumes "run_inv env cands c r st" "fo_iter ops env c r st = Inr (c', r', st')"
  shows "run_inv env cands c' r' st'"
  using assms(2)
proof (cases rule: fo_iter_cases)
  case (catch start err s0 s1)
  then show ?thesis using fo_catch_inv [of env cands c r "st\<lparr>fs_shared := s1\<rparr>"] assms(1) by simp
qed simp_all

lemma fo_iter_result:
  assumes "run_inv env cands c r st" "fo_iter ops env c r st = Inl res"
  shows "run_post env cands res \<and> run_bounds env cands res"
  using assms(2)
proof (cases rule: fo_iter_cases)
  case (answered resp ms s0 s1 s2)
  with assms(1) show ?thesis by (intro run_inv_done) auto
next
  case (range e)
  then show ?thesis by (simp add: run_bounds_def)
next
  case (catch start err s0 s1)
  let ?st = "st\<lparr>fs_shared := s1\<rparr>"
  have inv: "run_inv env cands c r ?st" using assms(1) by simp
  from catch(2) [symmetric] show ?thesis
  proof (cases rule: fo_catch_cases)
    case (range e)
    then show ?thesis by (simp add: run_bounds_def)
  next
    case (raised ms s)
    with inv catch(1) show ?thesis by (intro run_inv_raised) auto
  next
    case (advance ms s)
    from run_inv_failed [OF inv advance(1)] advance(2) [symmetric] show ?thesis by (rule fo_advance_result)
  qed simp
qed

lemma runFailover_result:
  "run_post env cands (runFailover ops env cands s) \<and> run_bounds env cands (runFailover ops env cands s)"
proof -
  let ?st0 = "\<lparr>fs_queue = cands, fs_attempts = [], fs_skipped = [], fs_minWindow = None,
    fs_lastError = None :: 'b option, fs_shared = s\<rparr>"
  consider (range) e where "fo_next ops env ?st0 = Inl e"
    | (none) st where "fo_next ops env ?st0 = Inr (None, st)"
    | (some) c st where "fo_next ops env ?st0 = Inr (Some c, st)"
    by (metis not_None_eq old.sum.exhaust surj_pair)
  then show ?thesis
  proof cases
    case none
    from fo_next_NoneD [OF none] have q: "list_all2 (skips env None) cands (fs_skipped st)"
      "fs_attempts st = []" by auto
    with none skips_passed_over [OF q(1), of _ "[]"] show ?thesis
      by (simp add: runFailover_def run_bounds_def accounted_def)
  next
    case (some c st)
    from fo_next_SomeD [OF some] obtain pre sks where q: "cands = pre @ c # fs_queue st"
      "fs_skipped st = [] @ sks" "list_all2 (skips env None) pre sks" "permitted env c"
      "window_ok (fs_minWindow st) c" "fs_attempts st = []" by auto
    have "run_inv env cands c 0 st"
      unfolding run_inv_def using q(1,4-6) skips_passed_over [OF q(3), of _ "[]"] q(2)
      by (intro exI [of _ pre]) (auto simp: accounted_def)
    then have "run_post env cands (fo_loop ops env c 0 st) \<and> run_bounds env cands (fo_loop ops env c 0 st)"
      by (rule fo_loop_rule) (auto dest: fo_iter_inv fo_iter_result)
    with some show ?thesis by (simp add: runFailover_def)
  qed (simp add: runFailover_def run_bounds_def)
qed

text \<open>The last error a run keeps is one a call threw.\<close>

definition thrown_by :: "('d, 'e, 'r, 's) engine_env \<Rightarrow> 'e option \<Rightarrow> bool" where
  "thrown_by env le \<longleftrightarrow> (\<forall>e. le = Some e \<longrightarrow> (\<exists>c s0 s1. en_call env c s0 = (Inl e, s1)))"

fun last_error_ok :: "('d, 'e, 'r, 's) engine_env \<Rightarrow> ('d, 'e, 'r, 's) fo_result \<Rightarrow> bool" where
  "last_error_ok env (FO_no_candidate as sk le s) \<longleftrightarrow> thrown_by env le"
| "last_error_ok env _ \<longleftrightarrow> True"

lemma fo_next_lastError: "fo_next ops env st = Inr (co, st') \<Longrightarrow> fs_lastError st' = fs_lastError st"
  by (auto simp: fo_next_def return_iff)

lemma fo_advance_lastError:
  assumes "thrown_by env (fs_lastError st)"
  shows "fo_advance ops env act c st = Inl res \<Longrightarrow> last_error_ok env res"
    and "fo_advance ops env act c st = Inr (c', r', st') \<Longrightarrow> thrown_by env (fs_lastError st')"
  using assms by (auto simp: fo_advance_def Let_def dest!: fo_next_lastError
      split: sum.splits option.splits if_splits)

lemma logged_lastError [simp]: "fs_lastError (logged env c ms err s st) = Some err"
  by (simp add: logged_def)

lemma fo_iter_lastError:
  assumes "thrown_by env (fs_lastError st)"
  shows "fo_iter ops env c r st = Inl res \<Longrightarrow> last_error_ok env res"
    and "fo_iter ops env c r st = Inr (c', r', st') \<Longrightarrow> thrown_by env (fs_lastError st')"
proof -
  have new: "thrown_by env (fs_lastError (logged env c ms err s st1))"
    if "en_call env c s0 = (Inl err, s1)" for ms err s s0 s1 and st1 :: "('a, 'b, 'd) fo_state"
    using that by (auto simp: thrown_by_def)
  show "last_error_ok env res" if "fo_iter ops env c r st = Inl res"
    using that
  proof (cases rule: fo_iter_cases)
    case (catch start err s0 s1)
    from catch(2) [symmetric] show ?thesis
      by (cases rule: fo_catch_cases) (auto dest: fo_advance_lastError(1) [OF new [OF catch(1)] sym])
  qed simp_all
  show "thrown_by env (fs_lastError st')" if "fo_iter ops env c r st = Inr (c', r', st')"
    using that
  proof (cases rule: fo_iter_cases)
    case (catch start err s0 s1)
    from catch(2) [symmetric] show ?thesis
      by (cases rule: fo_catch_cases)
         (auto dest: fo_advance_lastError(2) [OF new [OF catch(1)] sym] intro: new [OF catch(1), simplified])
  qed simp_all
qed

lemma runFailover_lastError: "last_error_ok env (runFailover ops env cands s)"
proof -
  have none: "thrown_by env None" by (simp add: thrown_by_def)
  have loop: "last_error_ok env (fo_loop ops env c r st)" if "thrown_by env (fs_lastError st)" for c r st
    by (rule fo_loop_rule [where I = "\<lambda>c r st. thrown_by env (fs_lastError st)"])
       (use that fo_iter_lastError in blast)+
  show ?thesis
    by (auto simp: runFailover_def none loop dest!: fo_next_lastError split: sum.splits option.splits
        intro!: loop)
qed

subsection \<open>The contract of the breakers\<close>

text \<open>
  What a run needs of its breakers: from a good state no operation throws, and the state stays
  good. The awaited calls (provider, timer) may run other requests, which keep it good too.
\<close>

locale breaker_service =
  fixes ops :: "'s breaker_ops" and good :: "'s \<Rightarrow> bool"
  assumes allow_good: "good s \<Longrightarrow> \<exists>b s'. bo_allow ops p s = Inr (b, s') \<and> good s'"
    and success_good: "good s \<Longrightarrow> \<exists>s'. bo_success ops p s = Inr s' \<and> good s'"
    and failure_good: "good s \<Longrightarrow> \<exists>s'. bo_failure ops p s = Inr s' \<and> good s'"
    and release_good: "good s \<Longrightarrow> \<exists>s'. bo_release ops p s = Inr s' \<and> good s'"
begin

definition good_env :: "('d, 'e, 'r, 's) engine_env \<Rightarrow> bool" where
  "good_env env \<longleftrightarrow> (\<forall>c s. good s \<longrightarrow> good (snd (en_call env c s))) \<and>
     (\<forall>t s. good s \<longrightarrow> good (en_sleep env t s))"

fun good_end :: "('d, 'e, 'r, 's) fo_result \<Rightarrow> bool" where
  "good_end (FO_done r c as sk s) = good s"
| "good_end (FO_raised e as sk s) = good s"
| "good_end (FO_no_candidate as sk e s) = good s"
| "good_end (FO_range e) = False"

lemma next_loop_good:
  "good s \<Longrightarrow> \<exists>co q' sk' s'. next_loop ops env mw q sk s = Inr (co, q', sk', s') \<and> good s'"
proof (induction q arbitrary: sk s)
  case (Cons c q)
  from allow_good [OF Cons.prems, of "cd_provider c"] obtain b s' where
    a: "bo_allow ops (cd_provider c) s = Inr (b, s')" "good s'" by blast
  with Cons show ?case by simp
qed simp

lemma fo_next_good:
  assumes "good (fs_shared st)"
  shows "\<exists>co st'. fo_next ops env st = Inr (co, st') \<and> good (fs_shared st')"
proof -
  from next_loop_good [OF assms, of env "fs_minWindow st" "fs_queue st" "fs_skipped st"]
  show ?thesis by (auto simp: fo_next_def)
qed

definition good_out :: "('d, 'e, 'r, 's) fo_result + 'd candidate \<times> nat \<times> ('d, 'e, 's) fo_state \<Rightarrow> bool" where
  "good_out out \<longleftrightarrow> (case out of Inl res \<Rightarrow> good_end res | Inr (c, r, st) \<Rightarrow> good (fs_shared st))"

lemma fo_advance_good:
  assumes "good (fs_shared st)"
  shows "good_out (fo_advance ops env act c st)"
proof -
  define num :: "rat option \<Rightarrow> rat" where "num = (\<lambda>x. case x of None \<Rightarrow> 0 | Some w \<Rightarrow> w)"
  define st1 where "st1 = (if act = Next_larger_context
    then st\<lparr>fs_minWindow := Some (max (num (fs_minWindow st)) (num (cd_contextWindow c)))\<rparr> else st)"
  have "good (fs_shared st1)" using assms by (simp add: st1_def)
  from fo_next_good [OF this, of env] obtain co st' where
    nx: "fo_next ops env st1 = Inr (co, st')" "good (fs_shared st')" by blast
  then have "fo_advance ops env act c st = (case co of None \<Rightarrow>
      Inl (FO_no_candidate (fs_attempts st') (fs_skipped st') (fs_lastError st') (fs_shared st'))
    | Some c' \<Rightarrow> Inr (c', 0, st'))"
    by (simp add: fo_advance_def Let_def flip: num_def st1_def split: option.splits)
  with nx(2) show ?thesis by (simp add: good_out_def split: option.splits)
qed

lemma fo_catch_good:
  assumes "good_env env" "good (fs_shared st)"
  shows "good_out (fo_catch ops env start c r err st)"
proof -
  let ?v = "classifyFailure (en_failureOf env err)"
  from failure_good [OF assms(2)] release_good [OF assms(2)] obtain s1 where
    s1: "(if tripsBreaker ?v then bo_failure ops (cd_provider c) (fs_shared st)
          else bo_release ops (cd_provider c) (fs_shared st)) = Inr s1" "good s1"
    by (metis (full_types))
  from allow_good [OF s1(2), of "cd_provider c"] obtain b s2 where
    a: "bo_allow ops (cd_provider c) s1 = Inr (b, s2)" "good s2" by blast
  have "good (en_sleep env t s2)" for t using assms(1) a(2) by (simp add: good_env_def)
  with s1 a show ?thesis
    by (auto simp: fo_catch_def Let_def good_out_def [of "Inl (FO_raised _ _ _ _)"] good_out_def [of "Inr _"]
        intro: fo_advance_good split: option.splits)
qed

lemma fo_iter_good:
  assumes "good_env env" "good (fs_shared st)"
  shows "good_out (fo_iter ops env c r st)"
proof -
  obtain out s1 where o: "en_call env c (fs_shared st) = (out, s1)" by fastforce
  have s1: "good s1" using assms o by (metis good_env_def snd_conv)
  show ?thesis
  proof (cases out)
    case (Inl err)
    with o fo_catch_good [OF assms(1), of "st\<lparr>fs_shared := s1\<rparr>"] s1 show ?thesis
      by (simp add: fo_iter_def)
  next
    case (Inr resp)
    with o success_good [OF s1, of "cd_provider c"] show ?thesis
      by (auto simp: fo_iter_def good_out_def)
  qed
qed

lemma run_ends_good:
  fixes env :: "('d, 'e, 'r, 's) engine_env"
  assumes "good_env env" "good s"
  shows "good_end (runFailover ops env cands s)"
proof -
  have loop: "good_end (fo_loop ops env c r st)" if "good (fs_shared st)" for c r st
    by (rule fo_loop_rule [where I = "\<lambda>c r st. good (fs_shared st)"])
       (use that fo_iter_good [OF assms(1)] in \<open>force simp: good_out_def split: sum.splits\<close>)+
  let ?st0 = "\<lparr>fs_queue = cands, fs_attempts = [], fs_skipped = [], fs_minWindow = None,
    fs_lastError = None :: 'e option, fs_shared = s\<rparr>"
  obtain co st where "fo_next ops env ?st0 = Inr (co, st)" "good (fs_shared st)"
    using fo_next_good [of ?st0 env] assms(2) by auto
  with loop show ?thesis by (cases co) (simp_all add: runFailover_def)
qed

end

text \<open>The gateway's breakers: the registry beside the rest of the world \<open>'w\<close>, which has the clock.\<close>

definition registry_ops :: "('w \<Rightarrow> rat) \<Rightarrow> (registry \<times> 'w) breaker_ops" where
  "registry_ops now =
    \<lparr>bo_allow = (\<lambda>p (r, w). rbind (rg_allow p (now w) r) (\<lambda>(ok, r'). Inr (ok, (r', w)))),
     bo_success = (\<lambda>p (r, w). rbind (rg_recordSuccess p (now w) r) (\<lambda>r'. Inr (r', w))),
     bo_failure = (\<lambda>p (r, w). rbind (rg_recordFailure p (now w) r) (\<lambda>r'. Inr (r', w))),
     bo_release = (\<lambda>p (r, w). rbind (rg_release p (now w) r) (\<lambda>r'. Inr (r', w)))\<rparr>"

definition registry_good :: "registry \<times> 'w \<Rightarrow> bool" where
  "registry_good rw \<longleftrightarrow> registry_inv (fst rw) \<and> config_ok (rg_config (fst rw))"

lemma registry_good_ops:
  assumes "registry_good (r, w)"
  shows "\<exists>b r'. rg_allow p now r = Inr (b, r') \<and> registry_good (r', w)"
    and "\<exists>r'. rg_recordSuccess p now r = Inr r' \<and> registry_good (r', w)"
    and "\<exists>r'. rg_recordFailure p now r = Inr r' \<and> registry_good (r', w)"
    and "\<exists>r'. rg_release p now r = Inr r' \<and> registry_good (r', w)"
proof -
  have inv: "registry_inv r" "config_ok (rg_config r)" using assms by (simp_all add: registry_good_def)
  obtain b r1 where g: "rg_get p r = Inr (b, r1)" using rg_get_total [OF inv(2)] by blast
  have cfg: "rg_config r1 = rg_config r" using rg_get_uses [OF inv(1) g] by (simp add: uses_breaker_def)
  have put: "registry_good (put_breaker p bt r1, w)" if "registry_inv (put_breaker p bt r1)" for bt
    using that inv(2) cfg by (simp add: registry_good_def)
  obtain ok bt where a: "cb_allow (rg_config r) now b = (ok, bt)" by (metis surj_pair)
  have "rg_allow p now r = Inr (ok, put_breaker p bt r1)" using g a by (simp add: rg_allow_def)
  with registry_inv_allow [OF inv(1) this] put
  show "\<exists>b r'. rg_allow p now r = Inr (b, r') \<and> registry_good (r', w)" by blast
  have "rg_recordSuccess p now r = Inr (put_breaker p (cb_recordSuccess now b) r1)"
    using g by (simp add: rg_recordSuccess_def)
  with registry_inv_success [OF inv(1) this] put
  show "\<exists>r'. rg_recordSuccess p now r = Inr r' \<and> registry_good (r', w)" by blast
  have "rg_recordFailure p now r = Inr (put_breaker p (cb_recordFailure (rg_config r) now b) r1)"
    using g by (simp add: rg_recordFailure_def)
  with registry_inv_failure [OF inv(1) this] put
  show "\<exists>r'. rg_recordFailure p now r = Inr r' \<and> registry_good (r', w)" by blast
  have "rg_release p now r = Inr (put_breaker p (cb_release b, []) r1)"
    using g by (simp add: rg_release_def)
  with registry_inv_release [OF inv(1) this] put
  show "\<exists>r'. rg_release p now r = Inr r' \<and> registry_good (r', w)" by blast
qed

interpretation rb: breaker_service "registry_ops now" registry_good for now
proof
  fix s :: "registry \<times> 'a" and p
  assume g: "registry_good s"
  obtain r w where s: "s = (r, w)" by fastforce
  note ok = registry_good_ops [OF g [unfolded s], of p "now w"]
  show "\<exists>b s'. bo_allow (registry_ops now) p s = Inr (b, s') \<and> registry_good s'"
    using ok(1) by (auto simp: registry_ops_def s)
  show "\<exists>s'. bo_success (registry_ops now) p s = Inr s' \<and> registry_good s'"
    using ok(2) by (auto simp: registry_ops_def s)
  show "\<exists>s'. bo_failure (registry_ops now) p s = Inr s' \<and> registry_good s'"
    using ok(3) by (auto simp: registry_ops_def s)
  show "\<exists>s'. bo_release (registry_ops now) p s = Inr s' \<and> registry_good s'"
    using ok(4) by (auto simp: registry_ops_def s)
qed

subsection \<open>Properties of a run\<close>

text \<open>A small gateway for the concrete runs below: provider \<open>a\<close> is down, \<open>b\<close> answers, \<open>x\<close> refuses
  the request as malformed; \<open>n\<close> is not permitted.\<close>

definition sample_registry :: registry where
  "sample_registry = \<lparr>rg_config = DEFAULT_BREAKER_CONFIG, rg_maxEntries = Fin 256, rg_breakers = [],
     rg_opened = 0, rg_half_opened = 0, rg_closed = 0, rg_evictions = 0, rg_metric = []\<rparr>"

definition sample_call ::
  "unit candidate \<Rightarrow> registry \<times> nat \<Rightarrow> (thrown + string) \<times> registry \<times> nat" where
  "sample_call c rw =
    ((if cd_provider c = ''a'' then Inl (Upstream_error (empty_info\<lparr>fi_status := Some 503\<rparr>))
      else if cd_provider c = ''x'' then Inl (Upstream_error (empty_info\<lparr>fi_status := Some 400\<rparr>))
      else Inr ''hi''), (fst rw, Suc (snd rw)))"

definition sample_env :: "(unit, thrown, string, registry \<times> nat) engine_env" where
  "sample_env = \<lparr>en_call = sample_call, en_sleep = (\<lambda>t rw. rw), en_dateNow = (\<lambda>rw. int (snd rw)),
     en_allow = Some (\<lambda>c. cd_provider c \<noteq> ''n''), en_failureOf = failureFromError,
     en_maxWait = Fin 10, en_rateLimitRetries = 1\<rparr>"

definition sample_cand :: "string \<Rightarrow> unit candidate" where
  "sample_cand p = \<lparr>cd_provider = p, cd_model = ''m'', cd_contextWindow = None, cd_data = ()\<rparr>"

definition sample_run :: "string list \<Rightarrow> (unit, thrown, string, registry \<times> nat) fo_result" where
  "sample_run ps = runFailover (registry_ops (\<lambda>n. of_nat n)) sample_env (map sample_cand ps) (sample_registry, 0)"

text \<open>C4. The failover engine calls only candidates of the list it was given that its \<open>allow\<close> filter
  permits, in every outcome and under any interleaving with other requests: each recorded attempt is
  one of such a candidate.\<close>

theorem failover_calls_only_permitted:
  "\<forall>a \<in> set (fo_attempts (runFailover ops env cands s)).
     \<exists>c \<in> set cands. permitted env c \<and> fa_provider a = cd_provider c \<and> fa_model a = cd_model c"
  using runFailover_result [of env cands ops s]
  by (auto simp: run_bounds_def called_def matches_def)

theorem failover_calls_only_permitted_witness:
  "\<exists>a \<in> set (fo_attempts (sample_run [''n'', ''a'', ''b''])).
     \<exists>c \<in> set (map sample_cand [''n'', ''a'', ''b'']). permitted sample_env c \<and>
       fa_provider a = cd_provider c \<and> fa_model a = cd_model c"
proof -
  have "ok_attempt (sample_cand ''b'') 1 \<in> set (fo_attempts (sample_run [''n'', ''a'', ''b'']))"
    by code_simp
  with failover_calls_only_permitted [of "registry_ops (\<lambda>n. of_nat n)" sample_env
      "map sample_cand [''n'', ''a'', ''b'']" "(sample_registry, 0)"]
  show ?thesis unfolding sample_run_def by blast
qed

text \<open>When a run returns, the answer is one a permitted candidate of the list gave, its attempt is
  the last one recorded and the only successful one, and every earlier failure was of a class the matrix
  says to fail over on.\<close>

lemma failover_returns_first_answer:
  assumes "runFailover ops env cands s = FO_done resp c as sk s'"
  shows "(\<exists>bs ms. as = bs @ [ok_attempt c ms] \<and> (\<forall>b \<in> set bs. failed_on b)) \<and>
    c \<in> set cands \<and> permitted env c \<and> (\<exists>s0 s1. en_call env c s0 = (Inr resp, s1))"
  using runFailover_result [of env cands ops s] by (simp add: assms)

text \<open>C8. An error is rethrown only when the matrix says to raise it: it is the failure of a permitted
  candidate, it is the last attempt recorded, and no earlier failure was one to raise (so a content
  filter refusal or a malformed request is never sent to another provider).\<close>

theorem failover_raises_at_once:
  assumes "runFailover ops env cands s = FO_raised err as sk s'"
  shows "action (classifyFailure (en_failureOf env err)) = Raise \<and>
    (\<exists>bs c ms s0 s1. as = bs @ [failed_attempt c ms (en_failureOf env err)] \<and>
       (\<forall>b \<in> set bs. failed_on b) \<and> c \<in> set cands \<and> permitted env c \<and> en_call env c s0 = (Inl err, s1))"
  using runFailover_result [of env cands ops s] by (simp add: assms)

theorem failover_raises_at_once_witness:
  "\<exists>err as sk s'. sample_run [''a'', ''x'', ''b''] = FO_raised err as sk s' \<and>
     action (classifyFailure (en_failureOf sample_env err)) = Raise"
proof -
  have "case sample_run [''a'', ''x'', ''b''] of FO_raised err as sk s' \<Rightarrow> True | _ \<Rightarrow> False" by code_simp
  then obtain err as sk s' where run: "sample_run [''a'', ''x'', ''b''] = FO_raised err as sk s'"
    by (auto split: fo_result.splits)
  from failover_raises_at_once [OF run [unfolded sample_run_def]] run show ?thesis by blast
qed

text \<open>C9. The engine fails closed only when nothing is left: every candidate of the list was called and
  failed, or was skipped with a recorded reason.\<close>

theorem failover_fails_closed_only_when_exhausted:
  assumes "runFailover ops env cands s = FO_no_candidate as sk le s'"
  shows "(\<forall>a \<in> set as. failed_on a) \<and>
    (\<forall>c \<in> set cands. (\<exists>a \<in> set as. fa_provider a = cd_provider c \<and> fa_model a = cd_model c) \<or>
       (\<exists>why. skip_entry c why \<in> set sk))"
  using runFailover_result [of env cands ops s]
  by (simp add: assms accounted_def passed_over_def matches_def)

theorem failover_fails_closed_only_when_exhausted_witness:
  "\<exists>as sk le s'. sample_run [''a'', ''n''] = FO_no_candidate as sk le s' \<and> (\<forall>a \<in> set as. failed_on a)"
proof -
  have "case sample_run [''a'', ''n''] of FO_no_candidate as sk le s' \<Rightarrow> True | _ \<Rightarrow> False" by code_simp
  then obtain as sk le s' where run: "sample_run [''a'', ''n''] = FO_no_candidate as sk le s'"
    by (auto split: fo_result.splits)
  from failover_fails_closed_only_when_exhausted [OF run [unfolded sample_run_def]] run show ?thesis by blast
qed

text \<open>C10. A run ends, whatever the providers answer, after at most one call and
  \<open>rateLimitRetries\<close> retries per candidate.\<close>

theorem failover_call_bound:
  "length (fo_attempts (runFailover ops env cands s)) \<le> length cands * Suc (en_rateLimitRetries env)"
  using runFailover_result [of env cands ops s] by (simp add: run_bounds_def)

text \<open>On the gateway's breaker registry a run never throws the \<open>RangeError\<close> of a breaker
  constructor, and leaves the registry in its invariant (bounded, with distinct keys, each breaker within
  its probe limit and threshold), provided the requests that run while it awaits do so.\<close>

lemma failover_keeps_registry:
  assumes "registry_inv r" "config_ok (rg_config r)"
    and "\<forall>c rw. registry_good rw \<longrightarrow> registry_good (snd (en_call env c rw))"
    and "\<forall>t rw. registry_good rw \<longrightarrow> registry_good (en_sleep env t rw)"
  shows "case runFailover (registry_ops now) env cands (r, w) of
      FO_done resp c as sk rw \<Rightarrow> registry_inv (fst rw)
    | FO_raised e as sk rw \<Rightarrow> registry_inv (fst rw)
    | FO_no_candidate as sk e rw \<Rightarrow> registry_inv (fst rw)
    | FO_range e \<Rightarrow> False"
proof -
  have "rb.good_end (runFailover (registry_ops now) env cands (r, w))"
    by (rule rb.run_ends_good) (use assms in \<open>auto simp: rb.good_env_def registry_good_def\<close>)
  then show ?thesis by (auto simp: registry_good_def split: fo_result.splits)
qed

text \<open>After a context-length failure the engine moves only to a candidate with a known context
  window, larger than that of the candidate that failed and than any earlier bound.\<close>

lemma failover_context_grows:
  assumes "fo_advance ops env Next_larger_context c st = Inr (c', r', st')"
  shows "\<exists>w. cd_contextWindow c' = Some w \<and> (\<forall>v. cd_contextWindow c = Some v \<longrightarrow> v < w) \<and>
    (\<forall>m. fs_minWindow st = Some m \<longrightarrow> m < w) \<and> r' = 0"
  using assms
  by (auto simp: fo_advance_def Let_def window_ok_def dest!: fo_next_SomeD
      split: sum.splits option.splits)

end
