(* ===== verification/Router_Policy.thy ===== *)
theory Router_Policy
  imports Prelude
begin

text \<open>
  The router's policy and the stages that run before any strategy
  (\<open>gateway/src/middlewares/router/types.ts\<close>, \<open>constraints.ts\<close> and \<open>policy.ts\<close>): sensitivity
  classification, the fail-closed data policy, use-case bars, and the cheapest-tier choices.

  Objects used as dictionaries are association lists in the order \<open>Object.keys\<close> gives. A cost is a
  \<open>jsnum\<close>: a request may name a \<open>max_tokens\<close> that is no number, and then every comparison of costs
  is false.
\<close>

datatype quality = Draft | Balanced | Critical
datatype sensitivity_source = Declared | Pii_escalated | Default

fun quality_text :: "quality \<Rightarrow> string" where
  "quality_text Draft = ''draft''"
| "quality_text Balanced = ''balanced''"
| "quality_text Critical = ''critical''"

record model_tier =
  mt_model :: string
  mt_group :: string
  mt_inputCostPer1k :: jsnum
  mt_outputCostPer1k :: jsnum
  mt_provider :: "string option"
  mt_jurisdiction :: "string option"
  mt_zdr :: "bool option"
  mt_usCloudActExposure :: "bool option"

record sensitivity_config =
  sc_levels :: "string list option"
  sc_unclassifiedDefault :: string
  sc_piiEscalation :: "(string, string) jmap option"

record data_policy_rule =
  dp_jurisdictions :: "string list option"
  dp_providers :: "string list option"
  dp_requireZdr :: "bool option"
  dp_usCloudActExposure :: "bool option"

record use_case_bar =
  uc_minGroup :: "string option"
  uc_evalSet :: "string option"
  uc_minParity :: "jsnum option"
  uc_eligibleModels :: "string list option"

record route_policy =
  rp_policyVersion :: "string option"
  rp_defaultGroup :: string
  rp_groups :: "(string, model_tier list) jmap"
  rp_qualityToGroup :: "(string, string) jmap"
  rp_groupOrder :: "string list option"
  rp_strategy :: "string option"
  rp_sensitivity :: "sensitivity_config option"
  rp_dataPolicy :: "(string, data_policy_rule) jmap option"
  rp_useCases :: "(string, use_case_bar) jmap option"

record route_request =
  rq_messages :: "json list"
  rq_requestedModel :: string
  rq_approxInputTokens :: nat
  rq_maxOutputTokens :: "jsnum option"
  rq_quality :: "quality option"
  rq_maxCost :: "jsnum option"
  rq_explicitGroup :: "string option"
  rq_dataClassification :: "string option"
  rq_piiDetected :: "string list"
  rq_useCase :: "string option"

record route_decision =
  rd_model :: string
  rd_group :: string
  rd_reason :: string
  rd_estCost :: jsnum
  rd_sensitivityLevel :: "string option"
  rd_sensitivitySource :: "sensitivity_source option"

subsection \<open>Sensitivity and the data policy\<close>

definition DEFAULT_LEVELS :: "string list" where
  "DEFAULT_LEVELS = [''public'', ''internal'', ''confidential'', ''restricted'']"

definition EEA_COUNTRIES :: "string list" where
  "EEA_COUNTRIES = [''AT'', ''BE'', ''BG'', ''HR'', ''CY'', ''CZ'', ''DK'', ''EE'', ''FI'', ''FR'', ''DE'', ''GR'',
     ''HU'', ''IE'', ''IT'', ''LV'', ''LT'', ''LU'', ''MT'', ''NL'', ''PL'', ''PT'', ''RO'', ''SK'',
     ''SI'', ''ES'', ''SE'', ''IS'', ''LI'', ''NO'']"

text \<open>\<open>own\<close>: an own property, never one of \<open>Object.prototype\<close>.\<close>

definition own :: "(string, 'a) jmap option \<Rightarrow> string \<Rightarrow> 'a option" where
  "own obj key = (case obj of None \<Rightarrow> None | Some m \<Rightarrow> jm_get m key)"

definition hasPolicyStages :: "route_policy \<Rightarrow> bool" where
  "hasPolicyStages p \<longleftrightarrow> rp_sensitivity p \<noteq> None \<or> rp_dataPolicy p \<noteq> None \<or> rp_useCases p \<noteq> None"

definition levels_of :: "sensitivity_config \<Rightarrow> string list" where
  "levels_of sc = (case sc_levels sc of Some ls \<Rightarrow> if ls = [] then DEFAULT_LEVELS else ls
     | None \<Rightarrow> DEFAULT_LEVELS)"

text \<open>The loop over the detected categories.\<close>

fun escalate ::
  "string list \<Rightarrow> (string, string) jmap option \<Rightarrow> string list \<Rightarrow> string \<times> sensitivity_source
   \<Rightarrow> string \<times> sensitivity_source" where
  "escalate levels esc [] ls = ls"
| "escalate levels esc (cat # cats) ls =
    escalate levels esc cats
      (case own esc cat of
         Some e \<Rightarrow> if 0 \<le> index_of levels e \<and> index_of levels (fst ls) < index_of levels e
                    then (e, Pii_escalated) else ls
       | None \<Rightarrow> ls)"

definition classifySensitivity ::
  "route_policy \<Rightarrow> string option \<Rightarrow> string list \<Rightarrow> string option \<times> sensitivity_source" where
  "classifySensitivity p declared pii =
    (case rp_sensitivity p of
       None \<Rightarrow> (if truthy_str declared then (declared, Declared) else (None, Default))
     | Some sc \<Rightarrow>
        (let levels = levels_of sc;
             start = (case declared of
                 Some d \<Rightarrow> if 0 \<le> index_of levels d then (d, Declared) else (sc_unclassifiedDefault sc, Default)
               | None \<Rightarrow> (sc_unclassifiedDefault sc, Default));
             (level, source) = escalate levels (sc_piiEscalation sc) pii start
         in (Some level, source)))"

definition dataPolicyRule :: "route_policy \<Rightarrow> string option \<Rightarrow> data_policy_rule option" where
  "dataPolicyRule p level = (case level of None \<Rightarrow> None | Some l \<Rightarrow> own (rp_dataPolicy p) l)"

definition jurisdictionAllowed :: "string option \<Rightarrow> string list \<Rightarrow> bool" where
  "jurisdictionAllowed jur allowed \<longleftrightarrow>
    (if ''any'' \<in> set allowed then True
     else case jur of None \<Rightarrow> False
       | Some j \<Rightarrow> j \<in> set allowed \<or> (''EEA'' \<in> set allowed \<and> j \<in> set EEA_COUNTRIES))"

definition tierComplies :: "model_tier \<Rightarrow> data_policy_rule option \<Rightarrow> bool" where
  "tierComplies tier rule \<longleftrightarrow>
    (case rule of None \<Rightarrow> True
     | Some r \<Rightarrow>
        if \<not> jurisdictionAllowed (mt_jurisdiction tier)
              (case dp_jurisdictions r of None \<Rightarrow> [] | Some js \<Rightarrow> js) then False
        else if (case dp_providers r of None \<Rightarrow> False
                 | Some ps \<Rightarrow> (case mt_provider tier of None \<Rightarrow> True | Some q \<Rightarrow> q \<notin> set ps)) then False
        else if dp_requireZdr r = Some True \<and> mt_zdr tier \<noteq> Some True then False
        else \<not> (dp_usCloudActExposure r = Some False \<and> mt_usCloudActExposure tier \<noteq> Some False))"

text \<open>A model the policy does not list: a tier without facts.\<close>

definition bare_tier :: "string \<Rightarrow> string \<Rightarrow> model_tier" where
  "bare_tier model grp = \<lparr>mt_model = model, mt_group = grp, mt_inputCostPer1k = Fin 0,
     mt_outputCostPer1k = Fin 0, mt_provider = None, mt_jurisdiction = None, mt_zdr = None,
     mt_usCloudActExposure = None\<rparr>"

text \<open>Every tier of the policy, group by group.\<close>

definition all_tiers :: "route_policy \<Rightarrow> model_tier list" where
  "all_tiers p = concat (map snd (rp_groups p))"

definition modelComplies ::
  "route_policy \<Rightarrow> string option \<Rightarrow> data_policy_rule option \<Rightarrow> (model_tier \<Rightarrow> bool) \<Rightarrow> bool" where
  "modelComplies p model rule applies \<longleftrightarrow>
    (case rule of None \<Rightarrow> True
     | Some r \<Rightarrow>
        (let tiers = (if truthy_str model
               then filter (\<lambda>t. Some (mt_model t) = model \<and> applies t) (all_tiers p) else [])
         in if tiers = []
            then tierComplies (bare_tier (case model of None \<Rightarrow> [] | Some m \<Rightarrow> m) []) rule
            else list_ex (\<lambda>t. tierComplies t rule) tiers))"

definition groupRank :: "route_policy \<Rightarrow> string \<Rightarrow> int option" where
  "groupRank p grp =
    (let i = index_of (case rp_groupOrder p of None \<Rightarrow> [] | Some os \<Rightarrow> os) grp
     in if i < 0 then None else Some i)"

definition useCaseBar :: "route_policy \<Rightarrow> string option \<Rightarrow> use_case_bar option" where
  "useCaseBar p useCase = (case useCase of None \<Rightarrow> None | Some u \<Rightarrow> own (rp_useCases p) u)"

subsection \<open>Costs\<close>

definition DEFAULT_OUTPUT_TOKENS :: jsnum where
  "DEFAULT_OUTPUT_TOKENS = Fin 512"

text \<open>The characters of one message: a string content, or the \<open>text\<close> of its parts.\<close>

definition part_chars :: "json \<Rightarrow> nat" where
  "part_chars part = (case prop_of (Some part) ''text'' of Some (JStr t) \<Rightarrow> length t | _ \<Rightarrow> 0)"

definition message_chars :: "json \<Rightarrow> nat" where
  "message_chars m = (case prop_of (Some m) ''content'' of
      Some (JStr t) \<Rightarrow> length t
    | Some (JArr parts) \<Rightarrow> sum_list (map part_chars parts)
    | _ \<Rightarrow> 0)"

definition estimateInputTokens :: "json list \<Rightarrow> nat" where
  "estimateInputTokens messages = (sum_list (map message_chars messages) + 3) div 4"

definition estimateTierCost :: "model_tier \<Rightarrow> nat \<Rightarrow> jsnum \<Rightarrow> jsnum" where
  "estimateTierCost tier inputTokens outputTokens =
    js_add (js_mul (Fin (of_nat inputTokens / 1000)) (mt_inputCostPer1k tier))
           (js_mul (js_div1000 outputTokens) (mt_outputCostPer1k tier))"

definition outTokens :: "route_request \<Rightarrow> jsnum" where
  "outTokens req = (case rq_maxOutputTokens req of None \<Rightarrow> DEFAULT_OUTPUT_TOKENS | Some n \<Rightarrow> n)"

definition tier_cost :: "route_request \<Rightarrow> model_tier \<Rightarrow> jsnum" where
  "tier_cost req tier = estimateTierCost tier (rq_approxInputTokens req) (outTokens req)"

definition groupTiers :: "route_policy \<Rightarrow> string \<Rightarrow> model_tier list option" where
  "groupTiers p name = jm_get (rp_groups p) name"

text \<open>\<open>pickCheapestIn\<close>: \<open>bestCost\<close> starts at \<open>Infinity\<close>.\<close>

fun cheapest_loop ::
  "(model_tier \<Rightarrow> jsnum) \<Rightarrow> model_tier list \<Rightarrow> (model_tier \<times> jsnum) option \<Rightarrow> (model_tier \<times> jsnum) option" where
  "cheapest_loop cost [] best = best"
| "cheapest_loop cost (t # ts) best =
    cheapest_loop cost ts
      (if js_lt (cost t) (case best of None \<Rightarrow> PosInf | Some b \<Rightarrow> snd b) then Some (t, cost t) else best)"

definition pickCheapestIn :: "model_tier list \<Rightarrow> route_request \<Rightarrow> (model_tier \<times> jsnum) option" where
  "pickCheapestIn tiers req = cheapest_loop (tier_cost req) tiers None"

text \<open>The two running choices of \<open>cheapestUnderBudget\<close> (and of the budget downgrade): the most expensive
  that fits, and the cheapest. \<open>keep\<close> is the \<open>continue\<close> guards.\<close>

fun fit_loop ::
  "(model_tier \<Rightarrow> jsnum) \<Rightarrow> (model_tier \<Rightarrow> bool) \<Rightarrow> jsnum \<Rightarrow> model_tier list
   \<Rightarrow> (model_tier \<times> jsnum) option \<Rightarrow> (model_tier \<times> jsnum) option
   \<Rightarrow> (model_tier \<times> jsnum) option \<times> (model_tier \<times> jsnum) option" where
  "fit_loop cost keep limit [] fits cheapest = (fits, cheapest)"
| "fit_loop cost keep limit (t # ts) fits cheapest =
    (if \<not> keep t then fit_loop cost keep limit ts fits cheapest
     else let c = cost t;
              cheapest' = (case cheapest of None \<Rightarrow> Some (t, c)
                           | Some b \<Rightarrow> if js_lt c (snd b) then Some (t, c) else cheapest);
              fits' = (if js_le c limit \<and> (case fits of None \<Rightarrow> True | Some b \<Rightarrow> js_gt c (snd b))
                        then Some (t, c) else fits)
          in fit_loop cost keep limit ts fits' cheapest')"

definition cheapestUnderBudget ::
  "route_policy \<Rightarrow> jsnum \<Rightarrow> route_request \<Rightarrow> (model_tier \<Rightarrow> bool) \<Rightarrow> (model_tier \<times> jsnum \<times> bool) option" where
  "cheapestUnderBudget p maxCost req allow =
    (case fit_loop (tier_cost req) allow maxCost (all_tiers p) None None of
       (Some (t, c), _) \<Rightarrow> Some (t, c, True)
     | (None, Some (t, c)) \<Rightarrow> Some (t, c, False)
     | (None, None) \<Rightarrow> None)"

subsection \<open>What the choices guarantee\<close>

text \<open>Costs that can be compared: not NaN.\<close>

lemma js_lt_NaN [simp]: "\<not> js_lt NaN y" "\<not> js_lt x NaN"
  by (cases y; simp) (cases x; simp)

lemma js_not_lt_le: "\<not> js_lt x y \<Longrightarrow> x \<noteq> NaN \<Longrightarrow> y \<noteq> NaN \<Longrightarrow> js_le y x"
  by (cases x; cases y) auto

lemma js_lt_le: "js_lt x y \<Longrightarrow> js_le x y"
  by (simp add: js_le_def)

lemma js_le_refl: "x \<noteq> NaN \<Longrightarrow> js_le x x"
  by (simp add: js_le_def)

lemma js_lt_not_NaN: "js_lt x y \<Longrightarrow> x \<noteq> NaN \<and> y \<noteq> NaN"
  by auto

definition best_of :: "(model_tier \<Rightarrow> jsnum) \<Rightarrow> model_tier list \<Rightarrow> (model_tier \<times> jsnum) option \<Rightarrow> bool" where
  "best_of cost ts b \<longleftrightarrow> (case b of
      None \<Rightarrow> \<forall>t \<in> set ts. \<not> js_lt (cost t) PosInf
    | Some (t, c) \<Rightarrow> t \<in> set ts \<and> c = cost t \<and> js_lt c PosInf \<and> (\<forall>u \<in> set ts. \<not> js_lt (cost u) c))"

lemma js_lt_trans: "js_lt x y \<Longrightarrow> js_lt y z \<Longrightarrow> js_lt x z"
  by (cases x; cases y; cases z) auto

lemma cheapest_loop_best: "best_of cost us b \<Longrightarrow> best_of cost (us @ ts) (cheapest_loop cost ts b)"
proof (induction ts arbitrary: us b)
  case (Cons t ts)
  let ?b = "if js_lt (cost t) (case b of None \<Rightarrow> PosInf | Some b \<Rightarrow> snd b) then Some (t, cost t) else b"
  have irr: "\<not> js_lt x x" for x by (cases x) auto
  have "best_of cost (us @ [t]) ?b"
    using Cons.prems by (auto simp: best_of_def irr split: option.splits dest: js_lt_trans)
  from Cons.IH [OF this] show ?case by simp
qed simp

lemma pickCheapestIn_best: "best_of (tier_cost req) ts (pickCheapestIn ts req)"
  using cheapest_loop_best [of "tier_cost req" "[]" None ts] by (simp add: pickCheapestIn_def best_of_def)

lemma pickCheapestIn_SomeD:
  "pickCheapestIn ts req = Some (t, c) \<Longrightarrow> t \<in> set ts \<and> c = tier_cost req t \<and> (\<forall>u \<in> set ts. \<not> js_lt (tier_cost req u) c)"
  using pickCheapestIn_best [of req ts] by (auto simp: best_of_def)

text \<open>The two choices of \<open>fit_loop\<close> over the tiers seen so far.\<close>

definition fits_best :: "(model_tier \<Rightarrow> jsnum) \<Rightarrow> jsnum \<Rightarrow> model_tier list \<Rightarrow> (model_tier \<times> jsnum) option \<Rightarrow> bool" where
  "fits_best cost limit ts b \<longleftrightarrow> (case b of
      None \<Rightarrow> \<forall>t \<in> set ts. \<not> js_le (cost t) limit
    | Some (t, c) \<Rightarrow> t \<in> set ts \<and> c = cost t \<and> js_le c limit \<and>
        (\<forall>u \<in> set ts. js_le (cost u) limit \<longrightarrow> js_le (cost u) c))"

definition cheap_best :: "(model_tier \<Rightarrow> jsnum) \<Rightarrow> model_tier list \<Rightarrow> (model_tier \<times> jsnum) option \<Rightarrow> bool" where
  "cheap_best cost ts b \<longleftrightarrow> (case b of
      None \<Rightarrow> ts = []
    | Some (t, c) \<Rightarrow> t \<in> set ts \<and> c = cost t \<and> (c \<noteq> NaN \<longrightarrow> (\<forall>u \<in> set ts. \<not> js_lt (cost u) c)))"

lemma fits_best_snoc:
  assumes "fits_best cost limit ts b"
  shows "fits_best cost limit (ts @ [t])
    (if js_le (cost t) limit \<and> (case b of None \<Rightarrow> True | Some b \<Rightarrow> js_gt (cost t) (snd b)) then Some (t, cost t) else b)"
proof -
  have nn: "js_le x y \<Longrightarrow> x \<noteq> NaN" for x y by auto
  show ?thesis
    using assms by (auto simp: fits_best_def split: option.splits
        intro: js_le_refl js_not_lt_le js_lt_le js_le_trans dest: nn)
qed

lemma cheap_best_snoc:
  assumes "cheap_best cost ts b"
  shows "cheap_best cost (ts @ [t])
    (case b of None \<Rightarrow> Some (t, cost t) | Some d \<Rightarrow> if js_lt (cost t) (snd d) then Some (t, cost t) else b)"
proof -
  have irr: "\<not> js_lt x x" for x by (cases x) auto
  show ?thesis using assms by (auto simp: cheap_best_def irr split: option.splits dest: js_lt_trans)
qed

lemma fit_loop_best:
  assumes "fits_best cost limit us a" "cheap_best cost us b" "fit_loop cost keep limit ts a b = (x, y)"
  shows "fits_best cost limit (us @ filter keep ts) x \<and> cheap_best cost (us @ filter keep ts) y"
  using assms
proof (induction ts arbitrary: us a b)
  case (Cons t ts)
  show ?case
  proof (cases "keep t")
    case True
    from Cons.IH [OF fits_best_snoc [OF Cons.prems(1), of t] cheap_best_snoc [OF Cons.prems(2), of t]]
      Cons.prems(3) True show ?thesis by (simp add: Let_def)
  next
    case False
    with Cons show ?thesis by simp
  qed
qed simp

lemma fit_loop_run:
  assumes "fit_loop cost keep limit ts None None = (x, y)"
  shows "fits_best cost limit (filter keep ts) x \<and> cheap_best cost (filter keep ts) y"
  using fit_loop_best [OF _ _ assms, of "[]"] by (simp add: fits_best_def cheap_best_def)

text \<open>The budget clamp picks the most capable tier that fits: among the allowed tiers it returns one of
  the highest cost at or under the ceiling; it reports that the ceiling cannot be met only when no allowed
  tier meets it, and then returns a cheapest allowed tier.\<close>

lemma cheapestUnderBudget_optimal:
  assumes "cheapestUnderBudget p maxCost req allow = Some (t, c, ok)"
  shows "t \<in> set (all_tiers p) \<and> allow t \<and> c = tier_cost req t \<and>
    (if ok then js_le c maxCost \<and> (\<forall>u \<in> set (all_tiers p). allow u \<and> js_le (tier_cost req u) maxCost \<longrightarrow> js_le (tier_cost req u) c)
     else \<forall>u \<in> set (all_tiers p). allow u \<longrightarrow> \<not> js_le (tier_cost req u) maxCost \<and> (c \<noteq> NaN \<longrightarrow> \<not> js_lt (tier_cost req u) c))"
proof -
  obtain x y where f: "fit_loop (tier_cost req) allow maxCost (all_tiers p) None None = (x, y)" by fastforce
  from fit_loop_run [OF f] f assms show ?thesis
    by (auto simp: cheapestUnderBudget_def fits_best_def cheap_best_def split: option.splits)
qed

definition sample_tier :: "string \<Rightarrow> string \<Rightarrow> rat \<Rightarrow> string option \<Rightarrow> model_tier" where
  "sample_tier m g cost j = (bare_tier m g)\<lparr>mt_inputCostPer1k := Fin cost, mt_outputCostPer1k := Fin cost, mt_jurisdiction := j\<rparr>"

definition sample_policy :: route_policy where
  "sample_policy = \<lparr>rp_policyVersion = None, rp_defaultGroup = ''cheap'',
     rp_groups = [(''cheap'', [sample_tier ''mini'' ''cheap'' 4 (Some ''SE''), sample_tier ''nano'' ''cheap'' 2 (Some ''US'')]),
                  (''frontier'', [sample_tier ''big'' ''frontier'' 20 (Some ''DE'')])],
     rp_qualityToGroup = [(''critical'', ''frontier'')], rp_groupOrder = Some [''cheap'', ''frontier''],
     rp_strategy = None,
     rp_sensitivity = Some \<lparr>sc_levels = None, sc_unclassifiedDefault = ''internal'', sc_piiEscalation = Some [(''ssn'', ''restricted'')]\<rparr>,
     rp_dataPolicy = Some [(''restricted'', \<lparr>dp_jurisdictions = Some [''SE'', ''DE''], dp_providers = None,
        dp_requireZdr = None, dp_usCloudActExposure = None\<rparr>)],
     rp_useCases = None\<rparr>"

definition sample_request :: route_request where
  "sample_request = \<lparr>rq_messages = [], rq_requestedModel = ''auto'', rq_approxInputTokens = 4,
     rq_maxOutputTokens = Some (Fin 996), rq_quality = None, rq_maxCost = Some (Fin 5), rq_explicitGroup = None,
     rq_dataClassification = None, rq_piiDetected = [''ssn''], rq_useCase = None\<rparr>"

lemmas sample_defs = cheapestUnderBudget_def all_tiers_def sample_policy_def sample_request_def sample_tier_def
  bare_tier_def tier_cost_def estimateTierCost_def outTokens_def js_mul_def Let_def

subsection \<open>Sensitivity is escalate-only\<close>

lemma escalate_rank:
  assumes "escalate levels esc cats (l, src) = (l', src')"
  shows "index_of levels l \<le> index_of levels l' \<and>
    (\<forall>cat \<in> set cats. \<forall>e. own esc cat = Some e \<and> 0 \<le> index_of levels e \<longrightarrow> index_of levels e \<le> index_of levels l') \<and>
    (if index_of levels l' = index_of levels l then l' = l \<and> src' = src
     else src' = Pii_escalated \<and> (\<exists>cat \<in> set cats. own esc cat = Some l'))"
  using assms
proof (induction cats arbitrary: l src)
  case (Cons cat cats)
  obtain m s where ms: "(case own esc cat of
         Some e \<Rightarrow> if 0 \<le> index_of levels e \<and> index_of levels l < index_of levels e
                    then (e, Pii_escalated) else (l, src)
       | None \<Rightarrow> (l, src)) = (m, s)" by fastforce
  with Cons.prems have "escalate levels esc cats (m, s) = (l', src')"
    by (simp only: escalate.simps fst_conv)
  from Cons.IH [OF this] ms show ?case
    by (auto split: option.splits if_splits)
qed simp

text \<open>The level a call starts from: the declared one when the policy knows it, else the default.\<close>

definition base_level :: "sensitivity_config \<Rightarrow> string option \<Rightarrow> string" where
  "base_level sc declared = (case declared of
      Some d \<Rightarrow> if d \<in> set (levels_of sc) then d else sc_unclassifiedDefault sc
    | None \<Rightarrow> sc_unclassifiedDefault sc)"

text \<open>Detected personal data can only raise a call's sensitivity: the effective level ranks at least as
  high as the declared (or default) level and as every level a detected category escalates to, it is one of
  those, and the source is \<open>pii_escalated\<close> exactly when a detection raised it.\<close>

lemma sensitivity_escalate_only:
  assumes "rp_sensitivity p = Some sc" "classifySensitivity p declared pii = (level, source)"
  shows "\<exists>l. level = Some l \<and> (let rank = index_of (levels_of sc); base = base_level sc declared in
    rank base \<le> rank l \<and>
    (\<forall>cat \<in> set pii. \<forall>e. own (sc_piiEscalation sc) cat = Some e \<and> e \<in> set (levels_of sc) \<longrightarrow> rank e \<le> rank l) \<and>
    (if rank l = rank base then l = base \<and> source \<noteq> Pii_escalated
     else source = Pii_escalated \<and> (\<exists>cat \<in> set pii. own (sc_piiEscalation sc) cat = Some l)))"
proof -
  define src where "src = (case declared of Some d \<Rightarrow> if d \<in> set (levels_of sc) then Declared else Default
    | None \<Rightarrow> Default)"
  have c: "classifySensitivity p declared pii =
      (let (l, s) = escalate (levels_of sc) (sc_piiEscalation sc) pii (base_level sc declared, src) in (Some l, s))"
    by (cases declared) (simp_all add: assms(1) classifySensitivity_def base_level_def src_def Let_def)
  have src: "src \<noteq> Pii_escalated" by (simp add: src_def split: option.splits)
  obtain l s where e: "escalate (levels_of sc) (sc_piiEscalation sc) pii (base_level sc declared, src) = (l, s)"
    by fastforce
  from escalate_rank [OF e] c e assms(2) src show ?thesis by (auto simp: Let_def)
qed

text \<open>The data policy fails closed on missing facts: a rule lets a tier without facts (or a model the policy
  does not list) through only when it allows any jurisdiction and demands nothing else.\<close>

lemma data_policy_fails_closed:
  "tierComplies (bare_tier m g) (Some r) \<longleftrightarrow>
     ''any'' \<in> set (case dp_jurisdictions r of None \<Rightarrow> [] | Some js \<Rightarrow> js) \<and> dp_providers r = None \<and>
     dp_requireZdr r \<noteq> Some True \<and> dp_usCloudActExposure r \<noteq> Some False"
  by (auto simp: tierComplies_def jurisdictionAllowed_def bare_tier_def split: option.splits)

end
