(* ===== verification/Router_Resolve.thy ===== *)
theory Router_Resolve
  imports Router_Policy
begin

text \<open>
  Resolving a route (\<open>gateway/src/middlewares/router/heuristic.ts\<close> and \<open>index.ts\<close>): the routing
  headers, the heuristic strategy, the plain path (\<open>resolveInGroup\<close>) and the path under the policy
  stages (\<open>resolvePolicyRoute\<close>), and the failover candidates of a decision.

  Routing throws a \<open>PolicyViolation\<close>, a \<open>TypeError\<close> where the code dereferences a choice that does not
  exist (no tier has a comparable cost), or what a custom strategy throws. \<open>router_strategy\<close> is the
  contract of a strategy; the built-in heuristic interprets it.
\<close>

datatype route_error =
    Policy_violation (pv_message: string) (pv_level: "string option") (pv_source: sensitivity_source) (pv_group: string)
  | Type_error
  | Strategy_error string

subsection \<open>Headers\<close>

definition header :: "(string, string) jmap \<Rightarrow> string \<Rightarrow> string option" where
  "header headers name = map_option snd (List.find (\<lambda>e. to_lower (fst e) = to_lower name) headers)"

record route_hints =
  rh_quality :: "quality option"
  rh_maxCost :: "jsnum option"
  rh_explicitGroup :: "string option"
  rh_dataClassification :: "string option"
  rh_useCase :: "string option"
  rh_cacheOff :: bool

definition quality_of :: "string \<Rightarrow> quality option" where
  "quality_of s = List.find (\<lambda>q. quality_text q = s) [Draft, Balanced, Critical]"

definition nonempty :: "string option \<Rightarrow> string option" where
  "nonempty s = (if truthy_str s then s else None)"

definition parseRouteHeaders :: "(string, string) jmap \<Rightarrow> route_hints" where
  "parseRouteHeaders headers =
    \<lparr>rh_quality = (case header headers ''x-ps-quality'' of None \<Rightarrow> None | Some q \<Rightarrow> quality_of q),
     rh_maxCost = (case header headers ''x-ps-max-cost'' of None \<Rightarrow> None
       | Some s \<Rightarrow> if js_Number s = NaN then None else Some (js_Number s)),
     rh_explicitGroup = nonempty (header headers ''x-ps-route''),
     rh_dataClassification = nonempty (header headers ''x-ps-data-classification''),
     rh_useCase = nonempty (header headers ''x-ps-use-case''),
     rh_cacheOff = (to_lower (case header headers ''x-ps-cache'' of None \<Rightarrow> [] | Some v \<Rightarrow> v) = ''off'')\<rparr>"

subsection \<open>The heuristic strategy\<close>

definition COMPLEX_TOKEN_THRESHOLD :: nat where
  "COMPLEX_TOKEN_THRESHOLD = 2000"

definition content_string :: "json \<Rightarrow> string option" where
  "content_string m = (case prop_of (Some m) ''content'' of Some (JStr s) \<Rightarrow> Some s | _ \<Rightarrow> None)"

definition hasCodeFence :: "json list \<Rightarrow> bool" where
  "hasCodeFence messages \<longleftrightarrow> list_ex (\<lambda>m. case content_string m of None \<Rightarrow> False
     | Some s \<Rightarrow> includes_str s ''```'') messages"

text \<open>\<open>/json schema|response_format|strict json/i\<close>\<close>

definition demandsJsonSchema :: "json list \<Rightarrow> bool" where
  "demandsJsonSchema messages \<longleftrightarrow> list_ex (\<lambda>m. case content_string m of None \<Rightarrow> False
     | Some s \<Rightarrow> list_ex (includes_str (to_lower s)) [''json schema'', ''response_format'', ''strict json'']) messages"

definition isComplex :: "route_request \<Rightarrow> bool" where
  "isComplex req \<longleftrightarrow> rq_approxInputTokens req > COMPLEX_TOKEN_THRESHOLD \<or>
     hasCodeFence (rq_messages req) \<or> demandsJsonSchema (rq_messages req)"

definition tiersOf :: "route_policy \<Rightarrow> string \<Rightarrow> model_tier list" where
  "tiersOf p g = (case groupTiers p g of None \<Rightarrow> [] | Some ts \<Rightarrow> ts)"

definition plain_decision :: "string \<Rightarrow> string \<Rightarrow> string \<Rightarrow> jsnum \<Rightarrow> route_decision" where
  "plain_decision model grp reason cost = \<lparr>rd_model = model, rd_group = grp, rd_reason = reason,
     rd_estCost = cost, rd_sensitivityLevel = None, rd_sensitivitySource = None\<rparr>"

text \<open>The decision when a group has no tier to pick: the default group's, else the model asked for.\<close>

definition default_decision :: "route_policy \<Rightarrow> route_request \<Rightarrow> string \<Rightarrow> route_decision" where
  "default_decision p req reason =
    (case pickCheapestIn (tiersOf p (rp_defaultGroup p)) req of
       None \<Rightarrow> plain_decision (rq_requestedModel req) (rp_defaultGroup p) reason (Fin 0)
     | Some (t, c) \<Rightarrow> plain_decision (mt_model t) (rp_defaultGroup p) reason c)"

text \<open>The budget clamp of a pick: \<open>maxCost\<close> set and the pick above it.\<close>

definition clamp_of ::
  "route_policy \<Rightarrow> route_request \<Rightarrow> (model_tier \<Rightarrow> bool) \<Rightarrow> jsnum \<Rightarrow> (model_tier \<times> jsnum \<times> bool) option" where
  "clamp_of p req allow estCost =
    (case rq_maxCost req of None \<Rightarrow> None
     | Some mx \<Rightarrow> if js_gt estCost mx then cheapestUnderBudget p mx req allow else None)"

definition complexity_label :: "route_request \<Rightarrow> string" where
  "complexity_label req = (if isComplex req then ''complex'' else ''simple'')"

definition heuristic_group :: "route_request \<Rightarrow> string" where
  "heuristic_group req = (if isComplex req then ''frontier'' else ''cheap'')"

definition heuristic_route :: "route_request \<Rightarrow> route_policy \<Rightarrow> route_decision" where
  "heuristic_route req p =
    (case pickCheapestIn (tiersOf p (heuristic_group req)) req of
       None \<Rightarrow> default_decision p req ''heuristic:empty-group-fallback''
     | Some (t, c) \<Rightarrow>
        (case clamp_of p req (\<lambda>_. True) c of
           Some (u, cu, ok) \<Rightarrow> plain_decision (mt_model u) (mt_group u)
             (if ok then ''heuristic:'' @ complexity_label req @ ''+budget-clamp''
              else ''heuristic:budget-unsatisfiable-cheapest'') cu
         | None \<Rightarrow> plain_decision (mt_model t) (heuristic_group req) (''heuristic:'' @ complexity_label req) c))"

subsection \<open>The plain path\<close>

definition resolveInGroup ::
  "route_policy \<Rightarrow> string \<Rightarrow> route_request \<Rightarrow> string \<Rightarrow> route_error + route_decision" where
  "resolveInGroup p grp req pre =
    (if tiersOf p grp = [] then Inr (default_decision p req (pre @ '':unknown-group-default''))
     else case pickCheapestIn (tiersOf p grp) req of
       None \<Rightarrow> Inl Type_error
     | Some (t, c) \<Rightarrow>
        (case clamp_of p req (\<lambda>_. True) c of
           Some (u, cu, ok) \<Rightarrow> Inr (plain_decision (mt_model u) (mt_group u)
             (pre @ (if ok then ''+budget-clamp'' else ''+budget-unsatisfiable'')) cu)
         | None \<Rightarrow> Inr (plain_decision (mt_model t) grp pre c)))"

text \<open>A strategy: the built-in one, which the policy path recognises, or any other.\<close>

datatype strategy = Heuristic | Custom "route_request \<Rightarrow> route_policy \<Rightarrow> route_error + route_decision"

fun strategy_route :: "strategy \<Rightarrow> route_request \<Rightarrow> route_policy \<Rightarrow> route_error + route_decision" where
  "strategy_route Heuristic req p = Inr (heuristic_route req p)"
| "strategy_route (Custom f) req p = f req p"

subsection \<open>The path under the policy stages\<close>

record policy_filter =
  pf_level :: "string option"
  pf_source :: sensitivity_source
  pf_rule :: "data_policy_rule option"
  pf_bar :: "use_case_bar option"
  pf_eligible :: "string list option"

definition policyFilter :: "route_policy \<Rightarrow> route_request \<Rightarrow> policy_filter" where
  "policyFilter p req =
    (let (level, source) = classifySensitivity p (rq_dataClassification req) (rq_piiDetected req);
         bar = (if truthy_str (rq_explicitGroup req) then None else useCaseBar p (rq_useCase req))
     in \<lparr>pf_level = level, pf_source = source, pf_rule = dataPolicyRule p level, pf_bar = bar,
         pf_eligible = (case bar of None \<Rightarrow> None
           | Some b \<Rightarrow> if truthy_str (uc_evalSet b)
               then Some (case uc_eligibleModels b of None \<Rightarrow> [] | Some ms \<Rightarrow> ms) else None)\<rparr>)"

definition pf_allow :: "policy_filter \<Rightarrow> model_tier \<Rightarrow> bool" where
  "pf_allow f tier \<longleftrightarrow> (case pf_eligible f of None \<Rightarrow> True | Some ms \<Rightarrow> mt_model tier \<in> set ms) \<and>
     tierComplies tier (pf_rule f)"

text \<open>Step 3: the group and the reason.\<close>

definition pick_group ::
  "route_policy \<Rightarrow> route_request \<Rightarrow> strategy \<Rightarrow> policy_filter \<Rightarrow> route_error + string \<times> string" where
  "pick_group p req strat f =
    (if truthy_str (rq_explicitGroup req) then
       (let g = the (rq_explicitGroup req) in
        Inr (if tiersOf p g = [] then (rp_defaultGroup p, ''override:unknown-group-default'') else (g, ''override'')))
     else case rq_quality req of
       Some q \<Rightarrow>
        (let g = (case jm_get (rp_qualityToGroup p) (quality_text q) of
                    Some m \<Rightarrow> if m = [] then rp_defaultGroup p else m | None \<Rightarrow> rp_defaultGroup p);
             reason = ''quality:'' @ quality_text q
         in Inr (if tiersOf p g = [] then (rp_defaultGroup p, reason @ '':unknown-group-default'') else (g, reason)))
     | None \<Rightarrow>
        (case strat of
           Heuristic \<Rightarrow>
            (let g = heuristic_group req in
             Inr (if tiersOf p g = [] then (rp_defaultGroup p, ''heuristic:empty-group-fallback'')
                  else (g, ''heuristic:'' @ complexity_label req)))
         | Custom route \<Rightarrow>
            rbind (route req (p\<lparr>rp_groups := map (\<lambda>(g, ts). (g, filter (pf_allow f) ts)) (rp_groups p)\<rparr>))
              (\<lambda>d. Inr (if tiersOf p (rd_group d) = []
                        then (rp_defaultGroup p, rd_reason d @ '':unknown-group-default'')
                        else (rd_group d, rd_reason d)))))"

text \<open>Step 4: the use case's minimum group, then the groups above it that have an eligible tier.\<close>

definition raise_group :: "route_policy \<Rightarrow> policy_filter \<Rightarrow> string \<times> string \<Rightarrow> string \<times> string" where
  "raise_group p f gr =
    (case pf_bar f of None \<Rightarrow> gr
     | Some b \<Rightarrow>
        (case nonempty (uc_minGroup b) of None \<Rightarrow> gr
         | Some mg \<Rightarrow>
            (case groupRank p mg of None \<Rightarrow> gr
             | Some need \<Rightarrow>
                (case groupRank p (fst gr) of
                   Some have \<Rightarrow> if have < need then (mg, snd gr @ ''+use-case-min-group'') else gr
                 | None \<Rightarrow> (mg, snd gr @ ''+use-case-min-group'')))))"

fun eligible_above ::
  "route_policy \<Rightarrow> policy_filter \<Rightarrow> string list \<Rightarrow> string \<times> string \<Rightarrow> (string \<times> string) \<times> model_tier list" where
  "eligible_above p f [] gr = (gr, [])"
| "eligible_above p f (higher # rest) gr =
    (let cs = filter (pf_allow f) (tiersOf p higher) in
     if cs \<noteq> [] then ((higher, snd gr @ ''+use-case-eligible''), cs) else eligible_above p f rest gr)"

definition policy_candidates ::
  "route_policy \<Rightarrow> policy_filter \<Rightarrow> string \<times> string \<Rightarrow> (string \<times> string) \<times> model_tier list" where
  "policy_candidates p f gr =
    (let cs = filter (pf_allow f) (tiersOf p (fst gr)) in
     if cs = [] \<and> pf_eligible f \<noteq> None then
       (let order = (case rp_groupOrder p of None \<Rightarrow> [] | Some os \<Rightarrow> os) in
        eligible_above p f (case groupRank p (fst gr) of None \<Rightarrow> [] | Some i \<Rightarrow> drop (nat i + 1) order) gr)
     else (gr, cs))"

definition clamp_reason :: "string \<Rightarrow> bool \<Rightarrow> string" where
  "clamp_reason reason ok =
    (if ok then reason @ ''+budget-clamp''
     else if starts_with reason ''heuristic:'' \<and> \<not> includes_str reason ''+''
       then ''heuristic:budget-unsatisfiable-cheapest''
     else reason @ ''+budget-unsatisfiable'')"

definition violation_message :: "string \<Rightarrow> string option \<Rightarrow> string" where
  "violation_message grp level = ''no candidate in group '' @ [CHR 0x27] @ grp @ [CHR 0x27] @
     '' is allowed at sensitivity '' @ [CHR 0x27] @ (case level of None \<Rightarrow> ''undefined'' | Some l \<Rightarrow> l) @ [CHR 0x27]"

text \<open>Step 5: the cheapest allowed candidate, then the clamp over all allowed tiers.\<close>

definition finish_route ::
  "route_policy \<Rightarrow> policy_filter \<Rightarrow> route_request \<Rightarrow> string \<times> string \<Rightarrow> model_tier list
   \<Rightarrow> route_error + route_decision" where
  "finish_route p f req gr cs =
    (if cs = [] then Inl (Policy_violation (violation_message (fst gr) (pf_level f)) (pf_level f) (pf_source f) (fst gr))
     else case pickCheapestIn cs req of
       None \<Rightarrow> Inl Type_error
     | Some (t, c) \<Rightarrow>
        (let d = (\<lambda>model g why cost. \<lparr>rd_model = model, rd_group = g, rd_reason = why, rd_estCost = cost,
                     rd_sensitivityLevel = pf_level f, rd_sensitivitySource = Some (pf_source f)\<rparr>)
         in case clamp_of p req (pf_allow f) c of
              None \<Rightarrow> Inr (d (mt_model t) (fst gr) (snd gr) c)
            | Some (u, cu, ok) \<Rightarrow> Inr (d (mt_model u) (mt_group u) (clamp_reason (snd gr) ok) cu)))"

definition resolvePolicyRoute ::
  "route_request \<Rightarrow> route_policy \<Rightarrow> strategy \<Rightarrow> route_error + route_decision" where
  "resolvePolicyRoute req p strat =
    (let f = policyFilter p req in
     rbind (pick_group p req strat f) (\<lambda>gr0.
       let (gr, cs) = policy_candidates p f (raise_group p f gr0) in finish_route p f req gr cs))"

definition resolveRoute ::
  "route_request \<Rightarrow> route_policy \<Rightarrow> strategy \<Rightarrow> route_error + route_decision" where
  "resolveRoute req p strat =
    (if hasPolicyStages p then resolvePolicyRoute req p strat
     else if truthy_str (rq_explicitGroup req)
       then resolveInGroup p (the (rq_explicitGroup req)) req ''override''
     else case rq_quality req of
       Some q \<Rightarrow> resolveInGroup p
         (case jm_get (rp_qualityToGroup p) (quality_text q) of Some g \<Rightarrow> g | None \<Rightarrow> rp_defaultGroup p)
         req (''quality:'' @ quality_text q)
     | None \<Rightarrow> strategy_route strat req p)"

subsection \<open>Failover candidates\<close>

text \<open>The loop over the served group's tiers, with the set of models seen.\<close>

fun candidate_loop ::
  "route_request \<Rightarrow> (model_tier \<Rightarrow> bool) \<Rightarrow> string list \<Rightarrow> model_tier list \<Rightarrow> (model_tier \<times> jsnum) list" where
  "candidate_loop req allow seen [] = []"
| "candidate_loop req allow seen (t # ts) =
    (if mt_model t \<in> set seen \<or> \<not> allow t then candidate_loop req allow seen ts
     else let cost = tier_cost req t in
          if (case rq_maxCost req of None \<Rightarrow> False | Some mx \<Rightarrow> js_gt cost mx)
          then candidate_loop req allow seen ts
          else (t, cost) # candidate_loop req allow (mt_model t # seen) ts)"

text \<open>\<open>rest.sort((a, b) => a.cost - b.cost)\<close>: stable, a NaN difference counting as equal.\<close>

fun cost_insert :: "model_tier \<times> jsnum \<Rightarrow> (model_tier \<times> jsnum) list \<Rightarrow> (model_tier \<times> jsnum) list" where
  "cost_insert e [] = [e]"
| "cost_insert e (d # ds) = (if js_lt (snd d) (snd e) then d # cost_insert e ds else e # d # ds)"

fun cost_sort :: "(model_tier \<times> jsnum) list \<Rightarrow> (model_tier \<times> jsnum) list" where
  "cost_sort [] = []"
| "cost_sort (e # es) = cost_insert e (cost_sort es)"

definition route_allow :: "route_policy \<Rightarrow> route_request \<Rightarrow> model_tier \<Rightarrow> bool" where
  "route_allow p req t \<longleftrightarrow> (if hasPolicyStages p then pf_allow (policyFilter p req) t else True)"

definition routeCandidates :: "route_request \<Rightarrow> route_policy \<Rightarrow> route_decision \<Rightarrow> model_tier list" where
  "routeCandidates req p d =
    (let tiers = tiersOf p (rd_group d);
         primary = (case List.find (\<lambda>t. mt_model t = rd_model d) tiers of
                      Some t \<Rightarrow> t | None \<Rightarrow> bare_tier (rd_model d) (rd_group d));
         rest = candidate_loop req (route_allow p req) [rd_model d] tiers
     in primary # map fst (cost_sort rest))"

text \<open>\<open>buildRouteRequest\<close>; a model that is present is a string, its declared type.\<close>

definition json_messages :: "json \<Rightarrow> json list" where
  "json_messages body = (case prop_of (Some body) ''messages'' of Some (JArr ms) \<Rightarrow> ms | _ \<Rightarrow> [])"

definition body_model :: "json \<Rightarrow> string option" where
  "body_model body = (case prop_of (Some body) ''model'' of Some (JStr m) \<Rightarrow> Some m | _ \<Rightarrow> None)"

definition body_max_tokens :: "json \<Rightarrow> jsnum option" where
  "body_max_tokens body = map_option js_to_number
     (present (json_nullish (prop_of (Some body) ''max_tokens'') (prop_of (Some body) ''max_completion_tokens'')))"

text \<open>A \<open>messages\<close> that is no array counts as none; the code keeps a truthy one and throws on it later.\<close>

definition buildRouteRequest :: "json \<Rightarrow> route_hints \<Rightarrow> route_request" where
  "buildRouteRequest body hints =
    \<lparr>rq_messages = json_messages body,
     rq_requestedModel = (case nonempty (body_model body) of Some m \<Rightarrow> m | None \<Rightarrow> ''auto''),
     rq_approxInputTokens = estimateInputTokens (json_messages body),
     rq_maxOutputTokens = body_max_tokens body,
     rq_quality = rh_quality hints, rq_maxCost = rh_maxCost hints,
     rq_explicitGroup = rh_explicitGroup hints, rq_dataClassification = rh_dataClassification hints,
     rq_piiDetected = [], rq_useCase = rh_useCase hints\<rparr>"

subsection \<open>Compliance of a decision\<close>

lemma tiersOf_listed: "t \<in> set (tiersOf p g) \<Longrightarrow> t \<in> set (all_tiers p)"
proof -
  assume t: "t \<in> set (tiersOf p g)"
  then obtain ts where "jm_get (rp_groups p) g = Some ts" "t \<in> set ts"
    by (cases "jm_get (rp_groups p) g") (auto simp: tiersOf_def groupTiers_def)
  then show ?thesis by (force simp: all_tiers_def dest: jm_get_Some_in)
qed

lemma eligible_above_allowed:
  "eligible_above p f gs gr = (gr', cs) \<Longrightarrow> t \<in> set cs \<Longrightarrow> pf_allow f t \<and> t \<in> set (all_tiers p)"
  by (induction p f gs gr rule: eligible_above.induct) (auto simp: Let_def tiersOf_listed split: if_splits)

lemma policy_candidates_allowed:
  "policy_candidates p f gr = (gr', cs) \<Longrightarrow> t \<in> set cs \<Longrightarrow> pf_allow f t \<and> t \<in> set (all_tiers p)"
  by (auto simp: policy_candidates_def Let_def tiersOf_listed dest: eligible_above_allowed split: if_splits)

lemma clamp_of_allowed:
  assumes "clamp_of p req allow c = Some (u, cu, ok)"
  shows "u \<in> set (all_tiers p) \<and> allow u \<and> cu = tier_cost req u"
proof -
  from assms obtain mx where "cheapestUnderBudget p mx req allow = Some (u, cu, ok)"
    by (auto simp: clamp_of_def split: option.splits if_splits)
  moreover obtain x y where f: "fit_loop (tier_cost req) allow mx (all_tiers p) None None = (x, y)" by fastforce
  ultimately show ?thesis using fit_loop_run [OF f]
    by (auto simp: cheapestUnderBudget_def fits_best_def cheap_best_def split: option.splits)
qed

lemma finish_route_allowed:
  assumes "finish_route p f req gr cs = Inr d" "\<forall>t \<in> set cs. pf_allow f t \<and> t \<in> set (all_tiers p)"
  shows "\<exists>t \<in> set (all_tiers p). pf_allow f t \<and> mt_model t = rd_model d \<and> rd_estCost d = tier_cost req t \<and>
    rd_sensitivityLevel d = pf_level f"
proof -
  from assms(1) obtain t c where t: "pickCheapestIn cs req = Some (t, c)"
    by (auto simp: finish_route_def split: if_splits option.splits)
  show ?thesis
  proof (cases "clamp_of p req (pf_allow f) c")
    case None
    with assms t pickCheapestIn_SomeD [OF t] show ?thesis
      by (auto simp: finish_route_def split: if_splits)
  next
    case (Some x)
    obtain u cu ok where x: "x = (u, cu, ok)" by (cases x)
    from clamp_of_allowed [OF Some [unfolded x]] assms(1) t Some x show ?thesis
      by (auto simp: finish_route_def split: if_splits)
  qed
qed

lemma resolvePolicyRoute_allowed:
  assumes "resolvePolicyRoute req p strat = Inr d"
  shows "\<exists>t \<in> set (all_tiers p). pf_allow (policyFilter p req) t \<and> mt_model t = rd_model d \<and>
    rd_estCost d = tier_cost req t \<and> rd_sensitivityLevel d = pf_level (policyFilter p req)"
proof -
  let ?f = "policyFilter p req"
  from assms obtain gr0 gr cs where "policy_candidates p ?f (raise_group p ?f gr0) = (gr, cs)"
    "finish_route p ?f req gr cs = Inr d"
    by (auto simp: resolvePolicyRoute_def Let_def return_iff case_prod_beta) (metis prod.collapse)
  then show ?thesis using policy_candidates_allowed finish_route_allowed by blast
qed

lemma policyFilter_simps:
  "pf_level (policyFilter p req) = fst (classifySensitivity p (rq_dataClassification req) (rq_piiDetected req))"
  "pf_rule (policyFilter p req) =
     dataPolicyRule p (fst (classifySensitivity p (rq_dataClassification req) (rq_piiDetected req)))"
  by (simp_all add: policyFilter_def Let_def case_prod_beta)

text \<open>C2. Under a policy with a data policy, whatever the caller asks for (an explicit group, a quality, a cost
  ceiling) and whatever the strategy, the model a call is routed to is one the policy lists with facts that
  meet the rule for the call's effective sensitivity level, and the estimate is that tier's.\<close>

theorem route_complies:
  assumes "resolveRoute req p strat = Inr d" "rp_dataPolicy p \<noteq> None"
  shows "\<exists>t \<in> set (all_tiers p). mt_model t = rd_model d \<and> rd_estCost d = tier_cost req t \<and>
    tierComplies t (dataPolicyRule p (fst (classifySensitivity p (rq_dataClassification req) (rq_piiDetected req))))"
proof -
  have "resolvePolicyRoute req p strat = Inr d"
    using assms by (simp add: resolveRoute_def hasPolicyStages_def)
  from resolvePolicyRoute_allowed [OF this] show ?thesis
    by (auto simp: pf_allow_def policyFilter_simps)
qed

theorem route_complies_witness:
  "\<exists>d. resolveRoute sample_request sample_policy Heuristic = Inr d \<and> rd_model d = ''mini'' \<and>
     (\<exists>t \<in> set (all_tiers sample_policy). mt_model t = ''mini'')"
proof -
  have "case resolveRoute sample_request sample_policy Heuristic of Inr d \<Rightarrow> rd_model d = ''mini'' | Inl _ \<Rightarrow> False"
    by code_simp
  then obtain d where d: "resolveRoute sample_request sample_policy Heuristic = Inr d" "rd_model d = ''mini''"
    by (auto split: sum.splits)
  have "rp_dataPolicy sample_policy \<noteq> None" by (simp add: sample_policy_def)
  from route_complies [OF d(1) this] d show ?thesis by auto
qed

subsection \<open>Failover candidates\<close>

lemma candidate_loop_spec:
  "(t, c) \<in> set (candidate_loop req allow seen ts) \<Longrightarrow> t \<in> set ts \<and> allow t \<and> c = tier_cost req t \<and>
    mt_model t \<notin> set seen \<and> (\<forall>mx. rq_maxCost req = Some mx \<longrightarrow> \<not> js_gt c mx)"
  by (induction req allow seen ts rule: candidate_loop.induct) (auto simp: Let_def split: if_splits option.splits)

lemma candidate_loop_distinct:
  "distinct (map (mt_model \<circ> fst) (candidate_loop req allow seen ts))"
proof (induction req allow seen ts rule: candidate_loop.induct)
  case (2 req allow seen t ts)
  have "mt_model t \<notin> (mt_model \<circ> fst) ` set (candidate_loop req allow (mt_model t # seen) ts)"
    by (auto dest: candidate_loop_spec)
  with 2 show ?case by (auto simp: Let_def)
qed simp

lemma set_cost_insert [simp]: "set (cost_insert e es) = insert e (set es)"
  by (induction es) auto

lemma set_cost_sort [simp]: "set (cost_sort es) = set es"
  by (induction es) auto

lemma distinct_cost_insert:
  "distinct (map f (cost_insert e es)) \<longleftrightarrow> f e \<notin> f ` set es \<and> distinct (map f es)"
  by (induction es) auto

lemma distinct_cost_sort: "distinct (map f (cost_sort es)) \<longleftrightarrow> distinct (map f es)"
  by (induction es) (auto simp: distinct_cost_insert)

definition not_above :: "model_tier \<times> jsnum \<Rightarrow> model_tier \<times> jsnum \<Rightarrow> bool" where
  "not_above a b \<longleftrightarrow> \<not> js_lt (snd b) (snd a)"

lemma not_above_trans:
  "snd b \<noteq> NaN \<Longrightarrow> not_above a b \<Longrightarrow> not_above b c \<Longrightarrow> not_above a c"
  by (cases "snd a"; cases "snd b"; cases "snd c") (auto simp: not_above_def)

lemma cost_insert_sorted:
  assumes "sorted_wrt not_above es" "\<forall>x \<in> set es. snd x \<noteq> NaN" "snd e \<noteq> NaN"
  shows "sorted_wrt not_above (cost_insert e es)"
  using assms
proof (induction es)
  case (Cons d ds)
  show ?case
  proof (cases "js_lt (snd d) (snd e)")
    case True
    then have "\<not> js_lt (snd e) (snd d)" by (cases "snd d"; cases "snd e") auto
    with True Cons show ?thesis by (auto simp: not_above_def)
  next
    case False
    with Cons.prems have "not_above e x" if "x \<in> set (d # ds)" for x
      using that not_above_trans [of d e x] by (auto simp: not_above_def)
    with False Cons.prems show ?thesis by auto
  qed
qed simp

lemma cost_sort_sorted: "\<forall>x \<in> set es. snd x \<noteq> NaN \<Longrightarrow> sorted_wrt not_above (cost_sort es)"
proof (induction es)
  case (Cons e es)
  then have "sorted_wrt not_above (cost_sort es)" by simp
  with Cons.prems cost_insert_sorted [of "cost_sort es" e] show ?case by simp
qed simp

lemma bare_tier_model [simp]: "mt_model (bare_tier m g) = m"
  by (simp add: bare_tier_def)

lemma sorted_wrt_costs:
  assumes "sorted_wrt not_above es" "\<forall>(t, c) \<in> set es. c = tier_cost req t"
  shows "sorted_wrt (\<lambda>a b. \<not> js_lt (tier_cost req b) (tier_cost req a)) (map fst es)"
  using assms by (induction es) (fastforce simp: not_above_def)+

text \<open>A decision's failover candidates never widen what the router could itself have picked: the decided
  model comes first, every other candidate is another model of the served group that passes the same filter
  (data policy and use-case bar) and fits the cost ceiling, no model comes twice, and they come cheapest first.\<close>

lemma routeCandidates_within_policy:
  assumes "\<forall>t \<in> set (tiersOf p (rd_group d)). tier_cost req t \<noteq> NaN"
  shows "let cs = routeCandidates req p d in
    mt_model (hd cs) = rd_model d \<and> distinct (map mt_model cs) \<and>
    (\<forall>t \<in> set (tl cs). t \<in> set (tiersOf p (rd_group d)) \<and> route_allow p req t \<and>
       (\<forall>mx. rq_maxCost req = Some mx \<longrightarrow> \<not> js_gt (tier_cost req t) mx)) \<and>
    sorted_wrt (\<lambda>a b. \<not> js_lt (tier_cost req b) (tier_cost req a)) (tl cs)"
proof -
  let ?ts = "tiersOf p (rd_group d)"
  let ?rest = "candidate_loop req (route_allow p req) [rd_model d] ?ts"
  let ?prim = "case List.find (\<lambda>t. mt_model t = rd_model d) ?ts of Some t \<Rightarrow> t
    | None \<Rightarrow> bare_tier (rd_model d) (rd_group d)"
  have prim: "mt_model ?prim = rd_model d" by (auto split: option.splits dest: find_SomeD)
  have nn: "\<forall>x \<in> set ?rest. snd x \<noteq> NaN" using assms by (force dest: candidate_loop_spec)
  have "\<forall>(t, c) \<in> set (cost_sort ?rest). c = tier_cost req t" by (auto dest: candidate_loop_spec)
  from sorted_wrt_costs [OF cost_sort_sorted [OF nn] this]
  have sorted: "sorted_wrt (\<lambda>a b. \<not> js_lt (tier_cost req b) (tier_cost req a)) (map fst (cost_sort ?rest))" .
  have "distinct (map mt_model (map fst (cost_sort ?rest)))"
    using candidate_loop_distinct distinct_cost_sort [of "mt_model \<circ> fst" ?rest] by simp
  moreover have "rd_model d \<notin> mt_model ` set (map fst (cost_sort ?rest))" by (auto dest: candidate_loop_spec)
  ultimately show ?thesis using prim sorted
    by (auto simp: routeCandidates_def Let_def dest: candidate_loop_spec)
qed

subsection \<open>Strategies\<close>

text \<open>What a strategy promises the plain path: the model it answers with is one the policy lists, or the
  model the caller asked for.\<close>

definition listed :: "route_policy \<Rightarrow> route_request \<Rightarrow> string \<Rightarrow> bool" where
  "listed p req m \<longleftrightarrow> m \<in> mt_model ` set (all_tiers p) \<or> m = rq_requestedModel req"

locale router_strategy =
  fixes strat :: strategy
  assumes strategy_listed: "strategy_route strat req p = Inr d \<Longrightarrow> listed p req (rd_model d)"
begin

lemma default_listed: "listed p req (rd_model (default_decision p req why))"
  by (auto simp: default_decision_def plain_decision_def listed_def split: option.splits
      dest!: pickCheapestIn_SomeD tiersOf_listed)

lemma resolveInGroup_listed: "resolveInGroup p g req pre = Inr d \<Longrightarrow> listed p req (rd_model d)"
proof -
  assume r: "resolveInGroup p g req pre = Inr d"
  show ?thesis
  proof (cases "tiersOf p g = []")
    case True
    with r default_listed show ?thesis by (auto simp: resolveInGroup_def)
  next
    case False
    with r obtain t c where t: "pickCheapestIn (tiersOf p g) req = Some (t, c)"
      by (auto simp: resolveInGroup_def split: option.splits)
    have "t \<in> set (all_tiers p)" using pickCheapestIn_SomeD [OF t] tiersOf_listed by blast
    with r False t show ?thesis
      by (auto simp: resolveInGroup_def plain_decision_def listed_def split: option.splits
          dest!: clamp_of_allowed)
  qed
qed

lemma resolveRoute_listed:
  assumes "resolveRoute req p strat = Inr d"
  shows "listed p req (rd_model d)"
proof (cases "hasPolicyStages p")
  case True
  with assms have "resolvePolicyRoute req p strat = Inr d" by (simp add: resolveRoute_def)
  from resolvePolicyRoute_allowed [OF this] show ?thesis by (force simp: listed_def)
next
  case False
  with assms show ?thesis
    by (auto simp: resolveRoute_def split: if_splits option.splits
        intro: resolveInGroup_listed strategy_listed)
qed

end

interpretation heuristic: router_strategy Heuristic
proof
  fix req p d assume r: "strategy_route Heuristic req p = Inr d"
  show "listed p req (rd_model d)"
  proof (cases "pickCheapestIn (tiersOf p (heuristic_group req)) req")
    case None
    with r show ?thesis
      by (auto simp: heuristic_route_def default_decision_def plain_decision_def listed_def split: option.splits
          dest!: pickCheapestIn_SomeD tiersOf_listed)
  next
    case (Some x)
    then obtain t c where t: "pickCheapestIn (tiersOf p (heuristic_group req)) req = Some (t, c)" by (cases x) auto
    have "t \<in> set (all_tiers p)" using pickCheapestIn_SomeD [OF t] tiersOf_listed by blast
    with r t show ?thesis
      by (auto simp: heuristic_route_def plain_decision_def listed_def split: option.splits
          dest!: clamp_of_allowed)
  qed
qed

text \<open>With the built-in strategy the router never invents a model: the decision names a model the policy
  lists, or the model the caller asked for.\<close>

lemma route_model_listed:
  assumes "resolveRoute req p Heuristic = Inr d"
  shows "rd_model d \<in> mt_model ` set (all_tiers p) \<or> rd_model d = rq_requestedModel req"
  using heuristic.resolveRoute_listed [OF assms] by (simp add: listed_def)

definition sample_plain :: route_policy where
  "sample_plain = sample_policy\<lparr>rp_sensitivity := None, rp_dataPolicy := None\<rparr>"

end
