(* ===== verification/Router_Gate.thy ===== *)
theory Router_Gate
  imports Router_Resolve
begin

text \<open>
  Where the data policy is enforced: which tiers vouch for a target
  (\<open>gateway/src/middlewares/psServedTarget.ts\<close>), the gate on every model call
  (\<open>router/dataPolicyGate.ts\<close>), the routing middleware (\<open>router/middleware.ts\<close>) and its Hono adapter
  (\<open>router/hono.ts\<close>).

  Three things are parameters: the URL parser's \<open>origin\<close>, the detector of personal data
  (\<open>scan\<close>, the patterns of \<open>router/pii.ts\<close>) and, in the adapter, what the request's configuration says
  about a realtime target.
\<close>

subsection \<open>Targets\<close>

record served_target =
  st_provider :: "string option"
  st_customHost :: "string option"
  st_model :: "string option"

definition POLICY_PROVIDER_IDS :: "(string, string) jmap" where
  "POLICY_PROVIDER_IDS = [(''mistral-ai'', ''mistral'')]"

definition POLICY_PROVIDER_ALIASES :: "(string, string list) jmap" where
  "POLICY_PROVIDER_ALIASES = [(''mistral-ai'', [''mistral-eu''])]"

definition PROVIDER_BASE_URLS :: "(string, string) jmap" where
  "PROVIDER_BASE_URLS =
    [(''openai'', ''https://api.openai.com/v1''),
     (''anthropic'', ''https://api.anthropic.com/v1''),
     (''mistral-ai'', ''https://api.mistral.ai/v1''),
     (''berget'', ''https://api.berget.ai/v1''),
     (''infercom'', ''https://api.infercom.ai/v1''),
     (''ionos'', ''https://openai.inference.de-txl.ionos.com/v1''),
     (''regolo'', ''https://api.regolo.ai/v1''),
     (''scaleway'', ''https://api.scaleway.ai/v1''),
     (''stackit'', ''https://api.openai-compat.model-serving.eu01.onstackit.cloud/v1''),
     (''ovhcloud'', ''https://oai.endpoints.kepler.ai.cloud.ovh.net/v1'')]"

definition policyProviderId :: "string \<Rightarrow> string" where
  "policyProviderId provider = (let i = to_lower provider in
     case jm_get POLICY_PROVIDER_IDS i of Some x \<Rightarrow> x | None \<Rightarrow> i)"

definition originOf :: "(string \<Rightarrow> string option) \<Rightarrow> string \<Rightarrow> string option" where
  "originOf urlOrigin url = map_option to_lower (urlOrigin (trim url))"

text \<open>The tables are looked up by own keys only: where the code reads \<open>POLICY_PROVIDER_ALIASES\<close> for a provider named like a member of
  every JavaScript object (\<open>constructor\<close>), it finds a function and throws.\<close>

definition tierServesTarget ::
  "(string \<Rightarrow> string option) \<Rightarrow> model_tier \<Rightarrow> served_target option \<Rightarrow> bool" where
  "tierServesTarget urlOrigin tier target \<longleftrightarrow>
    (case (mt_provider tier, nonempty (case target of None \<Rightarrow> None | Some t \<Rightarrow> st_provider t)) of
       (Some tp, Some prov) \<Rightarrow>
        (let gatewayId = to_lower prov in
         if tp \<noteq> gatewayId \<and> tp \<noteq> policyProviderId gatewayId \<and>
            tp \<notin> set (case jm_get POLICY_PROVIDER_ALIASES gatewayId of None \<Rightarrow> [] | Some al \<Rightarrow> al)
         then False
         else case nonempty (case target of None \<Rightarrow> None | Some t \<Rightarrow> st_customHost t) of
           None \<Rightarrow> True
         | Some host \<Rightarrow>
            (case jm_get PROVIDER_BASE_URLS gatewayId of
               None \<Rightarrow> False
             | Some url \<Rightarrow> originOf urlOrigin host = originOf urlOrigin url))
     | _ \<Rightarrow> True)"

text \<open>\<open>servedJurisdiction\<close>: the one jurisdiction (which may be unstated) the applicable tiers agree on.\<close>

definition servedJurisdiction ::
  "(string \<Rightarrow> string option) \<Rightarrow> route_policy option \<Rightarrow> string option \<Rightarrow> served_target option \<Rightarrow> string option" where
  "servedJurisdiction urlOrigin policy model target =
    (case policy of None \<Rightarrow> None
     | Some p \<Rightarrow>
        if \<not> truthy_str model then None
        else (case remdups (map mt_jurisdiction (filter (\<lambda>t. Some (mt_model t) = model \<and>
                     tierServesTarget urlOrigin t target) (all_tiers p))) of
                [j] \<Rightarrow> j
              | _ \<Rightarrow> None))"

definition recordServedTarget ::
  "string option \<Rightarrow> string option \<Rightarrow> string option \<Rightarrow> served_target" where
  "recordServedTarget provider customHost model =
    \<lparr>st_provider = nonempty provider, st_customHost = nonempty customHost, st_model = nonempty model\<rparr>"

subsection \<open>The gate\<close>

record data_policy_gate =
  dg_policy :: route_policy
  dg_level :: "string option"
  dg_source :: sensitivity_source
  dg_rule :: "data_policy_rule option"

definition buildDataPolicyGate ::
  "route_policy \<Rightarrow> (string, string) jmap \<Rightarrow> string list \<Rightarrow> data_policy_gate option" where
  "buildDataPolicyGate p headers pii =
    (case rp_dataPolicy p of None \<Rightarrow> None
     | Some _ \<Rightarrow>
        (let (level, source) = classifySensitivity p (rh_dataClassification (parseRouteHeaders headers)) pii
         in Some \<lparr>dg_policy = p, dg_level = level, dg_source = source, dg_rule = dataPolicyRule p level\<rparr>))"

text \<open>The 403 with the security event it reports.\<close>

record error_response =
  er_status :: int
  er_code :: string
  er_type :: string
  er_message :: string

record policy_denied =
  pd_reason :: string
  pd_group :: "string option"
  pd_model :: "string option"
  pd_provider :: "string option"

definition policyViolationResponse ::
  "string option \<Rightarrow> string option \<Rightarrow> string option \<Rightarrow> string option \<Rightarrow> error_response \<times> policy_denied" where
  "policyViolationResponse requestedModel provider grp level =
    (\<lparr>er_status = 403, er_code = ''policy_violation'', er_type = ''permission_error'',
      er_message = ''Forbidden by the routing data policy'' @
        (if truthy_str level then '' (sensitivity: '' @ the level @ '')'' else []) @
        '': no allowed model can serve this request''\<rparr>,
     \<lparr>pd_reason = ''no_compliant_candidate'', pd_group = grp, pd_model = nonempty requestedModel,
      pd_provider = provider\<rparr>)"

definition gate_models :: "string list \<Rightarrow> bool \<Rightarrow> string option list" where
  "gate_models models requireModel =
    (let names = filter (\<lambda>m. m \<noteq> []) models in
     if names \<noteq> [] then map Some names else if requireModel then [None] else [])"

definition dataPolicyTargetDenied ::
  "(string \<Rightarrow> string option) \<Rightarrow> data_policy_gate option \<Rightarrow> string option \<Rightarrow> string list \<Rightarrow> bool \<Rightarrow> string option
   \<Rightarrow> (error_response \<times> policy_denied) option" where
  "dataPolicyTargetDenied urlOrigin gate provider models requireModel customHost =
    (case gate of None \<Rightarrow> None
     | Some g \<Rightarrow>
        (case dg_rule g of None \<Rightarrow> None
         | Some r \<Rightarrow>
            (let target = Some \<lparr>st_provider = provider, st_customHost = customHost, st_model = None\<rparr> in
             case List.find (\<lambda>m. \<not> modelComplies (dg_policy g) m (Some r) (\<lambda>t. tierServesTarget urlOrigin t target))
                    (gate_models models requireModel) of
               None \<Rightarrow> None
             | Some m \<Rightarrow> Some (policyViolationResponse (Some (case m of None \<Rightarrow> [] | Some x \<Rightarrow> x)) provider None (dg_level g)))))"

subsection \<open>The routing middleware\<close>

record ps_route =
  pr_requestedModel :: string
  pr_servedModel :: string
  pr_group :: string
  pr_reason :: string
  pr_estCost :: jsnum
  pr_sensitivityLevel :: "string option"
  pr_sensitivitySource :: "sensitivity_source option"
  pr_candidates :: "(string \<times> string option) list option"

record route_violation =
  rv_requestedModel :: string
  rv_message :: string
  rv_group :: "string option"
  rv_sensitivityLevel :: "string option"
  rv_sensitivitySource :: "sensitivity_source option"

record router_request =
  rr_headers :: "(string, string) jmap"
  rr_body :: "json option"
  rr_psPii :: "string list option"
  rr_psRoute :: "ps_route option"
  rr_psRouteViolation :: "route_violation option"

definition escalatesOnPii :: "route_policy \<Rightarrow> bool" where
  "escalatesOnPii p \<longleftrightarrow> (case rp_sensitivity p of None \<Rightarrow> False
     | Some sc \<Rightarrow> (case sc_piiEscalation sc of None \<Rightarrow> False | Some m \<Rightarrow> m \<noteq> []))"

fun set_model :: "string \<Rightarrow> json \<Rightarrow> json" where
  "set_model m (JObj fs) = JObj (jm_set ''model'' (JStr m) fs)"
| "set_model m j = j"

definition is_array :: "json option \<Rightarrow> bool" where
  "is_array v \<longleftrightarrow> (case v of Some (JArr _) \<Rightarrow> True | _ \<Rightarrow> False)"

text \<open>Routing engages on a body with messages, for the model \<open>auto\<close> or a routing hint.\<close>

definition engages :: "json option \<Rightarrow> route_hints \<Rightarrow> bool" where
  "engages body hints \<longleftrightarrow> truthy_json body \<and> is_array (prop_of body ''messages'') \<and>
     (prop_of body ''model'' = Some (JStr ''auto'') \<or>
      rh_quality hints \<noteq> None \<or> rh_explicitGroup hints \<noteq> None \<or> rh_maxCost hints \<noteq> None)"

definition route_request_of ::
  "(json option \<Rightarrow> string list) \<Rightarrow> route_policy \<Rightarrow> router_request \<Rightarrow> json \<Rightarrow> route_request" where
  "route_request_of scan p request body =
    (let rq = buildRouteRequest body (parseRouteHeaders (rr_headers request)) in
     if escalatesOnPii p
     then rq\<lparr>rq_piiDetected := (case rr_psPii request of Some pre \<Rightarrow> pre | None \<Rightarrow> scan (Some body))\<rparr> else rq)"

definition violation_of :: "route_request \<Rightarrow> route_error \<Rightarrow> route_violation" where
  "violation_of rq err = (case err of
      Policy_violation msg level src grp \<Rightarrow>
        \<lparr>rv_requestedModel = rq_requestedModel rq, rv_message = msg, rv_group = Some grp,
         rv_sensitivityLevel = level, rv_sensitivitySource = Some src\<rparr>
    | _ \<Rightarrow> \<lparr>rv_requestedModel = rq_requestedModel rq,
           rv_message = ''routing failed under a data policy; refusing the call'', rv_group = None,
           rv_sensitivityLevel = None, rv_sensitivitySource = None\<rparr>)"

definition is_violation :: "route_error \<Rightarrow> bool" where
  "is_violation err \<longleftrightarrow> (case err of Policy_violation _ _ _ _ \<Rightarrow> True | _ \<Rightarrow> False)"

definition route_of :: "route_request \<Rightarrow> route_policy \<Rightarrow> route_decision \<Rightarrow> ps_route" where
  "route_of rq p d =
    \<lparr>pr_requestedModel = rq_requestedModel rq, pr_servedModel = rd_model d, pr_group = rd_group d,
     pr_reason = rd_reason d, pr_estCost = rd_estCost d, pr_sensitivityLevel = rd_sensitivityLevel d,
     pr_sensitivitySource = rd_sensitivitySource d,
     pr_candidates = Some (map (\<lambda>t. (mt_model t, nonempty (mt_provider t))) (routeCandidates rq p d))\<rparr>"

definition beforeRequest ::
  "(json option \<Rightarrow> string list) \<Rightarrow> route_policy \<Rightarrow> strategy \<Rightarrow> router_request \<Rightarrow> router_request" where
  "beforeRequest scan p strat request =
    (case rr_body request of None \<Rightarrow> request
     | Some body \<Rightarrow>
        if \<not> engages (Some body) (parseRouteHeaders (rr_headers request)) then request
        else let rq = route_request_of scan p request body in
          case resolveRoute rq p strat of
            Inl err \<Rightarrow>
              if is_violation err \<or> rp_dataPolicy p \<noteq> None
              then request\<lparr>rr_psRouteViolation := Some (violation_of rq err)\<rparr> else request
          | Inr d \<Rightarrow> request\<lparr>rr_psRoute := Some (route_of rq p d), rr_body := Some (set_model (rd_model d) body)\<rparr>)"

subsection \<open>The Hono adapter\<close>

text \<open>What the adapter reads of a request. \<open>hr_json\<close> is the parsed body (\<open>None\<close> when it is not JSON) and
  \<open>hr_realtime\<close> the provider, models and custom host its configuration names (\<open>None\<close> when reading it throws).\<close>

record hono_request =
  hr_method :: string
  hr_path :: string
  hr_contentType :: string
  hr_headers :: "(string, string) jmap"
  hr_json :: "json option"
  hr_isMcp :: bool
  hr_realtime :: "(string option \<times> string list \<times> string option) option"

text \<open>The context handed to the next middleware: the gate, the route and the rewritten body.\<close>

record hono_context =
  hc_gate :: "data_policy_gate option"
  hc_route :: "ps_route option"
  hc_body :: "json option"

datatype adapter_result = Next_middleware hono_context | Respond error_response

definition adapter_gate ::
  "(string \<Rightarrow> string option) \<Rightarrow> route_policy \<Rightarrow> string list option \<Rightarrow> hono_request
   \<Rightarrow> error_response + data_policy_gate option" where
  "adapter_gate urlOrigin p pii r =
    (if rp_dataPolicy p = None then Inr None
     else let gate = buildDataPolicyGate p (hr_headers r) (case pii of None \<Rightarrow> [] | Some xs \<Rightarrow> xs) in
       if hr_path r = ''/v1/realtime'' then
         (case hr_realtime r of
            None \<Rightarrow> Inl (fst (policyViolationResponse None None None None))
          | Some (provider, models, host) \<Rightarrow>
             (case dataPolicyTargetDenied urlOrigin gate provider models True host of
                Some (res, ev) \<Rightarrow> Inl res
              | None \<Rightarrow> Inr gate))
       else Inr gate)"

definition psRouter ::
  "(json option \<Rightarrow> string list) \<Rightarrow> (string \<Rightarrow> string option) \<Rightarrow> route_policy option \<Rightarrow> strategy \<Rightarrow> hono_request
   \<Rightarrow> adapter_result" where
  "psRouter scan urlOrigin provide strat r =
    (if hr_isMcp r then Next_middleware \<lparr>hc_gate = None, hc_route = None, hc_body = hr_json r\<rparr>
     else case provide of
       None \<Rightarrow> Respond \<lparr>er_status = 503, er_code = [], er_type = ''policy_unavailable'',
                 er_message = ''route policy not loaded; refusing the call''\<rparr>
     | Some p \<Rightarrow>
        (let isJsonPost = (hr_method r = ''POST'' \<and> includes_str (hr_contentType r) ''application/json'');
             pii = (if rp_dataPolicy p \<noteq> None \<and> isJsonPost \<and> escalatesOnPii p then Some (scan (hr_json r)) else None)
         in case adapter_gate urlOrigin p pii r of
              Inl res \<Rightarrow> Respond res
            | Inr gate \<Rightarrow>
               if isJsonPost \<and> hr_json r \<noteq> None then
                 (let q = beforeRequest scan p strat \<lparr>rr_headers = hr_headers r, rr_body = hr_json r,
                            rr_psPii = pii, rr_psRoute = None, rr_psRouteViolation = None\<rparr>
                  in case rr_psRouteViolation q of
                       Some v \<Rightarrow> Respond (fst (policyViolationResponse (Some (rv_requestedModel v)) None (rv_group v)
                                   (rv_sensitivityLevel v)))
                     | None \<Rightarrow> Next_middleware \<lparr>hc_gate = gate, hc_route = rr_psRoute q, hc_body = rr_body q\<rparr>)
               else Next_middleware \<lparr>hc_gate = gate, hc_route = None, hc_body = hr_json r\<rparr>))"

subsection \<open>Enforcement\<close>

lemma modelComplies_iff:
  assumes "m \<noteq> []"
  shows "modelComplies p (Some m) (Some r) applies \<longleftrightarrow>
    (if \<exists>t \<in> set (all_tiers p). mt_model t = m \<and> applies t
     then \<exists>t \<in> set (all_tiers p). mt_model t = m \<and> applies t \<and> tierComplies t (Some r)
     else tierComplies (bare_tier m []) (Some r))"
  using assms by (auto simp: modelComplies_def Let_def filter_empty_conv list_ex_iff)

text \<open>C3. A target the gate lets through is vouched for: for every model name the call names, some tier of the
  policy lists that model, applies to the provider and host the call is sent to and meets the rule for the
  call's sensitivity level; or no tier applies and the rule accepts a model about which nothing is known.\<close>

theorem gate_passes_only_vouched:
  assumes "dataPolicyTargetDenied urlOrigin (Some g) provider models requireModel customHost = None"
    "dg_rule g = Some r" "m \<in> set models" "m \<noteq> []"
  shows "let applies = (\<lambda>t. tierServesTarget urlOrigin t
        (Some \<lparr>st_provider = provider, st_customHost = customHost, st_model = None\<rparr>)) in
    (\<exists>t \<in> set (all_tiers (dg_policy g)). mt_model t = m \<and> applies t \<and> tierComplies t (Some r)) \<or>
    (\<not> (\<exists>t \<in> set (all_tiers (dg_policy g)). mt_model t = m \<and> applies t) \<and> tierComplies (bare_tier m []) (Some r))"
proof -
  let ?ap = "\<lambda>t. tierServesTarget urlOrigin t (Some \<lparr>st_provider = provider, st_customHost = customHost, st_model = None\<rparr>)"
  have in_gate: "Some m \<in> set (gate_models models requireModel)"
    using assms(3,4) by (auto simp: gate_models_def Let_def filter_empty_conv)
  have "List.find (\<lambda>m. \<not> modelComplies (dg_policy g) m (Some r) ?ap) (gate_models models requireModel) = None"
    using assms(1,2) by (auto simp: dataPolicyTargetDenied_def Let_def split: option.splits)
  then have "modelComplies (dg_policy g) (Some m) (Some r) ?ap"
    using in_gate by (auto simp: find_None_iff)
  then show ?thesis unfolding modelComplies_iff [OF assms(4)] Let_def by (auto split: if_splits)
qed

definition sample_gate :: data_policy_gate where
  "sample_gate = \<lparr>dg_policy = sample_policy, dg_level = Some ''restricted'', dg_source = Declared,
     dg_rule = dataPolicyRule sample_policy (Some ''restricted'')\<rparr>"

theorem gate_passes_only_vouched_witness:
  "(\<exists>t \<in> set (all_tiers sample_policy). mt_model t = ''big'') \<and>
   dataPolicyTargetDenied (\<lambda>_. None) (Some sample_gate) (Some ''openai'') [''nano''] True None \<noteq> None"
proof -
  have rule: "\<exists>r. dg_rule sample_gate = Some r"
    by (simp add: sample_gate_def dataPolicyRule_def own_def sample_policy_def)
  have "(case dataPolicyTargetDenied (\<lambda>_. None) (Some sample_gate) (Some ''openai'') [''big''] True None of None \<Rightarrow> True | _ \<Rightarrow> False) \<and>
    (case dataPolicyTargetDenied (\<lambda>_. None) (Some sample_gate) (Some ''openai'') [''nano''] True None of None \<Rightarrow> False | _ \<Rightarrow> True)"
    by code_simp
  then have pass: "dataPolicyTargetDenied (\<lambda>_. None) (Some sample_gate) (Some ''openai'') [''big''] True None = None"
    and block: "dataPolicyTargetDenied (\<lambda>_. None) (Some sample_gate) (Some ''openai'') [''nano''] True None \<noteq> None"
    by (auto split: option.splits)
  from rule obtain r where r: "dg_rule sample_gate = Some r" by blast
  have "\<exists>js. dp_jurisdictions r = Some js \<and> ''any'' \<notin> set js"
    using r by (auto simp: sample_gate_def dataPolicyRule_def own_def sample_policy_def)
  then have "\<not> tierComplies (bare_tier ''big'' []) (Some r)"
    by (auto simp: tierComplies_def jurisdictionAllowed_def bare_tier_def)
  with gate_passes_only_vouched [OF pass r, of "''big''"] block show ?thesis
    by (auto simp: Let_def sample_gate_def)
qed

text \<open>C6. Under a data policy routing fails closed: a request the router takes on (a body with messages, for
  \<open>auto\<close> or with a hint) either leaves with a violation recorded, no route and its body unchanged, or with the
  model of its body replaced by one a compliant tier lists. It never passes on unrouted.\<close>

theorem router_fails_closed:
  assumes "rp_dataPolicy p \<noteq> None" "rr_body req = Some body" "rr_psRoute req = None"
    "engages (Some body) (parseRouteHeaders (rr_headers req))"
  shows "let out = beforeRequest scan p strat req; rq = route_request_of scan p req body in
    (rr_psRouteViolation out \<noteq> None \<and> rr_psRoute out = None \<and> rr_body out = Some body) \<or>
    (\<exists>route. rr_psRoute out = Some route \<and> rr_body out = Some (set_model (pr_servedModel route) body) \<and>
       prop_of (rr_body out) ''model'' = Some (JStr (pr_servedModel route)) \<and>
       (\<exists>t \<in> set (all_tiers p). mt_model t = pr_servedModel route \<and>
          tierComplies t (dataPolicyRule p (fst (classifySensitivity p (rq_dataClassification rq) (rq_piiDetected rq))))))"
proof -
  let ?rq = "route_request_of scan p req body"
  obtain fs where fs: "body = JObj fs"
    using assms(4) by (cases body) (auto simp: engages_def is_array_def)
  show ?thesis
  proof (cases "resolveRoute ?rq p strat")
    case (Inl err)
    with assms show ?thesis by (simp add: beforeRequest_def Let_def)
  next
    case (Inr d)
    then have "resolvePolicyRoute ?rq p strat = Inr d"
      using assms(1) by (simp add: resolveRoute_def hasPolicyStages_def)
    from resolvePolicyRoute_allowed [OF this]
    obtain t where "t \<in> set (all_tiers p)" "mt_model t = rd_model d"
      "tierComplies t (dataPolicyRule p (fst (classifySensitivity p (rq_dataClassification ?rq) (rq_piiDetected ?rq))))"
      by (auto simp: pf_allow_def policyFilter_simps)
    with Inr assms fs show ?thesis by (auto simp: beforeRequest_def Let_def route_of_def)
  qed
qed

definition sample_body :: json where
  "sample_body = JObj [(''model'', JStr ''auto''), (''messages'', JArr []), (''max_tokens'', JNum (Fin 996))]"

definition sample_router_request :: router_request where
  "sample_router_request = \<lparr>rr_headers = [(''X-PS-Data-Classification'', ''restricted'')], rr_body = Some sample_body,
     rr_psPii = None, rr_psRoute = None, rr_psRouteViolation = None\<rparr>"

theorem router_fails_closed_witness:
  "\<exists>route. rr_psRoute (beforeRequest (\<lambda>_. []) sample_policy Heuristic sample_router_request) = Some route \<and>
     pr_servedModel route = ''mini'' \<and> (\<exists>t \<in> set (all_tiers sample_policy). mt_model t = ''mini'')"
proof -
  let ?out = "beforeRequest (\<lambda>_. []) sample_policy Heuristic sample_router_request"
  have "(case rr_psRoute ?out of Some route \<Rightarrow> pr_servedModel route = ''mini'' | None \<Rightarrow> False)" by code_simp
  then obtain route where r: "rr_psRoute ?out = Some route" "pr_servedModel route = ''mini''"
    by (auto split: option.splits)
  have "rp_dataPolicy sample_policy \<noteq> None" "rr_body sample_router_request = Some sample_body"
    "rr_psRoute sample_router_request = None"
    "engages (Some sample_body) (parseRouteHeaders (rr_headers sample_router_request))"
    by code_simp+
  from router_fails_closed [OF this, of "\<lambda>_. []" Heuristic] r show ?thesis by (auto simp: Let_def)
qed

end
