(* ===== verification/Route_Failover.thy ===== *)
theory Route_Failover
  imports Failover_Engine Router_Gate
begin

text \<open>
  Failover between routed models (\<open>gateway/src/middlewares/router/failover.ts\<close>): the failover engine
  run over the router's candidates, with the data policy as its \<open>allow\<close> filter and the process-wide
  breakers keyed by provider and caller.

  \<open>upstream\<close> stands for \<open>tryTargetsRecursively\<close> with the arguments that do not change between attempts;
  it may change the shared state (registry and world) in any way, since other requests run meanwhile.
  \<open>JSON.parse\<close>, \<open>Date.parse\<close> and the digest of the caller's scope are parameters.
\<close>

record http_response =
  hp_status :: int
  hp_header :: "string \<Rightarrow> string option"
  hp_text :: "string option"

text \<open>What an attempt throws: a failed answer kept with its classification, or what the call threw.\<close>

datatype attempt_error = Route_attempt http_response failure_info | Thrown_error thrown

definition attempt_failure :: "attempt_error \<Rightarrow> failure_info" where
  "attempt_failure err = (case err of Route_attempt _ info \<Rightarrow> info | Thrown_error e \<Rightarrow> failureFromError e)"

definition configAllowsRouteFailover :: "json option \<Rightarrow> bool" where
  "configAllowsRouteFailover config \<longleftrightarrow>
    (if \<not> truthy_json config \<or> (case config of Some (JObj _) \<Rightarrow> False | Some (JArr _) \<Rightarrow> False | _ \<Rightarrow> True) then True
     else if truthy_json (prop_of config ''strategy'') then False
     else if (case prop_of config ''targets'' of Some (JArr ts) \<Rightarrow> ts \<noteq> [] | _ \<Rightarrow> False) then False
     else if truthy_json (prop_of config ''retry'') \<and>
        js_gt (case prop_of (prop_of config ''retry'') ''attempts'' of None \<Rightarrow> NaN | Some v \<Rightarrow> js_to_number v) (Fin 0) then False
     else if truthy_json (prop_of config ''overrideParams'') \<and>
        prop_of (prop_of config ''overrideParams'') ''model'' \<noteq> None then False
     else True)"

definition MAX_ERROR_BODY :: nat where
  "MAX_ERROR_BODY = 64 * 1024"

fun json_string :: "json option \<Rightarrow> string option" where
  "json_string (Some (JStr s)) = Some s"
| "json_string _ = None"

text \<open>The body is only read, and only when it parses, below status 500.\<close>

definition failureOfResponse ::
  "(string \<Rightarrow> json option) \<Rightarrow> (string \<Rightarrow> jsnum) \<Rightarrow> int \<Rightarrow> http_response \<Rightarrow> failure_info" where
  "failureOfResponse jsonParse dateParse now res =
    (let info = empty_info\<lparr>fi_status := Some (hp_status res),
                  fi_retryAfter := retryAfterOf dateParse now (Some (hp_header res))\<rparr> in
     if \<not> hp_status res < 500 then info
     else case hp_text res of None \<Rightarrow> info
       | Some text \<Rightarrow>
          if \<not> length text \<le> MAX_ERROR_BODY then info
          else case jsonParse text of None \<Rightarrow> info
            | Some parsed \<Rightarrow>
               (let err = json_nullish (prop_of (Some parsed) ''error'') (Some parsed);
                    code = json_nullish (prop_of err ''code'') (prop_of err ''type'')
                in info\<lparr>fi_code := json_string code, fi_message := json_string (prop_of err ''message'')\<rparr>))"

text \<open>\<open>{ ...request, model }\<close>\<close>

fun with_model :: "string \<Rightarrow> json \<Rightarrow> json" where
  "with_model m (JObj fs) = JObj (jm_set ''model'' (JStr m) fs)"
| "with_model m (JArr xs) = JObj (zip (map digits_of [0..<length xs]) xs @ [(''model'', JStr m)])"
| "with_model m j = JObj [(''model'', JStr m)]"

text \<open>What the failover needs of the call: the routed decision, the request body, the target's
  configuration and the breaker scope (\<open>None\<close> when computing it throws).\<close>

record failover_call =
  fc_route :: "ps_route option"
  fc_request :: "json option"
  fc_config :: "json option"
  fc_scope :: "string option"
  fc_gate :: "data_policy_gate option"
  fc_customHostHeader :: "string option"

definition config_string :: "json option \<Rightarrow> string \<Rightarrow> string option" where
  "config_string config k = json_string (prop_of config k)"

definition gateway_provider :: "failover_call \<Rightarrow> string" where
  "gateway_provider fc = (case config_string (fc_config fc) ''provider'' of None \<Rightarrow> [] | Some s \<Rightarrow> s)"

definition call_target :: "failover_call \<Rightarrow> served_target" where
  "call_target fc = \<lparr>st_provider = nonempty (Some (gateway_provider fc)),
     st_customHost = or_str (fc_customHostHeader fc) (config_string (fc_config fc) ''customHost''),
     st_model = None\<rparr>"

definition breaker_key :: "failover_call \<Rightarrow> string \<Rightarrow> string option \<Rightarrow> string" where
  "breaker_key fc scope provider =
    (case or_str provider (or_str (Some (gateway_provider fc)) (Some ''unknown'')) of Some p \<Rightarrow> p | None \<Rightarrow> []) @ ''#'' @ scope"

definition candidate_list :: "failover_call \<Rightarrow> string \<Rightarrow> (string \<times> string option) list \<Rightarrow> unit candidate list" where
  "candidate_list fc scope cands = map (\<lambda>(m, pr). \<lparr>cd_provider = breaker_key fc scope pr, cd_model = m,
     cd_contextWindow = None, cd_data = ()\<rparr>) cands"

definition candidate_allow ::
  "(string \<Rightarrow> string option) \<Rightarrow> failover_call \<Rightarrow> (unit candidate \<Rightarrow> bool) option" where
  "candidate_allow urlOrigin fc =
    (case fc_gate fc of None \<Rightarrow> None
     | Some g \<Rightarrow> (case dg_rule g of None \<Rightarrow> None
         | Some r \<Rightarrow> Some (\<lambda>c. modelComplies (dg_policy g) (Some (cd_model c)) (Some r)
                       (\<lambda>t. tierServesTarget urlOrigin t (Some (call_target fc))))))"

text \<open>The shared state of a run: the breaker registry, then \<open>servedModel\<close> of the route and the rest.\<close>

type_synonym 'w shared = "registry \<times> string \<times> 'w"

record 'w platform =
  pl_upstream :: "json \<Rightarrow> registry \<times> 'w \<Rightarrow> (thrown + http_response) \<times> registry \<times> 'w"
  pl_jsonParse :: "string \<Rightarrow> json option"
  pl_dateParse :: "string \<Rightarrow> jsnum"
  pl_urlOrigin :: "string \<Rightarrow> string option"
  pl_dateNow :: "'w \<Rightarrow> int"
  pl_clock :: "'w \<Rightarrow> rat"
  pl_sleep :: "jsnum \<Rightarrow> 'w \<Rightarrow> 'w"

text \<open>One attempt: \<open>servedModel\<close> is set before the call; an answer outside 200 to 299 is thrown.\<close>

definition attempt ::
  "'w platform \<Rightarrow> json \<Rightarrow> unit candidate \<Rightarrow> 'w shared \<Rightarrow> (attempt_error + http_response) \<times> 'w shared" where
  "attempt pl request c sh =
    (let (reg, served, w) = sh; (out, reg', w') = pl_upstream pl (with_model (cd_model c) request) (reg, w);
         sh' = (reg', cd_model c, w')
     in case out of
          Inl e \<Rightarrow> (Inl (Thrown_error e), sh')
        | Inr res \<Rightarrow>
           if 200 \<le> hp_status res \<and> hp_status res < 300 then (Inr res, sh')
           else (Inl (Route_attempt res
                  (failureOfResponse (pl_jsonParse pl) (pl_dateParse pl) (pl_dateNow pl w') res)), sh'))"

definition route_env ::
  "'w platform \<Rightarrow> failover_call \<Rightarrow> json \<Rightarrow> (unit, attempt_error, http_response, 'w shared) engine_env" where
  "route_env pl fc request =
    \<lparr>en_call = attempt pl request,
     en_sleep = (\<lambda>t (reg, served, w). (reg, served, pl_sleep pl t w)),
     en_dateNow = (\<lambda>(reg, served, w). pl_dateNow pl w),
     en_allow = candidate_allow (pl_urlOrigin pl) fc,
     en_failureOf = attempt_failure,
     en_maxWait = Fin 10, en_rateLimitRetries = 1\<rparr>"

datatype 'w route_outcome =
    Answered http_response string "registry \<times> 'w"
  | Refused error_response
  | Unavailable error_response
  | Direct "(thrown + http_response) \<times> registry \<times> 'w"
  | Rethrown attempt_error
  | Range range_error

definition unavailable_response :: error_response where
  "unavailable_response = \<lparr>er_status = 503, er_code = ''no_available_candidate'', er_type = ''service_unavailable'',
     er_message = ''No routed model is available: the circuit breaker is open for every allowed candidate''\<rparr>"

text \<open>How the run's end is answered.\<close>

definition finish_failover ::
  "failover_call \<Rightarrow> ps_route \<Rightarrow> (unit, attempt_error, http_response, 'w shared) fo_result \<Rightarrow> 'w route_outcome" where
  "finish_failover fc route res =
    (case res of
       FO_done response c as sk (reg, served, w) \<Rightarrow> Answered response (cd_model c) (reg, w)
     | FO_raised err as sk (reg, served, w) \<Rightarrow>
        (case err of Route_attempt response info \<Rightarrow> Answered response served (reg, w) | _ \<Rightarrow> Rethrown err)
     | FO_no_candidate as sk le (reg, served, w) \<Rightarrow>
        (case le of
           Some (Route_attempt response info) \<Rightarrow> Answered response served (reg, w)
         | _ \<Rightarrow> if sk \<noteq> [] \<and> list_all (\<lambda>k. sk_reason k = Non_compliant) sk
               then Refused (fst (policyViolationResponse (Some (pr_requestedModel route)) None (Some (pr_group route))
                      (case fc_gate fc of None \<Rightarrow> None | Some g \<Rightarrow> dg_level g)))
               else Unavailable unavailable_response)
     | FO_range e \<Rightarrow> Range e)"

definition fails_over :: "failover_call \<Rightarrow> bool" where
  "fails_over fc \<longleftrightarrow> (case fc_route fc of None \<Rightarrow> False
     | Some route \<Rightarrow> (case pr_candidates route of None \<Rightarrow> False | Some cs \<Rightarrow> 2 \<le> length cs) \<and>
        (case fc_request fc of Some (JObj _) \<Rightarrow> True | Some (JArr _) \<Rightarrow> True | _ \<Rightarrow> False) \<and>
        configAllowsRouteFailover (fc_config fc))"

definition tryTargetsWithRouteFailover ::
  "'w platform \<Rightarrow> failover_call \<Rightarrow> registry \<times> 'w \<Rightarrow> 'w route_outcome" where
  "tryTargetsWithRouteFailover pl fc rw =
    (let request = (case fc_request fc of None \<Rightarrow> JNull | Some r \<Rightarrow> r) in
     if \<not> fails_over fc then Direct (pl_upstream pl request rw)
     else case fc_scope fc of
       None \<Rightarrow> Direct (pl_upstream pl request rw)
     | Some scope \<Rightarrow>
        (let route = the (fc_route fc); cands = the (pr_candidates route) in
         finish_failover fc route
           (runFailover (registry_ops (\<lambda>(served, w). pl_clock pl w)) (route_env pl fc request)
              (candidate_list fc scope cands) (fst rw, pr_servedModel route, snd rw))))"

subsection \<open>Compliance of what is served\<close>

lemma attempt_throws_failures:
  "attempt pl request c sh = (Inl (Route_attempt res info), sh') \<Longrightarrow> \<not> (200 \<le> hp_status res \<and> hp_status res < 300)"
  by (auto simp: attempt_def Let_def split: prod.splits sum.splits if_splits)

lemma digits_of_no_model: "digits_of i \<noteq> ''model''" "''model'' \<noteq> digits_of i"
proof -
  have "\<not> list_all is_digit ''model''" by (simp add: is_digit_def)
  with digits_of_digits [of i] show "digits_of i \<noteq> ''model''" "''model'' \<noteq> digits_of i" by metis+
qed

lemma with_model_model: "prop_of (Some (with_model m j)) ''model'' = Some (JStr m)"
proof (cases j)
  case (JArr xs)
  have "map_of (zip (map digits_of [0..<length xs]) xs) ''model'' = None"
    by (auto simp: map_of_eq_None_iff digits_of_no_model dest!: set_zip_leftD)
  then show ?thesis by (simp only: JArr with_model.simps prop_of.simps map_of_append map_add_def) simp
qed simp_all

text \<open>The upstream gave \<open>res\<close> to the caller's own request with the model \<open>m\<close> put in.\<close>

definition answered_as :: "'w platform \<Rightarrow> failover_call \<Rightarrow> string \<Rightarrow> http_response \<Rightarrow> bool" where
  "answered_as pl fc m res \<longleftrightarrow> (\<exists>body before after. pl_upstream pl body before = (Inr res, after) \<and>
     prop_of (Some body) ''model'' = Some (JStr m) \<and>
     (case fc_request fc of Some (JObj fs) \<Rightarrow> \<forall>k. k \<noteq> ''model'' \<longrightarrow> prop_of (Some body) k = map_of fs k | _ \<Rightarrow> True))"

lemma attempt_answered:
  assumes "attempt pl (case fc_request fc of None \<Rightarrow> JNull | Some r \<Rightarrow> r) c sh = (Inr res, sh')"
  shows "answered_as pl fc (cd_model c) res"
proof -
  let ?body = "with_model (cd_model c) (case fc_request fc of None \<Rightarrow> JNull | Some r \<Rightarrow> r)"
  have m: "prop_of (Some ?body) ''model'' = Some (JStr (cd_model c))" by (rule with_model_model)
  from assms obtain before after where "pl_upstream pl ?body before = (Inr res, after)"
    by (auto simp: attempt_def Let_def split: prod.splits sum.splits if_splits)
  with m show ?thesis unfolding answered_as_def
    by (intro exI [of _ ?body] exI conjI) (auto split: option.splits json.splits)
qed

text \<open>C1. A routed call is only ever answered by a compliant model: under a data policy rule, a successful
  answer of the failover is what the upstream gave to the caller's request with the served model put in as its
  \<open>model\<close> and nothing else of it changed, and that model is a candidate of the router which the gate's own check
  accepts for the provider and host the call is sent to, whatever the providers, breakers and concurrent
  requests do.\<close>

theorem route_failover_serves_compliant:
  assumes "tryTargetsWithRouteFailover pl fc rw = Answered res served rw'"
    "200 \<le> hp_status res" "hp_status res < 300"
    "fc_gate fc = Some g" "dg_rule g = Some r"
  shows "answered_as pl fc served res \<and> served \<in> fst ` set (the (pr_candidates (the (fc_route fc)))) \<and>
    modelComplies (dg_policy g) (Some served) (Some r) (\<lambda>t. tierServesTarget (pl_urlOrigin pl) t (Some (call_target fc)))"
proof -
  let ?request = "case fc_request fc of None \<Rightarrow> JNull | Some r \<Rightarrow> r"
  let ?env = "route_env pl fc ?request"
  let ?ops = "registry_ops (\<lambda>(served, w). pl_clock pl w)"
  let ?route = "the (fc_route fc)"
  obtain scope where sc: "fc_scope fc = Some scope" "fails_over fc"
    using assms(1) by (auto simp: tryTargetsWithRouteFailover_def Let_def split: if_splits option.splits)
  let ?cands = "candidate_list fc scope (the (pr_candidates ?route))"
  let ?run = "runFailover ?ops ?env ?cands (fst rw, pr_servedModel ?route, snd rw)"
  have fin: "finish_failover fc ?route ?run = Answered res served rw'"
    using assms(1) sc by (simp add: tryTargetsWithRouteFailover_def Let_def)
  have call: "en_call ?env = attempt pl ?request" by (simp add: route_env_def)
  have post: "run_post ?env ?cands ?run" by (rule conjunct1 [OF runFailover_result])
  have last: "last_error_ok ?env ?run" by (rule runFailover_lastError)
  have ok: "200 \<le> hp_status res \<and> hp_status res < 300" using assms(2,3) by simp
  show ?thesis
  proof (cases ?run)
    case (FO_done resp c as sk s)
    with fin post have "resp = res" "served = cd_model c" "c \<in> set ?cands" "permitted ?env c"
      by (auto simp: finish_failover_def split: prod.splits)
    moreover from failover_returns_first_answer [OF FO_done] call \<open>resp = res\<close> have "answered_as pl fc (cd_model c) res"
      by (auto intro: attempt_answered)
    moreover from \<open>permitted ?env c\<close> assms(4,5) have "modelComplies (dg_policy g) (Some (cd_model c)) (Some r)
      (\<lambda>t. tierServesTarget (pl_urlOrigin pl) t (Some (call_target fc)))"
      by (simp add: permitted_def route_env_def candidate_allow_def)
    ultimately show ?thesis by (force simp: candidate_list_def)
  next
    case (FO_raised err as sk s)
    with fin obtain info where "err = Route_attempt res info"
      by (auto simp: finish_failover_def split: prod.splits attempt_error.splits)
    with FO_raised post call attempt_throws_failures ok show ?thesis by fastforce
  next
    case (FO_no_candidate as sk le s)
    with fin obtain info where "le = Some (Route_attempt res info)"
      by (auto simp: finish_failover_def split: prod.splits attempt_error.splits option.splits if_splits)
    with FO_no_candidate last call attempt_throws_failures ok show ?thesis by (fastforce simp: thrown_by_def)
  next
    case (FO_range e)
    with fin show ?thesis by (simp add: finish_failover_def)
  qed
qed

definition sample_platform :: "nat platform" where
  "sample_platform = \<lparr>pl_upstream = (\<lambda>body (reg, n).
       (Inr \<lparr>hp_status = (if prop_of (Some body) ''model'' = Some (JStr ''mini'') then 503 else 200),
             hp_header = (\<lambda>_. None), hp_text = None\<rparr>, reg, Suc n)),
     pl_jsonParse = (\<lambda>_. None), pl_dateParse = (\<lambda>_. NaN), pl_urlOrigin = (\<lambda>_. None),
     pl_dateNow = int, pl_clock = (\<lambda>n. of_nat n), pl_sleep = (\<lambda>_ n. n)\<rparr>"

definition sample_call_state :: failover_call where
  "sample_call_state = \<lparr>fc_route = Some \<lparr>pr_requestedModel = ''auto'', pr_servedModel = ''mini'', pr_group = ''cheap'',
       pr_reason = [], pr_estCost = Fin 4, pr_sensitivityLevel = None, pr_sensitivitySource = None,
       pr_candidates = Some [(''mini'', None), (''nano'', None), (''big'', None)]\<rparr>,
     fc_request = Some (JObj []), fc_config = None, fc_scope = Some ''s'', fc_gate = Some sample_gate,
     fc_customHostHeader = None\<rparr>"

theorem route_failover_serves_compliant_witness:
  "\<exists>res rw'. tryTargetsWithRouteFailover sample_platform sample_call_state (sample_registry, 0) = Answered res ''big'' rw' \<and>
     answered_as sample_platform sample_call_state ''big'' res \<and>
     ''big'' \<in> fst ` set (the (pr_candidates (the (fc_route sample_call_state))))"
proof -
  have "case tryTargetsWithRouteFailover sample_platform sample_call_state (sample_registry, 0) of
      Answered res served rw' \<Rightarrow> served = ''big'' \<and> 200 \<le> hp_status res \<and> hp_status res < 300 | _ \<Rightarrow> False"
    by code_simp
  then obtain res rw' where run: "tryTargetsWithRouteFailover sample_platform sample_call_state (sample_registry, 0) =
      Answered res ''big'' rw'" "200 \<le> hp_status res" "hp_status res < 300"
    by (auto split: route_outcome.splits)
  obtain r where r: "dg_rule sample_gate = Some r"
    by (simp add: sample_gate_def dataPolicyRule_def own_def sample_policy_def)
  have g: "fc_gate sample_call_state = Some sample_gate" by (simp add: sample_call_state_def)
  from route_failover_serves_compliant [OF run g r] run(1) show ?thesis by blast
qed

end
