(* ===== verification/Budget_Keys.thy ===== *)
theory Budget_Keys
  imports Prelude
begin

text \<open>
  The shared budget counter format (\<open>gateway/src/middlewares/psBudget/keys.ts\<close>): period labels
  and ends, counter lifetimes, segment encoding and keys.

  The first part is the proleptic Gregorian calendar of the language's \<open>Date\<close> (days and years counted
  from 1970, \<open>Date.UTC\<close> with its month and day overflow and its reading of the years 0 to 99 as 1900 to
  1999). A time is an \<open>int\<close> of milliseconds, a valid time value; the \<open>NaN\<close> dates outside the range of
  \<open>Date\<close> are not modelled.
\<close>

subsection \<open>The calendar\<close>

definition ms_per_day :: int where
  "ms_per_day = 86400000"

definition DayFromYear :: "int \<Rightarrow> int" where
  "DayFromYear y = 365 * (y - 1970) + (y - 1969) div 4 - (y - 1901) div 100 + (y - 1601) div 400"

definition leap :: "int \<Rightarrow> bool" where
  "leap y \<longleftrightarrow> y mod 4 = 0 \<and> (y mod 100 \<noteq> 0 \<or> y mod 400 = 0)"

lemma div_step:
  fixes n x :: int
  assumes "0 < n"
  shows "(x + 1) div n = x div n + (if n dvd x + 1 then 1 else 0)"
proof -
  let ?q = "x div n" and ?r = "x mod n"
  have r: "0 \<le> ?r" "?r < n" using assms by simp_all
  have x: "x = ?q * n + ?r" by simp
  show ?thesis
  proof (cases "?r + 1 = n")
    case True
    then have "x + 1 = ?q * n + n" using x by linarith
    then have "x + 1 = (?q + 1) * n" by (simp add: distrib_right)
    with assms show ?thesis by simp
  next
    case False
    have d: "(x + 1) div n = ?q" "(x + 1) mod n = ?r + 1"
      using int_div_pos_eq [of "x + 1" n ?q "?r + 1"] int_mod_pos_eq [of "x + 1" n ?q "?r + 1"] x r False
      by (simp_all add: mult.commute)
    with r show ?thesis by (simp add: dvd_eq_mod_eq_0)
  qed
qed

lemma dvd_shift: "d dvd c \<Longrightarrow> d dvd y - c \<longleftrightarrow> d dvd (y::int)"
  by (metis diff_add_cancel dvd_add dvd_diff)

lemma dvd_numerals: "400 dvd (y::int) \<Longrightarrow> 100 dvd y" "100 dvd (y::int) \<Longrightarrow> 4 dvd y"
  by (rule dvd_trans [of 100 400 y], simp, assumption) (rule dvd_trans [of 4 100 y], simp, assumption)

lemma leap_iff: "leap y \<longleftrightarrow> (4 dvd y \<and> \<not> 100 dvd y) \<or> 400 dvd y"
  unfolding leap_def dvd_eq_mod_eq_0 [symmetric] using dvd_numerals [of y] by blast

lemma DayFromYear_Suc: "DayFromYear (y + 1) = DayFromYear y + (if leap y then 366 else 365)"
proof -
  define p q r where "p \<longleftrightarrow> 4 dvd y" and "q \<longleftrightarrow> 100 dvd y" and "r \<longleftrightarrow> 400 dvd y"
  have s4: "(y - 1969) + 1 = y - 1968" "y + 1 - 1969 = (y - 1969) + 1" by simp_all
  have s100: "(y - 1901) + 1 = y - 1900" "y + 1 - 1901 = (y - 1901) + 1" by simp_all
  have s400: "(y - 1601) + 1 = y - 1600" "y + 1 - 1601 = (y - 1601) + 1" by simp_all
  have n: "4 dvd (1968::int)" "100 dvd (1900::int)" "400 dvd (1600::int)" by simp_all
  have d4: "(y + 1 - 1969) div 4 = (y - 1969) div 4 + (if p then 1 else 0)"
    unfolding s4(2) by (subst div_step) (simp only: s4(1) dvd_shift [OF n(1)] p_def, simp)+
  have d100: "(y + 1 - 1901) div 100 = (y - 1901) div 100 + (if q then 1 else 0)"
    unfolding s100(2) by (subst div_step) (simp only: s100(1) dvd_shift [OF n(2)] q_def, simp)+
  have d400: "(y + 1 - 1601) div 400 = (y - 1601) div 400 + (if r then 1 else 0)"
    unfolding s400(2) by (subst div_step) (simp only: s400(1) dvd_shift [OF n(3)] r_def, simp)+
  have "r \<Longrightarrow> q" "q \<Longrightarrow> p" using dvd_numerals [of y] unfolding p_def q_def r_def by blast+
  moreover have "leap y \<longleftrightarrow> (p \<and> \<not> q) \<or> r" unfolding leap_iff p_def q_def r_def ..
  ultimately show ?thesis unfolding DayFromYear_def d4 d100 d400 by (cases p; cases q; cases r) simp_all
qed

lemma DayFromYear_mono1: "DayFromYear y < DayFromYear (y + 1)"
  by (simp add: DayFromYear_Suc)

lemma DayFromYear_add:
  "DayFromYear y + 365 * int k \<le> DayFromYear (y + int k) \<and> DayFromYear (y + int k) \<le> DayFromYear y + 366 * int k"
proof (induction k)
  case (Suc k)
  have "DayFromYear (y + int (Suc k)) = DayFromYear ((y + int k) + 1)" by (simp add: algebra_simps)
  with Suc show ?case by (simp add: DayFromYear_Suc)
qed simp

lemma DayFromYear_less: "y < z \<Longrightarrow> DayFromYear y < DayFromYear z"
  using DayFromYear_add [of y "nat (z - y)"] by simp

lemma DayFromYear_le: "y \<le> z \<Longrightarrow> DayFromYear y \<le> DayFromYear z"
  using DayFromYear_less [of y z] by (cases "y = z") auto

lemma DayFromYear_1970 [simp]: "DayFromYear 1970 = 0"
  by (simp add: DayFromYear_def)

function year_search :: "int \<Rightarrow> int \<Rightarrow> int" where
  "year_search y d = (if DayFromYear (y + 1) \<le> d then year_search (y + 1) d else y)"
  by pat_completeness auto
termination
  by (relation "measure (\<lambda>(y, d). nat (d - DayFromYear y))") (auto simp: DayFromYear_Suc split: if_splits)

declare year_search.simps [simp del]

text \<open>The year of a day: the search starts at or before it.\<close>

definition year_of :: "int \<Rightarrow> int" where
  "year_of d = year_search (1970 + (if 0 \<le> d then d div 366 else d div 365)) d"

lemma year_search_spec:
  "DayFromYear y \<le> d \<Longrightarrow>
   DayFromYear (year_search y d) \<le> d \<and> d < DayFromYear (year_search y d + 1)"
  by (induction y d rule: year_search.induct) (simp add: year_search.simps)

lemma year_start_le: "DayFromYear (1970 + (if 0 \<le> d then d div 366 else d div 365)) \<le> d"
proof (cases "0 \<le> d")
  case True
  define k where "k = nat (d div 366)"
  have k: "int k = d div 366" using True by (simp add: k_def pos_imp_zdiv_nonneg_iff)
  have "366 * (d div 366) \<le> d" by simp
  with True DayFromYear_add [of 1970 k] show ?thesis by (simp add: k)
next
  case False
  define k where "k = nat (- (d div 365))"
  have k: "int k = - (d div 365)" using False by (simp add: k_def)
  have "365 * (d div 365) \<le> d" by simp
  with False DayFromYear_add [of "1970 + d div 365" k] show ?thesis by (simp add: k)
qed

lemma year_of_spec: "DayFromYear (year_of d) \<le> d \<and> d < DayFromYear (year_of d + 1)"
  unfolding year_of_def by (rule year_search_spec [OF year_start_le])

lemma year_of_eqI:
  assumes "DayFromYear y \<le> d" "d < DayFromYear (y + 1)"
  shows "year_of d = y"
proof -
  have "\<not> year_of d + 1 \<le> y" using DayFromYear_le [of "year_of d + 1" y] year_of_spec [of d] assms by linarith
  moreover have "\<not> y + 1 \<le> year_of d"
    using DayFromYear_le [of "y + 1" "year_of d"] year_of_spec [of d] assms by linarith
  ultimately show ?thesis by linarith
qed

text \<open>Days before the first of a month (0 to 12).\<close>

definition month_start :: "bool \<Rightarrow> int \<Rightarrow> int" where
  "month_start lp m = (if m \<le> 0 then 0
     else [31, 59, 90, 120, 151, 181, 212, 243, 273, 304, 334, 365] ! nat (m - 1) +
          (if lp \<and> 2 \<le> m then 1 else 0))"

fun month_search :: "bool \<Rightarrow> int \<Rightarrow> nat \<Rightarrow> int" where
  "month_search lp d 0 = 0"
| "month_search lp d (Suc n) = (if month_start lp (int n) \<le> d then int n else month_search lp d n)"

definition month_of :: "int \<Rightarrow> int" where
  "month_of d = (let y = year_of d in month_search (leap y) (d - DayFromYear y) 12)"

definition date_of :: "int \<Rightarrow> int" where
  "date_of d = (let y = year_of d in d - DayFromYear y - month_start (leap y) (month_of d) + 1)"

text \<open>\<open>getUTCDay\<close>: 1970-01-01 was a Thursday.\<close>

definition weekday_of :: "int \<Rightarrow> int" where
  "weekday_of d = (d + 4) mod 7"

text \<open>\<open>Date.UTC(y, m, d)\<close> in days: months and days may run over.\<close>

definition utc_day :: "int \<Rightarrow> int \<Rightarrow> int \<Rightarrow> int" where
  "utc_day y0 m d = (let y1 = (if 0 \<le> y0 \<and> y0 \<le> 99 then 1900 + y0 else y0); y = y1 + m div 12 in
     DayFromYear y + month_start (leap y) (m mod 12) + d - 1)"

lemma month_start_Suc: "0 \<le> m \<Longrightarrow> m \<le> 11 \<Longrightarrow> month_start lp m < month_start lp (m + 1)"
proof -
  assume "0 \<le> m" "m \<le> 11"
  then have "m \<in> set [0..11]" by simp
  then have "m \<in> {0, 1, 2, 3, 4, 5, 6, 7, 8, 9, 10, 11}" by (simp add: upto_rec1)
  then show ?thesis by (auto simp: month_start_def)
qed

lemma month_start_ends [simp]: "month_start lp 0 = 0" "month_start lp 12 = (if lp then 366 else 365)"
  by (simp_all add: month_start_def)

lemma month_search_spec:
  assumes "0 \<le> d" "n \<le> 12" "d < month_start lp (int n)"
  shows "0 \<le> month_search lp d n \<and> month_search lp d n < int n \<and>
    month_start lp (month_search lp d n) \<le> d \<and> d < month_start lp (month_search lp d n + 1)"
  using assms
proof (induction n)
  case (Suc n)
  show ?case
  proof (cases "month_start lp (int n) \<le> d")
    case True
    with Suc.prems show ?thesis by (simp add: add.commute)
  next
    case False
    with Suc show ?thesis by auto
  qed
qed simp

lemma month_of_spec:
  "0 \<le> month_of d \<and> month_of d \<le> 11 \<and>
   DayFromYear (year_of d) + month_start (leap (year_of d)) (month_of d) \<le> d \<and>
   d < DayFromYear (year_of d) + month_start (leap (year_of d)) (month_of d + 1)"
proof -
  let ?y = "year_of d"
  have "d - DayFromYear ?y < month_start (leap ?y) (int 12)"
    using year_of_spec [of d] by (simp add: DayFromYear_Suc)
  from month_search_spec [OF _ _ this] year_of_spec [of d] show ?thesis
    by (auto simp: month_of_def Let_def)
qed

lemma utc_day_date:
  assumes "100 \<le> year_of d"
  shows "utc_day (year_of d) (month_of d) (date_of d + k) = d + k"
  using assms month_of_spec [of d] by (auto simp: utc_day_def date_of_def Let_def div_pos_pos_trivial)

lemma utc_day_next_month:
  assumes "100 \<le> year_of d"
  shows "utc_day (year_of d) (month_of d + 1) 1 =
    DayFromYear (year_of d) + month_start (leap (year_of d)) (month_of d + 1)"
proof (cases "month_of d = 11")
  case True
  with assms show ?thesis by (simp add: utc_day_def Let_def DayFromYear_Suc)
next
  case False
  with month_of_spec [of d] have "(month_of d + 1) div 12 = 0" "(month_of d + 1) mod 12 = month_of d + 1"
    by (simp_all add: div_pos_pos_trivial)
  with assms show ?thesis by (simp add: utc_day_def Let_def)
qed

lemma date_of_ge1: "1 \<le> date_of d" and date_of_le: "date_of d \<le> 31"
proof -
  let ?y = "year_of d" and ?m = "month_of d"
  have m: "0 \<le> ?m" "?m \<le> 11" using month_of_spec by auto
  then have "?m \<in> set [0..11]" by simp
  then have "month_start (leap ?y) (?m + 1) - month_start (leap ?y) ?m \<le> 31"
    by (auto simp: upto_rec1 month_start_def)
  with month_of_spec [of d] show "1 \<le> date_of d" "date_of d \<le> 31" by (auto simp: date_of_def Let_def)
qed

subsection \<open>Windows and periods\<close>

datatype budget_window = Day | Week | Month
datatype budget_scope = Global | Business_unit | Use_case | Owner

fun window_text :: "budget_window \<Rightarrow> string" where
  "window_text Day = ''day''"
| "window_text Week = ''week''"
| "window_text Month = ''month''"

fun scope_text :: "budget_scope \<Rightarrow> string" where
  "scope_text Global = ''global''"
| "scope_text Business_unit = ''business_unit''"
| "scope_text Use_case = ''use_case''"
| "scope_text Owner = ''owner''"

definition KEY_PREFIX :: string where
  "KEY_PREFIX = ''ps:budget:v1''"

definition GRACE_SECONDS :: int where
  "GRACE_SECONDS = 86400"

definition GLOBAL_SUBJECT :: string where
  "GLOBAL_SUBJECT = ''_''"

definition padStart :: "nat \<Rightarrow> char \<Rightarrow> string \<Rightarrow> string" where
  "padStart w c s = replicate (w - length s) c @ s"

definition pad :: "int \<Rightarrow> string" where
  "pad n = padStart 2 (CHR ''0'') (string_of_int n)"

text \<open>The day a time falls on.\<close>

definition day_at :: "int \<Rightarrow> int" where
  "day_at nowMs = nowMs div ms_per_day"

text \<open>Monday 1 to Sunday 7: \<open>getUTCDay() || 7\<close>.\<close>

definition iso_weekday :: "int \<Rightarrow> int" where
  "iso_weekday d = (if weekday_of d = 0 then 7 else weekday_of d)"

text \<open>\<open>isoWeek\<close>: \<open>Date.UTC\<close> drops the time of day, \<open>setUTCDate\<close> moves to the week's Thursday, and the
  week is \<open>Math.ceil(((day - yearStart) / 86400000 + 1) / 7)\<close>, all on whole days.\<close>

definition isoWeek :: "int \<Rightarrow> int \<times> int" where
  "isoWeek d =
    (let day0 = utc_day (year_of d) (month_of d) (date_of d);
         thursday = day0 + 4 - iso_weekday day0;
         yearStart = utc_day (year_of thursday) 0 1;
         week = - ((- (thursday - yearStart + 1)) div 7)
     in (year_of thursday, week))"

definition periodOf :: "budget_window \<Rightarrow> int \<Rightarrow> string" where
  "periodOf window nowMs =
    (let d = day_at nowMs; y = year_of d in
     case window of
       Day \<Rightarrow> string_of_int y @ ''-'' @ pad (month_of d + 1) @ ''-'' @ pad (date_of d)
     | Month \<Rightarrow> string_of_int y @ ''-'' @ pad (month_of d + 1)
     | Week \<Rightarrow> (let (isoYear, week) = isoWeek d in string_of_int isoYear @ ''-W'' @ pad week))"

definition periodEnd :: "budget_window \<Rightarrow> int \<Rightarrow> int" where
  "periodEnd window nowMs =
    (let d = day_at nowMs; y = year_of d; m = month_of d in
     ms_per_day * (case window of
       Day \<Rightarrow> utc_day y m (date_of d + 1)
     | Month \<Rightarrow> utc_day y (m + 1) 1
     | Week \<Rightarrow> utc_day y m (date_of d + 8 - iso_weekday d)))"

definition counterTtl :: "budget_window \<Rightarrow> int \<Rightarrow> int" where
  "counterTtl window nowMs =
    - ((- (periodEnd window nowMs - nowMs)) div 1000) + GRACE_SECONDS"

text \<open>\<open>TextEncoder\<close> on code units below 256, and the bytes kept as they are.\<close>

definition utf8 :: "char \<Rightarrow> nat list" where
  "utf8 c = (let n = of_char c in if n < 128 then [n] else [192 + n div 64, 128 + n mod 64])"

definition safe_byte :: "nat \<Rightarrow> bool" where
  "safe_byte n \<longleftrightarrow> (65 \<le> n \<and> n \<le> 90) \<or> (97 \<le> n \<and> n \<le> 122) \<or> (48 \<le> n \<and> n \<le> 57) \<or>
     n = 46 \<or> n = 95 \<or> n = 126 \<or> n = 45"

definition hex_digit :: "nat \<Rightarrow> char" where
  "hex_digit d = char_of (if d < 10 then 48 + d else 55 + d)"

definition encode_byte :: "nat \<Rightarrow> string" where
  "encode_byte n = (if safe_byte n then [char_of n] else [CHR ''%'', hex_digit (n div 16), hex_digit (n mod 16)])"

definition encodeSegment :: "string \<Rightarrow> string" where
  "encodeSegment v = concat (map encode_byte (concat (map utf8 v)))"

definition counterKey ::
  "string \<Rightarrow> budget_scope \<Rightarrow> string \<Rightarrow> budget_window \<Rightarrow> string \<Rightarrow> string" where
  "counterKey namespace scope subject window period =
    join '':'' [KEY_PREFIX, encodeSegment namespace, scope_text scope, encodeSegment subject,
              window_text window, period]"

definition reservationsKey :: "string \<Rightarrow> string" where
  "reservationsKey key = ''{'' @ key @ ''}:res''"

subsection \<open>Labels\<close>

lemma digits_no: "\<not> is_digit c \<Longrightarrow> c \<notin> set (digits_of n)"
  using digits_of_digits [of n] by (auto simp: list_all_iff)

lemma not_digit_sep [simp]: "\<not> is_digit (CHR ''-'')" "\<not> is_digit (CHR '':'')" "\<not> is_digit (CHR ''W'')"
  by (simp_all add: is_digit_def)

lemma nat_of_digits_zeros: "nat_of_digits 0 (replicate k (CHR ''0'') @ s) = nat_of_digits 0 s"
  by (induction k) (simp_all add: digit_val_def)

lemma pad_nonneg: "0 \<le> n \<Longrightarrow> nat_of_digits 0 (pad n) = nat n"
  by (simp add: pad_def padStart_def nat_of_digits_zeros string_of_nonneg)

lemma pad_inj: "0 \<le> a \<Longrightarrow> 0 \<le> b \<Longrightarrow> pad a = pad b \<longleftrightarrow> a = b"
  by (metis eq_nat_nat_iff pad_nonneg)

lemma pad_no: "0 \<le> n \<Longrightarrow> \<not> is_digit c \<Longrightarrow> c \<notin> set (pad n)"
  by (auto simp: pad_def padStart_def string_of_nonneg digits_no is_digit_def)

lemma digits_inj: "digits_of a = digits_of b \<longleftrightarrow> a = b"
  by (metis nat_of_digits_of)

lemma label_split:
  assumes "0 \<le> y" "0 \<le> y'"
  shows "string_of_int y @ CHR ''-'' # r = string_of_int y' @ CHR ''-'' # r' \<longleftrightarrow> y = y' \<and> r = r'"
  using append_sep_inj [of "string_of_int y" "CHR ''-''" r "string_of_int y'" r'] assms
  by (auto simp: string_of_nonneg digits_no digits_inj eq_nat_nat_iff)

lemma pad_split:
  assumes "0 \<le> m" "0 \<le> m'"
  shows "pad m @ CHR ''-'' # r = pad m' @ CHR ''-'' # r' \<longleftrightarrow> m = m' \<and> r = r'"
  using append_sep_inj [of "pad m" "CHR ''-''" r "pad m'" r'] assms
  by (auto simp: pad_no pad_inj)

text \<open>The week of a day, by its Thursday.\<close>

definition thursday :: "int \<Rightarrow> int" where
  "thursday d = 7 * ((d + 3) div 7)"

lemma iso_weekday_alt: "iso_weekday d = (d + 3) mod 7 + 1"
proof -
  have w: "(d + 4) mod 7 = ((d + 3) mod 7 + 1) mod 7" by (simp add: mod_simps add.commute)
  have "0 \<le> (d + 3) mod 7" "(d + 3) mod 7 < 7" by simp_all
  then show ?thesis
    by (cases "(d + 3) mod 7 = 6") (simp_all add: iso_weekday_def weekday_of_def w)
qed

lemma thursday_eq: "d + 4 - iso_weekday d = thursday d" "d + 8 - iso_weekday d = thursday d + 4"
  using minus_mod_eq_mult_div [of "d + 3" 7] unfolding iso_weekday_alt thursday_def by linarith+

lemma year_of_epoch: "0 \<le> d \<Longrightarrow> 1970 \<le> year_of d"
  using year_of_spec [of d] DayFromYear_le [of "year_of d + 1" 1970] by (cases "year_of d + 1 \<le> 1970") auto

lemma thursday_nonneg: "0 \<le> d \<Longrightarrow> 0 \<le> thursday d"
  by (simp add: thursday_def)

lemma isoWeek_alt:
  assumes "0 \<le> d"
  shows "isoWeek d = (year_of (thursday d), (thursday d - DayFromYear (year_of (thursday d))) div 7 + 1)"
proof -
  have y: "1970 \<le> year_of d" "1970 \<le> year_of (thursday d)"
    using year_of_epoch thursday_nonneg assms by simp_all
  have ceil: "- ((- (n + 1)) div 7) = n div 7 + 1" for n :: int by presburger
  have "utc_day (year_of d) (month_of d) (date_of d) = d" using utc_day_date [of d 0] y by simp
  moreover have "utc_day (year_of (thursday d)) 0 1 = DayFromYear (year_of (thursday d))"
    using y by (simp add: utc_day_def)
  ultimately show ?thesis
    using ceil by (simp add: isoWeek_def Let_def thursday_eq)
qed

definition period_end_day :: "budget_window \<Rightarrow> int \<Rightarrow> int" where
  "period_end_day w d = (case w of Day \<Rightarrow> d + 1 | Week \<Rightarrow> thursday d + 4
     | Month \<Rightarrow> DayFromYear (year_of d) + month_start (leap (year_of d)) (month_of d + 1))"

lemma day_at_nonneg: "0 \<le> nowMs \<Longrightarrow> 0 \<le> day_at nowMs"
  by (simp add: day_at_def ms_per_day_def)

lemma periodEnd_alt:
  assumes "0 \<le> nowMs"
  shows "periodEnd w nowMs = ms_per_day * period_end_day w (day_at nowMs)"
proof -
  have y: "100 \<le> year_of (day_at nowMs)" using year_of_epoch [OF day_at_nonneg [OF assms]] by linarith
  show ?thesis
    using utc_day_date [OF y, of 1] utc_day_date [OF y, of "8 - iso_weekday (day_at nowMs)"]
      utc_day_next_month [OF y] thursday_eq(2) [of "day_at nowMs"]
    by (cases w) (simp_all add: periodEnd_def period_end_day_def Let_def add_diff_eq)
qed

lemma period_end_day_gt: "d < period_end_day w d"
  using month_of_spec [of d] div_mult_mod_eq [of "d + 3" 7] pos_mod_bound [of 7 "d + 3"]
  by (cases w) (simp_all add: period_end_day_def thursday_def)

lemma month_mono: "0 \<le> m \<Longrightarrow> m \<le> k \<Longrightarrow> k \<le> 12 \<Longrightarrow> month_start lp m \<le> month_start lp k"
proof (induction "nat (k - m)" arbitrary: k)
  case (Suc n)
  then have "month_start lp m \<le> month_start lp (k - 1)" by (intro Suc.hyps(1)) auto
  moreover have "month_start lp (k - 1) < month_start lp (k - 1 + 1)"
    using Suc by (intro month_start_Suc) auto
  ultimately show ?case by simp
qed simp

lemma month_of_eqI:
  assumes "year_of d = y" "0 \<le> m" "m \<le> 11" "DayFromYear y + month_start (leap y) m \<le> d"
    "d < DayFromYear y + month_start (leap y) (m + 1)"
  shows "month_of d = m"
proof -
  note s = month_of_spec [of d]
  have "\<not> month_of d + 1 \<le> m"
    using month_mono [of "month_of d + 1" m "leap y"] s assms by auto
  moreover have "\<not> m + 1 \<le> month_of d"
    using month_mono [of "m + 1" "month_of d" "leap y"] s assms by auto
  ultimately show ?thesis by linarith
qed

lemma period_same:
  assumes "0 \<le> d" "d \<le> e" "e < period_end_day w d"
  shows "w = Day \<longrightarrow> e = d" "w = Week \<longrightarrow> thursday e = thursday d"
    "w = Month \<longrightarrow> year_of e = year_of d \<and> month_of e = month_of d"
proof -
  show "w = Day \<longrightarrow> e = d" using assms by (auto simp: period_end_day_def)
  show "w = Week \<longrightarrow> thursday e = thursday d"
  proof
    assume "w = Week"
    with assms have "e < thursday d + 4" by (simp add: period_end_day_def)
    then have "e + 3 < 7 * ((d + 3) div 7) + 7" by (simp add: thursday_def)
    moreover have "7 * ((d + 3) div 7) \<le> e + 3" using assms(2) by simp
    ultimately have "(e + 3) div 7 = (d + 3) div 7" by linarith
    then show "thursday e = thursday d" by (simp add: thursday_def)
  qed
  show "w = Month \<longrightarrow> year_of e = year_of d \<and> month_of e = month_of d"
  proof
    assume "w = Month"
    let ?y = "year_of d" and ?m = "month_of d"
    note s = month_of_spec [of d]
    from assms \<open>w = Month\<close> have e: "e < DayFromYear ?y + month_start (leap ?y) (?m + 1)"
      by (simp add: period_end_day_def)
    have "month_start (leap ?y) (?m + 1) \<le> month_start (leap ?y) 12" using s by (intro month_mono) auto
    with e have "e < DayFromYear (?y + 1)" by (auto simp: DayFromYear_Suc)
    moreover have "DayFromYear ?y \<le> e" using year_of_spec [of d] assms(2) by linarith
    ultimately have y: "year_of e = ?y" by (intro year_of_eqI)
    moreover have "month_of e = ?m"
      using s e assms(2) by (intro month_of_eqI [OF y]) auto
    ultimately show "year_of e = ?y \<and> month_of e = ?m" ..
  qed
qed

lemma iso_week_pos: "0 \<le> d \<Longrightarrow> 0 \<le> snd (isoWeek d)"
  using year_of_spec [of "thursday d"]
    pos_imp_zdiv_nonneg_iff [of 7 "thursday d - DayFromYear (year_of (thursday d))"] by (simp add: isoWeek_alt)

text \<open>Equal labels come from the same period.\<close>

lemma label_eqD:
  assumes "0 \<le> s" "0 \<le> t" "periodOf w s = periodOf w t"
  shows "w = Day \<longrightarrow> day_at s = day_at t" "w = Week \<longrightarrow> isoWeek (day_at s) = isoWeek (day_at t)"
    "w = Month \<longrightarrow> year_of (day_at s) = year_of (day_at t) \<and> month_of (day_at s) = month_of (day_at t)"
proof -
  let ?d = "day_at s" and ?e = "day_at t"
  have n: "0 \<le> ?d" "0 \<le> ?e" using assms day_at_nonneg by simp_all
  have y: "1970 \<le> year_of ?d" "1970 \<le> year_of ?e" using n year_of_epoch by simp_all
  have m: "0 \<le> month_of ?d" "0 \<le> month_of ?e" "0 \<le> date_of ?d" "0 \<le> date_of ?e"
    using month_of_spec [of ?d] month_of_spec [of ?e] date_of_ge1 [of ?d] date_of_ge1 [of ?e] by auto
  show "w = Month \<longrightarrow> year_of ?d = year_of ?e \<and> month_of ?d = month_of ?e"
    using assms(3) y m by (auto simp: periodOf_def Let_def label_split pad_inj)
  show "w = Day \<longrightarrow> ?d = ?e"
  proof
    assume "w = Day"
    with assms(3) y m have "year_of ?d = year_of ?e" "month_of ?d = month_of ?e" "date_of ?d = date_of ?e"
      by (auto simp: periodOf_def Let_def label_split pad_split pad_inj)
    then show "?d = ?e" using utc_day_date [of ?d 0] utc_day_date [of ?e 0] y by auto
  qed
  show "w = Week \<longrightarrow> isoWeek ?d = isoWeek ?e"
  proof
    assume w: "w = Week"
    have "0 \<le> snd (isoWeek ?d)" "0 \<le> snd (isoWeek ?e)" using n iso_week_pos by simp_all
    moreover have "0 \<le> fst (isoWeek ?d)" "0 \<le> fst (isoWeek ?e)"
      using n year_of_epoch [OF thursday_nonneg, of ?d] year_of_epoch [OF thursday_nonneg, of ?e]
      by (simp_all add: isoWeek_alt)
    ultimately show "isoWeek ?d = isoWeek ?e"
      using assms(3) w by (auto simp: periodOf_def Let_def case_prod_beta label_split pad_inj prod_eq_iff)
  qed
qed

lemma period_end_other:
  assumes "0 \<le> d" "e = period_end_day w d"
  shows "w = Week \<longrightarrow> isoWeek e \<noteq> isoWeek d"
    "w = Month \<longrightarrow> \<not> (year_of e = year_of d \<and> month_of e = month_of d)"
proof -
  show "w = Month \<longrightarrow> \<not> (year_of e = year_of d \<and> month_of e = month_of d)"
    using month_of_spec [of e] assms(2) by (auto simp: period_end_day_def)
  show "w = Week \<longrightarrow> isoWeek e \<noteq> isoWeek d"
  proof
    assume "w = Week"
    then have e: "e = thursday d + 4" using assms(2) by (simp add: period_end_day_def)
    have "thursday e = thursday d + 7" unfolding e by (simp add: thursday_def)
    moreover have "0 \<le> e" using e thursday_nonneg [OF assms(1)] by simp
    ultimately show "isoWeek e \<noteq> isoWeek d"
      using assms(1) by (auto simp: isoWeek_alt)
  qed
qed

lemma day_at_ms [simp]: "day_at (ms_per_day * k) = k"
  by (simp add: day_at_def ms_per_day_def)

lemma ms_lt_day: "nowMs < ms_per_day * k \<longleftrightarrow> day_at nowMs < k"
proof -
  have "nowMs < 86400000 * k \<longleftrightarrow> nowMs div 86400000 < k"
    by linarith
  then show ?thesis by (simp add: ms_per_day_def day_at_def)
qed

text \<open>C7. \<open>periodEnd\<close> is the end of the period: it lies after the time it is computed for, every time up
  to it has the same label, and at it the label changes; for days, ISO weeks (across years) and months.\<close>

theorem periodEnd_ends_period:
  assumes "0 \<le> nowMs"
  shows "nowMs < periodEnd w nowMs \<and>
    (\<forall>t. nowMs \<le> t \<and> t < periodEnd w nowMs \<longrightarrow> periodOf w t = periodOf w nowMs) \<and>
    periodOf w (periodEnd w nowMs) \<noteq> periodOf w nowMs"
proof (intro conjI allI impI)
  let ?d = "day_at nowMs"
  have d: "0 \<le> ?d" using day_at_nonneg [OF assms] .
  show lt: "nowMs < periodEnd w nowMs"
    by (simp add: periodEnd_alt [OF assms] ms_lt_day period_end_day_gt)
  show "periodOf w t = periodOf w nowMs" if t: "nowMs \<le> t \<and> t < periodEnd w nowMs" for t
  proof -
    have "day_at t < period_end_day w ?d" using t by (simp add: periodEnd_alt [OF assms] ms_lt_day)
    moreover have le: "?d \<le> day_at t" using t by (simp add: day_at_def zdiv_mono1 ms_per_day_def)
    ultimately have s: "w = Day \<longrightarrow> day_at t = ?d" "w = Week \<longrightarrow> thursday (day_at t) = thursday ?d"
      "w = Month \<longrightarrow> year_of (day_at t) = year_of ?d \<and> month_of (day_at t) = month_of ?d"
      using period_same [OF d le] by blast+
    have "0 \<le> day_at t" using d le by linarith
    with s d show ?thesis by (cases w) (simp_all add: periodOf_def Let_def isoWeek_alt)
  qed
  show "periodOf w (periodEnd w nowMs) \<noteq> periodOf w nowMs"
  proof
    assume eq: "periodOf w (periodEnd w nowMs) = periodOf w nowMs"
    have "0 \<le> periodEnd w nowMs" using lt assms by linarith
    note l = label_eqD [OF this assms eq]
    show False
      using l period_end_other [OF d refl, of w] by (cases w) (auto simp: periodEnd_alt [OF assms] period_end_day_def)
  qed
qed

theorem periodEnd_ends_period_witness:
  "periodOf Week (periodEnd Week 1609459200000) \<noteq> periodOf Week 1609459200000 \<and>
   periodOf Week 1609459200000 = ''2020-W53''"
proof -
  have "periodOf Week 1609459200000 = ''2020-W53''" by code_simp
  with periodEnd_ends_period [of 1609459200000 Week] show ?thesis by simp
qed

subsection \<open>Counter lifetimes\<close>

lemma period_length: "period_end_day w d \<le> d + 31"
proof -
  let ?y = "year_of d" and ?m = "month_of d"
  have "?m \<in> set [0..11]" using month_of_spec [of d] by simp
  then have "month_start (leap ?y) (?m + 1) - month_start (leap ?y) ?m \<le> 31"
    by (auto simp: upto_rec1 month_start_def)
  with month_of_spec [of d] minus_mod_eq_mult_div [of "d + 3" 7] pos_mod_sign [of 7 "d + 3"] show ?thesis
    by (cases w) (auto simp: period_end_day_def thursday_def)
qed

text \<open>A counter outlives its period: the lifetime set on its first write covers the rest of the period,
  rounded up to a second, plus a day of grace, and is never more than 32 days.\<close>

lemma counterTtl_covers_period:
  assumes "0 \<le> nowMs"
  shows "periodEnd w nowMs \<le> nowMs + 1000 * (counterTtl w nowMs - GRACE_SECONDS) \<and>
    nowMs + 1000 * (counterTtl w nowMs - GRACE_SECONDS) < periodEnd w nowMs + 1000 \<and>
    counterTtl w nowMs \<le> 32 * 86400"
proof -
  let ?d = "day_at nowMs" and ?x = "periodEnd w nowMs - nowMs"
  have "ms_per_day * ?d \<le> nowMs" by (simp add: day_at_def ms_per_day_def)
  moreover have "periodEnd w nowMs \<le> ms_per_day * (?d + 31)"
    using period_length [of w ?d] by (simp add: periodEnd_alt [OF assms] ms_per_day_def)
  ultimately have "?x \<le> 31 * 86400000" by (simp add: ms_per_day_def)
  moreover have "?x \<le> 1000 * (- ((- ?x) div 1000))" "1000 * (- ((- ?x) div 1000)) < ?x + 1000" by linarith+
  ultimately show ?thesis by (simp add: counterTtl_def GRACE_SECONDS_def)
qed

subsection \<open>Encoding\<close>

definition unhex :: "char \<Rightarrow> nat" where
  "unhex c = (let n = of_char c in if n < 58 then n - 48 else n - 55)"

fun decode_bytes :: "string \<Rightarrow> nat list" where
  "decode_bytes (c # a # b # cs) = (if c = CHR ''%'' then (16 * unhex a + unhex b) # decode_bytes cs
     else of_char c # decode_bytes (a # b # cs))"
| "decode_bytes (c # cs) = of_char c # decode_bytes cs"
| "decode_bytes [] = []"

fun decode_utf8 :: "nat list \<Rightarrow> string" where
  "decode_utf8 (a # b # ns) = (if a < 128 then char_of a # decode_utf8 (b # ns)
     else char_of (64 * (a - 192) + (b - 128)) # decode_utf8 ns)"
| "decode_utf8 [a] = [char_of a]"
| "decode_utf8 [] = []"

definition decodeSegment :: "string \<Rightarrow> string" where
  "decodeSegment s = decode_utf8 (decode_bytes s)"

lemma hex_digit_code: "d < 16 \<Longrightarrow> of_char (hex_digit d) = (if d < 10 then 48 + d else 55 + d :: nat)"
  by (simp add: hex_digit_def of_char_of)

lemma unhex_hex [simp]: "d < 16 \<Longrightarrow> unhex (hex_digit d) = d"
  by (simp add: unhex_def hex_digit_code Let_def)

lemma decode_plain: "c \<noteq> CHR ''%'' \<Longrightarrow> decode_bytes (c # cs) = of_char c # decode_bytes cs"
  by (cases "c # cs" rule: decode_bytes.cases) auto

lemma decode_encode_byte: "n < 256 \<Longrightarrow> decode_bytes (encode_byte n @ cs) = n # decode_bytes cs"
proof (cases "safe_byte n")
  case True
  assume "n < 256"
  then have n: "of_char (char_of n :: char) = n" by (simp add: of_char_of)
  have "of_char (CHR ''%'') = (37::nat)" by simp
  moreover have "n \<noteq> 37" using True by (auto simp: safe_byte_def)
  ultimately have "char_of n \<noteq> CHR ''%''" using n by metis
  with True n show ?thesis by (simp add: encode_byte_def decode_plain)
next
  case False
  assume "n < 256"
  then have "n div 16 < 16" "n mod 16 < 16" by simp_all
  with False show ?thesis by (simp add: encode_byte_def)
qed

lemma decode_encode_bytes:
  "list_all (\<lambda>n. n < 256) ns \<Longrightarrow> decode_bytes (concat (map encode_byte ns)) = ns"
  by (induction ns) (auto simp: decode_encode_byte)

lemma utf8_bytes: "list_all (\<lambda>n. n < 256) (concat (map utf8 v))"
proof (induction v)
  case (Cons c v)
  have "of_char c div 64 < (64::nat)" using nat_of_char_less_256 [of c] by linarith
  with Cons show ?case by (auto simp: utf8_def Let_def)
qed simp

lemma decode_utf8_plain: "a < 128 \<Longrightarrow> decode_utf8 (a # ns) = char_of a # decode_utf8 ns"
  by (cases ns) auto

lemma decode_utf8_utf8: "decode_utf8 (concat (map utf8 v)) = v"
proof (induction v)
  case (Cons c v)
  let ?n = "of_char c :: nat"
  have c: "char_of ?n = c" by simp
  have n: "?n < 256" by (rule nat_of_char_less_256)
  show ?case
  proof (cases "?n < 128")
    case True
    with Cons show ?thesis by (simp add: utf8_def decode_utf8_plain)
  next
    case False
    have "64 * (?n div 64) + ?n mod 64 = ?n" by simp
    with False Cons show ?thesis by (simp add: utf8_def Let_def)
  qed
qed simp

definition key_char :: "char \<Rightarrow> bool" where
  "key_char c \<longleftrightarrow> safe_byte (of_char c) \<or> c = CHR ''%''"

lemma encode_byte_chars: "n < 256 \<Longrightarrow> list_all key_char (encode_byte n)"
proof (cases "safe_byte n")
  case False
  assume "n < 256"
  then have "n div 16 < 16" "n mod 16 < 16" by simp_all
  with False show ?thesis by (auto simp: encode_byte_def key_char_def hex_digit_code safe_byte_def)
qed (simp add: encode_byte_def key_char_def of_char_of)

lemma encodeSegment_chars: "list_all key_char (encodeSegment v)"
  using utf8_bytes [of v] encode_byte_chars by (auto simp: encodeSegment_def list_all_iff)

lemma encodeSegment_no: "\<not> key_char c \<Longrightarrow> c \<notin> set (encodeSegment v)"
  using encodeSegment_chars [of v] by (auto simp: list_all_iff)

lemma not_key_char [simp]: "\<not> key_char (CHR '':'')" "\<not> key_char (CHR ''{'')" "\<not> key_char (CHR ''}'')"
  by (simp_all add: key_char_def safe_byte_def)

text \<open>Segment encoding is reversible, so distinct namespaces or subjects never share a segment, and it
  produces only unreserved characters and percent signs (never the separator or a brace).\<close>

lemma encodeSegment_roundtrip:
  "decodeSegment (encodeSegment v) = v \<and> set (encodeSegment v) \<inter> {CHR '':'', CHR ''{'', CHR ''}''} = {}"
proof -
  have "decodeSegment (encodeSegment v) = v"
    by (simp add: decodeSegment_def encodeSegment_def decode_encode_bytes [OF utf8_bytes] decode_utf8_utf8)
  then show ?thesis by (simp add: encodeSegment_no)
qed

text \<open>Two counters share a key only when they are the same counter.\<close>

lemma text_inj [simp]:
  "window_text a = window_text b \<longleftrightarrow> a = b" "scope_text c = scope_text d \<longleftrightarrow> c = d"
  by (cases a; cases b; simp) (cases c; cases d; simp)

lemma text_no_sep: "CHR '':'' \<notin> set (window_text a)" "CHR '':'' \<notin> set (scope_text c)"
  by (cases a; simp) (cases c; simp)

lemma text_no_brace: "CHR ''{'' \<notin> set (window_text a)" "CHR ''{'' \<notin> set (scope_text c)"
  by (cases a; simp) (cases c; simp)

lemma encodeSegment_inj: "encodeSegment a = encodeSegment b \<longleftrightarrow> a = b"
proof -
  have "decode_utf8 (decode_bytes (encodeSegment v)) = v" for v
    by (simp add: encodeSegment_def decode_encode_bytes [OF utf8_bytes] decode_utf8_utf8)
  then show ?thesis by metis
qed

lemma sep_append: "a @ '':'' @ x = b @ '':'' @ y \<Longrightarrow> CHR '':'' \<notin> set a \<Longrightarrow> CHR '':'' \<notin> set b \<Longrightarrow> a = b \<and> x = y"
  using append_sep_inj [of a "CHR '':''" x b y] by simp

text \<open>Counter keys are injective: a budget's namespace, scope, subject, window and period can all be
  read back from its key, whatever characters the namespace and the subject hold, so two budgets never
  count into the same key; and a reservation set's key is never a counter key.\<close>

lemma counterKey_injective:
  "(counterKey n sc su w p = counterKey n' sc' su' w' p' \<longleftrightarrow>
     n = n' \<and> sc = sc' \<and> su = su' \<and> w = w' \<and> p = p') \<and>
   reservationsKey (counterKey n sc su w p) \<noteq> counterKey n' sc' su' w' p'"
proof
  have no: "CHR '':'' \<notin> set (encodeSegment v)" for v by (simp add: encodeSegment_no)
  show "counterKey n sc su w p = counterKey n' sc' su' w' p' \<longleftrightarrow>
     n = n' \<and> sc = sc' \<and> su = su' \<and> w = w' \<and> p = p'"
  proof
    assume "counterKey n sc su w p = counterKey n' sc' su' w' p'"
    then have 0: "encodeSegment n @ '':'' @ (scope_text sc @ '':'' @ (encodeSegment su @ '':'' @ (window_text w @ '':'' @ p))) =
      encodeSegment n' @ '':'' @ (scope_text sc' @ '':'' @ (encodeSegment su' @ '':'' @ (window_text w' @ '':'' @ p')))"
      by (simp add: counterKey_def)
    note 1 = sep_append [OF 0 no no]
    note 2 = sep_append [OF conjunct2 [OF 1] text_no_sep(2) text_no_sep(2)]
    note 3 = sep_append [OF conjunct2 [OF 2] no no]
    note 4 = sep_append [OF conjunct2 [OF 3] text_no_sep(1) text_no_sep(1)]
    from 1 2 3 4 show "n = n' \<and> sc = sc' \<and> su = su' \<and> w = w' \<and> p = p'"
      by (simp add: encodeSegment_inj)
  qed simp
  show "reservationsKey (counterKey n sc su w p) \<noteq> counterKey n' sc' su' w' p'"
    by (simp add: reservationsKey_def counterKey_def KEY_PREFIX_def)
qed

end
