(* ===== verification/Budget_Store.thy ===== *)
theory Budget_Store
  imports Prelude
begin

text \<open>
  Budget stores (\<open>gateway/src/middlewares/psBudget/store.ts\<close>): the interface \<open>BudgetStore\<close> as the
  locale \<open>budget_store\<close>, and \<open>MemoryBudgetStore\<close>, which interprets it.

  Amounts of money are JavaScript numbers: the estimate of a call is not checked before it is reserved, so
  a reservation may hold an infinite amount or \<open>NaN\<close>. Times are exact rationals. \<open>clk\<close> is the value of the store's own clock, by which counters expire, and \<open>nowMs\<close> the
  caller's time, by which reservations expire; a read drops what has expired, so it changes the state.

  The client of the interface is a trace of operations on the counters of one block budget by racing
  calls: within the locale, while every amount is finite and no estimate is negative, spend plus reservations
  exceeds the limit by at most one call's estimate and what calls cost beyond their reservations.
\<close>

record budget_usage =
  bu_spent :: jsnum
  bu_reserved :: jsnum

record reserve_args =
  ra_key :: string
  ra_id :: string
  ra_amount :: jsnum
  ra_nowMs :: rat
  ra_ttlMs :: rat
  ra_limit :: "rat option"

record reserve_result =
  rr_ok :: bool
  rr_spent :: jsnum
  rr_reserved :: jsnum

subsection \<open>The in-memory store\<close>

record counter =
  ct_spent :: jsnum
  ct_expiresAt :: rat

record reservation =
  rs_amount :: jsnum
  rs_expiresAt :: rat

record memory_store =
  mb_counters :: "(string, counter) jmap"
  mb_reservations :: "(string, (string, reservation) jmap) jmap"

definition mb_init :: memory_store where
  "mb_init = \<lparr>mb_counters = [], mb_reservations = []\<rparr>"

text \<open>The loop of \<open>usage\<close> over one key's reservations: expired ones are deleted, the others summed.\<close>

fun reserved_loop :: "rat \<Rightarrow> jsnum \<Rightarrow> (string, reservation) jmap \<Rightarrow> jsnum \<times> (string, reservation) jmap" where
  "reserved_loop nowMs acc [] = (acc, [])"
| "reserved_loop nowMs acc ((rid, r) # rest) =
    (if rs_expiresAt r \<le> nowMs then reserved_loop nowMs acc rest
     else let (s, rest') = reserved_loop nowMs (js_add acc (rs_amount r)) rest in (s, (rid, r) # rest'))"

definition mb_usage :: "rat \<Rightarrow> string \<Rightarrow> rat \<Rightarrow> memory_store \<Rightarrow> budget_usage \<times> memory_store" where
  "mb_usage clk key nowMs st =
    (let cs = (case jm_get (mb_counters st) key of
                 Some c \<Rightarrow> if ct_expiresAt c \<le> clk then jm_del key (mb_counters st) else mb_counters st
               | None \<Rightarrow> mb_counters st);
         (reserved, rs) = (case jm_get (mb_reservations st) key of
                 Some res \<Rightarrow> let (s, res') = reserved_loop nowMs (Fin 0) res
                             in (s, jm_set key res' (mb_reservations st))
               | None \<Rightarrow> (Fin 0, mb_reservations st));
         st' = st\<lparr>mb_counters := cs, mb_reservations := rs\<rparr>
     in (\<lparr>bu_spent = (case jm_get cs key of Some c \<Rightarrow> ct_spent c | None \<Rightarrow> Fin 0), bu_reserved = reserved\<rparr>, st'))"

fun mb_read :: "rat \<Rightarrow> string list \<Rightarrow> rat \<Rightarrow> memory_store \<Rightarrow> budget_usage list \<times> memory_store" where
  "mb_read clk [] nowMs st = ([], st)"
| "mb_read clk (k # ks) nowMs st =
    (let (u, st1) = mb_usage clk k nowMs st; (us, st2) = mb_read clk ks nowMs st1 in (u # us, st2))"

definition mb_reserve :: "rat \<Rightarrow> reserve_args \<Rightarrow> memory_store \<Rightarrow> reserve_result \<times> memory_store" where
  "mb_reserve clk a st =
    (let (u, st1) = mb_usage clk (ra_key a) (ra_nowMs a) st;
         refuse = (case ra_limit a of None \<Rightarrow> False | Some l \<Rightarrow> js_ge (js_add (bu_spent u) (bu_reserved u)) (Fin l))
     in if refuse then (\<lparr>rr_ok = False, rr_spent = bu_spent u, rr_reserved = bu_reserved u\<rparr>, st1)
        else let res = (case jm_get (mb_reservations st1) (ra_key a) of None \<Rightarrow> [] | Some m \<Rightarrow> m);
                 res' = jm_set (ra_id a) \<lparr>rs_amount = ra_amount a, rs_expiresAt = ra_nowMs a + ra_ttlMs a\<rparr> res
             in (\<lparr>rr_ok = True, rr_spent = bu_spent u, rr_reserved = bu_reserved u\<rparr>,
                 st1\<lparr>mb_reservations := jm_set (ra_key a) res' (mb_reservations st1)\<rparr>))"

text \<open>The first part of \<open>settle\<close>: the reservation goes, and its map when it is empty.\<close>

definition mb_drop :: "string \<Rightarrow> string \<Rightarrow> memory_store \<Rightarrow> memory_store" where
  "mb_drop key rid st =
    (case jm_get (mb_reservations st) key of None \<Rightarrow> st
     | Some res \<Rightarrow>
        (let res' = jm_del rid res in
         st\<lparr>mb_reservations := (if res' = [] then jm_del key (mb_reservations st)
                                else jm_set key res' (mb_reservations st))\<rparr>))"

definition mb_settle ::
  "rat \<Rightarrow> string \<Rightarrow> string \<Rightarrow> jsnum \<Rightarrow> jsnum \<Rightarrow> rat \<Rightarrow> memory_store \<Rightarrow> memory_store" where
  "mb_settle clk key rid amount actual ttlSeconds st =
    (let st1 = mb_drop key rid st in
     if \<not> js_gt actual (Fin 0) then st1
     else let st2 = snd (mb_usage clk key 0 st1) in
          case jm_get (mb_counters st2) key of
            Some c \<Rightarrow> st2\<lparr>mb_counters := jm_set key (c\<lparr>ct_spent := js_add (ct_spent c) actual\<rparr>) (mb_counters st2)\<rparr>
          | None \<Rightarrow> st2\<lparr>mb_counters := jm_set key
                         \<lparr>ct_spent = actual, ct_expiresAt = clk + ttlSeconds * 1000\<rparr> (mb_counters st2)\<rparr>)"

subsection \<open>The interface\<close>

text \<open>
  What a store promises while it is good (every amount in it finite and not negative), through two views of
  its state: the settled spend of a key at a time, and the amount a reservation holds there (with their sum).
  Time only lets things expire; an operation on one key leaves the others alone; a limit refuses exactly when
  spend plus reservations has reached it.
\<close>

locale budget_store =
  fixes reserve :: "rat \<Rightarrow> reserve_args \<Rightarrow> 's \<Rightarrow> reserve_result \<times> 's"
    and settle :: "rat \<Rightarrow> string \<Rightarrow> string \<Rightarrow> jsnum \<Rightarrow> jsnum \<Rightarrow> rat \<Rightarrow> 's \<Rightarrow> 's"
    and good :: "'s \<Rightarrow> bool"
    and spent_at :: "'s \<Rightarrow> rat \<Rightarrow> string \<Rightarrow> rat"
    and held_at :: "'s \<Rightarrow> rat \<Rightarrow> string \<Rightarrow> string \<Rightarrow> rat option"
    and reserved_at :: "'s \<Rightarrow> rat \<Rightarrow> string \<Rightarrow> rat"
  assumes spent_expires: "good s \<Longrightarrow> t \<le> u \<Longrightarrow> spent_at s u k \<le> spent_at s t k"
    and reserved_expires: "good s \<Longrightarrow> t \<le> u \<Longrightarrow> reserved_at s u k \<le> reserved_at s t k"
    and held_nonneg: "good s \<Longrightarrow> held_at s t k i = Some x \<Longrightarrow> 0 \<le> x"
    and reserve_good: "good s \<Longrightarrow> ra_amount a = Fin x \<Longrightarrow> 0 \<le> x \<Longrightarrow> good (snd (reserve t a s))"
    and settle_good: "good s \<Longrightarrow> good (settle t k i amt (Fin act) ttl s)"
    and reserve_ok: "good s \<Longrightarrow> ra_nowMs a = t \<Longrightarrow> rr_ok (fst (reserve t a s)) \<longleftrightarrow>
      (case ra_limit a of None \<Rightarrow> True | Some l \<Rightarrow> spent_at s t (ra_key a) + reserved_at s t (ra_key a) < l)"
    and reserve_spent: "good s \<Longrightarrow> ra_nowMs a = t \<Longrightarrow> spent_at (snd (reserve t a s)) t k = spent_at s t k"
    and reserve_reserved: "good s \<Longrightarrow> ra_amount a = Fin x \<Longrightarrow> ra_nowMs a = t \<Longrightarrow> 0 < ra_ttlMs a \<Longrightarrow>
      held_at s t (ra_key a) (ra_id a) = None \<Longrightarrow>
      reserved_at (snd (reserve t a s)) t k =
        reserved_at s t k + (if rr_ok (fst (reserve t a s)) \<and> k = ra_key a then x else 0)"
    and settle_spent: "good s \<Longrightarrow> 0 < ttl \<Longrightarrow> spent_at (settle t k i amt (Fin act) ttl s) t k' =
      spent_at s t k' + (if k' = k \<and> 0 < act then act else 0)"
    and settle_reserved: "good s \<Longrightarrow> 0 \<le> t \<Longrightarrow> reserved_at (settle t k i amt (Fin act) ttl s) t k' =
      reserved_at s t k' - (case held_at s t k i of Some a \<Rightarrow> if k' = k then a else 0 | None \<Rightarrow> 0)"
begin

text \<open>Racing calls on one counter: each reserves under the limit before it runs and settles what it
  cost. \<open>Reserve\<close> and \<open>Settle\<close> carry the time at which they run.\<close>

definition step :: "rat \<Rightarrow> string \<Rightarrow> rat \<times> (reserve_args + string \<times> jsnum \<times> rat \<times> rat) \<Rightarrow> 's \<Rightarrow> 's" where
  "step limit key e s = (case snd e of
      Inl a \<Rightarrow> snd (reserve (fst e) a s)
    | Inr (i, amt, act, ttl) \<Rightarrow> settle (fst e) key i amt (Fin act) ttl s)"

text \<open>A call reserves a finite amount of at most \<open>A\<close>, not negative, under a fresh id and the budget's limit.
  What it settles is finite, and may be more than it reserved or come after its reservation lapsed.\<close>

definition fair :: "rat \<Rightarrow> rat \<Rightarrow> string \<Rightarrow> rat \<times> (reserve_args + string \<times> jsnum \<times> rat \<times> rat) \<Rightarrow> 's \<Rightarrow> bool" where
  "fair A limit key e s \<longleftrightarrow> 0 \<le> fst e \<and> (case snd e of
      Inl a \<Rightarrow> ra_key a = key \<and> ra_limit a = Some limit \<and> ra_nowMs a = fst e \<and> 0 < ra_ttlMs a \<and>
        (case ra_amount a of Fin x \<Rightarrow> 0 \<le> x \<and> x \<le> A | _ \<Rightarrow> False) \<and> held_at s (fst e) key (ra_id a) = None
    | Inr (i, amt, act, ttl) \<Rightarrow> 0 < ttl)"

fun trace_ok :: "rat \<Rightarrow> rat \<Rightarrow> string \<Rightarrow> rat \<Rightarrow> (rat \<times> (reserve_args + string \<times> jsnum \<times> rat \<times> rat)) list \<Rightarrow> 's \<Rightarrow> bool" where
  "trace_ok A limit key t [] s \<longleftrightarrow> True"
| "trace_ok A limit key t (e # es) s \<longleftrightarrow>
     t \<le> fst e \<and> fair A limit key e s \<and> trace_ok A limit key (fst e) es (step limit key e s)"

text \<open>What a settlement costs beyond what its reservation still holds, and the sum of it over a trace.\<close>

definition overrun :: "string \<Rightarrow> rat \<times> (reserve_args + string \<times> jsnum \<times> rat \<times> rat) \<Rightarrow> 's \<Rightarrow> rat" where
  "overrun key e s = (case snd e of
      Inl a \<Rightarrow> 0
    | Inr (i, amt, act, ttl) \<Rightarrow>
        max 0 (act - (case held_at s (fst e) key i of Some x \<Rightarrow> x | None \<Rightarrow> 0)))"

fun overruns :: "rat \<Rightarrow> string \<Rightarrow> (rat \<times> (reserve_args + string \<times> jsnum \<times> rat \<times> rat)) list \<Rightarrow> 's \<Rightarrow> rat" where
  "overruns limit key [] s = 0"
| "overruns limit key (e # es) s = overrun key e s + overruns limit key es (step limit key e s)"

definition capped :: "rat \<Rightarrow> string \<Rightarrow> rat \<Rightarrow> 's \<Rightarrow> bool" where
  "capped B key t s \<longleftrightarrow> good s \<and> spent_at s t key + reserved_at s t key \<le> B"

lemma capped_later: "capped B key t s \<Longrightarrow> t \<le> u \<Longrightarrow> capped B key u s"
  unfolding capped_def by (smt (verit) add_mono order_trans spent_expires reserved_expires)

lemma step_capped:
  assumes "capped (limit + A + b) key (fst e) s" "0 \<le> b" "fair A limit key e s"
  shows "capped (limit + A + (b + overrun key e s)) key (fst e) (step limit key e s)"
proof (cases "snd e")
  case (Inl a)
  have g: "good s" using assms(1) by (simp add: capped_def)
  from assms(3) Inl obtain x where a: "ra_key a = key" "ra_limit a = Some limit" "ra_nowMs a = fst e" "0 < ra_ttlMs a"
    "ra_amount a = Fin x" "0 \<le> x" "x \<le> A" "held_at s (fst e) (ra_key a) (ra_id a) = None"
    by (auto simp: fair_def split: jsnum.splits)
  show ?thesis
    using assms(1,2) Inl a(2,6,7) reserve_good [OF g a(5,6), of "fst e"] reserve_ok [OF g a(3)] reserve_spent [OF g a(3)]
      reserve_reserved [OF g a(5,3,4,8), of key]
    by (auto simp: capped_def step_def overrun_def a(1))
next
  case (Inr y)
  obtain i amt act ttl where y: "y = (i, amt, act, ttl)" by (cases y)
  have g: "good s" using assms(1) by (simp add: capped_def)
  have f: "0 \<le> fst e" "0 < ttl" using assms(3) Inr y by (simp_all add: fair_def)
  show ?thesis
    using assms(1,2) Inr y settle_good [OF g] settle_spent [OF g f(2), of "fst e" key i amt act key]
      settle_reserved [OF g f(1), of key i amt act ttl key] held_nonneg [OF g, of "fst e" key i]
    by (auto simp: capped_def step_def overrun_def max_def split: option.splits if_splits)
qed

lemma overrun_nonneg: "0 \<le> overrun key e s"
  by (auto simp: overrun_def split: sum.splits prod.splits)

lemma trace_capped:
  "capped (limit + A + b) key t s \<Longrightarrow> 0 \<le> b \<Longrightarrow> trace_ok A limit key t es s \<Longrightarrow> es \<noteq> [] \<Longrightarrow>
   capped (limit + A + (b + overruns limit key es s)) key (fst (last es)) (fold (step limit key) es s)"
proof (induction es arbitrary: t s b)
  case (Cons e es)
  have 1: "capped (limit + A + (b + overrun key e s)) key (fst e) (step limit key e s)"
    using Cons.prems by (intro step_capped) (auto intro: capped_later)
  have 2: "0 \<le> b + overrun key e s" using Cons.prems(2) overrun_nonneg by (rule add_nonneg_nonneg)
  show ?case
  proof (cases "es = []")
    case False
    from Cons.IH [OF 1 2 _ False] Cons.prems(3) False show ?thesis by (simp add: add.assoc)
  qed (use 1 in simp)
qed simp

end

subsection \<open>The in-memory store keeps the contract\<close>

definition live :: "rat \<Rightarrow> (string, reservation) jmap \<Rightarrow> (string, reservation) jmap" where
  "live t res = filter (\<lambda>e. \<not> rs_expiresAt (snd e) \<le> t) res"

text \<open>The views are the amounts of a good store, as rationals.\<close>

fun fin :: "jsnum \<Rightarrow> rat" where
  "fin (Fin x) = x"
| "fin _ = 0"

definition amount_ok :: "jsnum \<Rightarrow> bool" where
  "amount_ok n \<longleftrightarrow> n = Fin (fin n) \<and> 0 \<le> fin n"

definition total :: "(string, reservation) jmap \<Rightarrow> rat" where
  "total res = sum_list (map (fin \<circ> rs_amount \<circ> snd) res)"

definition res_of :: "memory_store \<Rightarrow> string \<Rightarrow> (string, reservation) jmap" where
  "res_of st k = (case jm_get (mb_reservations st) k of None \<Rightarrow> [] | Some res \<Rightarrow> res)"

definition raw_spent :: "memory_store \<Rightarrow> rat \<Rightarrow> string \<Rightarrow> jsnum" where
  "raw_spent st t k = (case jm_get (mb_counters st) k of None \<Rightarrow> Fin 0
     | Some c \<Rightarrow> if ct_expiresAt c \<le> t then Fin 0 else ct_spent c)"

definition raw_reserved :: "memory_store \<Rightarrow> rat \<Rightarrow> string \<Rightarrow> jsnum" where
  "raw_reserved st t k = foldl js_add (Fin 0) (map (rs_amount \<circ> snd) (live t (res_of st k)))"

definition mem_spent :: "memory_store \<Rightarrow> rat \<Rightarrow> string \<Rightarrow> rat" where
  "mem_spent st t k = fin (raw_spent st t k)"

definition mem_held :: "memory_store \<Rightarrow> rat \<Rightarrow> string \<Rightarrow> string \<Rightarrow> rat option" where
  "mem_held st t k i = map_option (fin \<circ> rs_amount) (jm_get (live t (res_of st k)) i)"

definition mem_reserved :: "memory_store \<Rightarrow> rat \<Rightarrow> string \<Rightarrow> rat" where
  "mem_reserved st t k = total (live t (res_of st k))"

definition amounts_ok :: "(string, reservation) jmap \<Rightarrow> bool" where
  "amounts_ok res \<longleftrightarrow> (\<forall>e \<in> set res. amount_ok (rs_amount (snd e)))"

definition mem_good :: "memory_store \<Rightarrow> bool" where
  "mem_good st \<longleftrightarrow> (\<forall>k c. jm_get (mb_counters st) k = Some c \<longrightarrow> amount_ok (ct_spent c)) \<and>
     (\<forall>k. jm_wf (res_of st k) \<and> amounts_ok (res_of st k))"

lemma amount_ok_simps [simp]:
  "amount_ok (Fin x) \<longleftrightarrow> 0 \<le> x" "\<not> amount_ok PosInf" "\<not> amount_ok NegInf" "\<not> amount_ok NaN"
  by (simp_all add: amount_ok_def)

lemma amount_okE: "amount_ok n \<Longrightarrow> (\<And>x. n = Fin x \<Longrightarrow> 0 \<le> x \<Longrightarrow> P) \<Longrightarrow> P"
  by (cases n) auto

lemma reserved_loop_eq:
  "reserved_loop t acc res = (foldl js_add acc (map (rs_amount \<circ> snd) (live t res)), live t res)"
  by (induction t acc res rule: reserved_loop.induct) (auto simp: live_def)

lemma foldl_amounts:
  "amounts_ok res \<Longrightarrow> foldl js_add (Fin a) (map (rs_amount \<circ> snd) res) = Fin (a + total res)"
  by (induction res arbitrary: a) (auto simp: amounts_ok_def total_def elim!: amount_okE)

lemma live_live: "t \<le> u \<Longrightarrow> live u (live t res) = live u res"
  by (auto simp: live_def intro!: filter_cong)

lemma live_simps [simp]:
  "live t [] = []" "total [] = 0"
  by (simp_all add: live_def total_def)

lemma jm_wf_live: "jm_wf res \<Longrightarrow> jm_wf (live t res)"
  by (induction res) (auto simp: live_def jm_wf_def)

lemma amounts_ok_simps [simp]: "amounts_ok []"
  by (simp add: amounts_ok_def)

lemma amounts_ok_live: "amounts_ok res \<Longrightarrow> amounts_ok (live t res)"
  by (auto simp: amounts_ok_def live_def)

lemma amounts_ok_del: "amounts_ok res \<Longrightarrow> amounts_ok (jm_del i res)"
  by (auto simp: amounts_ok_def jm_del_def)

lemma amounts_ok_set: "amounts_ok res \<Longrightarrow> amount_ok (rs_amount r) \<Longrightarrow> amounts_ok (jm_set i r res)"
  by (induction res) (force simp: amounts_ok_def split: if_splits)+

lemma total_live_mono: "t \<le> u \<Longrightarrow> amounts_ok res \<Longrightarrow> total (live u res) \<le> total (live t res)"
  by (induction res) (auto simp: total_def live_def amounts_ok_def elim!: amount_okE)

lemma live_del: "live t (jm_del i res) = jm_del i (live t res)"
  by (auto simp: live_def jm_del_def conj_commute intro!: filter_cong)

lemma total_del:
  "jm_wf res \<Longrightarrow> total (jm_del i res) = total res - (case jm_get res i of None \<Rightarrow> 0 | Some r \<Rightarrow> fin (rs_amount r))"
proof (induction res)
  case (Cons e res)
  obtain j r where e: "e = (j, r)" by (cases e)
  have wf: "jm_wf res" using Cons.prems by (rule jm_wf_ConsD)
  show ?case
  proof (cases "j = i")
    case True
    with Cons.prems e have "i \<notin> fst ` set res" by (auto simp: jm_wf_def)
    with True e show ?thesis using jm_del_fresh [of i res] by (simp add: jm_del_def total_def)
  next
    case False
    with Cons.IH [OF wf] e show ?thesis by (simp add: jm_del_def total_def)
  qed
qed (simp add: jm_del_def)

lemma live_set_new:
  assumes "jm_wf res" "jm_get (live t res) i = None" "t < rs_expiresAt r"
  shows "total (live t (jm_set i r res)) = total (live t res) + fin (rs_amount r)"
  using assms(1,2)
proof (induction res)
  case Nil
  with assms(3) show ?case by (simp add: live_def total_def)
next
  case (Cons e res)
  obtain j q where e: "e = (j, q)" by (cases e)
  have wf: "jm_wf res" using Cons.prems(1) by (rule jm_wf_ConsD)
  show ?case
  proof (cases "j = i")
    case True
    with Cons.prems(2) e have "rs_expiresAt q \<le> t" by (auto simp: live_def split: if_splits)
    with True e assms(3) show ?thesis by (simp add: live_def total_def)
  next
    case False
    with Cons.prems(2) e have "jm_get (live t res) i = None" by (auto simp: live_def split: if_splits)
    with False e Cons.IH [OF wf] show ?thesis by (auto simp: live_def total_def)
  qed
qed

lemma mb_usage_eq:
  "mb_usage clk k nowMs st = (u, st') \<Longrightarrow>
     bu_spent u = raw_spent st clk k \<and> bu_reserved u = raw_reserved st nowMs k \<and>
     res_of st' = (res_of st)(k := live nowMs (res_of st k)) \<and>
     jm_get (mb_counters st') = (case jm_get (mb_counters st) k of
        Some c \<Rightarrow> if ct_expiresAt c \<le> clk then (jm_get (mb_counters st))(k := None) else jm_get (mb_counters st)
      | None \<Rightarrow> jm_get (mb_counters st))"
  by (auto simp: mb_usage_def Let_def reserved_loop_eq raw_spent_def raw_reserved_def res_of_def fun_eq_iff
      split: option.splits if_splits)

lemma raw_good:
  assumes "mem_good st"
  shows "raw_spent st t k = Fin (mem_spent st t k)" "raw_reserved st t k = Fin (mem_reserved st t k)"
    "0 \<le> mem_spent st t k"
proof -
  show "raw_spent st t k = Fin (mem_spent st t k)" "0 \<le> mem_spent st t k"
    using assms by (auto simp: mem_good_def raw_spent_def mem_spent_def amount_ok_def split: option.splits)
  show "raw_reserved st t k = Fin (mem_reserved st t k)"
    using assms foldl_amounts [OF amounts_ok_live, of "res_of st k" 0 t]
    by (simp add: mem_good_def raw_reserved_def mem_reserved_def)
qed

lemma mb_usage_views:
  assumes "mb_usage clk k nowMs st = (u, st')" "mem_good st"
  shows "mem_good st'" "clk \<le> t \<Longrightarrow> mem_spent st' t j = mem_spent st t j"
    "nowMs \<le> t \<Longrightarrow> mem_held st' t j i = mem_held st t j i"
    "nowMs \<le> t \<Longrightarrow> mem_reserved st' t j = mem_reserved st t j"
proof -
  note eq = mb_usage_eq [OF assms(1)]
  show "mem_good st'"
    using assms(2) eq
    by (auto simp: mem_good_def intro: jm_wf_live amounts_ok_live split: option.splits if_splits)
  show "clk \<le> t \<Longrightarrow> mem_spent st' t j = mem_spent st t j"
    using eq by (auto simp: mem_spent_def raw_spent_def split: option.splits if_splits)
  show "nowMs \<le> t \<Longrightarrow> mem_held st' t j i = mem_held st t j i"
    "nowMs \<le> t \<Longrightarrow> mem_reserved st' t j = mem_reserved st t j"
    using eq by (auto simp: mem_held_def mem_reserved_def live_live)
qed

lemma mb_drop_eq:
  "res_of (mb_drop k i st) = (res_of st)(k := jm_del i (res_of st k)) \<and> mb_counters (mb_drop k i st) = mb_counters st"
  by (auto simp: mb_drop_def Let_def res_of_def fun_eq_iff split: option.splits if_splits)
     (simp_all add: jm_del_def)

lemma mb_drop_views:
  assumes "mem_good st"
  shows "mem_good (mb_drop k i st)" "mem_spent (mb_drop k i st) t j = mem_spent st t j"
    "mem_reserved (mb_drop k i st) t j =
       mem_reserved st t j - (case mem_held st t k i of Some a \<Rightarrow> if j = k then a else 0 | None \<Rightarrow> 0)"
proof -
  note eq = mb_drop_eq [of k i st]
  show "mem_good (mb_drop k i st)"
    using assms eq by (auto simp: mem_good_def intro: jm_wf_del amounts_ok_del)
  show "mem_spent (mb_drop k i st) t j = mem_spent st t j" using eq by (simp add: mem_spent_def raw_spent_def)
  have "jm_wf (live t (res_of st k))" using assms by (simp add: mem_good_def jm_wf_live)
  from total_del [OF this, of i] show "mem_reserved (mb_drop k i st) t j =
      mem_reserved st t j - (case mem_held st t k i of Some a \<Rightarrow> if j = k then a else 0 | None \<Rightarrow> 0)"
    using eq by (auto simp: mem_reserved_def mem_held_def live_del split: option.splits)
qed

definition under :: "rat option \<Rightarrow> jsnum \<Rightarrow> bool" where
  "under l x \<longleftrightarrow> (case l of None \<Rightarrow> True | Some m \<Rightarrow> \<not> js_ge x (Fin m))"

lemma mb_reserve_cases:
  assumes "mb_usage t (ra_key a) (ra_nowMs a) st = (u, st1)"
  shows "rr_ok (fst (mb_reserve t a st)) \<longleftrightarrow> under (ra_limit a) (js_add (bu_spent u) (bu_reserved u))"
    "mb_counters (snd (mb_reserve t a st)) = mb_counters st1"
    "res_of (snd (mb_reserve t a st)) = (if rr_ok (fst (mb_reserve t a st))
      then (res_of st1)(ra_key a := jm_set (ra_id a)
             \<lparr>rs_amount = ra_amount a, rs_expiresAt = ra_nowMs a + ra_ttlMs a\<rparr> (res_of st1 (ra_key a)))
      else res_of st1)"
    "rr_spent (fst (mb_reserve t a st)) = bu_spent u" "rr_reserved (fst (mb_reserve t a st)) = bu_reserved u"
  using assms by (auto simp: mb_reserve_def Let_def under_def res_of_def fun_eq_iff split: option.splits)

lemma mem_reserve_laws:
  assumes "mem_good st" "ra_nowMs a = t"
  shows "rr_ok (fst (mb_reserve t a st)) \<longleftrightarrow>
      (case ra_limit a of None \<Rightarrow> True | Some l \<Rightarrow> mem_spent st t (ra_key a) + mem_reserved st t (ra_key a) < l)"
    and "mem_spent (snd (mb_reserve t a st)) t k = mem_spent st t k"
    and "ra_amount a = Fin x \<Longrightarrow> 0 < ra_ttlMs a \<Longrightarrow> mem_held st t (ra_key a) (ra_id a) = None \<Longrightarrow>
      mem_reserved (snd (mb_reserve t a st)) t k =
        mem_reserved st t k + (if rr_ok (fst (mb_reserve t a st)) \<and> k = ra_key a then x else 0)"
proof -
  obtain u st1 where u: "mb_usage t (ra_key a) (ra_nowMs a) st = (u, st1)" by fastforce
  note c = mb_reserve_cases [OF u] and v = mb_usage_views [OF u assms(1)] and eq = mb_usage_eq [OF u]
  show "rr_ok (fst (mb_reserve t a st)) \<longleftrightarrow>
      (case ra_limit a of None \<Rightarrow> True | Some l \<Rightarrow> mem_spent st t (ra_key a) + mem_reserved st t (ra_key a) < l)"
    using c(1) eq assms(2) raw_good [OF assms(1)] by (auto simp: under_def split: option.splits)
  show "mem_spent (snd (mb_reserve t a st)) t k = mem_spent st t k"
    using c(2) v(2) [of t k] assms(2) by (simp add: mem_spent_def raw_spent_def)
  assume x: "ra_amount a = Fin x" and ttl: "0 < ra_ttlMs a" and new: "mem_held st t (ra_key a) (ra_id a) = None"
  have "mem_held st1 t (ra_key a) (ra_id a) = None" using v(3) new assms(2) by simp
  then have none: "jm_get (live t (res_of st1 (ra_key a))) (ra_id a) = None" by (simp add: mem_held_def)
  have wf: "jm_wf (res_of st1 (ra_key a))" using v(1) by (simp add: mem_good_def)
  show "mem_reserved (snd (mb_reserve t a st)) t k =
      mem_reserved st t k + (if rr_ok (fst (mb_reserve t a st)) \<and> k = ra_key a then x else 0)"
    using c(3) v(4) [of t k] assms(2) x ttl live_set_new [OF wf none]
    by (auto simp: mem_reserved_def)
qed

lemma mem_reserve_good:
  assumes "mem_good st" "ra_amount a = Fin x" "0 \<le> x"
  shows "mem_good (snd (mb_reserve t a st))"
proof -
  obtain u st1 where u: "mb_usage t (ra_key a) (ra_nowMs a) st = (u, st1)" by fastforce
  from mb_reserve_cases [OF u] mb_usage_views(1) [OF u assms(1)] assms(2,3) show ?thesis
    by (auto simp: mem_good_def intro!: jm_wf_set amounts_ok_set)
qed

lemma mb_settle_views:
  assumes "mem_good st"
  shows "mem_good (mb_settle t k i amt (Fin act) ttl st)"
    "0 < ttl \<Longrightarrow> mem_spent (mb_settle t k i amt (Fin act) ttl st) t j =
       mem_spent st t j + (if j = k \<and> 0 < act then act else 0)"
    "0 \<le> t \<Longrightarrow> mem_reserved (mb_settle t k i amt (Fin act) ttl st) t j = mem_reserved (mb_drop k i st) t j"
proof -
  let ?st1 = "mb_drop k i st"
  obtain u st2 where u: "mb_usage t k 0 ?st1 = (u, st2)" by fastforce
  note d = mb_drop_views [OF assms, of k i]
  note v = mb_usage_views [OF u d(1)] and eq = mb_usage_eq [OF u]
  have set: "mb_settle t k i amt (Fin act) ttl st = (if \<not> 0 < act then ?st1 else
      st2\<lparr>mb_counters := jm_set k (case jm_get (mb_counters st2) k of
          Some c \<Rightarrow> c\<lparr>ct_spent := js_add (ct_spent c) (Fin act)\<rparr>
        | None \<Rightarrow> \<lparr>ct_spent = Fin act, ct_expiresAt = t + ttl * 1000\<rparr>) (mb_counters st2)\<rparr>)"
    using u by (simp add: mb_settle_def Let_def split: option.splits)
  have r: "res_of (st2\<lparr>mb_counters := m\<rparr>) = res_of st2" for m by (simp add: res_of_def fun_eq_iff)
  have ok: "amount_ok (ct_spent c)" if "jm_get (mb_counters st2) k' = Some c" for k' c
    using v(1) that by (auto simp: mem_good_def)
  have add: "amount_ok n \<Longrightarrow> 0 < act \<Longrightarrow> amount_ok (js_add n (Fin act)) \<and> fin (js_add n (Fin act)) = fin n + act" for n
    by (auto elim!: amount_okE)
  show "mem_good (mb_settle t k i amt (Fin act) ttl st)"
    using d(1) v(1) ok add by (auto simp: set mem_good_def r split: option.splits)
  show "mem_reserved (mb_settle t k i amt (Fin act) ttl st) t j = mem_reserved ?st1 t j" if "0 \<le> t"
    using v(4) [OF that, of j] by (simp add: set mem_reserved_def r)
  have alive: "\<not> ct_expiresAt c \<le> t" if "jm_get (mb_counters st2) k = Some c" for c
    using eq that by (auto split: option.splits if_splits)
  show "mem_spent (mb_settle t k i amt (Fin act) ttl st) t j = mem_spent st t j + (if j = k \<and> 0 < act then act else 0)"
    if "0 < ttl"
    using v(2) [of t j] d(2) [of t j] alive that ok add
    by (auto simp: set mem_spent_def raw_spent_def split: option.splits if_splits)
qed

interpretation mem: budget_store mb_reserve mb_settle mem_good mem_spent mem_held mem_reserved
proof
  show "mem_spent s u k \<le> mem_spent s t k" if "mem_good s" "t \<le> u" for s t u k
    using that raw_good(3) [OF that(1), of t k] by (auto simp: mem_spent_def raw_spent_def split: option.splits)
  show "mem_reserved s u k \<le> mem_reserved s t k" if "mem_good s" "t \<le> u" for s t u k
    using that total_live_mono by (auto simp: mem_reserved_def mem_good_def)
  show "0 \<le> x" if "mem_good s" "mem_held s t k i = Some x" for s t k i x
    using that by (force simp: mem_held_def mem_good_def amounts_ok_def live_def amount_ok_def dest: jm_get_Some_in)
  show "mem_reserved (mb_settle t k i amt (Fin act) ttl s) t k' =
      mem_reserved s t k' - (case mem_held s t k i of Some a \<Rightarrow> if k' = k then a else 0 | None \<Rightarrow> 0)"
    if "mem_good s" "0 \<le> t" for s t k i amt act ttl k'
    using mb_settle_views(3) [OF that] mb_drop_views(3) [OF that(1)] by simp
qed (rule mem_reserve_good mem_reserve_laws mb_settle_views(1,2); assumption)+

lemma mem_good_init: "mem_good mb_init"
  by (simp add: mem_good_def mb_init_def res_of_def)

text \<open>A reservation that holds \<open>NaN\<close> (the code reserves the estimate of a call as it is) lifts the limit of its
  key for as long as it lives: the sum is \<open>NaN\<close>, which is never at or above a limit.\<close>

lemma foldl_add_NaN: "foldl js_add NaN ns = NaN"
  by (induction ns) simp_all

lemma js_add_NaN [simp]: "js_add n NaN = NaN"
  by (cases n) simp_all

lemma foldl_NaN: "NaN \<in> set ns \<Longrightarrow> foldl js_add n ns = NaN"
  by (induction ns arbitrary: n) (auto simp: foldl_add_NaN)

lemma nan_reservation_admits:
  assumes "jm_get (live (ra_nowMs a) (res_of st (ra_key a))) i = Some r" "rs_amount r = NaN"
  shows "rr_ok (fst (mb_reserve t a st))"
proof -
  obtain u st1 where u: "mb_usage t (ra_key a) (ra_nowMs a) st = (u, st1)" by fastforce
  from assms have "NaN \<in> set (map (rs_amount \<circ> snd) (live (ra_nowMs a) (res_of st (ra_key a))))"
    by (force dest: jm_get_Some_in)
  with mb_usage_eq [OF u] have "bu_reserved u = NaN" by (simp add: raw_reserved_def foldl_NaN)
  with mb_reserve_cases(1) [OF u] show ?thesis by (simp add: under_def split: option.splits)
qed

text \<open>C5. Racing calls cannot overspend a block budget beyond one call's estimate and the errors of their
  estimates: take any interleaving, over time, of reservations under the budget's limit and settlements on the
  in-memory store, in which each reservation is made under an id not in use and holds a finite amount between
  0 and \<open>A\<close>, and each settled cost is finite. The counter plus the live reservations is then a finite number
  of at most the limit plus \<open>A\<close> plus the overruns: what calls cost beyond what they still held when they
  settled (all of it, for a reservation that had lapsed). Without the bounds on the reserved amounts the
  claim fails: the code reserves an estimate that is negative, infinite or \<open>NaN\<close> as it is.\<close>

theorem budget_not_overspent:
  assumes "mem.trace_ok A limit key 0 es mb_init" "0 \<le> limit" "0 \<le> A" "es \<noteq> []"
    "fold (mem.step limit key) es mb_init = st" "fst (last es) = t"
  shows "\<exists>x. js_add (raw_spent st t key) (raw_reserved st t key) = Fin x \<and>
    x \<le> limit + A + mem.overruns limit key es mb_init"
proof -
  have "mem.capped (limit + A + 0) key 0 mb_init"
    using assms(2,3) mem_good_init
    by (simp add: mem.capped_def mem_spent_def raw_spent_def mem_reserved_def mb_init_def res_of_def)
  from mem.trace_capped [OF this _ assms(1,4)] assms(5,6) raw_good [of st] show ?thesis
    by (simp add: mem.capped_def)
qed

text \<open>Two calls race for a budget of 1; the second is let in at 0.9 and both settle, the second for 0.1 more
  than it reserved.\<close>

definition sample_trace :: "(rat \<times> (reserve_args + string \<times> jsnum \<times> rat \<times> rat)) list" where
  "sample_trace =
    (let r = (\<lambda>t i a. (t, Inl \<lparr>ra_key = ''k'', ra_id = i, ra_amount = Fin a, ra_nowMs = t, ra_ttlMs = 900,
                            ra_limit = Some 1\<rparr>))
     in [r 1 ''a'' (9/10), r 2 ''b'' (9/10), r 3 ''c'' (9/10),
         (4, Inr (''b'', Fin (9/10), 1, 86400)), (5, Inr (''a'', Fin (9/10), 1/2, 86400))])"

theorem budget_not_overspent_witness:
  "raw_spent (fold (mem.step 1 ''k'') sample_trace mb_init) 5 ''k'' = Fin (3/2) \<and>
   (\<exists>x. js_add (raw_spent (fold (mem.step 1 ''k'') sample_trace mb_init) 5 ''k'')
     (raw_reserved (fold (mem.step 1 ''k'') sample_trace mb_init) 5 ''k'') = Fin x \<and> x \<le> 2)"
proof -
  note defs = sample_trace_def Let_def mem.step_def mem.fair_def mb_reserve_def mb_usage_def mb_init_def
    mem_held_def res_of_def live_def mb_settle_def mb_drop_def jm_del_def
  have "mem.trace_ok (9/10) 1 ''k'' 0 sample_trace mb_init" by (simp add: defs)
  moreover have "fst (last sample_trace) = 5" "sample_trace \<noteq> []" by (simp_all add: sample_trace_def Let_def)
  moreover have "raw_spent (fold (mem.step 1 ''k'') sample_trace mb_init) 5 ''k'' = Fin (3/2)"
    by (simp add: defs raw_spent_def)
  moreover have "1 + 9/10 + mem.overruns 1 ''k'' sample_trace mb_init = 2"
    by (simp add: defs mem.overrun_def)
  ultimately show ?thesis using budget_not_overspent [of "9/10" 1 "''k''" sample_trace _ 5] by simp
qed

text \<open>A reservation is refused exactly when the counter plus the live reservations has reached the
  limit; a refused one reserves nothing and a granted one holds its amount, and neither changes what any
  counter has spent or any other key's reservations.\<close>

lemma reserve_exact:
  assumes "mem_good st" "ra_amount a = Fin x" "ra_nowMs a = t" "0 < ra_ttlMs a" "mem_held st t (ra_key a) (ra_id a) = None"
  shows "let (r, st') = mb_reserve t a st; full = mem_spent st t (ra_key a) + mem_reserved st t (ra_key a) in
    rr_ok r = (case ra_limit a of None \<Rightarrow> True | Some l \<Rightarrow> full < l) \<and> js_add (rr_spent r) (rr_reserved r) = Fin full \<and>
    (\<forall>k. mem_spent st' t k = mem_spent st t k \<and>
         mem_reserved st' t k = mem_reserved st t k + (if rr_ok r \<and> k = ra_key a then x else 0))"
proof -
  obtain u st1 where u: "mb_usage t (ra_key a) (ra_nowMs a) st = (u, st1)" by fastforce
  from mb_reserve_cases(4,5) [OF u] mb_usage_eq [OF u] mem_reserve_laws [OF assms(1,3)] assms(2-5) raw_good [OF assms(1)]
  show ?thesis by (simp add: Let_def case_prod_beta)
qed

end
