(* ===== verification/Budget_Config.thy ===== *)
theory Budget_Config
  imports Budget_Keys
begin

text \<open>
  Budget configuration (\<open>gateway/src/middlewares/psBudget/config.ts\<close>): validation of a
  \<open>budget.v1\<close> document. Every \<open>fail\<close> of the code is a constructor of \<open>config_error\<close>, and the checks
  run in its order.
\<close>

datatype budget_mode = Warn | Downgrade | Block
datatype store_error_mode = Open_on_error | Closed_on_error

record budget =
  bg_id :: string
  bg_scope :: budget_scope
  bg_subject :: "string option"
  bg_window :: budget_window
  bg_limitUsd :: rat
  bg_mode :: budget_mode
  bg_warnAt :: rat

record budget_config =
  bc_namespace :: string
  bc_onStoreError :: store_error_mode
  bc_budgets :: "budget list"

datatype config_error =
    Expected_object
  | Bad_schema_version
  | Unknown_field string
  | Bad_namespace
  | Bad_on_store_error
  | Budgets_not_array
  | Budget_not_object
  | Bad_budget_id
  | Unknown_budget_field string string
  | Duplicate_id string
  | Bad_scope string
  | Global_has_subject string
  | Needs_subject string
  | Bad_window string
  | Bad_limit string
  | Bad_mode string
  | Bad_warn_at string
  | Downgrade_model_mode string
  | Bad_downgrade_model string
  | Not_json
  | Bad_namespace_override

fun mode_text :: "budget_mode \<Rightarrow> string" where
  "mode_text Warn = ''warn''"
| "mode_text Downgrade = ''downgrade''"
| "mode_text Block = ''block''"

fun store_error_text :: "store_error_mode \<Rightarrow> string" where
  "store_error_text Open_on_error = ''open''"
| "store_error_text Closed_on_error = ''closed''"

definition SCOPES :: "budget_scope list" where
  "SCOPES = [Global, Business_unit, Use_case, Owner]"

definition WINDOWS :: "budget_window list" where
  "WINDOWS = [Day, Week, Month]"

definition MODES :: "budget_mode list" where
  "MODES = [Warn, Downgrade, Block]"

text \<open>\<open>/^[a-z0-9][a-z0-9._-]*$/\<close>\<close>

definition token_start :: "char \<Rightarrow> bool" where
  "token_start c \<longleftrightarrow> (let n = of_char c :: nat in (97 \<le> n \<and> n \<le> 122) \<or> (48 \<le> n \<and> n \<le> 57))"

definition token_char :: "char \<Rightarrow> bool" where
  "token_char c \<longleftrightarrow> token_start c \<or> c \<in> {CHR ''.'', CHR ''_'', CHR ''-''}"

definition TOKEN_RE :: "string \<Rightarrow> bool" where
  "TOKEN_RE s \<longleftrightarrow> (case s of [] \<Rightarrow> False | c # cs \<Rightarrow> token_start c \<and> list_all token_char cs)"

definition BUDGET_FIELDS :: "string list" where
  "BUDGET_FIELDS = [''id'', ''scope'', ''subject'', ''window'', ''limit_usd'', ''mode'', ''warn_at'', ''downgrade_model'']"

definition CONFIG_FIELDS :: "string list" where
  "CONFIG_FIELDS = [''$schema'', ''schema_version'', ''namespace'', ''on_store_error'', ''budgets'']"

fun finite_num :: "json \<Rightarrow> rat option" where
  "finite_num (JNum (Fin q)) = Some q"
| "finite_num _ = None"

text \<open>\<open>subject\<close>: absent for a global budget, a non-empty string otherwise.\<close>

definition check_subject :: "string \<Rightarrow> budget_scope \<Rightarrow> json option \<Rightarrow> config_error + string option" where
  "check_subject bid scope subject =
    (if scope = Global then (if subject \<noteq> None then Inl (Global_has_subject bid) else Inr None)
     else case subject of
       Some (JStr s) \<Rightarrow> if s = [] then Inl (Needs_subject bid) else Inr (Some s)
     | _ \<Rightarrow> Inl (Needs_subject bid))"

definition check_downgrade :: "string \<Rightarrow> budget_mode \<Rightarrow> json option \<Rightarrow> config_error + unit" where
  "check_downgrade bid mode dm =
    (case dm of None \<Rightarrow> Inr ()
     | Some v \<Rightarrow>
        if mode \<noteq> Downgrade then Inl (Downgrade_model_mode bid)
        else case v of JStr s \<Rightarrow> if s = [] then Inl (Bad_downgrade_model bid) else Inr ()
             | _ \<Rightarrow> Inl (Bad_downgrade_model bid))"

definition check_limit :: "string \<Rightarrow> json option \<Rightarrow> config_error + rat" where
  "check_limit bid v =
    (case v of None \<Rightarrow> Inl (Bad_limit bid)
     | Some n \<Rightarrow> (case finite_num n of None \<Rightarrow> Inl (Bad_limit bid)
                 | Some q \<Rightarrow> if q < 0 then Inl (Bad_limit bid) else Inr q))"

definition check_warn_at :: "string \<Rightarrow> json option \<Rightarrow> config_error + rat" where
  "check_warn_at bid v =
    (case finite_num (json_or v (JNum (Fin (8 / 10)))) of
       None \<Rightarrow> Inl (Bad_warn_at bid)
     | Some w \<Rightarrow> if 0 < w \<and> w \<le> 1 then Inr w else Inl (Bad_warn_at bid))"

text \<open>The fields of a budget after its id, in the order they are checked.\<close>

definition parse_fields :: "string \<Rightarrow> (string \<times> json) list \<Rightarrow> config_error + budget" where
  "parse_fields bid fs =
    rbind (lift_option (Bad_scope bid) (choice scope_text SCOPES (map_of fs ''scope''))) (\<lambda>scope.
    rbind (check_subject bid scope (map_of fs ''subject'')) (\<lambda>subject.
    rbind (lift_option (Bad_window bid) (choice window_text WINDOWS (map_of fs ''window''))) (\<lambda>window.
    rbind (check_limit bid (map_of fs ''limit_usd'')) (\<lambda>limit.
    rbind (lift_option (Bad_mode bid) (choice mode_text MODES (map_of fs ''mode''))) (\<lambda>mode.
    rbind (check_warn_at bid (map_of fs ''warn_at'')) (\<lambda>warnAt.
    rbind (check_downgrade bid mode (map_of fs ''downgrade_model'')) (\<lambda>_.
    Inr \<lparr>bg_id = bid, bg_scope = scope, bg_subject = subject, bg_window = window,
         bg_limitUsd = limit, bg_mode = mode, bg_warnAt = warnAt\<rparr>)))))))"

text \<open>One budget, given the ids seen before it.\<close>

definition parse_budget :: "string list \<Rightarrow> json \<Rightarrow> config_error + budget" where
  "parse_budget seen raw =
    (case json_fields raw of None \<Rightarrow> Inl Budget_not_object
     | Some fs \<Rightarrow>
        (case json_text (map_of fs ''id'') of None \<Rightarrow> Inl Bad_budget_id
         | Some bid \<Rightarrow>
            if \<not> TOKEN_RE bid then Inl Bad_budget_id
            else (case unknown_field BUDGET_FIELDS fs of
                    Some k \<Rightarrow> Inl (Unknown_budget_field bid k)
                  | None \<Rightarrow> if bid \<in> set seen then Inl (Duplicate_id bid) else parse_fields bid fs)))"

fun parse_budgets :: "string list \<Rightarrow> json list \<Rightarrow> config_error + budget list" where
  "parse_budgets seen [] = Inr []"
| "parse_budgets seen (raw # rest) =
    rbind (parse_budget seen raw) (\<lambda>b. rbind (parse_budgets (bg_id b # seen) rest) (\<lambda>bs. Inr (b # bs)))"

definition parseBudgetConfig :: "json \<Rightarrow> config_error + budget_config" where
  "parseBudgetConfig doc =
    (case json_fields doc of None \<Rightarrow> Inl Expected_object
     | Some fs \<Rightarrow>
        if map_of fs ''schema_version'' \<noteq> Some (JStr ''budget.v1'') then Inl Bad_schema_version
        else (case unknown_field CONFIG_FIELDS fs of
           Some k \<Rightarrow> Inl (Unknown_field k)
         | None \<Rightarrow>
            rbind (lift_option Bad_namespace (json_text (Some (json_or (map_of fs ''namespace'') (JStr ''default''))))) (\<lambda>ns.
            rbind (ensure (TOKEN_RE ns) Bad_namespace) (\<lambda>_.
            rbind (lift_option Bad_on_store_error
                     (choice store_error_text [Open_on_error, Closed_on_error]
                       (Some (json_or (map_of fs ''on_store_error'') (JStr ''open''))))) (\<lambda>onErr.
            rbind (case map_of fs ''budgets'' of Some (JArr raws) \<Rightarrow> parse_budgets [] raws | _ \<Rightarrow> Inl Budgets_not_array) (\<lambda>bs.
            Inr \<lparr>bc_namespace = ns, bc_onStoreError = onErr, bc_budgets = bs\<rparr>))))))"

text \<open>\<open>budgetConfigFromText\<close>; \<open>jsonParse\<close> is \<open>JSON.parse\<close>, \<open>None\<close> where it throws.\<close>

definition budgetConfigFromText ::
  "(string \<Rightarrow> json option) \<Rightarrow> string option \<Rightarrow> string option \<Rightarrow> config_error + budget_config option" where
  "budgetConfigFromText jsonParse text nsOverride =
    (case text of None \<Rightarrow> Inr None
     | Some t \<Rightarrow>
        if trim t = [] then Inr None
        else rbind (lift_option Not_json (jsonParse t)) (\<lambda>doc.
             rbind (parseBudgetConfig doc) (\<lambda>config.
             rbind (if truthy_str nsOverride
                    then (if TOKEN_RE (the nsOverride) then Inr (config\<lparr>bc_namespace := the nsOverride\<rparr>)
                          else Inl Bad_namespace_override)
                    else Inr config) (\<lambda>config'.
             Inr (if bc_budgets config' \<noteq> [] then Some config' else None)))))"

subsection \<open>What validation guarantees\<close>

definition budget_ok :: "budget \<Rightarrow> bool" where
  "budget_ok b \<longleftrightarrow> TOKEN_RE (bg_id b) \<and> (bg_subject b = None \<longleftrightarrow> bg_scope b = Global) \<and> bg_subject b \<noteq> Some [] \<and>
     0 \<le> bg_limitUsd b \<and> 0 < bg_warnAt b \<and> bg_warnAt b \<le> 1"

definition config_valid :: "budget_config \<Rightarrow> bool" where
  "config_valid c \<longleftrightarrow> TOKEN_RE (bc_namespace c) \<and> distinct (map bg_id (bc_budgets c)) \<and>
     (\<forall>b \<in> set (bc_budgets c). budget_ok b)"

lemma check_subject_return:
  "check_subject bid scope v = Inr s \<Longrightarrow> (s = None \<longleftrightarrow> scope = Global) \<and> s \<noteq> Some []"
  by (auto simp: check_subject_def split: if_splits option.splits json.splits)

lemma check_limit_return: "check_limit bid v = Inr q \<Longrightarrow> 0 \<le> q"
  by (auto simp: check_limit_def split: option.splits if_splits)

lemma check_warn_at_return: "check_warn_at bid v = Inr w \<Longrightarrow> 0 < w \<and> w \<le> 1"
  by (auto simp: check_warn_at_def split: option.splits if_splits)

lemma parse_fields_return:
  assumes "parse_fields bid fs = Inr b" "TOKEN_RE bid"
  shows "budget_ok b \<and> bg_id b = bid"
  using assms check_subject_return check_limit_return check_warn_at_return
  by (fastforce simp: parse_fields_def return_iff budget_ok_def)

lemma parse_budget_return:
  assumes "parse_budget seen raw = Inr b"
  shows "budget_ok b \<and> bg_id b \<notin> set seen"
  using assms
  by (auto simp: parse_budget_def dest: parse_fields_return split: option.splits if_splits)

lemma parse_budgets_return:
  "parse_budgets seen raws = Inr bs \<Longrightarrow>
   (\<forall>b \<in> set bs. budget_ok b \<and> bg_id b \<notin> set seen) \<and> distinct (map bg_id bs)"
proof (induction raws arbitrary: seen bs)
  case (Cons raw raws)
  then obtain b cs where "parse_budget seen raw = Inr b" "parse_budgets (bg_id b # seen) raws = Inr cs" "bs = b # cs"
    by (auto simp: return_iff)
  with Cons.IH [of "bg_id b # seen" cs] parse_budget_return [of seen raw b] show ?case by auto
qed simp

lemma parseBudgetConfig_return:
  assumes "parseBudgetConfig doc = Inr c"
  shows "config_valid c"
proof -
  from assms obtain raws where "TOKEN_RE (bc_namespace c)" "parse_budgets [] raws = Inr (bc_budgets c)"
    by (auto simp: parseBudgetConfig_def return_iff split: option.splits if_splits json.splits)
  then show ?thesis using parse_budgets_return by (auto simp: config_valid_def)
qed

subsection \<open>Documents\<close>

text \<open>The document of a configuration, with every field written out.\<close>

definition budget_json :: "budget \<Rightarrow> json" where
  "budget_json b = JObj ([(''id'', JStr (bg_id b)), (''scope'', JStr (scope_text (bg_scope b)))] @
     (case bg_subject b of None \<Rightarrow> [] | Some s \<Rightarrow> [(''subject'', JStr s)]) @
     [(''window'', JStr (window_text (bg_window b))), (''limit_usd'', JNum (Fin (bg_limitUsd b))),
      (''mode'', JStr (mode_text (bg_mode b))), (''warn_at'', JNum (Fin (bg_warnAt b)))])"

definition config_json :: "budget_config \<Rightarrow> json" where
  "config_json c = JObj [(''schema_version'', JStr ''budget.v1''), (''namespace'', JStr (bc_namespace c)),
     (''on_store_error'', JStr (store_error_text (bc_onStoreError c))),
     (''budgets'', JArr (map budget_json (bc_budgets c)))]"

lemma choice_text [simp]:
  "choice scope_text SCOPES (Some (JStr (scope_text s))) = Some s"
  "choice window_text WINDOWS (Some (JStr (window_text w))) = Some w"
  "choice mode_text MODES (Some (JStr (mode_text m))) = Some m"
  "choice store_error_text [Open_on_error, Closed_on_error] (Some (JStr (store_error_text e))) = Some e"
proof -
  show "choice scope_text SCOPES (Some (JStr (scope_text s))) = Some s"
    by (cases s) (simp_all add: choice_def SCOPES_def)
  show "choice window_text WINDOWS (Some (JStr (window_text w))) = Some w"
    by (cases w) (simp_all add: choice_def WINDOWS_def)
  show "choice mode_text MODES (Some (JStr (mode_text m))) = Some m"
    by (cases m) (simp_all add: choice_def MODES_def)
  show "choice store_error_text [Open_on_error, Closed_on_error] (Some (JStr (store_error_text e))) = Some e"
    by (cases e) (simp_all add: choice_def)
qed

lemma parse_budget_json:
  assumes "budget_ok b" "bg_id b \<notin> set seen"
  shows "parse_budget seen (budget_json b) = Inr b"
proof -
  have sub: "check_subject (bg_id b) (bg_scope b) (map_option JStr (bg_subject b)) = Inr (bg_subject b)"
    using assms(1) by (cases "bg_subject b") (auto simp: check_subject_def budget_ok_def)
  have num: "check_limit (bg_id b) (Some (JNum (Fin (bg_limitUsd b)))) = Inr (bg_limitUsd b)"
    "check_warn_at (bg_id b) (Some (JNum (Fin (bg_warnAt b)))) = Inr (bg_warnAt b)"
    using assms(1) by (auto simp: check_limit_def check_warn_at_def budget_ok_def)
  have tok: "TOKEN_RE (bg_id b)" using assms(1) by (simp add: budget_ok_def)
  show ?thesis
    using assms(2) tok sub num
    by (cases "bg_subject b")
       (simp_all add: parse_budget_def budget_json_def unknown_field_def BUDGET_FIELDS_def parse_fields_def
          lift_option_def check_downgrade_def)
qed

lemma parse_budgets_json:
  "\<forall>b \<in> set bs. budget_ok b \<and> bg_id b \<notin> set seen \<Longrightarrow> distinct (map bg_id bs) \<Longrightarrow>
   parse_budgets seen (map budget_json bs) = Inr bs"
proof (induction bs arbitrary: seen)
  case (Cons b bs)
  have "\<forall>x \<in> set bs. bg_id x \<noteq> bg_id b" using Cons.prems(2) by (simp add: image_iff) metis
  with Cons.prems have "parse_budgets (bg_id b # seen) (map budget_json bs) = Inr bs" by (intro Cons.IH) simp_all
  with Cons.prems show ?case by (simp add: parse_budget_json)
qed simp

text \<open>A document that passes validation gives a usable configuration: distinct well-formed budget ids, a
  well-formed namespace, a subject exactly for the scoped budgets (and never an empty one), limits that are
  not negative and warning thresholds in (0, 1].\<close>

lemma parseBudgetConfig_sound:
  assumes "parseBudgetConfig doc = Inr c"
  shows "TOKEN_RE (bc_namespace c) \<and> distinct (map bg_id (bc_budgets c)) \<and>
    (\<forall>b \<in> set (bc_budgets c). TOKEN_RE (bg_id b) \<and> (bg_subject b = None \<longleftrightarrow> bg_scope b = Global) \<and>
       bg_subject b \<noteq> Some [] \<and> 0 \<le> bg_limitUsd b \<and> 0 < bg_warnAt b \<and> bg_warnAt b \<le> 1)"
  using parseBudgetConfig_return [OF assms] by (simp add: config_valid_def budget_ok_def)

definition sample_budget :: budget where
  "sample_budget = \<lparr>bg_id = ''team-a'', bg_scope = Business_unit, bg_subject = Some ''a'', bg_window = Month,
     bg_limitUsd = 10, bg_mode = Block, bg_warnAt = 1/2\<rparr>"

definition sample_config :: budget_config where
  "sample_config = \<lparr>bc_namespace = ''default'', bc_onStoreError = Closed_on_error, bc_budgets = [sample_budget]\<rparr>"

text \<open>C18. Validation accepts every usable configuration: the document that writes out a valid configuration is
  read back as that configuration.\<close>

theorem parseBudgetConfig_roundtrip:
  assumes "config_valid c"
  shows "parseBudgetConfig (config_json c) = Inr c"
  using assms
  by (simp add: parseBudgetConfig_def config_json_def config_valid_def unknown_field_def CONFIG_FIELDS_def
      lift_option_def ensure_def parse_budgets_json)

theorem parseBudgetConfig_roundtrip_witness: "parseBudgetConfig (config_json sample_config) = Inr sample_config"
  by (rule parseBudgetConfig_roundtrip)
     (simp add: config_valid_def sample_config_def sample_budget_def budget_ok_def TOKEN_RE_def token_start_def
        token_char_def)

end
