(* ===== verification/Budget_Decide.thy ===== *)
theory Budget_Decide
  imports Budget_Config
begin

text \<open>
  Which budgets apply to a call and what they decide (the first half of
  \<open>gateway/src/middlewares/psBudget/index.ts\<close>): attribution, matching, the state of a budget, \<open>decide\<close>,
  and the two refusals.

  Spend is \<open>None\<close> when the store could not be read, and a JavaScript number otherwise: the reservations
  of calls whose estimate is not finite are part of it, so it may be infinite or \<open>NaN\<close>.
\<close>

datatype budget_state = Ok_state | Warn_state | Unknown_state | Exceeded_state

fun state_text :: "budget_state \<Rightarrow> string" where
  "state_text Ok_state = ''ok''"
| "state_text Warn_state = ''warn''"
| "state_text Unknown_state = ''unknown''"
| "state_text Exceeded_state = ''exceeded''"

record budget_attributes =
  ba_business_unit :: "string option"
  ba_use_case :: "string option"
  ba_owner :: "string option"

record matched =
  ma_budget :: budget
  ma_subject :: string
  ma_key :: string
  ma_ttlSeconds :: int
  ma_periodEndsAt :: int

definition clean :: "string option \<Rightarrow> string option" where
  "clean v = (case v of None \<Rightarrow> None | Some s \<Rightarrow> if s \<noteq> [] \<and> trim s \<noteq> [] then Some s else None)"

definition attributesOf :: "(string, string) jmap \<Rightarrow> string option \<Rightarrow> budget_attributes" where
  "attributesOf headers verifiedOwner =
    \<lparr>ba_business_unit = clean (jm_get headers ''x-ps-business-unit''),
     ba_use_case = clean (jm_get headers ''x-ps-use-case''),
     ba_owner = or_str verifiedOwner (clean (jm_get headers ''x-ps-owner''))\<rparr>"

fun attribute :: "budget_attributes \<Rightarrow> budget_scope \<Rightarrow> string option" where
  "attribute a Global = None"
| "attribute a Business_unit = ba_business_unit a"
| "attribute a Use_case = ba_use_case a"
| "attribute a Owner = ba_owner a"

text \<open>The subject a budget counts for this call, or \<open>None\<close> where the loop continues.\<close>

definition subject_for :: "budget_attributes \<Rightarrow> budget \<Rightarrow> string option" where
  "subject_for attrs b =
    (if bg_scope b = Global then Some GLOBAL_SUBJECT
     else case attribute attrs (bg_scope b) of None \<Rightarrow> None
       | Some v \<Rightarrow>
          if v = [] then None
          else if bg_subject b \<noteq> Some ''*'' \<and> bg_subject b \<noteq> Some v then None
          else Some v)"

definition matched_of :: "string \<Rightarrow> int \<Rightarrow> budget \<Rightarrow> string \<Rightarrow> matched" where
  "matched_of ns nowMs b subject =
    \<lparr>ma_budget = b, ma_subject = subject,
     ma_key = counterKey ns (bg_scope b) subject (bg_window b) (periodOf (bg_window b) nowMs),
     ma_ttlSeconds = counterTtl (bg_window b) nowMs, ma_periodEndsAt = periodEnd (bg_window b) nowMs\<rparr>"

definition matchBudgets :: "budget_config \<Rightarrow> budget_attributes \<Rightarrow> int \<Rightarrow> matched list" where
  "matchBudgets config attrs nowMs =
    concat (map (\<lambda>b. case subject_for attrs b of None \<Rightarrow> []
                   | Some s \<Rightarrow> [matched_of (bc_namespace config) nowMs b s]) (bc_budgets config))"

record status = matched +
  sa_spent :: "jsnum option"
  sa_state :: budget_state

definition budgetState :: "budget \<Rightarrow> jsnum option \<Rightarrow> budget_state" where
  "budgetState b spent =
    (case spent of None \<Rightarrow> Unknown_state
     | Some s \<Rightarrow>
        if js_ge s (Fin (bg_limitUsd b)) then Exceeded_state
        else if js_ge s (Fin (bg_warnAt b * bg_limitUsd b)) then Warn_state
        else Ok_state)"

fun SEVERITY :: "budget_state \<Rightarrow> nat" where
  "SEVERITY Ok_state = 0"
| "SEVERITY Warn_state = 1"
| "SEVERITY Unknown_state = 2"
| "SEVERITY Exceeded_state = 3"

datatype budget_action = No_action | Downgrade_action | Block_action

record budget_decision =
  de_state :: budget_state
  de_budgetId :: string
  de_action :: budget_action
  de_ceilingUsd :: "jsnum option"
  de_blockedBy :: "status option"

fun worst_of :: "status \<Rightarrow> status list \<Rightarrow> status" where
  "worst_of w [] = w"
| "worst_of w (s # ss) = worst_of (if SEVERITY (sa_state w) < SEVERITY (sa_state s) then s else w) ss"

definition exhausted :: "store_error_mode \<Rightarrow> status \<Rightarrow> bool" where
  "exhausted onErr s \<longleftrightarrow> sa_state s = Exceeded_state \<or> (sa_state s = Unknown_state \<and> onErr = Closed_on_error)"

text \<open>\<open>Math.max(limit - spent, 0)\<close> and \<open>Math.min\<close>.\<close>

fun left_of :: "rat \<Rightarrow> jsnum \<Rightarrow> jsnum" where
  "left_of limit (Fin x) = Fin (max (limit - x) 0)"
| "left_of limit PosInf = Fin 0"
| "left_of limit NegInf = PosInf"
| "left_of limit NaN = NaN"

definition js_min :: "jsnum \<Rightarrow> jsnum \<Rightarrow> jsnum" where
  "js_min x y = (if x = NaN \<or> y = NaN then NaN else if js_le x y then x else y)"

text \<open>The loop of \<open>decide\<close> over the statuses: action, ceiling and the first block budget exhausted.\<close>

fun decide_loop ::
  "store_error_mode \<Rightarrow> status list \<Rightarrow> budget_action \<Rightarrow> jsnum option \<Rightarrow> status option
   \<Rightarrow> budget_action \<times> jsnum option \<times> status option" where
  "decide_loop onErr [] act ceil blocked = (act, ceil, blocked)"
| "decide_loop onErr (s # ss) act ceil blocked =
    (case bg_mode (ma_budget s) of
       Block \<Rightarrow> decide_loop onErr ss act ceil (if exhausted onErr s \<and> blocked = None then Some s else blocked)
     | Downgrade \<Rightarrow>
        (if sa_spent s = None \<and> onErr \<noteq> Closed_on_error then decide_loop onErr ss act ceil blocked
         else let remaining = (case sa_spent s of None \<Rightarrow> Fin 0 | Some x \<Rightarrow> left_of (bg_limitUsd (ma_budget s)) x)
              in decide_loop onErr ss
                   (if exhausted onErr s \<and> act = No_action then Downgrade_action else act)
                   (Some (case ceil of None \<Rightarrow> remaining | Some c \<Rightarrow> js_min c remaining)) blocked)
     | Warn \<Rightarrow> decide_loop onErr ss act ceil blocked)"

definition decide :: "status list \<Rightarrow> store_error_mode \<Rightarrow> budget_decision option" where
  "decide statuses onErr =
    (case statuses of [] \<Rightarrow> None
     | s # ss \<Rightarrow>
        (let w = worst_of s statuses; (act, ceil, blocked) = decide_loop onErr statuses No_action None None
         in Some \<lparr>de_state = sa_state w, de_budgetId = bg_id (ma_budget w),
                  de_action = (if blocked \<noteq> None then Block_action else act),
                  de_ceilingUsd = ceil, de_blockedBy = blocked\<rparr>))"

subsection \<open>Refusals\<close>

text \<open>\<open>toFixed\<close> of a value that is not negative and below \<open>10^21\<close>: ties round up.\<close>

definition toFixed :: "nat \<Rightarrow> rat \<Rightarrow> string" where
  "toFixed d x = (let n = nat (floor (x * 10 ^ d + 1 / 2)) in
     digits_of (n div 10 ^ d) @ ''.'' @ padStart d (CHR ''0'') (digits_of (n mod 10 ^ d)))"

fun toFixed_num :: "nat \<Rightarrow> jsnum \<Rightarrow> string" where
  "toFixed_num d (Fin x) = toFixed d x"
| "toFixed_num d PosInf = ''Infinity''"
| "toFixed_num d NegInf = ''-Infinity''"
| "toFixed_num d NaN = ''NaN''"

definition fmt :: "jsnum \<Rightarrow> rat \<Rightarrow> string" where
  "fmt usd limit = ''$'' @ toFixed_num (if limit < 1 then 4 else 2) usd"

text \<open>\<open>toISOString\<close> for the years 0 to 9999.\<close>

definition toISOString :: "int \<Rightarrow> string" where
  "toISOString t =
    (let d = day_at t; ms = t mod ms_per_day; p = (\<lambda>w n. padStart w (CHR ''0'') (string_of_int n)) in
     p 4 (year_of d) @ ''-'' @ p 2 (month_of d + 1) @ ''-'' @ p 2 (date_of d) @ ''T'' @
     p 2 (ms div 3600000) @ '':'' @ p 2 (ms div 60000 mod 60) @ '':'' @ p 2 (ms div 1000 mod 60) @ ''.'' @
     p 3 (ms mod 1000) @ ''Z'')"

record budget_refusal =
  bf_status :: int
  bf_code :: string
  bf_message :: string
  bf_budgetId :: string
  bf_resetsAt :: "string option"
  bf_retryAfter :: "int option"
  bf_stateHeader :: string

definition budgetExceededResponse :: "matched \<Rightarrow> jsnum \<Rightarrow> int \<Rightarrow> budget_refusal" where
  "budgetExceededResponse s used nowMs =
    (let b = ma_budget s;
         scope = (if bg_scope b = Global then ''all calls''
                  else scope_text (bg_scope b) @ '' '' @ [CHR 0x22] @ ma_subject s @ [CHR 0x22]);
         resets = toISOString (ma_periodEndsAt s)
     in \<lparr>bf_status = 429, bf_code = ''budget_exceeded'',
         bf_message = ''Budget '' @ [CHR 0x22] @ bg_id b @ [CHR 0x22] @ '' ('' @ scope @ '', per '' @ window_text (bg_window b) @
           '') is exhausted: '' @ fmt used (bg_limitUsd b) @ '' of '' @ fmt (Fin (bg_limitUsd b)) (bg_limitUsd b) @
           '' used. It resets at '' @ resets @ ''.'',
         bf_budgetId = bg_id b, bf_resetsAt = Some resets,
         bf_retryAfter = Some (max 1 (- ((- (ma_periodEndsAt s - nowMs)) div 1000))),
         bf_stateHeader = ''exceeded''\<rparr>)"

definition storeUnavailableResponse :: "string \<Rightarrow> budget_refusal" where
  "storeUnavailableResponse bid =
    \<lparr>bf_status = 503, bf_code = ''budget_store_unavailable'',
     bf_message = ''Budget '' @ [CHR 0x22] @ bid @ [CHR 0x22] @
       '' could not be checked (budget store unavailable) and on_store_error is closed.'',
     bf_budgetId = bid, bf_resetsAt = None, bf_retryAfter = None, bf_stateHeader = ''unknown''\<rparr>"

subsection \<open>What is decided\<close>

lemma SEVERITY_inj: "SEVERITY a = SEVERITY b \<longleftrightarrow> a = b"
  by (cases a; cases b) simp_all

lemma worst_of_spec:
  "List.find (\<lambda>s. sa_state s = sa_state (worst_of w ss)) (w # ss) = Some (worst_of w ss) \<and>
   (\<forall>s \<in> set (w # ss). SEVERITY (sa_state s) \<le> SEVERITY (sa_state (worst_of w ss)))"
proof (induction ss arbitrary: w)
  case (Cons s ss)
  from Cons.IH [of "if SEVERITY (sa_state w) < SEVERITY (sa_state s) then s else w"] show ?case
    by (auto split: if_splits simp: SEVERITY_inj [symmetric])
qed simp

definition remaining_of :: "status \<Rightarrow> jsnum" where
  "remaining_of s = (case sa_spent s of None \<Rightarrow> Fin 0 | Some x \<Rightarrow> left_of (bg_limitUsd (ma_budget s)) x)"

definition clamps :: "store_error_mode \<Rightarrow> status \<Rightarrow> bool" where
  "clamps onErr s \<longleftrightarrow> bg_mode (ma_budget s) = Downgrade \<and> (sa_spent s \<noteq> None \<or> onErr = Closed_on_error)"

definition blocks :: "store_error_mode \<Rightarrow> status \<Rightarrow> bool" where
  "blocks onErr s \<longleftrightarrow> bg_mode (ma_budget s) = Block \<and> exhausted onErr s"

definition clamp_by :: "status \<Rightarrow> jsnum option \<Rightarrow> jsnum option" where
  "clamp_by s c = Some (case c of None \<Rightarrow> remaining_of s | Some x \<Rightarrow> js_min x (remaining_of s))"

lemma decide_loop_Cons:
  "decide_loop onErr (s # ss) act ceil blocked =
   decide_loop onErr ss (if clamps onErr s \<and> exhausted onErr s \<and> act = No_action then Downgrade_action else act)
     (if clamps onErr s then clamp_by s ceil else ceil)
     (if blocks onErr s \<and> blocked = None then Some s else blocked)"
  unfolding decide_loop.simps clamps_def blocks_def clamp_by_def remaining_of_def Let_def
  by (cases "bg_mode (ma_budget s)"; cases "sa_spent s"; cases onErr) simp_all

declare decide_loop.simps(2) [simp del]

lemma decide_loop_blocked:
  "snd (snd (decide_loop onErr ss act ceil blocked)) =
   (case blocked of Some s \<Rightarrow> Some s | None \<Rightarrow> List.find (blocks onErr) ss)"
proof (induction ss arbitrary: act ceil blocked)
  case Nil
  show ?case by (cases blocked) simp_all
next
  case (Cons s ss)
  show ?case unfolding decide_loop_Cons Cons.IH by (cases blocked) simp_all
qed

lemma decide_loop_ceiling:
  "fst (snd (decide_loop onErr ss act ceil blocked)) = fold clamp_by (filter (clamps onErr) ss) ceil"
proof (induction ss arbitrary: act ceil blocked)
  case (Cons s ss)
  show ?case unfolding decide_loop_Cons Cons.IH by (cases "clamps onErr s") simp_all
qed simp

lemma decide_loop_action:
  "fst (decide_loop onErr ss act ceil blocked) =
   (if act = No_action \<and> (\<exists>s \<in> set ss. clamps onErr s \<and> exhausted onErr s) then Downgrade_action else act)"
proof (induction ss arbitrary: act ceil blocked)
  case (Cons s ss)
  show ?case unfolding decide_loop_Cons Cons.IH
    by (cases "clamps onErr s"; cases "exhausted onErr s"; cases act) simp_all
qed simp

text \<open>Among amounts that are finite the ceiling is the least one left.\<close>

lemma fold_clamp:
  "\<forall>s \<in> set ss. remaining_of s = Fin (left s) \<Longrightarrow>
   fold clamp_by ss (Some (Fin a)) = Some (Fin (Min (set (a # map left ss))))"
proof (induction ss arbitrary: a)
  case (Cons s ss)
  have m: "Min (set (min a (left s) # map left ss)) = Min (set (a # map left (s # ss)))"
    by (cases "ss = []") (simp_all add: min.assoc)
  have "fold clamp_by (s # ss) (Some (Fin a)) = fold clamp_by ss (Some (Fin (min a (left s))))"
    using Cons.prems by (auto simp: clamp_by_def js_min_def min_def)
  with Cons.IH [of "min a (left s)"] Cons.prems m show ?case by simp
qed simp

lemma ceiling_finite:
  assumes "\<forall>s \<in> set ss. remaining_of s = Fin (left s)" "ss \<noteq> []"
  shows "fold clamp_by ss None = Some (Fin (Min (left ` set ss)))"
proof -
  from assms(2) obtain s rest where ss: "ss = s # rest" by (cases ss) auto
  with assms(1) fold_clamp [of rest left "left s"] show ?thesis by (simp add: clamp_by_def)
qed

lemma decide_blockedBy:
  "decide statuses onErr = Some d \<Longrightarrow> de_blockedBy d = List.find (blocks onErr) statuses"
  by (auto simp: decide_def case_prod_beta Let_def decide_loop_blocked split: list.splits simp del: decide_loop.simps List.find.simps)

text \<open>\<open>decide\<close> follows the decision rules: it reports the most severe state of the matching budgets, with
  the id of the first budget in that state; it blocks exactly when a block budget is exhausted (or unreadable
  with a closed store error mode), naming the first such budget; the cost ceiling is the \<open>Math.min\<close> of the amounts
  left of the downgrade budgets that can be read (none left, when unreadable and closed), by \<open>ceiling_finite\<close> the
  least one where they are finite, and without a block the
  action is to downgrade exactly when one of these is exhausted.\<close>

lemma decide_spec:
  assumes "decide statuses onErr = Some d"
  shows "(\<forall>s \<in> set statuses. SEVERITY (sa_state s) \<le> SEVERITY (de_state d)) \<and>
    map_option (\<lambda>s. bg_id (ma_budget s)) (List.find (\<lambda>s. sa_state s = de_state d) statuses) = Some (de_budgetId d) \<and>
    de_blockedBy d = List.find (blocks onErr) statuses \<and>
    de_ceilingUsd d = fold clamp_by (filter (clamps onErr) statuses) None \<and>
    de_action d = (if \<exists>s \<in> set statuses. blocks onErr s then Block_action
      else if \<exists>s \<in> set statuses. clamps onErr s \<and> exhausted onErr s then Downgrade_action else No_action)"
proof -
  from assms obtain s ss where ss: "statuses = s # ss" by (cases statuses) (auto simp: decide_def)
  let ?loop = "decide_loop onErr statuses No_action None None"
  have d: "d = \<lparr>de_state = sa_state (worst_of s statuses), de_budgetId = bg_id (ma_budget (worst_of s statuses)),
      de_action = (if snd (snd ?loop) \<noteq> None then Block_action else fst ?loop),
      de_ceilingUsd = fst (snd ?loop), de_blockedBy = snd (snd ?loop)\<rparr>"
    using assms unfolding decide_def ss by (simp add: case_prod_beta Let_def)
  have w: "\<forall>x \<in> set statuses. SEVERITY (sa_state x) \<le> SEVERITY (sa_state (worst_of s statuses))"
    "List.find (\<lambda>x. sa_state x = sa_state (worst_of s statuses)) statuses = Some (worst_of s statuses)"
    using worst_of_spec [of s ss] unfolding ss by simp_all
  have b: "(List.find (blocks onErr) statuses \<noteq> None) \<longleftrightarrow> (\<exists>x \<in> set statuses. blocks onErr x)"
    by (auto simp: find_None_iff)
  show ?thesis unfolding d
    by (intro conjI) (use w b in \<open>simp_all add: decide_loop_blocked decide_loop_ceiling decide_loop_action\<close>)
qed

definition sample_status :: "rat \<Rightarrow> status" where
  "sample_status x = \<lparr>ma_budget = sample_budget, ma_subject = ''a'', ma_key = ''k'', ma_ttlSeconds = 1, ma_periodEndsAt = 1,
     sa_spent = Some (Fin x), sa_state = budgetState sample_budget (Some (Fin x))\<rparr>"

definition enforced :: "matched \<Rightarrow> bool" where
  "enforced m \<longleftrightarrow> bg_scope (ma_budget m) \<in> {Global, Owner}"

lemma matchBudgets_enforced:
  assumes "ba_owner a = ba_owner b"
  shows "filter enforced (matchBudgets c a t) = filter enforced (matchBudgets c b t)"
proof -
  have "filter enforced (case subject_for a x of None \<Rightarrow> [] | Some s \<Rightarrow> [matched_of ns t x s]) =
        filter enforced (case subject_for b x of None \<Rightarrow> [] | Some s \<Rightarrow> [matched_of ns t x s])" for ns x
    using assms by (cases "bg_scope x")
      (auto simp: subject_for_def enforced_def matched_of_def split: option.splits)
  then have "filter enforced (concat (map (\<lambda>x. case subject_for a x of None \<Rightarrow> [] | Some s \<Rightarrow> [matched_of ns t x s]) xs)) =
        filter enforced (concat (map (\<lambda>x. case subject_for b x of None \<Rightarrow> [] | Some s \<Rightarrow> [matched_of ns t x s]) xs))" for ns xs
    by (induction xs) simp_all
  then show ?thesis by (simp add: matchBudgets_def)
qed

text \<open>With a verified identity a caller cannot move its spend off the owner budgets: whatever
  \<open>X-PS-Owner\<close> it sends, or none, the same global and owner budgets apply to the call, with the same keys.\<close>

lemma verified_owner_enforced:
  assumes "owner \<noteq> []"
  shows "filter enforced (matchBudgets c (attributesOf headers (Some owner)) t) =
         filter enforced (matchBudgets c (attributesOf headers' (Some owner)) t)"
proof (rule matchBudgets_enforced)
  show "ba_owner (attributesOf headers (Some owner)) = ba_owner (attributesOf headers' (Some owner))"
    using assms by (simp add: attributesOf_def or_str_def split: option.splits)
qed

end
