(* ===== verification/Budget_Downgrade.thy ===== *)
theory Budget_Downgrade
  imports Router_Gate
begin

text \<open>
  The cheaper model a \<open>downgrade\<close> budget moves a call to (\<open>gateway/src/middlewares/psBudget/downgrade.ts\<close>),
  and the failover candidates kept after it (\<open>downgradeCandidates\<close> of \<open>psBudget/index.ts\<close>). The running
  choices are those of the router's budget clamp (\<open>fit_loop\<close>), over the tiers that are strictly cheaper.
\<close>

record downgrade_request =
  dr_approxInputTokens :: nat
  dr_maxOutputTokens :: "jsnum option"
  dr_useCase :: "string option"

definition dr_cost :: "downgrade_request \<Rightarrow> model_tier \<Rightarrow> jsnum" where
  "dr_cost req tier = estimateTierCost tier (dr_approxInputTokens req)
     (case dr_maxOutputTokens req of None \<Rightarrow> DEFAULT_OUTPUT_TOKENS | Some n \<Rightarrow> n)"

text \<open>\<open>eligible\<close>: the models of a use case with an evaluation set.\<close>

definition downgrade_eligible :: "route_policy \<Rightarrow> string option \<Rightarrow> string list option" where
  "downgrade_eligible p useCase =
    (case useCaseBar p useCase of None \<Rightarrow> None
     | Some b \<Rightarrow> if truthy_str (uc_evalSet b)
         then Some (case uc_eligibleModels b of None \<Rightarrow> [] | Some ms \<Rightarrow> ms) else None)"

definition downgrade_keep ::
  "route_policy \<Rightarrow> downgrade_request \<Rightarrow> data_policy_rule option \<Rightarrow> jsnum \<Rightarrow> (model_tier \<Rightarrow> bool) \<Rightarrow> model_tier \<Rightarrow> bool" where
  "downgrade_keep p req rule currentEst serves tier \<longleftrightarrow>
    tierComplies tier rule \<and> serves tier \<and>
    (case downgrade_eligible p (dr_useCase req) of None \<Rightarrow> True | Some ms \<Rightarrow> mt_model tier \<in> set ms) \<and>
    js_lt (dr_cost req tier) currentEst"

definition pickDowngrade ::
  "route_policy \<Rightarrow> downgrade_request \<Rightarrow> data_policy_rule option \<Rightarrow> jsnum \<Rightarrow> jsnum \<Rightarrow> (model_tier \<Rightarrow> bool)
   \<Rightarrow> (model_tier \<times> jsnum) option" where
  "pickDowngrade p req rule currentEst ceilingUsd serves =
    (case fit_loop (dr_cost req) (downgrade_keep p req rule currentEst serves) ceilingUsd (all_tiers p) None None of
       (Some f, _) \<Rightarrow> Some f
     | (None, cheapest) \<Rightarrow> cheapest)"

definition tierOf :: "route_policy \<Rightarrow> string \<Rightarrow> model_tier option" where
  "tierOf p model = List.find (\<lambda>t. mt_model t = model) (all_tiers p)"

definition keeps_candidate ::
  "route_policy \<Rightarrow> model_tier \<times> jsnum \<Rightarrow> nat \<Rightarrow> jsnum option \<Rightarrow> string \<times> string option \<Rightarrow> bool" where
  "keeps_candidate p pick tokensIn maxOutput cand \<longleftrightarrow>
    fst cand \<noteq> mt_model (fst pick) \<and>
    (case tierOf p (fst cand) of None \<Rightarrow> False
     | Some t \<Rightarrow> js_le (estimateTierCost t tokensIn
                  (case maxOutput of None \<Rightarrow> DEFAULT_OUTPUT_TOKENS | Some n \<Rightarrow> n)) (snd pick))"

definition downgradeCandidates ::
  "route_policy \<Rightarrow> (string \<times> string option) list option \<Rightarrow> model_tier \<times> jsnum \<Rightarrow> nat \<Rightarrow> jsnum option
   \<Rightarrow> (string \<times> string option) list" where
  "downgradeCandidates p candidates pick tokensIn maxOutput =
    (mt_model (fst pick), nonempty (mt_provider (fst pick))) #
      filter (keeps_candidate p pick tokensIn maxOutput) (case candidates of None \<Rightarrow> [] | Some cs \<Rightarrow> cs)"

subsection \<open>What a downgrade picks\<close>

lemma pickDowngrade_sound:
  assumes "pickDowngrade p req rule currentEst ceilingUsd serves = Some (t, c)"
  shows "t \<in> set (all_tiers p)" "tierComplies t rule" "serves t" "js_lt c currentEst"
proof -
  obtain x y where f: "fit_loop (dr_cost req) (downgrade_keep p req rule currentEst serves) ceilingUsd (all_tiers p) None None = (x, y)"
    by fastforce
  from fit_loop_run [OF f] assms f have "t \<in> set (all_tiers p) \<and> tierComplies t rule \<and> serves t \<and> js_lt c currentEst"
    by (auto simp: pickDowngrade_def fits_best_def cheap_best_def downgrade_keep_def split: option.splits)
  then show "t \<in> set (all_tiers p)" "tierComplies t rule" "serves t" "js_lt c currentEst" by simp_all
qed

text \<open>A budget downgrade never leaves the data policy and always saves: the picked tier is listed, meets the
  rule, applies to the call's target, is eligible for its use case and is strictly cheaper than the call's
  estimate. It is the most capable (most expensive) such tier at or under the ceiling, or, when none is, a
  cheapest one; and no tier is picked only when none qualifies.\<close>

lemma pickDowngrade_correct:
  "case pickDowngrade p req rule currentEst ceilingUsd serves of
     None \<Rightarrow> \<forall>u \<in> set (all_tiers p). \<not> downgrade_keep p req rule currentEst serves u
   | Some (t, c) \<Rightarrow> t \<in> set (all_tiers p) \<and> tierComplies t rule \<and> serves t \<and> c = dr_cost req t \<and> js_lt c currentEst \<and>
       (let others = {u \<in> set (all_tiers p). downgrade_keep p req rule currentEst serves u} in
        if \<exists>u \<in> others. js_le (dr_cost req u) ceilingUsd
        then js_le c ceilingUsd \<and> (\<forall>u \<in> others. js_le (dr_cost req u) ceilingUsd \<longrightarrow> js_le (dr_cost req u) c)
        else \<forall>u \<in> others. \<not> js_lt (dr_cost req u) c)"
proof -
  let ?keep = "downgrade_keep p req rule currentEst serves"
  obtain x y where f: "fit_loop (dr_cost req) ?keep ceilingUsd (all_tiers p) None None = (x, y)" by fastforce
  have nn: "?keep t \<Longrightarrow> dr_cost req t \<noteq> NaN" for t by (auto simp: downgrade_keep_def)
  have k: "?keep t \<Longrightarrow> tierComplies t rule \<and> serves t \<and> js_lt (dr_cost req t) currentEst" for t
    by (simp add: downgrade_keep_def)
  from fit_loop_run [OF f] have b: "fits_best (dr_cost req) ceilingUsd (filter ?keep (all_tiers p)) x"
    "cheap_best (dr_cost req) (filter ?keep (all_tiers p)) y" by simp_all
  show ?thesis
  proof (cases x)
    case (Some a)
    then show ?thesis using b(1) k by (auto simp: pickDowngrade_def f fits_best_def Let_def split: prod.splits)
  next
    case None
    then show ?thesis using b k nn
      by (auto simp: pickDowngrade_def f fits_best_def cheap_best_def Let_def filter_empty_conv split: option.splits)
  qed
qed

definition sample_downgrade :: downgrade_request where
  "sample_downgrade = \<lparr>dr_approxInputTokens = 4, dr_maxOutputTokens = Some (Fin 996), dr_useCase = None\<rparr>"

text \<open>A failover never undoes a downgrade: every candidate kept after it is the picked model or a model whose
  tier costs no more than the pick.\<close>

lemma downgradeCandidates_cost:
  assumes "cand \<in> set (downgradeCandidates p candidates pick tokensIn maxOutput)"
  shows "fst cand = mt_model (fst pick) \<or>
    (\<exists>t \<in> set (all_tiers p). mt_model t = fst cand \<and>
       js_le (estimateTierCost t tokensIn (case maxOutput of None \<Rightarrow> DEFAULT_OUTPUT_TOKENS | Some n \<Rightarrow> n)) (snd pick))"
  using assms
  by (auto simp: downgradeCandidates_def keeps_candidate_def tierOf_def split: option.splits dest!: find_SomeD)

end
