(* ===== verification/Pricing.thy ===== *)
theory Pricing
  imports Router_Resolve
begin

text \<open>
  Token and unit prices (\<open>gateway/src/middlewares/psPricing.ts\<close>). The generated file
  \<open>psPricingTables.json\<close> is the parameter \<open>tables\<close>; an entry holds at least an input and an output rate,
  so \<open>rates\<close> is a pair with the list of the optional ones. Costs are exact rationals, rounded to six
  decimals as the code rounds them.

  A usage count comes from a response or a request and may be any number, so it is a \<open>jsnum\<close>.
\<close>

type_synonym rates = "rat \<times> rat \<times> rat list"

record price_tables =
  gt_tokenPricing :: "(string, rates) jmap"
  gt_longContextPricing :: "(string, rat \<times> rates) jmap"
  gt_audioPricing :: "(string, rat \<times> rat) jmap"
  gt_serviceTierPricing :: "(string, (string, rates) jmap) jmap"
  gt_unitPricing :: "(string, (string, rat) jmap) jmap"
  gt_imagePricing :: "(string, (string, (string, rat) jmap) jmap) jmap"

definition pkey :: "string list \<Rightarrow> string" where
  "pkey parts = join [CHR 0x00] parts"

definition CACHE_READ_MULTIPLIER :: "(string, rat) jmap" where
  "CACHE_READ_MULTIPLIER = [(''openai'', 1/2), (''anthropic'', 1/10), (''google'', 1/4)]"

definition CACHE_WRITE_MULTIPLIER :: "(string, rat) jmap" where
  "CACHE_WRITE_MULTIPLIER = [(''anthropic'', 5/4)]"

definition CACHE_WRITE_1H_MULTIPLIER :: "(string, rat) jmap" where
  "CACHE_WRITE_1H_MULTIPLIER = [(''anthropic'', 2)]"

definition STANDARD_SERVICE_TIERS :: "string list" where
  "STANDARD_SERVICE_TIERS = [''default'', ''standard'', ''auto'']"

definition SERVICE_TIER_MULTIPLIER :: "(string, (string, rat) jmap) jmap" where
  "SERVICE_TIER_MULTIPLIER =
    [(''openai'', [(''batch'', 1/2), (''flex'', 1/2)]), (''anthropic'', [(''batch'', 1/2)]), (''google'', [(''batch'', 1/2)])]"

definition WEB_SEARCH_FEE :: "(string, rat) jmap" where
  "WEB_SEARCH_FEE = [(''anthropic'', 1/100)]"

definition PRICING_VENDOR_FALLBACK :: "(string, string) jmap" where
  "PRICING_VENDOR_FALLBACK = [(''azure_openai'', ''openai''), (''azure-openai'', ''openai''), (''mistral-ai'', ''mistral'')]"

text \<open>A name with its first slash replaced by the separator of \<open>pkey\<close>; without one, \<open>slice(0, -1)\<close> and the
  whole name.\<close>

definition catalog_key :: "string \<Rightarrow> string" where
  "catalog_key k = (if CHR ''/'' \<in> set k
     then pkey [takeWhile (\<lambda>c. c \<noteq> CHR ''/'') k, tl (dropWhile (\<lambda>c. c \<noteq> CHR ''/'') k)]
     else pkey [butlast k, k])"

definition catalogMap :: "(string, 'a) jmap \<Rightarrow> (string, 'a) jmap" where
  "catalogMap entries = fold (\<lambda>(k, v). jm_set (catalog_key k) v) entries []"

definition DEFAULT_PRICING :: "price_tables \<Rightarrow> (string, rates) jmap" where
  "DEFAULT_PRICING tb = catalogMap (gt_tokenPricing tb)"

definition LONG_CONTEXT_PRICING :: "price_tables \<Rightarrow> (string, rat \<times> rates) jmap" where
  "LONG_CONTEXT_PRICING tb = catalogMap (gt_longContextPricing tb)"

definition AUDIO_PRICING :: "price_tables \<Rightarrow> (string, rat \<times> rat) jmap" where
  "AUDIO_PRICING tb = catalogMap (gt_audioPricing tb)"

definition SERVICE_TIER_PRICING :: "price_tables \<Rightarrow> (string, (string, rates) jmap) jmap" where
  "SERVICE_TIER_PRICING tb = catalogMap (gt_serviceTierPricing tb)"

definition UNIT_PRICING :: "price_tables \<Rightarrow> (string, rat) jmap" where
  "UNIT_PRICING tb = fold (\<lambda>(k, v). jm_set k v)
     (concat (map (\<lambda>(k, byUnit). map (\<lambda>(u, r). (k @ [CHR 0x00] @ u, r)) byUnit) (catalogMap (gt_unitPricing tb)))) []"

definition IMAGE_PRICING :: "price_tables \<Rightarrow> (string, (string, rat) jmap) jmap" where
  "IMAGE_PRICING tb = map (\<lambda>(k, byQuality). (k, fold (\<lambda>(q, r). jm_set q r)
     (concat (map (\<lambda>(q, sizes). map (\<lambda>(sz, r). (pkey [q, sz], r)) sizes) byQuality)) []))
     (catalogMap (gt_imagePricing tb))"

record pricing_usage =
  pu_tokens_in :: "jsnum option"
  pu_tokens_out :: "jsnum option"
  pu_tokens_cached :: "jsnum option"
  pu_tokens_cache_write :: "jsnum option"
  pu_tokens_cache_write_1h :: "jsnum option"
  pu_tokens_audio_in :: "jsnum option"
  pu_tokens_audio_out :: "jsnum option"
  pu_web_search_requests :: "jsnum option"
  pu_service_tier :: "string option"
  pu_provider_cost :: "jsnum option"
  pu_usage_units :: "jsnum option"
  pu_usage_unit_type :: "string option"
  pu_image_quality :: "string option"
  pu_image_size :: "string option"

definition js_max :: "jsnum \<Rightarrow> jsnum \<Rightarrow> jsnum" where
  "js_max x y = (if x = NaN \<or> y = NaN then NaN else if js_lt x y then y else x)"

definition js_min :: "jsnum \<Rightarrow> jsnum \<Rightarrow> jsnum" where
  "js_min x y = (if x = NaN \<or> y = NaN then NaN else if js_lt y x then y else x)"

definition js_sub :: "jsnum \<Rightarrow> jsnum \<Rightarrow> jsnum" where
  "js_sub x y = js_add x (js_neg y)"

text \<open>\<open>n || 0\<close> on an optional number.\<close>

definition num_or0 :: "jsnum option \<Rightarrow> jsnum" where
  "num_or0 v = (case v of None \<Rightarrow> Fin 0 | Some n \<Rightarrow> if n = NaN then Fin 0 else n)"

text \<open>\<open>Number(x.toFixed(6))\<close>: to the nearest, ties away from zero; a magnitude of \<open>10^21\<close> or more is printed in full.\<close>

definition round6_rat :: "rat \<Rightarrow> rat" where
  "round6_rat x = (if \<bar>x\<bar> < 10 ^ 21 then sgn x * (of_int (floor (\<bar>x\<bar> * 1000000 + 1/2)) / 1000000) else x)"

fun round6 :: "jsnum \<Rightarrow> jsnum" where
  "round6 (Fin x) = Fin (round6_rat x)"
| "round6 x = x"

subsection \<open>Rates\<close>

definition lookupRates :: "price_tables \<Rightarrow> string \<Rightarrow> string \<Rightarrow> (string \<times> rates) option" where
  "lookupRates tb vendor model =
    (case jm_get (DEFAULT_PRICING tb) (pkey [vendor, model]) of
       Some r \<Rightarrow> Some (vendor, r)
     | None \<Rightarrow>
        (case jm_get PRICING_VENDOR_FALLBACK vendor of
           None \<Rightarrow> None
         | Some v \<Rightarrow> map_option (\<lambda>r. (v, r)) (jm_get (DEFAULT_PRICING tb) (pkey [v, model]))))"

definition hasPrice :: "price_tables \<Rightarrow> string \<Rightarrow> string option \<Rightarrow> bool" where
  "hasPrice tb vendor model \<longleftrightarrow>
    (case nonempty model of None \<Rightarrow> False
     | Some m \<Rightarrow> lookupRates tb vendor m \<noteq> None \<or> jm_get (IMAGE_PRICING tb) (pkey [vendor, m]) \<noteq> None \<or>
         list_ex (\<lambda>k. starts_with (pkey [vendor, m] @ [CHR 0x00]) k) (map fst (UNIT_PRICING tb)))"

text \<open>\<open>/-\d{4}-\d{2}-\d{2}$/\<close>\<close>

definition is_date_suffix :: "string \<Rightarrow> bool" where
  "is_date_suffix s \<longleftrightarrow> length s = 11 \<and>
     (\<forall>i \<in> {0, 5, 8}. s ! i = CHR ''-'') \<and> (\<forall>i \<in> {1, 2, 3, 4, 6, 7, 9, 10}. is_digit (s ! i))"

definition strip_date :: "string \<Rightarrow> string" where
  "strip_date s = (let n = length s - 11 in if is_date_suffix (drop n s) then take n s else s)"

fun push_new :: "string list \<Rightarrow> string option list \<Rightarrow> string list" where
  "push_new out [] = out"
| "push_new out (n # ns) =
    push_new (case n of None \<Rightarrow> out | Some s \<Rightarrow> if s \<noteq> [] \<and> s \<notin> set out then out @ [s] else out) ns"

definition pricingCandidates :: "string option \<Rightarrow> string option \<Rightarrow> string list" where
  "pricingCandidates model served = push_new [] [served, map_option strip_date served, model]"

definition resolvePricingModel :: "price_tables \<Rightarrow> string \<Rightarrow> string list \<Rightarrow> string option" where
  "resolvePricingModel tb vendor cands =
    (case List.find (\<lambda>m. hasPrice tb vendor (Some m)) cands of
       Some m \<Rightarrow> Some m | None \<Rightarrow> if cands = [] then None else Some (last cands))"

definition mult_of :: "(string, rat) jmap \<Rightarrow> string \<Rightarrow> rat" where
  "mult_of m vendor = (case jm_get m vendor of None \<Rightarrow> 1 | Some x \<Rightarrow> x)"

fun fullRates :: "string \<Rightarrow> rates \<Rightarrow> rat \<times> rat \<times> rat \<times> rat \<times> rat" where
  "fullRates vendor (inRate, outRate, extra) =
    (let cachedRate = (if length extra > 0 then extra ! 0 else inRate * mult_of CACHE_READ_MULTIPLIER vendor);
         writeRate = (if length extra > 1 then extra ! 1 else inRate * mult_of CACHE_WRITE_MULTIPLIER vendor);
         write1hRate = (if length extra > 2 then extra ! 2
                        else case jm_get CACHE_WRITE_1H_MULTIPLIER vendor of
                          Some x \<Rightarrow> inRate * x | None \<Rightarrow> writeRate)
     in (inRate, outRate, cachedRate, writeRate, write1hRate))"

definition tierMultiplier :: "string \<Rightarrow> string option \<Rightarrow> rat option" where
  "tierMultiplier vendor serviceTier =
    (case serviceTier of None \<Rightarrow> Some 1
     | Some t \<Rightarrow> if t \<in> set STANDARD_SERVICE_TIERS then Some 1
         else (case jm_get SERVICE_TIER_MULTIPLIER vendor of None \<Rightarrow> None | Some byTier \<Rightarrow> jm_get byTier t))"

subsection \<open>The cost of a call\<close>

text \<open>The rates a call is billed at, the scale of the audio rates and the multiplier of its service tier;
  \<open>None\<close> for a tier without a price.\<close>

definition billed_rates ::
  "price_tables \<Rightarrow> string \<Rightarrow> string \<Rightarrow> string \<Rightarrow> rates \<Rightarrow> bool \<Rightarrow> string option
   \<Rightarrow> ((rat \<times> rat \<times> rat \<times> rat \<times> rat) \<times> rat \<times> rat) option" where
  "billed_rates tb vendor pricingVendor model rt longContext serviceTier =
    (let (inRate, outRate, cachedRate, writeRate, write1hRate) = fullRates pricingVendor rt;
         byTier = jm_get (SERVICE_TIER_PRICING tb) (pkey [vendor, model]);
         tierRates = (if \<not> longContext \<and> pricingVendor = vendor
                      then (case (byTier, serviceTier) of (Some m, Some t) \<Rightarrow> jm_get m t | _ \<Rightarrow> None) else None)
     in case tierRates of
          Some (tierIn, tierOut, extra) \<Rightarrow>
            (let scale = (if inRate \<noteq> 0 then tierIn / inRate else 1)
             in Some ((tierIn, tierOut, if length extra > 0 then extra ! 0 else cachedRate * scale,
                       writeRate * scale, write1hRate * scale), scale, 1))
        | None \<Rightarrow> map_option (\<lambda>tier. ((inRate, outRate, cachedRate, writeRate, write1hRate), 1, tier))
                    (tierMultiplier pricingVendor serviceTier))"

text \<open>The token cost before rounding, per 1k tokens.\<close>

definition token_total ::
  "rat \<times> rat \<times> rat \<times> rat \<times> rat \<Rightarrow> rat \<times> rat \<Rightarrow> jsnum \<Rightarrow> jsnum \<Rightarrow> pricing_usage \<Rightarrow> jsnum" where
  "token_total rt audio tokensIn tokensOut u =
    (let (inRate, outRate, cachedRate, writeRate, write1hRate) = rt;
         (audioInRate, audioOutRate) = audio;
         audioIn = num_or0 (pu_tokens_audio_in u); audioOut = num_or0 (pu_tokens_audio_out u);
         cached = num_or0 (pu_tokens_cached u); cacheWrite = num_or0 (pu_tokens_cache_write u);
         write1h = js_min (num_or0 (pu_tokens_cache_write_1h u)) cacheWrite;
         uncached = js_max (js_sub (js_sub (js_sub tokensIn cached) cacheWrite) audioIn) (Fin 0);
         textOut = js_max (js_sub tokensOut audioOut) (Fin 0);
         amount = (\<lambda>n r. js_mul n (Fin r))
     in js_div1000 (js_add (js_add (js_add (js_add (js_add (js_add (amount uncached inRate) (amount cached cachedRate))
          (amount (js_sub cacheWrite write1h) writeRate)) (amount write1h write1hRate)) (amount audioIn audioInRate))
          (amount textOut outRate)) (amount audioOut audioOutRate)))"

definition audio_rates :: "price_tables \<Rightarrow> string \<Rightarrow> string \<Rightarrow> rat \<Rightarrow> pricing_usage \<Rightarrow> (rat \<times> rat) option" where
  "audio_rates tb pricingVendor model scale u =
    (if num_or0 (pu_tokens_audio_in u) \<noteq> Fin 0 \<or> num_or0 (pu_tokens_audio_out u) \<noteq> Fin 0
     then map_option (\<lambda>(i, q). (i * scale, q * scale)) (jm_get (AUDIO_PRICING tb) (pkey [pricingVendor, model]))
     else Some (0, 0))"

text \<open>The band of a long prompt, and whether it applies.\<close>

definition band_rates :: "price_tables \<Rightarrow> string \<Rightarrow> rates \<Rightarrow> jsnum \<Rightarrow> rates \<times> bool" where
  "band_rates tb bandKey baseRates tokensIn =
    (case jm_get (LONG_CONTEXT_PRICING tb) bandKey of
       None \<Rightarrow> (baseRates, False)
     | Some b \<Rightarrow> if js_gt tokensIn (Fin (fst b)) then (snd b, True) else (baseRates, False))"

definition token_cost ::
  "price_tables \<Rightarrow> string \<Rightarrow> string \<Rightarrow> string \<Rightarrow> rates \<times> bool \<Rightarrow> jsnum \<Rightarrow> jsnum \<Rightarrow> pricing_usage \<Rightarrow> jsnum option" where
  "token_cost tb vendor pricingVendor m band tokensIn tokensOut u =
    (case billed_rates tb vendor pricingVendor m (fst band) (snd band) (pu_service_tier u) of
       None \<Rightarrow> None
     | Some (full, scale, tier) \<Rightarrow>
        map_option (\<lambda>audio.
          round6 (js_add (js_mul (token_total full audio tokensIn tokensOut u) (Fin tier))
            (js_mul (num_or0 (pu_web_search_requests u)) (Fin (case jm_get WEB_SEARCH_FEE pricingVendor of None \<Rightarrow> 0 | Some f \<Rightarrow> f)))))
          (audio_rates tb pricingVendor m scale u))"

definition estimateCost :: "price_tables \<Rightarrow> string \<Rightarrow> string option \<Rightarrow> pricing_usage \<Rightarrow> jsnum option" where
  "estimateCost tb vendor model u =
    (case (model, pu_tokens_in u, pu_tokens_out u) of
       (Some m, Some tokensIn, Some tokensOut) \<Rightarrow>
        (case lookupRates tb vendor m of
           None \<Rightarrow> None
         | Some (pricingVendor, baseRates) \<Rightarrow>
            token_cost tb vendor pricingVendor m (band_rates tb (pkey [pricingVendor, m]) baseRates tokensIn)
              tokensIn tokensOut u)
     | _ \<Rightarrow> None)"

definition string_or_undefined :: "string option \<Rightarrow> string" where
  "string_or_undefined s = (case s of None \<Rightarrow> ''undefined'' | Some x \<Rightarrow> x)"

definition unitRate ::
  "price_tables \<Rightarrow> string \<Rightarrow> string \<Rightarrow> string \<Rightarrow> string option \<Rightarrow> string option \<Rightarrow> rat option" where
  "unitRate tb vendor model unitType q sz =
    (if unitType = ''images''
     then (case jm_get (IMAGE_PRICING tb) (pkey [vendor, model]) of None \<Rightarrow> None
           | Some byVariant \<Rightarrow> jm_get byVariant (pkey [string_or_undefined q, string_or_undefined sz]))
     else jm_get (UNIT_PRICING tb) (pkey [vendor, model, unitType]))"

definition estimateUnitCost :: "price_tables \<Rightarrow> string \<Rightarrow> string option \<Rightarrow> pricing_usage \<Rightarrow> jsnum option" where
  "estimateUnitCost tb vendor model u =
    (case (model, pu_usage_unit_type u, pu_usage_units u) of
       (Some m, Some unitType, Some units) \<Rightarrow>
        if \<not> is_finite units \<or> js_lt units (Fin 0) then None
        else (case (case unitRate tb vendor m unitType (pu_image_quality u) (pu_image_size u) of
                      Some r \<Rightarrow> Some r
                    | None \<Rightarrow> (case jm_get PRICING_VENDOR_FALLBACK vendor of None \<Rightarrow> None
                        | Some v \<Rightarrow> unitRate tb v m unitType (pu_image_quality u) (pu_image_size u))) of
                None \<Rightarrow> None
              | Some rate \<Rightarrow>
                 if (case pu_service_tier u of None \<Rightarrow> False | Some t \<Rightarrow> t \<notin> set STANDARD_SERVICE_TIERS) then None
                 else Some (round6 (js_mul units (Fin rate))))
     | _ \<Rightarrow> None)"

definition usageCost :: "price_tables \<Rightarrow> string \<Rightarrow> string option \<Rightarrow> pricing_usage \<Rightarrow> jsnum option" where
  "usageCost tb vendor model u =
    (case pu_provider_cost u of Some c \<Rightarrow> Some (round6 c)
     | None \<Rightarrow>
        (case (if pu_usage_unit_type u \<noteq> None then estimateUnitCost tb vendor model u else None) of
           Some c \<Rightarrow> Some c
         | None \<Rightarrow> estimateCost tb vendor model u))"

text \<open>\<open>BEDROCK_PROFILE_PREFIX\<close>: a region and a dot, before another dotted segment.\<close>

definition bedrock_regions :: "string list" where
  "bedrock_regions = [''us'', ''us-gov'', ''eu'', ''apac'', ''au'', ''ca'', ''jp'', ''in'', ''global'']"

definition segment_char :: "char \<Rightarrow> bool" where
  "segment_char c \<longleftrightarrow> (let n = of_char c :: nat in (97 \<le> n \<and> n \<le> 122) \<or> is_digit c \<or> c = CHR ''-'')"

definition strip_profile :: "string \<Rightarrow> string" where
  "strip_profile s =
    (let region = takeWhile (\<lambda>c. c \<noteq> CHR ''.'') s; rest = dropWhile (\<lambda>c. c \<noteq> CHR ''.'') s
     in if region \<in> set bedrock_regions \<and> rest \<noteq> [] \<and> takeWhile segment_char (tl rest) \<noteq> [] \<and>
           starts_with (dropWhile segment_char (tl rest)) ''.''
        then tl rest else s)"

fun bedrock_loop :: "string list \<Rightarrow> string list \<Rightarrow> string list" where
  "bedrock_loop out [] = out"
| "bedrock_loop out (c # cs) =
    (let base = strip_profile c in bedrock_loop (if base \<noteq> c \<and> base \<notin> set out then out @ [base] else out) cs)"

definition withBedrockBaseModels :: "string \<Rightarrow> string list \<Rightarrow> string list" where
  "withBedrockBaseModels vendor cands =
    (if vendor \<noteq> ''bedrock'' then cands else bedrock_loop cands cands)"

definition costFields ::
  "price_tables \<Rightarrow> string \<Rightarrow> string option \<Rightarrow> string option \<Rightarrow> pricing_usage \<Rightarrow> (jsnum \<times> string) option" where
  "costFields tb vendor model served u =
    (let pricingModel = resolvePricingModel tb vendor (withBedrockBaseModels vendor (pricingCandidates model served))
     in map_option (\<lambda>c. (c, if pu_provider_cost u \<noteq> None then ''provider_reported'' else ''pricing_table''))
          (usageCost tb vendor pricingModel u))"

subsection \<open>Costs are never negative\<close>

lemma js_arith_Fin [simp, js_simps]:
  "js_mul (Fin a) (Fin b) = Fin (a * b)" "js_sub (Fin a) (Fin b) = Fin (a - b)"
  "js_max (Fin a) (Fin b) = Fin (max a b)" "js_min (Fin a) (Fin b) = Fin (min a b)"
  by (simp_all add: js_mul_def js_sub_def js_max_def js_min_def max_def min_def)

definition rates_ok :: "rates \<Rightarrow> bool" where
  "rates_ok r \<longleftrightarrow> 0 \<le> fst r \<and> 0 \<le> fst (snd r) \<and> (\<forall>x \<in> set (snd (snd r)). 0 \<le> x)"

text \<open>The tables hold no negative price.\<close>

definition tables_ok :: "price_tables \<Rightarrow> bool" where
  "tables_ok tb \<longleftrightarrow> (\<forall>r \<in> snd ` set (gt_tokenPricing tb). rates_ok r) \<and>
     (\<forall>b \<in> snd ` set (gt_longContextPricing tb). rates_ok (snd b)) \<and>
     (\<forall>a \<in> snd ` set (gt_audioPricing tb). 0 \<le> fst a \<and> 0 \<le> snd a) \<and>
     (\<forall>m \<in> snd ` set (gt_serviceTierPricing tb). \<forall>r \<in> snd ` set m. rates_ok r)"

definition count_ok :: "jsnum option \<Rightarrow> bool" where
  "count_ok v \<longleftrightarrow> (case v of Some (Fin a) \<Rightarrow> 0 \<le> a | None \<Rightarrow> True | _ \<Rightarrow> False)"

definition usage_ok :: "pricing_usage \<Rightarrow> bool" where
  "usage_ok u \<longleftrightarrow> list_all count_ok [pu_tokens_cached u, pu_tokens_cache_write u, pu_tokens_cache_write_1h u,
     pu_tokens_audio_in u, pu_tokens_audio_out u, pu_web_search_requests u]"

lemma fold_set_values:
  "snd ` set (fold (\<lambda>(k, v). jm_set (f k) v) es m) \<subseteq> snd ` set m \<union> snd ` set es"
proof (induction es arbitrary: m)
  case (Cons e es)
  have "snd ` set (jm_set k v m) \<subseteq> insert v (snd ` set m)" for k v by (induction m) (force split: if_splits)+
  from Cons.IH [of "jm_set (f (fst e)) (snd e) m"] this [of "f (fst e)" "snd e"] show ?case
    by (cases e) auto
qed simp

lemma catalogMap_value: "jm_get (catalogMap m) k = Some v \<Longrightarrow> v \<in> snd ` set m"
  using fold_set_values [of catalog_key m "[]"] by (force simp: catalogMap_def dest: jm_get_Some_in)

lemma count_ok_num: "count_ok v \<Longrightarrow> \<exists>a \<ge> 0. num_or0 v = Fin a"
  by (cases v) (auto simp: count_ok_def num_or0_def split: jsnum.splits)

lemma mult_nonneg:
  "0 \<le> mult_of CACHE_READ_MULTIPLIER v" "0 \<le> mult_of CACHE_WRITE_MULTIPLIER v"
  "jm_get CACHE_WRITE_1H_MULTIPLIER v = Some x \<Longrightarrow> 0 \<le> x"
  "(case jm_get WEB_SEARCH_FEE v of None \<Rightarrow> 0 | Some f \<Rightarrow> f) \<ge> 0"
  by (auto simp: mult_of_def CACHE_READ_MULTIPLIER_def CACHE_WRITE_MULTIPLIER_def CACHE_WRITE_1H_MULTIPLIER_def
      WEB_SEARCH_FEE_def split: if_splits)

fun all_nonneg :: "rat \<times> rat \<times> rat \<times> rat \<times> rat \<Rightarrow> bool" where
  "all_nonneg (a, b, c, d, e) \<longleftrightarrow> 0 \<le> a \<and> 0 \<le> b \<and> 0 \<le> c \<and> 0 \<le> d \<and> 0 \<le> e"

lemma fullRates_nonneg: "rates_ok r \<Longrightarrow> all_nonneg (fullRates v r)"
  by (cases r) (auto simp: rates_ok_def Let_def mult_nonneg split: option.splits)

lemma tierMultiplier_nonneg: "tierMultiplier v t = Some x \<Longrightarrow> 0 \<le> x"
  by (auto simp: tierMultiplier_def SERVICE_TIER_MULTIPLIER_def split: option.splits if_splits)

lemma billed_rates_nonneg:
  assumes "billed_rates tb v pv m rt long t = Some (full, scale, tier)" "rates_ok rt" "tables_ok tb"
  shows "all_nonneg full \<and> 0 \<le> scale \<and> 0 \<le> tier"
proof -
  obtain a b c d e where f: "fullRates pv rt = (a, b, c, d, e)" by (metis surj_pair)
  with fullRates_nonneg [OF assms(2), of pv] have nn: "0 \<le> a" "0 \<le> b" "0 \<le> c" "0 \<le> d" "0 \<le> e" by simp_all
  have tr: "rates_ok r" if "jm_get (SERVICE_TIER_PRICING tb) k = Some mm" "jm_get mm t' = Some r" for k mm t' r
  proof -
    from that(1) have "mm \<in> snd ` set (gt_serviceTierPricing tb)"
      unfolding SERVICE_TIER_PRICING_def by (rule catalogMap_value)
    moreover from that(2) have "r \<in> snd ` set mm" by (force dest: jm_get_Some_in)
    ultimately show ?thesis using assms(3) unfolding tables_ok_def by blast
  qed
  show ?thesis using assms(1) nn tierMultiplier_nonneg
    by (auto simp: billed_rates_def f Let_def rates_ok_def split: option.splits if_splits dest!: tr)
qed

lemma audio_rates_nonneg:
  assumes "audio_rates tb pv m scale u = Some (i, q)" "0 \<le> scale" "tables_ok tb"
  shows "0 \<le> i \<and> 0 \<le> q"
proof -
  have "0 \<le> fst a \<and> 0 \<le> snd a" if "jm_get (AUDIO_PRICING tb) k = Some a" for k a
    using assms(3) catalogMap_value [OF that [unfolded AUDIO_PRICING_def]] unfolding tables_ok_def by blast
  with assms(1,2) show ?thesis by (fastforce simp: audio_rates_def split: if_splits)
qed

lemma token_total_nonneg:
  assumes "all_nonneg rt" "0 \<le> fst audio" "0 \<le> snd audio" "usage_ok u"
  shows "\<exists>r \<ge> 0. token_total rt audio (Fin i) (Fin q) u = Fin r"
proof -
  obtain a b c d e where rt: "rt = (a, b, c, d, e)" by (metis surj_pair)
  from assms(4) have cs: "count_ok (pu_tokens_audio_in u)" "count_ok (pu_tokens_audio_out u)" "count_ok (pu_tokens_cached u)"
    "count_ok (pu_tokens_cache_write u)" "count_ok (pu_tokens_cache_write_1h u)"
    by (simp_all add: usage_ok_def)
  from cs [THEN count_ok_num] obtain ai ao ca cw w1 where nn: "0 \<le> ai" "0 \<le> ao" "0 \<le> ca" "0 \<le> cw" "0 \<le> w1"
    and n: "num_or0 (pu_tokens_audio_in u) = Fin ai" "num_or0 (pu_tokens_audio_out u) = Fin ao"
      "num_or0 (pu_tokens_cached u) = Fin ca" "num_or0 (pu_tokens_cache_write u) = Fin cw"
      "num_or0 (pu_tokens_cache_write_1h u) = Fin w1"
    by (elim exE conjE) simp
  let ?r = "(max (i - ca - cw - ai) 0 * a + ca * c + (cw - min w1 cw) * d + min w1 cw * e + ai * fst audio +
      max (q - ao) 0 * b + ao * snd audio) / 1000"
  have "token_total rt audio (Fin i) (Fin q) u = Fin ?r"
    unfolding token_total_def rt n Let_def by (simp only: prod.case_eq_if fst_conv snd_conv js_arith_Fin js_add.simps js_div1000.simps)
  moreover have "0 \<le> min w1 cw" "min w1 cw \<le> cw" "0 \<le> max (i - ca - cw - ai) 0" "0 \<le> max (q - ao) 0"
    using nn by simp_all
  then have "0 \<le> ?r" using assms(1-3) nn unfolding rt
    by (intro divide_nonneg_pos add_nonneg_nonneg mult_nonneg_nonneg) simp_all
  ultimately show ?thesis by blast
qed

lemma round6_nonneg: "0 \<le> x \<Longrightarrow> 0 \<le> round6_rat x"
  by (auto simp: round6_rat_def sgn_if intro!: divide_nonneg_pos)

lemma token_cost_nonneg:
  assumes "token_cost tb vendor pv m band (Fin i) (Fin q) u = Some c" "rates_ok (fst band)" "tables_ok tb" "usage_ok u"
  shows "\<exists>r \<ge> 0. c = Fin r"
proof -
  define fee where "fee = (case jm_get WEB_SEARCH_FEE pv of None \<Rightarrow> 0 | Some f \<Rightarrow> f)"
  obtain full scale tier where br: "billed_rates tb vendor pv m (fst band) (snd band) (pu_service_tier u) = Some (full, scale, tier)"
    using assms(1) by (cases "billed_rates tb vendor pv m (fst band) (snd band) (pu_service_tier u)") (auto simp: token_cost_def)
  with assms(1) obtain audio where ar: "audio_rates tb pv m scale u = Some audio" and
    c: "c = round6 (js_add (js_mul (token_total full audio (Fin i) (Fin q) u) (Fin tier))
          (js_mul (num_or0 (pu_web_search_requests u)) (Fin fee)))"
    unfolding token_cost_def fee_def by auto
  from billed_rates_nonneg [OF br assms(2,3)] have b: "all_nonneg full" "0 \<le> scale" "0 \<le> tier" by simp_all
  from audio_rates_nonneg [OF _ b(2) assms(3)] ar have a: "0 \<le> fst audio" "0 \<le> snd audio"
    by (cases audio; simp)+
  obtain t where t: "0 \<le> t" "token_total full audio (Fin i) (Fin q) u = Fin t"
    using token_total_nonneg [OF b(1) a assms(4)] by blast
  obtain w where w: "0 \<le> w" "num_or0 (pu_web_search_requests u) = Fin w"
    using assms(4) count_ok_num [of "pu_web_search_requests u"] by (auto simp: usage_ok_def)
  have "0 \<le> fee" unfolding fee_def by (rule mult_nonneg(4))
  then show ?thesis using t w b(3) by (simp add: c round6_nonneg)
qed

lemma lookupRates_ok: "lookupRates tb vendor m = Some (pv, base) \<Longrightarrow> tables_ok tb \<Longrightarrow> rates_ok base"
  unfolding tables_ok_def by (auto simp: lookupRates_def DEFAULT_PRICING_def split: option.splits dest!: catalogMap_value)

lemma band_rates_ok: "rates_ok base \<Longrightarrow> tables_ok tb \<Longrightarrow> rates_ok (fst (band_rates tb k base n))"
  unfolding tables_ok_def
  by (auto simp: band_rates_def LONG_CONTEXT_PRICING_def split: option.splits dest!: catalogMap_value)

text \<open>The price of a call is never negative and always a number, however inconsistent its token counts are
  (more cached or audio tokens than the whole prompt holds, say): with price tables that hold no negative rate
  and counts that are not negative, a priced call costs a finite amount of at least zero.\<close>

lemma estimateCost_nonneg:
  assumes "estimateCost tb vendor model u = Some c" "tables_ok tb" "usage_ok u"
    "pu_tokens_in u = Some (Fin i)" "pu_tokens_out u = Some (Fin q)"
  shows "\<exists>r \<ge> 0. c = Fin r"
proof -
  from assms(1,4,5) obtain m where m: "model = Some m" by (cases model) (simp_all add: estimateCost_def)
  with assms(1,4,5) obtain pv base where look: "lookupRates tb vendor m = Some (pv, base)"
    by (cases "lookupRates tb vendor m") (auto simp: estimateCost_def)
  from assms(1,4,5) m look have "token_cost tb vendor pv m (band_rates tb (pkey [pv, m]) base (Fin i)) (Fin i) (Fin q) u = Some c"
    by (simp add: estimateCost_def)
  moreover have "rates_ok (fst (band_rates tb (pkey [pv, m]) base (Fin i)))"
    using lookupRates_ok [OF look assms(2)] by (rule band_rates_ok) (rule assms(2))
  ultimately show ?thesis by (rule token_cost_nonneg) (rule assms)+
qed

definition sample_tables :: price_tables where
  "sample_tables = \<lparr>gt_tokenPricing = [(''openai/gpt-4o'', (1/400, 1/100, [1/800]))], gt_longContextPricing = [],
     gt_audioPricing = [], gt_serviceTierPricing = [],
     gt_unitPricing = [(''openai/whisper-1'', [(''seconds'', 1/10000)])], gt_imagePricing = []\<rparr>"

definition sample_usage :: pricing_usage where
  "sample_usage = \<lparr>pu_tokens_in = Some (Fin 10), pu_tokens_out = Some (Fin 100), pu_tokens_cached = Some (Fin 40),
     pu_tokens_cache_write = None, pu_tokens_cache_write_1h = None, pu_tokens_audio_in = None,
     pu_tokens_audio_out = None, pu_web_search_requests = None, pu_service_tier = None, pu_provider_cost = None,
     pu_usage_units = Some (Fin 60), pu_usage_unit_type = Some ''seconds'', pu_image_quality = None, pu_image_size = None\<rparr>"

text \<open>A vendor priced at another's list prices is missing from \<open>hasPrice\<close> for models with unit prices only,
  so such a call is priced at the model asked for, which may have no price.\<close>

lemma fallback_unit_price_missed:
  "\<not> hasPrice sample_tables ''azure-openai'' (Some ''whisper-1'') \<and>
   usageCost sample_tables ''azure-openai'' (Some ''whisper-1'') sample_usage \<noteq> None \<and>
   costFields sample_tables ''azure-openai'' (Some ''my-deployment'') (Some ''whisper-1'') sample_usage = None"
  by code_simp

end
