(* ===== verification/Budget_Middleware.thy ===== *)
theory Budget_Middleware
  imports Budget_Decide Budget_Store Budget_Downgrade Pricing
begin

text \<open>
  The budget middleware (the second half of \<open>gateway/src/middlewares/psBudget/index.ts\<close>, and
  \<open>runtime.ts\<close>): estimate, decision, downgrade, reservation with its release, the call, and the
  settlement. The provider a call names and the vendor it is priced at come from \<open>ps-telemetry.ts\<close>.

  The store is reached through \<open>budget_env\<close>, whose operations may be rejected (\<open>None\<close>); the calls of other
  clients may change the store's state within each of them. The rest of the middleware chain is \<open>be_next\<close>,
  and what it answered is an abstract \<open>'r\<close> of which the code reads the status, the cache header and the priced
  cost. \<open>be_parse\<close> is \<open>JSON.parse\<close>, \<open>be_jsonLength\<close> the length of \<open>JSON.stringify\<close>, \<open>be_scan\<close> the detector
  of personal data. The handler keeps the decisions it counted and the calls it let through in its state.

  A streamed answer is returned before it is settled: the handler leaves a \<open>pending\<close> settlement behind, and
  \<open>finish_stream\<close> is what runs when the stream has ended, with whatever its summary was priced at.
\<close>

subsection \<open>The runtime\<close>

record budget_runtime =
  rt_config :: budget_config
  rt_reservationTtlMs :: rat

definition DEFAULT_RESERVATION_TTL_MS :: rat where
  "DEFAULT_RESERVATION_TTL_MS = 15 * 60 * 1000"

definition reservationTtlOf :: "string option \<Rightarrow> rat" where
  "reservationTtlOf v = (case v of None \<Rightarrow> DEFAULT_RESERVATION_TTL_MS
     | Some s \<Rightarrow> (case js_Number s of Fin n \<Rightarrow> if 0 < n then n else DEFAULT_RESERVATION_TTL_MS
                  | _ \<Rightarrow> DEFAULT_RESERVATION_TTL_MS))"

text \<open>The module variable \<open>runtime\<close>: \<open>None\<close> while undefined, \<open>Some None\<close> for null. The limits gauge is set for
  every budget of a runtime.\<close>

definition limit_gauge :: "budget_runtime option \<Rightarrow> (string \<times> string \<times> rat) list" where
  "limit_gauge rt = (case rt of None \<Rightarrow> []
     | Some r \<Rightarrow> map (\<lambda>b. (bg_id b, window_text (bg_window b), bg_limitUsd b)) (bc_budgets (rt_config r)))"

definition getBudgetRuntime ::
  "(string \<Rightarrow> json option) \<Rightarrow> (string, string) jmap \<Rightarrow> budget_runtime option option
   \<Rightarrow> (config_error + budget_runtime option) \<times> budget_runtime option option" where
  "getBudgetRuntime parse environ runtime =
    (case runtime of Some rt \<Rightarrow> (Inr rt, runtime)
     | None \<Rightarrow>
        (case budgetConfigFromText parse (jm_get environ ''PS_BUDGETS'') (jm_get environ ''PS_BUDGET_NAMESPACE'') of
           Inl err \<Rightarrow> (Inl err, None)
         | Inr config \<Rightarrow>
            (let rt = map_option (\<lambda>c. \<lparr>rt_config = c,
                   rt_reservationTtlMs = reservationTtlOf (jm_get environ ''PS_BUDGET_RESERVATION_TTL_MS'')\<rparr>) config
             in (Inr rt, Some rt))))"

subsection \<open>What a call names\<close>

definition json_str :: "json option \<Rightarrow> string option" where
  "json_str v = (case v of Some (JStr s) \<Rightarrow> Some s | _ \<Rightarrow> None)"

definition first_target :: "json option \<Rightarrow> json option" where
  "first_target config = (case prop_of config ''targets'' of
     Some (JArr (t # _)) \<Rightarrow> Some t | Some (JObj fs) \<Rightarrow> map_of fs ''0'' | _ \<Rightarrow> None)"

text \<open>\<open>config?.name ?? config?.targets?.[0]?.name\<close>, when it is a string.\<close>

definition config_field :: "(string \<Rightarrow> json option) \<Rightarrow> string option \<Rightarrow> string \<Rightarrow> string option" where
  "config_field parse raw name =
    (case nonempty raw of None \<Rightarrow> None
     | Some txt \<Rightarrow> (case parse txt of None \<Rightarrow> None
         | Some config \<Rightarrow> json_str (json_nullish (prop_of (Some config) name) (prop_of (first_target (Some config)) name))))"

definition providerFromHeaders :: "(string \<Rightarrow> json option) \<Rightarrow> (string, string) jmap \<Rightarrow> string option" where
  "providerFromHeaders parse headers =
    or_str (jm_get headers ''x-portkey-provider'') (config_field parse (jm_get headers ''x-portkey-config'') ''provider'')"

definition detectVendor :: "string \<Rightarrow> string option \<Rightarrow> string" where
  "detectVendor url provider =
    (if truthy_str provider then to_lower (the provider)
     else if includes_str url ''openai.com'' then ''openai''
     else if includes_str url ''anthropic.com'' then ''anthropic''
     else if includes_str url ''googleapis.com'' \<or> includes_str url ''generativelanguage'' then ''google''
     else if includes_str url ''cohere.com'' then ''cohere''
     else if includes_str url ''mistral.ai'' then ''mistral''
     else ''unknown'')"

definition requestTarget :: "(string \<Rightarrow> json option) \<Rightarrow> (string, string) jmap \<Rightarrow> served_target" where
  "requestTarget parse headers =
    (let direct = jm_get headers ''x-portkey-custom-host'';
         host = (if truthy_str direct then direct
                 else nullish (config_field parse (jm_get headers ''x-portkey-config'') ''custom_host'') direct)
     in \<lparr>st_provider = providerFromHeaders parse headers, st_customHost = nonempty host, st_model = None\<rparr>)"

definition BILLED_PATHS :: "string list" where
  "BILLED_PATHS = [''/v1/chat/completions'', ''/v1/completions'', ''/v1/messages'', ''/v1/responses'',
     ''/v1/embeddings'', ''/v1/rerank'', ''/v1/images/generations'', ''/v1/images/edits'', ''/v1/audio/speech'',
     ''/v1/audio/transcriptions'', ''/v1/audio/translations'', ''/v1/ocr'']"

text \<open>What the handler reads of the context. \<open>bq_owner\<close> is the verified identity's subject hash, \<open>bq_json\<close> the
  parsed body (\<open>None\<close> when it is not JSON), \<open>bq_uuid\<close> the reservation id drawn for the call.\<close>

record budget_request =
  bq_method :: string
  bq_path :: string
  bq_url :: string
  bq_headers :: "(string, string) jmap"
  bq_owner :: "string option"
  bq_json :: "json option"
  bq_route :: "ps_route option"
  bq_gate :: "data_policy_gate option"
  bq_uuid :: string

record ('s, 'r) budget_env =
  be_read :: "string list \<Rightarrow> int \<Rightarrow> 's \<Rightarrow> budget_usage list option \<times> 's"
  be_reserve :: "reserve_args \<Rightarrow> 's \<Rightarrow> reserve_result option \<times> 's"
  be_settle :: "string \<Rightarrow> string \<Rightarrow> jsnum \<Rightarrow> jsnum \<Rightarrow> rat \<Rightarrow> 's \<Rightarrow> bool \<times> 's"
  be_next :: "json option \<Rightarrow> ps_route option \<Rightarrow> 's \<Rightarrow> 'r option \<times> 's"
  be_status :: "'r \<Rightarrow> int"
  be_cacheStatus :: "'r \<Rightarrow> string option"
  be_streams :: "'r \<Rightarrow> bool"
  be_cost :: "ps_route option \<Rightarrow> 'r \<Rightarrow> jsnum option"
  be_tables :: price_tables
  be_parse :: "string \<Rightarrow> json option"
  be_jsonLength :: "json \<Rightarrow> nat"
  be_scan :: "json option \<Rightarrow> string list"
  be_urlOrigin :: "string \<Rightarrow> string option"

definition ruleFor ::
  "('s, 'r) budget_env \<Rightarrow> route_policy \<Rightarrow> budget_request \<Rightarrow> json option \<Rightarrow> data_policy_rule option" where
  "ruleFor env p rq body =
    (case bq_gate rq of Some g \<Rightarrow> dg_rule g
     | None \<Rightarrow>
        if rp_dataPolicy p = None then None
        else let pii = (if escalatesOnPii p then be_scan env body else [])
             in dataPolicyRule p (fst (classifySensitivity p (jm_get (bq_headers rq) ''x-ps-data-classification'') pii)))"

definition input_tokens :: "('s, 'r) budget_env \<Rightarrow> json option \<Rightarrow> nat" where
  "input_tokens env body =
    (case prop_of body ''messages'' of Some (JArr ms) \<Rightarrow> estimateInputTokens ms
     | _ \<Rightarrow> (be_jsonLength env (json_or (json_nullish (prop_of body ''input'') (prop_of body ''prompt'')) (JStr [])) + 3) div 4)"

definition output_tokens :: "json option \<Rightarrow> jsnum" where
  "output_tokens body =
    (case present (json_nullish (json_nullish (prop_of body ''max_tokens'') (prop_of body ''max_completion_tokens''))
              (prop_of body ''max_output_tokens'')) of
       None \<Rightarrow> DEFAULT_OUTPUT_TOKENS | Some v \<Rightarrow> js_to_number v)"

definition no_usage :: pricing_usage where
  "no_usage = \<lparr>pu_tokens_in = None, pu_tokens_out = None, pu_tokens_cached = None, pu_tokens_cache_write = None,
     pu_tokens_cache_write_1h = None, pu_tokens_audio_in = None, pu_tokens_audio_out = None,
     pu_web_search_requests = None, pu_service_tier = None, pu_provider_cost = None, pu_usage_units = None,
     pu_usage_unit_type = None, pu_image_quality = None, pu_image_size = None\<rparr>"

definition finite_num_opt :: "jsnum option \<Rightarrow> bool" where
  "finite_num_opt v \<longleftrightarrow> (case v of Some n \<Rightarrow> is_finite n | None \<Rightarrow> False)"

definition estimateOf ::
  "('s, 'r) budget_env \<Rightarrow> route_policy \<Rightarrow> string \<Rightarrow> json option \<Rightarrow> ps_route option \<Rightarrow> jsnum" where
  "estimateOf env p vendor body route =
    (if finite_num_opt (map_option pr_estCost route) then pr_estCost (the route)
     else case nonempty (json_str (prop_of body ''model'')) of
       None \<Rightarrow> Fin 0
     | Some model \<Rightarrow>
        (let tokensIn = input_tokens env body; tokensOut = output_tokens body;
             priced = estimateCost (be_tables env) vendor (Some model)
               (no_usage\<lparr>pu_tokens_in := Some (Fin (of_nat tokensIn)),
                         pu_tokens_out := Some (if is_array (prop_of body ''messages'') then tokensOut else Fin 0)\<rparr>)
         in if finite_num_opt priced then the priced
            else (case tierOf p model of None \<Rightarrow> Fin 0 | Some t \<Rightarrow> estimateTierCost t tokensIn tokensOut)))"

text \<open>The actual cost, as \<open>actualCost\<close> filters the priced one.\<close>

definition actualCost :: "jsnum option \<Rightarrow> rat option" where
  "actualCost cost = (case cost of Some (Fin c) \<Rightarrow> if 0 \<le> c then Some c else None | _ \<Rightarrow> None)"

subsection \<open>Reading and deciding\<close>

text \<open>What the detached settlement of a streamed answer still holds.\<close>

record pending =
  pn_id :: string
  pn_estimate :: jsnum
  pn_matched :: "matched list"

record 's budget_mw =
  mw_store :: 's
  mw_pending :: "pending option"
  mw_records :: "(string \<times> budget_state \<times> string) list"
  mw_calls :: "(json option \<times> ps_route option) list"

fun uniq :: "'a list \<Rightarrow> 'a list" where
  "uniq [] = []"
| "uniq (x # xs) = x # filter (\<lambda>y. y \<noteq> x) (uniq xs)"

definition status_of :: "matched \<Rightarrow> jsnum option \<Rightarrow> status" where
  "status_of m spent = matched.extend m \<lparr>sa_spent = spent, sa_state = budgetState (ma_budget m) spent\<rparr>"

definition used_map :: "string list \<Rightarrow> budget_usage list \<Rightarrow> (string, jsnum) jmap" where
  "used_map keys usage = zip keys (map (\<lambda>u. js_add (bu_spent u) (bu_reserved u)) usage)"

text \<open>A store that reports fewer usages than keys makes the loop throw, inside the \<open>try\<close>.\<close>

definition read_statuses ::
  "('s, 'r) budget_env \<Rightarrow> matched list \<Rightarrow> int \<Rightarrow> 's \<Rightarrow> bool \<times> status list \<times> 's" where
  "read_statuses env ms nowMs s =
    (let keys = uniq (map ma_key ms) in
     case be_read env keys nowMs s of
       (Some usage, s') \<Rightarrow>
        if length usage < length keys then (False, map (\<lambda>m. status_of m None) ms, s')
        else (True, map (\<lambda>m. status_of m (Some (case jm_get (used_map keys usage) (ma_key m) of None \<Rightarrow> Fin 0 | Some x \<Rightarrow> x))) ms, s')
     | (None, s') \<Rightarrow> (False, map (\<lambda>m. status_of m None) ms, s'))"

definition record_all :: "string \<Rightarrow> status list \<Rightarrow> 's budget_mw \<Rightarrow> 's budget_mw" where
  "record_all action ss st =
    st\<lparr>mw_records := mw_records st @ map (\<lambda>s. (bg_id (ma_budget s), sa_state s, action)) ss\<rparr>"

subsection \<open>Downgrade\<close>

text \<open>The call's body, route and estimate after step 3, and whether it was downgraded.\<close>

definition downgraded_route :: "route_policy \<Rightarrow> json \<Rightarrow> ps_route option \<Rightarrow> model_tier \<times> jsnum \<Rightarrow> ps_route" where
  "downgraded_route p body route pick =
    \<lparr>pr_requestedModel = (case nullish (map_option pr_requestedModel route) (body_model body) of
        Some m \<Rightarrow> m | None \<Rightarrow> ''auto''),
     pr_servedModel = mt_model (fst pick), pr_group = mt_group (fst pick),
     pr_reason = (case route of None \<Rightarrow> ''budget'' | Some r \<Rightarrow> pr_reason r) @ ''+budget-downgrade'',
     pr_estCost = snd pick,
     pr_sensitivityLevel = (case route of None \<Rightarrow> None | Some r \<Rightarrow> pr_sensitivityLevel r),
     pr_sensitivitySource = (case route of None \<Rightarrow> None | Some r \<Rightarrow> pr_sensitivitySource r),
     pr_candidates = Some (downgradeCandidates p (case route of None \<Rightarrow> None | Some r \<Rightarrow> pr_candidates r) pick
        (estimateInputTokens (json_messages body)) (body_max_tokens body))\<rparr>"

definition downgrade_pick ::
  "('s, 'r) budget_env \<Rightarrow> route_policy \<Rightarrow> budget_request \<Rightarrow> json \<Rightarrow> jsnum \<Rightarrow> jsnum \<Rightarrow> (model_tier \<times> jsnum) option" where
  "downgrade_pick env p rq body estimate ceil =
    pickDowngrade p
      \<lparr>dr_approxInputTokens = estimateInputTokens (json_messages body), dr_maxOutputTokens = body_max_tokens body,
       dr_useCase = jm_get (bq_headers rq) ''x-ps-use-case''\<rparr>
      (ruleFor env p rq (Some body)) estimate ceil
      (\<lambda>t. tierServesTarget (be_urlOrigin env) t (Some (requestTarget (be_parse env) (bq_headers rq))))"

definition downgrade_step ::
  "('s, 'r) budget_env \<Rightarrow> route_policy \<Rightarrow> budget_request \<Rightarrow> jsnum option \<Rightarrow> json option \<Rightarrow> ps_route option \<Rightarrow> jsnum
   \<Rightarrow> bool \<times> json option \<times> ps_route option \<times> jsnum" where
  "downgrade_step env p rq ceil body route estimate =
    (case (ceil, body) of
       (Some c, Some b) \<Rightarrow>
        if js_gt estimate c \<and> is_array (prop_of (Some b) ''messages'') then
          (case downgrade_pick env p rq b estimate c of
             None \<Rightarrow> (False, body, route, estimate)
           | Some pick \<Rightarrow> (True, Some (set_model (mt_model (fst pick)) b), Some (downgraded_route p b route pick), snd pick))
        else (False, body, route, estimate)
     | _ \<Rightarrow> (False, body, route, estimate))"

subsection \<open>Reservation, release and settlement\<close>

text \<open>\<open>release\<close>: errors are ignored.\<close>

fun release_all :: "('s, 'r) budget_env \<Rightarrow> string \<Rightarrow> jsnum \<Rightarrow> matched list \<Rightarrow> 's \<Rightarrow> 's" where
  "release_all env rid estimate [] s = s"
| "release_all env rid estimate (m # ms) s =
    release_all env rid estimate ms (snd (be_settle env (ma_key m) rid estimate (Fin 0) (of_int (ma_ttlSeconds m)) s))"

definition tightest_of :: "status list \<Rightarrow> status option" where
  "tightest_of onKey =
    (case filter (\<lambda>s. bg_mode (ma_budget s) = Block) onKey of [] \<Rightarrow> None
     | b # bs \<Rightarrow> Some (foldl (\<lambda>x y. if bg_limitUsd (ma_budget y) < bg_limitUsd (ma_budget x) then y else x) b bs))"

record reserve_ctx =
  rx_onStoreError :: store_error_mode
  rx_statuses :: "status list"
  rx_uuid :: string
  rx_estimate :: jsnum
  rx_nowMs :: int
  rx_ttlMs :: rat

definition reserve_call :: "reserve_ctx \<Rightarrow> string \<Rightarrow> status option \<Rightarrow> reserve_args" where
  "reserve_call cx key tightest =
    \<lparr>ra_key = key, ra_id = rx_uuid cx, ra_amount = rx_estimate cx, ra_nowMs = of_int (rx_nowMs cx),
     ra_ttlMs = rx_ttlMs cx, ra_limit = map_option (\<lambda>t. bg_limitUsd (ma_budget t)) tightest\<rparr>"

definition to_matched :: "status \<Rightarrow> matched" where
  "to_matched s = matched.truncate s"

text \<open>Step 4. The result is a refusal, or the budgets reserved. A store that refuses a reservation without a
  limit makes \<open>exceeded\<close> throw after the release, inside the \<open>try\<close>: the loop goes on.\<close>

fun reserve_loop ::
  "('s, 'r) budget_env \<Rightarrow> reserve_ctx \<Rightarrow> string list \<Rightarrow> matched list \<Rightarrow> 's budget_mw
   \<Rightarrow> (budget_refusal + matched list) \<times> 's budget_mw" where
  "reserve_loop env cx [] reserved st = (Inr reserved, st)"
| "reserve_loop env cx (key # keys) reserved st =
    (let onKey = filter (\<lambda>s. ma_key s = key) (rx_statuses cx);
         tightest = tightest_of onKey;
         (r, s') = be_reserve env (reserve_call cx key tightest) (mw_store st);
         st' = st\<lparr>mw_store := s'\<rparr>;
         released = record_all ''block'' (rx_statuses cx)
           (st\<lparr>mw_store := release_all env (rx_uuid cx) (rx_estimate cx) reserved s'\<rparr>)
     in case r of
          Some res \<Rightarrow>
            if rr_ok res then reserve_loop env cx keys (reserved @ map to_matched (take 1 onKey)) st'
            else (case tightest of
                    Some t \<Rightarrow> (Inl (budgetExceededResponse (to_matched t) (js_add (rr_spent res) (rr_reserved res)) (rx_nowMs cx)), released)
                  | None \<Rightarrow> reserve_loop env cx keys reserved released)
        | None \<Rightarrow>
            (case tightest of
               Some t \<Rightarrow> if rx_onStoreError cx = Closed_on_error
                  then (Inl (storeUnavailableResponse (bg_id (ma_budget t))), released)
                  else reserve_loop env cx keys reserved st'
             | None \<Rightarrow> reserve_loop env cx keys reserved st'))"

fun settle_all ::
  "('s, 'r) budget_env \<Rightarrow> string \<Rightarrow> jsnum \<Rightarrow> rat option \<Rightarrow> matched list \<Rightarrow> string list \<Rightarrow> 's \<Rightarrow> 's" where
  "settle_all env rid estimate actual ms [] s = s"
| "settle_all env rid estimate actual ms (key # keys) s =
    (let ttl = (case List.find (\<lambda>m. ma_key m = key) ms of None \<Rightarrow> 0 | Some m \<Rightarrow> ma_ttlSeconds m)
     in settle_all env rid estimate actual ms keys
          (snd (be_settle env key rid estimate (case actual of None \<Rightarrow> estimate | Some a \<Rightarrow> Fin a) (of_int ttl) s)))"

text \<open>An answer that costs nothing: an error or a cache hit.\<close>

definition free_answer :: "('s, 'r) budget_env \<Rightarrow> 'r \<Rightarrow> bool" where
  "free_answer env r \<longleftrightarrow>
     400 \<le> be_status env r \<or> ends_with (case be_cacheStatus env r of None \<Rightarrow> [] | Some h \<Rightarrow> h) ''HIT''"

text \<open>The settlement of a streamed answer, when its stream has ended. \<open>cost\<close> is what its summary was priced at,
  \<open>None\<close> when it is unpriced or pricing it threw.\<close>

definition finish_stream :: "('s, 'r) budget_env \<Rightarrow> pending \<Rightarrow> jsnum option \<Rightarrow> 's \<Rightarrow> 's" where
  "finish_stream env pn cost s =
    settle_all env (pn_id pn) (pn_estimate pn) (actualCost cost) (pn_matched pn) (uniq (map ma_key (pn_matched pn))) s"

subsection \<open>The handler\<close>

text \<open>\<open>Passed\<close>: the handler stood aside and the chain ran without budgets. \<open>Served\<close> carries the context value
  \<open>psBudget\<close>.\<close>

datatype 'r budget_outcome =
    Passed
  | Refused budget_refusal
  | Served budget_state string bool 'r
  | Upstream_threw

definition call_next ::
  "('s, 'r) budget_env \<Rightarrow> json option \<Rightarrow> ps_route option \<Rightarrow> 's budget_mw \<Rightarrow> 'r option \<times> 's budget_mw" where
  "call_next env body route st =
    (let (r, s') = be_next env body route (mw_store st)
     in (r, st\<lparr>mw_store := s', mw_calls := mw_calls st @ [(body, route)]\<rparr>))"

text \<open>Step 5. A free answer is settled at nothing and any other one at its priced cost, or at the estimate when it has
  none (\<open>be_cost\<close> is \<open>None\<close>: unpriced, or reading or pricing the bodies threw); a stream is left pending.\<close>

definition run_call ::
  "('s, 'r) budget_env \<Rightarrow> reserve_ctx \<Rightarrow> budget_decision \<Rightarrow> bool \<Rightarrow> matched list \<Rightarrow> json option \<Rightarrow> ps_route option
   \<Rightarrow> matched list \<Rightarrow> 's budget_mw \<Rightarrow> 'r budget_outcome \<times> 's budget_mw" where
  "run_call env cx d downgraded ms body route reserved st =
    (let st1 = record_all (if downgraded then ''downgraded'' else ''none'') (rx_statuses cx) st;
         (r, st2) = call_next env body route st1
     in case r of
          None \<Rightarrow> (Upstream_threw, st2\<lparr>mw_store := release_all env (rx_uuid cx) (rx_estimate cx) reserved (mw_store st2)\<rparr>)
        | Some x \<Rightarrow> (Served (de_state d) (de_budgetId d) downgraded x,
            if \<not> free_answer env x \<and> be_streams env x
            then st2\<lparr>mw_pending := Some \<lparr>pn_id = rx_uuid cx, pn_estimate = rx_estimate cx, pn_matched = ms\<rparr>\<rparr>
            else st2\<lparr>mw_store := settle_all env (rx_uuid cx) (rx_estimate cx)
                   (if free_answer env x then Some 0 else actualCost (be_cost env route x)) ms
                   (uniq (map ma_key ms)) (mw_store st2)\<rparr>))"

text \<open>Steps 3 to 5, for a call no block budget refused.\<close>

definition admit_call ::
  "('s, 'r) budget_env \<Rightarrow> budget_runtime \<Rightarrow> route_policy \<Rightarrow> int \<Rightarrow> budget_request \<Rightarrow> matched list \<Rightarrow> json option
   \<Rightarrow> bool \<Rightarrow> status list \<Rightarrow> budget_decision \<Rightarrow> 's budget_mw \<Rightarrow> 'r budget_outcome \<times> 's budget_mw" where
  "admit_call env rt p nowMs rq ms body readable ss d st =
    (let vendor = detectVendor (bq_url rq) (providerFromHeaders (be_parse env) (bq_headers rq));
         (downgraded, body', route', estimate) =
           downgrade_step env p rq (de_ceilingUsd d) body (bq_route rq) (estimateOf env p vendor body (bq_route rq));
         cx = \<lparr>rx_onStoreError = bc_onStoreError (rt_config rt), rx_statuses = ss, rx_uuid = bq_uuid rq,
               rx_estimate = estimate, rx_nowMs = nowMs, rx_ttlMs = rt_reservationTtlMs rt\<rparr>
     in case (if readable then reserve_loop env cx (uniq (map ma_key ms)) [] st else (Inr [], st)) of
          (Inl refusal, st') \<Rightarrow> (Refused refusal, st')
        | (Inr reserved, st') \<Rightarrow> run_call env cx d downgraded ms body' route' reserved st')"

definition body_of :: "budget_request \<Rightarrow> json option" where
  "body_of rq = (if includes_str (case jm_get (bq_headers rq) ''content-type'' of None \<Rightarrow> [] | Some v \<Rightarrow> v)
     ''application/json'' then bq_json rq else None)"

definition start :: "'s \<Rightarrow> 's budget_mw" where
  "start s = \<lparr>mw_store = s, mw_pending = None, mw_records = [], mw_calls = []\<rparr>"

definition psBudget ::
  "('s, 'r) budget_env \<Rightarrow> budget_runtime option \<Rightarrow> route_policy \<Rightarrow> int \<Rightarrow> budget_request \<Rightarrow> 's
   \<Rightarrow> 'r budget_outcome \<times> 's budget_mw" where
  "psBudget env runtime p nowMs rq s =
    (let pass = (Passed, snd (call_next env (bq_json rq) (bq_route rq) (start s)))
     in if bq_method rq \<noteq> ''POST'' \<or> starts_with (bq_path rq) ''/v1/mcp/'' \<or> bq_path rq \<notin> set BILLED_PATHS then pass
        else case runtime of None \<Rightarrow> pass
        | Some rt \<Rightarrow>
           (case matchBudgets (rt_config rt) (attributesOf (bq_headers rq) (bq_owner rq)) nowMs of
              [] \<Rightarrow> pass
            | m # rest \<Rightarrow>
               (let ms = m # rest;
                    (readable, ss, s') = read_statuses env ms nowMs s;
                    st' = (start s)\<lparr>mw_store := s'\<rparr>
                in case decide ss (bc_onStoreError (rt_config rt)) of
                     None \<Rightarrow> pass
                   | Some d \<Rightarrow>
                      (case de_blockedBy d of
                         Some b \<Rightarrow> (Refused (case sa_spent b of
                              None \<Rightarrow> storeUnavailableResponse (bg_id (ma_budget b))
                            | Some x \<Rightarrow> budgetExceededResponse (to_matched b) x nowMs), record_all ''block'' ss st')
                       | None \<Rightarrow> admit_call env rt p nowMs rq ms (body_of rq) readable ss d st'))))"

subsection \<open>On the in-memory store\<close>

text \<open>The store as the handler sees it: its clock and the store, which other calls may change (\<open>other\<close>) before
  each operation. Its operations never reject.\<close>

definition mem_read_op ::
  "(rat \<times> memory_store \<Rightarrow> rat \<times> memory_store) \<Rightarrow> string list \<Rightarrow> int \<Rightarrow> rat \<times> memory_store
   \<Rightarrow> budget_usage list option \<times> rat \<times> memory_store" where
  "mem_read_op other keys nowMs s =
    (let (clk, st) = other s; (us, st') = mb_read clk keys (of_int nowMs) st in (Some us, clk, st'))"

definition mem_reserve_op ::
  "(rat \<times> memory_store \<Rightarrow> rat \<times> memory_store) \<Rightarrow> reserve_args \<Rightarrow> rat \<times> memory_store
   \<Rightarrow> reserve_result option \<times> rat \<times> memory_store" where
  "mem_reserve_op other a s =
    (let (clk, st) = other s; (r, st') = mb_reserve clk a st in (Some r, clk, st'))"

definition mem_settle_op ::
  "(rat \<times> memory_store \<Rightarrow> rat \<times> memory_store) \<Rightarrow> string \<Rightarrow> string \<Rightarrow> jsnum \<Rightarrow> jsnum \<Rightarrow> rat \<Rightarrow> rat \<times> memory_store
   \<Rightarrow> bool \<times> rat \<times> memory_store" where
  "mem_settle_op other key rid amount actual ttl s =
    (let (clk, st) = other s in (True, clk, mb_settle clk key rid amount actual ttl st))"

definition on_memory :: "(rat \<times> memory_store \<Rightarrow> rat \<times> memory_store) \<Rightarrow> (rat \<times> memory_store, 'r) budget_env \<Rightarrow> bool" where
  "on_memory other env \<longleftrightarrow> be_read env = mem_read_op other \<and> be_reserve env = mem_reserve_op other \<and>
     be_settle env = mem_settle_op other"

text \<open>The calls the handler looks at, and the matched budgets of one.\<close>

definition billed :: "budget_request \<Rightarrow> bool" where
  "billed rq \<longleftrightarrow> bq_method rq = ''POST'' \<and> \<not> starts_with (bq_path rq) ''/v1/mcp/'' \<and> bq_path rq \<in> set BILLED_PATHS"

definition budgets_of :: "budget_runtime \<Rightarrow> int \<Rightarrow> budget_request \<Rightarrow> matched list" where
  "budgets_of rt nowMs rq = matchBudgets (rt_config rt) (attributesOf (bq_headers rq) (bq_owner rq)) nowMs"

text \<open>A call of a model only the policy prices, under a block budget of 10 and a downgrade budget with 1/1000
  left: it is moved to \<open>mini\<close>.\<close>

definition sample_budgets :: budget_runtime where
  "sample_budgets = \<lparr>rt_config = \<lparr>bc_namespace = ''ps'', bc_onStoreError = Closed_on_error,
     bc_budgets = [\<lparr>bg_id = ''all'', bg_scope = Global, bg_subject = None, bg_window = Day, bg_limitUsd = 10,
                     bg_mode = Block, bg_warnAt = 1/2\<rparr>,
                   \<lparr>bg_id = ''save'', bg_scope = Global, bg_subject = None, bg_window = Day, bg_limitUsd = 1/1000,
                     bg_mode = Downgrade, bg_warnAt = 1/2\<rparr>]\<rparr>,
     rt_reservationTtlMs = 900\<rparr>"

definition sample_call :: budget_request where
  "sample_call = \<lparr>bq_method = ''POST'', bq_path = ''/v1/chat/completions'', bq_url = [],
     bq_headers = [(''content-type'', ''application/json'')], bq_owner = None,
     bq_json = Some (JObj [(''model'', JStr ''big''), (''max_tokens'', JNum (Fin 2)), (''messages'', JArr [])]),
     bq_route = None, bq_gate = None, bq_uuid = ''u''\<rparr>"

definition sample_env :: "(rat \<times> memory_store, int) budget_env" where
  "sample_env = \<lparr>be_read = mem_read_op (\<lambda>s. s), be_reserve = mem_reserve_op (\<lambda>s. s),
     be_settle = mem_settle_op (\<lambda>s. s), be_next = (\<lambda>b r s. (Some 200, s)), be_status = (\<lambda>r. r),
     be_cacheStatus = (\<lambda>r. None), be_streams = (\<lambda>r. False), be_cost = (\<lambda>route r. Some (Fin (1/100))), be_tables = sample_tables,
     be_parse = (\<lambda>_. None), be_jsonLength = (\<lambda>_. 0), be_scan = (\<lambda>_. []), be_urlOrigin = (\<lambda>_. None)\<rparr>"

abbreviation "sample_policy_open \<equiv> sample_policy\<lparr>rp_dataPolicy := None\<rparr>"

lemma sample_applies: "billed sample_call" "budgets_of sample_budgets 0 sample_call \<noteq> []"
  by code_simp+

lemma sample_run:
  "case psBudget sample_env (Some sample_budgets) sample_policy_open 0 sample_call (0, mb_init) of
     (Served st bid dg r, st') \<Rightarrow> dg \<and> mw_calls st' \<noteq> [] | _ \<Rightarrow> False"
  by code_simp

lemma sample_runE:
  obtains state bid r st where
    "psBudget sample_env (Some sample_budgets) sample_policy_open 0 sample_call (0, mb_init) = (Served state bid True r, st)"
    "mw_calls st \<noteq> []"
  using sample_run
  by (cases "psBudget sample_env (Some sample_budgets) sample_policy_open 0 sample_call (0, mb_init)")
     (auto split: budget_outcome.splits)

subsection \<open>What the handler guarantees\<close>

lemma downgraded_route_facts:
  "pr_servedModel (downgraded_route p body route pick) = mt_model (fst pick)"
  "pr_estCost (downgraded_route p body route pick) = snd pick"
  by (simp_all add: downgraded_route_def)

lemma downgrade_step_cases:
  assumes "downgrade_step env p rq ceil body route est = (dg, body', route', est')"
  shows "(\<not> dg \<and> body' = body \<and> route' = route \<and> est' = est) \<or>
    (dg \<and> (\<exists>c b pick. ceil = Some c \<and> body = Some b \<and> is_array (prop_of body ''messages'') \<and> js_gt est c \<and>
       downgrade_pick env p rq b est c = Some pick \<and> body' = Some (set_model (mt_model (fst pick)) b) \<and>
       route' = Some (downgraded_route p b route pick) \<and> est' = snd pick))"
  using assms by (auto simp: downgrade_step_def split: option.splits if_splits)

lemma reserve_loop_calls: "mw_calls (snd (reserve_loop env cx keys rs st)) = mw_calls st"
proof (induction keys arbitrary: rs st)
  case (Cons k ks)
  then show ?case
    by (auto simp: Let_def record_all_def case_prod_beta split: option.splits)
qed simp

lemma run_call_calls:
  "mw_calls (snd (run_call env cx d dg ms body route rs st)) = mw_calls st @ [(body, route)]"
  by (auto simp: run_call_def call_next_def record_all_def Let_def case_prod_beta split: option.splits)

lemma run_call_not_refused:
  "fst (run_call env cx d dg ms body route rs st) \<noteq> Refused r"
  by (auto simp: run_call_def call_next_def record_all_def Let_def case_prod_beta split: option.splits)

lemma start_simps [simp]: "(start s)\<lparr>mw_store := s'\<rparr> = start s'" "mw_store (start s) = s" "mw_calls (start s) = []" "mw_records (start s) = []" "mw_pending (start s) = None"
  by (simp_all add: start_def)

lemma length_statuses: "read_statuses env ms t s = (rd, ss, s') \<Longrightarrow> length ss = length ms"
  by (auto simp: read_statuses_def Let_def split: option.splits prod.splits if_splits)

lemma psBudget_decided:
  assumes "billed rq" "budgets_of rt t rq = ms" "ms \<noteq> []" "read_statuses env ms t s = (rd, ss, s')"
  obtains d where "decide ss (bc_onStoreError (rt_config rt)) = Some d"
    "psBudget env (Some rt) p t rq s =
      (case de_blockedBy d of
         Some b \<Rightarrow> (Refused (case sa_spent b of
                      None \<Rightarrow> storeUnavailableResponse (bg_id (ma_budget b))
                    | Some x \<Rightarrow> budgetExceededResponse (to_matched b) x t), record_all ''block'' ss (start s'))
       | None \<Rightarrow> admit_call env rt p t rq ms (body_of rq) rd ss d (start s'))"
proof -
  from assms(3) length_statuses [OF assms(4)] have "ss \<noteq> []" by auto
  then obtain d where d: "decide ss (bc_onStoreError (rt_config rt)) = Some d"
    by (cases ss) (auto simp: decide_def Let_def case_prod_beta)
  from assms(3) obtain m rest where m: "ms = m # rest" by (cases ms) auto
  show ?thesis
    by (rule that [OF d], insert assms(1,2,4) d, unfold m)
       (simp add: psBudget_def billed_def budgets_of_def Let_def)
qed

lemma admit_call_cases:
  assumes "admit_call env rt p t rq ms body rd ss d st = (out, st')"
  shows "\<exists>dg body' route' e cx. rx_statuses cx = ss \<and> rx_uuid cx = bq_uuid rq \<and> rx_estimate cx = e \<and>
     rx_onStoreError cx = bc_onStoreError (rt_config rt) \<and>
     downgrade_step env p rq (de_ceilingUsd d) body (bq_route rq)
       (estimateOf env p (detectVendor (bq_url rq) (providerFromHeaders (be_parse env) (bq_headers rq))) body (bq_route rq)) =
       (dg, body', route', e) \<and>
     ((\<exists>refusal. rd \<and> reserve_loop env cx (uniq (map ma_key ms)) [] st = (Inl refusal, st') \<and> out = Refused refusal) \<or>
      (\<exists>rs st1. (if rd then reserve_loop env cx (uniq (map ma_key ms)) [] st else (Inr [], st)) = (Inr rs, st1) \<and>
         run_call env cx d dg ms body' route' rs st1 = (out, st')))"
proof -
  let ?est = "estimateOf env p (detectVendor (bq_url rq) (providerFromHeaders (be_parse env) (bq_headers rq))) body (bq_route rq)"
  obtain dg body' route' e where ds:
    "downgrade_step env p rq (de_ceilingUsd d) body (bq_route rq) ?est = (dg, body', route', e)" by (metis surj_pair)
  let ?cx = "\<lparr>rx_onStoreError = bc_onStoreError (rt_config rt), rx_statuses = ss, rx_uuid = bq_uuid rq,
      rx_estimate = e, rx_nowMs = t, rx_ttlMs = rt_reservationTtlMs rt\<rparr>"
  obtain r st1 where r: "(if rd then reserve_loop env ?cx (uniq (map ma_key ms)) [] st else (Inr [], st)) = (r, st1)"
    by (metis surj_pair)
  from assms have "(case r of Inl refusal \<Rightarrow> (Refused refusal, st1)
      | Inr rs \<Rightarrow> run_call env ?cx d dg ms body' route' rs st1) = (out, st')"
    unfolding admit_call_def Let_def ds prod.case r by (cases r) simp_all
  with r ds show ?thesis
    by (intro exI [of _ dg] exI [of _ body'] exI [of _ route'] exI [of _ e] exI [of _ ?cx])
       (cases r; auto split: if_splits)
qed

lemma admit_call_upstream:
  assumes "admit_call env rt p t rq ms body rd ss d st = (out, st')" "mw_calls st = []"
  shows "if mw_calls st' = [] then \<exists>r. out = Refused r
    else (\<forall>r. out \<noteq> Refused r) \<and> (\<exists>dg body' route' e.
       downgrade_step env p rq (de_ceilingUsd d) body (bq_route rq)
         (estimateOf env p (detectVendor (bq_url rq) (providerFromHeaders (be_parse env) (bq_headers rq))) body (bq_route rq)) =
         (dg, body', route', e) \<and> mw_calls st' = [(body', route')] \<and>
       (\<forall>state bid dg' r. out = Served state bid dg' r \<longrightarrow> dg' = dg))"
  using admit_call_cases [OF assms(1)]
proof (elim disjE exE conjE)
  fix dg body' route' e cx refusal
  assume "reserve_loop env cx (uniq (map ma_key ms)) [] st = (Inl refusal, st')" "out = Refused refusal"
  then show ?thesis using assms(2) reserve_loop_calls [of env cx "uniq (map ma_key ms)" "[]" st] by simp
next
  fix dg body' route' e cx rs st1
  assume a: "downgrade_step env p rq (de_ceilingUsd d) body (bq_route rq)
         (estimateOf env p (detectVendor (bq_url rq) (providerFromHeaders (be_parse env) (bq_headers rq))) body (bq_route rq)) =
         (dg, body', route', e)"
    "(if rd then reserve_loop env cx (uniq (map ma_key ms)) [] st else (Inr [], st)) = (Inr rs, st1)"
    "run_call env cx d dg ms body' route' rs st1 = (out, st')"
  have "mw_calls st1 = []"
    using a(2) assms(2) reserve_loop_calls [of env cx "uniq (map ma_key ms)" "[]" st] by (auto split: if_splits)
  with run_call_calls [of env cx d dg ms body' route' rs st1] run_call_not_refused [of env cx d dg ms body' route' rs st1] a(3)
  have c: "mw_calls st' = [(body', route')]" "\<forall>r. out \<noteq> Refused r" by auto
  have "\<forall>state bid dg' r. out = Served state bid dg' r \<longrightarrow> dg' = dg"
    using a(3) by (auto simp: run_call_def Let_def case_prod_beta split: option.splits)
  with a(1) c show ?thesis by auto
qed

text \<open>C12. A refused call never reaches the provider, and a call never gets past an exhausted block budget: the
  handler either refuses the call before the rest of the chain runs, or runs it exactly once; and it runs it
  only if no matching block budget was read at or above its limit, or the store could not be read and the
  configuration is open on store errors. (A spend read as \<open>NaN\<close>, which the reservation of a call without a
  finite estimate makes it, is at no limit and lets calls pass: \<open>nan_reservation_admits\<close>.)\<close>

theorem block_budgets_enforced:
  assumes "billed rq" "budgets_of rt t rq \<noteq> []" "psBudget env (Some rt) p t rq s = (out, st)"
    "read_statuses env (budgets_of rt t rq) t s = (readable, ss, s1)"
  shows "length (mw_calls st) \<le> 1 \<and> (mw_calls st = [] \<longleftrightarrow> (\<exists>r. out = Refused r)) \<and>
    (mw_calls st \<noteq> [] \<longrightarrow> (\<forall>x \<in> set ss. bg_mode (ma_budget x) = Block \<longrightarrow>
       (case sa_spent x of Some u \<Rightarrow> \<not> js_ge u (Fin (bg_limitUsd (ma_budget x)))
        | None \<Rightarrow> \<not> readable \<and> bc_onStoreError (rt_config rt) = Open_on_error)))"
proof -
  obtain d where d: "decide ss (bc_onStoreError (rt_config rt)) = Some d"
    and ps: "psBudget env (Some rt) p t rq s =
      (case de_blockedBy d of
         Some b \<Rightarrow> (Refused (case sa_spent b of
                      None \<Rightarrow> storeUnavailableResponse (bg_id (ma_budget b))
                    | Some x \<Rightarrow> budgetExceededResponse (to_matched b) x t), record_all ''block'' ss (start s1))
       | None \<Rightarrow> admit_call env rt p t rq (budgets_of rt t rq) (body_of rq) readable ss d (start s1))"
    by (rule psBudget_decided [OF assms(1) refl assms(2,4), where p = p])
  show ?thesis
  proof (cases "de_blockedBy d")
    case (Some b)
    then show ?thesis using ps assms(3) by (auto simp: record_all_def)
  next
    case None
    then have adm: "admit_call env rt p t rq (budgets_of rt t rq) (body_of rq) readable ss d (start s1) = (out, st)"
      using ps assms(3) by simp
    from None decide_blockedBy [OF d] have nb: "\<forall>x \<in> set ss. \<not> blocks (bc_onStoreError (rt_config rt)) x"
      by (auto simp: find_None_iff)
    have st: "sa_state x = budgetState (ma_budget x) (sa_spent x)" "sa_spent x = None \<Longrightarrow> \<not> readable" if "x \<in> set ss" for x
      using assms(4) that
      by (auto simp: read_statuses_def Let_def status_of_def matched.defs split: option.splits prod.splits if_splits)
    have "case sa_spent x of Some u \<Rightarrow> \<not> js_ge u (Fin (bg_limitUsd (ma_budget x)))
        | None \<Rightarrow> \<not> readable \<and> bc_onStoreError (rt_config rt) = Open_on_error"
      if "x \<in> set ss" "bg_mode (ma_budget x) = Block" for x
      using nb that st [OF that(1)] by (cases "bc_onStoreError (rt_config rt)")
        (auto simp: blocks_def exhausted_def budgetState_def split: option.splits if_splits)
    with admit_call_upstream [OF adm] show ?thesis by (auto split: if_splits)
  qed
qed

theorem block_budgets_enforced_witness:
  "\<exists>out st. psBudget sample_env (Some sample_budgets) sample_policy_open 0 sample_call (0, mb_init) = (out, st) \<and>
     length (mw_calls st) = 1 \<and> (\<forall>r. out \<noteq> Refused r)"
proof -
  obtain state bid r st where run:
    "psBudget sample_env (Some sample_budgets) sample_policy_open 0 sample_call (0, mb_init) = (Served state bid True r, st)"
    "mw_calls st \<noteq> []" by (rule sample_runE)
  obtain rd ss s1 where rs: "read_statuses sample_env (budgets_of sample_budgets 0 sample_call) 0 (0, mb_init) = (rd, ss, s1)"
    by (metis surj_pair)
  from block_budgets_enforced [OF sample_applies run(1) rs] run(2) have "length (mw_calls st) = 1"
    by (cases "mw_calls st") simp_all
  with run(1) show ?thesis by blast
qed

text \<open>C14. A downgraded call leaves within the data policy and cheaper: when the handler reports a downgrade, the
  one call it let through names a model whose tier the policy lists, which meets the data policy rule of the
  call, applies to its provider and host, and is estimated at strictly less than the call as it came.\<close>

theorem downgraded_call_complies:
  assumes "billed rq" "budgets_of rt t rq \<noteq> []" "psBudget env (Some rt) p t rq s = (Served state bid True r, st)"
    "body_of rq = Some body"
  shows "\<exists>tier route c. mw_calls st = [(Some (set_model (mt_model tier) body), Some route)] \<and>
    tier \<in> set (all_tiers p) \<and> tierComplies tier (ruleFor env p rq (Some body)) \<and>
    tierServesTarget (be_urlOrigin env) tier (Some (requestTarget (be_parse env) (bq_headers rq))) \<and>
    pr_servedModel route = mt_model tier \<and> pr_estCost route = c \<and>
    js_lt c (estimateOf env p (detectVendor (bq_url rq) (providerFromHeaders (be_parse env) (bq_headers rq)))
               (Some body) (bq_route rq))"
proof -
  obtain rd ss s1 where rs: "read_statuses env (budgets_of rt t rq) t s = (rd, ss, s1)" by (metis surj_pair)
  obtain d where d: "decide ss (bc_onStoreError (rt_config rt)) = Some d" and ps: "psBudget env (Some rt) p t rq s =
      (case de_blockedBy d of
         Some b \<Rightarrow> (Refused (case sa_spent b of
                      None \<Rightarrow> storeUnavailableResponse (bg_id (ma_budget b))
                    | Some x \<Rightarrow> budgetExceededResponse (to_matched b) x t), record_all ''block'' ss (start s1))
       | None \<Rightarrow> admit_call env rt p t rq (budgets_of rt t rq) (body_of rq) rd ss d (start s1))"
    by (rule psBudget_decided [OF assms(1) refl assms(2) rs, where p = p])
  with assms(3) have "admit_call env rt p t rq (budgets_of rt t rq) (body_of rq) rd ss d (start s1) = (Served state bid True r, st)"
    by (auto split: option.splits)
  from admit_call_upstream [OF this] obtain body' route' e where
    ds: "downgrade_step env p rq (de_ceilingUsd d) (body_of rq) (bq_route rq)
         (estimateOf env p (detectVendor (bq_url rq) (providerFromHeaders (be_parse env) (bq_headers rq))) (body_of rq) (bq_route rq)) =
         (True, body', route', e)" and calls: "mw_calls st = [(body', route')]"
    by (auto split: if_splits)
  from downgrade_step_cases [OF ds] assms(4) obtain c pick where
    pick: "downgrade_pick env p rq body (estimateOf env p (detectVendor (bq_url rq) (providerFromHeaders (be_parse env) (bq_headers rq)))
       (Some body) (bq_route rq)) c = Some pick"
    and b: "body' = Some (set_model (mt_model (fst pick)) body)" "route' = Some (downgraded_route p body (bq_route rq) pick)"
    by auto
  obtain tier cost where tc: "pick = (tier, cost)" by (cases pick)
  show ?thesis
    using pickDowngrade_sound [OF pick [unfolded downgrade_pick_def tc]]
      calls b
    by (intro exI [of _ tier] exI [of _ "downgraded_route p body (bq_route rq) pick"] exI [of _ cost])
       (simp add: tc downgraded_route_facts)
qed

theorem downgraded_call_complies_witness:
  "\<exists>st (tier :: model_tier) route. snd (psBudget sample_env (Some sample_budgets) sample_policy_open 0 sample_call (0, mb_init)) = st \<and>
     (\<exists>b. mw_calls st = [(Some (set_model (mt_model tier) b), Some route)]) \<and> pr_servedModel route = mt_model tier"
proof -
  obtain state bid r st where run:
    "psBudget sample_env (Some sample_budgets) sample_policy_open 0 sample_call (0, mb_init) = (Served state bid True r, st)"
    "mw_calls st \<noteq> []" by (rule sample_runE)
  have "body_of sample_call \<noteq> None" by code_simp
  then obtain b where b: "body_of sample_call = Some b" by blast
  from downgraded_call_complies [OF sample_applies run(1) b] obtain tier :: model_tier and route where
    "mw_calls st = [(Some (set_model (mt_model tier) b), Some route)]" "pr_servedModel route = mt_model tier" by blast
  with run(1) show ?thesis unfolding run(1) snd_conv by blast
qed

text \<open>The keys on which a call holds a reservation, live or lapsed. \<open>not_ours\<close>: what other clients do adds none
  under this call's id.\<close>

definition owned :: "string \<Rightarrow> memory_store \<Rightarrow> string set" where
  "owned rid st = {k. jm_get (res_of st k) rid \<noteq> None}"

definition not_ours :: "string \<Rightarrow> (rat \<times> memory_store \<Rightarrow> rat \<times> memory_store) \<Rightarrow> bool" where
  "not_ours rid f \<longleftrightarrow> (\<forall>s. owned rid (snd (f s)) \<subseteq> owned rid (snd s))"

lemma not_oursD: "not_ours rid f \<Longrightarrow> f s = (c, st') \<Longrightarrow> owned rid st' \<subseteq> owned rid (snd s)"
  unfolding not_ours_def by (metis snd_conv)

lemma jm_get_live: "jm_get (live t res) i = Some y \<Longrightarrow> \<exists>z. jm_get res i = Some z"
  by (auto simp: jm_get_dom live_def dest!: jm_get_Some_in intro: rev_image_eqI)

lemma owned_usage: "mb_usage clk key nowMs st = (u, st') \<Longrightarrow> owned rid st' \<subseteq> owned rid st"
  by (auto simp: owned_def dest!: mb_usage_eq split: if_splits dest: jm_get_live)

lemma owned_read: "mb_read clk keys nowMs st = (us, st') \<Longrightarrow> owned rid st' \<subseteq> owned rid st"
proof (induction keys arbitrary: us st st')
  case (Cons k ks)
  obtain u st1 where u: "mb_usage clk k nowMs st = (u, st1)" by fastforce
  obtain us' st2 where us: "mb_read clk ks nowMs st1 = (us', st2)" by fastforce
  from Cons.IH [OF us] owned_usage [OF u, of rid] Cons.prems show ?case by (auto simp: u us)
qed simp

lemma owned_reserve:
  assumes "mb_reserve clk a st = (r, st')"
  shows "owned rid st' \<subseteq> (if rr_ok r then insert (ra_key a) (owned rid st) else owned rid st)"
proof -
  obtain u st1 where u: "mb_usage clk (ra_key a) (ra_nowMs a) st = (u, st1)" by fastforce
  have sub: "owned rid st1 \<subseteq> owned rid st" by (rule owned_usage [OF u])
  have "res_of st' = (if rr_ok r
      then (res_of st1)(ra_key a := jm_set (ra_id a)
             \<lparr>rs_amount = ra_amount a, rs_expiresAt = ra_nowMs a + ra_ttlMs a\<rparr> (res_of st1 (ra_key a)))
      else res_of st1)"
    using u assms by (auto simp: mb_reserve_def Let_def res_of_def fun_eq_iff split: option.splits if_splits)
  with sub show ?thesis by (auto simp: owned_def split: if_splits)
qed

lemma owned_settle: "owned rid (mb_settle clk key rid amt act ttl st) \<subseteq> owned rid st - {key}"
proof -
  obtain u st2 where u: "mb_usage clk key 0 (mb_drop key rid st) = (u, st2)" by fastforce
  have r: "res_of (st2\<lparr>mb_counters := m\<rparr>) = res_of st2" for m by (simp add: res_of_def fun_eq_iff)
  have "owned rid (mb_settle clk key rid amt act ttl st) \<subseteq> owned rid (mb_drop key rid st)"
    using owned_usage [OF u, of rid] u
    by (auto simp: mb_settle_def Let_def owned_def r split: option.splits)
  moreover have "owned rid (mb_drop key rid st) \<subseteq> owned rid st - {key}"
    using mb_drop_eq [of key rid st] by (auto simp: owned_def)
  ultimately show ?thesis by blast
qed

lemma settle_op_owned:
  assumes "on_memory other env" "not_ours rid other" "be_settle env key rid amt act ttl s = (b, s')"
  shows "owned rid (snd s') \<subseteq> owned rid (snd s) - {key}"
proof -
  obtain clk st where o: "other s = (clk, st)" by fastforce
  from assms(1,3) o have "s' = (clk, mb_settle clk key rid amt act ttl st)"
    by (simp add: on_memory_def mem_settle_op_def)
  with owned_settle [of rid clk key amt act ttl st] not_oursD [OF assms(2) o] show ?thesis by auto
qed

lemma release_all_owned:
  assumes "on_memory other env" "not_ours rid other"
  shows "owned rid (snd (release_all env rid e ms s)) \<subseteq> owned rid (snd s) - ma_key ` set ms"
proof (induction ms arbitrary: s)
  case (Cons m ms)
  obtain b s' where s': "be_settle env (ma_key m) rid e (Fin 0) (of_int (ma_ttlSeconds m)) s = (b, s')" by (metis surj_pair)
  from Cons [of s'] settle_op_owned [OF assms s'] show ?case by (auto simp: s')
qed simp

lemma settle_all_owned:
  assumes "on_memory other env" "not_ours rid other"
  shows "owned rid (snd (settle_all env rid e act ms keys s)) \<subseteq> owned rid (snd s) - set keys"
proof (induction keys arbitrary: s)
  case (Cons k ks)
  let ?ttl = "case List.find (\<lambda>m. ma_key m = k) ms of None \<Rightarrow> 0 | Some m \<Rightarrow> ma_ttlSeconds m"
  obtain b s' where s': "be_settle env k rid e (case act of None \<Rightarrow> e | Some a \<Rightarrow> Fin a) (of_int ?ttl) s = (b, s')" by (metis surj_pair)
  from Cons [of s'] settle_op_owned [OF assms s'] show ?case by (auto simp: s' Let_def)
qed simp

lemma reserve_op_owned:
  assumes "on_memory other env" "not_ours rid other" "be_reserve env a s = (r, s')"
  shows "\<exists>res. r = Some res \<and> owned rid (snd s') \<subseteq> (if rr_ok res then insert (ra_key a) (owned rid (snd s)) else owned rid (snd s))"
proof -
  obtain clk st where o: "other s = (clk, st)" by fastforce
  obtain res st' where m: "mb_reserve clk a st = (res, st')" by fastforce
  from assms(1,3) o m have "r = Some res" "s' = (clk, st')"
    by (simp_all add: on_memory_def mem_reserve_op_def)
  with owned_reserve [OF m, of rid] not_oursD [OF assms(2) o] show ?thesis by (auto split: if_splits)
qed

lemma set_uniq [simp]: "set (uniq xs) = set xs"
  by (induction xs) auto

lemma reserve_loop_owned:
  assumes "on_memory other env" "not_ours (rx_uuid cx) other"
    "set keys \<subseteq> ma_key ` set (rx_statuses cx)" "owned (rx_uuid cx) (snd (mw_store st)) \<subseteq> ma_key ` set rs"
    "ma_key ` set rs \<subseteq> K" "set keys \<subseteq> K" "reserve_loop env cx keys rs st = (out, st')"
  shows "case out of Inl _ \<Rightarrow> owned (rx_uuid cx) (snd (mw_store st')) = {}
    | Inr rs' \<Rightarrow> owned (rx_uuid cx) (snd (mw_store st')) \<subseteq> ma_key ` set rs' \<and> ma_key ` set rs' \<subseteq> K"
  using assms(3-7)
proof (induction keys arbitrary: rs st)
  case (Cons key keys)
  let ?onKey = "filter (\<lambda>s. ma_key s = key) (rx_statuses cx)"
  let ?call = "reserve_call cx key (tightest_of ?onKey)"
  obtain r s' where s': "be_reserve env ?call (mw_store st) = (r, s')" by (metis surj_pair)
  have key: "ra_key ?call = key" by (simp add: reserve_call_def)
  from reserve_op_owned [OF assms(1,2) s'] obtain res where res: "r = Some res"
    "owned (rx_uuid cx) (snd s') \<subseteq> (if rr_ok res then insert key (owned (rx_uuid cx) (snd (mw_store st)))
       else owned (rx_uuid cx) (snd (mw_store st)))" unfolding key by blast
  from Cons.prems(1) have "?onKey \<noteq> []" by (auto simp: filter_empty_conv)
  then obtain o1 rest where o1: "?onKey = o1 # rest" by (cases ?onKey) auto
  then have "o1 \<in> set ?onKey" by simp
  then have o1k: "ma_key o1 = key" by simp
  define released where "released = record_all ''block'' (rx_statuses cx)
     (st\<lparr>mw_store := release_all env (rx_uuid cx) (rx_estimate cx) rs s'\<rparr>)"
  have loop: "reserve_loop env cx (key # keys) rs st =
      (if rr_ok res then reserve_loop env cx keys (rs @ [to_matched o1]) (st\<lparr>mw_store := s'\<rparr>)
       else case tightest_of ?onKey of
              Some t \<Rightarrow> (Inl (budgetExceededResponse (to_matched t) (js_add (rr_spent res) (rr_reserved res)) (rx_nowMs cx)), released)
            | None \<Rightarrow> reserve_loop env cx keys rs released)"
    unfolding reserve_loop.simps Let_def s' res(1) released_def prod.case option.case by (simp add: o1)
  show ?case
  proof (cases "rr_ok res")
    case True
    have k: "ma_key (to_matched o1) = key" using o1k by (simp add: to_matched_def matched.defs)
    from True Cons.prems(5) loop have "reserve_loop env cx keys (rs @ [to_matched o1]) (st\<lparr>mw_store := s'\<rparr>) = (out, st')"
      by simp
    then show ?thesis
      by (rule Cons.IH [rotated 4]) (use Cons.prems(1-4) res(2) True k in auto)
  next
    case False
    have free: "owned (rx_uuid cx) (snd (mw_store released)) = {}"
      using release_all_owned [OF assms(1,2), of "rx_estimate cx" rs s'] res(2) False Cons.prems(2)
      by (simp add: released_def record_all_def) blast
    show ?thesis
    proof (cases "tightest_of ?onKey")
      case None
      with False Cons.prems(5) loop have "reserve_loop env cx keys rs released = (out, st')" by simp
      then show ?thesis by (rule Cons.IH [rotated 4]) (use Cons.prems(1-4) free in auto)
    next
      case (Some t)
      with False Cons.prems(5) loop have "(Inl (budgetExceededResponse (to_matched t) (js_add (rr_spent res) (rr_reserved res)) (rx_nowMs cx)), released) = (out, st')"
        by simp
      then show ?thesis using free by auto
    qed
  qed
qed auto

text \<open>The answer is a stream, which is settled when it has ended.\<close>

definition streamed :: "('s, 'r) budget_env \<Rightarrow> 'r budget_outcome \<Rightarrow> bool" where
  "streamed env out \<longleftrightarrow> (case out of Served state bid dg r \<Rightarrow> be_streams env r \<and> \<not> free_answer env r | _ \<Rightarrow> False)"

lemma reserve_loop_pending: "mw_pending (snd (reserve_loop env cx keys rs st)) = mw_pending st"
proof (induction keys arbitrary: rs st)
  case (Cons k ks)
  then show ?case
    by (auto simp: Let_def record_all_def case_prod_beta split: option.splits)
qed simp

lemma run_call_pending:
  assumes "mw_pending st = None" "run_call env cx d dg ms body route rs st = (out, st')"
  shows "mw_pending st' = (if streamed env out
    then Some \<lparr>pn_id = rx_uuid cx, pn_estimate = rx_estimate cx, pn_matched = ms\<rparr> else None)"
  using assms
  by (auto simp: run_call_def call_next_def record_all_def streamed_def Let_def case_prod_beta
      split: option.splits if_splits)

definition released_or_pending :: "string \<Rightarrow> matched list \<Rightarrow> (rat \<times> memory_store) budget_mw \<Rightarrow> bool" where
  "released_or_pending rid ms st \<longleftrightarrow>
    (case mw_pending st of None \<Rightarrow> owned rid (snd (mw_store st)) = {}
     | Some pn \<Rightarrow> pn_id pn = rid \<and> pn_matched pn = ms \<and> owned rid (snd (mw_store st)) \<subseteq> ma_key ` set ms)"

lemma run_call_owned:
  assumes "on_memory other env" "not_ours (rx_uuid cx) other" "\<And>b r. not_ours (rx_uuid cx) (\<lambda>s. snd (be_next env b r s))"
    "owned (rx_uuid cx) (snd (mw_store st)) \<subseteq> ma_key ` set rs" "ma_key ` set rs \<subseteq> ma_key ` set ms" "mw_pending st = None"
  shows "released_or_pending (rx_uuid cx) ms (snd (run_call env cx d dg ms body route rs st))"
proof -
  obtain r s' where n: "be_next env body route (mw_store st) = (r, s')" by (metis surj_pair)
  have sub: "owned (rx_uuid cx) (snd s') \<subseteq> ma_key ` set rs"
    using assms(3) [of body route] assms(4) n unfolding not_ours_def by (metis order_trans snd_conv)
  show ?thesis
  proof (cases r)
    case None
    then show ?thesis
      using release_all_owned [OF assms(1,2), of "rx_estimate cx" rs s'] sub n assms(6)
      by (auto simp: released_or_pending_def run_call_def call_next_def record_all_def Let_def)
  next
    case (Some x)
    have "owned (rx_uuid cx) (snd (settle_all env (rx_uuid cx) (rx_estimate cx) act ms (uniq (map ma_key ms)) s')) = {}" for act
      using settle_all_owned [OF assms(1,2), of "rx_estimate cx" act ms "uniq (map ma_key ms)" s'] sub assms(5) by simp blast
    with Some sub assms(5,6) n show ?thesis
      by (auto simp: released_or_pending_def run_call_def call_next_def record_all_def Let_def)
  qed
qed

lemma finish_stream_owned:
  assumes "on_memory other env" "not_ours rid other" "not_ours rid later" "released_or_pending rid ms st"
    "mw_pending st = Some pn"
  shows "owned rid (snd (finish_stream env pn cost (later (mw_store st)))) = {}"
proof -
  from assms(4,5) have pn: "pn_id pn = rid" "pn_matched pn = ms" and sub: "owned rid (snd (mw_store st)) \<subseteq> ma_key ` set ms"
    by (simp_all add: released_or_pending_def)
  have "owned rid (snd (later (mw_store st))) \<subseteq> ma_key ` set ms"
    using assms(3) sub unfolding not_ours_def by blast
  with settle_all_owned [OF assms(1,2), of "pn_estimate pn" "actualCost cost" ms "uniq (map ma_key ms)" "later (mw_store st)"]
  show ?thesis by (auto simp: finish_stream_def pn)
qed

lemma read_owned:
  assumes "on_memory other env" "not_ours rid other" "read_statuses env ms t s = (rd, ss, s')"
  shows "owned rid (snd s') \<subseteq> owned rid (snd s)"
proof -
  obtain clk st where o: "other s = (clk, st)" by fastforce
  obtain us st' where r: "mb_read clk (uniq (map ma_key ms)) (of_int t) st = (us, st')" by fastforce
  from assms(1,3) o r have "s' = (clk, st')"
    by (auto simp: read_statuses_def Let_def on_memory_def mem_read_op_def split: if_splits)
  with owned_read [OF r, of rid] not_oursD [OF assms(2) o] show ?thesis by auto
qed

lemma admit_call_owned:
  assumes "on_memory other env" "not_ours (bq_uuid rq) other"
    "\<And>b r. not_ours (bq_uuid rq) (\<lambda>s. snd (be_next env b r s))" "ma_key ` set ss = ma_key ` set ms"
    "owned (bq_uuid rq) (snd s) = {}" "admit_call env rt p t rq ms body rd ss d (start s) = (out, st)"
  shows "released_or_pending (bq_uuid rq) ms st \<and> (mw_pending st \<noteq> None \<longleftrightarrow> streamed env out)"
  using admit_call_cases [OF assms(6)]
proof (elim disjE exE conjE)
  fix cx refusal
  assume a: "rx_uuid cx = bq_uuid rq" "rx_statuses cx = ss" "out = Refused refusal"
    "reserve_loop env cx (uniq (map ma_key ms)) [] (start s) = (Inl refusal, st)"
  have "mw_pending st = None" using reserve_loop_pending [of env cx "uniq (map ma_key ms)" "[]" "start s"] a(4) by simp
  with reserve_loop_owned [OF assms(1) _ _ _ _ _ a(4), of "ma_key ` set ms"] assms(2,4,5) a(1-3) show ?thesis
    by (simp add: released_or_pending_def streamed_def)
next
  fix dg body' route' cx rs st1
  assume a: "rx_uuid cx = bq_uuid rq" "rx_statuses cx = ss"
    "(if rd then reserve_loop env cx (uniq (map ma_key ms)) [] (start s) else (Inr [], start s)) = (Inr rs, st1)"
    "run_call env cx d dg ms body' route' rs st1 = (out, st)"
  have none: "mw_pending st1 = None"
    using reserve_loop_pending [of env cx "uniq (map ma_key ms)" "[]" "start s"] a(3) by (auto split: if_splits)
  have "owned (rx_uuid cx) (snd (mw_store st1)) \<subseteq> ma_key ` set rs \<and> ma_key ` set rs \<subseteq> ma_key ` set ms"
  proof (cases rd)
    case True
    with a(3) have "reserve_loop env cx (uniq (map ma_key ms)) [] (start s) = (Inr rs, st1)" by simp
    from reserve_loop_owned [OF assms(1) _ _ _ _ _ this, of "ma_key ` set ms"] assms(2,4,5) a(1,2) show ?thesis by simp
  qed (use a assms(5) in \<open>auto\<close>)
  with run_call_owned [OF assms(1), of cx st1 rs ms d dg body' route'] run_call_pending [OF none a(4)] assms(2,3) none a(1,4)
  show ?thesis by simp
qed

text \<open>C13. No call leaks budget: on the in-memory store, whatever else happens to the store meanwhile, when the
  handler is done the call holds no reservation on any counter, whether the call was refused, answered,
  failed upstream or was let through without budgets. The one exception is an answer that is a stream (neither an
  error nor a cache hit), and only such an answer: it is returned with its settlement pending, and the
  settlement, which runs when the stream has ended, however much later and whatever its cost, releases everything the
  call holds.\<close>

theorem no_reservation_left:
  assumes "on_memory other env" "not_ours (bq_uuid rq) other"
    "\<And>b r. not_ours (bq_uuid rq) (\<lambda>s. snd (be_next env b r s))" "not_ours (bq_uuid rq) later"
    "owned (bq_uuid rq) (snd s) = {}" "psBudget env runtime p t rq s = (out, st)"
  shows "(mw_pending st \<noteq> None \<longleftrightarrow> streamed env out) \<and>
    (case mw_pending st of None \<Rightarrow> owned (bq_uuid rq) (snd (mw_store st)) = {}
     | Some pn \<Rightarrow> owned (bq_uuid rq) (snd (finish_stream env pn cost (later (mw_store st)))) = {})"
proof (cases "billed rq \<and> (\<exists>rt. runtime = Some rt \<and> budgets_of rt t rq \<noteq> [])")
  case False
  then have "(out, st) = (Passed, snd (call_next env (bq_json rq) (bq_route rq) (start s)))"
    using assms(6) by (auto simp: psBudget_def billed_def budgets_of_def Let_def split: option.splits list.splits if_splits)
  then show ?thesis
    using assms(3) [of "bq_json rq" "bq_route rq", unfolded not_ours_def, rule_format, of s] assms(5)
    by (simp add: call_next_def case_prod_beta streamed_def)
next
  case True
  then obtain rt where rt: "billed rq" "runtime = Some rt" "budgets_of rt t rq \<noteq> []" by blast
  let ?ms = "budgets_of rt t rq"
  obtain rd ss s1 where rs: "read_statuses env ?ms t s = (rd, ss, s1)" by (metis surj_pair)
  have keys: "ma_key ` set ss = ma_key ` set ?ms"
    using rs by (auto simp: read_statuses_def Let_def status_of_def matched.defs image_image split: option.splits prod.splits if_splits)
  have free: "owned (bq_uuid rq) (snd s1) = {}" using read_owned [OF assms(1,2) rs] assms(5) by simp
  obtain d where d: "decide ss (bc_onStoreError (rt_config rt)) = Some d" and ps: "psBudget env (Some rt) p t rq s =
      (case de_blockedBy d of
         Some b \<Rightarrow> (Refused (case sa_spent b of
                      None \<Rightarrow> storeUnavailableResponse (bg_id (ma_budget b))
                    | Some x \<Rightarrow> budgetExceededResponse (to_matched b) x t), record_all ''block'' ss (start s1))
       | None \<Rightarrow> admit_call env rt p t rq ?ms (body_of rq) rd ss d (start s1))"
    by (rule psBudget_decided [OF rt(1) refl rt(3) rs, where p = p])
  show ?thesis
  proof (cases "de_blockedBy d")
    case (Some b)
    then show ?thesis using ps assms(6) free rt(2) by (auto simp: record_all_def streamed_def)
  next
    case None
    with ps assms(6) rt(2) have "admit_call env rt p t rq ?ms (body_of rq) rd ss d (start s1) = (out, st)" by simp
    from admit_call_owned [OF assms(1-3) keys free this] finish_stream_owned [OF assms(1,2,4), of ?ms st]
    show ?thesis by (auto simp: released_or_pending_def split: option.splits)
  qed
qed

text \<open>The sample call answered by a stream: it is pending with its reservations, and released at the end.\<close>

definition sample_streams :: "(rat \<times> memory_store, int) budget_env" where
  "sample_streams = sample_env\<lparr>be_streams := (\<lambda>r. True)\<rparr>"

lemma sample_streamed:
  "case psBudget sample_streams (Some sample_budgets) sample_policy_open 0 sample_call (0, mb_init) of
     (out, st) \<Rightarrow> streamed sample_streams out \<and> mb_reservations (snd (mw_store st)) \<noteq> []"
  by code_simp

theorem no_reservation_left_witness:
  "\<exists>out st pn. psBudget sample_streams (Some sample_budgets) sample_policy_open 0 sample_call (0, mb_init) = (out, st) \<and>
     mw_pending st = Some pn \<and> owned ''u'' (snd (finish_stream sample_streams pn (Some (Fin 1)) (mw_store st))) = {}"
proof -
  obtain out st where run:
    "psBudget sample_streams (Some sample_budgets) sample_policy_open 0 sample_call (0, mb_init) = (out, st)"
    by (metis surj_pair)
  have u: "bq_uuid sample_call = ''u''" by (simp add: sample_call_def)
  have "(mw_pending st \<noteq> None \<longleftrightarrow> streamed sample_streams out) \<and>
    (case mw_pending st of None \<Rightarrow> owned (bq_uuid sample_call) (snd (mw_store st)) = {}
     | Some pn \<Rightarrow> owned (bq_uuid sample_call) (snd (finish_stream sample_streams pn (Some (Fin 1)) (mw_store st))) = {})"
    by (rule no_reservation_left [OF _ _ _ _ _ run, where other = "\<lambda>s. s" and later = "\<lambda>s. s"])
       (simp_all add: on_memory_def sample_streams_def sample_env_def not_ours_def owned_def mb_init_def res_of_def)
  moreover from sample_streamed run have "streamed sample_streams out" by simp
  ultimately show ?thesis using run u by auto
qed

end
