(* ===== verification/Telemetry_Sender.thy ===== *)
theory Telemetry_Sender
  imports Prelude
begin

text \<open>
  Delivery of telemetry events (\<open>gateway/src/middlewares/psTelemetrySender.ts\<close>): \<open>PSTelemetrySender\<close> as a
  state machine. The code between two suspensions of an asynchronous function is one step; what runs at the same time
  (an attempt waiting for its response, a back-off sleep, the drain loop with its workers) is part of the state:

  \<^item> \<open>sn_live\<close> are the pending events, by their \<open>id\<close> (an item is \<open>settled\<close> exactly when it has left \<open>live\<close>);
  \<^item> \<open>sn_tasks\<close> are the running \<open>process\<close> calls, each waiting for a response, holding the outcome of its
    attempt, or sleeping; \<open>tk_worker\<close> tells whether a drain worker awaits it;
  \<^item> \<open>sn_drain\<close> is where the drain loop is; \<open>sn_free\<close> counts the workers whose \<open>process\<close> call has returned.

  The response to a request and the time at which a step runs are part of the step's label. The \<open>catch\<close> of
  \<open>process\<close> is not modelled: nothing it encloses throws.
\<close>

subsection \<open>Data\<close>

datatype drop_reason =
  Buffer_overflow | Send_failed | Rate_limited | Server_skipped | Shutdown_drop | Serialization_failed

definition DROP_REASONS :: "drop_reason list" where
  "DROP_REASONS = [Buffer_overflow, Send_failed, Rate_limited, Server_skipped, Shutdown_drop, Serialization_failed]"

definition DEFAULT_MAX_PENDING :: int where "DEFAULT_MAX_PENDING = 1000"
definition DEFAULT_MAX_ATTEMPTS :: int where "DEFAULT_MAX_ATTEMPTS = 3"
definition MAX_RETRY_AFTER_MS :: rat where "MAX_RETRY_AFTER_MS = 300000"
definition DEFAULT_RETRY_AFTER_MS :: rat where "DEFAULT_RETRY_AFTER_MS = 1000"
definition DRAIN_CONCURRENCY :: nat where "DRAIN_CONCURRENCY = 8"

text \<open>The environment integers of \<open>fromEnv\<close>.\<close>

definition positiveInt :: "string option \<Rightarrow> int \<Rightarrow> int" where
  "positiveInt raw fallback =
    (case raw of None \<Rightarrow> fallback
     | Some s \<Rightarrow> (case js_integer (js_Number s) of Some n \<Rightarrow> if 0 < n then n else fallback | None \<Rightarrow> fallback))"

definition nonNegativeInt :: "string option \<Rightarrow> int \<Rightarrow> int" where
  "nonNegativeInt raw fallback =
    (case raw of None \<Rightarrow> fallback
     | Some s \<Rightarrow> if trim s = [] then fallback
         else (case js_integer (js_Number s) of Some n \<Rightarrow> if 0 \<le> n then n else fallback | None \<Rightarrow> fallback))"

text \<open>\<open>/^\d+(\.\d+)?$/\<close>\<close>

definition is_delta_seconds :: "string \<Rightarrow> bool" where
  "is_delta_seconds s =
    (let ip = takeWhile is_digit s; r = dropWhile is_digit s in
     ip \<noteq> [] \<and> (case r of [] \<Rightarrow> True | c # fp \<Rightarrow> c = CHR ''.'' \<and> fp \<noteq> [] \<and> list_all is_digit fp))"

text \<open>\<open>dateParse\<close> is \<open>Date.parse\<close>, \<open>None\<close> for NaN.\<close>

definition clamp_ms :: "rat \<Rightarrow> rat" where
  "clamp_ms ms = min (max ms 0) MAX_RETRY_AFTER_MS"

definition parseRetryAfterMs :: "(string \<Rightarrow> rat option) \<Rightarrow> rat \<Rightarrow> string option \<Rightarrow> rat option" where
  "parseRetryAfterMs dateParse now v =
    (case v of None \<Rightarrow> None
     | Some s \<Rightarrow>
        if s = [] then None
        else if is_delta_seconds (trim s)
          then (case decimal_num (trim s) of Fin q \<Rightarrow> Some (clamp_ms (q * 1000)) | _ \<Rightarrow> None)
        else map_option (\<lambda>at_ms. clamp_ms (at_ms - now)) (dateParse (trim s)))"

record sender_options =
  so_url :: string
  so_apiKey :: string
  so_maxPending :: int
  so_maxAttempts :: int
  so_retryBaseMs :: int
  so_shutdownTimeoutMs :: int

definition strip_slashes :: "string \<Rightarrow> string" where
  "strip_slashes s = rev (dropWhile (\<lambda>c. c = CHR ''/'') (rev s))"

definition fromEnv :: "(string, string) jmap \<Rightarrow> string \<Rightarrow> sender_options" where
  "fromEnv environ path =
    (let v = jm_get environ;
         base = strip_slashes (if truthy_str (v ''PS_COLLECTOR_URL'') then the (v ''PS_COLLECTOR_URL'') else ''http://localhost:8000'')
     in \<lparr>so_url = base @ path, so_apiKey = (case v ''PS_API_KEY'' of None \<Rightarrow> [] | Some k \<Rightarrow> k),
         so_maxPending = positiveInt (v ''PS_TELEMETRY_MAX_PENDING'') DEFAULT_MAX_PENDING,
         so_maxAttempts = positiveInt (v ''PS_TELEMETRY_MAX_ATTEMPTS'') DEFAULT_MAX_ATTEMPTS,
         so_retryBaseMs = positiveInt (v ''PS_TELEMETRY_RETRY_BASE_MS'') 200,
         so_shutdownTimeoutMs = nonNegativeInt (v ''PS_TELEMETRY_SHUTDOWN_TIMEOUT_MS'') 5000\<rparr>)"

definition retry_delay :: "int \<Rightarrow> nat \<Rightarrow> int" where
  "retry_delay retryBaseMs attempts = retryBaseMs * 2 ^ (attempts - 1)"

record 'e sender_config =
  sc_enabled :: bool
  sc_safe :: bool
  sc_maxPending :: nat
  sc_maxAttempts :: nat
  sc_serializes :: "'e \<Rightarrow> bool"
  sc_dateParse :: "string \<Rightarrow> rat option"

datatype outcome = Sent_ok nat | Failed drop_reason bool

datatype phase = Fetching | Resolved outcome | Sleeping

record task =
  tk_phase :: phase
  tk_worker :: bool

record batch_metadata =
  bd_seq :: nat
  bd_enqueued_total :: nat
  bd_dropped :: "(drop_reason \<times> nat) list"

datatype drain_state = Not_draining | Waiting nat rat | Working

record 'e sender =
  sn_seq :: nat
  sn_enqueued :: nat
  sn_sent :: nat
  sn_dropped :: "drop_reason \<Rightarrow> nat"
  sn_backlogReason :: "drop_reason option"
  sn_nextId :: nat
  sn_events :: "nat \<Rightarrow> 'e option"
  sn_attempts :: "nat \<Rightarrow> nat"
  sn_live :: "nat list"
  sn_queue :: "nat list"
  sn_tasks :: "(nat, task) jmap"
  sn_free :: nat
  sn_paused :: bool
  sn_resumeAt :: rat
  sn_pauses :: nat
  sn_woken :: bool
  sn_drain :: drain_state
  sn_closed :: bool
  sn_bodies :: "batch_metadata list"

definition sender_init :: "'e sender" where
  "sender_init = \<lparr>sn_seq = 0, sn_enqueued = 0, sn_sent = 0, sn_dropped = (\<lambda>_. 0), sn_backlogReason = None,
     sn_nextId = 0, sn_events = (\<lambda>_. None), sn_attempts = (\<lambda>_. 0), sn_live = [], sn_queue = [], sn_tasks = [],
     sn_free = 0, sn_paused = False, sn_resumeAt = 0, sn_pauses = 0, sn_woken = False, sn_drain = Not_draining,
     sn_closed = False, sn_bodies = []\<rparr>"

definition dropped_total :: "'e sender \<Rightarrow> nat" where
  "dropped_total st = sum_list (map (sn_dropped st) DROP_REASONS)"

subsection \<open>Operations\<close>

definition drop_events :: "drop_reason \<Rightarrow> nat \<Rightarrow> 'e sender \<Rightarrow> 'e sender" where
  "drop_events reason n st = st\<lparr>sn_dropped := (sn_dropped st)(reason := sn_dropped st reason + n)\<rparr>"

definition settle_event :: "nat \<Rightarrow> 'e sender \<Rightarrow> 'e sender" where
  "settle_event i st = st\<lparr>sn_live := removeAll i (sn_live st)\<rparr>"

definition pause_sending :: "rat \<Rightarrow> rat \<Rightarrow> 'e sender \<Rightarrow> 'e sender" where
  "pause_sending now delayMs st =
    st\<lparr>sn_paused := True, sn_pauses := sn_pauses st + 1, sn_resumeAt := now + delayMs\<rparr>"

definition request_body :: "'e sender \<Rightarrow> batch_metadata" where
  "request_body st = \<lparr>bd_seq = sn_seq st + 1, bd_enqueued_total = sn_enqueued st,
     bd_dropped = filter (\<lambda>e. snd e \<noteq> 0) (map (\<lambda>r. (r, sn_dropped st r)) DROP_REASONS)\<rparr>"

definition add_task :: "nat \<Rightarrow> phase \<Rightarrow> bool \<Rightarrow> 'e sender \<Rightarrow> 'e sender" where
  "add_task i ph w st = st\<lparr>sn_tasks := jm_set i \<lparr>tk_phase = ph, tk_worker = w\<rparr> (sn_tasks st)\<rparr>"

text \<open>The part of \<open>attempt\<close> before its request: an unsafe URL or an event that does not serialise fails for
  good; otherwise the body takes the next \<open>seq\<close> and the request starts.\<close>

definition start_attempt :: "'e sender_config \<Rightarrow> nat \<Rightarrow> bool \<Rightarrow> 'e sender \<Rightarrow> 'e sender" where
  "start_attempt cfg i w st =
    (if \<not> sc_safe cfg then add_task i (Resolved (Failed Send_failed True)) w st
     else if \<not> (case sn_events st i of Some e \<Rightarrow> sc_serializes cfg e | None \<Rightarrow> True)
       then add_task i (Resolved (Failed Serialization_failed True)) w st
     else add_task i Fetching w (st\<lparr>sn_seq := sn_seq st + 1, sn_bodies := sn_bodies st @ [request_body st]\<rparr>))"

text \<open>One worker's loop, up to its first suspension: settled events are skipped; it ends on an empty queue or
  while paused.\<close>

fun worker_run :: "'e sender_config \<Rightarrow> nat list \<Rightarrow> 'e sender \<Rightarrow> 'e sender" where
  "worker_run cfg [] st = st\<lparr>sn_queue := []\<rparr>"
| "worker_run cfg (i # q) st =
    (if sn_paused st then st\<lparr>sn_queue := i # q\<rparr>
     else if i \<in> set (sn_live st) then start_attempt cfg i True (st\<lparr>sn_queue := q\<rparr>)
     else worker_run cfg q st)"

fun spawn_workers :: "'e sender_config \<Rightarrow> nat \<Rightarrow> 'e sender \<Rightarrow> 'e sender" where
  "spawn_workers cfg 0 st = st"
| "spawn_workers cfg (Suc n) st =
    (if sn_queue st = [] then st else spawn_workers cfg n (worker_run cfg (sn_queue st) st))"

text \<open>The drain loop, from the test of its inner loop and from the test of its outer one, up to the next
  suspension.\<close>

definition wait_or_work :: "'e sender_config \<Rightarrow> rat \<Rightarrow> 'e sender \<Rightarrow> 'e sender" where
  "wait_or_work cfg now st =
    (if sn_paused st then st\<lparr>sn_drain := Waiting (sn_pauses st) (max now (sn_resumeAt st)), sn_woken := False\<rparr>
     else spawn_workers cfg DRAIN_CONCURRENCY (st\<lparr>sn_drain := Working, sn_free := 0\<rparr>))"

definition drain_loop :: "'e sender_config \<Rightarrow> rat \<Rightarrow> 'e sender \<Rightarrow> 'e sender" where
  "drain_loop cfg now st =
    (if sn_queue st = [] then st\<lparr>sn_drain := Not_draining\<rparr> else wait_or_work cfg now st)"

definition drain :: "'e sender_config \<Rightarrow> rat \<Rightarrow> 'e sender \<Rightarrow> 'e sender" where
  "drain cfg now st = (if sn_drain st \<noteq> Not_draining then st else drain_loop cfg now st)"

text \<open>The search of \<open>requeue\<close> for the place of an event, from the end.\<close>

definition insert_queue :: "nat \<Rightarrow> nat list \<Rightarrow> nat list" where
  "insert_queue i q = (let later = takeWhile (\<lambda>j. i < j) (rev q) in
     take (length q - length later) q @ [i] @ rev later)"

definition requeue :: "'e sender_config \<Rightarrow> rat \<Rightarrow> nat \<Rightarrow> 'e sender \<Rightarrow> 'e sender" where
  "requeue cfg now i st = drain cfg now (st\<lparr>sn_queue := insert_queue i (sn_queue st)\<rparr>)"

definition send_event :: "'e sender_config \<Rightarrow> rat \<Rightarrow> 'e \<Rightarrow> 'e sender \<Rightarrow> 'e sender" where
  "send_event cfg now e st0 =
    (if \<not> sc_enabled cfg then st0
     else let st = st0\<lparr>sn_enqueued := sn_enqueued st0 + 1\<rparr> in
       if sn_closed st then drop_events Shutdown_drop 1 st
       else if sc_maxPending cfg \<le> length (sn_live st)
         then drop_events (case sn_backlogReason st of None \<Rightarrow> Buffer_overflow | Some r \<Rightarrow> r) 1 st
       else let i = sn_nextId st;
                st1 = st\<lparr>sn_nextId := i + 1, sn_events := (sn_events st)(i := Some e),
                         sn_attempts := (sn_attempts st)(i := 0), sn_live := sn_live st @ [i]\<rparr>
            in if sn_paused st1 then requeue cfg now i st1 else start_attempt cfg i False st1)"

text \<open>A \<open>process\<close> call that returns; its worker, if it has one, goes on.\<close>

definition end_task :: "nat \<Rightarrow> 'e sender \<Rightarrow> 'e sender" where
  "end_task i st =
    (case jm_get (sn_tasks st) i of
       None \<Rightarrow> st
     | Some t \<Rightarrow> st\<lparr>sn_tasks := jm_del i (sn_tasks st), sn_free := sn_free st + (if tk_worker t then 1 else 0)\<rparr>)"

text \<open>The answer to a request, as \<open>attempt\<close> and \<open>skippedOf\<close> read it.\<close>

datatype collector_answer =
    Accepted "int option"
  | Too_many_requests "string option"
  | Not_accepted

definition skippedOf :: "int option \<Rightarrow> nat" where
  "skippedOf n = (case n of None \<Rightarrow> 0 | Some k \<Rightarrow> nat (max 0 (min k 1)))"

definition set_phase :: "nat \<Rightarrow> phase \<Rightarrow> 'e sender \<Rightarrow> 'e sender" where
  "set_phase i ph st = (case jm_get (sn_tasks st) i of None \<Rightarrow> st
     | Some t \<Rightarrow> st\<lparr>sn_tasks := jm_set i (t\<lparr>tk_phase := ph\<rparr>) (sn_tasks st)\<rparr>)"

definition attempt_answered ::
  "'e sender_config \<Rightarrow> rat \<Rightarrow> nat \<Rightarrow> collector_answer \<Rightarrow> 'e sender \<Rightarrow> 'e sender" where
  "attempt_answered cfg now i ans st =
    (case ans of
       Accepted n \<Rightarrow> set_phase i (Resolved (Sent_ok (skippedOf n))) st
     | Too_many_requests h \<Rightarrow>
        set_phase i (Resolved (Failed Rate_limited False))
          (pause_sending now (case parseRetryAfterMs (sc_dateParse cfg) now h of None \<Rightarrow> DEFAULT_RETRY_AFTER_MS | Some ms \<Rightarrow> ms)
            (st\<lparr>sn_backlogReason := Some Rate_limited\<rparr>))
     | Not_accepted \<Rightarrow>
        set_phase i (Resolved (Failed Send_failed False)) (st\<lparr>sn_backlogReason := Some Send_failed\<rparr>))"

text \<open>\<open>process\<close> after its attempt, and after its sleep.\<close>

definition process_outcome :: "'e sender_config \<Rightarrow> rat \<Rightarrow> nat \<Rightarrow> outcome \<Rightarrow> 'e sender \<Rightarrow> 'e sender" where
  "process_outcome cfg now i out st =
    (if i \<notin> set (sn_live st) then end_task i st
     else case out of
       Sent_ok skipped \<Rightarrow>
        (let st1 = st\<lparr>sn_backlogReason := None, sn_sent := sn_sent st + (1 - skipped)\<rparr>;
             st2 = (if skipped \<noteq> 0 then drop_events Server_skipped skipped st1 else st1)
         in settle_event i (end_task i st2))
     | Failed reason final \<Rightarrow>
        (let n = sn_attempts st i + 1; st1 = st\<lparr>sn_attempts := (sn_attempts st)(i := n)\<rparr>
         in if final \<or> sc_maxAttempts cfg \<le> n then settle_event i (end_task i (drop_events reason 1 st1))
            else if sn_paused st1 then requeue cfg now i (end_task i st1)
            else set_phase i Sleeping st1))"

definition process_awake :: "'e sender_config \<Rightarrow> rat \<Rightarrow> nat \<Rightarrow> bool \<Rightarrow> 'e sender \<Rightarrow> 'e sender" where
  "process_awake cfg now i w st =
    (if i \<notin> set (sn_live st) then end_task i st
     else if sn_paused st then requeue cfg now i (end_task i st)
     else start_attempt cfg i w st)"

definition shutdown_start :: "'e sender \<Rightarrow> 'e sender" where
  "shutdown_start st =
    (let st1 = st\<lparr>sn_closed := True\<rparr> in
     if sn_paused st then st1\<lparr>sn_paused := False, sn_resumeAt := 0, sn_woken := True\<rparr> else st1)"

text \<open>The end of \<open>shutdown\<close>, when its wait is over: what is left is dropped.\<close>

definition shutdown_end :: "'e sender \<Rightarrow> 'e sender" where
  "shutdown_end st =
    (if sn_live st = [] then st
     else (drop_events Shutdown_drop (length (sn_live st)) (st\<lparr>sn_queue := []\<rparr>))\<lparr>sn_live := []\<rparr>)"

record sender_stats =
  ss_enqueued :: nat
  ss_sent :: nat
  ss_pending :: nat
  ss_queued :: nat
  ss_retry_after_ms :: rat
  ss_dropped :: "drop_reason \<Rightarrow> nat"
  ss_dropped_total :: nat

definition stats :: "rat \<Rightarrow> 'e sender \<Rightarrow> sender_stats" where
  "stats now st = \<lparr>ss_enqueued = sn_enqueued st, ss_sent = sn_sent st, ss_pending = length (sn_live st),
     ss_queued = length (sn_queue st), ss_retry_after_ms = (if sn_paused st then max 0 (sn_resumeAt st - now) else 0),
     ss_dropped = sn_dropped st, ss_dropped_total = dropped_total st\<rparr>"

subsection \<open>Steps\<close>

definition phase_of :: "nat \<Rightarrow> 'e sender \<Rightarrow> phase option" where
  "phase_of i st = map_option tk_phase (jm_get (sn_tasks st) i)"

definition has_workers :: "'e sender \<Rightarrow> bool" where
  "has_workers st \<longleftrightarrow> sn_free st \<noteq> 0 \<or> (\<exists>t \<in> snd ` set (sn_tasks st). tk_worker t)"

inductive sender_step :: "'e sender_config \<Rightarrow> rat \<Rightarrow> 'e sender \<Rightarrow> 'e sender \<Rightarrow> bool" for cfg now where
  Send: "sender_step cfg now st (send_event cfg now e st)"
| Answer: "phase_of i st = Some Fetching \<Longrightarrow> sender_step cfg now st (attempt_answered cfg now i ans st)"
| Outcome: "phase_of i st = Some (Resolved out) \<Longrightarrow> sender_step cfg now st (process_outcome cfg now i out st)"
| Awake: "jm_get (sn_tasks st) i = Some t \<Longrightarrow> tk_phase t = Sleeping \<Longrightarrow>
    sender_step cfg now st (process_awake cfg now i (tk_worker t) st)"
| Worker: "sn_free st = Suc n \<Longrightarrow> sender_step cfg now st (worker_run cfg (sn_queue st) (st\<lparr>sn_free := n\<rparr>))"
| Resume: "sn_drain st = Waiting seen deadline \<Longrightarrow> deadline \<le> now \<or> sn_woken st \<Longrightarrow>
    sender_step cfg now st (wait_or_work cfg now (if sn_pauses st = seen then st\<lparr>sn_paused := False\<rparr> else st))"
| Drained: "sn_drain st = Working \<Longrightarrow> \<not> has_workers st \<Longrightarrow> sender_step cfg now st (drain_loop cfg now st)"
| Shutdown: "sender_step cfg now st (shutdown_start st)"
| Shutdown_over: "sn_closed st \<Longrightarrow> sender_step cfg now st (shutdown_end st)"

text \<open>The states a sender can get into, whatever is sent, answered and slept, at any times.\<close>

inductive sender_reach :: "'e sender_config \<Rightarrow> 'e sender \<Rightarrow> bool" for cfg where
  reach_init: "sender_reach cfg sender_init"
| reach_step: "sender_reach cfg st \<Longrightarrow> sender_step cfg now st st' \<Longrightarrow> sender_reach cfg st'"

subsection \<open>Frames\<close>

text \<open>The drain machinery leaves the counters, the pending events and the pause alone.\<close>

definition same_counts :: "'e sender \<Rightarrow> 'e sender \<Rightarrow> bool" where
  "same_counts st st' \<longleftrightarrow> sn_enqueued st' = sn_enqueued st \<and> sn_sent st' = sn_sent st \<and> sn_dropped st' = sn_dropped st \<and>
     sn_live st' = sn_live st \<and> sn_nextId st' = sn_nextId st \<and> sn_paused st' = sn_paused st \<and>
     sn_pauses st' = sn_pauses st \<and> sn_resumeAt st' = sn_resumeAt st \<and> sn_closed st' = sn_closed st"

lemma same_counts_refl [simp]: "same_counts st st"
  by (simp add: same_counts_def)

lemma same_counts_trans: "same_counts a b \<Longrightarrow> same_counts b c \<Longrightarrow> same_counts a c"
  by (simp add: same_counts_def)

lemma same_counts_start: "same_counts st (start_attempt cfg i w st)"
  by (simp add: start_attempt_def add_task_def same_counts_def)

lemma same_counts_worker: "same_counts st (worker_run cfg q st)"
proof (induction q arbitrary: st)
  case (Cons i q)
  have "same_counts (st\<lparr>sn_queue := q\<rparr>) (start_attempt cfg i True (st\<lparr>sn_queue := q\<rparr>))" by (rule same_counts_start)
  with Cons show ?case by (simp add: same_counts_def)
qed (simp add: same_counts_def)

lemma same_counts_spawn: "same_counts st (spawn_workers cfg n st)"
proof (induction n arbitrary: st)
  case (Suc n)
  show ?case using same_counts_trans [OF same_counts_worker Suc.IH] by simp
qed simp

lemma same_counts_wait_or_work: "same_counts st (wait_or_work cfg now st)"
  using same_counts_spawn [of "st\<lparr>sn_drain := Working, sn_free := 0\<rparr>" cfg DRAIN_CONCURRENCY]
  by (simp add: wait_or_work_def same_counts_def)

lemma same_counts_drain_loop: "same_counts st (drain_loop cfg now st)"
  using same_counts_wait_or_work [of st cfg now] by (simp add: drain_loop_def) (simp add: same_counts_def)

lemma same_counts_drain: "same_counts st (drain cfg now st)"
  by (simp add: drain_def same_counts_drain_loop)

lemma same_counts_requeue: "same_counts st (requeue cfg now i st)"
  using same_counts_drain [of "st\<lparr>sn_queue := insert_queue i (sn_queue st)\<rparr>" cfg now]
  by (simp add: requeue_def same_counts_def)

lemma same_counts_end_task: "same_counts st (end_task i st)"
  by (simp add: end_task_def same_counts_def split: option.splits)

lemma same_counts_set_phase: "same_counts st (set_phase i ph st)"
  by (simp add: set_phase_def same_counts_def split: option.splits)

lemmas same_counts_intros = same_counts_start same_counts_worker same_counts_wait_or_work same_counts_drain_loop
  same_counts_requeue same_counts_end_task same_counts_set_phase

subsection \<open>Accounting\<close>

definition counts_ok :: "'e sender_config \<Rightarrow> 'e sender \<Rightarrow> bool" where
  "counts_ok cfg st \<longleftrightarrow> sn_enqueued st = sn_sent st + dropped_total st + length (sn_live st) \<and>
     distinct (sn_live st) \<and> (\<forall>i \<in> set (sn_live st). i < sn_nextId st) \<and> length (sn_live st) \<le> sc_maxPending cfg"

lemma counts_ok_same: "same_counts st st' \<Longrightarrow> counts_ok cfg st' \<longleftrightarrow> counts_ok cfg st"
  by (simp add: same_counts_def counts_ok_def dropped_total_def)

lemma dropped_total_drop [simp]: "dropped_total (drop_events r n st) = dropped_total st + n"
  by (cases r) (simp_all add: dropped_total_def drop_events_def DROP_REASONS_def)

lemma drop_events_fields [simp]:
  "sn_enqueued (drop_events r n st) = sn_enqueued st" "sn_sent (drop_events r n st) = sn_sent st"
  "sn_live (drop_events r n st) = sn_live st" "sn_nextId (drop_events r n st) = sn_nextId st"
  "sn_tasks (drop_events r n st) = sn_tasks st" "sn_queue (drop_events r n st) = sn_queue st"
  "sn_drain (drop_events r n st) = sn_drain st" "sn_paused (drop_events r n st) = sn_paused st"
  "sn_seq (drop_events r n st) = sn_seq st" "sn_bodies (drop_events r n st) = sn_bodies st"
  "sn_pauses (drop_events r n st) = sn_pauses st" "sn_free (drop_events r n st) = sn_free st"
  by (simp_all add: drop_events_def)

lemma length_removeAll_distinct: "distinct xs \<Longrightarrow> x \<in> set xs \<Longrightarrow> Suc (length (removeAll x xs)) = length xs"
  by (metis One_nat_def Suc_pred distinct_remove1_removeAll length_pos_if_in_set length_remove1)

text \<open>An event that is settled, counted once.\<close>

lemma counts_ok_settle:
  assumes "counts_ok cfg st" "i \<in> set (sn_live st)"
    "sn_sent st' + dropped_total st' = sn_sent st + dropped_total st + 1" "sn_live st' = removeAll i (sn_live st)"
    "sn_enqueued st' = sn_enqueued st" "sn_nextId st' = sn_nextId st"
  shows "counts_ok cfg st'"
  using assms length_removeAll_distinct [of "sn_live st" i] by (auto simp: counts_ok_def distinct_removeAll)

lemma counts_ok_send: "counts_ok cfg st \<Longrightarrow> counts_ok cfg (send_event cfg now e st)"
proof -
  assume ok: "counts_ok cfg st"
  let ?st1 = "st\<lparr>sn_enqueued := sn_enqueued st + 1, sn_nextId := sn_nextId st + 1,
      sn_events := (sn_events st)(sn_nextId st := Some e), sn_attempts := (sn_attempts st)(sn_nextId st := 0),
      sn_live := sn_live st @ [sn_nextId st]\<rparr>"
  show ?thesis
  proof (cases "sc_enabled cfg \<and> \<not> sn_closed st \<and> length (sn_live st) < sc_maxPending cfg")
    case True
    have "counts_ok cfg ?st1" using ok True by (auto simp: counts_ok_def dropped_total_def)
    then show ?thesis using True
      by (simp add: send_event_def Let_def counts_ok_same [OF same_counts_requeue] counts_ok_same [OF same_counts_start])
  next
    case False
    have "dropped_total (st\<lparr>sn_enqueued := n\<rparr>) = dropped_total st" for n by (simp add: dropped_total_def)
    with ok False show ?thesis by (auto simp: send_event_def Let_def counts_ok_def)
  qed
qed

lemma settle_event_fields [simp]:
  "sn_enqueued (settle_event i st) = sn_enqueued st" "sn_sent (settle_event i st) = sn_sent st"
  "sn_live (settle_event i st) = removeAll i (sn_live st)" "sn_nextId (settle_event i st) = sn_nextId st"
  "dropped_total (settle_event i st) = dropped_total st" "sn_tasks (settle_event i st) = sn_tasks st"
  "sn_queue (settle_event i st) = sn_queue st" "sn_drain (settle_event i st) = sn_drain st"
  "sn_paused (settle_event i st) = sn_paused st" "sn_seq (settle_event i st) = sn_seq st"
  "sn_bodies (settle_event i st) = sn_bodies st" "sn_free (settle_event i st) = sn_free st"
  by (simp_all add: settle_event_def dropped_total_def)

lemma end_task_fields [simp]:
  "sn_enqueued (end_task i st) = sn_enqueued st" "sn_sent (end_task i st) = sn_sent st"
  "sn_live (end_task i st) = sn_live st" "sn_nextId (end_task i st) = sn_nextId st"
  "dropped_total (end_task i st) = dropped_total st" "sn_tasks (end_task i st) = jm_del i (sn_tasks st)"
  "sn_queue (end_task i st) = sn_queue st" "sn_drain (end_task i st) = sn_drain st"
  "sn_paused (end_task i st) = sn_paused st" "sn_seq (end_task i st) = sn_seq st"
  "sn_bodies (end_task i st) = sn_bodies st"
  by (auto simp: end_task_def dropped_total_def jm_del_fresh map_of_eq_None_iff split: option.splits)

lemma dropped_total_update [simp]:
  "dropped_total (st\<lparr>sn_backlogReason := b\<rparr>) = dropped_total st" "dropped_total (st\<lparr>sn_sent := n\<rparr>) = dropped_total st"
  "dropped_total (st\<lparr>sn_attempts := a\<rparr>) = dropped_total st" "dropped_total (st\<lparr>sn_enqueued := n\<rparr>) = dropped_total st"
  by (simp_all add: dropped_total_def)

lemma counts_ok_backlog [simp]: "counts_ok cfg (st\<lparr>sn_backlogReason := b\<rparr>) = counts_ok cfg st"
  "counts_ok cfg (st\<lparr>sn_attempts := a\<rparr>) = counts_ok cfg st"
  by (simp_all add: counts_ok_def)

lemmas counts_ok_frames = same_counts_intros [THEN counts_ok_same]

lemma counts_ok_outcome:
  assumes "counts_ok cfg st" "\<And>k. out = Sent_ok k \<Longrightarrow> k \<le> 1"
  shows "counts_ok cfg (process_outcome cfg now i out st)"
proof (cases "i \<in> set (sn_live st)")
  case False
  then show ?thesis using assms(1) by (simp add: process_outcome_def counts_ok_frames)
next
  case True
  show ?thesis
  proof (cases out)
    case (Sent_ok k)
    with assms(2) have "k = 0 \<or> k = 1" by auto
    with Sent_ok True show ?thesis
      by (intro counts_ok_settle [OF assms(1) True]) (auto simp: process_outcome_def Let_def)
  next
    case (Failed r final)
    let ?st1 = "st\<lparr>sn_attempts := (sn_attempts st)(i := sn_attempts st i + 1)\<rparr>"
    have "counts_ok cfg (settle_event i (end_task i (drop_events r 1 ?st1)))"
      by (rule counts_ok_settle [OF assms(1) True]) simp_all
    with Failed True assms(1) show ?thesis by (simp add: process_outcome_def Let_def counts_ok_frames)
  qed
qed

lemma counts_ok_answer: "counts_ok cfg st \<Longrightarrow> counts_ok cfg (attempt_answered cfg now i ans st)"
proof -
  have "counts_ok cfg (pause_sending now d st) = counts_ok cfg st" for d and st :: "'a sender"
    by (simp add: pause_sending_def counts_ok_def dropped_total_def)
  then show "counts_ok cfg st \<Longrightarrow> ?thesis"
    by (auto simp: attempt_answered_def counts_ok_frames split: collector_answer.splits)
qed

lemma counts_ok_awake: "counts_ok cfg st \<Longrightarrow> counts_ok cfg (process_awake cfg now i w st)"
  by (simp add: process_awake_def counts_ok_frames)

lemma counts_ok_shutdown_end: "counts_ok cfg st \<Longrightarrow> counts_ok cfg (shutdown_end st)"
proof -
  have "dropped_total (s\<lparr>sn_live := l\<rparr>) = dropped_total s" "dropped_total (s\<lparr>sn_queue := q\<rparr>) = dropped_total s"
    for l q and s :: "'a sender" by (simp_all add: dropped_total_def)
  then show "counts_ok cfg st \<Longrightarrow> ?thesis" by (auto simp: shutdown_end_def counts_ok_def)
qed

lemma counts_ok_shutdown_start: "counts_ok cfg st \<Longrightarrow> counts_ok cfg (shutdown_start st)"
  by (simp add: shutdown_start_def counts_ok_def dropped_total_def Let_def)

subsection \<open>Every pending event has one owner\<close>

definition task_ids :: "'e sender \<Rightarrow> nat set" where
  "task_ids st = fst ` set (sn_tasks st)"

lemma task_ids_simps [simp]:
  "task_ids (st\<lparr>sn_queue := q\<rparr>) = task_ids st" "task_ids (st\<lparr>sn_drain := d\<rparr>) = task_ids st"
  "task_ids (st\<lparr>sn_free := n\<rparr>) = task_ids st" "task_ids (st\<lparr>sn_woken := b\<rparr>) = task_ids st"
  "task_ids (st\<lparr>sn_seq := n\<rparr>) = task_ids st" "task_ids (st\<lparr>sn_bodies := bs\<rparr>) = task_ids st"
  "task_ids (st\<lparr>sn_live := l\<rparr>) = task_ids st" "task_ids (st\<lparr>sn_attempts := a\<rparr>) = task_ids st"
  "task_ids (st\<lparr>sn_backlogReason := br\<rparr>) = task_ids st" "task_ids (st\<lparr>sn_sent := n\<rparr>) = task_ids st"
  "task_ids (st\<lparr>sn_paused := b\<rparr>) = task_ids st" "task_ids (drop_events r n st) = task_ids st"
  "task_ids (settle_event i st) = task_ids st" "task_ids (add_task i ph w st) = insert i (task_ids st)"
  "task_ids (end_task i st) = task_ids st - {i}"
  by (simp_all add: task_ids_def add_task_def)

lemma task_ids_set_phase [simp]: "task_ids (set_phase i ph st) = task_ids st"
  using jm_get_dom [of "sn_tasks st" i]
  by (auto simp: task_ids_def set_phase_def insert_absorb split: option.splits)

text \<open>\<open>H\<close> are the pending events whose owner is being changed; none between steps.\<close>

definition owners_ok :: "nat set \<Rightarrow> 'e sender \<Rightarrow> bool" where
  "owners_ok H st \<longleftrightarrow> sorted_wrt (<) (sn_queue st) \<and> set (sn_queue st) \<subseteq> set (sn_live st) \<and> jm_wf (sn_tasks st) \<and>
     task_ids st \<inter> set (sn_queue st) = {} \<and> (\<forall>i \<in> task_ids st. i < sn_nextId st) \<and>
     H \<inter> (set (sn_queue st) \<union> task_ids st) = {} \<and> set (sn_live st) \<subseteq> set (sn_queue st) \<union> task_ids st \<union> H"

lemma owners_ok_cong:
  assumes "sn_queue st' = sn_queue st" "sn_live st' = sn_live st" "sn_tasks st' = sn_tasks st" "sn_nextId st' = sn_nextId st"
  shows "owners_ok H st' \<longleftrightarrow> owners_ok H st"
  using assms by (simp add: owners_ok_def task_ids_def)

lemma owners_start:
  assumes "owners_ok H st" "i \<notin> set (sn_queue st)" "i < sn_nextId st"
  shows "owners_ok (H - {i}) (start_attempt cfg i w st)"
proof -
  have t: "task_ids (start_attempt cfg i w st) = insert i (task_ids st)" by (simp add: start_attempt_def)
  have "sn_queue (start_attempt cfg i w st) = sn_queue st" "jm_wf (sn_tasks (start_attempt cfg i w st))"
    using assms(1) by (simp_all add: start_attempt_def add_task_def owners_ok_def jm_wf_set)
  with t same_counts_start [of st cfg i w] assms show ?thesis by (auto simp: owners_ok_def same_counts_def)
qed

lemma owners_worker:
  assumes "owners_ok {} (st\<lparr>sn_queue := q\<rparr>)" "\<forall>i \<in> set (sn_live st). i < sn_nextId st"
  shows "owners_ok {} (worker_run cfg q st)"
proof (cases q)
  case Nil
  then show ?thesis using assms(1) by simp
next
  case (Cons i q')
  have "owners_ok {i} (st\<lparr>sn_queue := q'\<rparr>)" "i \<in> set (sn_live st)" "i \<notin> set q'"
    using assms(1) by (auto simp: owners_ok_def Cons)
  with owners_start [of "{i}" "st\<lparr>sn_queue := q'\<rparr>" i cfg True] assms show ?thesis
    by (simp add: Cons)
qed

lemma owners_spawn:
  "owners_ok {} st \<Longrightarrow> \<forall>i \<in> set (sn_live st). i < sn_nextId st \<Longrightarrow> owners_ok {} (spawn_workers cfg n st)"
proof (induction n arbitrary: st)
  case (Suc n)
  have "owners_ok {} (worker_run cfg (sn_queue st) st)" using Suc.prems by (intro owners_worker) simp_all
  then show ?case using Suc same_counts_worker [of st cfg "sn_queue st"] by (auto simp: same_counts_def)
qed simp

lemma owners_wait_or_work:
  assumes "owners_ok {} st" "\<forall>i \<in> set (sn_live st). i < sn_nextId st"
  shows "owners_ok {} (wait_or_work cfg now st)"
proof -
  have "owners_ok {} (st\<lparr>sn_drain := d, sn_woken := b\<rparr>)" "owners_ok {} (st\<lparr>sn_drain := d, sn_free := n\<rparr>)" for d b n
    using assms(1) by (simp_all add: owners_ok_def)
  then show ?thesis using assms(2) by (simp add: wait_or_work_def owners_spawn)
qed

lemma owners_drain_loop:
  assumes "owners_ok {} st" "\<forall>i \<in> set (sn_live st). i < sn_nextId st"
  shows "owners_ok {} (drain_loop cfg now st)"
  using owners_wait_or_work [OF assms, of cfg now] assms(1) by (auto simp: drain_loop_def owners_ok_def [of "{}" "st\<lparr>sn_drain := d\<rparr>" for d] owners_ok_def [of "{}" st])

lemma insert_queue_split:
  "insert_queue i q = rev (dropWhile (\<lambda>j. i < j) (rev q)) @ [i] @ rev (takeWhile (\<lambda>j. i < j) (rev q))"
proof -
  let ?t = "takeWhile (\<lambda>j. i < j) (rev q)" and ?d = "dropWhile (\<lambda>j. i < j) (rev q)"
  have "?t @ ?d = rev q" by simp
  then have q: "q = rev ?d @ rev ?t" by (metis rev_append rev_rev_ident)
  then have "length q - length ?t = length (rev ?d)" by (metis length_append length_rev add_diff_cancel_right')
  then have "take (length q - length ?t) q = rev ?d" by (subst (2) q) simp
  then show ?thesis by (simp add: insert_queue_def Let_def)
qed

lemma set_insert_queue [simp]: "set (insert_queue i q) = insert i (set q)"
proof -
  have "set q = set (dropWhile (\<lambda>j. i < j) (rev q)) \<union> set (takeWhile (\<lambda>j. i < j) (rev q))"
    by (metis Un_commute set_append set_rev takeWhile_dropWhile_id)
  then show ?thesis by (simp add: insert_queue_split)
qed

lemma sorted_between:
  assumes "sorted_wrt (<) (rev ds)" "sorted_wrt (<) (rev ts)" "\<forall>x \<in> set ds. x < i" "\<forall>x \<in> set ts. (i::nat) < x"
  shows "sorted_wrt (<) (rev ds @ [i] @ rev ts)"
  using assms by (auto simp: sorted_wrt_append) force

lemma sorted_insert_queue:
  assumes "sorted_wrt (<) q" "i \<notin> set (q :: nat list)"
  shows "sorted_wrt (<) (insert_queue i q)"
proof -
  let ?t = "takeWhile (\<lambda>j. i < j) (rev q)" and ?d = "dropWhile (\<lambda>j. i < j) (rev q)"
  have "?t @ ?d = rev q" by simp
  then have q: "q = rev ?d @ rev ?t" by (metis rev_append rev_rev_ident)
  have s: "sorted_wrt (<) (rev ?d)" "sorted_wrt (<) (rev ?t)" using assms(1) by (subst (asm) q, simp add: sorted_wrt_append)+
  have t: "\<And>x. x \<in> set ?t \<Longrightarrow> i < x" by (auto dest: set_takeWhileD)
  have d: "\<forall>x \<in> set ?d. x < i"
  proof (cases ?d)
    case (Cons a as)
    then have "\<not> i < a" by (metis dropWhile_eq_Cons_conv)
    moreover have "a \<noteq> i" using assms(2) Cons by (metis list.set_intros(1) set_dropWhileD set_rev)
    moreover have "\<forall>x \<in> set as. x < a" using s(1) Cons by (simp add: sorted_wrt_append)
    ultimately show ?thesis using Cons by auto
  qed (simp only: list.set ball_empty)
  show ?thesis unfolding insert_queue_split by (rule sorted_between [OF s d]) (use t in blast)
qed

lemma owners_requeue:
  assumes "owners_ok {i} st" "i \<in> set (sn_live st)" "\<forall>i \<in> set (sn_live st). i < sn_nextId st"
  shows "owners_ok {} (requeue cfg now i st)"
proof -
  have "owners_ok {} (st\<lparr>sn_queue := insert_queue i (sn_queue st)\<rparr>)"
    using assms(1,2) by (auto simp: owners_ok_def sorted_insert_queue)
  with assms(3) show ?thesis by (simp add: requeue_def drain_def owners_drain_loop)
qed

lemma owners_end_task:
  assumes "owners_ok {} st" "i \<in> task_ids st"
  shows "owners_ok {i} (end_task i st)"
  using assms by (auto simp: owners_ok_def jm_wf_del)

lemma owners_end_dead:
  assumes "owners_ok {} st" "i \<notin> set (sn_live st)"
  shows "owners_ok {} (end_task i st)"
  using assms by (auto simp: owners_ok_def jm_wf_del)

lemma owners_settle:
  "owners_ok {i} st \<Longrightarrow> owners_ok {} (settle_event i st)"
  by (auto simp: owners_ok_def)

lemma owners_set_phase: "owners_ok H st \<Longrightarrow> owners_ok H (set_phase i ph st)"
  using task_ids_set_phase [of i ph st] same_counts_set_phase [of st i ph]
  by (auto simp: owners_ok_def same_counts_def) (auto simp: set_phase_def jm_wf_set split: option.splits)

lemma phase_of_key: "phase_of i st = Some p \<Longrightarrow> i \<in> task_ids st"
  using jm_get_dom [of "sn_tasks st" i] by (auto simp: phase_of_def task_ids_def)

lemma owners_send:
  assumes "owners_ok {} st" "counts_ok cfg st"
  shows "owners_ok {} (send_event cfg now e st)"
proof -
  let ?i = "sn_nextId st"
  let ?st1 = "st\<lparr>sn_enqueued := sn_enqueued st + 1, sn_nextId := ?i + 1,
      sn_events := (sn_events st)(?i := Some e), sn_attempts := (sn_attempts st)(?i := 0), sn_live := sn_live st @ [?i]\<rparr>"
  have lt: "\<forall>j \<in> set (sn_live st). j < ?i" using assms(2) by (simp add: counts_ok_def)
  have t: "task_ids ?st1 = task_ids st" by (simp add: task_ids_def)
  have own: "owners_ok {?i} ?st1" using assms(1) lt t by (fastforce simp: owners_ok_def)
  have new: "?i \<notin> set (sn_queue ?st1)" "\<forall>j \<in> set (sn_live ?st1). j < sn_nextId ?st1"
    using assms(1) lt by (auto simp: owners_ok_def)
  show ?thesis
  proof (cases "sc_enabled cfg \<and> \<not> sn_closed st \<and> length (sn_live st) < sc_maxPending cfg")
    case True
    then have "send_event cfg now e st = (if sn_paused st then requeue cfg now ?i ?st1 else start_attempt cfg ?i False ?st1)"
      by (simp add: send_event_def Let_def)
    then show ?thesis
      using owners_requeue [OF own _ new(2)] owners_start [OF own new(1)] by simp
  next
    case False
    have "owners_ok {} (drop_events r 1 (st\<lparr>sn_enqueued := n\<rparr>))" "owners_ok {} (st\<lparr>sn_enqueued := n\<rparr>)" for r n
      using assms(1) by (subst owners_ok_cong [of _ st]; simp)+
    with False assms(1) show ?thesis by (auto simp: send_event_def Let_def)
  qed
qed

lemma owners_outcome:
  assumes "owners_ok {} st" "counts_ok cfg st" "i \<in> task_ids st"
  shows "owners_ok {} (process_outcome cfg now i out st)"
proof (cases "i \<in> set (sn_live st)")
  case False
  then show ?thesis using owners_end_dead [OF assms(1)] by (simp add: process_outcome_def)
next
  case True
  have lt: "\<forall>j \<in> set (sn_live st). j < sn_nextId st" using assms(2) by (simp add: counts_ok_def)
  have e: "owners_ok {i} (end_task i st')"
    if "sn_queue st' = sn_queue st" "sn_live st' = sn_live st" "sn_tasks st' = sn_tasks st" "sn_nextId st' = sn_nextId st" for st'
    using assms(1,3) owners_ok_cong [OF that] that(3) by (intro owners_end_task) (simp_all add: task_ids_def)
  show ?thesis
  proof (cases out)
    case (Sent_ok k)
    with True show ?thesis
      by (auto simp: process_outcome_def Let_def intro!: owners_settle e)
  next
    case (Failed r final)
    let ?st1 = "st\<lparr>sn_attempts := (sn_attempts st)(i := sn_attempts st i + 1)\<rparr>"
    have "owners_ok {} (settle_event i (end_task i (drop_events r 1 ?st1)))"
      "owners_ok {} (requeue cfg now i (end_task i ?st1))" "owners_ok {} (set_phase i Sleeping ?st1)"
      using True lt assms(1) owners_ok_cong [of ?st1 st "{}"]
      by (auto intro!: owners_settle owners_requeue owners_set_phase e)
    with Failed True show ?thesis by (simp add: process_outcome_def Let_def)
  qed
qed

lemma owners_awake:
  assumes "owners_ok {} st" "counts_ok cfg st" "i \<in> task_ids st"
  shows "owners_ok {} (process_awake cfg now i w st)"
proof -
  have lt: "\<forall>j \<in> set (sn_live st). j < sn_nextId st" using assms(2) by (simp add: counts_ok_def)
  have q: "i \<notin> set (sn_queue st)" "i < sn_nextId st" using assms(1,3) by (auto simp: owners_ok_def)
  show ?thesis
    using owners_end_dead [OF assms(1), of i] owners_requeue [OF owners_end_task [OF assms(1,3)], of cfg now]
      owners_start [OF assms(1) q, of cfg w] lt
    by (simp add: process_awake_def)
qed

lemma owners_answer: "owners_ok {} st \<Longrightarrow> owners_ok {} (attempt_answered cfg now i ans st)"
proof -
  assume o: "owners_ok {} st"
  have "owners_ok {} (st\<lparr>sn_backlogReason := b\<rparr>)" "owners_ok {} (pause_sending now d (st\<lparr>sn_backlogReason := b\<rparr>))" for b d
    using o by (subst owners_ok_cong [of _ st]; simp add: pause_sending_def)+
  with o show ?thesis by (auto simp: attempt_answered_def intro!: owners_set_phase split: collector_answer.splits)
qed

text \<open>A drain loop runs while events wait in the queue, and a task holds at most one skipped row.\<close>

definition drained_or_running :: "'e sender \<Rightarrow> bool" where
  "drained_or_running st \<longleftrightarrow> (sn_queue st \<noteq> [] \<longrightarrow> sn_drain st \<noteq> Not_draining)"

definition phases_ok :: "'e sender \<Rightarrow> bool" where
  "phases_ok st \<longleftrightarrow> (\<forall>i k. phase_of i st = Some (Resolved (Sent_ok k)) \<longrightarrow> k \<le> 1)"

lemma phase_of_simps [simp]:
  "phase_of j (add_task i ph w st) = (if j = i then Some ph else phase_of j st)"
  "phase_of j (end_task i st) = (if j = i then None else phase_of j st)"
  "phase_of j (set_phase i ph st) = (if j = i then map_option (\<lambda>_. ph) (phase_of i st) else phase_of j st)"
  by (auto simp: phase_of_def add_task_def set_phase_def split: option.splits)

lemma phase_of_cong: "sn_tasks st' = sn_tasks st \<Longrightarrow> phase_of j st' = phase_of j st"
  by (simp add: phase_of_def)

lemma phases_ok_cong: "sn_tasks st' = sn_tasks st \<Longrightarrow> phases_ok st' \<longleftrightarrow> phases_ok st"
  by (simp add: phases_ok_def phase_of_def)

lemma phases_start: "phases_ok st \<Longrightarrow> phases_ok (start_attempt cfg i w st)"
  using phase_of_cong [of "st\<lparr>sn_seq := a, sn_bodies := b\<rparr>" st for a b]
  by (auto simp: start_attempt_def phases_ok_def)

lemma phases_worker: "phases_ok st \<Longrightarrow> phases_ok (worker_run cfg q st)"
proof (induction q arbitrary: st)
  case (Cons i q)
  have "phases_ok (st\<lparr>sn_queue := q'\<rparr>)" for q' using Cons.prems by (subst phases_ok_cong [of _ st]) simp_all
  with Cons show ?case by (simp add: phases_start)
next
  case Nil
  then show ?case using phases_ok_cong [of "st\<lparr>sn_queue := []\<rparr>" st] by simp
qed

lemma phases_spawn: "phases_ok st \<Longrightarrow> phases_ok (spawn_workers cfg n st)"
  by (induction n arbitrary: st) (simp_all add: phases_worker)

lemma phases_wait_or_work: "phases_ok st \<Longrightarrow> phases_ok (wait_or_work cfg now st)"
  by (auto simp: wait_or_work_def intro!: phases_spawn elim: phases_ok_cong [THEN iffD2, rotated])

lemma phases_drain_loop: "phases_ok st \<Longrightarrow> phases_ok (drain_loop cfg now st)"
  by (auto simp: drain_loop_def phases_wait_or_work elim: phases_ok_cong [THEN iffD2, rotated])

lemma phases_requeue: "phases_ok st \<Longrightarrow> phases_ok (requeue cfg now i st)"
  by (auto simp: requeue_def drain_def intro!: phases_drain_loop elim: phases_ok_cong [THEN iffD2, rotated])

lemma drain_worker [simp]: "sn_drain (worker_run cfg q st) = sn_drain st"
  by (induction q arbitrary: st) (simp_all add: start_attempt_def add_task_def)

lemma drain_spawn [simp]: "sn_drain (spawn_workers cfg n st) = sn_drain st"
  by (induction n arbitrary: st) simp_all

lemma drain_wait_or_work [simp]: "sn_drain (wait_or_work cfg now st) \<noteq> Not_draining"
  by (simp add: wait_or_work_def)

lemma running_drain_loop: "drained_or_running (drain_loop cfg now st)"
  by (simp add: drain_loop_def drained_or_running_def)

lemma running_requeue: "drained_or_running (requeue cfg now i st)"
proof -
  have "drained_or_running (drain cfg now st)" for st :: "'a sender"
    by (cases "sn_drain st = Not_draining") (simp_all add: drain_def running_drain_loop, simp add: drained_or_running_def)
  then show ?thesis by (simp add: requeue_def)
qed

lemma queue_worker: "q = [] \<Longrightarrow> sn_queue (worker_run cfg q st) = []"
  by simp

lemma queue_start [simp]: "sn_queue (start_attempt cfg i w st) = sn_queue st" "sn_drain (start_attempt cfg i w st) = sn_drain st"
  by (simp_all add: start_attempt_def add_task_def)

lemma queue_set_phase [simp]: "sn_queue (set_phase i ph st) = sn_queue st" "sn_drain (set_phase i ph st) = sn_drain st"
  by (simp_all add: set_phase_def split: option.splits)

text \<open>The whole invariant.\<close>

definition sender_inv :: "'e sender_config \<Rightarrow> 'e sender \<Rightarrow> bool" where
  "sender_inv cfg st \<longleftrightarrow> counts_ok cfg st \<and> owners_ok {} st \<and> drained_or_running st \<and> phases_ok st"

lemma inv_init: "sender_inv cfg sender_init"
  by (simp add: sender_inv_def sender_init_def counts_ok_def owners_ok_def drained_or_running_def phases_ok_def
      dropped_total_def DROP_REASONS_def task_ids_def phase_of_def)

lemma inv_send:
  assumes "sender_inv cfg st"
  shows "sender_inv cfg (send_event cfg now e st)"
proof -
  have p: "phases_ok st'" if "sn_tasks st' = sn_tasks st" for st' :: "'a sender"
    using assms phases_ok_cong [OF that] by (simp add: sender_inv_def)
  have "drained_or_running (send_event cfg now e st)"
    using assms running_requeue by (auto simp: sender_inv_def send_event_def Let_def drained_or_running_def)
  moreover have "phases_ok (send_event cfg now e st)"
    by (simp add: send_event_def Let_def p phases_requeue phases_start)
  ultimately show ?thesis using assms counts_ok_send owners_send by (auto simp: sender_inv_def)
qed

lemma inv_outcome:
  assumes "sender_inv cfg st" "phase_of i st = Some (Resolved out)"
  shows "sender_inv cfg (process_outcome cfg now i out st)"
proof -
  have k: "\<And>k. out = Sent_ok k \<Longrightarrow> k \<le> 1" using assms by (auto simp: sender_inv_def phases_ok_def)
  have e: "phases_ok (end_task i st')" if "sn_tasks st' = sn_tasks st" for st' :: "'a sender"
    using assms(1) phase_of_cong [OF that] by (auto simp: sender_inv_def phases_ok_def)
  have s: "phases_ok (settle_event i (end_task i st'))" if "sn_tasks st' = sn_tasks st" for st' :: "'a sender"
    using e [OF that] phases_ok_cong [of "settle_event i (end_task i st')" "end_task i st'"] by simp
  have a: "phases_ok (set_phase i Sleeping (st\<lparr>sn_attempts := x\<rparr>))" for x
    using assms(1) phase_of_cong [of "st\<lparr>sn_attempts := x\<rparr>" st] by (auto simp: sender_inv_def phases_ok_def)
  have p: "phases_ok (process_outcome cfg now i out st)"
    by (auto simp: process_outcome_def Let_def intro!: e s a phases_requeue split: outcome.splits)
  have "drained_or_running (process_outcome cfg now i out st)"
    using assms(1) running_requeue
    by (auto simp: sender_inv_def process_outcome_def Let_def drained_or_running_def split: outcome.splits)
  with p assms(1) counts_ok_outcome [OF _ k, of cfg st] owners_outcome [OF _ _ phase_of_key [OF assms(2)]] show ?thesis
    by (simp add: sender_inv_def)
qed

lemma inv_awake:
  assumes "sender_inv cfg st" "i \<in> task_ids st"
  shows "sender_inv cfg (process_awake cfg now i w st)"
proof -
  have "phases_ok (end_task i st)" using assms(1) by (auto simp: sender_inv_def phases_ok_def)
  then have "phases_ok (process_awake cfg now i w st)" "drained_or_running (process_awake cfg now i w st)"
    using assms(1) running_requeue
    by (auto simp: sender_inv_def process_awake_def drained_or_running_def intro!: phases_start phases_requeue)
  with assms counts_ok_awake owners_awake show ?thesis by (auto simp: sender_inv_def)
qed

lemma inv_answer:
  assumes "sender_inv cfg st"
  shows "sender_inv cfg (attempt_answered cfg now i ans st)"
proof -
  have sk: "skippedOf n \<le> 1" for n by (auto simp: skippedOf_def split: option.splits)
  have p: "phase_of j (pause_sending t d (st\<lparr>sn_backlogReason := b\<rparr>)) = phase_of j st"
    "phase_of j (st\<lparr>sn_backlogReason := b\<rparr>) = phase_of j st" for j t d b
    by (simp_all add: phase_of_def pause_sending_def)
  have "phases_ok (attempt_answered cfg now i ans st)"
    using assms sk by (auto simp: sender_inv_def phases_ok_def attempt_answered_def p split: collector_answer.splits if_splits)
  moreover have "drained_or_running (attempt_answered cfg now i ans st)"
    using assms by (auto simp: sender_inv_def drained_or_running_def attempt_answered_def pause_sending_def
        split: collector_answer.splits)
  ultimately show ?thesis using assms counts_ok_answer owners_answer by (auto simp: sender_inv_def)
qed

lemma inv_lt: "sender_inv cfg st \<Longrightarrow> \<forall>i \<in> set (sn_live st). i < sn_nextId st"
  by (simp add: sender_inv_def counts_ok_def)

lemma inv_worker:
  assumes "sender_inv cfg st"
  shows "sender_inv cfg (worker_run cfg (sn_queue st) (st\<lparr>sn_free := n\<rparr>))"
proof -
  have o: "owners_ok {} (st\<lparr>sn_free := n, sn_queue := sn_queue st\<rparr>)" "phases_ok (st\<lparr>sn_free := n\<rparr>)"
    "counts_ok cfg (st\<lparr>sn_free := n\<rparr>)"
    using assms owners_ok_cong [of "st\<lparr>sn_free := n, sn_queue := sn_queue st\<rparr>" st] phases_ok_cong [of "st\<lparr>sn_free := n\<rparr>" st]
    by (simp_all add: sender_inv_def counts_ok_def dropped_total_def)
  from owners_worker [OF o(1)] inv_lt [OF assms] have "owners_ok {} (worker_run cfg (sn_queue st) (st\<lparr>sn_free := n\<rparr>))" by simp
  moreover have "drained_or_running (worker_run cfg (sn_queue st) (st\<lparr>sn_free := n\<rparr>))"
    using assms by (cases "sn_queue st = []") (simp_all add: sender_inv_def drained_or_running_def)
  ultimately show ?thesis using o by (simp add: sender_inv_def phases_worker counts_ok_frames)
qed

lemma inv_wait_or_work:
  assumes "sender_inv cfg st"
  shows "sender_inv cfg (wait_or_work cfg now st)"
  using assms inv_lt [OF assms] owners_wait_or_work [of st cfg now] phases_wait_or_work [of st cfg now]
  by (simp add: sender_inv_def counts_ok_frames drained_or_running_def)

lemma inv_paused: "sender_inv cfg st \<Longrightarrow> sender_inv cfg (st\<lparr>sn_paused := b\<rparr>)"
  using owners_ok_cong [of "st\<lparr>sn_paused := b\<rparr>" st] phases_ok_cong [of "st\<lparr>sn_paused := b\<rparr>" st]
  by (simp add: sender_inv_def counts_ok_def dropped_total_def drained_or_running_def)

lemma inv_drain_loop:
  assumes "sender_inv cfg st"
  shows "sender_inv cfg (drain_loop cfg now st)"
  using assms inv_lt [OF assms] owners_drain_loop [of st cfg now] phases_drain_loop [of st cfg now]
  by (simp add: sender_inv_def counts_ok_frames running_drain_loop)

lemma inv_shutdown_start: "sender_inv cfg st \<Longrightarrow> sender_inv cfg (shutdown_start st)"
  using owners_ok_cong [of "shutdown_start st" st] phases_ok_cong [of "shutdown_start st" st] counts_ok_shutdown_start [of cfg st]
  by (simp add: sender_inv_def drained_or_running_def shutdown_start_def Let_def)

lemma inv_shutdown_end:
  assumes "sender_inv cfg st"
  shows "sender_inv cfg (shutdown_end st)"
proof -
  have "phases_ok (shutdown_end st)"
    using assms phases_ok_cong [of "shutdown_end st" st] by (simp add: sender_inv_def shutdown_end_def)
  moreover have "owners_ok {} (shutdown_end st)" "drained_or_running (shutdown_end st)"
    using assms by (auto simp: sender_inv_def shutdown_end_def owners_ok_def drained_or_running_def drop_events_def task_ids_def)
  ultimately show ?thesis using assms counts_ok_shutdown_end by (auto simp: sender_inv_def)
qed

lemma inv_step: "sender_step cfg now st st' \<Longrightarrow> sender_inv cfg st \<Longrightarrow> sender_inv cfg st'"
proof (induction rule: sender_step.induct)
  case (Awake st i t)
  then have "i \<in> task_ids st" by (intro phase_of_key [of i st Sleeping]) (simp add: phase_of_def)
  with Awake show ?case by (simp add: inv_awake)
next
  case (Resume st seen deadline)
  then show ?case by (auto intro!: inv_wait_or_work inv_paused)
qed (auto intro: inv_send inv_answer inv_outcome inv_worker inv_drain_loop inv_shutdown_start inv_shutdown_end)

lemma reach_inv: "sender_reach cfg st \<Longrightarrow> sender_inv cfg st"
  by (induction rule: sender_reach.induct) (auto intro: inv_init inv_step)

subsection \<open>The batches and the back-off\<close>

text \<open>The bodies sent so far carry the sequence numbers from 1 on and counters that add up.\<close>

definition log_ok :: "'e sender \<Rightarrow> bool" where
  "log_ok st \<longleftrightarrow> map bd_seq (sn_bodies st) = [1..<Suc (sn_seq st)] \<and>
     (\<forall>b \<in> set (sn_bodies st). sum_list (map snd (bd_dropped b)) \<le> bd_enqueued_total b \<and> bd_enqueued_total b \<le> sn_enqueued st)"

definition fits :: "'e sender \<Rightarrow> bool" where
  "fits st \<longleftrightarrow> log_ok st \<and> dropped_total st \<le> sn_enqueued st"

lemma sum_filter_nonzero: "sum_list (map snd (filter (\<lambda>e. snd e \<noteq> 0) (map (\<lambda>r. (r, f r)) rs))) = sum_list (map f rs :: nat list)"
  by (induction rs) auto

lemma fits_cong:
  assumes "sn_bodies st' = sn_bodies st" "sn_seq st' = sn_seq st" "sn_enqueued st' = sn_enqueued st" "sn_dropped st' = sn_dropped st"
  shows "fits st' \<longleftrightarrow> fits st"
  using assms by (simp add: fits_def log_ok_def dropped_total_def)

lemma fits_start: "fits st \<Longrightarrow> fits (start_attempt cfg i w st)"
proof -
  assume f: "fits st"
  have "sum_list (map snd (bd_dropped (request_body st))) = dropped_total st"
    unfolding request_body_def dropped_total_def by (simp only: batch_metadata.simps sum_filter_nonzero)
  with f have "fits (add_task i Fetching w (st\<lparr>sn_seq := sn_seq st + 1, sn_bodies := sn_bodies st @ [request_body st]\<rparr>))"
    by (simp add: fits_def log_ok_def add_task_def dropped_total_def) (simp add: request_body_def)
  moreover have "fits (add_task i ph w st)" for ph using f by (subst fits_cong [of _ st]) (simp_all add: add_task_def)
  ultimately show ?thesis by (simp add: start_attempt_def)
qed

lemma fits_worker: "fits st \<Longrightarrow> fits (worker_run cfg q st)"
proof (induction q arbitrary: st)
  case Nil
  then show ?case by (subst fits_cong [of _ st]) simp_all
next
  case (Cons i q)
  have "fits (st\<lparr>sn_queue := q'\<rparr>)" for q' using Cons.prems by (subst fits_cong [of _ st]) simp_all
  with Cons show ?case by (simp add: fits_start)
qed

lemma fits_spawn: "fits st \<Longrightarrow> fits (spawn_workers cfg n st)"
  by (induction n arbitrary: st) (simp_all add: fits_worker)

lemma fits_wait_or_work: "fits st \<Longrightarrow> fits (wait_or_work cfg now st)"
  using fits_cong [of "st\<lparr>sn_drain := d, sn_woken := b\<rparr>" st for d b] fits_cong [of "st\<lparr>sn_drain := d, sn_free := n\<rparr>" st for d n]
  by (simp add: wait_or_work_def fits_spawn)

lemma fits_drain_loop: "fits st \<Longrightarrow> fits (drain_loop cfg now st)"
  using fits_cong [of "st\<lparr>sn_drain := d\<rparr>" st for d] by (simp add: drain_loop_def fits_wait_or_work)

lemma fits_requeue: "fits st \<Longrightarrow> fits (requeue cfg now i st)"
  using fits_cong [of "st\<lparr>sn_queue := q\<rparr>" st for q] by (simp add: requeue_def drain_def fits_drain_loop)

text \<open>A step that starts no request keeps the log.\<close>

lemma log_ok_keep:
  "log_ok st \<Longrightarrow> sn_bodies st' = sn_bodies st \<Longrightarrow> sn_seq st' = sn_seq st \<Longrightarrow> sn_enqueued st \<le> sn_enqueued st' \<Longrightarrow> log_ok st'"
  by (auto simp: log_ok_def)

lemma fits_log: "fits st \<Longrightarrow> log_ok st"
  by (simp add: fits_def)

lemma inv_fits: "sender_inv cfg st \<Longrightarrow> log_ok st \<Longrightarrow> fits st"
  by (simp add: fits_def sender_inv_def counts_ok_def)

lemma log_ok_simps [simp]:
  "log_ok (settle_event i st) = log_ok st" "log_ok (end_task i st) = log_ok st" "log_ok (set_phase i ph st) = log_ok st"
  "log_ok (drop_events r n st) = log_ok st" "log_ok (st\<lparr>sn_sent := m\<rparr>) = log_ok st"
  "log_ok (st\<lparr>sn_backlogReason := b\<rparr>) = log_ok st" "log_ok (st\<lparr>sn_attempts := a\<rparr>) = log_ok st"
  by (simp_all add: log_ok_def) (simp add: set_phase_def split: option.splits)

lemma log_send:
  assumes "fits st"
  shows "log_ok (send_event cfg now e st)"
proof -
  let ?i = "sn_nextId st"
  let ?st1 = "st\<lparr>sn_enqueued := sn_enqueued st + 1, sn_nextId := ?i + 1,
      sn_events := (sn_events st)(?i := Some e), sn_attempts := (sn_attempts st)(?i := 0), sn_live := sn_live st @ [?i]\<rparr>"
  have f: "fits ?st1" using assms by (auto simp: fits_def log_ok_def dropped_total_def)
  have l: "log_ok (st\<lparr>sn_enqueued := sn_enqueued st + 1\<rparr>)"
    by (rule log_ok_keep [OF fits_log [OF assms]]) simp_all
  show ?thesis
  proof (cases "sc_enabled cfg \<and> \<not> sn_closed st \<and> length (sn_live st) < sc_maxPending cfg")
    case True
    then have "send_event cfg now e st = (if sn_paused st then requeue cfg now ?i ?st1 else start_attempt cfg ?i False ?st1)"
      by (simp add: send_event_def Let_def)
    then show ?thesis using fits_log [OF fits_requeue [OF f]] fits_log [OF fits_start [OF f]] by simp
  next
    case False
    then show ?thesis using l fits_log [OF assms] by (auto simp: send_event_def Let_def)
  qed
qed

lemma log_outcome:
  assumes "fits st"
  shows "log_ok (process_outcome cfg now i out st)"
proof -
  have e: "sn_enqueued (end_task i s) = sn_enqueued s" "sn_dropped (end_task i s) = sn_dropped s" for s :: "'a sender"
    using same_counts_end_task [of s i] by (simp_all add: same_counts_def)
  have "fits (end_task i (st\<lparr>sn_attempts := a\<rparr>))" for a
    using assms by (subst fits_cong [of _ st]) (simp_all add: e)
  then show ?thesis
    using fits_log [OF assms] by (cases out) (simp_all add: process_outcome_def Let_def fits_log [OF fits_requeue])
qed

lemma log_step: "sender_step cfg now st st' \<Longrightarrow> sender_inv cfg st \<Longrightarrow> log_ok st \<Longrightarrow> log_ok st'"
proof (induction rule: sender_step.induct)
  case (Answer i st ans)
  have sp: "sn_bodies (set_phase i p s) = sn_bodies s" "sn_seq (set_phase i p s) = sn_seq s" "sn_enqueued (set_phase i p s) = sn_enqueued s"
    for p and s :: "'a sender" by (simp_all add: set_phase_def split: option.splits)
  show ?case using Answer(3)
    by (auto simp: attempt_answered_def sp pause_sending_def split: collector_answer.splits elim!: log_ok_keep)
next
  case (Awake st i t)
  have "fits (end_task i st)"
    using inv_fits [OF Awake(3,4)] same_counts_end_task [of st i] fits_cong [of "end_task i st" st] by (simp add: same_counts_def)
  then show ?case using inv_fits [OF Awake(3,4)]
    by (auto simp: process_awake_def intro!: fits_log [OF fits_requeue] fits_log [OF fits_start] intro: fits_log)
next
  case (Worker st n)
  have "fits (st\<lparr>sn_free := n\<rparr>)" using inv_fits [OF Worker(2,3)] by (subst fits_cong [of _ st]) simp_all
  then show ?case by (rule fits_log [OF fits_worker])
next
  case (Resume st seen deadline)
  have "fits (st\<lparr>sn_paused := b\<rparr>)" for b using inv_fits [OF Resume(3,4)] by (subst fits_cong [of _ st]) simp_all
  then show ?case using inv_fits [OF Resume(3,4)] by (auto intro!: fits_log [OF fits_wait_or_work])
next
  case (Drained st)
  then show ?case using fits_log [OF fits_drain_loop] inv_fits by blast
next
  case (Shutdown st)
  then show ?case by (auto simp: shutdown_start_def Let_def elim!: log_ok_keep)
next
  case (Shutdown_over st)
  then show ?case by (auto simp: shutdown_end_def elim!: log_ok_keep)
qed (auto intro: log_send log_outcome inv_fits)

lemma reach_log: "sender_reach cfg st \<Longrightarrow> log_ok st"
proof (induction rule: sender_reach.induct)
  case reach_init
  show ?case by (simp add: log_ok_def sender_init_def)
qed (auto intro: log_step reach_inv)

text \<open>While paused, the drain machinery starts no request.\<close>

lemma seq_paused:
  assumes "sn_paused st"
  shows "sn_seq (worker_run cfg q st) = sn_seq st" "sn_seq (wait_or_work cfg now st) = sn_seq st"
    "sn_seq (drain_loop cfg now st) = sn_seq st" "sn_seq (requeue cfg now i st) = sn_seq st"
  using assms by (cases q; simp add: requeue_def drain_def drain_loop_def wait_or_work_def)+

lemma paused_frames [simp]:
  "sn_paused (worker_run cfg q st) = sn_paused st" "sn_paused (wait_or_work cfg now st) = sn_paused st"
  "sn_paused (drain_loop cfg now st) = sn_paused st" "sn_paused (requeue cfg now i st) = sn_paused st"
  "sn_paused (start_attempt cfg i w st) = sn_paused st" "sn_paused (set_phase i ph st) = sn_paused st"
  using same_counts_intros unfolding same_counts_def by metis+

lemma seq_set_phase [simp]: "sn_seq (set_phase i ph st) = sn_seq st"
  by (simp add: set_phase_def split: option.splits)

lemma step_paused:
  "sender_step cfg now st st' \<Longrightarrow> sn_paused st \<Longrightarrow> sn_paused st' \<Longrightarrow> sn_seq st' = sn_seq st"
proof (induction rule: sender_step.induct)
  case (Send st e)
  then show ?case by (auto simp: send_event_def Let_def seq_paused)
next
  case (Answer i st ans)
  then show ?case by (auto simp: attempt_answered_def pause_sending_def split: collector_answer.splits)
next
  case (Outcome i st out)
  then show ?case by (cases out) (auto simp: process_outcome_def Let_def seq_paused)
next
  case (Awake st i t)
  then show ?case by (auto simp: process_awake_def seq_paused)
qed (auto simp: seq_paused shutdown_start_def shutdown_end_def Let_def split: if_splits)

text \<open>The deadline the drain loop waits for is not before the latest one set.\<close>

definition wait_ok :: "'e sender \<Rightarrow> bool" where
  "wait_ok st \<longleftrightarrow> (sn_woken st \<longrightarrow> sn_closed st) \<and> (\<forall>s d. sn_drain st = Waiting s d \<longrightarrow> s \<le> sn_pauses st \<and>
     (s = sn_pauses st \<and> sn_paused st \<longrightarrow> sn_resumeAt st \<le> d))"

lemma wait_ok_same:
  "same_counts st st' \<Longrightarrow> sn_drain st' = sn_drain st \<Longrightarrow> sn_woken st' = sn_woken st \<Longrightarrow> wait_ok st' \<longleftrightarrow> wait_ok st"
  by (simp add: same_counts_def wait_ok_def)

lemma woken_frames [simp]:
  "sn_woken (start_attempt cfg i w st) = sn_woken st" "sn_woken (set_phase i ph st) = sn_woken st"
  "sn_woken (end_task i st) = sn_woken st" "sn_woken (settle_event i st) = sn_woken st"
  "sn_woken (drop_events r n st) = sn_woken st"
  by (auto simp: start_attempt_def add_task_def set_phase_def end_task_def settle_event_def drop_events_def split: option.splits)

lemma woken_worker [simp]: "sn_woken (worker_run cfg q st) = sn_woken st"
  by (induction q arbitrary: st) simp_all

lemma woken_spawn [simp]: "sn_woken (spawn_workers cfg n st) = sn_woken st"
  by (induction n arbitrary: st) simp_all

lemma wait_ok_wait_or_work:
  assumes "sn_woken st \<longrightarrow> sn_closed st"
  shows "wait_ok (wait_or_work cfg now st)"
  using assms same_counts_spawn [of "st\<lparr>sn_drain := Working, sn_free := 0\<rparr>" cfg DRAIN_CONCURRENCY]
  by (auto simp: wait_or_work_def wait_ok_def same_counts_def)

lemma wait_ok_drain_loop: "wait_ok st \<Longrightarrow> wait_ok (drain_loop cfg now st)"
  using wait_ok_wait_or_work [of st cfg now] by (simp add: drain_loop_def) (simp add: wait_ok_def)

lemma wait_ok_requeue:
  assumes "wait_ok st"
  shows "wait_ok (requeue cfg now i st)"
proof -
  have "wait_ok (st\<lparr>sn_queue := q\<rparr>)" for q using assms by (simp add: wait_ok_def)
  then show ?thesis by (simp add: requeue_def drain_def wait_ok_drain_loop)
qed

lemma wait_ok_simps [simp]:
  "wait_ok (start_attempt cfg i w st) = wait_ok st" "wait_ok (set_phase i ph st) = wait_ok st"
  "wait_ok (end_task i st) = wait_ok st" "wait_ok (worker_run cfg q st) = wait_ok st"
  by (rule wait_ok_same; simp add: same_counts_intros)+

lemma wait_ok_updates [simp]:
  "wait_ok (settle_event i st) = wait_ok st" "wait_ok (drop_events r n st) = wait_ok st"
  "wait_ok (st\<lparr>sn_sent := m\<rparr>) = wait_ok st" "wait_ok (st\<lparr>sn_attempts := a\<rparr>) = wait_ok st"
  "wait_ok (st\<lparr>sn_backlogReason := b\<rparr>) = wait_ok st" "wait_ok (st\<lparr>sn_free := m\<rparr>) = wait_ok st"
  "wait_ok (st\<lparr>sn_enqueued := m\<rparr>) = wait_ok st" "wait_ok (st\<lparr>sn_queue := q\<rparr>) = wait_ok st"
  "wait_ok (st\<lparr>sn_live := l\<rparr>) = wait_ok st" "wait_ok (st\<lparr>sn_nextId := m\<rparr>) = wait_ok st"
  "wait_ok (st\<lparr>sn_events := ev\<rparr>) = wait_ok st"
  by (simp_all add: wait_ok_def settle_event_def drop_events_def)

lemma wait_ok_step: "sender_step cfg now st st' \<Longrightarrow> wait_ok st \<Longrightarrow> wait_ok st'"
proof (induction rule: sender_step.induct)
  case (Send st e)
  have "wait_ok (st\<lparr>sn_enqueued := a, sn_nextId := b, sn_events := ev, sn_attempts := c, sn_live := l\<rparr>)" for a b ev c l
    using Send by (simp add: wait_ok_def)
  with Send show ?case by (simp add: send_event_def Let_def wait_ok_requeue)
next
  case (Answer i st ans)
  then show ?case
    by (auto simp: attempt_answered_def split: collector_answer.splits) (auto simp: wait_ok_def pause_sending_def)
next
  case (Outcome i st out)
  then show ?case by (cases out) (simp_all add: process_outcome_def Let_def wait_ok_requeue)
next
  case (Awake st i t)
  then show ?case by (simp add: process_awake_def wait_ok_requeue)
next
  case (Resume st seen deadline)
  then have "sn_woken st \<longrightarrow> sn_closed st" by (simp add: wait_ok_def)
  then show ?case by (intro wait_ok_wait_or_work) simp
qed (auto simp: wait_ok_drain_loop shutdown_end_def, auto simp: wait_ok_def shutdown_start_def Let_def)

lemma reach_wait_ok: "sender_reach cfg st \<Longrightarrow> wait_ok st"
proof (induction rule: sender_reach.induct)
  case reach_init
  show ?case by (simp add: wait_ok_def sender_init_def)
qed (auto intro: wait_ok_step)

text \<open>Sending resumes only when the drain loop's wait is over, or at shutdown.\<close>

lemma step_unpaused:
  "sender_step cfg now st st' \<Longrightarrow> wait_ok st \<Longrightarrow> sn_paused st \<Longrightarrow> \<not> sn_paused st' \<Longrightarrow> sn_closed st' \<or> sn_resumeAt st \<le> now"
proof (induction rule: sender_step.induct)
  case (Send st e)
  then show ?case by (auto simp: send_event_def Let_def split: if_splits)
next
  case (Answer i st ans)
  then show ?case by (auto simp: attempt_answered_def pause_sending_def split: collector_answer.splits)
next
  case (Outcome i st out)
  then show ?case by (cases out) (auto simp: process_outcome_def Let_def split: if_splits)
next
  case (Awake st i t)
  then show ?case by (auto simp: process_awake_def split: if_splits)
next
  case (Resume st seen deadline)
  have "sn_closed (wait_or_work cfg now (st\<lparr>sn_paused := False\<rparr>)) = sn_closed st"
    using same_counts_wait_or_work [of "st\<lparr>sn_paused := False\<rparr>" cfg now] by (simp add: same_counts_def)
  with Resume show ?case by (auto simp: wait_ok_def split: if_splits)
qed (auto simp: shutdown_end_def shutdown_start_def Let_def split: if_splits)

subsection \<open>Properties\<close>

text \<open>C15. No event is lost or counted twice: whatever is sent, answered, retried and shut down, at every
  moment the events handed to an enabled sender are exactly those sent, those dropped for one of the counted
  reasons and those still pending, and the pending ones stay within \<open>maxPending\<close>.\<close>

theorem sender_accounting:
  assumes "sender_reach cfg st"
  shows "let s = stats now st in ss_enqueued s = ss_sent s + ss_dropped_total s + ss_pending s \<and>
    ss_pending s \<le> sc_maxPending cfg \<and> ss_queued s \<le> ss_pending s"
proof -
  from reach_inv [OF assms] have "counts_ok cfg st" "set (sn_queue st) \<subseteq> set (sn_live st)" "distinct (sn_queue st)"
    by (auto simp: sender_inv_def owners_ok_def strict_sorted_iff)
  moreover from this have "length (sn_queue st) \<le> length (sn_live st)"
    by (metis List.finite_set card_mono counts_ok_def distinct_card)
  ultimately show ?thesis by (simp add: stats_def counts_ok_def Let_def)
qed

text \<open>C16. Every pending event is being delivered: it either waits once in the back-off queue, which is in the order
  the events were enqueued, or is in the hands of exactly one running \<open>process\<close> call, never both; and while
  events wait in the queue the drain loop runs, so that it is never left unserved: when no task runs, a step of
  the drain loop or of one of its workers is possible at some time.\<close>

theorem sender_no_event_stranded:
  assumes "sender_reach cfg st"
  shows "(\<forall>i \<in> set (sn_live st). (i \<in> set (sn_queue st)) \<noteq> (i \<in> fst ` set (sn_tasks st))) \<and>
    sorted_wrt (<) (sn_queue st) \<and> distinct (map fst (sn_tasks st)) \<and>
    (sn_queue st \<noteq> [] \<longrightarrow> sn_drain st \<noteq> Not_draining) \<and>
    (sn_queue st \<noteq> [] \<and> sn_tasks st = [] \<longrightarrow> sn_free st \<noteq> 0 \<or> (\<exists>s d. sn_drain st = Waiting s d) \<or>
       (sn_drain st = Working \<and> \<not> has_workers st))"
proof -
  from reach_inv [OF assms] have o: "owners_ok {} st" and d: "drained_or_running st" by (simp_all add: sender_inv_def)
  show ?thesis
    using o d by (cases "sn_drain st")
      (auto simp: owners_ok_def task_ids_def jm_wf_def drained_or_running_def has_workers_def)
qed

text \<open>C17. The back-off after a 429 holds: as long as sending is paused no request starts (no batch number is
  taken), and it resumes only at shutdown or once the deadline of the latest 429 has passed.\<close>

theorem sender_respects_backoff:
  assumes "sender_reach cfg st" "sender_step cfg now st st'" "sn_paused st"
  shows "if sn_paused st' then sn_seq st' = sn_seq st else sn_closed st' \<or> sn_resumeAt st \<le> now"
  using step_paused [OF assms(2,3)] step_unpaused [OF assms(2) reach_wait_ok [OF assms(1)] assms(3)] by simp

text \<open>The collector can reconcile what it receives: the batches sent so far are numbered 1, 2, 3 and so on
  without a gap, and the cumulative counters of each never report more drops than events.\<close>

lemma sender_batches_numbered:
  assumes "sender_reach cfg st"
  shows "map bd_seq (sn_bodies st) = [1..<Suc (sn_seq st)] \<and>
    (\<forall>b \<in> set (sn_bodies st). sum_list (map snd (bd_dropped b)) \<le> bd_enqueued_total b \<and> bd_enqueued_total b \<le> sn_enqueued st)"
  using reach_log [OF assms] by (simp add: log_ok_def)

text \<open>An event is sent, answered with a 429 and waits; a second one joins it in the queue.\<close>

definition sample_sender :: "nat sender_config" where
  "sample_sender = \<lparr>sc_enabled = True, sc_safe = True, sc_maxPending = 2, sc_maxAttempts = 3,
     sc_serializes = (\<lambda>_. True), sc_dateParse = (\<lambda>_. None)\<rparr>"

definition sample_run1 :: "nat sender" where
  "sample_run1 = attempt_answered sample_sender 10 0 (Too_many_requests None) (send_event sample_sender 5 7 sender_init)"

definition sample_run2 :: "nat sender" where
  "sample_run2 = send_event sample_sender 12 8
     (process_outcome sample_sender 11 0 (Failed Rate_limited False) sample_run1)"

lemma sample_run1_reach: "sender_reach sample_sender sample_run1"
proof -
  have "sender_reach sample_sender (send_event sample_sender 5 7 sender_init)"
    by (rule reach_step [OF reach_init Send])
  moreover have "phase_of 0 (send_event sample_sender 5 7 sender_init) = Some Fetching"
    by (simp add: send_event_def Let_def sample_sender_def sender_init_def start_attempt_def)
  ultimately show ?thesis unfolding sample_run1_def by (blast intro: reach_step Answer)
qed

lemma sample_run2_reach: "sender_reach sample_sender sample_run2"
proof -
  have "phase_of 0 sample_run1 = Some (Resolved (Failed Rate_limited False))"
    by (simp add: sample_run1_def attempt_answered_def send_event_def Let_def sample_sender_def sender_init_def start_attempt_def
        pause_sending_def phase_of_def add_task_def set_phase_def)
  then show ?thesis unfolding sample_run2_def by (blast intro: reach_step Outcome Send sample_run1_reach)
qed

lemma sample_run2_facts: "sn_enqueued sample_run2 = 2" "sn_queue sample_run2 = [0, 1]" "sn_paused sample_run2"
  "sn_live sample_run2 = [0, 1]" "sn_seq sample_run2 = 1"
  by code_simp+

theorem sender_accounting_witness:
  "length (sn_live sample_run2) = 2 \<and> sn_sent sample_run2 + dropped_total sample_run2 = 0"
  using sender_accounting [OF sample_run2_reach, of 12] by (simp add: sample_run2_facts stats_def Let_def)

theorem sender_no_event_stranded_witness:
  "sn_drain sample_run2 \<noteq> Not_draining \<and> 0 \<notin> fst ` set (sn_tasks sample_run2)"
  using sender_no_event_stranded [OF sample_run2_reach] by (simp add: sample_run2_facts)

theorem sender_respects_backoff_witness:
  "sn_seq (send_event sample_sender 13 9 sample_run2) = 1"
  using sender_respects_backoff [OF sample_run2_reach Send, of 13 9]
  by (simp add: sample_run2_facts send_event_def Let_def sample_sender_def split: if_splits)

end
