(* ===== verification/Oidc_Config.thy ===== *)
theory Oidc_Config
  imports Prelude
begin

text \<open>
  OIDC configuration (\<open>gateway/src/middlewares/psOidc/config.ts\<close>): the group policy and the settings
  read from the environment. Every \<open>fail\<close> of the code is a constructor of \<open>oidc_error\<close>, and the checks
  run in its order. A policy's sets are \<open>string set\<close>; \<open>JSON.parse\<close>, \<open>URL\<close> and the reading of a file
  named by a variable are parameters.
\<close>

subsection \<open>Data\<close>

datatype limit_scope = Per_user | Per_group

record rate_limit_rule =
  rl_requestsPerMinute :: int
  rl_per :: limit_scope

record mcp_tool_rule =
  mr_allow :: "string set option"
  mr_denyLower :: "string set option"

record mcp_group_policy =
  mg_servers :: "(string, mcp_tool_rule) jmap"

record policy_group =
  pg_name :: string
  pg_match :: "string list"
  pg_providers :: "string list option"
  pg_models :: "string list option"
  pg_rateLimit :: "rate_limit_rule option"
  pg_mcp :: "mcp_group_policy option"

datatype default_action = Deny_default | Allow_default

record oidc_policy =
  op_defaultAction :: default_action
  op_groups :: "policy_group list"

datatype subject_mode = Subject_hash | Subject_raw | Subject_off

record oidc_config =
  oc_issuer :: string
  oc_audiences :: "string list"
  oc_jwksUrl :: "string option"
  oc_algorithms :: "string list"
  oc_clockSkewSeconds :: int
  oc_groupsClaim :: string
  oc_policy :: "oidc_policy option"
  oc_telemetrySubject :: subject_mode
  oc_subjectSalt :: "string option"
  oc_providerKeys :: "(string, string) jmap"

datatype oidc_error =
    Not_string_list string
  | Mcp_not_object string
  | Unknown_key string string
  | Servers_not_object string
  | Bad_server_id string
  | Rule_not_object string
  | Tools_not_object string
  | Not_tool_names string
  | Bad_tool_name string string
  | Policy_not_object
  | Bad_default
  | Groups_not_array
  | Group_not_object string
  | Bad_group_name string
  | Name_used_twice string string
  | Bad_rate string
  | Bad_per string
  | Issuer_required
  | Not_a_url string
  | Not_https string
  | Audience_required
  | Algorithm_not_allowed string
  | Bad_clock_skew
  | Bad_groups_claim
  | Invalid_json string
  | Bad_telemetry_subject
  | Keys_not_object
  | Bad_provider_key string

datatype oidc_settings = Oidc_disabled | Oidc_enabled oidc_config | Oidc_invalid oidc_error

definition ASYMMETRIC_ALGORITHMS :: "string list" where
  "ASYMMETRIC_ALGORITHMS = [''RS256'', ''RS384'', ''RS512'', ''PS256'', ''PS384'', ''PS512'', ''ES256'', ''ES384'', ''ES512'', ''EdDSA'']"

definition DEFAULT_ALGORITHMS :: "string list" where
  "DEFAULT_ALGORITHMS = filter (\<lambda>a. a \<noteq> ''EdDSA'') ASYMMETRIC_ALGORITHMS"

definition DEFAULT_CLOCK_SKEW_SECONDS :: int where "DEFAULT_CLOCK_SKEW_SECONDS = 60"
definition MAX_CLOCK_SKEW_SECONDS :: int where "MAX_CLOCK_SKEW_SECONDS = 300"
definition DEFAULT_GROUPS_CLAIM :: string where "DEFAULT_GROUPS_CLAIM = ''groups''"

subsection \<open>Names\<close>

definition is_alnum :: "char \<Rightarrow> bool" where
  "is_alnum c \<longleftrightarrow> (let n = of_char c :: nat in
     (48 \<le> n \<and> n \<le> 57) \<or> (65 \<le> n \<and> n \<le> 90) \<or> (97 \<le> n \<and> n \<le> 122))"

definition is_lower_alnum :: "char \<Rightarrow> bool" where
  "is_lower_alnum c \<longleftrightarrow> (let n = of_char c :: nat in (48 \<le> n \<and> n \<le> 57) \<or> (97 \<le> n \<and> n \<le> 122))"

text \<open>\<open>/^[a-z0-9][a-z0-9_-]{0,62}$/\<close>\<close>

definition MCP_SERVER_ID_RE :: "string \<Rightarrow> bool" where
  "MCP_SERVER_ID_RE s \<longleftrightarrow> (case s of [] \<Rightarrow> False
     | c # cs \<Rightarrow> is_lower_alnum c \<and> length cs \<le> 62 \<and>
         list_all (\<lambda>d. is_lower_alnum d \<or> d = CHR ''_'' \<or> d = CHR ''-'') cs)"

text \<open>\<open>/^[A-Za-z0-9_.-]{1,128}$/\<close>\<close>

definition MCP_TOOL_NAME_RE :: "string \<Rightarrow> bool" where
  "MCP_TOOL_NAME_RE s \<longleftrightarrow> 1 \<le> length s \<and> length s \<le> 128 \<and>
     list_all (\<lambda>c. is_alnum c \<or> c = CHR ''_'' \<or> c = CHR ''.'' \<or> c = CHR ''-'') s"

text \<open>\<open>/^[A-Za-z0-9_.:-]{1,64}$/\<close>\<close>

definition group_name_ok :: "string \<Rightarrow> bool" where
  "group_name_ok s \<longleftrightarrow> 1 \<le> length s \<and> length s \<le> 64 \<and>
     list_all (\<lambda>c. is_alnum c \<or> c = CHR ''_'' \<or> c = CHR ''.'' \<or> c = CHR '':'' \<or> c = CHR ''-'') s"

subsection \<open>Lists of names\<close>

fun json_texts :: "json list \<Rightarrow> string list option" where
  "json_texts [] = Some []"
| "json_texts (JStr s # vs) = map_option ((#) s) (json_texts vs)"
| "json_texts _ = None"

definition stringList :: "string \<Rightarrow> json option \<Rightarrow> oidc_error + string list" where
  "stringList wh v =
    (case v of
       Some (JArr vs) \<Rightarrow>
         (case json_texts vs of
            Some ss \<Rightarrow> if ss = [] \<or> \<not> list_all (\<lambda>s. trim s \<noteq> []) ss then Inl (Not_string_list wh)
                       else Inr (map trim ss)
          | None \<Rightarrow> Inl (Not_string_list wh))
     | _ \<Rightarrow> Inl (Not_string_list wh))"

definition toolNames :: "string \<Rightarrow> json \<Rightarrow> oidc_error + string list" where
  "toolNames wh v =
    (case v of
       JArr vs \<Rightarrow>
         (case json_texts vs of
            Some ss \<Rightarrow> (case List.find (\<lambda>s. \<not> MCP_TOOL_NAME_RE s) ss of
                          Some s \<Rightarrow> Inl (Bad_tool_name wh s) | None \<Rightarrow> Inr ss)
          | None \<Rightarrow> Inl (Not_tool_names wh))
     | _ \<Rightarrow> Inl (Not_tool_names wh))"

definition known_keys :: "string \<Rightarrow> string list \<Rightarrow> (string \<times> json) list \<Rightarrow> oidc_error + unit" where
  "known_keys wh known fs =
    (case unknown_field known fs of Some k \<Rightarrow> Inl (Unknown_key wh k) | None \<Rightarrow> Inr ())"

definition optional :: "('a \<Rightarrow> 'e + 'b) \<Rightarrow> 'a option \<Rightarrow> 'e + 'b option" where
  "optional f v = (case v of None \<Rightarrow> Inr None | Some x \<Rightarrow> rbind (f x) (\<lambda>y. Inr (Some y)))"

subsection \<open>MCP access of a group\<close>

text \<open>The \<open>tools\<close> of one server; the rule of a server without it is empty.\<close>

definition parse_tool_rule :: "string \<Rightarrow> json option \<Rightarrow> oidc_error + mcp_tool_rule" where
  "parse_tool_rule here tools =
    (case tools of None \<Rightarrow> Inr \<lparr>mr_allow = None, mr_denyLower = None\<rparr>
     | Some (JObj ts) \<Rightarrow>
        rbind (known_keys (here @ ''.tools'') [''allow'', ''deny''] ts) (\<lambda>_.
        rbind (optional (toolNames (here @ ''.tools.allow'')) (map_of ts ''allow'')) (\<lambda>allow.
        rbind (optional (toolNames (here @ ''.tools.deny'')) (map_of ts ''deny'')) (\<lambda>deny.
        Inr \<lparr>mr_allow = map_option set allow, mr_denyLower = map_option (\<lambda>ns. set (map to_lower ns)) deny\<rparr>)))
     | Some _ \<Rightarrow> Inl (Tools_not_object (here @ ''.tools'')))"

definition parse_server_rule :: "string \<Rightarrow> string \<Rightarrow> json \<Rightarrow> oidc_error + mcp_tool_rule" where
  "parse_server_rule wh sid rule =
    (let here = wh @ ''.mcp.servers.'' @ sid in
     if \<not> MCP_SERVER_ID_RE sid then Inl (Bad_server_id here)
     else case rule of
       JObj fs \<Rightarrow> rbind (known_keys here [''tools''] fs) (\<lambda>_. parse_tool_rule here (map_of fs ''tools''))
     | _ \<Rightarrow> Inl (Rule_not_object here))"

fun parse_servers :: "string \<Rightarrow> (string, mcp_tool_rule) jmap \<Rightarrow> (string \<times> json) list \<Rightarrow> oidc_error + (string, mcp_tool_rule) jmap" where
  "parse_servers wh servers [] = Inr servers"
| "parse_servers wh servers ((sid, rule) # rest) =
    rbind (parse_server_rule wh sid rule) (\<lambda>out. parse_servers wh (jm_set sid out servers) rest)"

definition parseMcpGroupPolicy :: "string \<Rightarrow> json \<Rightarrow> oidc_error + mcp_group_policy" where
  "parseMcpGroupPolicy wh raw =
    (case raw of
       JObj m \<Rightarrow>
         rbind (known_keys (wh @ ''.mcp'') [''servers''] m) (\<lambda>_.
         case map_of m ''servers'' of
           Some (JObj ss) \<Rightarrow> rbind (parse_servers wh [] ss) (\<lambda>servers. Inr \<lparr>mg_servers = servers\<rparr>)
         | _ \<Rightarrow> Inl (Servers_not_object wh))
     | _ \<Rightarrow> Inl (Mcp_not_object wh))"

subsection \<open>Group policy\<close>

definition GROUP_KEYS :: "string list" where
  "GROUP_KEYS = [''name'', ''match'', ''providers'', ''models'', ''rate_limit'', ''mcp'']"

fun scope_name :: "limit_scope \<Rightarrow> string" where
  "scope_name Per_user = ''user''"
| "scope_name Per_group = ''group''"

text \<open>\<open>rl?.requests_per_minute\<close> must be a positive integer, \<open>rl.per\<close> defaults to \<open>user\<close>.\<close>

definition parse_rate_limit :: "string \<Rightarrow> json \<Rightarrow> oidc_error + rate_limit_rule" where
  "parse_rate_limit wh rl =
    (case prop_of (Some rl) ''requests_per_minute'' of
       Some (JNum n) \<Rightarrow>
         (case js_integer n of
            Some rpm \<Rightarrow>
              if rpm < 1 then Inl (Bad_rate wh)
              else rbind (lift_option (Bad_per wh)
                     (choice scope_name [Per_user, Per_group] (Some (json_or (prop_of (Some rl) ''per'') (JStr ''user'')))))
                   (\<lambda>per. Inr \<lparr>rl_requestsPerMinute = rpm, rl_per = per\<rparr>)
          | None \<Rightarrow> Inl (Bad_rate wh))
     | _ \<Rightarrow> Inl (Bad_rate wh))"

definition group_where :: "nat \<Rightarrow> string" where
  "group_where i = ''PS_OIDC_POLICY.groups['' @ digits_of i @ '']''"

definition parse_group :: "string list \<Rightarrow> nat \<Rightarrow> json \<Rightarrow> oidc_error + policy_group" where
  "parse_group names i g =
    (let wh = group_where i in
     case g of
       JObj fs \<Rightarrow>
         rbind (known_keys wh GROUP_KEYS fs) (\<lambda>_.
         rbind (lift_option (Bad_group_name wh) (json_text (map_of fs ''name''))) (\<lambda>name.
         rbind (ensure (group_name_ok name) (Bad_group_name wh)) (\<lambda>_.
         rbind (ensure (name \<notin> set names) (Name_used_twice wh name)) (\<lambda>_.
         rbind (stringList (wh @ ''.match'') (map_of fs ''match'')) (\<lambda>ms.
         rbind (optional (\<lambda>v. stringList (wh @ ''.providers'') (Some v)) (map_of fs ''providers'')) (\<lambda>providers.
         rbind (optional (\<lambda>v. stringList (wh @ ''.models'') (Some v)) (map_of fs ''models'')) (\<lambda>models.
         rbind (optional (parse_rate_limit wh) (map_of fs ''rate_limit'')) (\<lambda>rate.
         rbind (optional (parseMcpGroupPolicy wh) (map_of fs ''mcp'')) (\<lambda>mcp.
         Inr \<lparr>pg_name = name, pg_match = ms, pg_providers = map_option (map to_lower) providers, pg_models = models,
              pg_rateLimit = rate, pg_mcp = mcp\<rparr>)))))))))
     | _ \<Rightarrow> Inl (Group_not_object wh))"

fun parse_groups :: "string list \<Rightarrow> nat \<Rightarrow> json list \<Rightarrow> oidc_error + policy_group list" where
  "parse_groups names i [] = Inr []"
| "parse_groups names i (g # gs) =
    rbind (parse_group names i g) (\<lambda>p.
    rbind (parse_groups (pg_name p # names) (i + 1) gs) (\<lambda>ps. Inr (p # ps)))"

fun action_name :: "default_action \<Rightarrow> string" where
  "action_name Deny_default = ''deny''"
| "action_name Allow_default = ''allow''"

definition parsePolicy :: "json \<Rightarrow> oidc_error + oidc_policy" where
  "parsePolicy raw =
    (case raw of
       JObj p \<Rightarrow>
         rbind (known_keys ''PS_OIDC_POLICY'' [''default'', ''groups''] p) (\<lambda>_.
         rbind (lift_option Bad_default
                  (choice action_name [Deny_default, Allow_default] (Some (json_or (map_of p ''default'') (JStr ''deny'')))))
           (\<lambda>act.
         case map_of p ''groups'' of
           Some (JArr gs) \<Rightarrow> rbind (parse_groups [] 0 gs) (\<lambda>groups. Inr \<lparr>op_defaultAction = act, op_groups = groups\<rparr>)
         | _ \<Rightarrow> Inl Groups_not_array))
     | _ \<Rightarrow> Inl Policy_not_object)"

subsection \<open>Settings\<close>

definition is_true :: "string option \<Rightarrow> bool" where
  "is_true v \<longleftrightarrow> to_lower (trim (case v of None \<Rightarrow> [] | Some s \<Rightarrow> s)) \<in> {''true'', ''1'', ''yes''}"

definition env_list :: "string option \<Rightarrow> string list" where
  "env_list v = filter (\<lambda>s. s \<noteq> []) (map trim (split_on (CHR '','') (case v of None \<Rightarrow> [] | Some s \<Rightarrow> s)))"

text \<open>\<open>v?.trim() || undefined\<close>\<close>

definition trimmed :: "string option \<Rightarrow> string option" where
  "trimmed v = (case v of None \<Rightarrow> None | Some s \<Rightarrow> if trim s = [] then None else Some (trim s))"

text \<open>\<open>contents\<close> is \<open>getValueOrFileContents\<close>; an empty result counts as unset.\<close>

definition valueOrFile :: "(string \<Rightarrow> string) \<Rightarrow> string option \<Rightarrow> string option" where
  "valueOrFile contents v = (case trimmed v of None \<Rightarrow> None | Some raw \<Rightarrow> trimmed (Some (contents raw)))"

text \<open>\<open>protocol\<close> is the protocol of the URL a string spells, \<open>None\<close> where it is no URL.\<close>

definition httpsUrl :: "(string \<Rightarrow> string option) \<Rightarrow> string \<Rightarrow> string \<Rightarrow> oidc_error + unit" where
  "httpsUrl protocol name v =
    (case protocol v of None \<Rightarrow> Inl (Not_a_url name)
     | Some p \<Rightarrow> if p = ''https:'' then Inr () else Inl (Not_https name))"

definition claim_char :: "char \<Rightarrow> bool" where
  "claim_char c \<longleftrightarrow> is_alnum c \<or> c = CHR ''_'' \<or> c = CHR '':'' \<or> c = CHR ''/'' \<or> c = CHR ''-''"

text \<open>Dot-separated, non-empty parts of claim characters.\<close>

definition groups_claim_ok :: "string \<Rightarrow> bool" where
  "groups_claim_ok s \<longleftrightarrow> list_all (\<lambda>p. p \<noteq> [] \<and> list_all claim_char p) (split_on (CHR ''.'') s)"

definition parse_algorithms :: "string option \<Rightarrow> oidc_error + string list" where
  "parse_algorithms v =
    (let algs = (if trimmed v = None then DEFAULT_ALGORITHMS else env_list v) in
     case List.find (\<lambda>a. a \<notin> set ASYMMETRIC_ALGORITHMS) algs of
       Some a \<Rightarrow> Inl (Algorithm_not_allowed a) | None \<Rightarrow> Inr algs)"

definition parse_skew :: "string option \<Rightarrow> oidc_error + int" where
  "parse_skew v =
    (case trimmed v of None \<Rightarrow> Inr DEFAULT_CLOCK_SKEW_SECONDS
     | Some s \<Rightarrow> (case js_integer (js_Number s) of
          Some n \<Rightarrow> if 0 \<le> n \<and> n \<le> MAX_CLOCK_SKEW_SECONDS then Inr n else Inl Bad_clock_skew
        | None \<Rightarrow> Inl Bad_clock_skew))"

fun mode_name :: "subject_mode \<Rightarrow> string" where
  "mode_name Subject_hash = ''hash''"
| "mode_name Subject_raw = ''raw''"
| "mode_name Subject_off = ''off''"

definition parse_subject_mode :: "string option \<Rightarrow> oidc_error + subject_mode" where
  "parse_subject_mode v =
    lift_option Bad_telemetry_subject (List.find (\<lambda>m. mode_name m =
      (case trimmed v of None \<Rightarrow> ''hash'' | Some s \<Rightarrow> to_lower s)) [Subject_hash, Subject_raw, Subject_off])"

text \<open>An assignment to \<open>__proto__\<close> of a plain object does not add a key.\<close>

fun parse_keys :: "(string, string) jmap \<Rightarrow> (string \<times> json) list \<Rightarrow> oidc_error + (string, string) jmap" where
  "parse_keys ks [] = Inr ks"
| "parse_keys ks ((provider, v) # rest) =
    (case v of
       JStr key \<Rightarrow>
         if trim key = [] then Inl (Bad_provider_key provider)
         else parse_keys (if to_lower provider = ''__proto__'' then ks
                          else jm_set (to_lower provider) (trim key) ks) rest
     | _ \<Rightarrow> Inl (Bad_provider_key provider))"

definition parse_provider_keys :: "(string \<Rightarrow> json option) \<Rightarrow> string option \<Rightarrow> oidc_error + (string, string) jmap" where
  "parse_provider_keys jsonParse raw =
    (case raw of None \<Rightarrow> Inr []
     | Some t \<Rightarrow>
        rbind (lift_option (Invalid_json ''PS_OIDC_PROVIDER_KEYS'') (jsonParse t)) (\<lambda>v.
        case v of JObj fs \<Rightarrow> parse_keys [] fs | _ \<Rightarrow> Inl Keys_not_object))"

definition oidc_config_of ::
  "(string \<Rightarrow> json option) \<Rightarrow> (string \<Rightarrow> string option) \<Rightarrow> (string \<Rightarrow> string) \<Rightarrow> (string \<Rightarrow> string option)
   \<Rightarrow> oidc_error + oidc_config" where
  "oidc_config_of jsonParse protocol contents raw =
    rbind (lift_option Issuer_required (trimmed (raw ''PS_OIDC_ISSUER''))) (\<lambda>issuer.
    rbind (httpsUrl protocol ''PS_OIDC_ISSUER'' issuer) (\<lambda>_.
    rbind (ensure (env_list (raw ''PS_OIDC_AUDIENCE'') \<noteq> []) Audience_required) (\<lambda>_.
    rbind (case trimmed (raw ''PS_OIDC_JWKS_URL'') of None \<Rightarrow> Inr ()
           | Some u \<Rightarrow> httpsUrl protocol ''PS_OIDC_JWKS_URL'' u) (\<lambda>_.
    rbind (parse_algorithms (raw ''PS_OIDC_ALGORITHMS'')) (\<lambda>algs.
    rbind (parse_skew (raw ''PS_OIDC_CLOCK_SKEW_SECONDS'')) (\<lambda>skew.
    (let claim = (case trimmed (raw ''PS_OIDC_GROUPS_CLAIM'') of None \<Rightarrow> DEFAULT_GROUPS_CLAIM | Some s \<Rightarrow> s) in
    rbind (ensure (groups_claim_ok claim) Bad_groups_claim) (\<lambda>_.
    rbind (optional (\<lambda>t. rbind (lift_option (Invalid_json ''PS_OIDC_POLICY'') (jsonParse t)) parsePolicy)
             (valueOrFile contents (raw ''PS_OIDC_POLICY''))) (\<lambda>policy.
    rbind (parse_subject_mode (raw ''PS_OIDC_TELEMETRY_SUBJECT'')) (\<lambda>mode.
    rbind (parse_provider_keys jsonParse (valueOrFile contents (raw ''PS_OIDC_PROVIDER_KEYS''))) (\<lambda>keys.
    Inr \<lparr>oc_issuer = issuer, oc_audiences = env_list (raw ''PS_OIDC_AUDIENCE''),
         oc_jwksUrl = trimmed (raw ''PS_OIDC_JWKS_URL''), oc_algorithms = algs, oc_clockSkewSeconds = skew,
         oc_groupsClaim = claim, oc_policy = policy, oc_telemetrySubject = mode,
         oc_subjectSalt = trimmed (raw ''PS_OIDC_SUBJECT_SALT''), oc_providerKeys = keys\<rparr>)))))))))))"

definition parseOidcConfig ::
  "(string \<Rightarrow> json option) \<Rightarrow> (string \<Rightarrow> string option) \<Rightarrow> (string \<Rightarrow> string) \<Rightarrow> (string \<Rightarrow> string option)
   \<Rightarrow> oidc_settings" where
  "parseOidcConfig jsonParse protocol contents raw =
    (if \<not> is_true (raw ''PS_OIDC_ENABLED'') then Oidc_disabled
     else case oidc_config_of jsonParse protocol contents raw of Inl e \<Rightarrow> Oidc_invalid e | Inr c \<Rightarrow> Oidc_enabled c)"

subsection \<open>What validation guarantees\<close>

definition rule_ok :: "mcp_tool_rule \<Rightarrow> bool" where
  "rule_ok r \<longleftrightarrow> (\<forall>ns. mr_allow r = Some ns \<longrightarrow> (\<forall>n \<in> ns. MCP_TOOL_NAME_RE n)) \<and>
     (\<forall>ns. mr_denyLower r = Some ns \<longrightarrow> (\<forall>n \<in> ns. to_lower n = n))"

definition mcp_ok :: "mcp_group_policy \<Rightarrow> bool" where
  "mcp_ok m \<longleftrightarrow> jm_wf (mg_servers m) \<and> (\<forall>(i, r) \<in> set (mg_servers m). MCP_SERVER_ID_RE i \<and> rule_ok r)"

definition group_ok :: "policy_group \<Rightarrow> bool" where
  "group_ok g \<longleftrightarrow> group_name_ok (pg_name g) \<and> pg_match g \<noteq> [] \<and> [] \<notin> set (pg_match g) \<and>
     (\<forall>ps. pg_providers g = Some ps \<longrightarrow> ps \<noteq> [] \<and> (\<forall>q \<in> set ps. q \<noteq> [] \<and> to_lower q = q)) \<and>
     (\<forall>ms. pg_models g = Some ms \<longrightarrow> ms \<noteq> [] \<and> [] \<notin> set ms) \<and>
     (\<forall>r. pg_rateLimit g = Some r \<longrightarrow> 1 \<le> rl_requestsPerMinute r) \<and>
     (\<forall>m. pg_mcp g = Some m \<longrightarrow> mcp_ok m)"

definition policy_ok :: "oidc_policy \<Rightarrow> bool" where
  "policy_ok p \<longleftrightarrow> distinct (map pg_name (op_groups p)) \<and> (\<forall>g \<in> set (op_groups p). group_ok g)"

definition oidc_config_ok :: "(string \<Rightarrow> string option) \<Rightarrow> oidc_config \<Rightarrow> bool" where
  "oidc_config_ok protocol c \<longleftrightarrow>
     set (oc_algorithms c) \<subseteq> set ASYMMETRIC_ALGORITHMS \<and> oc_audiences c \<noteq> [] \<and>
     protocol (oc_issuer c) = Some ''https:'' \<and>
     (\<forall>u. oc_jwksUrl c = Some u \<longrightarrow> protocol u = Some ''https:'') \<and>
     0 \<le> oc_clockSkewSeconds c \<and> oc_clockSkewSeconds c \<le> MAX_CLOCK_SKEW_SECONDS \<and>
     (\<forall>p. oc_policy c = Some p \<longrightarrow> policy_ok p) \<and>
     (\<forall>(q, k) \<in> set (oc_providerKeys c). to_lower q = q \<and> k \<noteq> [])"

lemma lower_char_idem [simp]: "lower_char (lower_char c) = lower_char c"
  by (simp add: lower_char_def Let_def of_char_of)

lemma to_lower_idem [simp]: "to_lower (to_lower s) = to_lower s"
  by (simp add: to_lower_def)

lemma to_lower_eq_Nil [simp]: "to_lower s = [] \<longleftrightarrow> s = []" "[] = to_lower s \<longleftrightarrow> s = []"
  by (simp_all add: to_lower_def)

lemma optional_return [return_iff]:
  "optional f v = Inr w \<longleftrightarrow> (case v of None \<Rightarrow> w = None | Some x \<Rightarrow> (\<exists>y. f x = Inr y \<and> w = Some y))"
  by (auto simp: optional_def return_iff split: option.splits)

lemma stringList_return: "stringList wh v = Inr ss \<Longrightarrow> ss \<noteq> [] \<and> [] \<notin> set ss"
  by (auto simp: stringList_def list_all_iff image_iff eq_commute [of "[]"] split: option.splits json.splits if_splits)

lemma toolNames_return:
  assumes "toolNames wh v = Inr ns" "n \<in> set ns"
  shows "MCP_TOOL_NAME_RE n"
  using assms by (auto simp: toolNames_def find_None_iff split: json.splits option.splits)

lemma parse_tool_rule_return:
  assumes "parse_tool_rule here v = Inr r"
  shows "rule_ok r"
proof (cases v)
  case None
  with assms show ?thesis by (auto simp: parse_tool_rule_def rule_ok_def)
next
  case (Some tools)
  with assms obtain ts allow deny where
    "optional (toolNames (here @ ''.tools.allow'')) (map_of ts ''allow'') = Inr allow"
    and r: "r = \<lparr>mr_allow = map_option set allow, mr_denyLower = map_option (\<lambda>ns. set (map to_lower ns)) deny\<rparr>"
    by (auto simp: parse_tool_rule_def rbind_return_iff split: json.splits)
  then have "\<forall>ns. allow = Some ns \<longrightarrow> (\<forall>n \<in> set ns. MCP_TOOL_NAME_RE n)"
    by (auto simp: optional_return dest: toolNames_return split: option.splits)
  then show ?thesis by (auto simp: rule_ok_def r)
qed

lemma parse_server_rule_return: "parse_server_rule wh i v = Inr r \<Longrightarrow> MCP_SERVER_ID_RE i \<and> rule_ok r"
  by (auto simp: parse_server_rule_def Let_def return_iff dest: parse_tool_rule_return split: if_splits json.splits)

lemma set_jm_set_subset: "set (jm_set k v m) \<subseteq> insert (k, v) (set m)"
  by (induction k v m rule: jm_set.induct) auto

lemma parse_servers_return:
  "parse_servers wh acc fs = Inr m \<Longrightarrow> mcp_ok \<lparr>mg_servers = acc\<rparr> \<Longrightarrow> mcp_ok \<lparr>mg_servers = m\<rparr>"
proof (induction wh acc fs rule: parse_servers.induct)
  case (2 wh acc i rule rest)
  from 2(2) obtain r where r: "parse_server_rule wh i rule = Inr r" "parse_servers wh (jm_set i r acc) rest = Inr m"
    by (auto simp: return_iff)
  have "mcp_ok \<lparr>mg_servers = jm_set i r acc\<rparr>"
    using 2(3) parse_server_rule_return [OF r(1)] set_jm_set_subset [of i r acc]
    by (auto simp: mcp_ok_def intro: jm_wf_set)
  then show ?case using 2(1) r by blast
qed simp

lemma parseMcpGroupPolicy_return: "parseMcpGroupPolicy wh v = Inr m \<Longrightarrow> mcp_ok m"
proof -
  assume "parseMcpGroupPolicy wh v = Inr m"
  then obtain ss servers where "parse_servers wh [] ss = Inr servers" "m = \<lparr>mg_servers = servers\<rparr>"
    by (auto simp: parseMcpGroupPolicy_def return_iff split: json.splits option.splits)
  moreover have "mcp_ok \<lparr>mg_servers = []\<rparr>" by (simp add: mcp_ok_def)
  ultimately show "mcp_ok m" using parse_servers_return by blast
qed

lemma parse_rate_limit_return: "parse_rate_limit wh v = Inr r \<Longrightarrow> 1 \<le> rl_requestsPerMinute r"
  by (auto simp: parse_rate_limit_def return_iff split: option.splits json.splits if_splits)

lemma parse_group_return:
  assumes "parse_group names i v = Inr g"
  shows "group_ok g \<and> pg_name g \<notin> set names"
proof -
  from assms obtain fs name ms ps md rt mc where
    f: "group_name_ok name" "name \<notin> set names" "stringList (group_where i @ ''.match'') (map_of fs ''match'') = Inr ms"
      "optional (\<lambda>v. stringList (group_where i @ ''.providers'') (Some v)) (map_of fs ''providers'') = Inr ps"
      "optional (\<lambda>v. stringList (group_where i @ ''.models'') (Some v)) (map_of fs ''models'') = Inr md"
      "optional (parse_rate_limit (group_where i)) (map_of fs ''rate_limit'') = Inr rt"
      "optional (parseMcpGroupPolicy (group_where i)) (map_of fs ''mcp'') = Inr mc"
    and g: "g = \<lparr>pg_name = name, pg_match = ms, pg_providers = map_option (map to_lower) ps, pg_models = md,
              pg_rateLimit = rt, pg_mcp = mc\<rparr>"
    by (auto simp: parse_group_def Let_def rbind_return_iff ensure_return_iff split: json.splits)
  from f(3) have "ms \<noteq> [] \<and> [] \<notin> set ms" by (rule stringList_return)
  moreover from f(4) have "\<forall>xs. ps = Some xs \<longrightarrow> xs \<noteq> [] \<and> [] \<notin> set xs"
    by (auto simp: return_iff dest: stringList_return split: option.splits)
  moreover from f(5) have "\<forall>xs. md = Some xs \<longrightarrow> xs \<noteq> [] \<and> [] \<notin> set xs"
    by (auto simp: return_iff dest: stringList_return split: option.splits)
  moreover from f(6) have "\<forall>r. rt = Some r \<longrightarrow> 1 \<le> rl_requestsPerMinute r"
    by (auto simp: return_iff dest: parse_rate_limit_return split: option.splits)
  moreover from f(7) have "\<forall>m. mc = Some m \<longrightarrow> mcp_ok m"
    by (auto simp: return_iff dest: parseMcpGroupPolicy_return split: option.splits)
  ultimately show ?thesis using f(1,2) by (auto simp: group_ok_def g)
qed

lemma parse_groups_return:
  "parse_groups names i vs = Inr gs \<Longrightarrow>
   (\<forall>g \<in> set gs. group_ok g \<and> pg_name g \<notin> set names) \<and> distinct (map pg_name gs)"
proof (induction vs arbitrary: names i gs)
  case (Cons v vs)
  then obtain g rest where "parse_group names i v = Inr g" "parse_groups (pg_name g # names) (i + 1) vs = Inr rest" "gs = g # rest"
    by (auto simp: return_iff)
  with Cons.IH [of "pg_name g # names" "i + 1" rest] parse_group_return [of names i v g] show ?case by auto
qed simp

lemma parsePolicy_return:
  assumes "parsePolicy v = Inr p"
  shows "policy_ok p"
proof -
  from assms obtain fs where "v = JObj fs" by (auto simp: parsePolicy_def split: json.splits)
  with assms obtain act where
    "(case map_of fs ''groups'' of
        Some (JArr gs) \<Rightarrow> rbind (parse_groups [] 0 gs) (\<lambda>groups. Inr \<lparr>op_defaultAction = act, op_groups = groups\<rparr>)
      | _ \<Rightarrow> Inl Groups_not_array) = Inr p"
    by (auto simp: parsePolicy_def rbind_return_iff)
  then obtain gs groups where "parse_groups [] 0 gs = Inr groups" "op_groups p = groups"
    by (auto simp: rbind_return_iff split: option.splits json.splits)
  then show ?thesis using parse_groups_return by (auto simp: policy_ok_def)
qed

lemma httpsUrl_return: "httpsUrl protocol name v = Inr u \<longleftrightarrow> protocol v = Some ''https:''"
  by (auto simp: httpsUrl_def split: option.splits)

lemma parse_algorithms_return: "parse_algorithms v = Inr as \<Longrightarrow> set as \<subseteq> set ASYMMETRIC_ALGORITHMS"
  by (auto simp: parse_algorithms_def Let_def find_None_iff split: option.splits)

lemma parse_skew_return: "parse_skew v = Inr n \<Longrightarrow> 0 \<le> n \<and> n \<le> MAX_CLOCK_SKEW_SECONDS"
  by (auto simp: parse_skew_def DEFAULT_CLOCK_SKEW_SECONDS_def MAX_CLOCK_SKEW_SECONDS_def split: option.splits if_splits)

definition keys_ok :: "(string, string) jmap \<Rightarrow> bool" where
  "keys_ok ks \<longleftrightarrow> (\<forall>(q, k) \<in> set ks. to_lower q = q \<and> k \<noteq> [])"

lemma keys_ok_set: "keys_ok ks \<Longrightarrow> k \<noteq> [] \<Longrightarrow> keys_ok (jm_set (to_lower q) k ks)"
  using set_jm_set_subset [of "to_lower q" k ks] by (auto simp: keys_ok_def)

lemma parse_keys_return: "parse_keys acc fs = Inr ks \<Longrightarrow> keys_ok acc \<Longrightarrow> keys_ok ks"
  by (induction acc fs rule: parse_keys.induct) (auto simp: keys_ok_set split: json.splits if_splits)

lemma parse_provider_keys_return:
  assumes "parse_provider_keys jp raw = Inr ks"
  shows "keys_ok ks"
proof (cases raw)
  case None
  with assms show ?thesis by (simp add: parse_provider_keys_def keys_ok_def)
next
  case (Some t)
  with assms obtain v where "(case v of JObj fs \<Rightarrow> parse_keys [] fs | _ \<Rightarrow> Inl Keys_not_object) = Inr ks"
    by (auto simp: parse_provider_keys_def return_iff)
  then obtain fs where "parse_keys [] fs = Inr ks" by (auto split: json.splits)
  then show ?thesis by (rule parse_keys_return) (simp add: keys_ok_def)
qed

lemma oidc_config_of_return:
  assumes "oidc_config_of jsonParse protocol contents raw = Inr c"
  shows "oidc_config_ok protocol c"
proof -
  let ?claim = "case trimmed (raw ''PS_OIDC_GROUPS_CLAIM'') of None \<Rightarrow> DEFAULT_GROUPS_CLAIM | Some s \<Rightarrow> s"
  from assms obtain issuer algs skew policy mode keys where
    f: "httpsUrl protocol ''PS_OIDC_ISSUER'' issuer = Inr ()"
      "env_list (raw ''PS_OIDC_AUDIENCE'') \<noteq> []"
      "(case trimmed (raw ''PS_OIDC_JWKS_URL'') of None \<Rightarrow> Inr ()
         | Some u \<Rightarrow> httpsUrl protocol ''PS_OIDC_JWKS_URL'' u) = Inr ()"
      "parse_algorithms (raw ''PS_OIDC_ALGORITHMS'') = Inr algs"
      "parse_skew (raw ''PS_OIDC_CLOCK_SKEW_SECONDS'') = Inr skew"
      "optional (\<lambda>t. rbind (lift_option (Invalid_json ''PS_OIDC_POLICY'') (jsonParse t)) parsePolicy)
             (valueOrFile contents (raw ''PS_OIDC_POLICY'')) = Inr policy"
      "parse_provider_keys jsonParse (valueOrFile contents (raw ''PS_OIDC_PROVIDER_KEYS'')) = Inr keys"
    and c: "c = \<lparr>oc_issuer = issuer, oc_audiences = env_list (raw ''PS_OIDC_AUDIENCE''),
         oc_jwksUrl = trimmed (raw ''PS_OIDC_JWKS_URL''), oc_algorithms = algs, oc_clockSkewSeconds = skew,
         oc_groupsClaim = ?claim, oc_policy = policy, oc_telemetrySubject = mode,
         oc_subjectSalt = trimmed (raw ''PS_OIDC_SUBJECT_SALT''), oc_providerKeys = keys\<rparr>"
    unfolding oidc_config_of_def Let_def rbind_return_iff ensure_return_iff by auto
  from f(6) have "\<forall>p. policy = Some p \<longrightarrow> policy_ok p"
    by (auto simp: optional_return rbind_return_iff dest: parsePolicy_return split: option.splits)
  moreover from f(3) have "\<forall>u. oc_jwksUrl c = Some u \<longrightarrow> protocol u = Some ''https:''"
    by (auto simp: c httpsUrl_return split: option.splits)
  moreover from f(7) have "keys_ok keys" by (rule parse_provider_keys_return)
  moreover from f(1) have "protocol issuer = Some ''https:''" by (simp add: httpsUrl_return)
  ultimately show ?thesis
    using f(2) parse_algorithms_return [OF f(4)] parse_skew_return [OF f(5)]
    by (simp add: oidc_config_ok_def c keys_ok_def)
qed

text \<open>C25. When OIDC is switched on, the settings are either an error, which never leaves the gateway open, or a
  configuration that names an https issuer and an audience, accepts only asymmetric signature algorithms,
  allows at most five minutes of clock skew, and holds a policy with distinct, well-formed groups.\<close>

theorem parseOidcConfig_sound:
  assumes "is_true (raw ''PS_OIDC_ENABLED'')"
  shows "(\<exists>e. parseOidcConfig jsonParse protocol contents raw = Oidc_invalid e) \<or>
    (\<exists>c. parseOidcConfig jsonParse protocol contents raw = Oidc_enabled c \<and> oidc_config_ok protocol c)"
  using assms
  by (cases "oidc_config_of jsonParse protocol contents raw")
     (auto simp: parseOidcConfig_def dest: oidc_config_of_return)

definition sample_oidc_env :: "string \<Rightarrow> string option" where
  "sample_oidc_env = map_of [(''PS_OIDC_ENABLED'', ''true''), (''PS_OIDC_ISSUER'', ''https://idp''),
     (''PS_OIDC_AUDIENCE'', ''gateway, batch''), (''PS_OIDC_POLICY'', ''policy'')]"

definition sample_oidc_json :: "string \<Rightarrow> json option" where
  "sample_oidc_json t = (if t = ''policy'' then Some (JObj [(''groups'', JArr [JObj
     [(''name'', JStr ''analysts''), (''match'', JArr [JStr ''data'']), (''models'', JArr [JStr ''gpt-*'']),
      (''rate_limit'', JObj [(''requests_per_minute'', JNum (Fin 2))])]])]) else None)"

theorem parseOidcConfig_sound_witness:
  "\<exists>c. parseOidcConfig sample_oidc_json (\<lambda>_. Some ''https:'') (\<lambda>v. v) sample_oidc_env = Oidc_enabled c \<and>
     oidc_config_ok (\<lambda>_. Some ''https:'') c"
proof -
  have "case parseOidcConfig sample_oidc_json (\<lambda>_. Some ''https:'') (\<lambda>v. v) sample_oidc_env of
      Oidc_enabled c \<Rightarrow> True | _ \<Rightarrow> False"
    by code_simp
  moreover have "is_true (sample_oidc_env ''PS_OIDC_ENABLED'')" by code_simp
  from parseOidcConfig_sound [of sample_oidc_env sample_oidc_json "\<lambda>_. Some ''https:''" "\<lambda>v. v", OF this]
  have "(\<exists>e. parseOidcConfig sample_oidc_json (\<lambda>_. Some ''https:'') (\<lambda>v. v) sample_oidc_env = Oidc_invalid e) \<or>
    (\<exists>c. parseOidcConfig sample_oidc_json (\<lambda>_. Some ''https:'') (\<lambda>v. v) sample_oidc_env = Oidc_enabled c \<and>
       oidc_config_ok (\<lambda>_. Some ''https:'') c)" .
  ultimately show ?thesis by (auto split: oidc_settings.splits)
qed

end
