(* ===== verification/Oidc_Policy.thy ===== *)
theory Oidc_Policy
  imports Oidc_Config
begin

text \<open>
  Group policy (\<open>gateway/src/middlewares/psOidc/policy.ts\<close>, \<open>identity.ts\<close>): the entry of the policy that
  applies to a user, the check of every target a call reaches, and the per-minute rate limit. The text of
  a refusal and its security event are left out.
\<close>

subsection \<open>The group of a user\<close>

datatype deny_reason = No_matching_group | Provider_not_allowed | Model_not_allowed

text \<open>\<open>value[part]\<close> of an object or an array; \<open>typeof value === 'object'\<close>.\<close>

fun own_prop :: "json option \<Rightarrow> string \<Rightarrow> json option" where
  "own_prop (Some (JObj fs)) n = map_of fs n"
| "own_prop (Some (JArr vs)) n =
    (case List.find (\<lambda>i. digits_of i = n) [0..<length vs] of None \<Rightarrow> None | Some i \<Rightarrow> Some (vs ! i))"
| "own_prop _ n = None"

fun is_object :: "json option \<Rightarrow> bool" where
  "is_object (Some (JObj _)) = True"
| "is_object (Some (JArr _)) = True"
| "is_object _ = False"

fun claim_at :: "json option \<Rightarrow> string list \<Rightarrow> json option" where
  "claim_at v [] = v"
| "claim_at v (p # ps) = (if is_object v then claim_at (own_prop v p) ps else None)"

fun texts_of :: "json list \<Rightarrow> string list" where
  "texts_of [] = []"
| "texts_of (v # vs) = (case v of JStr s \<Rightarrow> s # texts_of vs | _ \<Rightarrow> texts_of vs)"

definition groupsFromClaims :: "json \<Rightarrow> string \<Rightarrow> string list" where
  "groupsFromClaims payload claimPath =
    (case claim_at (Some payload) (split_on (CHR ''.'') claimPath) of
       Some (JStr s) \<Rightarrow> [s]
     | Some (JArr vs) \<Rightarrow> take 1000 (texts_of vs)
     | _ \<Rightarrow> [])"

definition matchGroup :: "oidc_policy \<Rightarrow> string list \<Rightarrow> policy_group option" where
  "matchGroup policy groups =
    List.find (\<lambda>g. list_ex (\<lambda>m. m \<in> set groups) (pg_match g)) (op_groups policy)"

subsection \<open>Targets\<close>

definition modelAllowed :: "string list \<Rightarrow> string \<Rightarrow> bool" where
  "modelAllowed patterns model \<longleftrightarrow>
    list_ex (\<lambda>p. if ends_with p ''*'' then starts_with model (butlast p) else p = model) patterns"

definition checkTarget :: "policy_group option \<Rightarrow> string option \<Rightarrow> string option \<Rightarrow> deny_reason option" where
  "checkTarget og provider model =
    (case og of None \<Rightarrow> None
     | Some g \<Rightarrow>
        if (case pg_providers g of None \<Rightarrow> False
            | Some ps \<Rightarrow> \<not> (truthy_str provider \<and> to_lower (the provider) \<in> set ps)) then Some Provider_not_allowed
        else if (case pg_models g of None \<Rightarrow> False
                 | Some ms \<Rightarrow> truthy_str model \<and> \<not> modelAllowed ms (the model)) then Some Model_not_allowed
        else None)"

record oidc_identity =
  id_subjectHash :: string
  id_subject :: string
  id_group :: "policy_group option"

record target_denial =
  td_reason :: deny_reason
  td_provider :: "string option"
  td_model :: "string option"

text \<open>The names after the first, until one is refused.\<close>

fun target_loop ::
  "policy_group \<Rightarrow> string option \<Rightarrow> deny_reason option \<Rightarrow> string option \<Rightarrow> string list \<Rightarrow> deny_reason option \<times> string option" where
  "target_loop g provider reason model [] = (reason, model)"
| "target_loop g provider reason model (m # ms) =
    (if reason \<noteq> None then (reason, model)
     else target_loop g provider (checkTarget (Some g) provider (Some m)) (Some m) ms)"

fun named :: "string option list \<Rightarrow> string list" where
  "named [] = []"
| "named (m # ms) = (case m of None \<Rightarrow> named ms | Some s \<Rightarrow> if s = [] then named ms else s # named ms)"

definition oidcTargetDenied ::
  "oidc_identity option \<Rightarrow> string option \<Rightarrow> string option list \<Rightarrow> bool \<Rightarrow> target_denial option" where
  "oidcTargetDenied identity provider models requireModel =
    (case identity of None \<Rightarrow> None
     | Some i \<Rightarrow> (case id_group i of None \<Rightarrow> None
        | Some g \<Rightarrow>
           (let names = named models;
                first = (case names of [] \<Rightarrow> None | m # _ \<Rightarrow> Some m);
                (reason, model) = target_loop g provider (checkTarget (Some g) provider first) first (tl names);
                reason' = (if reason = None \<and> requireModel \<and> pg_models g \<noteq> None \<and> names = []
                           then Some Model_not_allowed else reason)
            in map_option (\<lambda>r. \<lparr>td_reason = r, td_provider = provider, td_model = model\<rparr>) reason')))"

definition MODEL_ENDPOINTS :: "string list" where
  "MODEL_ENDPOINTS = [''complete'', ''chatComplete'', ''stream-complete'', ''stream-chatComplete'', ''stream-messages'',
     ''messages'', ''messagesCountTokens'', ''createModelResponse'', ''countResponseInputTokens'', ''embed'', ''rerank'',
     ''moderate'', ''imageGenerate'', ''imageEdit'', ''createSpeech'', ''createTranscription'', ''createTranslation'', ''ocr'']"

text \<open>A form's \<open>model\<close> field, when it is text, or a body that was parsed.\<close>

datatype model_body = Form_body "string option" | Parsed_body "json option"

fun requestModel :: "model_body \<Rightarrow> string option" where
  "requestModel (Form_body m) = m"
| "requestModel (Parsed_body v) = json_text (prop_of v ''model'')"

definition targetModels :: "json option \<Rightarrow> model_body \<Rightarrow> string list" where
  "targetModels option body =
    (let override = json_text (prop_of (prop_of option ''overrideParams'') ''model'');
         provider = json_text (prop_of option ''provider'');
         models = [if truthy_str override then override else requestModel body]
           @ (if provider = Some ''azure-openai'' then [json_text (prop_of option ''deploymentId'')] else [])
           @ (if provider = Some ''azure-ai'' then [json_text (prop_of option ''azureDeploymentName'')] else [])
     in filter (\<lambda>m. trim m \<noteq> []) (named models))"

text \<open>What the policy of a group says of a target.\<close>

definition target_allowed :: "policy_group \<Rightarrow> string option \<Rightarrow> string option list \<Rightarrow> bool \<Rightarrow> bool" where
  "target_allowed g provider models requireModel \<longleftrightarrow>
    (\<forall>ps. pg_providers g = Some ps \<longrightarrow> (\<exists>q. provider = Some q \<and> q \<noteq> [] \<and> to_lower q \<in> set ps)) \<and>
    (\<forall>ms. pg_models g = Some ms \<longrightarrow>
       (\<forall>m. Some m \<in> set models \<and> m \<noteq> [] \<longrightarrow> modelAllowed ms m) \<and>
       (requireModel \<longrightarrow> (\<exists>m. Some m \<in> set models \<and> m \<noteq> [])))"

lemma set_named: "set (named models) = {m. Some m \<in> set models \<and> m \<noteq> []}"
  by (induction models rule: named.induct) (auto split: option.splits)

lemma target_loop_None:
  "fst (target_loop g provider reason model ms) = None \<longleftrightarrow>
   reason = None \<and> (\<forall>m \<in> set ms. checkTarget (Some g) provider (Some m) = None)"
  by (induction g provider reason model ms rule: target_loop.induct) auto

lemma checkTarget_None:
  "checkTarget (Some g) provider model = None \<longleftrightarrow>
   (\<forall>ps. pg_providers g = Some ps \<longrightarrow> (\<exists>q. provider = Some q \<and> q \<noteq> [] \<and> to_lower q \<in> set ps)) \<and>
   (\<forall>ms m. pg_models g = Some ms \<and> model = Some m \<and> m \<noteq> [] \<longrightarrow> modelAllowed ms m)"
  by (auto simp: checkTarget_def truthy_str_def split: option.splits)

text \<open>The check of a target lets a call through exactly when the group's policy allows it: the provider
  is on the provider list, every model the call names matches the model list, and an endpoint that needs a
  model names one when the group restricts models.\<close>

lemma oidcTargetDenied_exact:
  assumes "id_group i = Some g"
  shows "oidcTargetDenied (Some i) provider models requireModel = None \<longleftrightarrow> target_allowed g provider models requireModel"
proof (cases "named models")
  case Nil
  then have "\<not> (Some m \<in> set models \<and> m \<noteq> [])" for m using set_named [of models] by auto
  then show ?thesis
    by (auto simp: oidcTargetDenied_def assms Nil target_allowed_def checkTarget_None Let_def)
next
  case (Cons m ms)
  let ?r = "target_loop g provider (checkTarget (Some g) provider (Some m)) (Some m) ms"
  have "oidcTargetDenied (Some i) provider models requireModel = None \<longleftrightarrow> fst ?r = None"
    by (simp add: oidcTargetDenied_def assms Cons Let_def case_prod_beta)
  also have "\<dots> \<longleftrightarrow> (\<forall>n \<in> set (named models). checkTarget (Some g) provider (Some n) = None)"
    by (simp add: target_loop_None Cons)
  also have "\<dots> \<longleftrightarrow> target_allowed g provider models requireModel"
  proof -
    have "Some m \<in> set models \<and> m \<noteq> []" using set_named [of models] Cons by auto
    then show ?thesis by (auto simp: set_named checkTarget_None target_allowed_def)
  qed
  finally show ?thesis .
qed

definition sample_group :: policy_group where
  "sample_group = \<lparr>pg_name = ''analysts'', pg_match = [''data''], pg_providers = Some [''openai''],
     pg_models = Some [''gpt-4o*''], pg_rateLimit = Some \<lparr>rl_requestsPerMinute = 2, rl_per = Per_user\<rparr>, pg_mcp = None\<rparr>"

definition sample_identity :: oidc_identity where
  "sample_identity = \<lparr>id_subjectHash = ''a1'', id_subject = ''ana'', id_group = Some sample_group\<rparr>"

subsection \<open>Rate limits\<close>

record bucket =
  bk_windowStart :: nat
  bk_count :: nat

type_synonym buckets = "(string, bucket) jmap"

definition WINDOW_MS :: nat where "WINDOW_MS = 60000"
definition MAX_BUCKETS :: nat where "MAX_BUCKETS = 50000"

definition newline :: char where "newline = CHR 0x0A"

definition limit_key :: "policy_group \<Rightarrow> rate_limit_rule \<Rightarrow> string \<Rightarrow> string" where
  "limit_key g rule subject =
    (if rl_per rule = Per_group then ''g'' @ newline # pg_name g
     else ''u'' @ newline # pg_name g @ newline # subject)"

definition window_of :: "nat \<Rightarrow> nat" where
  "window_of t = t - t mod WINDOW_MS"

text \<open>Room for a new key: buckets of past windows go first, then the oldest tenth.\<close>

definition make_room :: "nat \<Rightarrow> buckets \<Rightarrow> buckets" where
  "make_room w bs =
    (if length bs < MAX_BUCKETS then bs
     else let live = filter (\<lambda>e. bk_windowStart (snd e) = w) bs
          in if length live < MAX_BUCKETS then live else drop (MAX_BUCKETS div 10) live)"

definition bucket_for :: "string \<Rightarrow> nat \<Rightarrow> buckets \<Rightarrow> bucket \<times> buckets" where
  "bucket_for key w bs =
    (let fresh = \<lparr>bk_windowStart = w, bk_count = 0\<rparr> in
     case jm_get bs key of
       Some b \<Rightarrow> if bk_windowStart b = w then (b, bs) else (fresh, jm_set key fresh bs)
     | None \<Rightarrow> (fresh, jm_set key fresh (make_room w bs)))"

definition wait_seconds :: "nat \<Rightarrow> nat" where
  "wait_seconds t = max 1 ((window_of t + WINDOW_MS - t + 999) div 1000)"

definition takeRateLimit :: "policy_group \<Rightarrow> string \<Rightarrow> nat \<Rightarrow> buckets \<Rightarrow> nat option \<times> buckets" where
  "takeRateLimit g subject t bs =
    (case pg_rateLimit g of None \<Rightarrow> (None, bs)
     | Some rule \<Rightarrow>
        (let key = limit_key g rule subject; (b, bs') = bucket_for key (window_of t) bs in
         if rl_requestsPerMinute rule \<le> int (bk_count b) then (Some (wait_seconds t), bs')
         else (None, jm_set key (b\<lparr>bk_count := bk_count b + 1\<rparr>) bs')))"

lemma window_of_mono: "t \<le> t' \<Longrightarrow> window_of t \<le> window_of t'"
proof -
  assume "t \<le> t'"
  then have "WINDOW_MS * (t div WINDOW_MS) \<le> WINDOW_MS * (t' div WINDOW_MS)"
    by (simp add: div_le_mono)
  then show ?thesis by (simp add: window_of_def minus_mod_eq_mult_div)
qed

text \<open>The table never grows past its bound, whatever the calls.\<close>

definition buckets_ok :: "buckets \<Rightarrow> bool" where
  "buckets_ok bs \<longleftrightarrow> jm_wf bs \<and> length bs \<le> MAX_BUCKETS"

lemma jm_wf_filter: "jm_wf m \<Longrightarrow> jm_wf (filter P m)"
  by (simp add: jm_wf_def distinct_map_filter)

lemma make_room_ok: "buckets_ok bs \<Longrightarrow> jm_wf (make_room w bs) \<and> length (make_room w bs) < MAX_BUCKETS"
proof -
  let ?live = "filter (\<lambda>e. bk_windowStart (snd e) = w) bs"
  assume bs: "buckets_ok bs"
  have "length ?live \<le> length bs" by simp
  with bs have "length ?live - MAX_BUCKETS div 10 < MAX_BUCKETS"
    unfolding buckets_ok_def MAX_BUCKETS_def by arith
  with bs show ?thesis
    by (auto simp: make_room_def buckets_ok_def Let_def intro: jm_wf_filter jm_wf_drop)
qed

lemma make_room_keys: "fst ` set (make_room w bs) \<subseteq> fst ` set bs"
  by (auto simp: make_room_def Let_def dest!: in_set_dropD)

lemma bucket_for_ok:
  assumes "buckets_ok bs" "bucket_for key w bs = (b, bs')"
  shows "buckets_ok bs' \<and> jm_get bs' key = Some b \<and> bk_windowStart b = w"
proof (cases "jm_get bs key")
  case None
  with assms make_room_ok [OF assms(1), of w] show ?thesis
    by (auto simp: bucket_for_def Let_def buckets_ok_def length_jm_set intro: jm_wf_set)
next
  case (Some c)
  then have "key \<in> fst ` set bs" using jm_get_dom by metis
  then have "length (jm_set key v bs) = length bs" for v by (simp add: length_jm_set)
  with Some assms show ?thesis
    by (auto simp: bucket_for_def Let_def buckets_ok_def intro: jm_wf_set split: if_splits)
qed

lemma takeRateLimit_ok [inv_intros]:
  assumes "buckets_ok bs"
  shows "buckets_ok (snd (takeRateLimit g subject t bs))"
proof (cases "pg_rateLimit g")
  case None
  with assms show ?thesis by (simp add: takeRateLimit_def)
next
  case (Some rule)
  let ?k = "limit_key g rule subject"
  obtain b bs' where b: "bucket_for ?k (window_of t) bs = (b, bs')" by force
  from bucket_for_ok [OF assms b] have ok: "buckets_ok bs'" and get: "jm_get bs' ?k = Some b" by auto
  from get have "?k \<in> fst ` set bs'" using jm_get_dom by metis
  with ok have "buckets_ok (jm_set ?k c bs')" for c
    by (auto simp: buckets_ok_def length_jm_set intro: jm_wf_set)
  with ok show ?thesis by (simp add: takeRateLimit_def Some b)
qed

text \<open>A run of the limiter, and the reference it should agree with: a call is let through exactly when
  fewer than the limit were let through before it with its key in its window. \<open>hist\<close> is the list of the
  keys and windows of the calls let through.\<close>

record limit_call =
  lc_group :: policy_group
  lc_subject :: string
  lc_time :: nat

fun run_limits :: "limit_call list \<Rightarrow> buckets \<Rightarrow> nat option list" where
  "run_limits [] bs = []"
| "run_limits (c # cs) bs =
    (let (r, bs') = takeRateLimit (lc_group c) (lc_subject c) (lc_time c) bs in r # run_limits cs bs')"

fun fixed_window :: "limit_call list \<Rightarrow> (string \<times> nat) list \<Rightarrow> nat option list" where
  "fixed_window [] hist = []"
| "fixed_window (c # cs) hist =
    (case pg_rateLimit (lc_group c) of None \<Rightarrow> None # fixed_window cs hist
     | Some rule \<Rightarrow>
        (let e = (limit_key (lc_group c) rule (lc_subject c), window_of (lc_time c)) in
         if int (count_list hist e) < rl_requestsPerMinute rule then None # fixed_window cs (e # hist)
         else Some (wait_seconds (lc_time c)) # fixed_window cs hist))"

definition call_keys :: "limit_call list \<Rightarrow> string set" where
  "call_keys cs = (\<Union>c \<in> set cs. case pg_rateLimit (lc_group c) of None \<Rightarrow> {}
     | Some rule \<Rightarrow> {limit_key (lc_group c) rule (lc_subject c)})"

text \<open>The table holds, for every key seen, how many calls were let through in its last window.\<close>

definition counts_hist :: "(string \<times> nat) list \<Rightarrow> nat \<Rightarrow> buckets \<Rightarrow> bool" where
  "counts_hist hist t bs \<longleftrightarrow>
    (\<forall>k b. jm_get bs k = Some b \<longrightarrow> bk_windowStart b \<le> window_of t \<and> count_list hist (k, bk_windowStart b) = bk_count b) \<and>
    (\<forall>k w. (k, w) \<in> set hist \<longrightarrow> (\<exists>b. jm_get bs k = Some b \<and> w \<le> bk_windowStart b))"

lemma counts_hist_later: "counts_hist hist t bs \<Longrightarrow> t \<le> t' \<Longrightarrow> counts_hist hist t' bs"
  using window_of_mono [of t t'] by (auto simp: counts_hist_def intro: order_trans)

lemma count_list_0: "x \<notin> set xs \<Longrightarrow> count_list xs x = 0"
  by (induction xs) auto

lemma bucket_for_counts:
  assumes "counts_hist hist t bs" "buckets_ok bs" "fst ` set bs \<subseteq> K" "key \<in> K" "finite K" "card K \<le> MAX_BUCKETS"
    and b: "bucket_for key (window_of t) bs = (b, bs')"
  shows "counts_hist hist t bs' \<and> bk_count b = count_list hist (key, window_of t) \<and> fst ` set bs' \<subseteq> K"
proof (cases "jm_get bs key")
  case None
  then have out: "key \<notin> fst ` set bs" by (metis jm_get_dom option.distinct(1))
  have "length bs = card (fst ` set bs)"
    using assms(2) by (simp add: buckets_ok_def jm_wf_def distinct_card flip: set_map)
  also have "\<dots> < card K" using assms(3-5) out by (intro psubset_card_mono) auto
  finally have "make_room (window_of t) bs = bs" using assms(6) by (simp add: make_room_def)
  with None b have "b = \<lparr>bk_windowStart = window_of t, bk_count = 0\<rparr>" "bs' = jm_set key b bs"
    by (auto simp: bucket_for_def Let_def)
  moreover have none: "(key, w) \<notin> set hist" for w
  proof
    assume "(key, w) \<in> set hist"
    with assms(1) have "\<exists>b. jm_get bs key = Some b" unfolding counts_hist_def by blast
    with None show False by simp
  qed
  moreover have "count_list hist (key, window_of t) = 0" using none by (simp add: count_list_0)
  ultimately show ?thesis using assms(1,3,4) by (auto simp: counts_hist_def)
next
  case (Some c)
  from assms(1) Some have c: "bk_windowStart c \<le> window_of t" "count_list hist (key, bk_windowStart c) = bk_count c"
    by (auto simp: counts_hist_def)
  show ?thesis
  proof (cases "bk_windowStart c = window_of t")
    case True
    with Some b c assms(1,3) show ?thesis by (auto simp: bucket_for_def Let_def)
  next
    case False
    with Some b have b': "b = \<lparr>bk_windowStart = window_of t, bk_count = 0\<rparr>" "bs' = jm_set key b bs"
      by (auto simp: bucket_for_def Let_def)
    have late: "w \<le> bk_windowStart c" if "(key, w) \<in> set hist" for w
      using assms(1) Some that by (force simp: counts_hist_def)
    with False c(1) have "(key, window_of t) \<notin> set hist" by fastforce
    then have "count_list hist (key, window_of t) = 0" by (rule count_list_0)
    moreover have "w \<le> window_of t" if "(key, w) \<in> set hist" for w
      using late [OF that] c(1) by simp
    ultimately show ?thesis using assms(1,3,4) b' by (auto simp: counts_hist_def)
  qed
qed

lemma takeRateLimit_counts:
  assumes inv: "counts_hist hist t bs" "buckets_ok bs" "fst ` set bs \<subseteq> K" "finite K" "card K \<le> MAX_BUCKETS"
    and rule: "pg_rateLimit g = Some rule" "limit_key g rule subject \<in> K"
    and r: "takeRateLimit g subject t bs = (r, bs')"
  defines "e \<equiv> (limit_key g rule subject, window_of t)"
  shows "r = (if int (count_list hist e) < rl_requestsPerMinute rule then None else Some (wait_seconds t)) \<and>
    counts_hist (if int (count_list hist e) < rl_requestsPerMinute rule then e # hist else hist) t bs' \<and>
    fst ` set bs' \<subseteq> K"
proof -
  let ?k = "limit_key g rule subject"
  obtain b bs1 where b: "bucket_for ?k (window_of t) bs = (b, bs1)" by force
  from bucket_for_counts [OF inv(1-3) rule(2) inv(4,5) b]
  have c: "counts_hist hist t bs1" "bk_count b = count_list hist e" "fst ` set bs1 \<subseteq> K"
    by (auto simp: e_def)
  from bucket_for_ok [OF inv(2) b] have g: "jm_get bs1 ?k = Some b" "bk_windowStart b = window_of t" by auto
  show ?thesis
  proof (cases "int (count_list hist e) < rl_requestsPerMinute rule")
    case True
    with r b c(2) rule(1) have out: "r = None" "bs' = jm_set ?k (b\<lparr>bk_count := bk_count b + 1\<rparr>) bs1"
      by (auto simp: takeRateLimit_def)
    have "w \<le> window_of t" if "(?k, w) \<in> set hist" for w
      using c(1) that g by (fastforce simp: counts_hist_def)
    then have "counts_hist (e # hist) t bs'"
      using c(1,2) g by (auto simp: counts_hist_def out e_def)
    with True out c(3) rule(2) show ?thesis by auto
  next
    case False
    with r b c rule(1) show ?thesis by (auto simp: takeRateLimit_def)
  qed
qed

lemma run_limits_fixed_window:
  assumes "counts_hist hist t bs" "buckets_ok bs" "fst ` set bs \<subseteq> K" "call_keys cs \<subseteq> K" "finite K" "card K \<le> MAX_BUCKETS"
    and "sorted (t # map lc_time cs)"
  shows "run_limits cs bs = fixed_window cs hist"
  using assms
proof (induction cs arbitrary: hist t bs)
  case (Cons c cs)
  let ?g = "lc_group c" and ?t = "lc_time c"
  obtain r bs' where r: "takeRateLimit ?g (lc_subject c) ?t bs = (r, bs')" by force
  have ok: "buckets_ok bs'" using takeRateLimit_ok [OF Cons.prems(2), of ?g "lc_subject c" ?t] r by simp
  have ch: "counts_hist hist ?t bs" using Cons.prems(1,7) by (auto intro: counts_hist_later)
  have keys: "call_keys cs \<subseteq> K" and sorted: "sorted (?t # map lc_time cs)"
    using Cons.prems(4,7) by (auto simp: call_keys_def)
  show ?case
  proof (cases "pg_rateLimit ?g")
    case None
    with r have "r = None" "bs' = bs" by (auto simp: takeRateLimit_def)
    with Cons.IH [OF ch Cons.prems(2,3) keys Cons.prems(5,6) sorted] None r show ?thesis by simp
  next
    case (Some rule)
    have "limit_key ?g rule (lc_subject c) \<in> K" using Cons.prems(4) Some by (auto simp: call_keys_def)
    from takeRateLimit_counts [OF ch Cons.prems(2,3,5,6) Some this r]
    have *: "r = (if int (count_list hist (limit_key ?g rule (lc_subject c), window_of ?t)) < rl_requestsPerMinute rule
          then None else Some (wait_seconds ?t))"
      "counts_hist (if int (count_list hist (limit_key ?g rule (lc_subject c), window_of ?t)) < rl_requestsPerMinute rule
          then (limit_key ?g rule (lc_subject c), window_of ?t) # hist else hist) ?t bs'"
      "fst ` set bs' \<subseteq> K" by auto
    from Cons.IH [OF *(2) ok *(3) keys Cons.prems(5,6) sorted] r Some *(1) show ?thesis
      by (simp add: Let_def)
  qed
qed simp

lemma wait_seconds_bounds: "1 \<le> wait_seconds t \<and> wait_seconds t \<le> 60"
proof -
  have "t - t mod 60000 + 60000 - t = 60000 - t mod 60000" by (simp add: le_diff_conv)
  moreover have "1 \<le> (60999 - t mod 60000) div 1000 \<and> (60999 - t mod 60000) div 1000 \<le> 60"
  proof -
    have "t mod 60000 < 60000" by simp
    then show ?thesis by linarith
  qed
  ultimately show ?thesis by (simp add: wait_seconds_def window_of_def WINDOW_MS_def)
qed

text \<open>Key and window of a call, and how many calls before it were let through with the same.\<close>

definition call_entry :: "limit_call \<Rightarrow> (string \<times> nat) option" where
  "call_entry c = map_option (\<lambda>rule. (limit_key (lc_group c) rule (lc_subject c), window_of (lc_time c)))
     (pg_rateLimit (lc_group c))"

definition let_through :: "limit_call list \<Rightarrow> nat option list \<Rightarrow> nat \<Rightarrow> nat" where
  "let_through cs rs i = length (filter (\<lambda>(c, r). r = None \<and> call_entry c = call_entry (cs ! i)) (take i (zip cs rs)))"

lemma let_through_0 [simp]: "let_through cs rs 0 = 0"
  by (simp add: let_through_def)

lemma let_through_Suc [simp]:
  "let_through (c # cs) (r # rs) (Suc i) =
   (if r = None \<and> call_entry c = call_entry (cs ! i) then 1 else 0) + let_through cs rs i"
  by (simp add: let_through_def)

lemma length_fixed_window [simp]: "length (fixed_window cs hist) = length cs"
  by (induction cs hist rule: fixed_window.induct) (auto simp: Let_def split: option.splits)

lemma fixed_window_nth:
  assumes "i < length cs" "pg_rateLimit (lc_group (cs ! i)) = Some rule" "call_entry (cs ! i) = Some e"
  shows "fixed_window cs hist ! i =
    (if int (count_list hist e + let_through cs (fixed_window cs hist) i) < rl_requestsPerMinute rule
     then None else Some (wait_seconds (lc_time (cs ! i))))"
  using assms
proof (induction cs arbitrary: i hist)
  case (Cons c cs)
  show ?case
  proof (cases i)
    case 0
    with Cons.prems show ?thesis by (auto simp: call_entry_def Let_def)
  next
    case (Suc j)
    with Cons.prems have j: "j < length cs" "pg_rateLimit (lc_group (cs ! j)) = Some rule" "call_entry (cs ! j) = Some e"
      by auto
    show ?thesis
    proof (cases "pg_rateLimit (lc_group c)")
      case None
      then have "call_entry c = None" by (simp add: call_entry_def)
      with Cons.IH [OF j] Suc j(3) None show ?thesis by simp
    next
      case (Some rl)
      then have "call_entry c = Some (limit_key (lc_group c) rl (lc_subject c), window_of (lc_time c))"
        by (simp add: call_entry_def)
      with Cons.IH [OF j, of hist] Suc Some j(3)
        Cons.IH [OF j, of "(limit_key (lc_group c) rl (lc_subject c), window_of (lc_time c)) # hist"]
      show ?thesis by (auto simp: Let_def)
    qed
  qed
qed simp

lemma run_limits_reference:
  assumes "sorted (map lc_time cs)" "card (call_keys cs) \<le> MAX_BUCKETS"
  shows "run_limits cs [] = fixed_window cs []"
proof (rule run_limits_fixed_window)
  show "sorted (0 # map lc_time cs)" using assms(1) by simp
  show "finite (call_keys cs)" by (auto simp: call_keys_def split: option.splits)
  show "call_keys cs \<subseteq> call_keys cs" ..
  show "counts_hist [] 0 []" "buckets_ok []" "fst ` set [] \<subseteq> call_keys cs"
    by (simp_all add: counts_hist_def buckets_ok_def)
qed (rule assms(2))

text \<open>The limiter lets a call through exactly when fewer calls than the limit of its group were let
  through before it under its key in the same minute; otherwise it asks for a wait of 1 to 60 seconds. The
  clock is assumed not to go back, and the calls to use at most as many keys as the table holds: beyond that
  the oldest tenth is forgotten.\<close>

lemma rate_limit_exact:
  assumes "sorted (map lc_time cs)" "card (call_keys cs) \<le> MAX_BUCKETS"
    and "i < length cs" "pg_rateLimit (lc_group (cs ! i)) = Some rule"
  defines "rs \<equiv> run_limits cs []"
  shows "(rs ! i = None \<longleftrightarrow> int (let_through cs rs i) < rl_requestsPerMinute rule) \<and>
    (\<forall>s. rs ! i = Some s \<longrightarrow> 1 \<le> s \<and> s \<le> 60)"
proof -
  obtain e where "call_entry (cs ! i) = Some e" using assms(4) by (auto simp: call_entry_def)
  from fixed_window_nth [OF assms(3,4) this, of "[]"] show ?thesis
    using wait_seconds_bounds by (auto simp: rs_def run_limits_reference [OF assms(1,2)] split: if_splits)
qed

definition sample_calls :: "limit_call list" where
  "sample_calls = map (\<lambda>t. \<lparr>lc_group = sample_group, lc_subject = ''a1'', lc_time = t\<rparr>) [59000, 59500, 59900, 60000]"

end
