(* ===== verification/Oidc_Auth.thy ===== *)
theory Oidc_Auth
  imports Oidc_Policy
begin

text \<open>
  The OIDC middleware (\<open>gateway/src/middlewares/psOidc/index.ts\<close>): the steps of one request, from the
  settings to the rebuilt headers. The verification of a token (\<open>jwks.ts\<close> and the jose library), the subject
  hash, \<open>String(v)\<close> and the provider options the realtime handlers build are fields of \<open>auth_env\<close>. Header
  names are lower case, as in a \<open>Headers\<close> object. Texts of answers and security events are left out.
\<close>

datatype token_failure =
    Malformed | Disallowed_alg | Unknown_key_id | Bad_signature | Expired | Not_yet_valid | Wrong_issuer
  | Wrong_audience | Invalid_claims | Jwks_unavailable

type_synonym headers = "(string, string) jmap"

record auth_env =
  ae_verify :: "oidc_config \<Rightarrow> string \<Rightarrow> token_failure + json"
  ae_subjectHash :: "oidc_config \<Rightarrow> string \<Rightarrow> string"
  ae_String :: "json option \<Rightarrow> string"
  ae_options :: "headers \<Rightarrow> json option"

record auth_request =
  ar_path :: string
  ar_headers :: headers
  ar_model :: "string option"

record auth_answer =
  aa_status :: nat
  aa_code :: string
  aa_retryAfter :: "nat option"

datatype auth_outcome = Forwarded "oidc_identity option" headers | Answered auth_answer

definition SUBJECT_HEADER :: string where "SUBJECT_HEADER = ''x-ps-auth-subject''"
definition GROUP_HEADER :: string where "GROUP_HEADER = ''x-ps-auth-group''"

definition isProtectedPath :: "string \<Rightarrow> bool" where
  "isProtectedPath path \<longleftrightarrow> starts_with path ''/v1/'' \<and> path \<noteq> ''/v1/health''"

definition NON_URL_HEADERS :: "string list" where
  "NON_URL_HEADERS = [''x-portkey-provider'', ''x-portkey-metadata'', ''x-portkey-trace-id'',
     ''x-portkey-forward-headers'', ''x-portkey-openai-beta'', ''x-portkey-anthropic-beta'']"

text \<open>\<open>/^[A-Za-z0-9._-]*$/\<close>\<close>

definition PLAIN_NAME :: "string \<Rightarrow> bool" where
  "PLAIN_NAME s \<longleftrightarrow> list_all (\<lambda>c. is_alnum c \<or> c = CHR ''.'' \<or> c = CHR ''_'' \<or> c = CHR ''-'') s"

definition gatewayKeyAllowed :: "headers \<Rightarrow> bool" where
  "gatewayKeyAllowed hs \<longleftrightarrow>
    (if ''x-portkey-config'' \<in> set (jm_keys hs) \<or> ''x-portkey-custom-host'' \<in> set (jm_keys hs) then False
     else list_all (\<lambda>(name, v). \<not> starts_with name ''x-portkey-'' \<or> name \<in> set NON_URL_HEADERS \<or> PLAIN_NAME (trim v)) hs)"

text \<open>\<open>/^Bearer\s+(\S+)\s*$/i\<close>\<close>

definition bearerToken :: "string option \<Rightarrow> string option" where
  "bearerToken header =
    (let h = (case header of None \<Rightarrow> [] | Some s \<Rightarrow> s); r = drop 6 h; body = dropWhile js_space r;
         token = takeWhile (\<lambda>c. \<not> js_space c) body
     in if to_lower (take 6 h) = ''bearer'' \<and> r \<noteq> [] \<and> js_space (hd r) \<and> token \<noteq> [] \<and>
           list_all js_space (dropWhile (\<lambda>c. \<not> js_space c) body)
        then Some token else None)"

definition answer :: "nat \<Rightarrow> string \<Rightarrow> nat option \<Rightarrow> auth_outcome" where
  "answer status code retry = Answered \<lparr>aa_status = status, aa_code = code, aa_retryAfter = retry\<rparr>"

text \<open>The provider and models a realtime call would reach; it never passes the check of a target later.\<close>

definition realtime_denied :: "auth_env \<Rightarrow> auth_request \<Rightarrow> oidc_identity \<Rightarrow> bool" where
  "realtime_denied env rq i \<longleftrightarrow> ar_path rq = ''/v1/realtime'' \<and>
    (let opts = ae_options env (ar_headers rq) in
     oidcTargetDenied (Some i) (json_text (prop_of opts ''provider''))
       (ar_model rq # map Some (targetModels opts (Parsed_body None))) False \<noteq> None)"

text \<open>The request without the caller's token and identity headers, with the gateway's own.\<close>

definition provider_key :: "oidc_config \<Rightarrow> headers \<Rightarrow> string option" where
  "provider_key config hs =
    (case jm_get hs ''x-portkey-provider'' of None \<Rightarrow> None
     | Some p \<Rightarrow> let q = to_lower (trim p) in if q = [] then None else jm_get (oc_providerKeys config) q)"

definition identity_headers :: "oidc_identity \<Rightarrow> headers \<Rightarrow> headers" where
  "identity_headers i hs =
    (let h1 = filter (\<lambda>e. \<not> starts_with (fst e) ''x-ps-auth-'') (jm_del ''authorization'' hs);
         h2 = jm_set SUBJECT_HEADER (id_subjectHash i) h1
     in case id_group i of None \<Rightarrow> h2 | Some g \<Rightarrow> jm_set GROUP_HEADER (pg_name g) h2)"

definition rebuilt_headers :: "oidc_config \<Rightarrow> oidc_identity \<Rightarrow> headers \<Rightarrow> headers" where
  "rebuilt_headers config i hs =
    (let h = identity_headers i hs in
     case provider_key config h of None \<Rightarrow> h
     | Some k \<Rightarrow> if gatewayKeyAllowed h then jm_set ''authorization'' (''Bearer '' @ k) h else h)"

definition identify :: "auth_env \<Rightarrow> oidc_config \<Rightarrow> json \<Rightarrow> policy_group option \<Rightarrow> oidc_identity" where
  "identify env config payload og =
    (let sub = ae_String env (prop_of (Some payload) ''sub'') in
     \<lparr>id_subjectHash = ae_subjectHash env config sub, id_subject = sub, id_group = og\<rparr>)"

definition admit_identity ::
  "auth_env \<Rightarrow> oidc_config \<Rightarrow> auth_request \<Rightarrow> oidc_identity \<Rightarrow> nat \<Rightarrow> buckets \<Rightarrow> auth_outcome \<times> buckets" where
  "admit_identity env config rq i t bs =
    (if realtime_denied env rq i then (answer 403 ''policy_denied'' None, bs)
     else let (retry, bs') = (case id_group i of None \<Rightarrow> (None, bs) | Some g \<Rightarrow> takeRateLimit g (id_subjectHash i) t bs)
          in case retry of
               Some s \<Rightarrow> (answer 429 ''rate_limit_exceeded'' (Some s), bs')
             | None \<Rightarrow> (Forwarded (Some i) (rebuilt_headers config i (ar_headers rq)), bs'))"

definition psOidc ::
  "auth_env \<Rightarrow> oidc_settings \<Rightarrow> oidc_policy option \<Rightarrow> auth_request \<Rightarrow> nat \<Rightarrow> buckets \<Rightarrow> auth_outcome \<times> buckets" where
  "psOidc env settings central rq t bs =
    (if settings = Oidc_disabled \<or> \<not> isProtectedPath (ar_path rq) then (Forwarded None (ar_headers rq), bs)
     else case settings of
       Oidc_enabled config \<Rightarrow>
         (case bearerToken (jm_get (ar_headers rq) ''authorization'') of
            None \<Rightarrow> (answer 401 ''missing_token'' None, bs)
          | Some token \<Rightarrow>
              (case ae_verify env config token of
                 Inl reason \<Rightarrow> (if reason = Jwks_unavailable then answer 503 ''idp_unavailable'' (Some 30)
                               else answer 401 ''invalid_token'' None, bs)
               | Inr payload \<Rightarrow>
                   (case nullish central (oc_policy config) of
                      None \<Rightarrow> admit_identity env config rq (identify env config payload None) t bs
                    | Some policy \<Rightarrow>
                        (let og = matchGroup policy (groupsFromClaims payload (oc_groupsClaim config)) in
                         if og = None \<and> op_defaultAction policy = Deny_default then (answer 403 ''policy_denied'' None, bs)
                         else admit_identity env config rq (identify env config payload og) t bs))))
     | _ \<Rightarrow> (answer 500 ''oidc_misconfigured'' None, bs))"

subsection \<open>What a forwarded request carries\<close>

lemma jm_get_filter_keys: "jm_get (filter (\<lambda>e. P (fst e)) m) k = (if P k then jm_get m k else None)"
  by (induction m) auto

definition own_headers :: "oidc_config \<Rightarrow> oidc_identity \<Rightarrow> headers \<Rightarrow> bool" where
  "own_headers config i hs \<longleftrightarrow>
    (\<forall>v. jm_get hs ''authorization'' = Some v \<longrightarrow> (\<exists>p k. jm_get (oc_providerKeys config) p = Some k \<and> v = ''Bearer '' @ k)) \<and>
    (\<forall>n v. starts_with n ''x-ps-auth-'' \<and> jm_get hs n = Some v \<longrightarrow>
       n = SUBJECT_HEADER \<and> v = id_subjectHash i \<or> n = GROUP_HEADER \<and> (\<exists>g. id_group i = Some g \<and> v = pg_name g)) \<and>
    jm_get hs SUBJECT_HEADER = Some (id_subjectHash i)"

lemma provider_key_Some: "provider_key config hs = Some k \<Longrightarrow> \<exists>p. jm_get (oc_providerKeys config) p = Some k"
  by (auto simp: provider_key_def Let_def split: option.splits if_splits)

lemma identity_headers_own:
  "jm_get (identity_headers i hs) ''authorization'' = None \<and> own_headers config i (identity_headers i hs)"
proof -
  let ?h1 = "filter (\<lambda>e. \<not> starts_with (fst e) ''x-ps-auth-'') (jm_del ''authorization'' hs)"
  have "jm_get ?h1 n = (if starts_with n ''x-ps-auth-'' \<or> n = ''authorization'' then None else jm_get hs n)" for n
    by (subst jm_get_filter_keys [of "\<lambda>n. \<not> starts_with n ''x-ps-auth-''"]) (simp only: jm_get_del fun_upd_apply; simp)
  then show ?thesis
    by (auto simp: identity_headers_def Let_def own_headers_def SUBJECT_HEADER_def GROUP_HEADER_def
        split: option.splits if_splits)
qed

lemma rebuilt_headers_own: "own_headers config i (rebuilt_headers config i hs)"
proof -
  from identity_headers_own [of i hs config] have own: "own_headers config i (identity_headers i hs)" ..
  then have "own_headers config i (jm_set ''authorization'' (''Bearer '' @ k) (identity_headers i hs))"
    if "provider_key config (identity_headers i hs) = Some k" for k
    using provider_key_Some [OF that] by (auto simp: own_headers_def SUBJECT_HEADER_def)
  with own show ?thesis by (simp add: rebuilt_headers_def Let_def split: option.split)
qed

text \<open>The identity a verified token gives under a policy, and its right to pass.\<close>

definition identified :: "auth_env \<Rightarrow> oidc_config \<Rightarrow> oidc_policy option \<Rightarrow> auth_request \<Rightarrow> oidc_identity \<Rightarrow> bool" where
  "identified env config policy rq i \<longleftrightarrow>
    (\<exists>token payload. bearerToken (jm_get (ar_headers rq) ''authorization'') = Some token \<and>
       ae_verify env config token = Inr payload \<and>
       id_subject i = ae_String env (prop_of (Some payload) ''sub'') \<and>
       id_subjectHash i = ae_subjectHash env config (id_subject i) \<and>
       (case policy of None \<Rightarrow> id_group i = None
        | Some p \<Rightarrow> id_group i = matchGroup p (groupsFromClaims payload (oc_groupsClaim config)) \<and>
            (id_group i = None \<longrightarrow> op_defaultAction p = Allow_default)))"

lemma admit_identity_forwarded:
  assumes "admit_identity env config rq i t bs = (Forwarded oi hs, bs')"
  shows "oi = Some i \<and> hs = rebuilt_headers config i (ar_headers rq) \<and> \<not> realtime_denied env rq i \<and>
    (\<forall>g. id_group i = Some g \<longrightarrow> fst (takeRateLimit g (id_subjectHash i) t bs) = None)"
  using assms
  by (auto simp: admit_identity_def answer_def case_prod_beta split: if_splits option.splits)

text \<open>C19. With OIDC on, a request to a protected route goes on only when its bearer token was verified, its user is
  in a group of the policy in force (the central one first) or the policy allows users without a group, a
  realtime call's target is allowed, and the group's rate limit was not used up. The
  caller's token does not go on as \<open>Authorization\<close>: such a header is one of the gateway's provider keys, and the
  identity headers are the gateway's own.\<close>

theorem psOidc_forwards_only_verified:
  assumes "psOidc env settings central rq t bs = (Forwarded oi hs, bs')"
    and "settings \<noteq> Oidc_disabled" "isProtectedPath (ar_path rq)"
  shows "\<exists>config i. settings = Oidc_enabled config \<and> oi = Some i \<and>
    identified env config (nullish central (oc_policy config)) rq i \<and> own_headers config i hs \<and>
    \<not> realtime_denied env rq i \<and>
    (\<forall>g. id_group i = Some g \<longrightarrow> fst (takeRateLimit g (id_subjectHash i) t bs) = None)"
proof -
  from assms obtain config where c: "settings = Oidc_enabled config"
    by (auto simp: psOidc_def answer_def split: oidc_settings.splits)
  with assms obtain token payload where tp:
    "bearerToken (jm_get (ar_headers rq) ''authorization'') = Some token" "ae_verify env config token = Inr payload"
    by (auto simp: psOidc_def answer_def split: option.splits sum.splits if_splits)
  define og where "og = (case nullish central (oc_policy config) of None \<Rightarrow> None
    | Some p \<Rightarrow> matchGroup p (groupsFromClaims payload (oc_groupsClaim config)))"
  define i where "i = identify env config payload og"
  from assms c tp have a: "admit_identity env config rq i t bs = (Forwarded oi hs, bs')"
    and d: "\<forall>p. nullish central (oc_policy config) = Some p \<and> og = None \<longrightarrow> op_defaultAction p = Allow_default"
    by (auto simp: psOidc_def answer_def Let_def og_def i_def split: option.splits if_splits)
      (metis default_action.exhaust)+
  from d tp have "identified env config (nullish central (oc_policy config)) rq i"
    by (auto simp: identified_def i_def identify_def Let_def og_def split: option.splits)
  with c admit_identity_forwarded [OF a] rebuilt_headers_own show ?thesis by blast
qed

definition sample_auth_env :: auth_env where
  "sample_auth_env = \<lparr>ae_verify = (\<lambda>config token. if token = ''jwt'' then Inr (JObj [(''sub'', JStr ''ana''),
       (''groups'', JArr [JStr ''data''])]) else Inl Bad_signature),
     ae_subjectHash = (\<lambda>config sub. ''h-'' @ sub),
     ae_String = (\<lambda>v. case v of Some (JStr s) \<Rightarrow> s | _ \<Rightarrow> ''undefined''), ae_options = (\<lambda>hs. None)\<rparr>"

definition sample_oidc_config :: oidc_config where
  "sample_oidc_config = \<lparr>oc_issuer = ''https://idp'', oc_audiences = [''gateway''], oc_jwksUrl = None,
     oc_algorithms = [''RS256''], oc_clockSkewSeconds = 60, oc_groupsClaim = ''groups'',
     oc_policy = Some \<lparr>op_defaultAction = Deny_default, op_groups = [sample_group\<lparr>pg_rateLimit := None\<rparr>]\<rparr>,
     oc_telemetrySubject = Subject_hash, oc_subjectSalt = None, oc_providerKeys = [(''openai'', ''sk-gw'')]\<rparr>"

definition sample_auth_request :: auth_request where
  "sample_auth_request = \<lparr>ar_path = ''/v1/chat/completions'',
     ar_headers = [(''authorization'', ''Bearer jwt''), (''x-portkey-provider'', ''OpenAI''), (''x-ps-auth-subject'', ''root'')],
     ar_model = None\<rparr>"

theorem psOidc_forwards_only_verified_witness:
  "\<exists>i hs. psOidc sample_auth_env (Oidc_enabled sample_oidc_config) None sample_auth_request 0 [] = (Forwarded (Some i) hs, []) \<and>
     own_headers sample_oidc_config i hs \<and> jm_get hs ''authorization'' = Some ''Bearer sk-gw'' \<and> id_subject i = ''ana''"
proof -
  let ?r = "psOidc sample_auth_env (Oidc_enabled sample_oidc_config) None sample_auth_request 0 []"
  have "case ?r of (Forwarded (Some i) hs, bs) \<Rightarrow>
      bs = [] \<and> jm_get hs ''authorization'' = Some ''Bearer sk-gw'' \<and> id_subject i = ''ana'' | _ \<Rightarrow> False"
    by code_simp
  then obtain i hs where r: "?r = (Forwarded (Some i) hs, [])"
    and h: "jm_get hs ''authorization'' = Some ''Bearer sk-gw''" "id_subject i = ''ana''"
    by (auto split: prod.splits auth_outcome.splits option.splits)
  have "isProtectedPath (ar_path sample_auth_request)" by code_simp
  from psOidc_forwards_only_verified [OF r _ this] r h show ?thesis by auto
qed

end
