(* ===== verification/Mcp_Guardrails.thy ===== *)
theory Mcp_Guardrails
  imports Prelude "HOL-Library.Sublist"
begin

text \<open>
  The guardrails of MCP tool calls: the hooks of a server's configuration (\<open>src/mcp/config.ts\<close>
  \<open>parseGuardrails\<close>, \<open>src/handlers/handlerUtils.ts\<close> \<open>convertHooksShorthand\<close>), the text of a call and of its
  result they are shown, and the decision (\<open>src/mcp/guardrails.ts\<close>). A hook keeps what the decision and the
  checks need: its \<open>deny\<close> flag and its checks; its other settings (feedback, \<open>sequential\<close>) and its random id
  are left out. The run of the hooks, \<open>JSON.stringify\<close> and base64 are parameters.
\<close>

subsection \<open>Hooks\<close>

record hook_check =
  hc_id :: string
  hc_parameters :: json
  hc_enabled :: "json option"

record hook_object =
  hk_deny :: bool
  hk_checks :: "hook_check list"

record hook_result =
  hr_skipped :: bool
  hr_verdict :: bool
  hr_errors :: "bool list"

text \<open>What a configuration of hooks can be refused for; \<open>Guard_type\<close> stands for a \<open>TypeError\<close>.\<close>

datatype guard_error = Guard_not_array | Guard_no_checks | Guard_unknown string | Guard_type

definition SHORTHAND_KEYS :: "string list" where
  "SHORTHAND_KEYS = [''deny'', ''on_fail'', ''on_success'', ''async'', ''id'', ''type'', ''guardrail_version_id'', ''sequential'']"

text \<open>\<open>hook[key].id ?? key\<close>, with the default plugin for an id without one; \<open>str\<close> is \<open>String\<close> on an array.\<close>

definition shorthand_check :: "(json list \<Rightarrow> string) \<Rightarrow> string \<times> json \<Rightarrow> guard_error + hook_check" where
  "shorthand_check str e =
    (case e of (key, v) \<Rightarrow>
      let check = (\<lambda>i. \<lparr>hc_id = i, hc_parameters = v, hc_enabled = prop_of (Some v) ''is_enabled''\<rparr>) in
      if v = JNull then Inl Guard_type
      else case json_or (prop_of (Some v) ''id'') (JStr key) of
        JStr i \<Rightarrow> Inr (check (if CHR ''.'' \<in> set i then i else ''default.'' @ i))
      | JArr vs \<Rightarrow> Inr (check (if JStr ''.'' \<in> set vs then str vs else ''default.'' @ str vs))
      | _ \<Rightarrow> Inl Guard_type)"

definition convertHook :: "(json list \<Rightarrow> string) \<Rightarrow> json \<Rightarrow> guard_error + hook_object" where
  "convertHook str hook =
    (case own_entries hook of None \<Rightarrow> Inl Guard_type
     | Some es \<Rightarrow>
        if ''hasOwnProperty'' \<in> fst ` set es then Inl Guard_type
        else rbind (map_res (shorthand_check str) (filter (\<lambda>e. fst e \<notin> set SHORTHAND_KEYS) es)) (\<lambda>cs.
               Inr \<lparr>hk_deny = (jm_get es ''deny'' \<noteq> Some (JBool False)), hk_checks = cs\<rparr>))"

text \<open>\<open>const [source, fn, ...rest] = String(check.id).split('.')\<close>; \<open>known\<close> looks a check up in the plugins.\<close>

definition known_check :: "(string \<Rightarrow> string \<Rightarrow> bool) \<Rightarrow> string \<Rightarrow> bool" where
  "known_check known i =
    (let source = takeWhile (\<lambda>c. c \<noteq> CHR ''.'') i; rest = drop (length source) i
     in case rest of [] \<Rightarrow> False | _ # fn \<Rightarrow> CHR ''.'' \<notin> set fn \<and> known source fn)"

definition check_hook :: "(string \<Rightarrow> string \<Rightarrow> bool) \<Rightarrow> hook_object \<Rightarrow> guard_error + hook_object" where
  "check_hook known h =
    (if hk_checks h = [] then Inl Guard_no_checks
     else case List.find (\<lambda>c. \<not> known_check known (hc_id c)) (hk_checks h) of
       Some c \<Rightarrow> Inl (Guard_unknown (hc_id c))
     | None \<Rightarrow> Inr h)"

definition parseGuardrails ::
  "(json list \<Rightarrow> string) \<Rightarrow> (string \<Rightarrow> string \<Rightarrow> bool) \<Rightarrow> json option \<Rightarrow> guard_error + hook_object list" where
  "parseGuardrails str known raw =
    (case raw of None \<Rightarrow> Inr []
     | Some (JArr hs) \<Rightarrow> rbind (map_res (convertHook str) hs) (map_res (check_hook known))
     | Some _ \<Rightarrow> Inl Guard_not_array)"

lemma check_hook_return [return_iff]:
  "check_hook known h = Inr h' \<longleftrightarrow>
    h' = h \<and> hk_checks h \<noteq> [] \<and> (\<forall>c \<in> set (hk_checks h). known_check known (hc_id c))"
  by (auto simp: check_hook_def find_None_iff split: option.splits dest!: find_SomeD)

lemma parseGuardrails_ok:
  assumes "parseGuardrails str known raw = Inr hooks" "h \<in> set hooks"
  shows "hk_checks h \<noteq> [] \<and> (\<forall>c \<in> set (hk_checks h). known_check known (hc_id c))"
  using assms
  by (auto simp: parseGuardrails_def return_iff map_res_return_iff list_all2_conv_all_nth in_set_conv_nth
      split: option.splits json.splits)

subsection \<open>The decision\<close>

text \<open>\<open>isBlocked\<close>: a hook without a result, or skipped, blocks; a failed check only blocks when the hook denies.\<close>

fun some_blocks :: "hook_object list \<Rightarrow> hook_result list \<Rightarrow> bool" where
  "some_blocks (h # hs) (r # rs) =
    ((hr_skipped r \<or> hk_deny h \<and> (\<not> hr_verdict r \<or> True \<in> set (hr_errors r))) \<or> some_blocks hs rs)"
| "some_blocks _ _ = False"

definition isBlocked :: "hook_object list \<Rightarrow> hook_result list \<Rightarrow> bool" where
  "isBlocked hooks results \<longleftrightarrow> length results \<noteq> length hooks \<or> some_blocks hooks results"

text \<open>\<open>run\<close> executes the hooks on a text, \<open>None\<close> when there is no manager or it throws.\<close>

definition mcpGuardrailsBlock :: "(hook_object list \<Rightarrow> string \<Rightarrow> hook_result list option) \<Rightarrow> hook_object list \<Rightarrow> string \<Rightarrow> bool" where
  "mcpGuardrailsBlock run hooks content \<longleftrightarrow>
    hooks \<noteq> [] \<and> (case run hooks content of None \<Rightarrow> True | Some rs \<Rightarrow> isBlocked hooks rs)"

lemma some_blocks_nth:
  "length rs = length hs \<Longrightarrow> some_blocks hs rs \<longleftrightarrow>
    (\<exists>i < length hs. hr_skipped (rs ! i) \<or> hk_deny (hs ! i) \<and> (\<not> hr_verdict (rs ! i) \<or> True \<in> set (hr_errors (rs ! i))))"
proof (induction hs rs rule: some_blocks.induct)
  case (1 h hs r rs)
  then show ?case by (auto simp: less_Suc_eq_0_disj)
qed auto

lemma guardrails_pass_iff:
  "\<not> mcpGuardrailsBlock run hooks content \<longleftrightarrow> hooks = [] \<or>
    (\<exists>rs. run hooks content = Some rs \<and> length rs = length hooks \<and>
      (\<forall>i < length hooks. \<not> hr_skipped (rs ! i) \<and>
         (hk_deny (hooks ! i) \<longrightarrow> hr_verdict (rs ! i) \<and> True \<notin> set (hr_errors (rs ! i)))))"
  by (auto simp: mcpGuardrailsBlock_def isBlocked_def some_blocks_nth split: option.splits)

subsection \<open>The text of a call and of its result\<close>

text \<open>\<open>{...v}\<close> of an object or array.\<close>

fun spread :: "json \<Rightarrow> (string \<times> json) list" where
  "spread (JObj fs) = fs"
| "spread (JArr vs) = map (\<lambda>i. (digits_of i, vs ! i)) [0..<length vs]"
| "spread _ = []"

fun is_obj :: "json option \<Rightarrow> bool" where
  "is_obj (Some (JObj _)) = True"
| "is_obj (Some (JArr _)) = True"
| "is_obj _ = False"

text \<open>\<open>/^(text\/|application\/([\w.+-]*\+)?(json|xml|yaml|javascript|x-sh)\b)/i\<close>\<close>

definition word_char :: "char \<Rightarrow> bool" where
  "word_char c \<longleftrightarrow> is_digit c \<or> lower_char c \<in> set ''abcdefghijklmnopqrstuvwxyz'' \<or> c = CHR ''_''"

definition text_subtype :: "string \<Rightarrow> bool" where
  "text_subtype r \<longleftrightarrow>
    list_ex (\<lambda>i. (i = 0 \<or> r ! (i - 1) = CHR ''+'' \<and>
          list_all (\<lambda>c. word_char c \<or> c = CHR ''.'' \<or> c = CHR ''+'' \<or> c = CHR ''-'') (take i r)) \<and>
        list_ex (\<lambda>w. starts_with (drop i r) w \<and>
            (let e = drop (i + length w) r in e = [] \<or> \<not> word_char (hd e)))
          [''json'', ''xml'', ''yaml'', ''javascript'', ''x-sh''])
      [0..<Suc (length r)]"

definition isTextMimeType :: "json option \<Rightarrow> bool" where
  "isTextMimeType mime \<longleftrightarrow>
    (case json_text mime of None \<Rightarrow> False
     | Some s \<Rightarrow> let m = to_lower (trim s) in
         starts_with m ''text/'' \<or> starts_with m ''application/'' \<and> text_subtype (drop 12 m))"

definition toolCallInputText :: "(json \<Rightarrow> string) \<Rightarrow> json option \<Rightarrow> string" where
  "toolCallInputText stringify params =
    join [CHR 0x0A]
      (stringify (case prop_of params ''arguments'' of None \<Rightarrow> JObj [] | Some a \<Rightarrow> a)
       # (case prop_of params ''inputResponses'' of None \<Rightarrow> [] | Some v \<Rightarrow> [stringify v]))"

text \<open>The text of one item of the content; \<open>decode64\<close> is \<open>decodeBase64Text\<close>.\<close>

definition resource_texts :: "(string \<Rightarrow> string) \<Rightarrow> json option \<Rightarrow> string list" where
  "resource_texts decode64 res =
    (case json_text (prop_of res ''text'') of Some t \<Rightarrow> [t]
     | None \<Rightarrow> (case json_text (prop_of res ''blob'') of
         Some b \<Rightarrow> if isTextMimeType (prop_of res ''mimeType'') then [decode64 b] else []
       | None \<Rightarrow> []))"

text \<open>\<open>{...item, text: undefined, data: undefined, resource: ...}\<close>, without the undefined fields.\<close>

definition item_rest :: "json \<Rightarrow> json" where
  "item_rest item =
    (let fs = jm_del ''text'' (jm_del ''data'' (spread item)); res = prop_of (Some item) ''resource'' in
     JObj (if is_obj res then jm_set ''resource'' (JObj (jm_del ''text'' (jm_del ''blob'' (spread (the res))))) fs else fs))"

definition item_texts :: "(json \<Rightarrow> string) \<Rightarrow> (string \<Rightarrow> string) \<Rightarrow> json \<Rightarrow> string list" where
  "item_texts stringify decode64 item =
    (if \<not> is_obj (Some item) then []
     else (case json_text (prop_of (Some item) ''text'') of None \<Rightarrow> [] | Some t \<Rightarrow> [t])
       @ resource_texts decode64 (prop_of (Some item) ''resource'')
       @ (if prop_of (Some item) ''type'' \<in> {Some (JStr ''text''), Some (JStr ''image''), Some (JStr ''audio'')} then []
          else [stringify (item_rest item)]))"

definition error_text :: "(json \<Rightarrow> string) \<Rightarrow> json option \<Rightarrow> string" where
  "error_text stringify e =
    join [CHR 0x0A] (filter (\<lambda>t. t \<noteq> [])
      [case json_text (prop_of e ''message'') of None \<Rightarrow> [] | Some t \<Rightarrow> t,
       case prop_of e ''data'' of None \<Rightarrow> [] | Some d \<Rightarrow> stringify d])"

definition toolResultText :: "(json \<Rightarrow> string) \<Rightarrow> (string \<Rightarrow> string) \<Rightarrow> json \<Rightarrow> string" where
  "toolResultText stringify decode64 message =
    (let e = prop_of (Some message) ''error''; res = prop_of (Some message) ''result'' in
     if truthy_json e then error_text stringify e
     else if \<not> is_obj res then []
     else join [CHR 0x0A]
       ((case prop_of res ''content'' of Some (JArr items) \<Rightarrow> concat (map (item_texts stringify decode64) items) | _ \<Rightarrow> [])
        @ (case prop_of res ''structuredContent'' of None \<Rightarrow> [] | Some v \<Rightarrow> [stringify v])
        @ (case prop_of res ''inputRequests'' of None \<Rightarrow> [] | Some v \<Rightarrow> [stringify v])))"

lemma sublist_append_later: "sublist x ys \<Longrightarrow> sublist x (zs @ ys)"
  by (metis append.assoc sublist_def)

lemma join_sublist: "x \<in> set xs \<Longrightarrow> sublist x (join sep xs)"
proof (induction sep xs rule: join.induct)
  case (3 sep y z zs)
  then show ?case by (cases "x = y") (auto intro!: sublist_append_later)
qed auto

text \<open>Everything of a tool result a client may show as text is part of what the output guardrails check: the
  text of every content item and of its resource, base64 text resources decoded, everything but binary data
  of items of other types, the structured content and the input requests.\<close>

lemma toolResultText_covers:
  assumes "\<not> truthy_json (prop_of (Some message) ''error'')" "prop_of (Some message) ''result'' = Some result"
    and "is_obj (Some result)"
  shows "(\<forall>items item t. prop_of (Some result) ''content'' = Some (JArr items) \<and> item \<in> set items \<and>
        t \<in> set (item_texts stringify decode64 item) \<longrightarrow> sublist t (toolResultText stringify decode64 message)) \<and>
    (\<forall>v. prop_of (Some result) ''structuredContent'' = Some v \<or> prop_of (Some result) ''inputRequests'' = Some v \<longrightarrow>
        sublist (stringify v) (toolResultText stringify decode64 message))"
proof -
  have eq: "toolResultText stringify decode64 message = join [CHR 0x0A]
       ((case prop_of (Some result) ''content'' of
            Some (JArr items) \<Rightarrow> concat (map (item_texts stringify decode64) items) | _ \<Rightarrow> [])
        @ (case prop_of (Some result) ''structuredContent'' of None \<Rightarrow> [] | Some v \<Rightarrow> [stringify v])
        @ (case prop_of (Some result) ''inputRequests'' of None \<Rightarrow> [] | Some v \<Rightarrow> [stringify v]))"
    using assms by (simp add: toolResultText_def Let_def)
  show ?thesis unfolding eq by (auto intro!: join_sublist)
qed

definition sample_result :: json where
  "sample_result = JObj [(''id'', JNum (Fin 1)), (''result'', JObj [(''content'', JArr [
     JObj [(''type'', JStr ''text''), (''text'', JStr ''hello'')],
     JObj [(''type'', JStr ''resource''), (''resource'', JObj [(''blob'', JStr ''QQ==''), (''mimeType'', JStr ''application/ld+json'')])]])])]"

end
