(* ===== verification/Canonical_Json.thy ===== *)
theory Canonical_Json
  imports Prelude "HOL-Library.List_Lexorder" "HOL-Library.Char_ord" "HOL-Library.Multiset"
begin

text \<open>
  The canonical text of a JSON value, which \<open>src/mcp/policy.ts\<close> and \<open>src/middlewares/cache/hash.ts\<close> hash: it does not
  depend on the order of an object's fields, and on values built of strings and arrays it is unambiguous.
  \<open>JSON.stringify\<close> of a value that is no object or array is a parameter.
\<close>

abbreviation quote :: "(json \<Rightarrow> string) \<Rightarrow> string \<Rightarrow> string" where
  "quote stringify k \<equiv> stringify (JStr k)"

text \<open>Object keys sorted by code unit; the keys of an object are distinct.\<close>

fun canonicalJson :: "(json \<Rightarrow> string) \<Rightarrow> json \<Rightarrow> string" where
  "canonicalJson stringify (JArr vs) = ''['' @ join '','' (map (canonicalJson stringify) vs) @ '']''"
| "canonicalJson stringify (JObj fs) =
    ''{'' @ join '','' (map (\<lambda>(k, t). quote stringify k @ '':'' @ t)
      (sort_key fst (map (\<lambda>(k, v). (k, canonicalJson stringify v)) fs))) @ ''}''"
| "canonicalJson stringify v = stringify v"

lemma canonicalJson_order:
  assumes "mset fs = mset gs" "distinct (map fst fs)"
  shows "canonicalJson stringify (JObj fs) = canonicalJson stringify (JObj gs)"
proof -
  let ?c = "map (\<lambda>(k, v). (k, canonicalJson stringify v))"
  have k: "map fst (?c xs) = map fst xs" for xs by (induction xs) auto
  have "mset (?c fs) = mset (?c gs)" using assms(1) by (metis mset_map)
  then have "mset (?c gs) = mset (sort_key fst (?c fs))" by simp
  moreover have "inj_on fst (set (?c gs))"
  proof -
    have "distinct (map fst gs)" using assms by (metis mset_eq_imp_distinct_iff mset_map)
    then show ?thesis using k [of gs] by (metis distinct_map)
  qed
  ultimately have "sort_key fst (?c gs) = sort_key fst (?c fs)"
    by (intro sort_key_inj_key_eq) simp_all
  then show ?thesis by simp
qed

subsection \<open>Unambiguous texts\<close>

text \<open>The text of a string starts with a quotation mark and shows where it ends.\<close>

definition json_strings :: "(json \<Rightarrow> string) \<Rightarrow> bool" where
  "json_strings stringify \<longleftrightarrow>
    (\<forall>s. \<exists>r. stringify (JStr s) = CHR 0x22 # r) \<and>
    (\<forall>s t x y. stringify (JStr s) @ x = stringify (JStr t) @ y \<longrightarrow> s = t \<and> x = y)"

fun string_tree :: "json \<Rightarrow> bool" where
  "string_tree (JStr s) = True"
| "string_tree (JArr vs) = list_all string_tree vs"
| "string_tree _ = False"

lemma json_strings_start: "json_strings stringify \<Longrightarrow> \<exists>r. stringify (JStr s) = CHR 0x22 # r"
  unfolding json_strings_def by blast

lemma json_strings_end:
  "json_strings stringify \<Longrightarrow> stringify (JStr s) @ x = stringify (JStr t) @ y \<Longrightarrow> s = t \<and> x = y"
  unfolding json_strings_def by blast

lemma string_tree_start:
  assumes "json_strings stringify" "string_tree v"
  shows "\<exists>c r. canonicalJson stringify v = c # r \<and> (c = CHR 0x22 \<or> c = CHR ''['')"
proof (cases v)
  case (JStr s)
  with json_strings_start [OF assms(1), of s] show ?thesis by auto
qed (use assms(2) in simp_all)

lemma joined_unambiguous:
  assumes "\<And>v w x y. v \<in> set vs \<Longrightarrow> ok w \<Longrightarrow> f v @ x = f w @ y \<Longrightarrow> v = w \<and> x = y"
    and "\<And>v. ok v \<Longrightarrow> \<exists>c r. f v = c # r \<and> (c = CHR 0x22 \<or> c = CHR ''['')"
    and "list_all ok vs" "list_all ok ws"
    and "join '','' (map f vs) @ '']'' @ x = join '','' (map f ws) @ '']'' @ y"
  shows "vs = ws \<and> x = y"
  using assms(1,3-5)
proof (induction vs arbitrary: ws)
  case Nil
  show ?case
  proof (cases ws)
    case (Cons w ws')
    with Nil assms(2) [of w] show ?thesis by (cases ws') auto
  qed (use Nil in auto)
next
  case (Cons v vs)
  have "ws \<noteq> []"
  proof
    assume "ws = []"
    moreover obtain c r where "f v = c # r" "c = CHR 0x22 \<or> c = CHR ''[''" using assms(2) [of v] Cons.prems(2) by auto
    ultimately show False using Cons.prems(4) by (cases vs) auto
  qed
  then obtain w ws' where ws: "ws = w # ws'" by (cases ws) auto
  have ok: "ok v" "ok w" "list_all ok vs" "list_all ok ws'" using Cons.prems ws by auto
  define p q where "p = (if vs = [] then '']'' @ x else '','' @ join '','' (map f vs) @ '']'' @ x)"
    and "q = (if ws' = [] then '']'' @ y else '','' @ join '','' (map f ws') @ '']'' @ y)"
  have "f v @ p = f w @ q" using Cons.prems(4) ws by (cases vs; cases ws') (auto simp: p_def q_def)
  with Cons.prems(1) [of v w p q] ok have v: "v = w" "p = q" by auto
  show ?case
  proof (cases "vs = []")
    case True
    with v(2) have "ws' = []" "x = y" by (auto simp: p_def q_def split: if_splits)
    with True v ws show ?thesis by simp
  next
    case False
    with v(2) have "ws' \<noteq> []" "join '','' (map f vs) @ '']'' @ x = join '','' (map f ws') @ '']'' @ y"
      by (auto simp: p_def q_def split: if_splits)
    with Cons.IH [of ws'] Cons.prems(1) ok v ws show ?thesis by auto
  qed
qed

lemma string_tree_unambiguous:
  assumes "json_strings stringify" "string_tree v" "string_tree w" "canonicalJson stringify v @ x = canonicalJson stringify w @ y"
  shows "v = w \<and> x = y"
  using assms(2-4)
proof (induction v arbitrary: w x y rule: string_tree.induct)
  case (1 s)
  show ?case
  proof (cases w)
    case (JStr t)
    with 1 json_strings_end [OF assms(1), of s x t y] show ?thesis by simp
  next
    case (JArr ws)
    with 1 json_strings_start [OF assms(1), of s] show ?thesis by auto
  qed (use 1 in simp_all)
next
  case (2 vs)
  have "\<exists>ws. w = JArr ws"
  proof (cases w)
    case (JStr t)
    with 2 json_strings_start [OF assms(1), of t] show ?thesis by auto
  qed (use 2 in simp_all)
  then obtain ws where w: "w = JArr ws" by blast
  have "vs = ws \<and> x = y"
  proof (rule joined_unambiguous [where f = "canonicalJson stringify" and ok = string_tree])
    fix v' w' x' y' assume "v' \<in> set vs" "string_tree w'" "canonicalJson stringify v' @ x' = canonicalJson stringify w' @ y'"
    with "2.IH" [of v' w' x' y'] "2.prems"(1) show "v' = w' \<and> x' = y'" by (simp add: list_all_iff)
  next
    fix v assume "string_tree v"
    with string_tree_start [OF assms(1)] show "\<exists>c r. canonicalJson stringify v = c # r \<and> (c = CHR 0x22 \<or> c = CHR ''['')" .
  next
    show "list_all string_tree vs" "list_all string_tree ws" using "2.prems"(1,2) w by simp_all
    show "join '','' (map (canonicalJson stringify) vs) @ '']'' @ x = join '','' (map (canonicalJson stringify) ws) @ '']'' @ y"
      using "2.prems"(3) w by simp
  qed
  with w show ?case by simp
qed auto

subsection \<open>Arbitrary values\<close>

text \<open>Over all values, the canonical text shows where it ends before a comma or a closing bracket, and is unambiguous up to
  what the text itself leaves out: the order of an object's fields.\<close>

definition json_marks :: "char set" where
  "json_marks = {CHR 0x22, CHR ''['', CHR ''{'', CHR '','', CHR '']'', CHR ''}''}"

definition json_closers :: "char set" where
  "json_closers = {CHR '','', CHR '']'', CHR ''}''}"

definition closed_off :: "string \<Rightarrow> bool" where
  "closed_off x \<longleftrightarrow> x = [] \<or> hd x \<in> json_closers"

fun is_plain :: "json \<Rightarrow> bool" where
  "is_plain (JStr s) = False"
| "is_plain (JArr vs) = False"
| "is_plain (JObj fs) = False"
| "is_plain v = True"

definition json_texts :: "(json \<Rightarrow> string) \<Rightarrow> bool" where
  "json_texts stringify \<longleftrightarrow> json_strings stringify \<and> (\<forall>v. is_plain v \<longrightarrow> stringify v \<noteq> [] \<and> set (stringify v) \<inter> json_marks = {})"

text \<open>A text of the set \<open>T\<close> that ends before a closer is no longer and no shorter than the text \<open>t\<close>.\<close>

definition delimited :: "string set \<Rightarrow> string \<Rightarrow> bool" where
  "delimited T t \<longleftrightarrow> (\<forall>u \<in> T. \<forall>x y. closed_off x \<and> closed_off y \<and> t @ x = u @ y \<longrightarrow> t = u \<and> x = y)"

lemma delimitedD: "delimited T t \<Longrightarrow> u \<in> T \<Longrightarrow> closed_off x \<Longrightarrow> closed_off y \<Longrightarrow> t @ x = u @ y \<Longrightarrow> t = u \<and> x = y"
  unfolding delimited_def by blast

lemma closed_off_Cons [simp]: "closed_off (c # x) \<longleftrightarrow> c \<in> json_closers"
  by (simp add: closed_off_def)

lemma joined_delimited:
  assumes "\<And>t. t \<in> set ts \<Longrightarrow> delimited T t" "\<And>t. t \<in> set ts \<Longrightarrow> t \<in> T" "set us \<subseteq> T" "\<And>u. u \<in> T \<Longrightarrow> u \<noteq> [] \<and> hd u \<notin> json_closers"
    and "z \<in> {CHR '']'', CHR ''}''}" "join '','' ts @ z # x = join '','' us @ z # y"
  shows "ts = us \<and> x = y"
  using assms(1-3,6)
proof (induction ts arbitrary: us)
  case Nil
  show ?case
  proof (cases us)
    case (Cons u us')
    obtain c r where c: "u = c # r" "c \<notin> json_closers" using assms(4) [of u] Nil.prems(3) Cons by (cases u) auto
    then have "\<exists>r'. join '','' us @ z # y = c # r'" using Cons by (cases us') auto
    with Nil.prems(4) have "z = c" by auto
    with c(2) assms(5) show ?thesis by (auto simp: json_closers_def)
  qed (use Nil in auto)
next
  case (Cons t ts)
  have "us \<noteq> []"
  proof
    assume us: "us = []"
    obtain c r where c: "t = c # r" "c \<notin> json_closers" using assms(4) [of t] Cons.prems(2) [of t] by (cases t) auto
    then have "\<exists>r'. join '','' (t # ts) @ z # x = c # r'" by (cases ts) auto
    with Cons.prems(4) us have "z = c" by auto
    with c(2) assms(5) show False by (auto simp: json_closers_def)
  qed
  then obtain u us' where us: "us = u # us'" by (cases us) auto
  define p q where "p = (if ts = [] then z # x else '','' @ join '','' ts @ z # x)"
    and "q = (if us' = [] then z # y else '','' @ join '','' us' @ z # y)"
  have "t @ p = u @ q" using Cons.prems(4) us by (cases ts; cases us') (auto simp: p_def q_def)
  moreover have "closed_off p" "closed_off q" using assms(5) by (auto simp: p_def q_def json_closers_def)
  ultimately have v: "t = u" "p = q" using delimitedD [of T t u p q] Cons.prems(1) [of t] Cons.prems(3) us by auto
  have z: "z \<noteq> CHR '',''" using assms(5) by auto
  show ?case
  proof (cases "ts = []")
    case True
    with v(2) z have "us' = []" "x = y" by (auto simp: p_def q_def split: if_splits)
    with True v us show ?thesis by simp
  next
    case False
    with v(2) z have "join '','' ts @ z # x = join '','' us' @ z # y" by (auto simp: p_def q_def split: if_splits)
    with Cons.IH [of us'] Cons.prems(1-3) v us show ?thesis by auto
  qed
qed

lemma plain_end:
  assumes "set s \<inter> json_marks = {}" "set t \<inter> json_marks = {}" "closed_off x" "closed_off y" "s @ x = t @ y"
  shows "s = t \<and> x = y"
proof -
  have "takeWhile (\<lambda>c. c \<notin> json_marks) (r @ z) = r" if "set r \<inter> json_marks = {}" "closed_off z" for r z
  proof -
    from that(1) have all: "\<And>c. c \<in> set r \<Longrightarrow> c \<notin> json_marks" by blast
    show ?thesis
    proof (cases z)
      case Nil
      with all show ?thesis by (simp add: takeWhile_eq_all_conv)
    next
      case (Cons c z')
      with that(2) have "c \<in> json_marks" by (auto simp: json_closers_def json_marks_def)
      with Cons all show ?thesis by (simp add: takeWhile_append2)
    qed
  qed
  from this [OF assms(1,3)] this [OF assms(2,4)] assms(5) show ?thesis by auto
qed

abbreviation value_texts :: "(json \<Rightarrow> string) \<Rightarrow> string set" where
  "value_texts st \<equiv> range (canonicalJson st)"

fun kind_mark :: "json \<Rightarrow> char option" where
  "kind_mark (JStr s) = Some (CHR 0x22)"
| "kind_mark (JArr vs) = Some (CHR ''['')"
| "kind_mark (JObj fs) = Some (CHR ''{'')"
| "kind_mark v = None"

lemma value_head:
  assumes "json_texts st"
  shows "\<exists>c r. canonicalJson st v = c # r \<and> (case kind_mark v of Some m \<Rightarrow> c = m | None \<Rightarrow> c \<notin> json_marks)"
proof -
  have q: "\<exists>r. st (JStr s) = CHR 0x22 # r" for s using assms json_strings_start unfolding json_texts_def by blast
  have p: "\<exists>c r. st v = c # r \<and> c \<notin> json_marks" if "is_plain v"
    using assms that unfolding json_texts_def by (cases "st v") auto
  show ?thesis using q p by (cases v) auto
qed

text \<open>Two texts with the same first character are of values of the same kind.\<close>

lemma same_kind:
  assumes "json_texts st" "canonicalJson st v @ x = canonicalJson st w @ y"
  shows "kind_mark v = kind_mark w"
proof -
  obtain c r d r' where h: "canonicalJson st v = c # r" "case kind_mark v of Some m \<Rightarrow> c = m | None \<Rightarrow> c \<notin> json_marks"
    "canonicalJson st w = d # r'" "case kind_mark w of Some m \<Rightarrow> d = m | None \<Rightarrow> d \<notin> json_marks"
    using value_head [OF assms(1)] by meson
  with assms(2) have "c = d" by simp
  moreover have "m \<in> json_marks" if "kind_mark u = Some m" for u m
    using that by (cases u) (auto simp: json_marks_def)
  ultimately show ?thesis using h by (cases "kind_mark v"; cases "kind_mark w") auto
qed

lemma value_start: "json_texts st \<Longrightarrow> u \<in> value_texts st \<Longrightarrow> u \<noteq> [] \<and> hd u \<notin> json_closers"
proof -
  assume a: "json_texts st" "u \<in> value_texts st"
  then obtain v where v: "u = canonicalJson st v" by blast
  from value_head [OF a(1), of v] obtain c r where "u = c # r" "case kind_mark v of Some m \<Rightarrow> c = m | None \<Rightarrow> c \<notin> json_marks"
    using v by blast
  then show ?thesis by (cases v) (auto simp: json_marks_def json_closers_def)
qed

definition member_texts :: "(json \<Rightarrow> string) \<Rightarrow> string set" where
  "member_texts st = {quote st k @ '':'' @ t | k t. t \<in> value_texts st}"

lemma member_start: "json_texts st \<Longrightarrow> u \<in> member_texts st \<Longrightarrow> u \<noteq> [] \<and> hd u \<notin> json_closers"
proof -
  assume a: "json_texts st" "u \<in> member_texts st"
  then obtain k t where u: "u = quote st k @ '':'' @ t" unfolding member_texts_def by blast
  from a(1) obtain r where "quote st k = CHR 0x22 # r" using json_strings_start unfolding json_texts_def by blast
  with u show ?thesis by (simp add: json_closers_def)
qed

lemma member_delimited:
  assumes "json_texts st" "delimited (value_texts st) t"
  shows "delimited (member_texts st) (quote st k @ '':'' @ t)"
  unfolding delimited_def
proof (intro ballI allI impI, elim conjE)
  fix u x y assume u: "u \<in> member_texts st" "closed_off x" "closed_off y" "(quote st k @ '':'' @ t) @ x = u @ y"
  then obtain l r where r: "u = quote st l @ '':'' @ r" "r \<in> value_texts st" unfolding member_texts_def by blast
  with u(4) have "quote st k @ ('':'' @ t @ x) = quote st l @ ('':'' @ r @ y)" by simp
  moreover have "json_strings st" using assms(1) by (simp add: json_texts_def)
  ultimately have "k = l \<and> '':'' @ t @ x = '':'' @ r @ y" by (intro json_strings_end)
  then have "k = l" "t @ x = r @ y" by simp_all
  with delimitedD [OF assms(2) r(2) u(2,3)] r(1) show "quote st k @ '':'' @ t = u \<and> x = y" by simp
qed

definition members :: "(json \<Rightarrow> string) \<Rightarrow> (string \<times> json) list \<Rightarrow> string list" where
  "members st fs = map (\<lambda>(k, t). quote st k @ '':'' @ t) (sort_key fst (map (\<lambda>(k, v). (k, canonicalJson st v)) fs))"

lemma canonical_object: "canonicalJson st (JObj fs) = ''{'' @ join '','' (members st fs) @ ''}''"
  by (simp add: members_def)

lemma set_members: "set (members st fs) = (\<lambda>(k, v). quote st k @ '':'' @ canonicalJson st v) ` set fs"
  by (force simp: members_def)

lemma plain_text: "is_plain v \<Longrightarrow> canonicalJson st v = st v"
  by (cases v) auto

lemma plain_delimited:
  assumes "json_texts st" "is_plain v"
  shows "delimited (value_texts st) (canonicalJson st v)"
  unfolding delimited_def
proof (intro ballI allI impI, elim conjE)
  fix u x y assume u: "u \<in> value_texts st" "closed_off x" "closed_off y" "canonicalJson st v @ x = u @ y"
  then obtain w where w: "u = canonicalJson st w" by blast
  have "kind_mark v = None" using assms(2) by (cases v) auto
  with u w same_kind [OF assms(1), of v x w y] have "is_plain w" by (cases w) auto
  then have e: "canonicalJson st w = st w" "canonicalJson st v = st v" using assms(2) by (simp_all only: plain_text)
  with assms \<open>is_plain w\<close> show "canonicalJson st v = u \<and> x = y"
    using plain_end [of "st v" "st w" x y] u w e unfolding json_texts_def by auto
qed

lemma value_delimited:
  assumes "json_texts st"
  shows "delimited (value_texts st) (canonicalJson st v)"
proof (induction v)
  case (JStr s)
  have js: "json_strings st" using assms by (simp add: json_texts_def)
  show ?case
    unfolding delimited_def
  proof (intro ballI allI impI, elim conjE)
    fix u x y assume u: "u \<in> value_texts st" "canonicalJson st (JStr s) @ x = u @ y"
    then obtain w where w: "u = canonicalJson st w" by blast
    with u same_kind [OF assms, of "JStr s" x w y] obtain t where "w = JStr t" by (cases w) auto
    with u w json_strings_end [OF js, of s x t y] show "canonicalJson st (JStr s) = u \<and> x = y" by simp
  qed
next
  case (JArr vs)
  show ?case
    unfolding delimited_def
  proof (intro ballI allI impI, elim conjE)
    fix u x y assume u: "u \<in> value_texts st" "closed_off x" "closed_off y" "canonicalJson st (JArr vs) @ x = u @ y"
    then obtain w where w: "u = canonicalJson st w" by blast
    with u same_kind [OF assms, of "JArr vs" x w y] obtain ws where ws: "w = JArr ws" by (cases w) auto
    have "map (canonicalJson st) vs = map (canonicalJson st) ws \<and> x = y"
      by (rule joined_delimited [where T = "value_texts st" and z = "CHR '']''"]) (use JArr u(4) w ws value_start [OF assms] in auto)
    with w ws show "canonicalJson st (JArr vs) = u \<and> x = y" by simp
  qed
next
  case (JObj fs)
  show ?case
    unfolding delimited_def
  proof (intro ballI allI impI, elim conjE)
    fix u x y assume u: "u \<in> value_texts st" "closed_off x" "closed_off y" "canonicalJson st (JObj fs) @ x = u @ y"
    then obtain w where w: "u = canonicalJson st w" by blast
    with u same_kind [OF assms, of "JObj fs" x w y] obtain gs where gs: "w = JObj gs" by (cases w) auto
    have T: "set (members st hs) \<subseteq> member_texts st" for hs by (auto simp: set_members member_texts_def)
    have "members st fs = members st gs \<and> x = y"
    proof (rule joined_delimited [where T = "member_texts st" and z = "CHR ''}''"])
      show "delimited (member_texts st) t" if "t \<in> set (members st fs)" for t
      proof -
        from that obtain k v where kv: "(k, v) \<in> set fs" "t = quote st k @ '':'' @ canonicalJson st v" by (auto simp: set_members)
        with JObj [of "(k, v)" v] member_delimited [OF assms] show ?thesis by (simp add: snds.intros)
      qed
      show "join '','' (members st fs) @ CHR ''}'' # x = join '','' (members st gs) @ CHR ''}'' # y"
      proof -
        have "canonicalJson st (JObj fs) @ x = canonicalJson st (JObj gs) @ y" using u(4) w gs by (simp del: canonicalJson.simps)
        then show ?thesis unfolding canonical_object by simp
      qed
    qed (use T member_start [OF assms] in auto)
    moreover have "u = canonicalJson st (JObj gs)" using w gs by simp
    ultimately show "canonicalJson st (JObj fs) = u \<and> x = y" by (simp only: canonical_object)
  qed
qed (auto intro!: plain_delimited [OF assms] simp del: canonicalJson.simps)

text \<open>What an object holds under a key can be read off its text.\<close>

lemma member_inj:
  assumes "json_texts st" "quote st k @ '':'' @ t = quote st l @ '':'' @ u"
  shows "k = l \<and> t = u"
proof -
  have "json_strings st" using assms(1) by (simp add: json_texts_def)
  with assms(2) have "k = l \<and> '':'' @ t = '':'' @ u" by (intro json_strings_end)
  then show ?thesis by simp
qed

lemma object_members:
  assumes "json_texts st" "canonicalJson st (JObj fs) = canonicalJson st (JObj gs)"
  shows "members st fs = members st gs"
proof -
  have T: "set (members st hs) \<subseteq> member_texts st" for hs by (auto simp: set_members member_texts_def)
  have "members st fs = members st gs \<and> ([] :: string) = []"
  proof (rule joined_delimited [where T = "member_texts st" and z = "CHR ''}''"])
    show "delimited (member_texts st) t" if "t \<in> set (members st fs)" for t
    proof -
      from that obtain k v where "t = quote st k @ '':'' @ canonicalJson st v" by (auto simp: set_members)
      with member_delimited [OF assms(1) value_delimited [OF assms(1)]] show ?thesis by simp
    qed
    show "join '','' (members st fs) @ CHR ''}'' # [] = join '','' (members st gs) @ CHR ''}'' # []"
      using assms(2) unfolding canonical_object by simp
  qed (use T member_start [OF assms(1)] in auto)
  then show ?thesis by blast
qed

lemma object_field_text:
  assumes "json_texts st" "canonicalJson st (JObj fs) = canonicalJson st (JObj gs)" "distinct (map fst gs)"
    and "(k, v) \<in> set fs" "(k, w) \<in> set gs"
  shows "canonicalJson st v = canonicalJson st w"
proof -
  have "quote st k @ '':'' @ canonicalJson st v \<in> set (members st gs)"
    using assms(4) object_members [OF assms(1,2)] by (auto simp: set_members simp flip: object_members [OF assms(1,2)])
  then obtain l u where l: "(l, u) \<in> set gs" "quote st k @ '':'' @ canonicalJson st v = quote st l @ '':'' @ canonicalJson st u"
    unfolding set_members by (elim imageE) (auto simp: split_beta)
  with member_inj [OF assms(1)] have "k = l" "canonicalJson st v = canonicalJson st u" by blast+
  with l(1) assms(3,5) show ?thesis by (metis eq_key_imp_eq_value)
qed

lemma string_text: "json_texts st \<Longrightarrow> canonicalJson st (JStr s) = canonicalJson st (JStr t) \<Longrightarrow> s = t"
  using json_strings_end [of st s "[]" t "[]"] by (simp add: json_texts_def)

end
