(* ===== verification/Mcp_Policy.thy ===== *)
theory Mcp_Policy
  imports Oidc_Config Mcp_Guardrails Canonical_Json
begin

text \<open>
  Tool policy of the MCP proxy (\<open>gateway/src/mcp/policy.ts\<close>, \<open>groupPolicy.ts\<close>): the lists, pins and header
  annotations of a server's tools, applied to \<open>tools/list\<close> results and \<open>tools/call\<close> requests. The two
  process-wide tables (changed definitions, annotations) are the state.

  \<open>sanitizeText\<close> is modelled on 16-bit code units in \<open>Mcp_Sanitize\<close>; here it is a parameter (\<open>san\<close>), since
  the text of a tool is not inspected otherwise. The SHA-256 digest, \<open>JSON.stringify\<close> of a value that is
  not an object or array, and the decoding of a base64 header value are parameters.
\<close>

subsection \<open>Data\<close>

datatype list_mode = Allow_list | Deny_list
datatype change_action = Block_change | Flag_change

record mcp_server =
  sv_id :: string
  sv_url :: string
  sv_authHeader :: "(string \<times> string) option"
  sv_mode :: list_mode
  sv_names :: "string set"
  sv_denyLower :: "string set"
  sv_pinnedTools :: "(string, string) jmap"
  sv_onDescriptionChange :: change_action
  sv_inputGuardrails :: "hook_object list"
  sv_outputGuardrails :: "hook_object list"
  sv_timeoutMs :: nat
  sv_maxRequestBytes :: nat
  sv_maxResponseBytes :: nat
  sv_maxDescriptionLength :: nat
  sv_owner :: "string option"

record param_header =
  ph_name :: string
  ph_path :: "string list"

datatype annotation = Invalid_annotation | Annotated "param_header list"

record mcp_state =
  ms_drifted :: "string \<Rightarrow> string set"
  ms_headers :: "string \<Rightarrow> (string, annotation) jmap"

definition mcp_init :: mcp_state where
  "mcp_init = \<lparr>ms_drifted = (\<lambda>_. {}), ms_headers = (\<lambda>_. [])\<rparr>"

subsection \<open>Definition hashes\<close>

definition toolDefinitionHash :: "(json \<Rightarrow> string) \<Rightarrow> (string \<Rightarrow> string) \<Rightarrow> json \<Rightarrow> string" where
  "toolDefinitionHash stringify sha256 tool =
    sha256 (canonicalJson stringify (case tool of JObj fs \<Rightarrow> JObj (jm_del ''_meta'' fs) | _ \<Rightarrow> JObj []))"

text \<open>Equal definitions hash equally, in whatever order their fields were sent.\<close>

lemma toolDefinitionHash_order:
  assumes "mset fs = mset gs" "distinct (map fst fs)"
  shows "toolDefinitionHash stringify sha (JObj fs) = toolDefinitionHash stringify sha (JObj gs)"
proof -
  have "mset (jm_del ''_meta'' fs) = mset (jm_del ''_meta'' gs)"
    using assms(1) by (simp add: jm_del_def)
  moreover have "distinct (map fst (jm_del ''_meta'' fs))"
    using jm_wf_del [of fs "''_meta''"] assms(2) by (simp add: jm_wf_def)
  ultimately show ?thesis using canonicalJson_order by (simp add: toolDefinitionHash_def)
qed

subsection \<open>Header annotations\<close>

definition token_char_ok :: "char \<Rightarrow> bool" where
  "token_char_ok c \<longleftrightarrow> is_alnum c \<or> c \<in> set ''!#$%&*+.^_|~-'' \<or> c = CHR 0x27 \<or> c = CHR 0x60"

text \<open>\<open>/^[A-Za-z0-9!#$%&'*+.^_`|~-]{1,64}$/\<close>\<close>

definition TOKEN_NAME :: "string \<Rightarrow> bool" where
  "TOKEN_NAME s \<longleftrightarrow> 1 \<le> length s \<and> length s \<le> 64 \<and> list_all token_char_ok s"

definition HEADER_TYPES :: "string list" where
  "HEADER_TYPES = [''string'', ''integer'', ''boolean'']"

definition DATA_KEYWORDS :: "string list" where
  "DATA_KEYWORDS = [''const'', ''default'', ''enum'', ''examples'', ''example'']"

definition MAX_PARAM_HEADERS :: nat where "MAX_PARAM_HEADERS = 64"

text \<open>\<open>visit\<close>: \<open>None\<close> once an annotation broke a rule. The first argument is the depth left (65 at the root),
  and the names seen are those of the annotations found.\<close>

fun visit_each :: "('a \<Rightarrow> 'f \<Rightarrow> 'f option) \<Rightarrow> 'a list \<Rightarrow> 'f \<Rightarrow> 'f option" where
  "visit_each g [] found = Some found"
| "visit_each g (x # xs) found = (case g x found of None \<Rightarrow> None | Some found' \<Rightarrow> visit_each g xs found')"

definition annotate :: "(string \<times> json) list \<Rightarrow> string list \<Rightarrow> bool \<Rightarrow> param_header list \<Rightarrow> param_header list option" where
  "annotate node path reachable found =
    (case map_of node ''x-mcp-header'' of None \<Rightarrow> Some found
     | Some v \<Rightarrow>
        (case json_text (Some v) of None \<Rightarrow> None
         | Some name \<Rightarrow>
            if \<not> reachable \<or> path = [] \<or> \<not> TOKEN_NAME name \<or> to_lower name \<in> set (map ph_name found) \<or>
               (case json_text (map_of node ''type'') of None \<Rightarrow> True | Some t \<Rightarrow> t \<notin> set HEADER_TYPES) \<or>
               MAX_PARAM_HEADERS \<le> length found
            then None else Some (found @ [\<lparr>ph_name = to_lower name, ph_path = path\<rparr>])))"

primrec visit :: "nat \<Rightarrow> json \<Rightarrow> string list \<Rightarrow> bool \<Rightarrow> param_header list \<Rightarrow> param_header list option" where
  "visit 0 = (\<lambda>node path reachable found. None)"
| "visit (Suc d) = (\<lambda>node path reachable found.
    case node of
      JArr items \<Rightarrow> visit_each (\<lambda>item. visit d item path False) items found
    | JObj fs \<Rightarrow>
       (case annotate fs path reachable found of None \<Rightarrow> None
        | Some found' \<Rightarrow>
           visit_each (\<lambda>(k, v). if k = ''x-mcp-header'' \<or> k \<in> set DATA_KEYWORDS then Some
             else (case v of
                     JObj props \<Rightarrow>
                       if k = ''properties'' then visit_each (\<lambda>(p, sub). visit d sub (path @ [p]) reachable) props
                       else visit d v path False
                   | _ \<Rightarrow> visit d v path False)) fs found')
    | _ \<Rightarrow> Some found)"

definition paramHeadersOf :: "json option \<Rightarrow> annotation" where
  "paramHeadersOf schema =
    (case schema of None \<Rightarrow> Annotated []
     | Some s \<Rightarrow> (case visit 65 s [] True [] of None \<Rightarrow> Invalid_annotation | Some found \<Rightarrow> Annotated found))"

subsection \<open>Lists and pins\<close>

definition toolAllowedByList :: "mcp_server \<Rightarrow> string \<Rightarrow> bool" where
  "toolAllowedByList server name \<longleftrightarrow>
    (if sv_mode server = Allow_list then name \<in> sv_names server else to_lower name \<notin> sv_denyLower server)"

abbreviation isValidToolName :: "string \<Rightarrow> bool" where
  "isValidToolName \<equiv> MCP_TOOL_NAME_RE"

datatype tool_refusal = Refused_name | Refused_policy | Refused_pin | Refused_header

definition toolCallDecision :: "mcp_state \<Rightarrow> mcp_server \<Rightarrow> json option \<Rightarrow> tool_refusal option" where
  "toolCallDecision st server nm =
    (case json_text nm of None \<Rightarrow> Some Refused_name
     | Some name \<Rightarrow>
        if \<not> isValidToolName name then Some Refused_name
        else if \<not> toolAllowedByList server name then Some Refused_policy
        else if sv_onDescriptionChange server = Block_change \<and> name \<in> ms_drifted st (sv_id server) then Some Refused_pin
        else if jm_get (ms_headers st (sv_id server)) name = Some Invalid_annotation then Some Refused_header
        else None)"

datatype filter_reason = By_name | By_policy | By_pin | By_duplicate | By_header | By_group

record list_state =
  ls_seen :: "string list"
  ls_kept :: "json list"
  ls_removed :: "(string \<times> filter_reason \<times> string option) list"
  ls_flagged :: "(string \<times> string) list"
  ls_drift :: "string set"
  ls_headers :: "(string, annotation) jmap"

primrec sanitizeSchema :: "nat \<Rightarrow> (string \<Rightarrow> string) \<Rightarrow> json \<Rightarrow> json" where
  "sanitizeSchema 0 = (\<lambda>san value. value)"
| "sanitizeSchema (Suc d) = (\<lambda>san value. case value of
      JArr vs \<Rightarrow> JArr (map (sanitizeSchema d san) vs)
    | JObj fs \<Rightarrow> JObj (map (\<lambda>(k, v). (k, case v of
          JStr s \<Rightarrow> if k = ''description'' \<or> k = ''title'' then JStr (san s) else sanitizeSchema d san v
        | _ \<Rightarrow> sanitizeSchema d san v)) fs)
    | _ \<Rightarrow> value)"

definition MAX_TITLE_LENGTH :: nat where "MAX_TITLE_LENGTH = 256"

definition clean_text :: "string \<Rightarrow> (string \<Rightarrow> string) \<Rightarrow> (string \<times> json) list \<Rightarrow> (string \<times> json) list" where
  "clean_text key san fs = (case map_of fs key of Some (JStr s) \<Rightarrow> jm_set key (JStr (san s)) fs | _ \<Rightarrow> jm_del key fs)"

definition clean_schema :: "string \<Rightarrow> (string \<Rightarrow> string) \<Rightarrow> (string \<times> json) list \<Rightarrow> (string \<times> json) list" where
  "clean_schema key san fs =
    (case map_of fs key of None \<Rightarrow> fs | Some v \<Rightarrow> jm_set key (sanitizeSchema 65 san v) fs)"

text \<open>\<open>san text max\<close> is \<open>sanitizeText\<close>.\<close>

definition clean_tool :: "(string \<Rightarrow> nat \<Rightarrow> string) \<Rightarrow> nat \<Rightarrow> (string \<times> json) list \<Rightarrow> json" where
  "clean_tool san max_len fs =
    JObj (clean_schema ''outputSchema'' (\<lambda>s. san s max_len) (clean_schema ''inputSchema'' (\<lambda>s. san s max_len)
      (clean_text ''title'' (\<lambda>s. san s MAX_TITLE_LENGTH) (clean_text ''description'' (\<lambda>s. san s max_len) fs))))"

text \<open>One tool: its name, the pin and the annotations; \<open>hash\<close> is \<open>toolDefinitionHash\<close>.\<close>

definition removed :: "string \<Rightarrow> filter_reason \<Rightarrow> string option \<Rightarrow> list_state \<Rightarrow> list_state" where
  "removed name reason h ls = ls\<lparr>ls_removed := ls_removed ls @ [(name, reason, h)]\<rparr>"

definition pin_of :: "mcp_server \<Rightarrow> string \<Rightarrow> string option" where
  "pin_of server name = (case jm_get (sv_pinnedTools server) name of None \<Rightarrow> None
     | Some pin \<Rightarrow> if pin = [] then None else Some pin)"

text \<open>The pin, giving whether the tool goes on.\<close>

definition check_pin :: "mcp_server \<Rightarrow> (json \<Rightarrow> string) \<Rightarrow> string \<Rightarrow> json \<Rightarrow> list_state \<Rightarrow> bool \<times> list_state" where
  "check_pin server hash name tool ls =
    (case pin_of server name of None \<Rightarrow> (True, ls)
     | Some pin \<Rightarrow>
        if hash tool = pin then (True, ls\<lparr>ls_drift := ls_drift ls - {name}\<rparr>)
        else let ls1 = ls\<lparr>ls_drift := insert name (ls_drift ls)\<rparr>
             in if sv_onDescriptionChange server = Block_change then (False, removed name By_pin (Some (hash tool)) ls1)
                else (True, ls1\<lparr>ls_flagged := ls_flagged ls1 @ [(name, hash tool)]\<rparr>))"

definition keep_tool ::
  "mcp_server \<Rightarrow> (string \<Rightarrow> nat \<Rightarrow> string) \<Rightarrow> (string \<Rightarrow> bool) \<Rightarrow> string \<Rightarrow> (string \<times> json) list \<Rightarrow> list_state \<Rightarrow> list_state" where
  "keep_tool server san groupAllows name fs ls =
    (case paramHeadersOf (map_of fs ''inputSchema'') of
       Invalid_annotation \<Rightarrow> removed name By_header None (ls\<lparr>ls_headers := jm_set name Invalid_annotation (ls_headers ls)\<rparr>)
     | Annotated hs \<Rightarrow>
        (let ls1 = ls\<lparr>ls_headers := (if hs \<noteq> [] then jm_set name (Annotated hs) (ls_headers ls) else jm_del name (ls_headers ls))\<rparr>
         in if \<not> groupAllows name then removed name By_group None ls1
            else ls1\<lparr>ls_kept := ls_kept ls1 @ [clean_tool san (sv_maxDescriptionLength server) fs]\<rparr>))"

definition filter_tool ::
  "mcp_server \<Rightarrow> (json \<Rightarrow> string) \<Rightarrow> (string \<Rightarrow> nat \<Rightarrow> string) \<Rightarrow> (string \<Rightarrow> bool) \<Rightarrow> json \<Rightarrow> list_state \<Rightarrow> list_state" where
  "filter_tool server hash san groupAllows tool ls =
    (case (tool, json_text (prop_of (Some tool) ''name'')) of
       (JObj fs, Some name) \<Rightarrow>
         if \<not> isValidToolName name then removed ''<invalid tool name>'' By_name None ls
         else if name \<in> set (ls_seen ls) then removed name By_duplicate None ls
         else let ls1 = ls\<lparr>ls_seen := name # ls_seen ls\<rparr> in
           if \<not> toolAllowedByList server name then removed name By_policy None ls1
           else let (go_on, ls2) = check_pin server hash name tool ls1
                in if go_on then keep_tool server san groupAllows name fs ls2 else ls2
     | _ \<Rightarrow> removed ''<invalid tool name>'' By_name None ls)"

record filtered_list =
  fl_result :: json
  fl_removed :: "(string \<times> filter_reason \<times> string option) list"
  fl_flagged :: "(string \<times> string) list"

text \<open>\<open>{...result, tools}\<close>\<close>

fun with_tools :: "json option \<Rightarrow> json list \<Rightarrow> json" where
  "with_tools (Some (JObj fs)) tools = JObj (jm_set ''tools'' (JArr tools) fs)"
| "with_tools (Some (JArr vs)) tools = JObj (map (\<lambda>i. (digits_of i, vs ! i)) [0..<length vs] @ [(''tools'', JArr tools)])"
| "with_tools _ tools = JObj [(''tools'', JArr tools)]"

definition tools_of :: "json option \<Rightarrow> json list option" where
  "tools_of r = (case prop_of r ''tools'' of Some (JArr ts) \<Rightarrow> Some ts | _ \<Rightarrow> None)"

definition filter_start :: "mcp_state \<Rightarrow> mcp_server \<Rightarrow> list_state" where
  "filter_start st server = \<lparr>ls_seen = [], ls_kept = [], ls_removed = [], ls_flagged = [],
     ls_drift = ms_drifted st (sv_id server), ls_headers = ms_headers st (sv_id server)\<rparr>"

definition filterToolsList ::
  "mcp_server \<Rightarrow> (json \<Rightarrow> string) \<Rightarrow> (string \<Rightarrow> nat \<Rightarrow> string) \<Rightarrow> (string \<Rightarrow> bool) \<Rightarrow> json option \<Rightarrow> mcp_state
   \<Rightarrow> filtered_list \<times> mcp_state" where
  "filterToolsList server hash san groupAllows result st =
    (case tools_of result of
       None \<Rightarrow> (\<lparr>fl_result = with_tools result [], fl_removed = [], fl_flagged = []\<rparr>, st)
     | Some tools \<Rightarrow>
        (let ls = fold (filter_tool server hash san groupAllows) tools (filter_start st server)
         in (\<lparr>fl_result = with_tools result (ls_kept ls), fl_removed = ls_removed ls, fl_flagged = ls_flagged ls\<rparr>,
             st\<lparr>ms_drifted := (ms_drifted st)(sv_id server := ls_drift ls),
                ms_headers := (ms_headers st)(sv_id server := ls_headers ls)\<rparr>)))"

subsection \<open>Group rules\<close>

text \<open>Deny wins; a group without a rule keeps the server's policy alone.\<close>

definition groupToolAllowed :: "mcp_tool_rule option \<Rightarrow> string \<Rightarrow> bool" where
  "groupToolAllowed rule name \<longleftrightarrow>
    (case rule of None \<Rightarrow> True
     | Some r \<Rightarrow>
        if (case mr_denyLower r of None \<Rightarrow> False | Some ns \<Rightarrow> to_lower name \<in> ns) then False
        else (case mr_allow r of None \<Rightarrow> True | Some ns \<Rightarrow> name \<in> ns))"

text \<open>\<open>None\<close>: no group policy applies; \<open>Some None\<close>: the group may not use the server.\<close>

definition groupServerAccess :: "policy_group option \<Rightarrow> string \<Rightarrow> mcp_tool_rule option option" where
  "groupServerAccess og serverId =
    (case og of None \<Rightarrow> None
     | Some g \<Rightarrow> (case pg_mcp g of None \<Rightarrow> None | Some m \<Rightarrow> Some (jm_get (mg_servers m) serverId)))"

subsection \<open>What one listing does to a tool\<close>

abbreviation tool_name :: "json \<Rightarrow> string option" where
  "tool_name tool \<equiv> json_text (prop_of (Some tool) ''name'')"

lemma tool_name_obj: "tool_name tool = Some name \<Longrightarrow> \<exists>fs. tool = JObj fs"
  by (cases tool) auto

lemma removed_simps [simp]:
  "ls_drift (removed n r h ls) = ls_drift ls" "ls_seen (removed n r h ls) = ls_seen ls"
  "ls_kept (removed n r h ls) = ls_kept ls" "ls_headers (removed n r h ls) = ls_headers ls"
  by (simp_all add: removed_def)

lemma keep_tool_frame [simp]:
  "ls_drift (keep_tool server san ga name fs ls) = ls_drift ls"
  "ls_seen (keep_tool server san ga name fs ls) = ls_seen ls"
  by (simp_all add: keep_tool_def Let_def split: annotation.splits)

lemma check_pin_frame:
  assumes "check_pin server hash name tool ls = (go_on, ls')"
  shows "ls_seen ls' = ls_seen ls" "ls_kept ls' = ls_kept ls" "ls_headers ls' = ls_headers ls"
  using assms by (auto simp: check_pin_def Let_def split: option.splits if_splits)

lemma check_pin_drift:
  assumes "check_pin server hash name tool ls = (go_on, ls')"
  shows "n \<noteq> name \<Longrightarrow> n \<in> ls_drift ls' \<longleftrightarrow> n \<in> ls_drift ls"
    and "pin_of server name = Some pin \<Longrightarrow> name \<in> ls_drift ls' \<longleftrightarrow> hash tool \<noteq> pin"
    and "pin_of server name = None \<Longrightarrow> ls_drift ls' = ls_drift ls"
    and "go_on \<longleftrightarrow> (\<forall>pin. pin_of server name = Some pin \<and> sv_onDescriptionChange server = Block_change \<longrightarrow> hash tool = pin)"
  using assms by (auto simp: check_pin_def Let_def split: option.splits if_splits)

lemma filter_tool_cases:
  obtains (skipped) n r where "filter_tool server hash san ga tool ls = removed n r None ls"
      "\<And>name. tool_name tool = Some name \<Longrightarrow> isValidToolName name \<Longrightarrow> name \<in> set (ls_seen ls)"
  | (refused) name where "tool_name tool = Some name" "isValidToolName name" "name \<notin> set (ls_seen ls)"
      "\<not> toolAllowedByList server name"
      "filter_tool server hash san ga tool ls = removed name By_policy None (ls\<lparr>ls_seen := name # ls_seen ls\<rparr>)"
  | (pinned) name fs ls2 where "tool = JObj fs" "tool_name tool = Some name" "isValidToolName name" "name \<notin> set (ls_seen ls)"
      "toolAllowedByList server name" "check_pin server hash name tool (ls\<lparr>ls_seen := name # ls_seen ls\<rparr>) = (False, ls2)"
      "filter_tool server hash san ga tool ls = ls2"
  | (kept) name fs ls2 where "tool = JObj fs" "tool_name tool = Some name" "isValidToolName name" "name \<notin> set (ls_seen ls)"
      "toolAllowedByList server name" "check_pin server hash name tool (ls\<lparr>ls_seen := name # ls_seen ls\<rparr>) = (True, ls2)"
      "filter_tool server hash san ga tool ls = keep_tool server san ga name fs ls2"
proof (cases "tool_name tool")
  case None
  then have "filter_tool server hash san ga tool ls = removed ''<invalid tool name>'' By_name None ls"
    by (simp add: filter_tool_def split: json.splits)
  with None skipped show ?thesis by simp
next
  case (Some name)
  with tool_name_obj obtain fs where fs: "tool = JObj fs" by blast
  obtain go_on ls2 where p: "check_pin server hash name tool (ls\<lparr>ls_seen := name # ls_seen ls\<rparr>) = (go_on, ls2)"
    by force
  consider "\<not> isValidToolName name" | "isValidToolName name" "name \<in> set (ls_seen ls)"
    | "isValidToolName name" "name \<notin> set (ls_seen ls)" "\<not> toolAllowedByList server name"
    | "isValidToolName name" "name \<notin> set (ls_seen ls)" "toolAllowedByList server name" by blast
  then show ?thesis
  proof cases
    case 1
    with fs Some skipped show ?thesis by (simp add: filter_tool_def)
  next
    case 2
    with fs Some skipped show ?thesis by (simp add: filter_tool_def)
  next
    case 3
    with fs Some refused show ?thesis by (simp add: filter_tool_def)
  next
    case 4
    have "filter_tool server hash san ga tool ls = (if go_on then keep_tool server san ga name fs ls2 else ls2)"
      using 4 fs Some p by (simp add: filter_tool_def Let_def)
    with 4 fs Some p pinned kept show ?thesis by (cases go_on) simp_all
  qed
qed

lemma filter_tool_seen:
  "set (ls_seen (filter_tool server hash san ga tool ls)) =
   set (ls_seen ls) \<union> {n. tool_name tool = Some n \<and> isValidToolName n}"
proof (cases rule: filter_tool_cases [where server = server and hash = hash and san = san and ga = ga and tool = tool and ls = ls])
  case (pinned name fs ls2)
  with check_pin_frame(1) [OF pinned(6)] show ?thesis by auto
next
  case (kept name fs ls2)
  with check_pin_frame(1) [OF kept(6)] show ?thesis by auto
qed auto

lemma filter_tool_drift:
  assumes "isValidToolName n" "toolAllowedByList server n" "pin_of server n = Some pin"
  shows "n \<in> ls_drift (filter_tool server hash san ga tool ls) \<longleftrightarrow>
    (if tool_name tool = Some n \<and> n \<notin> set (ls_seen ls) then hash tool \<noteq> pin else n \<in> ls_drift ls)"
proof (cases rule: filter_tool_cases [where server = server and hash = hash and san = san and ga = ga and tool = tool and ls = ls])
  case (pinned name fs ls2)
  with check_pin_drift(1) [OF pinned(6), of n] check_pin_drift(2) [OF pinned(6), of pin] assms show ?thesis by auto
next
  case (kept name fs ls2)
  with check_pin_drift(1) [OF kept(6), of n] check_pin_drift(2) [OF kept(6), of pin] assms show ?thesis by auto
qed (use assms in auto)

definition shown_in :: "json list \<Rightarrow> string \<Rightarrow> json option" where
  "shown_in tools name = List.find (\<lambda>t. tool_name t = Some name) tools"

lemma filter_fold_drift:
  assumes "isValidToolName n" "toolAllowedByList server n" "pin_of server n = Some pin"
  shows "n \<in> ls_drift (fold (filter_tool server hash san ga) tools ls) \<longleftrightarrow>
    (if n \<in> set (ls_seen ls) then n \<in> ls_drift ls
     else case shown_in tools n of None \<Rightarrow> n \<in> ls_drift ls | Some d \<Rightarrow> hash d \<noteq> pin)"
proof (induction tools arbitrary: ls)
  case (Cons tool tools)
  show ?case
    using Cons.IH [of "filter_tool server hash san ga tool ls"] filter_tool_drift [OF assms] filter_tool_seen assms(1)
    by (auto simp: shown_in_def split: option.splits)
qed (simp add: shown_in_def)

lemma clean_text_other: "k \<noteq> key \<Longrightarrow> jm_get (clean_text key san fs) k = jm_get fs k"
  by (simp add: clean_text_def split: option.split json.split)

lemma clean_schema_other: "k \<noteq> key \<Longrightarrow> jm_get (clean_schema key san fs) k = jm_get fs k"
  by (simp add: clean_schema_def split: option.split)

lemma clean_tool_name [simp]: "tool_name (clean_tool san m fs) = tool_name (JObj fs)"
  by (simp add: clean_tool_def clean_schema_other clean_text_other)

text \<open>What holds of the tools kept so far.\<close>

definition unpinned_clear :: "mcp_server \<Rightarrow> string set \<Rightarrow> bool" where
  "unpinned_clear server drift \<longleftrightarrow> (\<forall>n. pin_of server n = None \<longrightarrow> n \<notin> drift)"

definition kept_ok ::
  "mcp_server \<Rightarrow> (json \<Rightarrow> string) \<Rightarrow> (string \<Rightarrow> nat \<Rightarrow> string) \<Rightarrow> (string \<Rightarrow> bool) \<Rightarrow> json list \<Rightarrow> list_state \<Rightarrow> json \<Rightarrow> bool" where
  "kept_ok server hash san ga raw ls t \<longleftrightarrow>
    (\<exists>n fs. tool_name t = Some n \<and> n \<in> set (ls_seen ls) \<and> isValidToolName n \<and> toolAllowedByList server n \<and> ga n \<and>
       JObj fs \<in> set raw \<and> t = clean_tool san (sv_maxDescriptionLength server) fs \<and>
       jm_get (ls_headers ls) n \<noteq> Some Invalid_annotation \<and>
       (sv_onDescriptionChange server = Block_change \<longrightarrow> n \<notin> ls_drift ls \<and> (\<forall>pin. pin_of server n = Some pin \<longrightarrow> hash (JObj fs) = pin)))"

definition listing_ok ::
  "mcp_server \<Rightarrow> (json \<Rightarrow> string) \<Rightarrow> (string \<Rightarrow> nat \<Rightarrow> string) \<Rightarrow> (string \<Rightarrow> bool) \<Rightarrow> json list \<Rightarrow> list_state \<Rightarrow> bool" where
  "listing_ok server hash san ga raw ls \<longleftrightarrow>
    unpinned_clear server (ls_drift ls) \<and> distinct (map tool_name (ls_kept ls)) \<and>
    (\<forall>t \<in> set (ls_kept ls). kept_ok server hash san ga raw ls t)"

lemma keep_tool_headers:
  "n \<noteq> name \<Longrightarrow> jm_get (ls_headers (keep_tool server san ga name fs ls)) n = jm_get (ls_headers ls) n"
  by (simp add: keep_tool_def Let_def split: annotation.split)

lemma keep_tool_kept:
  "ls_kept (keep_tool server san ga name fs ls) = ls_kept ls \<or>
   ga name \<and> ls_kept (keep_tool server san ga name fs ls) = ls_kept ls @ [clean_tool san (sv_maxDescriptionLength server) fs] \<and>
   jm_get (ls_headers (keep_tool server san ga name fs ls)) name \<noteq> Some Invalid_annotation"
  by (simp add: keep_tool_def Let_def split: annotation.split)

lemma check_pin_clear:
  assumes "check_pin server hash name tool ls = (go_on, ls')" "unpinned_clear server (ls_drift ls)"
  shows "unpinned_clear server (ls_drift ls')"
  using assms by (auto simp: check_pin_def unpinned_clear_def Let_def split: option.splits if_splits)

lemma kept_ok_frame:
  assumes "kept_ok server hash san ga raw ls t" "set (ls_seen ls) \<subseteq> set (ls_seen ls')"
    and "\<And>n. n \<in> set (ls_seen ls) \<Longrightarrow> (n \<in> ls_drift ls' \<longleftrightarrow> n \<in> ls_drift ls) \<and> jm_get (ls_headers ls') n = jm_get (ls_headers ls) n"
  shows "kept_ok server hash san ga raw ls' t"
proof -
  from assms(1) obtain n fs where n: "tool_name t = Some n" "n \<in> set (ls_seen ls)" "isValidToolName n"
      "toolAllowedByList server n" "ga n" "JObj fs \<in> set raw" "t = clean_tool san (sv_maxDescriptionLength server) fs"
      "jm_get (ls_headers ls) n \<noteq> Some Invalid_annotation"
      "sv_onDescriptionChange server = Block_change \<longrightarrow>
        n \<notin> ls_drift ls \<and> (\<forall>pin. pin_of server n = Some pin \<longrightarrow> hash (JObj fs) = pin)"
    unfolding kept_ok_def by blast
  with assms(2) assms(3) [OF n(2)] show ?thesis
    unfolding kept_ok_def by (intro exI [of _ n] exI [of _ fs]) auto
qed

lemma listing_ok_step:
  assumes ok: "listing_ok server hash san ga raw ls" and raw: "tool \<in> set raw"
  shows "listing_ok server hash san ga raw (filter_tool server hash san ga tool ls)"
proof (cases rule: filter_tool_cases [where server = server and hash = hash and san = san and ga = ga and tool = tool and ls = ls])
  case (skipped n r)
  have "kept_ok server hash san ga raw (removed n r None ls) t" if "t \<in> set (ls_kept ls)" for t
    by (rule kept_ok_frame [of _ _ _ _ _ ls]) (use ok that in \<open>auto simp: listing_ok_def\<close>)
  with ok show ?thesis unfolding skipped(1) by (simp add: listing_ok_def)
next
  case (refused name)
  have "kept_ok server hash san ga raw (removed name By_policy None (ls\<lparr>ls_seen := name # ls_seen ls\<rparr>)) t"
    if "t \<in> set (ls_kept ls)" for t
    by (rule kept_ok_frame [of _ _ _ _ _ ls]) (use ok that in \<open>auto simp: listing_ok_def\<close>)
  with ok show ?thesis unfolding refused(5) by (simp add: listing_ok_def)
next
  case (pinned name fs ls2)
  note fr = check_pin_frame [OF pinned(6)] and dr = check_pin_drift [OF pinned(6)]
  have ne: "n \<noteq> name" if "n \<in> set (ls_seen ls)" for n using that pinned(4) by auto
  have "unpinned_clear server (ls_drift ls2)"
    using check_pin_clear [OF pinned(6)] ok by (simp add: listing_ok_def)
  moreover have "kept_ok server hash san ga raw ls2 t" if "t \<in> set (ls_kept ls)" for t
  proof (rule kept_ok_frame)
    show "kept_ok server hash san ga raw ls t" using ok that by (simp add: listing_ok_def)
  qed (use fr dr(1) [OF ne] in auto)
  ultimately show ?thesis using ok fr by (simp add: listing_ok_def pinned(7))
next
  case (kept name fs ls2)
  note fr = check_pin_frame [OF kept(6)] and dr = check_pin_drift [OF kept(6)]
  have ne: "n \<noteq> name" if "n \<in> set (ls_seen ls)" for n using that kept(4) by auto
  let ?ls' = "keep_tool server san ga name fs ls2"
  have clear: "unpinned_clear server (ls_drift ?ls')"
    using check_pin_clear [OF kept(6)] ok by (simp add: listing_ok_def)
  have old: "kept_ok server hash san ga raw ?ls' t" if "t \<in> set (ls_kept ls)" for t
  proof (rule kept_ok_frame)
    show "kept_ok server hash san ga raw ls t" using ok that by (simp add: listing_ok_def)
  qed (use fr dr(1) [OF ne] ne in \<open>auto simp: keep_tool_headers\<close>)
  have new: "kept_ok server hash san ga raw ?ls' (clean_tool san (sv_maxDescriptionLength server) fs)"
    if "ga name" "jm_get (ls_headers ?ls') name \<noteq> Some Invalid_annotation"
  proof -
    have "sv_onDescriptionChange server = Block_change \<longrightarrow>
        name \<notin> ls_drift ?ls' \<and> (\<forall>pin. pin_of server name = Some pin \<longrightarrow> hash (JObj fs) = pin)"
      using clear dr(2,4) kept(1) by (cases "pin_of server name") (auto simp: unpinned_clear_def)
    moreover have "tool_name (JObj fs) = Some name" using kept(1,2) by simp
    ultimately show ?thesis
      unfolding kept_ok_def clean_tool_name using that kept(1,3,5) raw fr(1) by auto
  qed
  have "tool_name t \<noteq> Some name" if "t \<in> set (ls_kept ls)" for t
    using ok that kept(4) by (auto simp: listing_ok_def kept_ok_def)
  then have "Some name \<notin> tool_name ` set (ls_kept ls)" by force
  moreover have "tool_name (JObj fs) = Some name" using kept(1,2) by simp
  ultimately show ?thesis
    using keep_tool_kept [of server san ga name fs ls2] ok clear old new fr
    unfolding kept(7) listing_ok_def by auto
qed

lemma listing_ok_fold:
  assumes "listing_ok server hash san ga raw ls" "set tools \<subseteq> set raw"
  shows "listing_ok server hash san ga raw (fold (filter_tool server hash san ga) tools ls)"
  using assms by (induction tools arbitrary: ls) (auto intro: listing_ok_step)

lemma digits_of_not_tools: "digits_of i \<noteq> ''tools''" "''tools'' \<noteq> digits_of i"
proof -
  have "\<not> list_all is_digit ''tools''" by code_simp
  with digits_of_digits [of i] show "digits_of i \<noteq> ''tools''" "''tools'' \<noteq> digits_of i" by metis+
qed

lemma tools_of_with_tools [simp]: "tools_of (Some (with_tools r tools)) = Some tools"
proof -
  have "jm_get (map (\<lambda>i. (digits_of i, vs ! i)) xs @ [(''tools'', v)]) ''tools'' = Some v" for vs xs and v :: json
    by (induction xs) (auto simp: digits_of_not_tools)
  then show ?thesis by (cases "(r, tools)" rule: with_tools.cases) (simp_all add: tools_of_def)
qed

text \<open>A drift set holds pinned tools only; listings keep it so.\<close>

abbreviation drift_clear :: "mcp_server \<Rightarrow> mcp_state \<Rightarrow> bool" where
  "drift_clear server st \<equiv> unpinned_clear server (ms_drifted st (sv_id server))"

lemma filtered_listing_ok:
  assumes "drift_clear server st" "filterToolsList server hash san allows result st = (out, st')" "tools_of result = Some raw"
  obtains ls where "listing_ok server hash san allows raw ls" "fl_result out = with_tools result (ls_kept ls)"
    "ms_drifted st' (sv_id server) = ls_drift ls" "ms_headers st' (sv_id server) = ls_headers ls"
proof -
  have "listing_ok server hash san allows raw (filter_start st server)"
    using assms(1) by (simp add: listing_ok_def filter_start_def)
  from listing_ok_fold [OF this order_refl] assms(2,3) that show ?thesis
    by (auto simp: filterToolsList_def Let_def)
qed

lemma filterToolsList_clear:
  assumes "drift_clear server st" "filterToolsList server hash san allows result st = (out, st')"
  shows "drift_clear server st'"
proof (cases "tools_of result")
  case None
  with assms show ?thesis by (simp add: filterToolsList_def)
next
  case (Some raw)
  from filtered_listing_ok [OF assms Some] show ?thesis by (metis listing_ok_def)
qed

lemma filterToolsList_shown:
  assumes "drift_clear server st" "filterToolsList server hash san allows result st = (out, st')"
    and "tools_of (Some (fl_result out)) = Some shown" "t \<in> set shown"
  shows "\<exists>n fs raw. tool_name t = Some n \<and> tools_of result = Some raw \<and> JObj fs \<in> set raw \<and>
    t = clean_tool san (sv_maxDescriptionLength server) fs \<and> distinct (map tool_name shown) \<and> allows n \<and>
    toolCallDecision st' server (Some (JStr n)) = None \<and>
    (\<forall>pin. pin_of server n = Some pin \<and> sv_onDescriptionChange server = Block_change \<longrightarrow> hash (JObj fs) = pin)"
proof -
  have "tools_of result \<noteq> None"
  proof
    assume "tools_of result = None"
    with assms(2) have "fl_result out = with_tools result []" by (auto simp: filterToolsList_def)
    with assms(3,4) show False by simp
  qed
  then obtain raw where raw: "tools_of result = Some raw" by blast
  obtain ls where ok: "listing_ok server hash san allows raw ls" and out: "fl_result out = with_tools result (ls_kept ls)"
    "ms_drifted st' (sv_id server) = ls_drift ls" "ms_headers st' (sv_id server) = ls_headers ls"
    by (rule filtered_listing_ok [OF assms(1,2) raw])
  have "shown = ls_kept ls" using assms(3) unfolding out(1) by simp
  with ok assms(4) obtain n fs where n: "tool_name t = Some n" "isValidToolName n" "toolAllowedByList server n"
      "allows n" "JObj fs \<in> set raw" "t = clean_tool san (sv_maxDescriptionLength server) fs"
      "jm_get (ls_headers ls) n \<noteq> Some Invalid_annotation" "distinct (map tool_name shown)"
      "sv_onDescriptionChange server = Block_change \<longrightarrow>
        n \<notin> ls_drift ls \<and> (\<forall>pin. pin_of server n = Some pin \<longrightarrow> hash (JObj fs) = pin)"
    by (auto simp: listing_ok_def kept_ok_def)
  with raw out(2,3) show ?thesis
    by (intro exI [of _ n] exI [of _ fs] exI [of _ raw]) (auto simp: toolCallDecision_def)
qed

text \<open>What a listing shows does not depend on what was seen before.\<close>

definition same_output :: "list_state \<Rightarrow> list_state \<Rightarrow> bool" where
  "same_output ls ls' \<longleftrightarrow> ls_seen ls = ls_seen ls' \<and> ls_kept ls = ls_kept ls' \<and> ls_removed ls = ls_removed ls' \<and>
     ls_flagged ls = ls_flagged ls'"

lemma removed_independent: "same_output ls ls' \<Longrightarrow> same_output (removed n r h ls) (removed n r h ls')"
  by (simp add: same_output_def removed_def)

lemma keep_tool_independent:
  "same_output ls ls' \<Longrightarrow> same_output (keep_tool server san ga name fs ls) (keep_tool server san ga name fs ls')"
  by (cases "paramHeadersOf (map_of fs ''inputSchema'')") (simp_all add: keep_tool_def same_output_def removed_def Let_def)

lemma check_pin_independent:
  "same_output ls ls' \<Longrightarrow> fst (check_pin server hash name tool ls) = fst (check_pin server hash name tool ls') \<and>
   same_output (snd (check_pin server hash name tool ls)) (snd (check_pin server hash name tool ls'))"
  by (cases "pin_of server name") (simp_all add: check_pin_def same_output_def removed_def Let_def)

lemma filter_tool_independent:
  assumes "same_output ls ls'"
  shows "same_output (filter_tool server hash san ga tool ls) (filter_tool server hash san ga tool ls')"
proof (cases "tool_name tool")
  case None
  then have "filter_tool server hash san ga tool l = removed ''<invalid tool name>'' By_name None l" for l
    by (simp add: filter_tool_def split: json.splits)
  with assms show ?thesis by (simp add: removed_independent)
next
  case (Some name)
  with tool_name_obj obtain fs where fs: "tool = JObj fs" by blast
  have seen: "ls_seen ls' = ls_seen ls" using assms by (simp add: same_output_def)
  let ?l = "ls\<lparr>ls_seen := name # ls_seen ls\<rparr>" and ?l' = "ls'\<lparr>ls_seen := name # ls_seen ls'\<rparr>"
  have l: "same_output ?l ?l'" using assms by (simp add: same_output_def)
  obtain g ls2 where c: "check_pin server hash name tool ?l = (g, ls2)" by force
  obtain g' ls2' where c': "check_pin server hash name tool ?l' = (g', ls2')" by force
  from check_pin_independent [OF l, of server hash name tool] have "g' = g" "same_output ls2 ls2'"
    unfolding c c' by simp_all
  then show ?thesis
    using Some fs seen c c' assms l
    by (simp add: filter_tool_def Let_def removed_independent keep_tool_independent)
qed

lemma fold_filter_independent:
  "same_output ls ls' \<Longrightarrow>
   same_output (fold (filter_tool server hash san ga) tools ls) (fold (filter_tool server hash san ga) tools ls')"
  by (induction tools arbitrary: ls ls') (simp_all add: filter_tool_independent)

lemma filterToolsList_independent:
  "fst (filterToolsList server hash san ga result st) = fst (filterToolsList server hash san ga result st')"
proof (cases "tools_of result")
  case None
  then show ?thesis by (simp add: filterToolsList_def)
next
  case (Some tools)
  have "same_output (filter_start st server) (filter_start st' server)"
    by (simp add: same_output_def filter_start_def)
  from fold_filter_independent [OF this, of server hash san ga tools] Some show ?thesis
    by (simp add: filterToolsList_def same_output_def Let_def)
qed

subsection \<open>Histories of listings\<close>

text \<open>The listings the proxy has seen, each of one server for one caller; \<open>servers\<close> is the configuration.\<close>

record listing =
  li_server :: string
  li_result :: "json option"
  li_allows :: "string \<Rightarrow> bool"

definition list_one ::
  "(string \<Rightarrow> mcp_server) \<Rightarrow> (json \<Rightarrow> string) \<Rightarrow> (string \<Rightarrow> nat \<Rightarrow> string) \<Rightarrow> listing \<Rightarrow> mcp_state \<Rightarrow> mcp_state" where
  "list_one servers hash san l st =
    snd (filterToolsList (servers (li_server l)) hash san (li_allows l) (li_result l) st)"

definition after_lists ::
  "(string \<Rightarrow> mcp_server) \<Rightarrow> (json \<Rightarrow> string) \<Rightarrow> (string \<Rightarrow> nat \<Rightarrow> string) \<Rightarrow> listing list \<Rightarrow> mcp_state" where
  "after_lists servers hash san ls = fold (list_one servers hash san) ls mcp_init"

definition shown_step :: "string \<Rightarrow> string \<Rightarrow> listing \<Rightarrow> json option \<Rightarrow> json option" where
  "shown_step i n l prev =
    (if li_server l = i then
       (case tools_of (li_result l) of None \<Rightarrow> prev
        | Some tools \<Rightarrow> (case shown_in tools n of None \<Rightarrow> prev | Some d \<Rightarrow> Some d))
     else prev)"

text \<open>The definition of a tool the last listing that had it showed.\<close>

definition last_shown :: "listing list \<Rightarrow> string \<Rightarrow> string \<Rightarrow> json option" where
  "last_shown ls i n = fold (shown_step i n) ls None"

definition ids_ok :: "(string \<Rightarrow> mcp_server) \<Rightarrow> bool" where
  "ids_ok servers \<longleftrightarrow> (\<forall>i. sv_id (servers i) = i)"

lemma list_one_drift:
  assumes "ids_ok servers" "isValidToolName n" "toolAllowedByList (servers i) n" "pin_of (servers i) n = Some pin"
  shows "n \<in> ms_drifted (list_one servers hash san l st) i \<longleftrightarrow>
    (if li_server l = i then
       (case tools_of (li_result l) of None \<Rightarrow> n \<in> ms_drifted st i
        | Some tools \<Rightarrow> (case shown_in tools n of None \<Rightarrow> n \<in> ms_drifted st i | Some d \<Rightarrow> hash d \<noteq> pin))
     else n \<in> ms_drifted st i)"
proof (cases "li_server l = i")
  case True
  then show ?thesis
    using assms(1) filter_fold_drift [OF assms(2-4), of hash san "li_allows l" _ "filter_start st (servers i)"]
    by (auto simp: list_one_def filterToolsList_def ids_ok_def filter_start_def Let_def
        split: option.splits)
next
  case False
  with assms(1) show ?thesis
    by (auto simp: list_one_def filterToolsList_def ids_ok_def Let_def split: option.splits)
qed

lemma fold_drift:
  assumes "ids_ok servers" "isValidToolName n" "toolAllowedByList (servers i) n" "pin_of (servers i) n = Some pin"
    and "n \<in> ms_drifted st i \<longleftrightarrow> (\<exists>d. prev = Some d \<and> hash d \<noteq> pin)"
  shows "n \<in> ms_drifted (fold (list_one servers hash san) ls st) i \<longleftrightarrow>
    (\<exists>d. fold (shown_step i n) ls prev = Some d \<and> hash d \<noteq> pin)"
  using assms(5)
proof (induction ls arbitrary: st prev)
  case (Cons l ls)
  have "n \<in> ms_drifted (list_one servers hash san l st) i \<longleftrightarrow> (\<exists>d. shown_step i n l prev = Some d \<and> hash d \<noteq> pin)"
    unfolding list_one_drift [OF assms(1-4)] shown_step_def using Cons.prems
    by (auto split: option.splits)
  from Cons.IH [OF this] show ?case by simp
qed simp

text \<open>C22. Where a server blocks on changed descriptions, a pinned tool is refused for its pin exactly while the last definition a listing of its server showed
  differs from the pinned one: seeing a changed definition blocks its calls, whoever listed the tools, and
  only seeing the pinned definition again unblocks them.\<close>

theorem pin_tracks_last_definition:
  assumes "ids_ok servers" "isValidToolName n" "toolAllowedByList (servers i) n" "pin_of (servers i) n = Some pin"
    and "sv_onDescriptionChange (servers i) = Block_change"
  shows "toolCallDecision (after_lists servers hash san ls) (servers i) (Some (JStr n)) = Some Refused_pin \<longleftrightarrow>
    (\<exists>d. last_shown ls i n = Some d \<and> hash d \<noteq> pin)"
proof -
  have "n \<in> ms_drifted (after_lists servers hash san ls) i \<longleftrightarrow> (\<exists>d. last_shown ls i n = Some d \<and> hash d \<noteq> pin)"
    unfolding after_lists_def last_shown_def by (rule fold_drift [OF assms(1-4)]) (simp add: mcp_init_def)
  with assms show ?thesis by (auto simp: toolCallDecision_def ids_ok_def)
qed

lemma list_one_clear:
  assumes "ids_ok servers" "unpinned_clear (servers i) (ms_drifted st i)"
  shows "unpinned_clear (servers i) (ms_drifted (list_one servers hash san l st) i)"
proof (cases "li_server l = i")
  case True
  then show ?thesis
    using assms filterToolsList_clear [of "servers i" st] by (simp add: list_one_def ids_ok_def) (metis prod.collapse)
next
  case False
  with assms show ?thesis
    by (auto simp: list_one_def filterToolsList_def ids_ok_def Let_def split: option.splits)
qed

lemma after_lists_clear:
  assumes "ids_ok servers"
  shows "unpinned_clear (servers i) (ms_drifted (after_lists servers hash san ls) i)"
proof -
  have "unpinned_clear (servers i) (ms_drifted (fold (list_one servers hash san) ls st) i)"
    if "unpinned_clear (servers i) (ms_drifted st i)" for st
    using that by (induction ls arbitrary: st) (auto intro: list_one_clear [OF assms])
  then show ?thesis unfolding after_lists_def by (simp add: mcp_init_def unpinned_clear_def)
qed

text \<open>A server with one pinned and one free tool, a stand-in digest, and two versions of the pinned tool.\<close>

definition sample_tool :: "string \<Rightarrow> string \<Rightarrow> json" where
  "sample_tool name text = JObj [(''name'', JStr name), (''description'', JStr text)]"

definition sample_hash :: "json \<Rightarrow> string" where
  "sample_hash = toolDefinitionHash (\<lambda>v. case v of JStr s \<Rightarrow> s | _ \<Rightarrow> ''null'') (\<lambda>t. t)"

definition sample_server :: "string \<Rightarrow> mcp_server" where
  "sample_server i = \<lparr>sv_id = i, sv_url = ''https://mcp.example/'', sv_authHeader = Some (''authorization'', ''Bearer up''),
     sv_mode = Allow_list, sv_names = {''search'', ''read''}, sv_denyLower = {},
     sv_pinnedTools = [(''search'', sample_hash (sample_tool ''search'' ''v1''))],
     sv_onDescriptionChange = Block_change, sv_inputGuardrails = [], sv_outputGuardrails = [], sv_timeoutMs = 50,
     sv_maxRequestBytes = 64, sv_maxResponseBytes = 64, sv_maxDescriptionLength = 32, sv_owner = None\<rparr>"

definition sample_listing :: "string \<Rightarrow> listing" where
  "sample_listing text = \<lparr>li_server = ''github'',
     li_result = Some (JObj [(''tools'', JArr [sample_tool ''search'' text, sample_tool ''drop'' ''x'', sample_tool ''read'' ''y''])]),
     li_allows = (\<lambda>_. True)\<rparr>"

lemma sample_ids: "ids_ok sample_server"
  by (simp add: ids_ok_def sample_server_def)

theorem pin_tracks_last_definition_witness:
  "toolCallDecision (after_lists sample_server sample_hash (\<lambda>s m. s) [sample_listing ''v1'', sample_listing ''v2''])
     (sample_server ''github'') (Some (JStr ''search'')) = Some Refused_pin \<and>
   toolCallDecision (after_lists sample_server sample_hash (\<lambda>s m. s) [sample_listing ''v2'', sample_listing ''v1''])
     (sample_server ''github'') (Some (JStr ''search'')) \<noteq> Some Refused_pin"
proof -
  have v: "isValidToolName ''search''" by code_simp
  have a: "toolAllowedByList (sample_server ''github'') ''search''"
    by (simp add: toolAllowedByList_def sample_server_def)
  have h: "sample_hash (sample_tool ''search'' ''v1'') = ''{description:v1,name:search}''"
    "sample_hash (sample_tool ''search'' ''v2'') = ''{description:v2,name:search}''"
    by code_simp+
  have p: "pin_of (sample_server ''github'') ''search'' = Some ''{description:v1,name:search}''"
    by (simp add: pin_of_def sample_server_def h)
  have l: "last_shown [sample_listing ''v1'', sample_listing ''v2''] ''github'' ''search'' = Some (sample_tool ''search'' ''v2'')"
    "last_shown [sample_listing ''v2'', sample_listing ''v1''] ''github'' ''search'' = Some (sample_tool ''search'' ''v1'')"
    by (simp_all add: last_shown_def shown_step_def shown_in_def sample_listing_def sample_tool_def tools_of_def)
  have b: "sv_onDescriptionChange (sample_server ''github'') = Block_change" by (simp add: sample_server_def)
  show ?thesis
    by (simp add: pin_tracks_last_definition [OF sample_ids v a p b] l h)
qed

text \<open>Whatever listings came before, every tool a filtered listing shows is one its server sent, cleaned, under
  a name shown once, allowed by the server's lists and by the caller's group, with the pinned definition where
  the server blocks changed ones, and a call to it passes the server's policy.\<close>

lemma listed_tools_callable:
  assumes "ids_ok servers"
    and "filterToolsList (servers i) hash san allows result (after_lists servers hash san ls) = (out, st')"
    and "tools_of (Some (fl_result out)) = Some shown" "t \<in> set shown"
  shows "\<exists>n fs raw. tool_name t = Some n \<and> tools_of result = Some raw \<and> JObj fs \<in> set raw \<and>
    t = clean_tool san (sv_maxDescriptionLength (servers i)) fs \<and> distinct (map tool_name shown) \<and> allows n \<and>
    toolCallDecision st' (servers i) (Some (JStr n)) = None \<and>
    (\<forall>pin. pin_of (servers i) n = Some pin \<and> sv_onDescriptionChange (servers i) = Block_change \<longrightarrow> hash (JObj fs) = pin)"
proof (rule filterToolsList_shown [OF _ assms(2-4)])
  show "drift_clear (servers i) (after_lists servers hash san ls)"
    using after_lists_clear [OF assms(1), of i] assms(1) by (simp add: ids_ok_def)
qed

end
