(* ===== verification/Mcp_Request.thy ===== *)
theory Mcp_Request
  imports Mcp_Policy "HOL-Library.Word"
begin

text \<open>
  The request side of the MCP proxy (\<open>gateway/src/mcp/handler.ts\<close>, \<open>auth.ts\<close>, and the header checks of
  \<open>policy.ts\<close>): everything \<open>mcpHandler\<close> decides before a message goes to the upstream server. Header names
  are lower case. Reading the body, the guardrails and the base64 decoding of a header value are
  parameters; texts of errors, metrics and security events are left out.
\<close>

subsection \<open>Client authentication\<close>

text \<open>\<open>TextEncoder\<close> on the code units of the model.\<close>

definition utf8_unit :: "char \<Rightarrow> 8 word list" where
  "utf8_unit c = (let n = of_char c :: nat in
     if n < 128 then [of_nat n] else [of_nat (192 + n div 64), of_nat (128 + n mod 64)])"

definition utf8_bytes :: "string \<Rightarrow> 8 word list" where
  "utf8_bytes s = concat (map utf8_unit s)"

text \<open>\<open>diff |= (a[i] ?? 0) ^ b[i]\<close> for every byte of \<open>b\<close>, starting from the difference of the lengths.\<close>

fun diff_loop :: "32 word \<Rightarrow> 8 word list \<Rightarrow> 8 word list \<Rightarrow> 32 word" where
  "diff_loop diff as [] = diff"
| "diff_loop diff as (b # bs) =
    diff_loop (or diff (xor (case as of [] \<Rightarrow> 0 | a # _ \<Rightarrow> ucast a) (ucast b))) (tl as) bs"

definition tokensMatch :: "string \<Rightarrow> string \<Rightarrow> bool" where
  "tokensMatch candidate expected \<longleftrightarrow>
    (let a = utf8_bytes candidate; b = utf8_bytes expected
     in diff_loop (xor (of_nat (length a)) (of_nat (length b))) a b = 0)"

definition MIN_TOKEN_LENGTH :: nat where "MIN_TOKEN_LENGTH = 16"

text \<open>\<open>None\<close>: the client may pass; else the status of the refusal.\<close>

definition checkMcpClient :: "bool \<Rightarrow> string option \<Rightarrow> string option \<Rightarrow> string option \<Rightarrow> nat option" where
  "checkMcpClient identified token allowOpen auth =
    (if identified then None
     else let tk = trim (case token of None \<Rightarrow> [] | Some t \<Rightarrow> t) in
       if length tk < MIN_TOKEN_LENGTH then (if allowOpen = Some ''true'' then None else Some 503)
       else let header = trim (case auth of None \<Rightarrow> [] | Some h \<Rightarrow> h);
                scheme = takeWhile (\<lambda>c. \<not> js_space c) header;
                v = takeWhile (\<lambda>c. \<not> js_space c) (dropWhile js_space (dropWhile (\<lambda>c. \<not> js_space c) header))
            in if to_lower scheme = ''bearer'' \<and> v \<noteq> [] \<and> tokensMatch v tk then None else Some 401)"

lemma xor_word_zero: "xor x y = 0 \<longleftrightarrow> x = (y :: 'a::len word)"
  by (metis xor.assoc xor.left_neutral xor.right_neutral xor_self_eq)

lemma ucast_byte_inj: "(ucast (a :: 8 word) :: 32 word) = ucast b \<longleftrightarrow> a = b"
proof -
  have "uint (ucast c :: 32 word) = uint c" for c :: "8 word"
    using uint_lt2p [of c] by (simp add: unsigned_ucast_eq take_bit_int_eq_self)
  then show ?thesis by (metis word_uint_eq_iff)
qed

lemma diff_loop_zero:
  "length as = length bs \<Longrightarrow> diff_loop diff as bs = 0 \<longleftrightarrow> diff = 0 \<and> as = bs"
proof (induction as bs arbitrary: diff rule: list_induct2)
  case (Cons a as b bs)
  then show ?case by (auto simp: or_eq_0_iff xor_word_zero ucast_byte_inj)
qed simp

lemma diff_loop_nonzero: "diff \<noteq> 0 \<Longrightarrow> diff_loop diff as bs \<noteq> 0"
  by (induction diff as bs rule: diff_loop.induct) (auto simp: or_eq_0_iff)

fun utf8_read :: "8 word list \<Rightarrow> (char \<times> 8 word list) option" where
  "utf8_read [] = None"
| "utf8_read (b # bs) =
    (if unat b < 128 then Some (char_of (unat b), bs)
     else case bs of [] \<Rightarrow> None | m # ms \<Rightarrow> Some (char_of ((unat b - 192) * 64 + (unat m - 128)), ms))"

lemma utf8_read_unit: "utf8_read (utf8_unit c @ bs) = Some (c, bs)"
proof -
  define n where "n = (of_char c :: nat)"
  have n: "n < 256" and c: "char_of n = c" unfolding n_def by (simp_all add: nat_of_char_less_256)
  show ?thesis
  proof (cases "n < 128")
    case True
    then have "unat (of_nat n :: 8 word) = n" by (simp add: unat_of_nat)
    with True c show ?thesis by (simp add: utf8_unit_def flip: n_def)
  next
    case False
    from n have "n div 64 < 4" by linarith
    then have h: "unat (of_nat (192 + n div 64) :: 8 word) = 192 + n div 64"
      and l: "unat (of_nat (128 + n mod 64) :: 8 word) = 128 + n mod 64"
      by (simp_all only: unat_of_nat) simp_all
    from False c show ?thesis
      by (simp add: utf8_unit_def h l del: of_nat_add flip: n_def)
  qed
qed

lemma utf8_bytes_inj: "utf8_bytes s = utf8_bytes t \<Longrightarrow> s = t"
proof (induction s arbitrary: t)
  case Nil
  then show ?case by (cases t) (auto simp: utf8_bytes_def utf8_unit_def Let_def split: if_splits)
next
  case (Cons c s)
  show ?case
  proof (cases t)
    case Nil
    with Cons.prems show ?thesis by (auto simp: utf8_bytes_def utf8_unit_def Let_def split: if_splits)
  next
    case (Cons d u)
    with Cons.prems have "utf8_unit c @ utf8_bytes s = utf8_unit d @ utf8_bytes u" by (simp add: utf8_bytes_def)
    then have "Some (c, utf8_bytes s) = Some (d, utf8_bytes u)" by (metis utf8_read_unit)
    with Cons Cons.IH show ?thesis by simp
  qed
qed

text \<open>The constant-time comparison is equality of the tokens.\<close>

lemma tokensMatch_eq:
  assumes "length (utf8_bytes candidate) < 2 ^ 32" "length (utf8_bytes expected) < 2 ^ 32"
  shows "tokensMatch candidate expected \<longleftrightarrow> candidate = expected"
proof (cases "length (utf8_bytes candidate) = length (utf8_bytes expected)")
  case True
  then show ?thesis by (auto simp: tokensMatch_def Let_def diff_loop_zero dest: utf8_bytes_inj)
next
  case False
  have "unat (of_nat n :: 32 word) = n" if "n < 2 ^ 32" for n using that by (simp add: unat_of_nat)
  with False assms have "(of_nat (length (utf8_bytes candidate)) :: 32 word) \<noteq> of_nat (length (utf8_bytes expected))"
    by metis
  then have "xor (of_nat (length (utf8_bytes candidate)) :: 32 word) (of_nat (length (utf8_bytes expected))) \<noteq> 0"
    by (simp add: xor_word_zero)
  with False show ?thesis by (auto simp: tokensMatch_def Let_def diff_loop_nonzero)
qed

subsection \<open>Mirrored headers\<close>

datatype header_problem =
    Version_malformed | Version_differs | Method_missing | Method_differs | Name_unexpected | Name_missing
  | Name_malformed | Name_differs
  | Param_no_value string | Param_missing string | Param_malformed string | Param_differs string

type_synonym header_map = "(string, string) jmap"

definition HEADERS_REQUIRED_FROM :: string where "HEADERS_REQUIRED_FROM = ''2026-07-28''"

text \<open>\<open>/^\d{4}-\d{2}-\d{2}$/\<close>\<close>

definition PROTOCOL_VERSION_RE :: "string \<Rightarrow> bool" where
  "PROTOCOL_VERSION_RE s \<longleftrightarrow> length s = 10 \<and>
     list_all (\<lambda>i. if i = 4 \<or> i = 7 then s ! i = CHR ''-'' else is_digit (s ! i)) [0..<10]"

definition headers_required :: "string option \<Rightarrow> bool" where
  "headers_required version \<longleftrightarrow> (case version of None \<Rightarrow> False | Some v \<Rightarrow> HEADERS_REQUIRED_FROM \<le> v)"

text \<open>\<open>NAMED_METHODS[method]\<close>; a name every object inherits gives a value too, which is no key of the
  parameters.\<close>

definition named_field :: "string \<Rightarrow> string option option" where
  "named_field m =
    (if m = ''tools/call'' \<or> m = ''prompts/get'' then Some (Some ''name'')
     else if m = ''resources/read'' then Some (Some ''uri'')
     else if m \<in> set INHERITED then Some None else None)"

definition base64_char :: "char \<Rightarrow> bool" where
  "base64_char c \<longleftrightarrow> is_alnum c \<or> c = CHR ''+'' \<or> c = CHR ''/''"

text \<open>\<open>/^=\?base64\?([A-Za-z0-9+/]*={0,2})\?=$/\<close>, giving the group.\<close>

definition sentinel :: "string \<Rightarrow> string option" where
  "sentinel s =
    (let m = take (length s - 11) (drop 9 s); body = rev (dropWhile (\<lambda>c. c = CHR ''='') (rev m)) in
     if 11 \<le> length s \<and> starts_with s ''=?base64?'' \<and> ends_with s ''?='' \<and> length m \<le> length body + 2 \<and>
        list_all base64_char body
     then Some m else None)"

definition header_char :: "char \<Rightarrow> bool" where
  "header_char c \<longleftrightarrow> (let n = of_char c :: nat in (32 \<le> n \<and> n \<le> 126) \<or> n = 9)"

text \<open>\<open>decode64\<close> decodes base64 and UTF-8, \<open>None\<close> where either throws.\<close>

definition decodeHeaderValue :: "(string \<Rightarrow> string option) \<Rightarrow> string \<Rightarrow> string option" where
  "decodeHeaderValue decode64 raw =
    (if \<not> list_all header_char raw then None
     else case sentinel raw of
       None \<Rightarrow> if starts_with raw ''=?base64?'' \<and> ends_with raw ''?='' then None else Some raw
     | Some m \<Rightarrow> decode64 m)"

definition headerMismatch :: "(string \<Rightarrow> string option) \<Rightarrow> header_map \<Rightarrow> json \<Rightarrow> string \<Rightarrow> header_problem option" where
  "headerMismatch decode64 hs message meth =
    (let version = jm_get hs ''mcp-protocol-version''; required = headers_required version;
         params = prop_of (Some message) ''params'';
         bodyVersion = prop_of (prop_of params ''_meta'') ''io.modelcontextprotocol/protocolVersion''
     in if (case version of None \<Rightarrow> False | Some v \<Rightarrow> \<not> PROTOCOL_VERSION_RE v) then Some Version_malformed
        else if required \<and> bodyVersion \<noteq> None \<and> bodyVersion \<noteq> map_option JStr version then Some Version_differs
        else if jm_get hs ''mcp-method'' = None \<and> required then Some Method_missing
        else if (case jm_get hs ''mcp-method'' of None \<Rightarrow> False | Some m \<Rightarrow> m \<noteq> meth) then Some Method_differs
        else (case (named_field meth, jm_get hs ''mcp-name'') of
               (None, None) \<Rightarrow> None
             | (None, Some _) \<Rightarrow> Some Name_unexpected
             | (Some _, None) \<Rightarrow> if required then Some Name_missing else None
             | (Some f, Some raw) \<Rightarrow>
                 (case decodeHeaderValue decode64 raw of None \<Rightarrow> Some Name_malformed
                  | Some name \<Rightarrow>
                     if (case f of None \<Rightarrow> None | Some k \<Rightarrow> prop_of params k) \<noteq> Some (JStr name) then Some Name_differs else None)))"

text \<open>\<open>/^[+-]?\d+(\.\d+)?([eE][+-]?\d+)?$/\<close>\<close>

definition digits_plus :: "string \<Rightarrow> bool" where
  "digits_plus s \<longleftrightarrow> s \<noteq> [] \<and> list_all is_digit s"

definition strip_sign :: "string \<Rightarrow> string" where
  "strip_sign s = (case s of [] \<Rightarrow> [] | c # cs \<Rightarrow> if c = CHR ''+'' \<or> c = CHR ''-'' then cs else s)"

definition INTEGER_TEXT_RE :: "string \<Rightarrow> bool" where
  "INTEGER_TEXT_RE s \<longleftrightarrow>
    (let mant = takeWhile (\<lambda>c. c \<noteq> CHR ''e'' \<and> c \<noteq> CHR ''E'') s; ex = drop (length mant) s;
         ip = takeWhile (\<lambda>c. c \<noteq> CHR ''.'') (strip_sign mant); fp = drop (length ip) (strip_sign mant)
     in digits_plus ip \<and> (fp = [] \<or> digits_plus (tl fp)) \<and> (ex = [] \<or> digits_plus (strip_sign (tl ex))))"

definition headerMatchesValue :: "string \<Rightarrow> json \<Rightarrow> bool" where
  "headerMatchesValue header v \<longleftrightarrow>
    (case v of
       JStr s \<Rightarrow> header = s
     | JBool b \<Rightarrow> header = (if b then ''true'' else ''false'')
     | JNum n \<Rightarrow> js_integer n \<noteq> None \<and> INTEGER_TEXT_RE header \<and> js_Number header = n
     | _ \<Rightarrow> False)"

fun valueAt :: "json option \<Rightarrow> string list \<Rightarrow> json option" where
  "valueAt v [] = v"
| "valueAt v (k # ks) = (case v of Some (JObj fs) \<Rightarrow>
     (case map_of fs k of None \<Rightarrow> None | Some w \<Rightarrow> valueAt (Some w) ks) | _ \<Rightarrow> None)"

definition param_problem ::
  "(string \<Rightarrow> string option) \<Rightarrow> header_map \<Rightarrow> json option \<Rightarrow> bool \<Rightarrow> param_header \<Rightarrow> header_problem option" where
  "param_problem decode64 hs args required h =
    (let raw = jm_get hs (''mcp-param-'' @ ph_name h) in
     case present (valueAt args (ph_path h)) of
       None \<Rightarrow> if raw \<noteq> None then Some (Param_no_value (ph_name h)) else None
     | Some v \<Rightarrow>
        (case raw of None \<Rightarrow> if required then Some (Param_missing (ph_name h)) else None
         | Some r \<Rightarrow>
            (case decodeHeaderValue decode64 r of None \<Rightarrow> Some (Param_malformed (ph_name h))
             | Some d \<Rightarrow> if headerMatchesValue d v then None else Some (Param_differs (ph_name h)))))"

fun param_loop ::
  "(string \<Rightarrow> string option) \<Rightarrow> header_map \<Rightarrow> json option \<Rightarrow> bool \<Rightarrow> param_header list \<Rightarrow> header_problem option" where
  "param_loop decode64 hs args required [] = None"
| "param_loop decode64 hs args required (h # rest) =
    (case param_problem decode64 hs args required h of Some p \<Rightarrow> Some p
     | None \<Rightarrow> param_loop decode64 hs args required rest)"

definition paramHeaderMismatch ::
  "(string \<Rightarrow> string option) \<Rightarrow> mcp_state \<Rightarrow> mcp_server \<Rightarrow> header_map \<Rightarrow> json \<Rightarrow> header_problem option" where
  "paramHeaderMismatch decode64 st server hs message =
    (let params = prop_of (Some message) ''params'' in
     case json_text (prop_of params ''name'') of None \<Rightarrow> None
     | Some name \<Rightarrow>
        (case jm_get (ms_headers st (sv_id server)) name of
           Some (Annotated declared) \<Rightarrow>
             param_loop decode64 hs (prop_of params ''arguments'') (headers_required (jm_get hs ''mcp-protocol-version'')) declared
         | _ \<Rightarrow> None))"

subsection \<open>The request\<close>

text \<open>A POST to \<open>/v1/mcp/:server\<close> after authentication: the status of a refused client, the body
  (\<open>None\<close> when it is too large).\<close>

record mcp_post =
  mp_method :: string
  mp_auth :: "nat option"
  mp_group :: "policy_group option"
  mp_serverId :: string
  mp_headers :: header_map
  mp_body :: "string option"

record mcp_env =
  me_servers :: "string \<Rightarrow> mcp_server option"
  me_jsonParse :: "string \<Rightarrow> json option"
  me_decode64 :: "string \<Rightarrow> string option"
  me_stringify :: "json \<Rightarrow> string"
  me_runHooks :: "hook_object list \<Rightarrow> string \<Rightarrow> hook_result list option"

datatype mcp_code =
    Parse_error | Invalid_request | Tool_denied | Guardrail_blocked | Definition_changed | Unauthorized
  | Unknown_server | Server_denied | Header_mismatch | Upstream_error

definition code_number :: "mcp_code \<Rightarrow> int" where
  "code_number c = (case c of Parse_error \<Rightarrow> -32700 | Invalid_request \<Rightarrow> -32600 | Tool_denied \<Rightarrow> -32010
     | Guardrail_blocked \<Rightarrow> -32011 | Definition_changed \<Rightarrow> -32012 | Unauthorized \<Rightarrow> -32014
     | Upstream_error \<Rightarrow> -32013
     | Unknown_server \<Rightarrow> -32015 | Server_denied \<Rightarrow> -32016 | Header_mismatch \<Rightarrow> -32020)"

text \<open>An error carries the status, the id of the message it answers and its code.\<close>

datatype post_decision = Rpc_error nat json mcp_code | Forward mcp_server json

definition isRpcId :: "json option \<Rightarrow> bool" where
  "isRpcId v \<longleftrightarrow> (case v of Some (JStr _) \<Rightarrow> True | Some (JNum n) \<Rightarrow> is_finite n | _ \<Rightarrow> False)"

text \<open>\<open>contentType.split(';')[0].trim().toLowerCase()\<close>\<close>

definition media_type :: "string option \<Rightarrow> string" where
  "media_type v = to_lower (trim (takeWhile (\<lambda>c. c \<noteq> CHR '';'') (case v of None \<Rightarrow> [] | Some s \<Rightarrow> s)))"

definition declared_too_large :: "string option \<Rightarrow> nat \<Rightarrow> bool" where
  "declared_too_large v limit \<longleftrightarrow> (case v of None \<Rightarrow> False
     | Some s \<Rightarrow> (case js_Number s of Fin q \<Rightarrow> of_nat limit < q | _ \<Rightarrow> False))"

text \<open>A JSON-RPC message: \<open>None\<close>, or the error it gets.\<close>

definition invalid_request :: "json \<Rightarrow> string \<Rightarrow> bool" where
  "invalid_request message meth \<longleftrightarrow>
    (let rid = prop_of (Some message) ''id''; params = prop_of (Some message) ''params'' in
     (rid = None \<and> \<not> starts_with meth ''notifications/'') \<or> (rid \<noteq> None \<and> \<not> isRpcId rid) \<or>
     (case params of None \<Rightarrow> False | Some (JObj _) \<Rightarrow> False | Some (JArr _) \<Rightarrow> False | _ \<Rightarrow> True))"

definition check_message :: "mcp_env \<Rightarrow> header_map \<Rightarrow> json \<Rightarrow> (nat \<times> mcp_code) option" where
  "check_message env hs message =
    (case message of
       JObj fs \<Rightarrow>
         if map_of fs ''jsonrpc'' \<noteq> Some (JStr ''2.0'') then Some (400, Invalid_request)
         else (case map_of fs ''method'' of
             None \<Rightarrow> if map_of fs ''result'' = None \<and> map_of fs ''error'' = None then Some (400, Invalid_request) else None
           | Some (JStr m) \<Rightarrow>
               if invalid_request message m then Some (400, Invalid_request)
               else if headerMismatch (me_decode64 env) hs message m \<noteq> None then Some (400, Header_mismatch)
               else None
           | Some _ \<Rightarrow> Some (400, Invalid_request))
     | _ \<Rightarrow> Some (400, Invalid_request))"

definition check_tool_call ::
  "mcp_env \<Rightarrow> mcp_state \<Rightarrow> mcp_server \<Rightarrow> mcp_tool_rule option \<Rightarrow> header_map \<Rightarrow> json \<Rightarrow> (nat \<times> mcp_code) option" where
  "check_tool_call env st server rule hs message =
    (let params = prop_of (Some message) ''params''; nm = prop_of params ''name'' in
     case toolCallDecision st server nm of
       Some r \<Rightarrow> Some (200, if r = Refused_pin then Definition_changed else Tool_denied)
     | None \<Rightarrow>
        if \<not> groupToolAllowed rule (the (json_text nm)) then Some (200, Tool_denied)
        else if paramHeaderMismatch (me_decode64 env) st server hs message \<noteq> None then Some (400, Header_mismatch)
        else if mcpGuardrailsBlock (me_runHooks env) (sv_inputGuardrails server) (toolCallInputText (me_stringify env) params) then Some (200, Guardrail_blocked)
        else None)"

definition check_call ::
  "mcp_env \<Rightarrow> mcp_state \<Rightarrow> mcp_server \<Rightarrow> mcp_tool_rule option \<Rightarrow> header_map \<Rightarrow> json \<Rightarrow> (nat \<times> mcp_code) option" where
  "check_call env st server rule hs message =
    (case json_text (prop_of (Some message) ''method'') of None \<Rightarrow> None
     | Some m \<Rightarrow>
        if starts_with m ''tasks/'' \<or> (m = ''tools/call'' \<and> prop_of (prop_of (Some message) ''params'') ''task'' \<noteq> None)
        then Some (200, Tool_denied)
        else if m = ''tools/call'' then check_tool_call env st server rule hs message else None)"

text \<open>The id of a message, \<open>null\<close> when it is no JSON-RPC message or has none.\<close>

definition message_id :: "json \<Rightarrow> json" where
  "message_id message =
    (if prop_of (Some message) ''jsonrpc'' = Some (JStr ''2.0'') \<and> isRpcId (prop_of (Some message) ''id'')
     then the (prop_of (Some message) ''id'') else JNull)"

definition or_error :: "json \<Rightarrow> (nat \<times> mcp_code) option \<Rightarrow> post_decision \<Rightarrow> post_decision" where
  "or_error message e d = (case e of Some (s, c) \<Rightarrow> Rpc_error s (message_id message) c | None \<Rightarrow> d)"

text \<open>The server a client may use, with the tool rule of its group.\<close>

definition admit_server :: "mcp_env \<Rightarrow> mcp_post \<Rightarrow> nat \<times> mcp_code + mcp_server \<times> mcp_tool_rule option" where
  "admit_server env p =
    (case mp_auth p of Some s \<Rightarrow> Inl (s, Unauthorized)
     | None \<Rightarrow>
        (let access = groupServerAccess (mp_group p) (mp_serverId p) in
         if access = Some None then Inl (403, Server_denied)
         else case me_servers env (mp_serverId p) of None \<Rightarrow> Inl (404, Unknown_server)
         | Some server \<Rightarrow> Inr (server, case access of None \<Rightarrow> None | Some r \<Rightarrow> r)))"

definition check_post :: "mcp_env \<Rightarrow> mcp_state \<Rightarrow> mcp_server \<Rightarrow> mcp_tool_rule option \<Rightarrow> mcp_post \<Rightarrow> post_decision" where
  "check_post env st server rule p =
    (let hs = mp_headers p in
     if media_type (jm_get hs ''content-type'') \<noteq> ''application/json'' then Rpc_error 415 JNull Invalid_request
     else if declared_too_large (jm_get hs ''content-length'') (sv_maxRequestBytes server) then Rpc_error 413 JNull Invalid_request
     else (case mp_body p of None \<Rightarrow> Rpc_error 413 JNull Invalid_request
       | Some text \<Rightarrow>
          (case me_jsonParse env text of None \<Rightarrow> Rpc_error 400 JNull Parse_error
           | Some message \<Rightarrow>
              or_error message (check_message env hs message)
                (or_error message (check_call env st server rule hs message) (Forward server message)))))"

definition mcp_post_decision :: "mcp_env \<Rightarrow> mcp_state \<Rightarrow> mcp_post \<Rightarrow> post_decision" where
  "mcp_post_decision env st p =
    (case admit_server env p of Inl (s, c) \<Rightarrow> Rpc_error s JNull c
     | Inr (server, rule) \<Rightarrow> check_post env st server rule p)"

subsection \<open>What reaches the upstream server\<close>

lemma or_error_Forward: "or_error message e d = Forward s m \<longleftrightarrow> e = None \<and> d = Forward s m"
  by (auto simp: or_error_def split: option.splits)

text \<open>What a \<open>tools/call\<close> passed on has gone through.\<close>

definition call_cleared :: "mcp_env \<Rightarrow> mcp_state \<Rightarrow> mcp_post \<Rightarrow> mcp_server \<Rightarrow> json \<Rightarrow> string \<Rightarrow> bool" where
  "call_cleared env st p server message n \<longleftrightarrow>
    toolCallDecision st server (Some (JStr n)) = None \<and>
    (\<forall>g m. mp_group p = Some g \<and> pg_mcp g = Some m \<longrightarrow>
       (\<exists>r. jm_get (mg_servers m) (mp_serverId p) = Some r \<and> groupToolAllowed (Some r) n)) \<and>
    headerMismatch (me_decode64 env) (mp_headers p) message ''tools/call'' = None \<and>
    paramHeaderMismatch (me_decode64 env) st server (mp_headers p) message = None \<and>
    \<not> mcpGuardrailsBlock (me_runHooks env) (sv_inputGuardrails server)
        (toolCallInputText (me_stringify env) (prop_of (Some message) ''params''))"

lemma check_message_method:
  assumes "check_message env hs message = None" "json_text (prop_of (Some message) ''method'') = Some m"
  shows "headerMismatch (me_decode64 env) hs message m = None"
  using assms by (auto simp: check_message_def split: json.splits option.splits if_splits)

lemma check_message_text:
  assumes "check_message env hs message = None" "prop_of (Some message) ''method'' \<noteq> None"
  shows "\<exists>m. json_text (prop_of (Some message) ''method'') = Some m"
  using assms by (auto simp: check_message_def split: json.splits option.splits if_splits)

text \<open>C20. A message reaches the upstream server only for an authenticated client whose group may use the server.
  A \<open>tools/call\<close> names a tool the server's lists, pins and annotations allow and the group's rule lets
  through, its mirrored and parameter headers match the body, the input guardrails did not block it, and
  no method that would fetch a result unchecked is passed on.\<close>

theorem mcp_forwards_only_cleared:
  assumes "mcp_post_decision env st p = Forward server message"
  shows "mp_auth p = None \<and> me_servers env (mp_serverId p) = Some server \<and>
    (\<forall>m. prop_of (Some message) ''method'' = Some m \<longrightarrow>
       (\<exists>t. m = JStr t \<and> \<not> starts_with t ''tasks/'' \<and>
          (t = ''tools/call'' \<longrightarrow>
             (\<exists>n. prop_of (prop_of (Some message) ''params'') ''name'' = Some (JStr n) \<and>
                call_cleared env st p server message n))))"
proof -
  define rule where "rule = (case groupServerAccess (mp_group p) (mp_serverId p) of None \<Rightarrow> None | Some r \<Rightarrow> r)"
  from assms have top: "mp_auth p = None" "groupServerAccess (mp_group p) (mp_serverId p) \<noteq> Some None"
      "me_servers env (mp_serverId p) = Some server"
    and cm: "check_message env (mp_headers p) message = None"
    and cc: "check_call env st server rule (mp_headers p) message = None"
    by (auto simp: mcp_post_decision_def admit_server_def check_post_def Let_def or_error_Forward rule_def
        split: option.splits sum.splits prod.splits if_splits)
  have "\<exists>t. m = JStr t \<and> \<not> starts_with t ''tasks/'' \<and>
      (t = ''tools/call'' \<longrightarrow>
         (\<exists>n. prop_of (prop_of (Some message) ''params'') ''name'' = Some (JStr n) \<and> call_cleared env st p server message n))"
    if m: "prop_of (Some message) ''method'' = Some m" for m
  proof -
    obtain t where "json_text (prop_of (Some message) ''method'') = Some t"
      using check_message_text [OF cm] m by auto
    with m have t: "m = JStr t" "json_text (prop_of (Some message) ''method'') = Some t" by (cases m; simp)+
    from check_message_method [OF cm t(2)] have hm: "headerMismatch (me_decode64 env) (mp_headers p) message t = None" .
    from cc t(2) have nt: "\<not> starts_with t ''tasks/''" by (auto simp: check_call_def split: if_splits)
    have "\<exists>n. prop_of (prop_of (Some message) ''params'') ''name'' = Some (JStr n) \<and> call_cleared env st p server message n"
      if tc: "t = ''tools/call''"
    proof -
      from cc t(2) tc have ct: "check_tool_call env st server rule (mp_headers p) message = None"
        by (auto simp: check_call_def split: if_splits)
      let ?nm = "prop_of (prop_of (Some message) ''params'') ''name''"
      from ct have d: "toolCallDecision st server ?nm = None"
        and r: "groupToolAllowed rule (the (json_text ?nm))"
          "paramHeaderMismatch (me_decode64 env) st server (mp_headers p) message = None"
          "\<not> mcpGuardrailsBlock (me_runHooks env) (sv_inputGuardrails server)
        (toolCallInputText (me_stringify env) (prop_of (Some message) ''params''))"
        by (auto simp: check_tool_call_def Let_def split: option.splits if_splits)
      from d obtain n where n: "json_text ?nm = Some n" by (auto simp: toolCallDecision_def split: option.splits)
      then have nm: "?nm = Some (JStr n)" by (cases ?nm rule: json_text.cases) auto
      have "\<exists>r. jm_get (mg_servers ms) (mp_serverId p) = Some r \<and> groupToolAllowed (Some r) n"
        if "mp_group p = Some g" "pg_mcp g = Some ms" for g ms
        using top(2) r(1) n that by (auto simp: groupServerAccess_def rule_def)
      with d r hm n nm tc show ?thesis by (auto simp: call_cleared_def)
    qed
    with t(1) nt show ?thesis by blast
  qed
  with top show ?thesis by blast
qed

definition sample_message :: json where
  "sample_message = JObj [(''jsonrpc'', JStr ''2.0''), (''id'', JNum (Fin 7)), (''method'', JStr ''tools/call''),
     (''params'', JObj [(''name'', JStr ''read''), (''arguments'', JObj [(''path'', JStr ''a'')])])]"

definition sample_mcp_env :: mcp_env where
  "sample_mcp_env = \<lparr>me_servers = (\<lambda>i. if i = ''github'' then Some (sample_server i) else None),
     me_jsonParse = (\<lambda>t. if t = ''call'' then Some sample_message else None),
     me_decode64 = (\<lambda>t. None), me_stringify = (\<lambda>v. ''{}''), me_runHooks = (\<lambda>hs t. None)\<rparr>"

definition sample_post :: mcp_post where
  "sample_post = \<lparr>mp_method = ''POST'', mp_auth = None,
     mp_group = Some \<lparr>pg_name = ''ops'', pg_match = [''ops''], pg_providers = None, pg_models = None, pg_rateLimit = None,
       pg_mcp = Some \<lparr>mg_servers = [(''github'', \<lparr>mr_allow = Some {''read''}, mr_denyLower = None\<rparr>)]\<rparr>\<rparr>,
     mp_serverId = ''github'',
     mp_headers = [(''content-type'', ''application/json; charset=utf-8''), (''mcp-protocol-version'', ''2026-07-28''),
       (''mcp-method'', ''tools/call''), (''mcp-name'', ''read'')],
     mp_body = Some ''call''\<rparr>"

theorem mcp_forwards_only_cleared_witness:
  "mcp_post_decision sample_mcp_env mcp_init sample_post = Forward (sample_server ''github'') sample_message \<and>
   call_cleared sample_mcp_env mcp_init sample_post (sample_server ''github'') sample_message ''read''"
proof -
  have "case mcp_post_decision sample_mcp_env mcp_init sample_post of Forward s m \<Rightarrow> sv_id s = ''github'' \<and> m = sample_message
      | _ \<Rightarrow> False"
    by code_simp
  then obtain s where d: "mcp_post_decision sample_mcp_env mcp_init sample_post = Forward s sample_message"
    and "sv_id s = ''github''"
    by (auto split: post_decision.splits)
  note c = mcp_forwards_only_cleared [OF d]
  then have "s = sample_server ''github''" by (auto simp: sample_mcp_env_def sample_post_def)
  with c d show ?thesis by (simp add: sample_message_def)
qed

end
