(* ===== verification/Mcp_Sse.thy ===== *)
theory Mcp_Sse
  imports Prelude
begin

text \<open>
  The filter on a server's event stream (\<open>gateway/src/mcp/sse.ts\<close>): lines are cut from the chunks as they
  come, an empty line ends an event, and a message is passed on, checked, replaced or dropped.

  A chunk is the text \<open>TextDecoder\<close> gives for it, and the text of the last call without input comes with the
  end of the stream. What is written is a list of \<open>sse_out\<close>: text as received, a message written again after
  the other fields of its event, or the error sent when an event is too large. \<open>JSON.parse\<close> and the check of
  a response are parameters.
\<close>

definition CR :: char where "CR = CHR 0x0D"
definition LF :: char where "LF = CHR 0x0A"

lemma CR_LF [simp]: "CR \<noteq> LF" "LF \<noteq> CR"
  by (simp_all add: CR_def LF_def)

record sse_options =
  so_requestId :: "json option"
  so_maxEventBytes :: nat
  so_onResponse :: "json \<Rightarrow> json option"
  so_tooLarge :: bool
  so_jsonParse :: "string \<Rightarrow> json option"

datatype sse_out = Raw string | Rebuilt "string list" json | Too_large

record sse_state =
  ss_buffer :: string
  ss_raw :: string
  ss_lines :: "string list"
  ss_failed :: bool
  ss_out :: "sse_out list"
  ss_checked :: "json list"

definition sse_init :: sse_state where
  "sse_init = \<lparr>ss_buffer = [], ss_raw = [], ss_lines = [], ss_failed = False, ss_out = [],
     ss_checked = []\<rparr>"

subsection \<open>Events\<close>

definition isDataLine :: "string \<Rightarrow> bool" where
  "isDataLine l \<longleftrightarrow> l = ''data'' \<or> starts_with l ''data:''"

fun data_parts :: "string list \<Rightarrow> string list" where
  "data_parts [] = []"
| "data_parts (l # ls) =
    (if l = ''data'' then [] # data_parts ls
     else if starts_with l ''data:'' then
       (let r = drop 5 l in (if r \<noteq> [] \<and> hd r = CHR '' '' then tl r else r)) # data_parts ls
     else data_parts ls)"

definition eventData :: "string list \<Rightarrow> string option" where
  "eventData ls = (let ds = data_parts ls in if ds = [] then None else Some (join [LF] ds))"

definition isResponse :: "json \<Rightarrow> bool" where
  "isResponse m \<longleftrightarrow> prop_of (Some m) ''result'' \<noteq> None \<or> prop_of (Some m) ''error'' \<noteq> None"

definition isResponseTo :: "json \<Rightarrow> json \<Rightarrow> bool" where
  "isResponseTo m rid \<longleftrightarrow> isResponse m \<and> prop_of (Some m) ''id'' = Some rid"

definition parseMessage :: "(string \<Rightarrow> json option) \<Rightarrow> string \<Rightarrow> json option" where
  "parseMessage jsonParse data =
    (case jsonParse data of
       Some (JObj fs) \<Rightarrow>
         if map_of fs ''jsonrpc'' \<noteq> Some (JStr ''2.0'') then None
         else if \<not> isResponse (JObj fs) \<and> json_text (map_of fs ''method'') = None then None
         else Some (JObj fs)
     | _ \<Rightarrow> None)"

text \<open>What one event gives; the text is what was received, the lines are its lines.\<close>

definition event_out :: "sse_options \<Rightarrow> string \<Rightarrow> string list \<Rightarrow> sse_out list" where
  "event_out opts text ls =
    (case eventData ls of
       None \<Rightarrow> if text \<noteq> [] then [Raw text] else []
     | Some [] \<Rightarrow> if text \<noteq> [] then [Raw text] else []
     | Some data \<Rightarrow>
        (case parseMessage (so_jsonParse opts) data of None \<Rightarrow> []
         | Some m \<Rightarrow>
            let fields = filter (\<lambda>l. \<not> isDataLine l) ls in
            if \<not> isResponse m then [Rebuilt fields m]
            else if so_requestId opts = None \<or> prop_of (Some m) ''id'' \<noteq> so_requestId opts then []
            else [Rebuilt fields (case so_onResponse opts m of None \<Rightarrow> m | Some r \<Rightarrow> r)]))"

text \<open>The responses handed to \<open>onResponse\<close>: those of an event to the request.\<close>

definition event_checked :: "sse_options \<Rightarrow> string list \<Rightarrow> json list" where
  "event_checked opts ls =
    (case eventData ls of
       None \<Rightarrow> []
     | Some [] \<Rightarrow> []
     | Some data \<Rightarrow>
        (case parseMessage (so_jsonParse opts) data of None \<Rightarrow> []
         | Some m \<Rightarrow> if isResponse m \<and> so_requestId opts \<noteq> None \<and> prop_of (Some m) ''id'' = so_requestId opts then [m] else []))"

definition dispatch :: "sse_options \<Rightarrow> sse_state \<Rightarrow> sse_state" where
  "dispatch opts st = st\<lparr>ss_raw := [], ss_lines := [], ss_out := ss_out st @ event_out opts (ss_raw st) (ss_lines st),
     ss_checked := ss_checked st @ event_checked opts (ss_lines st)\<rparr>"

subsection \<open>Lines\<close>

text \<open>\<open>/\r\n|\r|\n/\<close> on the buffer: the line, its end and the rest. A carriage return at the end of the buffer
  waits for more input, unless there is none.\<close>

fun next_line :: "bool \<Rightarrow> string \<Rightarrow> (string \<times> string \<times> string) option" where
  "next_line final [] = None"
| "next_line final (c # cs) =
    (if c = LF then Some ([], [LF], cs)
     else if c = CR then
       (case cs of [] \<Rightarrow> if final then Some ([], [CR], []) else None
        | d # ds \<Rightarrow> if d = LF then Some ([], [CR, LF], ds) else Some ([], [CR], cs))
     else map_option (\<lambda>(l, t, r). (c # l, t, r)) (next_line final cs))"

lemma next_line_split: "next_line final s = Some (l, t, r) \<Longrightarrow> s = l @ t @ r \<and> t \<noteq> []"
  by (induction final s arbitrary: l t r rule: next_line.induct) (auto split: if_splits list.splits)

definition take_line :: "sse_options \<Rightarrow> string \<Rightarrow> string \<Rightarrow> string \<Rightarrow> sse_state \<Rightarrow> sse_state" where
  "take_line opts l t r st =
    (let st1 = st\<lparr>ss_raw := ss_raw st @ l @ t, ss_buffer := r\<rparr>
     in if l = [] then dispatch opts st1 else st1\<lparr>ss_lines := ss_lines st1 @ [l]\<rparr>)"

lemma take_line_buffer [simp]: "ss_buffer (take_line opts l t r st) = r"
  by (simp add: take_line_def dispatch_def Let_def)

function consume_lines :: "sse_options \<Rightarrow> bool \<Rightarrow> sse_state \<Rightarrow> sse_state" where
  "consume_lines opts final st =
    (case next_line final (ss_buffer st) of None \<Rightarrow> st
     | Some (l, t, r) \<Rightarrow> consume_lines opts final (take_line opts l t r st))"
  by pat_completeness auto
termination
  by (relation "measure (\<lambda>(opts, final, st). length (ss_buffer st))") (auto dest!: next_line_split)

declare consume_lines.simps [simp del]

definition consume :: "sse_options \<Rightarrow> bool \<Rightarrow> sse_state \<Rightarrow> sse_state" where
  "consume opts final st =
    (let st1 = consume_lines opts final st in
     if so_maxEventBytes opts < length (ss_raw st1) + length (ss_buffer st1)
     then st1\<lparr>ss_failed := True, ss_out := ss_out st1 @ (if so_tooLarge opts then [Too_large] else [])\<rparr>
     else st1)"

definition feed :: "string \<Rightarrow> sse_state \<Rightarrow> sse_state" where
  "feed chunk st = st\<lparr>ss_buffer := ss_buffer st @ chunk\<rparr>"

definition transform :: "sse_options \<Rightarrow> string \<Rightarrow> sse_state \<Rightarrow> sse_state" where
  "transform opts chunk st = (if ss_failed st then st else consume opts False (feed chunk st))"

definition flush :: "sse_options \<Rightarrow> string \<Rightarrow> sse_state \<Rightarrow> sse_state" where
  "flush opts rest st =
    (if ss_failed st then st
     else let st1 = consume opts True (feed rest st) in
       if ss_failed st1 then st1
       else let st2 = (if ss_buffer st1 \<noteq> []
              then st1\<lparr>ss_raw := ss_raw st1 @ ss_buffer st1, ss_lines := ss_lines st1 @ [ss_buffer st1], ss_buffer := []\<rparr>
              else st1)
            in if ss_raw st2 \<noteq> [] then dispatch opts st2 else st2)"

definition filterSseStream :: "sse_options \<Rightarrow> string list \<Rightarrow> string \<Rightarrow> sse_state" where
  "filterSseStream opts chunks rest = flush opts rest (fold (transform opts) chunks sse_init)"

subsection \<open>Chunks do not matter\<close>

lemma next_line_more:
  "next_line False s = Some (l, t, r) \<Longrightarrow> next_line f (s @ x) = Some (l, t, r @ x)"
  by (induction "False" s arbitrary: l t r rule: next_line.induct) (auto split: if_splits list.splits)

lemma take_line_feed: "take_line opts l t (r @ x) (feed x st) = feed x (take_line opts l t r st)"
  by (simp add: take_line_def feed_def dispatch_def Let_def)

lemma consume_lines_feed:
  "consume_lines opts f (feed x (consume_lines opts False st)) = consume_lines opts f (feed x st)"
proof (induction opts "False" st rule: consume_lines.induct)
  case (1 opts st)
  show ?case
  proof (cases "next_line False (ss_buffer st)")
    case None
    then have "consume_lines opts False st = st" by (subst consume_lines.simps) simp
    then show ?thesis by simp
  next
    case (Some e)
    obtain l t r where e: "e = (l, t, r)" by (cases e) auto
    have n: "next_line f (ss_buffer (feed x st)) = Some (l, t, r @ x)"
      using Some e next_line_more [of "ss_buffer st" l t r f x] by (simp add: feed_def)
    have "consume_lines opts False st = consume_lines opts False (take_line opts l t r st)"
      using Some e by (subst consume_lines.simps) simp
    moreover have "consume_lines opts f (feed x st) = consume_lines opts f (feed x (take_line opts l t r st))"
      using n by (subst consume_lines.simps) (simp add: take_line_feed)
    ultimately show ?thesis using 1 Some e by simp
  qed
qed

lemma feed_feed [simp]: "feed y (feed x st) = feed (x @ y) st"
  by (simp add: feed_def)

lemma dispatch_failed [simp]: "ss_failed (dispatch opts st) = ss_failed st"
  by (simp add: dispatch_def)

lemma consume_lines_failed [simp]: "ss_failed (consume_lines opts final st) = ss_failed st"
proof (induction opts final st rule: consume_lines.induct)
  case (1 opts final st)
  show ?case
    by (subst consume_lines.simps)
       (use 1 in \<open>auto simp: take_line_def Let_def split: option.splits\<close>)
qed

lemma consume_ok: "\<not> ss_failed (consume opts final st) \<Longrightarrow> consume opts final st = consume_lines opts final st"
  by (simp add: consume_def Let_def split: if_splits)

lemma transform_failed: "ss_failed st \<Longrightarrow> ss_failed (fold (transform opts) chunks st)"
  by (induction chunks arbitrary: st) (auto simp: transform_def)

lemma fold_transform:
  assumes "\<not> ss_failed (fold (transform opts) chunks st)" "st = consume_lines opts False st0" "\<not> ss_failed st"
  shows "fold (transform opts) chunks st = consume_lines opts False (feed (concat chunks) st0)"
  using assms
proof (induction chunks arbitrary: st st0)
  case Nil
  then show ?case by (simp add: feed_def)
next
  case (Cons c cs)
  let ?st = "transform opts c st"
  have nf: "\<not> ss_failed ?st" using Cons.prems(1) transform_failed by auto
  then have "?st = consume_lines opts False (feed c st)"
    using Cons.prems(3) consume_ok by (simp add: transform_def)
  then have "?st = consume_lines opts False (feed c st0)"
    unfolding Cons.prems(2) by (simp add: consume_lines_feed)
  from Cons.IH [OF _ this nf] Cons.prems(1) show ?case by simp
qed

lemma consume_lines_init: "consume_lines opts False sse_init = sse_init"
  by (subst consume_lines.simps) (simp add: sse_init_def)

definition finish :: "sse_options \<Rightarrow> sse_state \<Rightarrow> sse_state" where
  "finish opts st =
    (let st2 = (if ss_buffer st \<noteq> []
       then st\<lparr>ss_raw := ss_raw st @ ss_buffer st, ss_lines := ss_lines st @ [ss_buffer st], ss_buffer := []\<rparr> else st)
     in if ss_raw st2 \<noteq> [] then dispatch opts st2 else st2)"

lemma finish_failed [simp]: "ss_failed (finish opts st) = ss_failed st"
  by (simp add: finish_def Let_def)

lemma filterSseStream_ok:
  assumes "\<not> ss_failed (filterSseStream opts chunks rest)"
  shows "filterSseStream opts chunks rest = finish opts (consume_lines opts True (feed (concat chunks @ rest) sse_init))"
proof -
  let ?st = "fold (transform opts) chunks sse_init"
  have ok: "\<not> ss_failed ?st" using assms by (auto simp: filterSseStream_def flush_def)
  have st: "?st = consume_lines opts False (feed (concat chunks) sse_init)"
    by (rule fold_transform [OF ok]) (simp_all add: consume_lines_init sse_init_def [THEN arg_cong, of ss_failed])
  have c: "\<not> ss_failed (consume opts True (feed rest ?st))"
    using assms ok by (auto simp: filterSseStream_def flush_def Let_def split: if_splits)
  have "filterSseStream opts chunks rest = finish opts (consume opts True (feed rest ?st))"
    using ok c by (simp add: filterSseStream_def flush_def finish_def Let_def)
  also have "consume opts True (feed rest ?st) = consume_lines opts True (feed rest ?st)"
    using c by (rule consume_ok)
  also have "\<dots> = consume_lines opts True (feed (concat chunks @ rest) sse_init)"
    unfolding st by (simp add: consume_lines_feed)
  finally show ?thesis .
qed

text \<open>C24. How a stream is cut into chunks does not change what the client gets: two ways to receive the same text,
  neither stopped by the size limit, give the same events (a line end split between chunks included).\<close>

theorem sse_chunking_irrelevant:
  assumes "concat chunks @ rest = concat chunks' @ rest'"
    and "\<not> ss_failed (filterSseStream opts chunks rest)" "\<not> ss_failed (filterSseStream opts chunks' rest')"
  shows "filterSseStream opts chunks rest = filterSseStream opts chunks' rest'"
  using filterSseStream_ok [OF assms(2)] filterSseStream_ok [OF assms(3)] assms(1) by simp

definition sample_sse :: sse_options where
  "sample_sse = \<lparr>so_requestId = Some (JStr ''r1''), so_maxEventBytes = 64, so_onResponse = (\<lambda>m. None), so_tooLarge = True,
     so_jsonParse = (\<lambda>t. if t = ''yes'' then Some (JObj [(''jsonrpc'', JStr ''2.0''), (''id'', JStr ''r1''), (''result'', JNull)])
       else if t = ''other'' then Some (JObj [(''jsonrpc'', JStr ''2.0''), (''id'', JStr ''r2''), (''result'', JNull)]) else None)\<rparr>"

theorem sse_chunking_irrelevant_witness:
  "filterSseStream sample_sse [''data: ye'', ''s'' @ [CR], [LF, CR], [LF]] [] =
     filterSseStream sample_sse [''data: yes'' @ [CR, LF, CR, LF]] [] \<and>
   ss_out (filterSseStream sample_sse [''data: yes'' @ [CR, LF, CR, LF]] []) \<noteq> []"
proof -
  have "\<not> ss_failed (filterSseStream sample_sse [''data: ye'', ''s'' @ [CR], [LF, CR], [LF]] [])"
    "\<not> ss_failed (filterSseStream sample_sse [''data: yes'' @ [CR, LF, CR, LF]] [])"
    "ss_out (filterSseStream sample_sse [''data: yes'' @ [CR, LF, CR, LF]] []) \<noteq> []"
    by code_simp+
  moreover have "filterSseStream sample_sse [''data: ye'', ''s'' @ [CR], [LF, CR], [LF]] [] =
      filterSseStream sample_sse [''data: yes'' @ [CR, LF, CR, LF]] []"
    by (rule sse_chunking_irrelevant) (simp, fact+)
  ultimately show ?thesis by blast
qed

text \<open>The size limit does depend on the chunks: an event over it is passed on when it comes in one chunk.\<close>

lemma oversize_event_released:
  "ss_out (filterSseStream (sample_sse\<lparr>so_maxEventBytes := 4\<rparr>) [''data: yes'' @ [LF, LF]] []) =
     ss_out (filterSseStream sample_sse [''data: yes'' @ [LF, LF]] []) \<and>
   ss_out (filterSseStream (sample_sse\<lparr>so_maxEventBytes := 4\<rparr>) [''data: yes'', [LF, LF]] []) = [Too_large]"
  by code_simp

subsection \<open>What is released\<close>

text \<open>The lines of a text.\<close>

function split_lines :: "string \<Rightarrow> string list" where
  "split_lines s = (case next_line True s of None \<Rightarrow> if s = [] then [] else [s] | Some (l, t, r) \<Rightarrow> l # split_lines r)"
  by pat_completeness auto
termination
  by (relation "measure length") (auto dest!: next_line_split)

declare split_lines.simps [simp del]

definition starts_LF :: "string \<Rightarrow> bool" where
  "starts_LF s \<longleftrightarrow> s \<noteq> [] \<and> hd s = LF"

definition ends_CR :: "string \<Rightarrow> bool" where
  "ends_CR s \<longleftrightarrow> s \<noteq> [] \<and> last s = CR"

text \<open>Text made of whole lines.\<close>

definition closed :: "string \<Rightarrow> bool" where
  "closed s \<longleftrightarrow> s = [] \<or> last s = CR \<or> last s = LF"

lemma next_line_none: "next_line True s = None \<longleftrightarrow> CR \<notin> set s \<and> LF \<notin> set s"
  by (induction True s rule: next_line.induct) (auto split: list.splits)

lemma next_line_append:
  assumes "next_line True s = Some (l, t, r)" "\<not> (ends_CR s \<and> starts_LF x)"
  shows "next_line True (s @ x) = Some (l, t, r @ x)"
  using assms
proof (induction True s arbitrary: l t r rule: next_line.induct)
  case (2 c cs)
  show ?case
  proof (cases "c = LF \<or> c = CR")
    case True
    with 2(2,3) show ?thesis
      by (cases cs; cases x) (auto simp: ends_CR_def starts_LF_def split: if_splits)
  next
    case False
    with 2(2) obtain l' where l: "next_line True cs = Some (l', t, r)" "l = c # l'" by auto
    then have "cs \<noteq> []" by auto
    with 2(3) have "\<not> (ends_CR cs \<and> starts_LF x)" by (auto simp: ends_CR_def)
    with 2(1) False l show ?thesis by simp
  qed
qed simp

lemma next_line_closed:
  "next_line True s = Some (l, t, r) \<Longrightarrow> closed s \<Longrightarrow> closed r \<and> (ends_CR s \<longleftrightarrow> ends_CR r \<or> r = [] \<and> ends_CR s)"
  using next_line_split [of True s l t r] by (auto simp: closed_def ends_CR_def)

lemma split_lines_append:
  assumes "closed s" "\<not> (ends_CR s \<and> starts_LF x)"
  shows "split_lines (s @ x) = split_lines s @ split_lines x"
  using assms
proof (induction s rule: split_lines.induct)
  case (1 s)
  show ?case
  proof (cases "next_line True s")
    case None
    with 1(2) have "s = []" by (auto simp: next_line_none closed_def) (metis last_in_set)+
    then show ?thesis by (simp add: split_lines.simps [of "[]"])
  next
    case (Some e)
    obtain l t r where e: "e = (l, t, r)" by (cases e) auto
    have r: "closed r" "ends_CR r \<longrightarrow> ends_CR s" using next_line_closed Some e 1(2) by auto
    then have "split_lines (r @ x) = split_lines r @ split_lines x" using 1 Some e by auto
    moreover have "split_lines (s @ x) = l # split_lines (r @ x)"
      using next_line_append [of s l t r x] Some e 1(3) by (subst split_lines.simps) simp
    moreover have "split_lines s = l # split_lines r" using Some e by (subst split_lines.simps) simp
    ultimately show ?thesis by simp
  qed
qed

text \<open>What may be written: text without data, or a message of the stream that is no response or is the response
  to the request, as its check left it, after fields that hold no data.\<close>

definition released_ok :: "sse_options \<Rightarrow> sse_out \<Rightarrow> bool" where
  "released_ok opts e \<longleftrightarrow>
    (case e of
       Raw text \<Rightarrow> eventData (split_lines text) \<in> {None, Some []}
     | Rebuilt fs m \<Rightarrow> \<not> list_ex isDataLine fs \<and>
         (\<exists>data m0. parseMessage (so_jsonParse opts) data = Some m0 \<and>
            (\<not> isResponse m0 \<and> m = m0 \<or>
             (\<exists>rid. so_requestId opts = Some rid \<and> isResponseTo m0 rid \<and>
                m = (case so_onResponse opts m0 of None \<Rightarrow> m0 | Some r \<Rightarrow> r))))
     | Too_large \<Rightarrow> so_tooLarge opts)"

lemma data_parts_append: "data_parts (xs @ ys) = data_parts xs @ data_parts ys"
  by (induction xs rule: data_parts.induct) (auto simp: Let_def)

lemma event_out_released:
  assumes "split_lines text = ls \<or> split_lines text = ls @ [[]]" "e \<in> set (event_out opts text ls)"
  shows "released_ok opts e"
proof -
  have d: "eventData (split_lines text) = eventData ls"
    using assms(1) by (auto simp: eventData_def data_parts_append)
  show ?thesis
  proof (cases "eventData ls")
    case None
    with assms(2) d show ?thesis by (auto simp: event_out_def released_ok_def split: if_splits)
  next
    case (Some data)
    show ?thesis
    proof (cases data)
      case Nil
      with Some assms(2) d show ?thesis by (auto simp: event_out_def released_ok_def split: if_splits)
    next
      case (Cons c cs)
      show ?thesis
      proof (cases "parseMessage (so_jsonParse opts) data")
        case None
        with Some Cons assms(2) show ?thesis by (simp add: event_out_def)
      next
        case m: (Some m0)
        have f: "\<not> list_ex isDataLine (filter (\<lambda>l. \<not> isDataLine l) ls)" by (auto simp: list_ex_iff)
        let ?fs = "filter (\<lambda>l. \<not> isDataLine l) ls"
        from Some Cons assms(2) m have "\<not> isResponse m0 \<and> e = Rebuilt ?fs m0 \<or>
            (\<exists>rid. so_requestId opts = Some rid \<and> isResponseTo m0 rid \<and>
               e = Rebuilt ?fs (case so_onResponse opts m0 of None \<Rightarrow> m0 | Some r \<Rightarrow> r))"
          by (auto simp: event_out_def isResponseTo_def Let_def split: if_splits)
        then show ?thesis
          by (elim disjE exE conjE; simp only: released_ok_def sse_out.case; intro conjI exI [of _ data] exI [of _ m0])
             (use m f in auto)
      qed
    qed
  qed
qed

definition lines_ok :: "bool \<Rightarrow> sse_state \<Rightarrow> bool" where
  "lines_ok final st \<longleftrightarrow> split_lines (ss_raw st) = ss_lines st \<and> closed (ss_raw st) \<and>
     (ends_CR (ss_raw st) \<longrightarrow> \<not> starts_LF (ss_buffer st) \<and> (final \<or> ss_buffer st \<noteq> []))"

definition all_released :: "sse_options \<Rightarrow> sse_state \<Rightarrow> bool" where
  "all_released opts st \<longleftrightarrow> (\<forall>e \<in> set (ss_out st). released_ok opts e)"

lemma next_line_shape:
  "next_line final s = Some (l, t, r) \<Longrightarrow> CR \<notin> set l \<and> LF \<notin> set l \<and>
   (t = [LF] \<or> t = [CR, LF] \<or> t = [CR] \<and> \<not> starts_LF r \<and> (final \<or> r \<noteq> []))"
  by (induction final s arbitrary: l t r rule: next_line.induct) (auto simp: starts_LF_def split: if_splits list.splits)

lemma next_line_exact:
  "CR \<notin> set l \<Longrightarrow> LF \<notin> set l \<Longrightarrow> t \<in> {[LF], [CR, LF], [CR]} \<Longrightarrow> next_line True (l @ t) = Some (l, t, [])"
  by (induction l) auto

lemma split_lines_Nil [simp]: "split_lines [] = []"
  by (simp add: split_lines.simps [of "[]"])

lemma split_lines_line:
  "CR \<notin> set l \<Longrightarrow> LF \<notin> set l \<Longrightarrow> t \<in> {[LF], [CR, LF], [CR]} \<Longrightarrow> split_lines (l @ t) = [l]"
  using next_line_exact [of l t] by (subst split_lines.simps) simp

lemma take_line_ok:
  assumes "lines_ok final st" "next_line final (ss_buffer st) = Some (l, t, r)" "all_released opts st"
  shows "lines_ok final (take_line opts l t r st) \<and> all_released opts (take_line opts l t r st)"
proof -
  from next_line_shape [OF assms(2)] have shape: "CR \<notin> set l" "LF \<notin> set l" "t \<in> {[LF], [CR, LF], [CR]}"
    and cr: "t = [CR] \<longrightarrow> \<not> starts_LF r \<and> (final \<or> r \<noteq> [])" by auto
  have "starts_LF (ss_buffer st) \<longleftrightarrow> starts_LF (l @ t)"
    using next_line_split [OF assms(2)] by (auto simp: starts_LF_def hd_append)
  with assms(1) have "\<not> (ends_CR (ss_raw st) \<and> starts_LF (l @ t))" by (auto simp: lines_ok_def)
  with assms(1) split_lines_append [of "ss_raw st" "l @ t"] split_lines_line [OF shape]
  have sl: "split_lines (ss_raw st @ l @ t) = ss_lines st @ [l]" by (simp add: lines_ok_def)
  have cl: "closed (ss_raw st @ l @ t)" "ends_CR (ss_raw st @ l @ t) \<longrightarrow> t = [CR]"
    using shape(3) by (auto simp: closed_def ends_CR_def)
  show ?thesis
  proof (cases l)
    case Nil
    have "released_ok opts e" if "e \<in> set (event_out opts (ss_raw st @ t) (ss_lines st))" for e
      by (rule event_out_released [OF _ that]) (use sl Nil in simp)
    with Nil assms(3) show ?thesis
      by (auto simp: take_line_def dispatch_def lines_ok_def all_released_def closed_def ends_CR_def)
  next
    case (Cons c cs)
    with sl cl cr assms(3) show ?thesis by (auto simp: take_line_def lines_ok_def all_released_def)
  qed
qed

lemma consume_lines_ok:
  "lines_ok final st \<Longrightarrow> all_released opts st \<Longrightarrow>
   lines_ok final (consume_lines opts final st) \<and> all_released opts (consume_lines opts final st) \<and>
   next_line final (ss_buffer (consume_lines opts final st)) = None"
proof (induction opts final st rule: consume_lines.induct)
  case (1 opts final st)
  show ?case
  proof (cases "next_line final (ss_buffer st)")
    case None
    with 1(2,3) show ?thesis by (subst (1 2 3) consume_lines.simps) simp
  next
    case (Some e)
    obtain l t r where e: "e = (l, t, r)" by (cases e) auto
    with Some take_line_ok 1(2,3) have "lines_ok final (take_line opts l t r st) \<and> all_released opts (take_line opts l t r st)"
      by blast
    with 1(1) Some e show ?thesis by (subst (1 2 3) consume_lines.simps) simp
  qed
qed

lemma consume_released:
  assumes "lines_ok final st" "all_released opts st"
  shows "all_released opts (consume opts final st)"
  using consume_lines_ok [OF assms]
  by (auto simp: consume_def Let_def all_released_def released_ok_def)

lemma consume_lines_inv:
  assumes "lines_ok final st" "all_released opts st" "\<not> ss_failed (consume opts final st)"
  shows "lines_ok final (consume opts final st) \<and> next_line final (ss_buffer (consume opts final st)) = None"
  unfolding consume_ok [OF assms(3)] using consume_lines_ok [OF assms(1,2)] by blast

lemma lines_ok_feed: "lines_ok False st \<Longrightarrow> lines_ok final (feed x st)"
  by (auto simp: lines_ok_def feed_def starts_LF_def)

lemma all_released_feed [simp]: "all_released opts (feed x st) = all_released opts st"
  by (simp add: all_released_def feed_def)

lemma transform_inv:
  assumes "ss_failed st \<or> lines_ok False st" "all_released opts st"
  shows "(ss_failed (transform opts c st) \<or> lines_ok False (transform opts c st)) \<and> all_released opts (transform opts c st)"
proof (cases "ss_failed st")
  case False
  with assms have f: "lines_ok False (feed c st)" "all_released opts (feed c st)" by (simp_all add: lines_ok_feed)
  from consume_released [OF f] consume_lines_inv [OF f] False show ?thesis by (auto simp: transform_def)
qed (use assms in \<open>simp add: transform_def\<close>)

lemma fold_transform_inv:
  assumes "ss_failed st \<or> lines_ok False st" "all_released opts st"
  shows "(ss_failed (fold (transform opts) cs st) \<or> lines_ok False (fold (transform opts) cs st)) \<and>
    all_released opts (fold (transform opts) cs st)"
  using assms
proof (induction cs arbitrary: st)
  case (Cons c cs)
  from transform_inv [OF Cons.prems, of c] Cons.IH [of "transform opts c st"] show ?case by simp
qed simp

lemma finish_released:
  assumes "lines_ok True st" "next_line True (ss_buffer st) = None" "all_released opts st"
  shows "all_released opts (finish opts st)"
proof -
  let ?raw = "ss_raw st @ ss_buffer st"
  have "split_lines ?raw = ss_lines st @ (if ss_buffer st = [] then [] else [ss_buffer st])"
    using assms(1,2) split_lines_append [of "ss_raw st" "ss_buffer st"]
    by (auto simp: lines_ok_def split_lines.simps [of "ss_buffer st"])
  then have "released_ok opts e"
    if "e \<in> set (event_out opts ?raw (ss_lines st @ (if ss_buffer st = [] then [] else [ss_buffer st])))" for e
    using event_out_released that by blast
  with assms(3) show ?thesis
    by (auto simp: finish_def dispatch_def all_released_def Let_def split: if_splits)
qed

lemma filterSseStream_released:
  assumes "e \<in> set (ss_out (filterSseStream opts chunks rest))"
  shows "released_ok opts e"
proof -
  let ?st = "fold (transform opts) chunks sse_init"
  have init: "lines_ok False sse_init" "all_released opts sse_init"
    by (simp_all add: lines_ok_def all_released_def sse_init_def closed_def ends_CR_def)
  with fold_transform_inv have st: "ss_failed ?st \<or> lines_ok False ?st" "all_released opts ?st" by blast+
  have "all_released opts (flush opts rest ?st)"
  proof (cases "ss_failed ?st")
    case True
    with st show ?thesis by (simp add: flush_def)
  next
    case False
    with st have f: "lines_ok True (feed rest ?st)" "all_released opts (feed rest ?st)" by (auto intro: lines_ok_feed)
    let ?c = "consume opts True (feed rest ?st)"
    have "flush opts rest ?st = (if ss_failed ?c then ?c else finish opts ?c)"
      using False by (simp add: flush_def finish_def Let_def)
    then show ?thesis
      using consume_released [OF f] consume_lines_inv [OF f] finish_released by simp
  qed
  with assms show ?thesis by (simp add: filterSseStream_def all_released_def)
qed

text \<open>C23. Whatever the server sends and however it is cut into chunks, all that reaches the client is text without data,
  messages of the stream that are no responses, the response to the client's own request as its check left
  it, and the gateway's own error; on a stream that is not the answer to a request (no request id) no
  response is released.\<close>

theorem sse_releases_only_checked:
  assumes "e \<in> set (ss_out (filterSseStream opts chunks rest))"
  shows "released_ok opts e"
  using assms by (rule filterSseStream_released)

theorem sse_releases_only_checked_witness:
  "released_ok sample_sse (Rebuilt [''id: 9''] (JObj [(''jsonrpc'', JStr ''2.0''), (''id'', JStr ''r1''), (''result'', JNull)])) \<and>
   ss_out (filterSseStream sample_sse [''data: other'' @ [LF, LF], ''id: 9'' @ [LF] @ ''data: yes'' @ [LF]] []) =
     [Rebuilt [''id: 9''] (JObj [(''jsonrpc'', JStr ''2.0''), (''id'', JStr ''r1''), (''result'', JNull)])]"
proof -
  have o: "ss_out (filterSseStream sample_sse [''data: other'' @ [LF, LF], ''id: 9'' @ [LF] @ ''data: yes'' @ [LF]] []) =
     [Rebuilt [''id: 9''] (JObj [(''jsonrpc'', JStr ''2.0''), (''id'', JStr ''r1''), (''result'', JNull)])]"
    by code_simp
  then have "released_ok sample_sse (Rebuilt [''id: 9''] (JObj [(''jsonrpc'', JStr ''2.0''), (''id'', JStr ''r1''), (''result'', JNull)]))"
    by (intro sse_releases_only_checked [where chunks = "[''data: other'' @ [LF, LF], ''id: 9'' @ [LF] @ ''data: yes'' @ [LF]]"
          and rest = "[]"]) simp
  with o show ?thesis by blast
qed

end
