(* ===== verification/Mcp_Handler.thy ===== *)
theory Mcp_Handler
  imports Mcp_Request Mcp_Sse
begin

text \<open>
  The MCP proxy handler (\<open>src/mcp/handler.ts\<close>): the upstream request and its headers, and what of the upstream
  server's answer reaches the client. The request's checks are in \<open>Mcp_Request\<close>, the lists in \<open>Mcp_Policy\<close>, the
  guardrails in \<open>Mcp_Guardrails\<close> and the stream filter in \<open>Mcp_Sse\<close>. The request itself, hashes, sanitising of
  text and base64 are parameters; metrics, events and logs are left out. Other requests may change the state of
  the lists while the upstream server answers: the answer is checked in the state found then.
\<close>

subsection \<open>Headers\<close>

definition FORWARDED_REQUEST_HEADERS :: "string list" where
  "FORWARDED_REQUEST_HEADERS = [''accept'', ''mcp-protocol-version'', ''mcp-session-id'', ''mcp-method'', ''mcp-name'', ''last-event-id'']"

definition FORWARDED_RESPONSE_HEADERS :: "string list" where
  "FORWARDED_RESPONSE_HEADERS = [''content-type'', ''mcp-session-id'', ''retry-after'']"

text \<open>\<open>/^mcp-param-[A-Za-z0-9!#$%&'*+.^_`|~-]{1,64}$/i\<close> and \<open>/^[\x21-\x7E]{1,256}$/\<close>\<close>

definition MCP_PARAM_HEADER :: "string \<Rightarrow> bool" where
  "MCP_PARAM_HEADER n \<longleftrightarrow> starts_with (to_lower n) ''mcp-param-'' \<and> TOKEN_NAME (drop 10 n)"

definition SAFE_HEADER_VALUE :: "string \<Rightarrow> bool" where
  "SAFE_HEADER_VALUE v \<longleftrightarrow> 1 \<le> length v \<and> length v \<le> 256 \<and> list_all (\<lambda>c. (33::nat) \<le> of_char c \<and> of_char c \<le> (126::nat)) v"

definition JSON_TYPE :: string where "JSON_TYPE = ''application/json''"
definition SSE_TYPE :: string where "SSE_TYPE = ''text/event-stream''"

text \<open>The names of a header map are lower-cased, as \<open>Headers\<close> keeps them.\<close>

definition copy_header :: "header_map \<Rightarrow> string \<Rightarrow> header_map \<Rightarrow> header_map" where
  "copy_header hs n out = (case jm_get hs n of None \<Rightarrow> out | Some v \<Rightarrow> jm_set n v out)"

definition copy_param :: "string \<times> string \<Rightarrow> header_map \<Rightarrow> header_map" where
  "copy_param e out = (if MCP_PARAM_HEADER (fst e) then jm_set (fst e) (snd e) out else out)"

definition upstreamHeaders :: "header_map \<Rightarrow> mcp_server \<Rightarrow> bool \<Rightarrow> header_map" where
  "upstreamHeaders hs server hasBody =
    (let copied = fold copy_param hs (fold (copy_header hs) FORWARDED_REQUEST_HEADERS []);
         accepting = (if jm_get copied ''accept'' = None then jm_set ''accept'' (JSON_TYPE @ '', '' @ SSE_TYPE) copied else copied);
         typed = (if hasBody then jm_set ''content-type'' JSON_TYPE accepting else accepting)
     in case sv_authHeader server of None \<Rightarrow> typed | Some (n, v) \<Rightarrow> jm_set n v typed)"

definition clientHeaders :: "header_map \<Rightarrow> bool \<Rightarrow> header_map" where
  "clientHeaders hs streaming =
    (let out = fold (\<lambda>n out. case jm_get hs n of None \<Rightarrow> out
                 | Some v \<Rightarrow> if n \<noteq> ''content-type'' \<and> \<not> SAFE_HEADER_VALUE v then out else jm_set n v out)
               FORWARDED_RESPONSE_HEADERS []
     in if streaming then jm_set ''x-accel-buffering'' ''no'' (jm_set ''cache-control'' ''no-cache'' out) else out)"

subsection \<open>The upstream call\<close>

text \<open>An answer: its status and headers, its body as \<open>readLimited\<close> reads it (\<open>None\<close> when too large or too slow),
  and its body as a stream of decoded chunks, when it has one.\<close>

record upstream_answer =
  ua_status :: nat
  ua_headers :: header_map
  ua_text :: "string option"
  ua_stream :: "(string list \<times> string) option"

datatype upstream_error = Unsafe_url | Timed_out | Not_reached

datatype upstream_result = Upstream upstream_answer | No_upstream upstream_error

record proxy_env =
  px_env :: mcp_env
  px_safe :: "string \<Rightarrow> bool"
  px_fetch :: "string \<Rightarrow> string \<Rightarrow> header_map \<Rightarrow> string option \<Rightarrow> upstream_result"
  px_hash :: "json \<Rightarrow> string"
  px_san :: "string \<Rightarrow> nat \<Rightarrow> string"
  px_decodeText :: "string \<Rightarrow> string"

definition callUpstream :: "proxy_env \<Rightarrow> header_map \<Rightarrow> mcp_server \<Rightarrow> string \<Rightarrow> string option \<Rightarrow> upstream_result" where
  "callUpstream x hs server meth body =
    (if \<not> px_safe x (sv_url server) then No_upstream Unsafe_url
     else px_fetch x (sv_url server) meth (upstreamHeaders hs server (body \<noteq> None)) body)"

subsection \<open>Answers\<close>

datatype mcp_answer =
    Rpc_answer nat json mcp_code
  | Json_answer nat header_map json
  | Stream_answer nat header_map "sse_out list"
  | Empty_answer nat header_map

definition upstreamFailure :: "json \<Rightarrow> upstream_error \<Rightarrow> mcp_answer" where
  "upstreamFailure rid e = Rpc_answer (if e = Timed_out then 504 else 502) rid Upstream_error"

definition withoutBody :: "upstream_answer \<Rightarrow> mcp_answer" where
  "withoutBody u = Empty_answer (ua_status u) (jm_del ''content-type'' (clientHeaders (ua_headers u) False))"

definition ua_ok :: "upstream_answer \<Rightarrow> bool" where
  "ua_ok u \<longleftrightarrow> 200 \<le> ua_status u \<and> ua_status u < 300"

definition credential_rejected :: "upstream_answer \<Rightarrow> bool" where
  "credential_rejected u \<longleftrightarrow> ua_status u = 401 \<or> ua_status u = 403"

definition contentTypeOf :: "upstream_answer \<Rightarrow> string" where
  "contentTypeOf u = media_type (jm_get (ua_headers u) ''content-type'')"

text \<open>The JSON-RPC error in the body of an HTTP error, rebuilt with the request's id.\<close>

definition error_fields :: "json option \<Rightarrow> (string \<times> json) list option" where
  "error_fields e =
    (case e of
       Some (JObj es) \<Rightarrow>
         (case (map_of es ''code'', map_of es ''message'') of
            (Some (JNum n), Some (JStr t)) \<Rightarrow>
              if js_integer n = None then None
              else Some ([(''code'', JNum n), (''message'', JStr t)]
                @ (case map_of es ''data'' of None \<Rightarrow> [] | Some d \<Rightarrow> [(''data'', d)]))
          | _ \<Rightarrow> None)
     | _ \<Rightarrow> None)"

definition upstreamErrorMessage :: "proxy_env \<Rightarrow> json \<Rightarrow> upstream_answer \<Rightarrow> json option" where
  "upstreamErrorMessage x rid u =
    (if contentTypeOf u \<noteq> JSON_TYPE then None
     else case ua_text u of None \<Rightarrow> None
     | Some text \<Rightarrow>
        (case me_jsonParse (px_env x) text of
           Some (JObj fs) \<Rightarrow>
             if map_of fs ''result'' \<noteq> None \<or> map_of fs ''id'' \<notin> {Some rid, Some JNull} then None
             else map_option (\<lambda>es. JObj [(''jsonrpc'', JStr ''2.0''), (''id'', rid), (''error'', JObj es)])
                    (error_fields (map_of fs ''error''))
         | _ \<Rightarrow> None))"

definition errorMessage :: "json \<Rightarrow> mcp_code \<Rightarrow> string \<Rightarrow> json" where
  "errorMessage rid c text = JObj [(''jsonrpc'', JStr ''2.0''), (''id'', rid),
     (''error'', JObj [(''code'', JNum (Fin (of_int (code_number c)))), (''message'', JStr text)])]"

text \<open>\<open>onResponse\<close>: the check of the response to \<open>tools/list\<close> or \<open>tools/call\<close>, giving a replacement.\<close>

definition onResponse ::
  "proxy_env \<Rightarrow> mcp_server \<Rightarrow> mcp_tool_rule option \<Rightarrow> string \<Rightarrow> json \<Rightarrow> json \<Rightarrow> mcp_state \<Rightarrow> json option \<times> mcp_state" where
  "onResponse x server rule meth rid response st =
    (if meth = ''tools/list'' then
       if truthy_json (prop_of (Some response) ''error'') then (None, st)
       else let (filtered, st') = filterToolsList server (px_hash x) (px_san x) (groupToolAllowed rule)
                   (prop_of (Some response) ''result'') st
            in (Some (JObj (jm_set ''result'' (fl_result filtered) (spread response))), st')
     else if mcpGuardrailsBlock (me_runHooks (px_env x)) (sv_outputGuardrails server)
               (toolResultText (me_stringify (px_env x)) (px_decodeText x) response)
     then (Some (errorMessage rid Guardrail_blocked ''The tool result was blocked by a guardrail''), st)
     else (None, st))"

definition inspected :: "string option \<Rightarrow> bool" where
  "inspected meth \<longleftrightarrow> meth = Some ''tools/list'' \<or> meth = Some ''tools/call''"

text \<open>A message of the upstream server and what the client gets for it.\<close>

definition checked_answer ::
  "proxy_env \<Rightarrow> mcp_server \<Rightarrow> mcp_tool_rule option \<Rightarrow> string option \<Rightarrow> json \<Rightarrow> upstream_answer \<Rightarrow> json \<Rightarrow> mcp_state
   \<Rightarrow> mcp_answer \<times> mcp_state" where
  "checked_answer x server rule meth rid u m st =
    (let (replacement, st') = (if inspected meth then onResponse x server rule (the meth) rid m st else (None, st))
     in (Json_answer (ua_status u) (clientHeaders (ua_headers u) False) (case replacement of None \<Rightarrow> m | Some r \<Rightarrow> r), st'))"

definition stream_options ::
  "proxy_env \<Rightarrow> mcp_server \<Rightarrow> mcp_tool_rule option \<Rightarrow> string option \<Rightarrow> json \<Rightarrow> mcp_state \<Rightarrow> sse_options" where
  "stream_options x server rule meth rid st =
    \<lparr>so_requestId = Some rid, so_maxEventBytes = sv_maxResponseBytes server,
     so_onResponse = (\<lambda>m. if inspected meth then fst (onResponse x server rule (the meth) rid m st) else None),
     so_tooLarge = True, so_jsonParse = me_jsonParse (px_env x)\<rparr>"

text \<open>The stream of an answer: each response to the request is checked in turn.\<close>

definition stream_answer ::
  "proxy_env \<Rightarrow> mcp_server \<Rightarrow> mcp_tool_rule option \<Rightarrow> string option \<Rightarrow> json \<Rightarrow> upstream_answer \<Rightarrow> string list \<times> string \<Rightarrow> mcp_state
   \<Rightarrow> mcp_answer \<times> mcp_state" where
  "stream_answer x server rule meth rid u body st =
    (let end_state = filterSseStream (stream_options x server rule meth rid st) (fst body) (snd body)
     in (Stream_answer (ua_status u) (clientHeaders (ua_headers u) True) (ss_out end_state),
         if inspected meth
         then fold (\<lambda>m st. snd (onResponse x server rule (the meth) rid m st)) (ss_checked end_state) st else st))"

definition json_answer ::
  "proxy_env \<Rightarrow> mcp_server \<Rightarrow> mcp_tool_rule option \<Rightarrow> string option \<Rightarrow> json \<Rightarrow> upstream_answer \<Rightarrow> mcp_state
   \<Rightarrow> mcp_answer \<times> mcp_state" where
  "json_answer x server rule meth rid u st =
    (case (case ua_text u of None \<Rightarrow> None | Some t \<Rightarrow> me_jsonParse (px_env x) t) of
       None \<Rightarrow> (Rpc_answer 502 rid Upstream_error, st)
     | Some m \<Rightarrow> if isResponseTo m rid then checked_answer x server rule meth rid u m st
                 else (Rpc_answer 502 rid Upstream_error, st))"

definition post_answer ::
  "proxy_env \<Rightarrow> mcp_server \<Rightarrow> mcp_tool_rule option \<Rightarrow> json \<Rightarrow> upstream_result \<Rightarrow> mcp_state \<Rightarrow> mcp_answer \<times> mcp_state" where
  "post_answer x server rule message up st =
    (let meth = json_text (prop_of (Some message) ''method''); rid = message_id message in
     case up of No_upstream e \<Rightarrow> (upstreamFailure rid e, st)
     | Upstream u \<Rightarrow>
        if credential_rejected u then (Rpc_answer 502 rid Upstream_error, st)
        else if meth = None \<or> rid = JNull then (withoutBody u, st)
        else if ua_status u = 202 then (Rpc_answer 502 rid Upstream_error, st)
        else if \<not> ua_ok u then
          (case upstreamErrorMessage x rid u of
             None \<Rightarrow> (Rpc_answer (ua_status u) rid Upstream_error, st)
           | Some e \<Rightarrow> checked_answer x server rule meth rid u e st)
        else if contentTypeOf u = SSE_TYPE \<and> ua_stream u \<noteq> None
        then stream_answer x server rule meth rid u (the (ua_stream u)) st
        else if contentTypeOf u = JSON_TYPE then json_answer x server rule meth rid u st
        else (Rpc_answer 502 rid Upstream_error, st))"

text \<open>GET opens the server's stream, where no response is released; DELETE ends a session.\<close>

definition get_options :: "proxy_env \<Rightarrow> mcp_server \<Rightarrow> sse_options" where
  "get_options x server = \<lparr>so_requestId = None, so_maxEventBytes = sv_maxResponseBytes server, so_onResponse = (\<lambda>_. None),
     so_tooLarge = False, so_jsonParse = me_jsonParse (px_env x)\<rparr>"

definition other_answer :: "proxy_env \<Rightarrow> mcp_server \<Rightarrow> string \<Rightarrow> upstream_result \<Rightarrow> mcp_answer" where
  "other_answer x server meth up =
    (case up of No_upstream e \<Rightarrow> upstreamFailure JNull e
     | Upstream u \<Rightarrow>
        if credential_rejected u then Rpc_answer 502 JNull Upstream_error
        else if meth = ''GET'' \<and> ua_ok u \<and> ua_stream u \<noteq> None \<and> contentTypeOf u = SSE_TYPE then
          Stream_answer (ua_status u) (clientHeaders (ua_headers u) True)
            (ss_out (filterSseStream (get_options x server) (fst (the (ua_stream u))) (snd (the (ua_stream u)))))
        else withoutBody u)"

text \<open>The handler; \<open>later\<close> is what other requests did to the state during the upstream call.\<close>

definition mcpHandler :: "proxy_env \<Rightarrow> (mcp_state \<Rightarrow> mcp_state) \<Rightarrow> mcp_post \<Rightarrow> mcp_state \<Rightarrow> mcp_answer \<times> mcp_state" where
  "mcpHandler x later p st =
    (case admit_server (px_env x) p of Inl (s, c) \<Rightarrow> (Rpc_answer s JNull c, st)
     | Inr (server, rule) \<Rightarrow>
        if mp_method p \<noteq> ''POST'' then
          (other_answer x server (mp_method p) (callUpstream x (mp_headers p) server (mp_method p) None), later st)
        else case check_post (px_env x) st server rule p of
          Rpc_error s rid c \<Rightarrow> (Rpc_answer s rid c, st)
        | Forward srv message \<Rightarrow>
            post_answer x server rule message
              (callUpstream x (mp_headers p) server ''POST'' (Some (me_stringify (px_env x) message))) (later st))"

subsection \<open>What the upstream server is sent\<close>

text \<open>The header of a name the upstream request has.\<close>

definition forwarded_header :: "header_map \<Rightarrow> bool \<Rightarrow> string \<Rightarrow> string option" where
  "forwarded_header hs hasBody n =
    (if n = ''content-type'' then (if hasBody then Some JSON_TYPE else None)
     else if n \<in> set FORWARDED_REQUEST_HEADERS \<or> MCP_PARAM_HEADER n then
       (case jm_get hs n of Some v \<Rightarrow> Some v
        | None \<Rightarrow> if n = ''accept'' then Some (JSON_TYPE @ '', '' @ SSE_TYPE) else None)
     else None)"

lemma copy_header_get:
  "jm_get (fold (copy_header hs) ns out) n = (if n \<in> set ns \<and> jm_get hs n \<noteq> None then jm_get hs n else jm_get out n)"
  by (induction ns arbitrary: out) (auto simp: copy_header_def split: option.splits)

lemma copy_param_get:
  "jm_wf hs \<Longrightarrow> jm_get (fold copy_param hs out) n =
    (if MCP_PARAM_HEADER n \<and> jm_get hs n \<noteq> None then jm_get hs n else jm_get out n)"
proof (induction hs arbitrary: out)
  case (Cons e hs)
  from Cons.prems have "jm_wf hs" "fst e \<notin> fst ` set hs" by (auto simp: jm_wf_def)
  moreover from this have "jm_get hs (fst e) = None" by (simp add: map_of_eq_None_iff)
  ultimately show ?case using Cons.IH by (cases e) (auto simp: copy_param_def)
qed simp

lemma header_names:
  "''content-type'' \<notin> set FORWARDED_REQUEST_HEADERS" "\<not> MCP_PARAM_HEADER ''content-type''"
  "''accept'' \<in> set FORWARDED_REQUEST_HEADERS"
  by code_simp+

text \<open>The upstream request carries the server's own credential, the content type of the body, and of the client's
  headers exactly the six listed ones and the parameter headers, with a default \<open>Accept\<close>: no other header of
  the client (its \<open>Authorization\<close>, cookies, gateway headers) reaches the server.\<close>

lemma upstream_headers_exact:
  assumes "jm_wf hs"
  shows "jm_get (upstreamHeaders hs server hasBody) n =
    (case sv_authHeader server of
       Some (a, v) \<Rightarrow> if n = a then Some v else forwarded_header hs hasBody n
     | None \<Rightarrow> forwarded_header hs hasBody n)"
proof -
  have c: "jm_get (fold copy_param hs (fold (copy_header hs) FORWARDED_REQUEST_HEADERS [])) k =
      (if k \<in> set FORWARDED_REQUEST_HEADERS \<or> MCP_PARAM_HEADER k then jm_get hs k else None)" for k
    unfolding copy_param_get [OF assms] copy_header_get by auto
  show ?thesis
    by (auto simp: upstreamHeaders_def forwarded_header_def Let_def c header_names split: option.split)
qed

definition sample_headers :: header_map where
  "sample_headers = [(''authorization'', ''Bearer client''), (''cookie'', ''s=1''), (''mcp-session-id'', ''abc''),
     (''mcp-param-region'', ''eu'')]"

subsection \<open>What reaches the client\<close>

fun out_messages :: "sse_out list \<Rightarrow> json list" where
  "out_messages [] = []"
| "out_messages (Rebuilt fs m # es) = m # out_messages es"
| "out_messages (_ # es) = out_messages es"

fun answer_messages :: "mcp_answer \<Rightarrow> json list" where
  "answer_messages (Json_answer s hs m) = [m]"
| "answer_messages (Stream_answer s hs es) = out_messages es"
| "answer_messages _ = []"

lemma set_out_messages: "m \<in> set (out_messages es) \<longleftrightarrow> (\<exists>fs. Rebuilt fs m \<in> set es)"
  by (induction es rule: out_messages.induct) auto

text \<open>A tool a client may be shown: cleaned, allowed by lists and group, with the pinned definition.\<close>

definition tool_allowed :: "proxy_env \<Rightarrow> mcp_server \<Rightarrow> mcp_tool_rule option \<Rightarrow> json \<Rightarrow> bool" where
  "tool_allowed x server rule t \<longleftrightarrow>
    (\<exists>n fs. tool_name t = Some n \<and> t = clean_tool (px_san x) (sv_maxDescriptionLength server) fs \<and>
       toolAllowedByList server n \<and> groupToolAllowed rule n \<and>
       (\<forall>pin. pin_of server n = Some pin \<and> sv_onDescriptionChange server = Block_change \<longrightarrow> px_hash x (JObj fs) = pin))"

definition response_checked :: "proxy_env \<Rightarrow> mcp_server \<Rightarrow> mcp_tool_rule option \<Rightarrow> string \<Rightarrow> json \<Rightarrow> bool" where
  "response_checked x server rule meth m \<longleftrightarrow>
    (meth = ''tools/list'' \<longrightarrow> truthy_json (prop_of (Some m) ''error'') \<or>
       (\<exists>shown. tools_of (prop_of (Some m) ''result'') = Some shown \<and> (\<forall>t \<in> set shown. tool_allowed x server rule t))) \<and>
    (meth = ''tools/call'' \<longrightarrow>
       (\<exists>rid. m = errorMessage rid Guardrail_blocked ''The tool result was blocked by a guardrail'') \<or>
       \<not> mcpGuardrailsBlock (me_runHooks (px_env x)) (sv_outputGuardrails server)
           (toolResultText (me_stringify (px_env x)) (px_decodeText x) m))"

lemma filtered_tools_allowed:
  obtains shown where "tools_of (Some (fl_result (fst (filterToolsList server (px_hash x) (px_san x) (groupToolAllowed rule) result st)))) = Some shown"
    "\<forall>t \<in> set shown. tool_allowed x server rule t"
proof -
  obtain out st' where f: "filterToolsList server (px_hash x) (px_san x) (groupToolAllowed rule) result mcp_init = (out, st')"
    by force
  have out: "fst (filterToolsList server (px_hash x) (px_san x) (groupToolAllowed rule) result st) = out"
    using filterToolsList_independent f by (metis fst_conv)
  obtain shown where shown: "tools_of (Some (fl_result out)) = Some shown"
    using f by (auto simp: filterToolsList_def Let_def split: option.splits)
  have clear: "drift_clear server mcp_init" by (simp add: mcp_init_def unpinned_clear_def)
  have "tool_allowed x server rule t" if "t \<in> set shown" for t
  proof -
    from filterToolsList_shown [OF clear f shown that] obtain n fs where "tool_name t = Some n" "groupToolAllowed rule n"
        "t = clean_tool (px_san x) (sv_maxDescriptionLength server) fs"
        "toolCallDecision st' server (Some (JStr n)) = None"
        "\<forall>pin. pin_of server n = Some pin \<and> sv_onDescriptionChange server = Block_change \<longrightarrow> px_hash x (JObj fs) = pin"
      by blast
    then show ?thesis
      unfolding tool_allowed_def by (intro exI [of _ n] exI [of _ fs]) (auto simp: toolCallDecision_def split: if_splits)
  qed
  with that shown out show ?thesis by blast
qed

lemma onResponse_checked:
  "response_checked x server rule meth
     (case fst (onResponse x server rule meth rid m st) of None \<Rightarrow> m | Some r \<Rightarrow> r)"
proof (cases "meth = ''tools/list'' \<and> \<not> truthy_json (prop_of (Some m) ''error'')")
  case True
  obtain shown where "tools_of (Some (fl_result (fst (filterToolsList server (px_hash x) (px_san x) (groupToolAllowed rule)
        (prop_of (Some m) ''result'') st)))) = Some shown" "\<forall>t \<in> set shown. tool_allowed x server rule t"
    by (rule filtered_tools_allowed)
  with True show ?thesis
    by (simp add: onResponse_def response_checked_def split: prod.split) (metis fst_conv)
next
  case False
  then show ?thesis by (auto simp: onResponse_def response_checked_def split: prod.split)
qed

lemma not_inspected: "\<not> inspected (Some meth) \<Longrightarrow> response_checked x server rule meth m"
  by (simp add: inspected_def response_checked_def)

lemma checked_answer_ok:
  assumes "m \<in> set (answer_messages (fst (checked_answer x server rule (Some meth) rid u m0 st)))"
  shows "response_checked x server rule meth m"
  using assms onResponse_checked [where x = x and server = server and rule = rule and meth = meth and rid = rid and m = m0 and st = st] not_inspected [of meth x server rule m0]
  by (auto simp: checked_answer_def Let_def split: prod.splits if_splits)

lemma stream_answer_ok:
  assumes "m \<in> set (answer_messages (fst (stream_answer x server rule (Some meth) rid u body st)))" "isResponse m"
  shows "response_checked x server rule meth m"
proof -
  let ?opts = "stream_options x server rule (Some meth) rid st"
  from assms(1) obtain fs where "Rebuilt fs m \<in> set (ss_out (filterSseStream ?opts (fst body) (snd body)))"
    by (auto simp: stream_answer_def Let_def set_out_messages)
  then have "released_ok ?opts (Rebuilt fs m)" by (rule filterSseStream_released)
  then obtain m0 where "m = (case so_onResponse ?opts m0 of None \<Rightarrow> m0 | Some r \<Rightarrow> r)"
    using assms(2) by (auto simp: released_ok_def)
  then show ?thesis
    using onResponse_checked [where x = x and server = server and rule = rule and meth = meth and rid = rid and m = m0 and st = st] not_inspected [of meth x server rule m0]
    by (auto simp: stream_options_def)
qed

lemma post_answer_ok:
  assumes "m \<in> set (answer_messages (fst (post_answer x server rule message up st)))" "isResponse m"
  shows "\<exists>meth. json_text (prop_of (Some message) ''method'') = Some meth \<and> response_checked x server rule meth m"
proof -
  from assms(1) obtain u where u: "up = Upstream u"
    by (cases up) (auto simp: post_answer_def upstreamFailure_def Let_def)
  with assms(1) obtain meth where meth: "json_text (prop_of (Some message) ''method'') = Some meth"
    by (auto simp: post_answer_def withoutBody_def Let_def split: if_splits)
  let ?rid = "message_id message"
  consider e where "m \<in> set (answer_messages (fst (checked_answer x server rule (Some meth) ?rid u e st)))"
    | body where "m \<in> set (answer_messages (fst (stream_answer x server rule (Some meth) ?rid u body st)))"
    using assms(1) unfolding u post_answer_def json_answer_def meth
    by (auto simp: Let_def withoutBody_def simp del: answer_messages.simps(1,2) split: if_splits option.splits)
  then show ?thesis
    using checked_answer_ok stream_answer_ok assms(2) meth by cases blast+
qed

lemma other_answer_no_response:
  assumes "m \<in> set (answer_messages (other_answer x server meth up))"
  shows "\<not> isResponse m"
proof -
  from assms obtain fs chunks rest where "Rebuilt fs m \<in> set (ss_out (filterSseStream (get_options x server) chunks rest))"
    by (auto simp: other_answer_def upstreamFailure_def withoutBody_def set_out_messages split: upstream_result.splits if_splits)
  then have "released_ok (get_options x server) (Rebuilt fs m)" by (rule filterSseStream_released)
  then show ?thesis by (auto simp: released_ok_def get_options_def)
qed

text \<open>Whatever the upstream server answers (JSON, a stream of events or an HTTP error), a response reaches the client
  only for a request of its own that was let through, and checked: a \<open>tools/list\<close> result without an error shows
  only tools that the server's lists, its pins and the group's rule allow, cleaned, and a \<open>tools/call\<close> result
  is one the output guardrails let through or their refusal.\<close>

lemma mcp_answers_checked:
  assumes "mcpHandler x later p st = (ans, st')" "m \<in> set (answer_messages ans)" "isResponse m"
  shows "mp_method p = ''POST'' \<and>
    (\<exists>server rule message meth. admit_server (px_env x) p = Inr (server, rule) \<and>
       mcp_post_decision (px_env x) st p = Forward server message \<and>
       json_text (prop_of (Some message) ''method'') = Some meth \<and> response_checked x server rule meth m)"
proof -
  from assms(1,2) obtain server rule where a: "admit_server (px_env x) p = Inr (server, rule)"
    by (auto simp: mcpHandler_def split: sum.splits)
  have post: "mp_method p = ''POST''"
    using assms other_answer_no_response by (fastforce simp: mcpHandler_def a)
  then obtain srv message where f: "check_post (px_env x) st server rule p = Forward srv message"
    using assms(1,2) by (auto simp: mcpHandler_def a split: post_decision.splits)
  then have d: "mcp_post_decision (px_env x) st p = Forward server message" "srv = server"
    by (auto simp: mcp_post_decision_def a check_post_def Let_def or_error_Forward split: option.splits if_splits)
  let ?up = "callUpstream x (mp_headers p) server ''POST'' (Some (me_stringify (px_env x) message))"
  have "m \<in> set (answer_messages (fst (post_answer x server rule message ?up (later st))))"
    using assms(1,2) post f by (simp add: mcpHandler_def a)
  from post_answer_ok [OF this assms(3)] post a d show ?thesis by blast
qed

definition sample_listed :: json where
  "sample_listed = JObj [(''jsonrpc'', JStr ''2.0''), (''id'', JNum (Fin 7)),
     (''result'', JObj [(''tools'', JArr [sample_tool ''read'' ''v1'', sample_tool ''delete'' ''v1''])])]"

definition sample_proxy :: proxy_env where
  "sample_proxy = \<lparr>px_env = sample_mcp_env\<lparr>me_jsonParse := (\<lambda>t.
       if t = ''list'' then Some (JObj [(''jsonrpc'', JStr ''2.0''), (''id'', JNum (Fin 7)), (''method'', JStr ''tools/list'')])
       else if t = ''listed'' then Some sample_listed else None)\<rparr>,
     px_safe = (\<lambda>u. True),
     px_fetch = (\<lambda>u m hs b. Upstream \<lparr>ua_status = 200, ua_headers = [(''content-type'', ''application/json'')],
        ua_text = Some ''listed'', ua_stream = None\<rparr>),
     px_hash = sample_hash, px_san = (\<lambda>s m. s), px_decodeText = (\<lambda>t. t)\<rparr>"

definition sample_list_post :: mcp_post where
  "sample_list_post = sample_post\<lparr>mp_headers := [(''content-type'', ''application/json'')], mp_body := Some ''list''\<rparr>"

text \<open>A response with a truthy error is not filtered: its result, when it has one too, is passed on as it is.\<close>

lemma error_hides_result:
  assumes "m = JObj [(''jsonrpc'', JStr ''2.0''), (''id'', rid), (''error'', JBool True), (''result'', JObj [(''tools'', JArr ts)])]"
    and "me_jsonParse (px_env x) text = Some m" "ua_text u = Some text"
  shows "json_answer x server rule (Some ''tools/list'') rid u st =
    (Json_answer (ua_status u) (clientHeaders (ua_headers u) False) m, st)"
  by (simp add: json_answer_def assms(2,3) isResponseTo_def isResponse_def checked_answer_def inspected_def onResponse_def
      assms(1))

end
