(* ===== verification/Mcp_Sanitize.thy ===== *)
theory Mcp_Sanitize
  imports Main "HOL-Library.Word"
begin

text \<open>
  \<open>sanitizeText\<close> of \<open>gateway/src/mcp/policy.ts\<close> on UTF-16 code units (16-bit words): the characters of
  \<open>INVISIBLE_RE\<close> are removed in one pass from left to right, and the text is cut at \<open>max\<close> (here \<open>cap\<close>) units without
  leaving half of a surrogate pair.
\<close>

type_synonym unit16 = "16 word"

text \<open>Controls, zero-width and bidi characters, word joiners and the BOM: the character class.\<close>

definition invisible :: "unit16 \<Rightarrow> bool" where
  "invisible u \<longleftrightarrow> u \<le> 0x0008 \<or> u = 0x000B \<or> u = 0x000C \<or> (0x000E \<le> u \<and> u \<le> 0x001F) \<or> (0x007F \<le> u \<and> u \<le> 0x009F) \<or>
     (0x200B \<le> u \<and> u \<le> 0x200F) \<or> (0x202A \<le> u \<and> u \<le> 0x202E) \<or> (0x2060 \<le> u \<and> u \<le> 0x2064) \<or>
     (0x2066 \<le> u \<and> u \<le> 0x2069) \<or> u = 0xFEFF"

text \<open>\<open>\uDB40[\uDC00-\uDC7F]\<close>: the tag characters, two units each.\<close>

definition tag_pair :: "unit16 \<Rightarrow> unit16 \<Rightarrow> bool" where
  "tag_pair u v \<longleftrightarrow> u = 0xDB40 \<and> 0xDC00 \<le> v \<and> v \<le> 0xDC7F"

definition high_surrogate :: "unit16 \<Rightarrow> bool" where
  "high_surrogate u \<longleftrightarrow> 0xD800 \<le> u \<and> u \<le> 0xDBFF"

definition low_surrogate :: "unit16 \<Rightarrow> bool" where
  "low_surrogate u \<longleftrightarrow> 0xDC00 \<le> u \<and> u \<le> 0xDFFF"

text \<open>\<open>value.replace(INVISIBLE_RE, '')\<close>\<close>

fun strip_invisible :: "unit16 list \<Rightarrow> unit16 list" where
  "strip_invisible [] = []"
| "strip_invisible [u] = (if invisible u then [] else [u])"
| "strip_invisible (u # v # us) =
    (if invisible u then strip_invisible (v # us)
     else if tag_pair u v then strip_invisible us
     else u # strip_invisible (v # us))"

definition ellipsis :: unit16 where "ellipsis = 0x2026"

definition sanitizeText :: "unit16 list \<Rightarrow> nat \<Rightarrow> unit16 list" where
  "sanitizeText s cap =
    (let t = strip_invisible s in
     if cap < length t then
       (let cut = take cap t;
            cut' = (if cut \<noteq> [] \<and> high_surrogate (last cut) then butlast cut else cut)
        in cut' @ [ellipsis])
     else t)"

subsection \<open>Well-formed text\<close>

text \<open>Every high surrogate is followed by a low one and every low one follows a high one.\<close>

fun well_formed :: "unit16 list \<Rightarrow> bool" where
  "well_formed [] = True"
| "well_formed [u] = (\<not> high_surrogate u \<and> \<not> low_surrogate u)"
| "well_formed (u # v # us) =
    (if high_surrogate u then low_surrogate v \<and> well_formed us
     else \<not> low_surrogate u \<and> well_formed (v # us))"

text \<open>No invisible character is left: none of the class, and no tag character.\<close>

fun clean :: "unit16 list \<Rightarrow> bool" where
  "clean [] = True"
| "clean [u] = (\<not> invisible u)"
| "clean (u # v # us) = (\<not> invisible u \<and> \<not> tag_pair u v \<and> clean (v # us))"

lemma surrogates_visible [simp]: "high_surrogate u \<Longrightarrow> \<not> invisible u" "low_surrogate u \<Longrightarrow> \<not> invisible u"
  by (auto simp: high_surrogate_def low_surrogate_def invisible_def word_le_nat_alt)

lemma high_not_low: "high_surrogate u \<Longrightarrow> \<not> low_surrogate u"
  by (auto simp: high_surrogate_def low_surrogate_def word_le_nat_alt)

lemma tag_pair_surrogates: "tag_pair u v \<Longrightarrow> high_surrogate u \<and> low_surrogate v"
  by (auto simp: tag_pair_def high_surrogate_def low_surrogate_def word_le_nat_alt)

lemma low_not_high: "low_surrogate u \<Longrightarrow> \<not> high_surrogate u"
  using high_not_low by blast

lemma strip_low: "low_surrogate v \<Longrightarrow> strip_invisible (v # us) = v # strip_invisible us"
  using tag_pair_surrogates low_not_high by (cases us) auto

text \<open>On well-formed text the pass leaves well-formed, clean text.\<close>

lemma strip_well_formed:
  "well_formed s \<Longrightarrow> well_formed (strip_invisible s) \<and> clean (strip_invisible s)"
proof (induction s rule: well_formed.induct)
  case (3 u v us)
  show ?case
  proof (cases "high_surrogate u")
    case True
    with 3 have low: "low_surrogate v" and ih: "well_formed (strip_invisible us) \<and> clean (strip_invisible us)" by auto
    show ?thesis
    proof (cases "tag_pair u v")
      case False
      have s: "strip_invisible (u # v # us) = u # v # strip_invisible us"
        using True False strip_low [OF low] by simp
      have "clean (v # strip_invisible us)"
        using ih low tag_pair_surrogates low_not_high by (cases "strip_invisible us") auto
      then show ?thesis unfolding s using True False low ih by simp
    qed (use True ih in simp)
  next
    case False
    with 3 have low: "\<not> low_surrogate u" and ih: "well_formed (strip_invisible (v # us)) \<and> clean (strip_invisible (v # us))"
      by auto
    have t: "\<not> tag_pair u w" for w using False tag_pair_surrogates by blast
    then have "strip_invisible (u # v # us) = (if invisible u then strip_invisible (v # us) else u # strip_invisible (v # us))"
      by simp
    moreover have "well_formed (u # strip_invisible (v # us)) \<and> clean (u # strip_invisible (v # us))" if "\<not> invisible u"
      using that low False t ih by (cases "strip_invisible (v # us)") auto
    ultimately show ?thesis using ih by simp
  qed
qed auto

lemma well_formed_take:
  "well_formed s \<Longrightarrow> well_formed (take n s) \<or>
   (take n s \<noteq> [] \<and> high_surrogate (last (take n s)) \<and> well_formed (butlast (take n s)))"
proof (induction s arbitrary: n rule: well_formed.induct)
  case (2 u)
  then show ?case by (cases n) auto
next
  case (3 u v us)
  show ?case
  proof (cases "high_surrogate u")
    case True
    with 3 have ih: "well_formed (take k us) \<or>
        (take k us \<noteq> [] \<and> high_surrogate (last (take k us)) \<and> well_formed (butlast (take k us)))" for k by auto
    consider "n = 0" | "n = 1" | k where "n = Suc (Suc k)" by (metis One_nat_def not0_implies_Suc)
    then show ?thesis
    proof cases
      case (3 k)
      with ih [of k] True \<open>well_formed (u # v # us)\<close> show ?thesis by auto
    qed (use True in auto)
  next
    case False
    with 3 have ih: "well_formed (take k (v # us)) \<or>
        (take k (v # us) \<noteq> [] \<and> high_surrogate (last (take k (v # us))) \<and> well_formed (butlast (take k (v # us))))" for k
      by auto
    show ?thesis
    proof (cases n)
      case (Suc k)
      with ih [of k] False \<open>well_formed (u # v # us)\<close> show ?thesis
        by (cases k) auto
    qed simp
  qed
qed simp

lemma clean_append_left: "clean (s @ t) \<Longrightarrow> clean s"
proof (induction s rule: clean.induct)
  case (2 u)
  then show ?case by (cases t) auto
qed auto

lemma well_formed_snoc:
  "well_formed s \<Longrightarrow> \<not> high_surrogate u \<Longrightarrow> \<not> low_surrogate u \<Longrightarrow> well_formed (s @ [u])"
  by (induction s rule: well_formed.induct) auto

lemma clean_snoc: "clean s \<Longrightarrow> \<not> invisible u \<Longrightarrow> \<not> low_surrogate u \<Longrightarrow> clean (s @ [u])"
  by (induction s rule: clean.induct) (use tag_pair_surrogates in auto)

lemma ellipsis_plain: "\<not> invisible ellipsis" "\<not> high_surrogate ellipsis" "\<not> low_surrogate ellipsis"
  by (simp_all add: ellipsis_def invisible_def high_surrogate_def low_surrogate_def)

lemma length_strip: "length (strip_invisible s) \<le> length s"
  by (induction s rule: strip_invisible.induct) auto

text \<open>On well-formed text, what a client is shown holds no invisible character and no half of a surrogate
  pair, and is at most the cap and an ellipsis long; text that is already clean and short is unchanged.\<close>

lemma sanitizeText_clean:
  assumes "well_formed s"
  shows "clean (sanitizeText s cap) \<and> well_formed (sanitizeText s cap) \<and> length (sanitizeText s cap) \<le> Suc cap \<and>
    (clean s \<and> length s \<le> cap \<longrightarrow> sanitizeText s cap = s)"
proof -
  let ?t = "strip_invisible s"
  have wf: "well_formed ?t" and cl: "clean ?t" using strip_well_formed [OF assms] by auto
  have same: "strip_invisible s = s" if "clean s"
    using that by (induction s rule: strip_invisible.induct) auto
  show ?thesis
  proof (cases "cap < length ?t")
    case False
    with wf cl same show ?thesis by (simp add: sanitizeText_def)
  next
    case True
    define cut where "cut = take cap ?t"
    define cut' where "cut' = (if cut \<noteq> [] \<and> high_surrogate (last cut) then butlast cut else cut)"
    have s: "sanitizeText s cap = cut' @ [ellipsis]" using True by (simp add: sanitizeText_def cut_def cut'_def)
    have "clean cut" using cl clean_append_left [of cut "drop cap ?t"] by (simp add: cut_def)
    then have "clean cut'" using clean_append_left [of "butlast cut" "[last cut]"] by (auto simp: cut'_def)
    moreover have "well_formed cut'"
    proof -
      have "\<not> well_formed xs" if "xs \<noteq> []" "high_surrogate (last xs)" for xs
        using that by (induction xs rule: well_formed.induct) (use high_not_low in \<open>auto split: if_splits\<close>)
      then show ?thesis using well_formed_take [OF wf, of cap] by (auto simp: cut'_def cut_def)
    qed
    moreover have "length cut' \<le> cap" by (auto simp: cut'_def cut_def)
    moreover have "\<not> (clean s \<and> length s \<le> cap)" using True length_strip [of s] by simp
    ultimately show ?thesis
      unfolding s using clean_snoc [of cut' ellipsis] well_formed_snoc [of cut' ellipsis] ellipsis_plain by auto
  qed
qed

text \<open>Without well-formedness the single pass is not enough: a tag character split by a zero-width space
  (\<open>JSON.parse\<close> accepts lone surrogates as escapes) is put together by the removal.\<close>

lemma split_tag_survives:
  "sanitizeText [0xDB40, 0x200B, 0xDC41] 2048 = [0xDB40, 0xDC41] \<and> \<not> clean [0xDB40, 0xDC41]"
  by (simp add: sanitizeText_def Let_def invisible_def tag_pair_def)

end
