(* ===== verification/Policy_Pull.thy ===== *)
theory Policy_Pull
  imports Router_Policy Oidc_Config
begin

text \<open>
  The central policy (\<open>gateway/src/middlewares/policyPull/state.ts\<close>, \<open>puller.ts\<close>): a bundle is parsed as a
  whole or refused, and the puller keeps the last good one. \<open>parseRoutePolicyDoc\<close>, \<open>JSON.parse\<close>, \<open>URL\<close>, the egress
  check of a URL and the answer of the collector are parameters. Pulls do not overlap (\<open>busy\<close>), so one
  pull is one step. The wording of log lines is left out; when one is written is not.
\<close>

subsection \<open>Bundles\<close>

record central_policy =
  cp_version :: "string option"
  cp_etag :: "string option"
  cp_route :: "route_policy option"
  cp_access :: "oidc_policy option"
  cp_ignored :: "string list"
  cp_teams :: nat
  cp_projects :: nat

record parsed_sections =
  ps_route :: "route_policy option"
  ps_access :: "oidc_policy option"
  ps_ignored :: "string list"

datatype bundle_error =
    Bad_schema
  | Effective_not_object
  | Version_not_string
  | Sections_not_object
  | Unsupported_version string
  | Inherited_section string
  | Route_invalid
  | Access_invalid oidc_error
  | Entries_not_object string
  | Not_json_text
  | Bundle_too_large

definition BUNDLE_SCHEMA :: string where "BUNDLE_SCHEMA = ''ps-policy-bundle.v1''"

definition ENFORCED_SECTIONS :: "(string, int list) jmap" where
  "ENFORCED_SECTIONS = [(''route'', [1]), (''access'', [1])]"

fun field_version :: "json \<Rightarrow> json option" where
  "field_version (JObj fs) = map_of fs ''version''"
| "field_version _ = None"

text \<open>\<open>isObject(body) && versions.includes(body.version)\<close>\<close>

definition version_enforced :: "int list \<Rightarrow> json \<Rightarrow> bool" where
  "version_enforced versions body \<longleftrightarrow>
    (case field_version body of Some (JNum n) \<Rightarrow> (case js_integer n of Some k \<Rightarrow> k \<in> set versions | None \<Rightarrow> False) | _ \<Rightarrow> False)"

definition parse_section ::
  "(json option \<Rightarrow> route_policy option) \<Rightarrow> string option \<Rightarrow> string \<Rightarrow> json \<Rightarrow> parsed_sections \<Rightarrow> bundle_error + parsed_sections" where
  "parse_section parseRoute version name body out =
    (case jm_get ENFORCED_SECTIONS name of
       None \<Rightarrow> if name \<in> set INHERITED then Inl (Inherited_section name) else Inr (out\<lparr>ps_ignored := ps_ignored out @ [name]\<rparr>)
     | Some versions \<Rightarrow>
        if \<not> version_enforced versions body then Inl (Unsupported_version name)
        else case body of
          JObj fs \<Rightarrow>
            if name = ''route'' then
              (case parseRoute (map_of fs ''policy'') of None \<Rightarrow> Inl Route_invalid
               | Some r \<Rightarrow> Inr (out\<lparr>ps_route := Some (if truthy_str version then r\<lparr>rp_policyVersion := version\<rparr> else r)\<rparr>))
            else (case parsePolicy (JObj (jm_del ''version'' fs)) of Inl e \<Rightarrow> Inl (Access_invalid e)
               | Inr p \<Rightarrow> Inr (out\<lparr>ps_access := Some p\<rparr>))
        | _ \<Rightarrow> Inl (Unsupported_version name))"

fun parse_sections ::
  "(json option \<Rightarrow> route_policy option) \<Rightarrow> string option \<Rightarrow> (string \<times> json) list \<Rightarrow> parsed_sections
   \<Rightarrow> bundle_error + parsed_sections" where
  "parse_sections parseRoute version [] out = Inr out"
| "parse_sections parseRoute version ((name, body) # rest) out =
    rbind (parse_section parseRoute version name body out) (parse_sections parseRoute version rest)"

definition parseEffective ::
  "(json option \<Rightarrow> route_policy option) \<Rightarrow> json option \<Rightarrow> bundle_error + parsed_sections" where
  "parseEffective parseRoute raw =
    (case raw of
       Some (JObj fs) \<Rightarrow>
         (case present (map_of fs ''version'') of
            Some (JStr v) \<Rightarrow>
              (case map_of fs ''sections'' of
                 Some (JObj ss) \<Rightarrow> parse_sections parseRoute (Some v) ss \<lparr>ps_route = None, ps_access = None, ps_ignored = []\<rparr>
               | _ \<Rightarrow> Inl Sections_not_object)
          | None \<Rightarrow>
              (case map_of fs ''sections'' of
                 Some (JObj ss) \<Rightarrow> parse_sections parseRoute None ss \<lparr>ps_route = None, ps_access = None, ps_ignored = []\<rparr>
               | _ \<Rightarrow> Inl Sections_not_object)
          | Some _ \<Rightarrow> Inl Version_not_string)
     | _ \<Rightarrow> Inl Effective_not_object)"

text \<open>The entries of teams or projects are only counted, once each is valid.\<close>

definition parse_entries :: "(json option \<Rightarrow> route_policy option) \<Rightarrow> string \<Rightarrow> json option \<Rightarrow> bundle_error + nat" where
  "parse_entries parseRoute key v =
    (case json_or v (JObj []) of
       JObj es \<Rightarrow> rbind (map_res (\<lambda>(eid, eff). parseEffective parseRoute (Some eff)) es) (\<lambda>ps. Inr (length ps))
     | _ \<Rightarrow> Inl (Entries_not_object key))"

definition parsePolicyBundle ::
  "(json option \<Rightarrow> route_policy option) \<Rightarrow> json \<Rightarrow> string option \<Rightarrow> bundle_error + central_policy" where
  "parsePolicyBundle parseRoute raw etag =
    (case raw of
       JObj fs \<Rightarrow>
         if map_of fs ''schema'' \<noteq> Some (JStr BUNDLE_SCHEMA) then Inl Bad_schema
         else rbind (parseEffective parseRoute (map_of fs ''tenant'')) (\<lambda>tenant.
              rbind (parse_entries parseRoute ''teams'' (map_of fs ''teams'')) (\<lambda>teams.
              rbind (parse_entries parseRoute ''projects'' (map_of fs ''projects'')) (\<lambda>projects.
              Inr \<lparr>cp_version = json_text (prop_of (map_of fs ''tenant'') ''version''), cp_etag = etag,
                   cp_route = ps_route tenant, cp_access = ps_access tenant, cp_ignored = ps_ignored tenant,
                   cp_teams = teams, cp_projects = projects\<rparr>)))
     | _ \<Rightarrow> Inl Bad_schema)"

text \<open>\<open>active\<close> is the central policy, \<open>loaded\<close> the one of the policy file.\<close>

definition activeRoutePolicy :: "central_policy option \<Rightarrow> route_policy option \<Rightarrow> route_policy option" where
  "activeRoutePolicy active loaded = nullish (case active of None \<Rightarrow> None | Some c \<Rightarrow> cp_route c) loaded"

definition activePolicyVersion :: "central_policy option \<Rightarrow> route_policy option \<Rightarrow> string option" where
  "activePolicyVersion active loaded =
    nullish (case active of None \<Rightarrow> None | Some c \<Rightarrow> cp_version c) (case loaded of None \<Rightarrow> None | Some p \<Rightarrow> rp_policyVersion p)"

definition centralAccessPolicy :: "central_policy option \<Rightarrow> oidc_policy option" where
  "centralAccessPolicy active = (case active of None \<Rightarrow> None | Some c \<Rightarrow> cp_access c)"

subsection \<open>Pulls\<close>

definition MAX_BUNDLE_BYTES :: nat where "MAX_BUNDLE_BYTES = 8 * 1024 * 1024"

text \<open>What a request for the bundle gives: the URL refused, an error with its reason, or an answer.\<close>

datatype pull_answer = Url_refused | Net_failed string | Answered nat "string option" string

datatype pull_outcome = Updated | Unchanged | Unreachable | Rejected | Url_not_allowed

datatype pull_log = Log_failed | Log_recovered | Log_malformed | Log_applied | Log_access_unenforced

record puller =
  pu_active :: "central_policy option"
  pu_failing :: "string option"
  pu_rejectedEtag :: "string option"
  pu_warnedAccess :: bool
  pu_log :: "pull_log list"

definition puller_init :: puller where
  "puller_init = \<lparr>pu_active = None, pu_failing = None, pu_rejectedEtag = None, pu_warnedAccess = False, pu_log = []\<rparr>"

definition pull_fail :: "pull_outcome \<Rightarrow> string \<Rightarrow> puller \<Rightarrow> pull_outcome \<times> puller" where
  "pull_fail outcome reason pu =
    (outcome, if pu_failing pu \<noteq> Some reason then pu\<lparr>pu_failing := Some reason, pu_log := pu_log pu @ [Log_failed]\<rparr> else pu)"

definition parse_bundle_text ::
  "(json option \<Rightarrow> route_policy option) \<Rightarrow> (string \<Rightarrow> json option) \<Rightarrow> string \<Rightarrow> string option \<Rightarrow> bundle_error + central_policy" where
  "parse_bundle_text parseRoute jsonParse text etag =
    (if MAX_BUNDLE_BYTES < length text then Inl Bundle_too_large
     else case jsonParse text of None \<Rightarrow> Inl Not_json_text | Some raw \<Rightarrow> parsePolicyBundle parseRoute raw etag)"

definition apply_bundle :: "bool \<Rightarrow> central_policy \<Rightarrow> puller \<Rightarrow> puller" where
  "apply_bundle oidcOff next_policy pu =
    (let pu1 = pu\<lparr>pu_active := Some next_policy, pu_failing := None, pu_rejectedEtag := None, pu_log := pu_log pu @ [Log_applied]\<rparr>
     in if cp_access next_policy \<noteq> None \<and> oidcOff \<and> \<not> pu_warnedAccess pu1
        then pu1\<lparr>pu_warnedAccess := True, pu_log := pu_log pu1 @ [Log_access_unenforced]\<rparr> else pu1)"

definition pullOnce ::
  "(json option \<Rightarrow> route_policy option) \<Rightarrow> (string \<Rightarrow> json option) \<Rightarrow> bool \<Rightarrow> pull_answer \<Rightarrow> puller \<Rightarrow> pull_outcome \<times> puller" where
  "pullOnce parseRoute jsonParse oidcOff ans pu =
    (case ans of
       Url_refused \<Rightarrow> pull_fail Url_not_allowed ''not an allowed egress target'' pu
     | Net_failed reason \<Rightarrow> pull_fail Unreachable reason pu
     | Answered status etag text \<Rightarrow>
        if status = 304 then
          (Unchanged, pu\<lparr>pu_failing := None, pu_log := pu_log pu @ (if truthy_str (pu_failing pu) then [Log_recovered] else [])\<rparr>)
        else if status < 200 \<or> 300 \<le> status then pull_fail Unreachable (''HTTP '' @ digits_of status) pu
        else if truthy_str etag \<and> etag = pu_rejectedEtag pu then (Rejected, pu)
        else (case parse_bundle_text parseRoute jsonParse text etag of
                Inl e \<Rightarrow> (Rejected, pu\<lparr>pu_rejectedEtag := etag, pu_failing := None, pu_log := pu_log pu @ [Log_malformed]\<rparr>)
              | Inr c \<Rightarrow> (Updated, apply_bundle oidcOff c pu)))"

definition pull_all ::
  "(json option \<Rightarrow> route_policy option) \<Rightarrow> (string \<Rightarrow> json option) \<Rightarrow> bool \<Rightarrow> pull_answer list \<Rightarrow> puller" where
  "pull_all parseRoute jsonParse oidcOff as = fold (\<lambda>a pu. snd (pullOnce parseRoute jsonParse oidcOff a pu)) as puller_init"

subsection \<open>The last good policy\<close>

text \<open>The contract: what is in force is the policy of the last answer that held a valid bundle.\<close>

definition good_policy ::
  "(json option \<Rightarrow> route_policy option) \<Rightarrow> (string \<Rightarrow> json option) \<Rightarrow> pull_answer \<Rightarrow> central_policy option" where
  "good_policy parseRoute jsonParse a =
    (case a of
       Answered status etag text \<Rightarrow>
         if 200 \<le> status \<and> status < 300
         then (case parse_bundle_text parseRoute jsonParse text etag of Inr c \<Rightarrow> Some c | Inl _ \<Rightarrow> None) else None
     | _ \<Rightarrow> None)"

definition last_good ::
  "(json option \<Rightarrow> route_policy option) \<Rightarrow> (string \<Rightarrow> json option) \<Rightarrow> pull_answer list \<Rightarrow> central_policy option" where
  "last_good parseRoute jsonParse as =
    fold (\<lambda>a acc. case good_policy parseRoute jsonParse a of Some c \<Rightarrow> Some c | None \<Rightarrow> acc) as None"

text \<open>An ETag identifies a representation (RFC 9110): answers with the same one have the same body.\<close>

definition etags_identify :: "pull_answer list \<Rightarrow> bool" where
  "etags_identify as \<longleftrightarrow> (\<forall>s s' e t t'. truthy_str e \<longrightarrow> Answered s e t \<in> set as \<longrightarrow> Answered s' e t' \<in> set as \<longrightarrow>
     200 \<le> s \<and> s < 300 \<longrightarrow> 200 \<le> s' \<and> s' < 300 \<longrightarrow> t = t')"

lemma pull_fail_frame [simp]:
  "pu_active (snd (pull_fail outcome reason pu)) = pu_active pu"
  "pu_rejectedEtag (snd (pull_fail outcome reason pu)) = pu_rejectedEtag pu"
  by (simp_all add: pull_fail_def)

lemma apply_bundle_frame [simp]:
  "pu_active (apply_bundle oidcOff c pu) = Some c" "pu_rejectedEtag (apply_bundle oidcOff c pu) = None"
  by (simp_all add: apply_bundle_def Let_def)

text \<open>The ETag kept as rejected is that of an answer whose bundle was refused.\<close>

definition rejected_seen ::
  "(json option \<Rightarrow> route_policy option) \<Rightarrow> (string \<Rightarrow> json option) \<Rightarrow> pull_answer list \<Rightarrow> puller \<Rightarrow> bool" where
  "rejected_seen parseRoute jsonParse seen pu \<longleftrightarrow>
    (\<forall>e. pu_rejectedEtag pu = e \<and> truthy_str e \<longrightarrow>
       (\<exists>s t err. Answered s e t \<in> set seen \<and> 200 \<le> s \<and> s < 300 \<and> parse_bundle_text parseRoute jsonParse t e = Inl err))"

lemma pullOnce_step:
  assumes "rejected_seen parseRoute jsonParse seen pu" "etags_identify (seen @ [a])"
    and r: "pullOnce parseRoute jsonParse oidcOff a pu = (out, pu')"
  shows "pu_active pu' = (case good_policy parseRoute jsonParse a of Some c \<Rightarrow> Some c | None \<Rightarrow> pu_active pu)"
    and "rejected_seen parseRoute jsonParse (seen @ [a]) pu'"
proof -
  have "pu_active pu' = (case good_policy parseRoute jsonParse a of Some c \<Rightarrow> Some c | None \<Rightarrow> pu_active pu) \<and>
    rejected_seen parseRoute jsonParse (seen @ [a]) pu'"
  proof (cases "\<exists>status etag body. a = Answered status etag body \<and> 200 \<le> status \<and> status < 300")
    case False
    with r have "pu_active pu' = pu_active pu" "pu_rejectedEtag pu' = pu_rejectedEtag pu"
      by (auto simp: pullOnce_def pull_fail_def split: pull_answer.splits if_splits)
    moreover have "good_policy parseRoute jsonParse a = None"
      using False by (auto simp: good_policy_def split: pull_answer.splits)
    ultimately show ?thesis using assms(1) by (fastforce simp: rejected_seen_def)
  next
    case True
    then obtain status etag body where a: "a = Answered status etag body" "200 \<le> status" "status < 300" by blast
    show ?thesis
    proof (cases "truthy_str etag \<and> etag = pu_rejectedEtag pu")
      case True
      then obtain s t err where seen: "Answered s etag t \<in> set seen" "200 \<le> s" "s < 300"
          "parse_bundle_text parseRoute jsonParse t etag = Inl err"
        using assms(1) unfolding rejected_seen_def by blast
      with assms(2) a True have "t = body" unfolding etags_identify_def by auto
      with seen(4) a have "good_policy parseRoute jsonParse a = None" by (simp add: good_policy_def)
      moreover have "pu' = pu" using r a True by (auto simp: pullOnce_def)
      ultimately show ?thesis using assms(1) by (fastforce simp: rejected_seen_def)
    next
      case False
      show ?thesis
      proof (cases "parse_bundle_text parseRoute jsonParse body etag")
        case (Inl err)
        with r a False have "pu_active pu' = pu_active pu" "pu_rejectedEtag pu' = etag"
          by (auto simp: pullOnce_def)
        with Inl a show ?thesis by (auto simp: good_policy_def rejected_seen_def)
      next
        case (Inr c)
        with r a False have "pu' = apply_bundle oidcOff c pu" by (auto simp: pullOnce_def)
        with Inr a show ?thesis by (auto simp: good_policy_def rejected_seen_def)
      qed
    qed
  qed
  then show "pu_active pu' = (case good_policy parseRoute jsonParse a of Some c \<Rightarrow> Some c | None \<Rightarrow> pu_active pu)"
    and "rejected_seen parseRoute jsonParse (seen @ [a]) pu'" by blast+
qed

lemma etags_identify_prefix: "etags_identify (as @ bs) \<Longrightarrow> etags_identify as"
  unfolding etags_identify_def set_append by blast

lemma fold_pull:
  assumes "rejected_seen parseRoute jsonParse seen pu" "etags_identify (seen @ as)" "pu_active pu = acc"
  shows "pu_active (fold (\<lambda>a pu. snd (pullOnce parseRoute jsonParse oidcOff a pu)) as pu) =
    fold (\<lambda>a acc. case good_policy parseRoute jsonParse a of Some c \<Rightarrow> Some c | None \<Rightarrow> acc) as acc"
  using assms
proof (induction as arbitrary: seen pu acc)
  case (Cons a as)
  obtain out pu' where r: "pullOnce parseRoute jsonParse oidcOff a pu = (out, pu')" by force
  have e: "etags_identify (seen @ [a])" using Cons.prems(2) etags_identify_prefix [of "seen @ [a]" as] by simp
  from pullOnce_step(2) [OF Cons.prems(1) e r] Cons.IH [of "seen @ [a]" pu' "pu_active pu'"] Cons.prems(2) r
    pullOnce_step(1) [OF Cons.prems(1) e r, unfolded Cons.prems(3)]
  show ?case by (simp del: split_paired_All)
qed simp

lemma parse_section_access:
  assumes "parse_section parseRoute version name body out = Inr out'"
    and "\<forall>p. ps_access out = Some p \<longrightarrow> policy_ok p"
  shows "\<forall>p. ps_access out' = Some p \<longrightarrow> policy_ok p"
  using assms
  by (auto simp: parse_section_def dest: parsePolicy_return split: option.splits if_splits json.splits sum.splits)

lemma parse_sections_access:
  "parse_sections parseRoute version ss out = Inr out' \<Longrightarrow> \<forall>p. ps_access out = Some p \<longrightarrow> policy_ok p \<Longrightarrow>
   ps_access out' = Some p \<Longrightarrow> policy_ok p"
proof (induction ss arbitrary: out)
  case (Cons e ss)
  obtain name body where e: "e = (name, body)" by force
  from Cons.prems(1) e obtain o1 where "parse_section parseRoute version name body out = Inr o1"
      "parse_sections parseRoute version ss o1 = Inr out'"
    by (auto simp: return_iff)
  with Cons.IH Cons.prems(2,3) parse_section_access show ?case by metis
qed simp

lemma parseEffective_access: "parseEffective parseRoute raw = Inr out \<Longrightarrow> ps_access out = Some p \<Longrightarrow> policy_ok p"
  by (auto simp: parseEffective_def dest: parse_sections_access split: option.splits json.splits)

lemma good_policy_access:
  assumes "good_policy parseRoute jsonParse a = Some c" "cp_access c = Some p"
  shows "policy_ok p"
proof -
  from assms(1) obtain etag raw where "parsePolicyBundle parseRoute raw etag = Inr c"
    by (auto simp: good_policy_def parse_bundle_text_def split: pull_answer.splits if_splits sum.splits option.splits)
  then obtain v tenant where "parseEffective parseRoute v = Inr tenant" "cp_access c = ps_access tenant"
    by (auto simp: parsePolicyBundle_def return_iff split: json.splits if_splits)
  with assms(2) parseEffective_access show ?thesis by metis
qed

lemma last_good_in:
  "last_good parseRoute jsonParse as = Some c \<Longrightarrow> \<exists>a \<in> set as. good_policy parseRoute jsonParse a = Some c"
proof -
  have "fold (\<lambda>a acc. case good_policy parseRoute jsonParse a of Some c \<Rightarrow> Some c | None \<Rightarrow> acc) as acc = Some c \<Longrightarrow>
      acc = Some c \<or> (\<exists>a \<in> set as. good_policy parseRoute jsonParse a = Some c)" for acc
    by (induction as arbitrary: acc) (fastforce split: option.splits)+
  then show "last_good parseRoute jsonParse as = Some c \<Longrightarrow> ?thesis" unfolding last_good_def by blast
qed

text \<open>C21. After any answers of the collector (unreachable, refused, malformed, unchanged or good) the policy in force
  is that of the last good bundle, whole, and its access policy is well formed: a failed pull or a malformed
  bundle never changes it, in part or whole. ETags are assumed to identify bundles.\<close>

theorem pull_refines_last_good:
  assumes "etags_identify as"
  shows "pu_active (pull_all parseRoute jsonParse oidcOff as) = last_good parseRoute jsonParse as \<and>
    (\<forall>p. centralAccessPolicy (pu_active (pull_all parseRoute jsonParse oidcOff as)) = Some p \<longrightarrow> policy_ok p)"
proof -
  have active: "pu_active (pull_all parseRoute jsonParse oidcOff as) = last_good parseRoute jsonParse as"
    unfolding pull_all_def last_good_def
    by (rule fold_pull [where seen = "[]"]) (use assms in \<open>simp_all add: rejected_seen_def puller_init_def\<close>)
  have "policy_ok p" if "centralAccessPolicy (pu_active (pull_all parseRoute jsonParse oidcOff as)) = Some p" for p
    using that good_policy_access last_good_in [of parseRoute jsonParse as] unfolding active
    by (fastforce simp: centralAccessPolicy_def split: option.splits)
  with active show ?thesis by blast
qed

definition sample_bundle :: "string \<Rightarrow> json option" where
  "sample_bundle t =
    (if t = ''good'' then Some (JObj [(''schema'', JStr BUNDLE_SCHEMA),
       (''tenant'', JObj [(''version'', JStr ''default@3''), (''sections'', JObj [(''access'',
          JObj [(''version'', JNum (Fin 1)), (''groups'', JArr [])])])])])
     else if t = ''bad'' then Some (JObj [(''schema'', JStr BUNDLE_SCHEMA),
       (''tenant'', JObj [(''sections'', JObj [(''access'', JObj [(''version'', JNum (Fin 2))])])])])
     else None)"

definition sample_answers :: "pull_answer list" where
  "sample_answers = [Net_failed ''timeout'', Answered 200 (Some ''e1'') ''good'', Answered 200 (Some ''e2'') ''bad'',
     Answered 200 (Some ''e2'') ''bad'', Answered 304 None [], Answered 503 None []]"

theorem pull_refines_last_good_witness:
  "\<exists>c p. pu_active (pull_all (\<lambda>_. None) sample_bundle False sample_answers) = Some c \<and>
     cp_version c = Some ''default@3'' \<and> cp_access c = Some p \<and> policy_ok p"
proof -
  have e: "etags_identify sample_answers" by (auto simp: etags_identify_def sample_answers_def)
  have "case last_good (\<lambda>_. None) sample_bundle sample_answers of
      Some c \<Rightarrow> cp_version c = Some ''default@3'' \<and> cp_access c \<noteq> None | None \<Rightarrow> False"
    by (simp add: last_good_def sample_answers_def good_policy_def parse_bundle_text_def MAX_BUNDLE_BYTES_def
        sample_bundle_def parsePolicyBundle_def parseEffective_def parse_section_def ENFORCED_SECTIONS_def
        version_enforced_def js_integer_def jm_del_def parsePolicy_def known_keys_def unknown_field_def
        choice_def lift_option_def parse_entries_def)
  then obtain c p where c: "last_good (\<lambda>_. None) sample_bundle sample_answers = Some c"
      "cp_version c = Some ''default@3''" "cp_access c = Some p"
    by (auto split: option.splits)
  note pull = pull_refines_last_good [OF e, of "\<lambda>_. None" sample_bundle False]
  from c(1,3) pull have "centralAccessPolicy (pu_active (pull_all (\<lambda>_. None) sample_bundle False sample_answers)) = Some p"
    by (simp add: centralAccessPolicy_def)
  with c pull show ?thesis by auto
qed

subsection \<open>Settings of the pull\<close>

definition DEFAULT_INTERVAL_SECONDS :: rat where "DEFAULT_INTERVAL_SECONDS = 30"
definition MIN_INTERVAL_SECONDS :: rat where "MIN_INTERVAL_SECONDS = 5"
definition MAX_INTERVAL_SECONDS :: rat where "MAX_INTERVAL_SECONDS = 86400"

definition IN_CLUSTER_SUFFIXES :: "string list" where
  "IN_CLUSTER_SUFFIXES = [''.svc'', ''.svc.cluster.local'', ''.cluster.local'']"

text \<open>\<open>/^127\.\d+\.\d+\.\d+$/\<close>\<close>

definition is_loopback_v4 :: "string \<Rightarrow> bool" where
  "is_loopback_v4 h \<longleftrightarrow> (let ps = split_on (CHR ''.'') h in
     length ps = 4 \<and> hd ps = ''127'' \<and> list_all (\<lambda>p. p \<noteq> [] \<and> list_all is_digit p) (tl ps))"

text \<open>The host without brackets and a final dot, in lower case.\<close>

definition plain_host :: "string \<Rightarrow> string" where
  "plain_host hostname =
    (let h = to_lower hostname;
         h1 = (if h \<noteq> [] \<and> hd h = CHR ''['' then tl h else h);
         h2 = (if h1 \<noteq> [] \<and> last h1 = CHR '']'' then butlast h1 else h1)
     in if h2 \<noteq> [] \<and> last h2 = CHR ''.'' then butlast h2 else h2)"

definition isPlainHttpHostAllowed :: "string \<Rightarrow> bool" where
  "isPlainHttpHostAllowed hostname \<longleftrightarrow>
    (let host = plain_host hostname in
     if host = ''localhost'' \<or> host = ''::1'' \<or> is_loopback_v4 host then True
     else if (host \<noteq> [] \<and> list_all (\<lambda>c. is_digit c \<or> c = CHR ''.'') host) \<or> CHR '':'' \<in> set host then False
     else if CHR ''.'' \<notin> set host then True
     else list_ex (\<lambda>sfx. ends_with host sfx) IN_CLUSTER_SUFFIXES)"

datatype pull_config_error = Key_missing | Interval_bad | Url_invalid | Protocol_bad string | Needs_https string

text \<open>\<open>url\<close> gives the protocol and host name of a URL, \<open>None\<close> where it is none.\<close>

definition checkTransport :: "(string \<Rightarrow> (string \<times> string) option) \<Rightarrow> string \<Rightarrow> bool \<Rightarrow> pull_config_error + unit" where
  "checkTransport url base allowHttp =
    (case url base of None \<Rightarrow> Inl Url_invalid
     | Some (protocol, hostname) \<Rightarrow>
        if protocol = ''https:'' then Inr ()
        else if protocol \<noteq> ''http:'' then Inl (Protocol_bad protocol)
        else if allowHttp \<or> isPlainHttpHostAllowed hostname then Inr () else Inl (Needs_https hostname))"

record pull_config =
  pc_url :: string
  pc_apiKey :: string
  pc_intervalMs :: int

definition parse_interval :: "string option \<Rightarrow> pull_config_error + rat" where
  "parse_interval v =
    (case trimmed v of None \<Rightarrow> Inr DEFAULT_INTERVAL_SECONDS
     | Some s \<Rightarrow> (case js_Number s of
          Fin q \<Rightarrow> if q < MIN_INTERVAL_SECONDS \<or> MAX_INTERVAL_SECONDS < q then Inl Interval_bad else Inr q
        | _ \<Rightarrow> Inl Interval_bad))"

definition policyPullConfig ::
  "(string \<Rightarrow> (string \<times> string) option) \<Rightarrow> (string \<Rightarrow> string option) \<Rightarrow> pull_config_error + pull_config option" where
  "policyPullConfig url env =
    (if \<not> is_true (env ''PS_POLICY_PULL_ENABLED'') then Inr None
     else let apiKey = trim (case or_str (env ''PS_POLICY_PULL_API_KEY'') (env ''PS_API_KEY'') of None \<Rightarrow> [] | Some k \<Rightarrow> k);
              set_url = env ''PS_COLLECTOR_URL'';
              base0 = (if truthy_str set_url then the set_url else ''http://localhost:8000'');
              base = rev (dropWhile (\<lambda>c. c = CHR ''/'') (rev base0))
          in rbind (ensure (apiKey \<noteq> []) Key_missing) (\<lambda>_.
             rbind (parse_interval (env ''PS_POLICY_PULL_INTERVAL_SECONDS'')) (\<lambda>seconds.
             rbind (checkTransport url base (is_true (env ''PS_POLICY_PULL_ALLOW_HTTP''))) (\<lambda>_.
             Inr (Some \<lparr>pc_url = base @ ''/api/v1/policy/effective'', pc_apiKey = apiKey,
                        pc_intervalMs = floor (seconds * 1000 + 1 / 2)\<rparr>)))))"

text \<open>The bundle is only ever fetched over https, or over plain http to a host the operator or the rule allows, at an
  interval of five seconds to a day.\<close>

lemma policyPullConfig_safe:
  assumes "policyPullConfig url env = Inr (Some c)"
  shows "\<exists>base protocol host. pc_url c = base @ ''/api/v1/policy/effective'' \<and> url base = Some (protocol, host) \<and>
    (protocol = ''https:'' \<or>
     protocol = ''http:'' \<and> (is_true (env ''PS_POLICY_PULL_ALLOW_HTTP'') \<or> isPlainHttpHostAllowed host)) \<and>
    pc_apiKey c \<noteq> [] \<and> 5000 \<le> pc_intervalMs c \<and> pc_intervalMs c \<le> 86400000"
proof -
  from assms obtain base seconds where b: "checkTransport url base (is_true (env ''PS_POLICY_PULL_ALLOW_HTTP'')) = Inr ()"
      "pc_url c = base @ ''/api/v1/policy/effective''" "pc_apiKey c \<noteq> []" "pc_intervalMs c = floor (seconds * 1000 + 1 / 2)"
    and i: "parse_interval (env ''PS_POLICY_PULL_INTERVAL_SECONDS'') = Inr seconds"
    by (auto simp: policyPullConfig_def Let_def rbind_return_iff ensure_return_iff split: if_splits)
  from i have "5 \<le> seconds \<and> seconds \<le> 86400"
    by (auto simp: parse_interval_def DEFAULT_INTERVAL_SECONDS_def MIN_INTERVAL_SECONDS_def MAX_INTERVAL_SECONDS_def
        split: option.splits jsnum.splits if_splits)
  then have "5000 \<le> pc_intervalMs c \<and> pc_intervalMs c \<le> 86400000"
    unfolding b(4) by (simp add: le_floor_iff floor_le_iff)
  with b(1-3) show ?thesis
    by (auto simp: checkTransport_def split: option.splits if_splits)
qed

end
