(* ===== verification/Ipv4_Hosts.thy ===== *)
theory Ipv4_Hosts
  imports Prelude "HOL-Library.Word"
begin

unbundle bit_operations_syntax

text \<open>
  The IPv4 arithmetic of \<open>src/middlewares/requestValidator/index.ts\<close> on 32-bit words, with its tables of private and
  reserved ranges and its tests for the shapes of numeric hosts, and what a numeric host stands for (the address parser
  of the URL Standard): \<open>blocked_ranges\<close> shows that the two tables hold exactly the internal addresses.
\<close>

subsection \<open>IPv4 addresses\<close>

text \<open>\<open>((a << 24) >>> 0) + (b << 16) + (c << 8) + d\<close> on the first four parts.\<close>

definition ipv4ToInt :: "string \<Rightarrow> int" where
  "ipv4ToInt ip =
    (case map (nat_of_digits 0) (split_on (CHR ''.'') ip) of
       a # b # c # d # _ \<Rightarrow>
         uint (push_bit 24 (of_nat a :: 32 word)) + sint (push_bit 16 (of_nat b :: 32 word))
         + sint (push_bit 8 (of_nat c :: 32 word)) + int d
     | _ \<Rightarrow> 0)"

definition PRIVATE_RANGES :: "(string \<times> string) list" where
  "PRIVATE_RANGES = [(''10.0.0.0'', ''10.255.255.255''), (''172.16.0.0'', ''172.31.255.255''), (''192.168.0.0'', ''192.168.255.255'')]"

definition RESERVED_RANGES :: "(string \<times> string) list" where
  "RESERVED_RANGES = [(''127.0.0.0'', ''127.255.255.255''), (''169.254.0.0'', ''169.254.255.255''),
     (''100.64.0.0'', ''100.127.255.255''), (''0.0.0.0'', ''0.255.255.255''), (''224.0.0.0'', ''255.255.255.255'')]"

definition in_ranges :: "(string \<times> string) list \<Rightarrow> string \<Rightarrow> bool" where
  "in_ranges rs ip \<longleftrightarrow> list_ex (\<lambda>(s, e). ipv4ToInt s \<le> ipv4ToInt ip \<and> ipv4ToInt ip \<le> ipv4ToInt e) rs"

definition isPrivateIPv4 :: "string \<Rightarrow> bool" where
  "isPrivateIPv4 = in_ranges PRIVATE_RANGES"

definition isReservedIPv4 :: "string \<Rightarrow> bool" where
  "isReservedIPv4 = in_ranges RESERVED_RANGES"

definition octet_text :: "string \<Rightarrow> bool" where
  "octet_text p \<longleftrightarrow> 1 \<le> length p \<and> length p \<le> 3 \<and> list_all is_digit p \<and> nat_of_digits 0 p \<le> 255 \<and>
     \<not> (length p > 1 \<and> starts_with p ''0'')"

definition isIPv4 :: "string list \<Rightarrow> bool" where
  "isIPv4 parts \<longleftrightarrow> length parts = 4 \<and> list_all octet_text parts"

text \<open>\<open>parseInt(port, 10)\<close> reads the leading digits; the port of a parsed URL holds nothing else.\<close>

definition isValidPort :: "string \<Rightarrow> bool" where
  "isValidPort port \<longleftrightarrow> (let p = nat_of_digits 0 (takeWhile is_digit port) in takeWhile is_digit port \<noteq> [] \<and> 0 < p \<and> p \<le> 65535)"

definition hex_ip :: "string \<Rightarrow> bool" where
  "hex_ip h \<longleftrightarrow> to_lower (take 2 h) = ''0x'' \<and> 3 \<le> length h \<and> length h \<le> 10 \<and> list_all (radix_digit 16) (drop 2 h)"

text \<open>\<open>/^0[0-9a-fx]/i\<close>\<close>

definition alternative_part :: "string \<Rightarrow> bool" where
  "alternative_part p \<longleftrightarrow> (case p of a # b # _ \<Rightarrow> a = CHR ''0'' \<and> (radix_digit 16 b \<or> lower_char b = CHR ''x'') | _ \<Rightarrow> False)"

text \<open>A decimal host is refused whether the address it stands for is private or public.\<close>

definition isAlternativeIPRepresentation :: "string \<Rightarrow> string list \<Rightarrow> bool" where
  "isAlternativeIPRepresentation host parts \<longleftrightarrow>
    (1 \<le> length host \<and> length host \<le> 10 \<and> list_all is_digit host \<and> nat_of_digits 0 host \<le> 0xffffffff) \<or>
    hex_ip host \<or>
    (length parts = 4 \<and> list_ex alternative_part parts) \<or>
    (2 \<le> length parts \<and> length parts < 4 \<and> list_all (\<lambda>p. p \<noteq> [] \<and> list_all is_digit p \<and> nat_of_digits 0 p \<le> 255) parts)"

definition isLocalOrPrivateIPv6 :: "string \<Rightarrow> bool" where
  "isLocalOrPrivateIPv6 host \<longleftrightarrow>
    (let h = to_lower host in
     h = ''::1'' \<or> h = ''::'' \<or> starts_with h ''fc'' \<or> starts_with h ''fd'' \<or> starts_with h ''fe80'' \<or> starts_with h ''fec0'')"

subsection \<open>Addresses\<close>

text \<open>What a numeric host stands for: the URL Standard's IPv4 parser, where a part may be octal or hexadecimal and the
  last one fills the bytes that are left.\<close>

definition aton_part :: "string \<Rightarrow> nat option" where
  "aton_part p =
    (if p = [] then None
     else if to_lower (take 2 p) = ''0x'' then
       (if list_all (radix_digit 16) (drop 2 p) then Some (foldl (\<lambda>a c. 16 * a + radix_val c) 0 (drop 2 p)) else None)
     else if 2 \<le> length p \<and> hd p = CHR ''0'' then
       (if list_all (radix_digit 8) (tl p) then Some (foldl (\<lambda>a c. 8 * a + radix_val c) 0 (tl p)) else None)
     else if list_all is_digit p then Some (nat_of_digits 0 p) else None)"

fun aton_value :: "nat list \<Rightarrow> nat option" where
  "aton_value [d] = (if d < 2 ^ 32 then Some d else None)"
| "aton_value [a, d] = (if a \<le> 255 \<and> d < 2 ^ 24 then Some (a * 2 ^ 24 + d) else None)"
| "aton_value [a, b, d] = (if a \<le> 255 \<and> b \<le> 255 \<and> d < 2 ^ 16 then Some (a * 2 ^ 24 + b * 2 ^ 16 + d) else None)"
| "aton_value [a, b, c, d] =
    (if a \<le> 255 \<and> b \<le> 255 \<and> c \<le> 255 \<and> d \<le> 255 then Some (a * 2 ^ 24 + b * 2 ^ 16 + c * 2 ^ 8 + d) else None)"
| "aton_value _ = None"

definition aton :: "string \<Rightarrow> nat option" where
  "aton h = (let ps = map aton_part (split_on (CHR ''.'') h) in if None \<in> set ps then None else aton_value (map the ps))"

definition octet :: "nat \<Rightarrow> nat \<Rightarrow> nat" where
  "octet n i = n div 256 ^ (3 - i) mod 256"

definition dotted :: "nat \<Rightarrow> string" where
  "dotted n = join ''.'' (map (\<lambda>i. digits_of (octet n i)) [0, 1, 2, 3])"

text \<open>The addresses that are not internal: no private network, loopback, link-local, carrier-grade NAT, \<open>this\<close> network,
  multicast or reserved address.\<close>

definition public_ipv4 :: "nat \<Rightarrow> bool" where
  "public_ipv4 n \<longleftrightarrow>
    \<not> (octet n 0 = 10 \<or> (octet n 0 = 172 \<and> 16 \<le> octet n 1 \<and> octet n 1 \<le> 31) \<or> (octet n 0 = 192 \<and> octet n 1 = 168) \<or>
       octet n 0 = 127 \<or> (octet n 0 = 169 \<and> octet n 1 = 254) \<or> (octet n 0 = 100 \<and> 64 \<le> octet n 1 \<and> octet n 1 \<le> 127) \<or>
       octet n 0 = 0 \<or> 224 \<le> octet n 0)"

lemma aton_value_bound: "aton_value ds = Some m \<Longrightarrow> m < 2 ^ 32"
  by (induction ds rule: aton_value.induct) (simp_all split: if_splits)

lemma aton_bound: "aton h = Some n \<Longrightarrow> n < 2 ^ 32"
  using aton_value_bound by (simp only: aton_def Let_def split: if_split_asm) simp_all

lemma length_digits_of: "n < 10 ^ Suc k \<Longrightarrow> length (digits_of n) \<le> Suc k"
proof (induction k arbitrary: n)
  case (Suc k)
  then have "n div 10 < 10 ^ Suc k" by (simp add: less_mult_imp_div_less)
  from Suc.IH [OF this] show ?case by (subst digits_of.simps) simp
qed (subst digits_of.simps, simp)

lemma hd_digits_of: "0 < n \<Longrightarrow> digits_of n \<noteq> [] \<and> hd (digits_of n) \<noteq> CHR ''0''"
proof (induction n rule: digits_of.induct)
  case (1 n)
  have "digit_char d \<noteq> CHR ''0''" if "0 < d" "d < 10" for d
  proof -
    have "digit_val (CHR ''0'') = 0" by (simp add: digit_val_def)
    with that digit_val_char [of d] show ?thesis by (metis less_numeral_extra(3))
  qed
  with 1 show ?case by (subst (1 2) digits_of.simps) auto
qed

lemma octet_digits_ok:
  assumes "x \<le> 255"
  shows "octet_text (digits_of x) \<and> CHR ''.'' \<notin> set (digits_of x)"
proof -
  have len: "length (digits_of x) \<le> 3" using assms length_digits_of [of x 2] by simp
  have dot: "\<not> is_digit (CHR ''.'')" by (simp add: is_digit_def)
  have lead: "\<not> (1 < length (digits_of x) \<and> starts_with (digits_of x) ''0'')"
  proof (cases "x = 0")
    case True
    then show ?thesis by (subst digits_of.simps) simp
  next
    case False
    with hd_digits_of [of x] show ?thesis by (cases "digits_of x") auto
  qed
  have ne: "digits_of x \<noteq> []" by (subst digits_of.simps) simp
  show ?thesis
    using len lead ne dot digits_of_digits [of x] assms by (auto simp: octet_text_def list_all_iff Suc_le_eq)
qed

lemma octet_le: "octet n i \<le> 255"
  using mod_less_divisor [of 256 "n div 256 ^ (3 - i)"] by (simp add: octet_def)

lemma split_dotted: "split_on (CHR ''.'') (dotted n) = map (\<lambda>i. digits_of (octet n i)) [0, 1, 2, 3]"
  using octet_digits_ok [OF octet_le] by (simp add: dotted_def split_on_append split_on_fresh)

lemma isIPv4_dotted: "isIPv4 (split_on (CHR ''.'') (dotted n))"
  using octet_digits_ok [OF octet_le] by (simp add: isIPv4_def split_dotted)

lemma uint_push_octet: "a \<le> 255 \<Longrightarrow> uint (push_bit 24 (of_nat a :: 32 word)) = int a * 2 ^ 24"
  by (simp add: push_bit_eq_mult uint_word_ariths unsigned_of_nat take_bit_eq_mod)

lemma sint_small: "m < 2 ^ 31 \<Longrightarrow> sint (of_nat m :: 32 word) = int m"
  by (simp add: signed_of_nat signed_take_bit_int_eq_self)

lemma sint_push_octet:
  assumes "a \<le> 255" "k \<le> 16"
  shows "sint (push_bit k (of_nat a :: 32 word)) = int a * 2 ^ k"
proof -
  have "a * 2 ^ k \<le> 255 * 2 ^ 16" using assms by (intro mult_mono power_increasing) simp_all
  then have "sint (of_nat (a * 2 ^ k) :: 32 word) = int (a * 2 ^ k)" by (intro sint_small) simp
  then show ?thesis by (simp add: push_bit_eq_mult)
qed

lemma ipv4ToInt_quad:
  assumes "split_on (CHR ''.'') ip = map digits_of [a, b, c, d]" "a \<le> 255" "b \<le> 255" "c \<le> 255"
  shows "ipv4ToInt ip = int a * 2 ^ 24 + int b * 2 ^ 16 + int c * 2 ^ 8 + int d"
  using assms by (simp add: ipv4ToInt_def uint_push_octet sint_push_octet)

lemma ipv4ToInt_dotted:
  assumes "n < 2 ^ 32"
  shows "ipv4ToInt (dotted n) = int n"
proof -
  have "ipv4ToInt (dotted n) = int (octet n 0 * 2 ^ 24 + octet n 1 * 2 ^ 16 + octet n 2 * 2 ^ 8 + octet n 3)"
    using ipv4ToInt_quad [of "dotted n" "octet n 0" "octet n 1" "octet n 2" "octet n 3"]
    by (simp add: split_dotted octet_le)
  also have "octet n 0 * 2 ^ 24 + octet n 1 * 2 ^ 16 + octet n 2 * 2 ^ 8 + octet n 3 = n"
  proof -
    define p q r where "p = n div 256" and "q = p div 256" and "r = q div 256"
    have o: "octet n 3 = n mod 256" "octet n 2 = p mod 256" "octet n 1 = q mod 256" "octet n 0 = r mod 256"
      by (simp_all add: octet_def p_def q_def r_def flip: div_mult2_eq)
    have "r < 256" using assms by (simp add: p_def q_def r_def flip: div_mult2_eq)
    then have "r mod 256 = r" by simp
    moreover have "n = p * 256 + n mod 256" "p = q * 256 + p mod 256" "q = r * 256 + q mod 256"
      by (simp_all add: p_def q_def r_def div_mult_mod_eq)
    ultimately show ?thesis unfolding o by simp
  qed
  finally show ?thesis .
qed

lemma octet_0_range: "octet n 0 = n div 16777216 mod 256" and octet_1_range: "octet n 1 = n div 65536 mod 256"
  by (simp_all add: octet_def)

lemma range_ends:
  "map (\<lambda>(s, e). (ipv4ToInt s, ipv4ToInt e)) PRIVATE_RANGES =
     [(167772160, 184549375), (2886729728, 2887778303), (3232235520, 3232301055)]"
  "map (\<lambda>(s, e). (ipv4ToInt s, ipv4ToInt e)) RESERVED_RANGES =
     [(2130706432, 2147483647), (2851995648, 2852061183), (1681915904, 1686110207), (0, 16777215), (3758096384, 4294967295)]"
  by code_simp+

lemma in_ranges_map:
  "in_ranges rs ip \<longleftrightarrow> list_ex (\<lambda>(lo, hi). lo \<le> ipv4ToInt ip \<and> ipv4ToInt ip \<le> hi) (map (\<lambda>(s, e). (ipv4ToInt s, ipv4ToInt e)) rs)"
  by (induction rs) (auto simp: in_ranges_def)

lemma block_bounds:
  fixes lo hi n :: nat
  assumes "lo mod 65536 = 0" "Suc hi mod 65536 = 0"
  shows "lo \<le> n \<and> n \<le> hi \<longleftrightarrow> lo div 65536 \<le> n div 65536 \<and> n div 65536 < Suc hi div 65536"
proof -
  from assms obtain k m where k: "lo = k * 65536" and m: "Suc hi = m * 65536" by (metis div_mult_mod_eq add.right_neutral)
  have "n \<le> hi \<longleftrightarrow> n < m * 65536" using m by (simp only: less_Suc_eq_le [symmetric])
  then show ?thesis unfolding k m by (simp add: less_eq_div_iff_mult_less_eq div_less_iff_less_mult)
qed

lemma block_parts: "n div 65536 = n div 16777216 * 256 + n div 65536 mod (256::nat)"
proof -
  have "n div 16777216 = n div 65536 div 256" by (simp flip: div_mult2_eq)
  then show ?thesis using div_mult_mod_eq [of "n div 65536" 256] by simp
qed

lemma blocked_ranges:
  assumes "n < 2 ^ 32"
  shows "isPrivateIPv4 (dotted n) \<or> isReservedIPv4 (dotted n) \<longleftrightarrow> \<not> public_ipv4 n"
proof -
  have b: "isPrivateIPv4 (dotted n) \<longleftrightarrow> 167772160 \<le> n \<and> n \<le> 184549375 \<or> 2886729728 \<le> n \<and> n \<le> 2887778303 \<or>
      3232235520 \<le> n \<and> n \<le> 3232301055"
    "isReservedIPv4 (dotted n) \<longleftrightarrow> 2130706432 \<le> n \<and> n \<le> 2147483647 \<or> 2851995648 \<le> n \<and> n \<le> 2852061183 \<or>
      1681915904 \<le> n \<and> n \<le> 1686110207 \<or> n \<le> 16777215 \<or> 3758096384 \<le> n \<and> n \<le> 4294967295"
    by (simp_all add: isPrivateIPv4_def isReservedIPv4_def in_ranges_map range_ends ipv4ToInt_dotted [OF assms])
  define a c d where "a = n div 16777216" and "c = n div 65536 mod 256" and "d = n div 65536"
  have a: "octet n 0 = a" using assms by (simp add: octet_0_range a_def)
  have c: "octet n 1 = c" "c < 256" using octet_1_range [of n] by (simp_all add: c_def)
  have d: "d = a * 256 + c" "a < 256" using block_parts assms by (simp_all add: a_def c_def d_def)
  have "isPrivateIPv4 (dotted n) \<longleftrightarrow> 2560 \<le> d \<and> d < 2816 \<or> 44048 \<le> d \<and> d < 44064 \<or> 49320 \<le> d \<and> d < 49321"
    unfolding b(1) d_def using block_bounds [of 167772160 184549375 n] block_bounds [of 2886729728 2887778303 n]
      block_bounds [of 3232235520 3232301055 n] by simp
  also have "2560 \<le> d \<and> d < 2816 \<longleftrightarrow> a = 10" using d c(2) by (cases "a = 10") auto
  also have "44048 \<le> d \<and> d < 44064 \<longleftrightarrow> a = 172 \<and> 16 \<le> c \<and> c \<le> 31" using d c(2) by (cases "a = 172") auto
  also have "49320 \<le> d \<and> d < 49321 \<longleftrightarrow> a = 192 \<and> c = 168" using d c(2) by (cases "a = 192") auto
  finally have p: "isPrivateIPv4 (dotted n) \<longleftrightarrow> a = 10 \<or> (a = 172 \<and> 16 \<le> c \<and> c \<le> 31) \<or> (a = 192 \<and> c = 168)" .
  have "isReservedIPv4 (dotted n) \<longleftrightarrow> 32512 \<le> d \<and> d < 32768 \<or> 43518 \<le> d \<and> d < 43519 \<or> 25664 \<le> d \<and> d < 25728 \<or>
      d < 256 \<or> 57344 \<le> d \<and> d < 65536"
    unfolding b(2) d_def using block_bounds [of 2130706432 2147483647 n] block_bounds [of 2851995648 2852061183 n]
      block_bounds [of 1681915904 1686110207 n] block_bounds [of 0 16777215 n] block_bounds [of 3758096384 4294967295 n] by simp
  also have "32512 \<le> d \<and> d < 32768 \<longleftrightarrow> a = 127" using d c(2) by (cases "a = 127") auto
  also have "43518 \<le> d \<and> d < 43519 \<longleftrightarrow> a = 169 \<and> c = 254" using d c(2) by (cases "a = 169") auto
  also have "25664 \<le> d \<and> d < 25728 \<longleftrightarrow> a = 100 \<and> 64 \<le> c \<and> c \<le> 127" using d c(2) by (cases "a = 100") auto
  also have "d < 256 \<longleftrightarrow> a = 0" using d c(2) by auto
  also have "57344 \<le> d \<and> d < 65536 \<longleftrightarrow> 224 \<le> a" using d c(2) by auto
  finally show ?thesis unfolding p public_ipv4_def a c(1) by blast
qed

end
