(* ===== verification/Upstream_Url.thy ===== *)
theory Upstream_Url
  imports Ipv4_Hosts
begin

text \<open>
  The egress checks of \<open>src/middlewares/requestValidator/index.ts\<close>: the URL a provider configuration builds
  (\<open>isSafeUpstreamURL\<close>), the URLs of guardrail plugins (\<open>isSafePluginEgressURL\<close>) and a caller's custom host
  (\<open>isValidCustomHost\<close>). The URL parser is a parameter.
\<close>

subsection \<open>Tables\<close>

record url_parts =
  ur_protocol :: string
  ur_username :: string
  ur_password :: string
  ur_hostname :: string
  ur_port :: string

definition DISALLOWED_SCHEMES :: "string list" where
  "DISALLOWED_SCHEMES = [''file://'', ''data:'', ''gopher:'', ''ftp://'', ''ftps://'']"

definition BLOCKED_HOSTS :: "string list" where
  "BLOCKED_HOSTS = [''0.0.0.0'', ''169.254.169.254'', ''metadata.google.internal'', ''metadata'', ''metadata.azure.com'',
     ''instance-data'']"

definition BLOCKED_TLDS :: "string list" where
  "BLOCKED_TLDS = [''.local'', ''.localdomain'', ''.internal'', ''.intranet'', ''.lan'', ''.home'', ''.corp'', ''.test'',
     ''.invalid'', ''.onion'', ''.localhost'']"

text \<open>\<open>CONTROL_CHARS\<close>, \<open>SUSPICIOUS_CHARS\<close> and \<open>HOMOGRAPH_ATTACK\<close>\<close>

definition control_char :: "char \<Rightarrow> bool" where
  "control_char c \<longleftrightarrow> (let n = of_char c :: nat in n \<le> 31 \<or> n = 127)"

definition suspicious_char :: "char \<Rightarrow> bool" where
  "suspicious_char c \<longleftrightarrow> js_space c \<or> c \<in> set ''<>{}|^'' \<or> c = CHR 0x5C \<or> c = CHR 0x60"

definition host_char :: "char \<Rightarrow> bool" where
  "host_char c \<longleftrightarrow> (let n = of_char c :: nat in 97 \<le> n \<and> n \<le> 122) \<or> is_digit c \<or> c = CHR ''.'' \<or> c = CHR ''-''"

text \<open>The hosts an operator trusts; \<open>raw\<close> is the environment's \<open>TRUSTED_CUSTOM_HOSTS\<close>.\<close>

definition configuredTrustedCustomHosts :: "string option \<Rightarrow> string list" where
  "configuredTrustedCustomHosts raw =
    (if \<not> truthy_str raw then []
     else filter (\<lambda>h. h \<noteq> [] \<and> h \<noteq> ''none'') (map (\<lambda>h. to_lower (trim h)) (split_on (CHR '','') (the raw))))"

definition TRUSTED_CUSTOM_HOSTS :: "string option \<Rightarrow> string list" where
  "TRUSTED_CUSTOM_HOSTS raw =
    (if \<not> truthy_str raw then [''localhost'', ''127.0.0.1'', ''::1'', ''host.docker.internal'']
     else configuredTrustedCustomHosts raw)"

subsection \<open>Checks\<close>

text \<open>\<open>host.replace(/^\[|\]$/g, '')\<close>\<close>

definition unbracket :: "string \<Rightarrow> string" where
  "unbracket h =
    (let a = (if h \<noteq> [] \<and> hd h = CHR ''['' then tl h else h)
     in if a \<noteq> [] \<and> last a = CHR '']'' then butlast a else a)"

definition trusted_host :: "string list \<Rightarrow> string \<Rightarrow> bool" where
  "trusted_host trusted h \<longleftrightarrow> h \<in> set trusted \<or> (''localhost'' \<in> set trusted \<and> ends_with h ''.localhost'')"

definition safe_host :: "string \<Rightarrow> bool" where
  "safe_host h \<longleftrightarrow>
    \<not> (h \<in> set BLOCKED_HOSTS \<or> h = ''localhost'' \<or> ends_with h ''.localhost'' \<or>
       starts_with h ''169.254.169.'' \<or> starts_with h ''fd00:ec2::'' \<or>
       (let parts = split_on (CHR ''.'') h in
          (isIPv4 parts \<and> (isPrivateIPv4 h \<or> isReservedIPv4 h)) \<or> isAlternativeIPRepresentation h parts) \<or>
       CHR '':'' \<in> set h)"

definition isSafeURLForTrustedHosts :: "(string \<Rightarrow> url_parts option) \<Rightarrow> string list \<Rightarrow> string \<Rightarrow> bool" where
  "isSafeURLForTrustedHosts parse trusted rawUrl \<longleftrightarrow>
    (if list_ex control_char rawUrl then False
     else case parse rawUrl of None \<Rightarrow> False
     | Some url \<Rightarrow>
        if ur_protocol url \<noteq> ''http:'' \<and> ur_protocol url \<noteq> ''https:'' then False
        else if ur_username url \<noteq> [] \<or> ur_password url \<noteq> [] then False
        else let host = to_lower (ur_hostname url); bare = unbracket host in
          if host = [] \<or> CHR ''%'' \<in> set host \<or> ends_with host ''.'' then False
          else if bare = [] \<or> \<not> list_all (\<lambda>c. host_char c \<or> c = CHR '':'') bare then False
          else if ur_port url \<noteq> [] \<and> \<not> isValidPort (ur_port url) then False
          else trusted_host trusted bare \<or> safe_host bare)"

definition isSafeUpstreamURL :: "(string \<Rightarrow> url_parts option) \<Rightarrow> string option \<Rightarrow> string \<Rightarrow> bool" where
  "isSafeUpstreamURL parse raw rawUrl = isSafeURLForTrustedHosts parse (TRUSTED_CUSTOM_HOSTS raw) rawUrl"

definition isSafePluginEgressURL :: "(string \<Rightarrow> url_parts option) \<Rightarrow> string option \<Rightarrow> string \<Rightarrow> bool" where
  "isSafePluginEgressURL parse raw rawUrl \<longleftrightarrow>
    (let trusted = configuredTrustedCustomHosts raw in
     if \<not> isSafeURLForTrustedHosts parse trusted rawUrl then False
     else case parse rawUrl of None \<Rightarrow> False
     | Some url \<Rightarrow>
        let host = unbracket (to_lower (ur_hostname url)) in
        if trusted_host trusted host then True
        else if CHR ''.'' \<notin> set host \<or> ends_with host ''.svc'' then False
        else \<not> list_ex (\<lambda>tld. ends_with host tld) BLOCKED_TLDS)"

text \<open>\<open>host.match(/::ffff:(\d{1,3}(?:\.\d{1,3}){3})$/i)\<close> or \<open>/::(\d{1,3}(?:\.\d{1,3}){3})$/i\<close>: the dotted tail after the
  last colons. \<open>is_quad\<close> is the group.\<close>

definition is_quad :: "string \<Rightarrow> bool" where
  "is_quad t \<longleftrightarrow> (let ps = split_on (CHR ''.'') t in
     length ps = 4 \<and> list_all (\<lambda>p. 1 \<le> length p \<and> length p \<le> 3 \<and> list_all is_digit p) ps)"

definition embedded_ipv4 :: "string \<Rightarrow> string option" where
  "embedded_ipv4 host =
    (let t = rev (takeWhile (\<lambda>c. c \<noteq> CHR '':'') (rev host)); front = to_lower (take (length host - length t) host)
     in if is_quad t \<and> (ends_with front ''::ffff:'' \<or> ends_with front ''::'') then Some t else None)"

definition isValidCustomHost :: "(string \<Rightarrow> url_parts option) \<Rightarrow> string option \<Rightarrow> string \<Rightarrow> bool" where
  "isValidCustomHost parse raw customHost \<longleftrightarrow>
    (let v = to_lower (trim customHost) in
     if v = [] then False
     else if list_ex control_char customHost then False
     else if includes_str v ''api.portkey'' then False
     else if list_ex (\<lambda>scheme. starts_with v scheme) DISALLOWED_SCHEMES then False
     else case parse customHost of None \<Rightarrow> False
     | Some url \<Rightarrow>
        if ur_protocol url \<noteq> ''http:'' \<and> ur_protocol url \<noteq> ''https:'' then False
        else if ur_username url \<noteq> [] \<or> ur_password url \<noteq> [] then False
        else if CHR ''@'' \<in> set customHost then False
        else let host = ur_hostname url; parts = split_on (CHR ''.'') host; ports_ok = (ur_port url = [] \<or> isValidPort (ur_port url)) in
          if host = [] then False
          else if CHR ''%'' \<in> set host then False
          else if list_ex suspicious_char host then False
          else if \<not> list_all host_char host then False
          else if ends_with host ''.'' then False
          else if 10 < length parts then False
          else if trusted_host (TRUSTED_CUSTOM_HOSTS raw) host then ports_ok
          else if host \<in> set BLOCKED_HOSTS then False
          else if starts_with host ''169.254.169.'' \<or> starts_with host ''fd00:ec2::'' then False
          else if list_ex (\<lambda>tld. ends_with host tld \<and> host \<noteq> ''localhost'') BLOCKED_TLDS then False
          else if isIPv4 parts \<and> (isPrivateIPv4 host \<or> isReservedIPv4 host) then False
          else if isAlternativeIPRepresentation host parts then False
          else if CHR '':'' \<in> set host \<and>
                 (isLocalOrPrivateIPv6 host \<or>
                  (case embedded_ipv4 host of None \<Rightarrow> False | Some ip4 \<Rightarrow> isPrivateIPv4 ip4 \<or> isReservedIPv4 ip4)) then False
          else ports_ok)"

subsection \<open>What the checks let through\<close>

text \<open>What the URL Standard says of the host of a parsed web URL: lower-cased, an address in any notation as a dotted
  quad, brackets only around an IPv6 literal.\<close>

definition standard_parser :: "(string \<Rightarrow> url_parts option) \<Rightarrow> bool" where
  "standard_parser parse \<longleftrightarrow>
    (\<forall>raw url. parse raw = Some url \<and> ur_protocol url \<in> {''http:'', ''https:''} \<longrightarrow>
       to_lower (ur_hostname url) = ur_hostname url \<and>
       (\<forall>n. aton (ur_hostname url) = Some n \<longrightarrow> ur_hostname url = dotted n) \<and>
       (CHR ''['' \<in> set (ur_hostname url) \<or> CHR '']'' \<in> set (ur_hostname url) \<longrightarrow>
          CHR '':'' \<in> set (unbracket (ur_hostname url))))"

text \<open>A host that names no internal address, whatever its notation, no name of this machine and no metadata service.\<close>

definition public_host :: "string \<Rightarrow> bool" where
  "public_host h \<longleftrightarrow> (\<forall>n. aton h = Some n \<longrightarrow> public_ipv4 n) \<and> CHR '':'' \<notin> set h \<and> h \<notin> set BLOCKED_HOSTS \<and>
     h \<noteq> ''localhost'' \<and> \<not> ends_with h ''.localhost''"

definition special_tld :: "string \<Rightarrow> bool" where
  "special_tld h \<longleftrightarrow> list_ex (\<lambda>tld. ends_with h tld) BLOCKED_TLDS"

definition web_url :: "url_parts \<Rightarrow> bool" where
  "web_url url \<longleftrightarrow> ur_protocol url \<in> {''http:'', ''https:''} \<and> ur_username url = [] \<and> ur_password url = [] \<and> ur_hostname url \<noteq> []"

lemma unbracket_plain: "CHR ''['' \<notin> set h \<Longrightarrow> CHR '']'' \<notin> set h \<Longrightarrow> unbracket h = h"
  by (cases "h = []") (auto simp: unbracket_def Let_def dest: hd_in_set last_in_set)

lemma dotted_refused:
  assumes "n < 2 ^ 32" "\<not> (isIPv4 (split_on (CHR ''.'') (dotted n)) \<and> (isPrivateIPv4 (dotted n) \<or> isReservedIPv4 (dotted n)))"
  shows "public_ipv4 n"
  using assms blocked_ranges [OF assms(1)] isIPv4_dotted by blast

lemma safe_host_public:
  assumes "safe_host h" "\<And>n. aton h = Some n \<Longrightarrow> h = dotted n"
  shows "public_host h"
proof -
  have "public_ipv4 n" if "aton h = Some n" for n
    using assms(1) dotted_refused [OF aton_bound [OF that]] unfolding assms(2) [OF that] by (auto simp: safe_host_def Let_def)
  with assms(1) show ?thesis by (auto simp: public_host_def safe_host_def)
qed

lemma safe_url_public:
  assumes "standard_parser parse" "isSafeURLForTrustedHosts parse trusted raw"
  obtains url where "parse raw = Some url" "web_url url"
    "trusted_host trusted (unbracket (ur_hostname url)) \<or> public_host (ur_hostname url)"
    "unbracket (to_lower (ur_hostname url)) = unbracket (ur_hostname url)"
proof -
  from assms(2) obtain url where url: "parse raw = Some url"
    by (auto simp: isSafeURLForTrustedHosts_def split: option.splits if_splits)
  let ?h = "ur_hostname url"
  from assms(2) url have web: "web_url url"
    by (auto simp: isSafeURLForTrustedHosts_def web_url_def Let_def to_lower_def split: if_splits)
  with assms(1) url have p: "to_lower ?h = ?h" "\<And>n. aton ?h = Some n \<Longrightarrow> ?h = dotted n"
      "CHR ''['' \<in> set ?h \<or> CHR '']'' \<in> set ?h \<Longrightarrow> CHR '':'' \<in> set (unbracket ?h)"
    by (auto simp: standard_parser_def web_url_def)
  from assms(2) url p(1) have s: "trusted_host trusted (unbracket ?h) \<or> safe_host (unbracket ?h)"
    by (auto simp: isSafeURLForTrustedHosts_def Let_def split: if_splits)
  have "public_host ?h" if "safe_host (unbracket ?h)"
  proof -
    from that have "CHR '':'' \<notin> set (unbracket ?h)" by (auto simp: safe_host_def)
    with p(3) have "unbracket ?h = ?h" by (intro unbracket_plain) auto
    with that p(2) show ?thesis using safe_host_public by metis
  qed
  with s that url web p(1) show thesis by auto
qed

lemma refusal: "(if c then False else b) \<longleftrightarrow> \<not> c \<and> b"
  by simp

lemma custom_host_public:
  assumes "standard_parser parse" "isValidCustomHost parse raw v"
  obtains url where "parse v = Some url" "web_url url"
    "trusted_host (TRUSTED_CUSTOM_HOSTS raw) (ur_hostname url) \<or> ur_hostname url = ''localhost'' \<or>
     public_host (ur_hostname url) \<and> \<not> special_tld (ur_hostname url)"
proof -
  from assms(2) obtain url where url: "parse v = Some url"
    by (auto simp: isValidCustomHost_def Let_def split: option.splits if_splits)
  let ?h = "ur_hostname url"
  from assms(2) url have web: "web_url url"
    by (auto simp: isValidCustomHost_def web_url_def Let_def split: if_splits)
  with assms(1) url have p: "\<And>n. aton ?h = Some n \<Longrightarrow> ?h = dotted n"
    by (auto simp: standard_parser_def web_url_def)
  have "public_host ?h \<and> \<not> special_tld ?h" if "\<not> trusted_host (TRUSTED_CUSTOM_HOSTS raw) ?h" "?h \<noteq> ''localhost''"
  proof -
    note f = assms(2) [unfolded isValidCustomHost_def Let_def]
    from f url that have c: "list_all host_char ?h" "?h \<notin> set BLOCKED_HOSTS"
        and t: "\<not> list_ex (\<lambda>tld. ends_with ?h tld \<and> ?h \<noteq> ''localhost'') BLOCKED_TLDS"
        and i: "\<not> (isIPv4 (split_on (CHR ''.'') ?h) \<and> (isPrivateIPv4 ?h \<or> isReservedIPv4 ?h))"
      by (simp_all only: option.case if_False refusal not_not not_False_eq_True)
    have "public_ipv4 n" if "aton ?h = Some n" for n
      using dotted_refused [OF aton_bound [OF that]] i unfolding p [OF that] by blast
    moreover have "CHR '':'' \<notin> set ?h" using c(1) by (auto simp: list_all_iff host_char_def is_digit_def)
    moreover have "\<not> special_tld ?h" using t \<open>?h \<noteq> ''localhost''\<close> by (simp add: special_tld_def)
    moreover from this have "\<not> ends_with ?h ''.localhost''" by (simp add: special_tld_def BLOCKED_TLDS_def)
    ultimately show ?thesis using c(2) \<open>?h \<noteq> ''localhost''\<close> by (simp add: public_host_def)
  qed
  with that url web show thesis by blast
qed

text \<open>A custom host with a colon is refused by the character set, so the branch on IPv6 literals below it never runs, and
  \<open>::1\<close> among the hosts trusted by default is never accepted.\<close>

lemma custom_host_no_ipv6:
  assumes "parse v = Some url" "CHR '':'' \<in> set (ur_hostname url)"
  shows "\<not> isValidCustomHost parse raw v"
proof
  assume "isValidCustomHost parse raw v"
  note f = this [unfolded isValidCustomHost_def Let_def]
  from f assms(1) have "list_all host_char (ur_hostname url)" by (simp only: option.case refusal not_not)
  with assms(2) show False by (auto simp: list_all_iff host_char_def is_digit_def)
qed

subsection \<open>At concrete URLs\<close>

lemmas numeric_defs = isAlternativeIPRepresentation_def hex_ip_def alternative_part_def aton_def aton_part_def
  is_digit_def radix_digit_def radix_val_def digit_val_def lower_char_def to_lower_def Let_def

lemmas string_defs = list_ex_iff list_all_iff control_char_def host_char_def suspicious_char_def js_space_def suffix_to_prefix
  trim_def isIPv4_def sublist_code isValidPort_def octet_text_def

definition example_parser :: "string \<Rightarrow> url_parts option" where
  "example_parser v =
    (if v = ''https://api.example.com/v1'' then
       Some \<lparr>ur_protocol = ''https:'', ur_username = [], ur_password = [], ur_hostname = ''api.example.com'', ur_port = []\<rparr>
     else if v = ''http://localhost:8080'' then
       Some \<lparr>ur_protocol = ''http:'', ur_username = [], ur_password = [], ur_hostname = ''localhost'', ur_port = ''8080''\<rparr>
     else if v = ''http://0x7f.1/'' then
       Some \<lparr>ur_protocol = ''http:'', ur_username = [], ur_password = [], ur_hostname = ''127.0.0.1'', ur_port = []\<rparr>
     else None)"

text \<open>A plain \<open>localhost\<close> passes as a custom host when the operator trusts none; the same URL of a provider is refused.\<close>

lemma trusts_none: "TRUSTED_CUSTOM_HOSTS (Some ''none'') = []"
  by code_simp

lemma custom_host_localhost:
  "isValidCustomHost example_parser (Some ''none'') ''http://localhost:8080''"
  by (simp add: isValidCustomHost_def trusts_none DISALLOWED_SCHEMES_def BLOCKED_HOSTS_def BLOCKED_TLDS_def trusted_host_def
      example_parser_def numeric_defs string_defs)

lemma upstream_localhost:
  "\<not> isSafeUpstreamURL example_parser (Some ''none'') ''http://localhost:8080''"
  by (simp add: isSafeUpstreamURL_def isSafeURLForTrustedHosts_def safe_host_def trusted_host_def unbracket_def trusts_none
      example_parser_def numeric_defs string_defs)

text \<open>Numeric hosts the shape check alone would let through: the parser's dotted form is what keeps them out.\<close>

lemma alternative_shapes_missed:
  "\<not> isAlternativeIPRepresentation ''0x7f.1'' (split_on (CHR ''.'') ''0x7f.1'')"
  "\<not> isAlternativeIPRepresentation ''10.0.258'' (split_on (CHR ''.'') ''10.0.258'')"
  by (simp_all add: numeric_defs)

lemma alternative_shapes_internal:
  "aton ''0x7f.1'' = Some 2130706433 \<and> \<not> public_ipv4 2130706433" "aton ''10.0.258'' = Some 167772418 \<and> \<not> public_ipv4 167772418"
  by (simp_all add: numeric_defs public_ipv4_def octet_def)

text \<open>C26. Whatever URL a caller makes a provider, a guardrail plugin or a custom host of, a URL the checks let through is
  a web URL without credentials whose host the operator trusts, or a host that stands, in no notation, for a
  private, loopback, link-local, reserved or metadata address and is no name of this machine; a plugin's host has moreover a
  dotted name outside the special domains, and a custom host a name outside them. The one exception is the custom host
  \<open>localhost\<close>, which passes though the operator trusts no host (\<open>custom_host_localhost\<close>).\<close>

theorem egress_hosts_public:
  assumes "standard_parser parse"
  shows "(isSafeUpstreamURL parse raw v \<longrightarrow> (\<exists>url. parse v = Some url \<and> web_url url \<and>
       (trusted_host (TRUSTED_CUSTOM_HOSTS raw) (unbracket (ur_hostname url)) \<or> public_host (ur_hostname url)))) \<and>
    (isSafePluginEgressURL parse raw v \<longrightarrow> (\<exists>url. parse v = Some url \<and> web_url url \<and>
       (trusted_host (configuredTrustedCustomHosts raw) (unbracket (ur_hostname url)) \<or>
        public_host (ur_hostname url) \<and> CHR ''.'' \<in> set (ur_hostname url) \<and>
        \<not> special_tld (ur_hostname url) \<and> \<not> ends_with (ur_hostname url) ''.svc''))) \<and>
    (isValidCustomHost parse raw v \<longrightarrow> (\<exists>url. parse v = Some url \<and> web_url url \<and>
       (trusted_host (TRUSTED_CUSTOM_HOSTS raw) (ur_hostname url) \<or> ur_hostname url = ''localhost'' \<or>
        public_host (ur_hostname url) \<and> \<not> special_tld (ur_hostname url))))"
proof (intro conjI impI)
  assume "isSafeUpstreamURL parse raw v"
  then show "\<exists>url. parse v = Some url \<and> web_url url \<and>
       (trusted_host (TRUSTED_CUSTOM_HOSTS raw) (unbracket (ur_hostname url)) \<or> public_host (ur_hostname url))"
    unfolding isSafeUpstreamURL_def by (blast elim: safe_url_public [OF assms])
next
  assume a: "isSafePluginEgressURL parse raw v"
  then have "isSafeURLForTrustedHosts parse (configuredTrustedCustomHosts raw) v"
    by (auto simp: isSafePluginEgressURL_def Let_def split: if_splits)
  from safe_url_public [OF assms this] obtain url where u: "parse v = Some url" "web_url url"
      "trusted_host (configuredTrustedCustomHosts raw) (unbracket (ur_hostname url)) \<or> public_host (ur_hostname url)"
      "unbracket (to_lower (ur_hostname url)) = unbracket (ur_hostname url)" by blast
  have "unbracket (ur_hostname url) = ur_hostname url"
    if "\<not> trusted_host (configuredTrustedCustomHosts raw) (unbracket (ur_hostname url))"
  proof -
    from u(3) that have "CHR '':'' \<notin> set (ur_hostname url)" by (auto simp: public_host_def)
    moreover have "set (unbracket (ur_hostname url)) \<subseteq> set (ur_hostname url)"
      by (auto simp: unbracket_def Let_def dest: in_set_butlastD list.set_sel(2) split: if_splits)
    ultimately show ?thesis
      using assms u(1,2) by (intro unbracket_plain) (auto simp: standard_parser_def web_url_def)
  qed
  with a u show "\<exists>url. parse v = Some url \<and> web_url url \<and>
       (trusted_host (configuredTrustedCustomHosts raw) (unbracket (ur_hostname url)) \<or>
        public_host (ur_hostname url) \<and> CHR ''.'' \<in> set (ur_hostname url) \<and>
        \<not> special_tld (ur_hostname url) \<and> \<not> ends_with (ur_hostname url) ''.svc'')"
    by (auto simp: isSafePluginEgressURL_def special_tld_def Let_def split: if_splits)
next
  assume "isValidCustomHost parse raw v"
  then show "\<exists>url. parse v = Some url \<and> web_url url \<and>
       (trusted_host (TRUSTED_CUSTOM_HOSTS raw) (ur_hostname url) \<or> ur_hostname url = ''localhost'' \<or>
        public_host (ur_hostname url) \<and> \<not> special_tld (ur_hostname url))"
    by (blast elim: custom_host_public [OF assms])
qed

lemma example_parser_standard: "standard_parser example_parser"
proof -
  have "aton ''api.example.com'' = None" "aton ''localhost'' = None" "aton ''127.0.0.1'' = Some 2130706433"
    by (simp_all add: numeric_defs)
  moreover have "digits_of 127 = ''127''" "digits_of 0 = ''0''" "digits_of 1 = ''1''" by code_simp+
  then have "dotted 2130706433 = ''127.0.0.1''" by (simp add: dotted_def octet_def)
  moreover have "to_lower ''api.example.com'' = ''api.example.com''" "to_lower ''localhost'' = ''localhost''"
      "to_lower ''127.0.0.1'' = ''127.0.0.1''" by code_simp+
  ultimately show ?thesis by (simp add: standard_parser_def example_parser_def)
qed

theorem egress_hosts_public_witness:
  "isSafeUpstreamURL example_parser None ''https://api.example.com/v1'' \<and>
   (\<exists>url. example_parser ''https://api.example.com/v1'' = Some url \<and> web_url url \<and>
      (trusted_host (TRUSTED_CUSTOM_HOSTS None) (unbracket (ur_hostname url)) \<or> public_host (ur_hostname url)))"
proof -
  have "isSafeUpstreamURL example_parser None ''https://api.example.com/v1''"
    by (simp add: isSafeUpstreamURL_def isSafeURLForTrustedHosts_def safe_host_def trusted_host_def unbracket_def
        TRUSTED_CUSTOM_HOSTS_def BLOCKED_HOSTS_def example_parser_def numeric_defs string_defs)
  with egress_hosts_public [OF example_parser_standard, of None "''https://api.example.com/v1''"] show ?thesis by blast
qed

end
