(* ===== verification/Conditional_Router.thy ===== *)
theory Conditional_Router
  imports Prelude
begin

text \<open>
  The conditional strategy (\<open>src/services/conditionalRouter.ts\<close>): queries over the metadata, the parameters and the
  path of a request, and the target the first condition that holds names. Values are compared as JSON values; the
  properties every object inherits are not looked up, and regular expressions are a parameter of the context.
\<close>

subsection \<open>Context\<close>

record router_context =
  rc_metadata :: json
  rc_params :: json
  rc_pathname :: string
  rc_regex :: "json \<Rightarrow> json option \<Rightarrow> bool option"

datatype router_error =
    No_conditions
  | Invalid_target string
  | No_match
  | Unsupported_operator string
  | Query_type

definition context_json :: "router_context \<Rightarrow> json" where
  "context_json ctx =
    JObj [(''metadata'', rc_metadata ctx), (''params'', rc_params ctx), (''url'', JObj [(''pathname'', JStr (rc_pathname ctx))])]"

text \<open>\<open>value[parts[0]]?.[parts[1]]\<close>: a key without a dot asks for the property \<open>undefined\<close>.\<close>

definition getContextValue :: "router_context \<Rightarrow> string \<Rightarrow> json option" where
  "getContextValue ctx key =
    (case split_on (CHR ''.'') key of
       a # b # _ \<Rightarrow> prop_of (prop_of (Some (context_json ctx)) a) b
     | [a] \<Rightarrow> prop_of (prop_of (Some (context_json ctx)) a) ''undefined''
     | [] \<Rightarrow> None)"

subsection \<open>Comparisons\<close>

text \<open>\<open>===\<close>: two objects are never the same one, the request and the configuration are parsed apart.\<close>

fun strict_eq :: "json option \<Rightarrow> json option \<Rightarrow> bool" where
  "strict_eq None None = True"
| "strict_eq (Some (JNum a)) (Some (JNum b)) = (a = b \<and> a \<noteq> NaN)"
| "strict_eq (Some (JArr _)) (Some (JArr _)) = False"
| "strict_eq (Some (JObj _)) (Some (JObj _)) = False"
| "strict_eq a b = (a = b)"

text \<open>\<open>parseFloat\<close>: the longest decimal literal the text starts with.\<close>

definition exp_prefix :: "rat \<Rightarrow> string \<Rightarrow> rat" where
  "exp_prefix m cs =
    (case cs of [] \<Rightarrow> m
     | e # rest \<Rightarrow> if e \<noteq> CHR ''e'' \<and> e \<noteq> CHR ''E'' then m
         else let neg = (rest \<noteq> [] \<and> hd rest = CHR ''-'');
                  ds = takeWhile is_digit (if rest \<noteq> [] \<and> (hd rest = CHR ''-'' \<or> hd rest = CHR ''+'') then tl rest else rest);
                  k = nat_of_digits 0 ds
              in if ds = [] then m else if neg then m / 10 ^ k else m * 10 ^ k)"

definition decimal_prefix :: "string \<Rightarrow> jsnum" where
  "decimal_prefix cs =
    (let ip = takeWhile is_digit cs; r1 = dropWhile is_digit cs; dot = (r1 \<noteq> [] \<and> hd r1 = CHR ''.'');
         fp = (if dot then takeWhile is_digit (tl r1) else []);
         r2 = (if dot then dropWhile is_digit (tl r1) else r1)
     in if ip = [] \<and> fp = [] then NaN
        else Fin (exp_prefix (of_nat (nat_of_digits 0 (ip @ fp)) / 10 ^ length fp) r2))"

definition parse_float_text :: "string \<Rightarrow> jsnum" where
  "parse_float_text s0 =
    (let s = dropWhile js_space s0; neg = (s \<noteq> [] \<and> hd s = CHR ''-''); signed = (neg \<or> s \<noteq> [] \<and> hd s = CHR ''+'');
         body = (if signed then tl s else s);
         v = (if starts_with body ''Infinity'' then PosInf else decimal_prefix body)
     in if neg then js_neg v else v)"

fun parseFloat :: "json option \<Rightarrow> jsnum" where
  "parseFloat (Some (JNum n)) = n"
| "parseFloat (Some (JStr s)) = parse_float_text s"
| "parseFloat (Some (JArr (v # _))) = parseFloat (Some v)"
| "parseFloat _ = NaN"

text \<open>\<open>Array.includes\<close> compares as \<open>===\<close> does, but finds \<open>NaN\<close>, which no JSON text holds.\<close>

definition includes_value :: "json list \<Rightarrow> json option \<Rightarrow> bool" where
  "includes_value vs v \<longleftrightarrow> list_ex (\<lambda>w. strict_eq (Some w) v) vs"

text \<open>One operator of a condition: \<open>Inl\<close> when it is none of the router's; a regular expression ends the evaluation, so
  it gives \<open>Some\<close> verdict; another operator gives \<open>None\<close> to go on or \<open>Some False\<close>.\<close>

definition operator_step :: "router_context \<Rightarrow> json option \<Rightarrow> string \<times> json \<Rightarrow> router_error + bool option" where
  "operator_step ctx value e =
    (case e of (op, cmp) \<Rightarrow>
      let unless = (\<lambda>ok. Inr (if ok then None else Some False)) in
      if op = ''$eq'' then unless (strict_eq value (Some cmp))
      else if op = ''$ne'' then unless (\<not> strict_eq value (Some cmp))
      else if op = ''$gt'' then unless (js_gt (parseFloat value) (parseFloat (Some cmp)))
      else if op = ''$gte'' then unless (js_ge (parseFloat value) (parseFloat (Some cmp)))
      else if op = ''$lt'' then unless (js_lt (parseFloat value) (parseFloat (Some cmp)))
      else if op = ''$lte'' then unless (js_le (parseFloat value) (parseFloat (Some cmp)))
      else if op = ''$in'' then unless (case cmp of JArr vs \<Rightarrow> includes_value vs value | _ \<Rightarrow> False)
      else if op = ''$nin'' then unless (case cmp of JArr vs \<Rightarrow> \<not> includes_value vs value | _ \<Rightarrow> False)
      else if op = ''$regex'' then Inr (Some (rc_regex ctx cmp value = Some True))
      else Inl (Unsupported_operator op))"

fun operator_loop :: "router_context \<Rightarrow> json option \<Rightarrow> (string \<times> json) list \<Rightarrow> router_error + bool" where
  "operator_loop ctx value [] = Inr True"
| "operator_loop ctx value (e # es) =
    rbind (operator_step ctx value e) (\<lambda>r. case r of Some b \<Rightarrow> Inr b | None \<Rightarrow> operator_loop ctx value es)"

definition evaluateOperator :: "router_context \<Rightarrow> json \<Rightarrow> json option \<Rightarrow> router_error + bool" where
  "evaluateOperator ctx operator value =
    (case own_entries operator of None \<Rightarrow> Inl Query_type | Some es \<Rightarrow> operator_loop ctx value es)"

subsection \<open>Queries\<close>

text \<open>A key that is no logical operator: \<open>value\<close> is compared, or holds the operators.\<close>

definition field_holds :: "router_context \<Rightarrow> string \<times> json \<Rightarrow> router_error + bool" where
  "field_holds ctx e =
    (case e of (key, value) \<Rightarrow>
      (case value of
         JObj _ \<Rightarrow> evaluateOperator ctx value (getContextValue ctx key)
       | JArr _ \<Rightarrow> evaluateOperator ctx value (getContextValue ctx key)
       | _ \<Rightarrow> Inr (strict_eq (getContextValue ctx key) (Some value))))"

fun fields_hold :: "router_context \<Rightarrow> (string \<times> json) list \<Rightarrow> router_error + bool" where
  "fields_hold ctx [] = Inr True"
| "fields_hold ctx (e # es) = rbind (field_holds ctx e) (\<lambda>b. if b then fields_hold ctx es else Inr False)"

fun evaluateQuery :: "router_context \<Rightarrow> json \<Rightarrow> router_error + bool"
and query_entries :: "router_context \<Rightarrow> (string \<times> json) list \<Rightarrow> router_error + bool"
and query_entry :: "router_context \<Rightarrow> string \<Rightarrow> json \<Rightarrow> (router_error + bool) option"
and some_query :: "router_context \<Rightarrow> json list \<Rightarrow> router_error + bool"
and every_query :: "router_context \<Rightarrow> json list \<Rightarrow> router_error + bool" where
  "evaluateQuery ctx q =
    (case q of JObj es \<Rightarrow> query_entries ctx es
     | _ \<Rightarrow> (case own_entries q of None \<Rightarrow> Inl Query_type | Some es \<Rightarrow> fields_hold ctx es))"
| "query_entries ctx [] = Inr True"
| "query_entries ctx ((k, v) # es) =
    (case query_entry ctx k v of
       Some r \<Rightarrow> r
     | None \<Rightarrow> rbind (field_holds ctx (k, v)) (\<lambda>b. if b then query_entries ctx es else Inr False))"
| "query_entry ctx k v =
    (case v of JArr qs \<Rightarrow>
       if k = ''$or'' then Some (some_query ctx qs) else if k = ''$and'' then Some (every_query ctx qs) else None
     | _ \<Rightarrow> None)"
| "some_query ctx [] = Inr False"
| "some_query ctx (q # qs) = rbind (evaluateQuery ctx q) (\<lambda>b. if b then Inr True else some_query ctx qs)"
| "every_query ctx [] = Inr True"
| "every_query ctx (q # qs) = rbind (evaluateQuery ctx q) (\<lambda>b. if b then every_query ctx qs else Inr False)"

subsection \<open>Targets\<close>

record router_config =
  rf_conditions :: "(json \<times> string) list option"
  rf_default :: "string option"
  rf_names :: "string option list"

fun find_name :: "nat \<Rightarrow> string \<Rightarrow> string option list \<Rightarrow> nat option" where
  "find_name i n [] = None"
| "find_name i n (x # xs) = (if x = Some n then Some i else find_name (Suc i) n xs)"

definition findTarget :: "router_config \<Rightarrow> string \<Rightarrow> router_error + nat" where
  "findTarget cfg n = lift_option (Invalid_target n) (find_name 0 n (rf_names cfg))"

text \<open>The loop over the conditions, up to the first that holds.\<close>

fun first_condition :: "router_context \<Rightarrow> (json \<times> string) list \<Rightarrow> router_error + string option" where
  "first_condition ctx [] = Inr None"
| "first_condition ctx ((q, n) # cs) = rbind (evaluateQuery ctx q) (\<lambda>b. if b then Inr (Some n) else first_condition ctx cs)"

definition resolveTarget :: "router_context \<Rightarrow> router_config \<Rightarrow> router_error + nat" where
  "resolveTarget ctx cfg =
    (case rf_conditions cfg of None \<Rightarrow> Inl No_conditions
     | Some cs \<Rightarrow> rbind (first_condition ctx cs) (\<lambda>r.
         case r of Some n \<Rightarrow> findTarget cfg n
         | None \<Rightarrow> if truthy_str (rf_default cfg) then findTarget cfg (the (rf_default cfg)) else Inl No_match))"

subsection \<open>Which target is taken\<close>

lemma all_less_Suc_shift: "(\<forall>k < Suc n. P k) \<longleftrightarrow> P 0 \<and> (\<forall>k < n. P (Suc k))"
  using less_Suc_eq_0_disj by auto

lemma ex_less_Suc_shift: "(\<exists>k < Suc n. P k) \<longleftrightarrow> P 0 \<or> (\<exists>k < n. P (Suc k))"
  using less_Suc_eq_0_disj by auto

lemma find_name_Some:
  "find_name i n xs = Some j \<longleftrightarrow> i \<le> j \<and> j - i < length xs \<and> xs ! (j - i) = Some n \<and> (\<forall>k < j - i. xs ! k \<noteq> Some n)"
proof (induction i n xs rule: find_name.induct)
  case (2 i n x xs)
  show ?case
  proof (cases "i < j")
    case True
    then obtain d where d: "j = Suc (i + d)" by (metis less_imp_Suc_add)
    with 2 show ?thesis by (auto simp: all_less_Suc_shift nth_Cons')
  next
    case False
    with 2 show ?thesis by (cases "j = i") auto
  qed
qed simp

lemma first_condition_Some:
  "first_condition ctx cs = Inr (Some n) \<longleftrightarrow>
    (\<exists>k < length cs. snd (cs ! k) = n \<and> evaluateQuery ctx (fst (cs ! k)) = Inr True \<and>
       (\<forall>j < k. evaluateQuery ctx (fst (cs ! j)) = Inr False))"
proof (induction cs)
  case (Cons c cs)
  obtain q m where c: "c = (q, m)" by force
  have "first_condition ctx (c # cs) = Inr (Some n) \<longleftrightarrow> evaluateQuery ctx q = Inr True \<and> m = n \<or>
      evaluateQuery ctx q = Inr False \<and> first_condition ctx cs = Inr (Some n)"
    unfolding c by (auto simp: return_iff simp del: evaluateQuery.simps split: if_splits)
  then show ?case unfolding Cons.IH c by (simp add: ex_less_Suc_shift all_less_Suc_shift del: evaluateQuery.simps) blast
qed simp

lemma first_condition_None:
  "first_condition ctx cs = Inr None \<longleftrightarrow> (\<forall>c \<in> set cs. evaluateQuery ctx (fst c) = Inr False)"
  by (induction cs) (auto simp: return_iff simp del: evaluateQuery.simps split: if_splits)

text \<open>A query without logical operators holds exactly when each of its conditions does.\<close>

lemma plain_query_conjunction:
  assumes "\<And>k v. (k, v) \<in> set es \<Longrightarrow> k \<noteq> ''$or'' \<and> k \<noteq> ''$and''"
  shows "evaluateQuery ctx (JObj es) = Inr True \<longleftrightarrow> (\<forall>e \<in> set es. field_holds ctx e = Inr True)"
proof -
  have "query_entries ctx es = Inr True \<longleftrightarrow> (\<forall>e \<in> set es. field_holds ctx e = Inr True)"
    using assms
  proof (induction es)
    case (Cons e es)
    obtain k v where e: "e = (k, v)" by force
    have "query_entry ctx k v = None" using Cons.prems [of k v] by (simp add: e split: json.splits)
    with Cons show ?case by (auto simp: e return_iff simp del: query_entry.simps split: if_splits)
  qed simp
  then show ?thesis by simp
qed

text \<open>A logical operator ends the evaluation: the conditions beside it are not looked at. So does a regular expression
  among the operators of one key.\<close>

lemma logical_operator_ends:
  "evaluateQuery ctx (JObj ((''$or'', JArr qs) # es)) = some_query ctx qs"
  "evaluateQuery ctx (JObj ((''$and'', JArr qs) # es)) = every_query ctx qs"
  by simp_all

lemma regex_operator_ends:
  "operator_loop ctx value ((''$regex'', re) # es) = Inr (rc_regex ctx re value = Some True)"
  by (simp add: operator_step_def)

text \<open>The conditional strategy takes a target exactly when it bears, first in the list, the name the first holding
  condition gives, all conditions before it having failed without an error, or the default's name when all failed.\<close>

lemma conditional_first_match:
  "resolveTarget ctx cfg = Inr i \<longleftrightarrow>
    (\<exists>cs n. rf_conditions cfg = Some cs \<and>
       ((\<exists>k < length cs. snd (cs ! k) = n \<and> evaluateQuery ctx (fst (cs ! k)) = Inr True \<and>
           (\<forall>j < k. evaluateQuery ctx (fst (cs ! j)) = Inr False)) \<or>
        ((\<forall>c \<in> set cs. evaluateQuery ctx (fst c) = Inr False) \<and> rf_default cfg = Some n \<and> n \<noteq> [])) \<and>
       i < length (rf_names cfg) \<and> rf_names cfg ! i = Some n \<and> (\<forall>j < i. rf_names cfg ! j \<noteq> Some n))"
proof -
  have "resolveTarget ctx cfg = Inr i \<longleftrightarrow>
    (\<exists>cs n. rf_conditions cfg = Some cs \<and>
       (first_condition ctx cs = Inr (Some n) \<or> first_condition ctx cs = Inr None \<and> rf_default cfg = Some n \<and> n \<noteq> []) \<and>
       find_name 0 n (rf_names cfg) = Some i)"
    by (cases "rf_default cfg")
      (auto simp: resolveTarget_def findTarget_def return_iff truthy_str_def split: option.splits if_splits)
  then show ?thesis unfolding first_condition_Some first_condition_None find_name_Some by auto
qed

definition sample_context :: router_context where
  "sample_context = \<lparr>rc_metadata = JObj [(''user_plan'', JStr ''paid'')], rc_params = JObj [(''max_tokens'', JNum (Fin 300))],
     rc_pathname = ''/v1/chat/completions'', rc_regex = (\<lambda>_ _. None)\<rparr>"

definition sample_router :: router_config where
  "sample_router = \<lparr>rf_conditions = Some
      [(JObj [(''metadata.user_plan'', JObj [(''$eq'', JStr ''free'')])], ''small''),
       (JObj [(''$and'', JArr [JObj [(''metadata.user_plan'', JStr ''paid'')], JObj [(''params.max_tokens'', JObj [(''$gt'', JNum (Fin 100))])]])], ''large'')],
     rf_default = Some ''small'', rf_names = [Some ''small'', Some ''large'']\<rparr>"

end
