(* ===== verification/Gateway_Targets.thy ===== *)
theory Gateway_Targets
  imports Conditional_Router Mcp_Guardrails
begin

text \<open>
  The walk over the targets of a configuration (\<open>src/handlers/handlerUtils.ts\<close> \<open>tryTargetsRecursively\<close>): what a target
  inherits, the shorthand hooks, the filter on open circuit breakers, and the strategies \<open>fallback\<close>, \<open>loadbalance\<close>,
  \<open>conditional\<close> and \<open>single\<close> down to the calls of \<open>tryPost\<close>. The conversion of shorthand hooks deletes the settings of a
  hook from the configuration, which later walks read again: the hook arrays live in a store and a target refers to
  them. \<open>tryPost\<close>, the circuit breaker callback, \<open>Math.random\<close> and \<open>JSON.parse\<close> are parameters; weights are exact numbers.
\<close>

subsection \<open>Hooks\<close>

datatype hook_type = Guardrail_hook | Mutator_hook

record gateway_hook =
  gh_type :: hook_type
  gh_settings :: "(string \<times> json) list"
  gh_checks :: "hook_check list"

datatype hook_entry = Given json | Converted gateway_hook

type_synonym hook_heap = "nat \<Rightarrow> json list"

text \<open>The hook a shorthand stands for: its settings under their shorthand names (an \<open>id\<close> or \<open>type\<close> replaces the random
  one and the given one), every other key a check.\<close>

definition gateway_hook_of :: "(json list \<Rightarrow> string) \<Rightarrow> hook_type \<Rightarrow> json \<Rightarrow> guard_error + gateway_hook" where
  "gateway_hook_of str ht hook =
    (case own_entries hook of None \<Rightarrow> Inl Guard_type
     | Some es \<Rightarrow>
        if ''hasOwnProperty'' \<in> fst ` set es then Inl Guard_type
        else rbind (map_res (shorthand_check str) (filter (\<lambda>e. fst e \<notin> set SHORTHAND_KEYS) es)) (\<lambda>cs.
               Inr \<lparr>gh_type = ht, gh_settings = filter (\<lambda>e. fst e \<in> set SHORTHAND_KEYS) es, gh_checks = cs\<rparr>))"

text \<open>\<open>delete hook[key]\<close> for each setting: what is left of the shorthand in the configuration.\<close>

fun stripped :: "json \<Rightarrow> json" where
  "stripped (JObj es) =
    (if ''hasOwnProperty'' \<in> fst ` set es then JObj es else JObj (filter (\<lambda>e. fst e \<notin> set SHORTHAND_KEYS) es))"
| "stripped v = v"

fun convert_loop :: "(json list \<Rightarrow> string) \<Rightarrow> hook_type \<Rightarrow> json list \<Rightarrow> (guard_error + hook_entry list) \<times> json list" where
  "convert_loop str ht [] = (Inr [], [])"
| "convert_loop str ht (h # hs) =
    (case gateway_hook_of str ht h of
       Inl e \<Rightarrow> (Inl e, stripped h # hs)
     | Inr g \<Rightarrow> (case convert_loop str ht hs of (r, hs') \<Rightarrow> (rbind r (\<lambda>gs. Inr (Converted g # gs)), stripped h # hs')))"

definition convertHooksShorthand ::
  "(json list \<Rightarrow> string) \<Rightarrow> hook_type \<Rightarrow> nat \<Rightarrow> hook_heap \<Rightarrow> (guard_error + hook_entry list) \<times> hook_heap" where
  "convertHooksShorthand str ht ref heap = (case convert_loop str ht (heap ref) of (r, hs) \<Rightarrow> (r, heap(ref := hs)))"

definition hook_bind ::
  "(guard_error + 'a) \<times> hook_heap \<Rightarrow> ('a \<Rightarrow> hook_heap \<Rightarrow> (guard_error + 'b) \<times> hook_heap) \<Rightarrow> (guard_error + 'b) \<times> hook_heap" where
  "hook_bind m f = (case m of (Inl e, h) \<Rightarrow> (Inl e, h) | (Inr x, h) \<Rightarrow> f x h)"

subsection \<open>Targets\<close>

text \<open>A target's settings; \<open>to_rest\<close> is everything the walk does not look at. The guardrail and mutator arrays are
  references into the store. \<open>to_defaultInputHooks\<close> and \<open>to_defaultOutputHooks\<close> are the converted defaults.\<close>

record target_options =
  to_id :: "string option"
  to_name :: "string option"
  to_weight :: "rat option"
  to_isOpen :: bool
  to_overrideParams :: "(string, json) jmap option"
  to_retry :: "(string, json) jmap option"
  to_cache :: "(string, json) jmap option"
  to_requestTimeout :: "nat option"
  to_strictOpenAiCompliance :: "bool option"
  to_messagesViaResponses :: "bool option"
  to_forwardHeaders :: "string list option"
  to_customHost :: "string option"
  to_defaultInputGuardrails :: "nat option"
  to_defaultOutputGuardrails :: "nat option"
  to_inputGuardrails :: "nat option"
  to_outputGuardrails :: "nat option"
  to_inputMutators :: "nat option"
  to_outputMutators :: "nat option"
  to_beforeRequestHooks :: "hook_entry list option"
  to_afterRequestHooks :: "hook_entry list option"
  to_defaultInputHooks :: "hook_entry list"
  to_defaultOutputHooks :: "hook_entry list"
  to_rest :: json

datatype strategy_mode = Loadbalance | Fallback | Single | Conditional

record target_strategy =
  st_mode :: "strategy_mode option"
  st_onStatusCodes :: "nat list option"
  st_conditions :: "(json \<times> string) list option"
  st_default :: "string option"

datatype target = Target target_options "target_strategy option" "target list option"

primrec options_of :: "target \<Rightarrow> target_options" where
  "options_of (Target opts _ _) = opts"

subsection \<open>Inheritance\<close>

record inherited_config =
  ih_id :: "string option"
  ih_overrideParams :: "(string, json) jmap"
  ih_retry :: "(string, json) jmap"
  ih_cache :: "(string, json) jmap"
  ih_requestTimeout :: "nat option"
  ih_defaultInput :: "hook_entry list option"
  ih_defaultOutput :: "hook_entry list option"
  ih_strictOpenAiCompliance :: "bool option"
  ih_messagesViaResponses :: "bool option"
  ih_forwardHeaders :: "string list option"
  ih_customHost :: "string option"
  ih_afterRequestHooks :: "hook_entry list option"
  ih_beforeRequestHooks :: "hook_entry list option"

text \<open>The empty configuration the walk starts with.\<close>

definition no_inherited :: inherited_config where
  "no_inherited = \<lparr>ih_id = None, ih_overrideParams = [], ih_retry = [], ih_cache = [], ih_requestTimeout = None,
     ih_defaultInput = None, ih_defaultOutput = None, ih_strictOpenAiCompliance = None, ih_messagesViaResponses = None,
     ih_forwardHeaders = None, ih_customHost = None, ih_afterRequestHooks = None, ih_beforeRequestHooks = None\<rparr>"

text \<open>\<open>{...a, ...b}\<close>\<close>

definition spread_over :: "(string, json) jmap \<Rightarrow> (string, json) jmap \<Rightarrow> (string, json) jmap" where
  "spread_over a b = fold (\<lambda>(k, v). jm_set k v) b a"

fun truthy_nat :: "nat option \<Rightarrow> bool" where
  "truthy_nat (Some n) = (n \<noteq> 0)"
| "truthy_nat None = False"

fun map_opt_or :: "'a option \<Rightarrow> 'a \<Rightarrow> 'a" where
  "map_opt_or (Some x) _ = x"
| "map_opt_or None d = d"

text \<open>The default guardrails are only converted at the root, where nothing is inherited.\<close>

definition default_hooks ::
  "(json list \<Rightarrow> string) \<Rightarrow> bool \<Rightarrow> nat option \<Rightarrow> hook_entry list option \<Rightarrow> hook_heap \<Rightarrow>
   (guard_error + hook_entry list option) \<times> hook_heap" where
  "default_hooks str first ref inh heap =
    (case ref of
       Some r \<Rightarrow> if first then hook_bind (convertHooksShorthand str Guardrail_hook r heap) (\<lambda>hs h. (Inr (Some hs), h)) else (Inr inh, heap)
     | None \<Rightarrow> (Inr inh, heap))"

definition add_hooks ::
  "(json list \<Rightarrow> string) \<Rightarrow> hook_type \<Rightarrow> nat option \<Rightarrow> hook_entry list option \<Rightarrow> hook_heap \<Rightarrow>
   (guard_error + hook_entry list option) \<times> hook_heap" where
  "add_hooks str ht ref hooks heap =
    (case ref of None \<Rightarrow> (Inr hooks, heap)
     | Some r \<Rightarrow> hook_bind (convertHooksShorthand str ht r heap) (\<lambda>hs h. (Inr (Some (map_opt_or hooks [] @ hs)), h)))"

text \<open>The fields a target may override: its own value where it has one, else the inherited one, which both the target and
  what its children inherit then hold. \<open>strictOpenAiCompliance\<close> is the exception: the target does not get the inherited
  value.\<close>

definition inherit_settings :: "inherited_config \<Rightarrow> target_options \<Rightarrow> target_options \<times> inherited_config" where
  "inherit_settings inh t =
    (let over = spread_over (ih_overrideParams inh) (map_opt_or (to_overrideParams t) []);
         retry = map_opt_or (to_retry t) (ih_retry inh);
         cache = map_opt_or (to_cache t) (ih_cache inh);
         strict = (if to_strictOpenAiCompliance t \<noteq> None then to_strictOpenAiCompliance t else ih_strictOpenAiCompliance inh);
         via = (if to_messagesViaResponses t \<noteq> None then to_messagesViaResponses t else ih_messagesViaResponses inh);
         fwd = (if to_forwardHeaders t \<noteq> None then to_forwardHeaders t else ih_forwardHeaders inh);
         host = (if truthy_str (to_customHost t) then to_customHost t
                 else if truthy_str (ih_customHost inh) then ih_customHost inh else None);
         tmo = (if truthy_nat (to_requestTimeout t) then to_requestTimeout t
                else if truthy_nat (ih_requestTimeout inh) then ih_requestTimeout inh else None)
     in (t\<lparr>to_overrideParams := Some over, to_retry := Some retry, to_cache := Some cache, to_messagesViaResponses := via,
           to_forwardHeaders := fwd, to_customHost := (if host = None then to_customHost t else host),
           to_requestTimeout := (if tmo = None then to_requestTimeout t else tmo)\<rparr>,
         inh\<lparr>ih_id := (if truthy_str (ih_id inh) then ih_id inh else to_id t), ih_overrideParams := over, ih_retry := retry,
             ih_cache := cache, ih_requestTimeout := tmo, ih_strictOpenAiCompliance := strict, ih_messagesViaResponses := via,
             ih_forwardHeaders := fwd, ih_customHost := host\<rparr>))"

definition inherit_hooks ::
  "hook_entry list option \<Rightarrow> hook_entry list option \<Rightarrow> inherited_config \<times> target_options \<Rightarrow> target_options \<times> inherited_config" where
  "inherit_hooks before after p =
    (case p of (inh, t) \<Rightarrow>
      let aft = (if after \<noteq> None then after else ih_afterRequestHooks inh);
          bef = (if before \<noteq> None then before else ih_beforeRequestHooks inh)
      in (t\<lparr>to_beforeRequestHooks := bef, to_afterRequestHooks := aft\<rparr>,
          inh\<lparr>ih_beforeRequestHooks := bef, ih_afterRequestHooks := aft\<rparr>))"

text \<open>The whole merge; \<open>inherited\<close> is \<open>None\<close> at the root. Spreading default hooks nobody set throws.\<close>

definition merge_target ::
  "(json list \<Rightarrow> string) \<Rightarrow> inherited_config option \<Rightarrow> target_options \<Rightarrow> hook_heap \<Rightarrow>
   (guard_error + target_options \<times> inherited_config) \<times> hook_heap" where
  "merge_target str inherited t heap =
    (let inh = map_opt_or inherited no_inherited; first = (inherited = None) in
     hook_bind (default_hooks str first (to_defaultInputGuardrails t) (ih_defaultInput inh) heap) (\<lambda>din h1.
     hook_bind (default_hooks str first (to_defaultOutputGuardrails t) (ih_defaultOutput inh) h1) (\<lambda>dout h2.
     hook_bind (add_hooks str Guardrail_hook (to_inputGuardrails t) (to_beforeRequestHooks t) h2) (\<lambda>b1 h3.
     hook_bind (add_hooks str Guardrail_hook (to_outputGuardrails t) (to_afterRequestHooks t) h3) (\<lambda>a1 h4.
     hook_bind (add_hooks str Mutator_hook (to_inputMutators t) b1 h4) (\<lambda>b2 h5.
     hook_bind (add_hooks str Mutator_hook (to_outputMutators t) a1 h5) (\<lambda>a2 h6.
       case (din, dout) of
         (Some gi, Some go) \<Rightarrow>
           (case inherit_settings inh t of (t1, inh1) \<Rightarrow>
            case inherit_hooks b2 a2 (inh1, t1) of (t2, inh2) \<Rightarrow>
              (Inr (t2\<lparr>to_defaultInputHooks := gi, to_defaultOutputHooks := go\<rparr>,
                    inh2\<lparr>ih_defaultInput := din, ih_defaultOutput := dout\<rparr>), h6))
       | _ \<Rightarrow> (Inl Guard_type, h6))))))))"

subsection \<open>Children\<close>

text \<open>\<open>target.originalIndex || index\<close>\<close>

definition or_index :: "nat option \<Rightarrow> nat \<Rightarrow> nat" where
  "or_index original index = (case original of None \<Rightarrow> index | Some i \<Rightarrow> if i = 0 then index else i)"

text \<open>The children a strategy sees, each with the index its path names: those whose circuit is closed, when an id asks
  for circuit breaking and one is. (Without circuit breaking the code also takes an \<open>originalIndex\<close> that the caller's own
  configuration sets, which the model does not read.)\<close>

definition healthy_targets :: "bool \<Rightarrow> target list \<Rightarrow> (nat option \<times> target) list" where
  "healthy_targets handling ts =
    (let healthy = filter (\<lambda>(_, t). \<not> to_isOpen (options_of t)) (map (\<lambda>i. (Some i, ts ! i)) [0..<length ts])
     in if handling \<and> healthy \<noteq> [] then healthy else map (\<lambda>t. (None, t)) ts)"

definition indexed_targets :: "bool \<Rightarrow> target list \<Rightarrow> (nat \<times> target) list" where
  "indexed_targets handling ts =
    (let hs = healthy_targets handling ts in map (\<lambda>i. (or_index (fst (hs ! i)) i, snd (hs ! i))) [0..<length hs])"

text \<open>The child a random number falls on: the weights add up from the first child.\<close>

definition weight_of :: "target \<Rightarrow> rat" where
  "weight_of t = map_opt_or (to_weight (options_of t)) 1"

fun pick_by_weight :: "rat \<Rightarrow> (nat \<times> target) list \<Rightarrow> (nat \<times> target) option" where
  "pick_by_weight r [] = None"
| "pick_by_weight r (c # cs) = (if r < weight_of (snd c) then Some c else pick_by_weight (r - weight_of (snd c)) cs)"

definition total_weight :: "(nat \<times> target) list \<Rightarrow> rat" where
  "total_weight cs = sum_list (map (\<lambda>c. weight_of (snd c)) cs)"

definition child_path :: "string \<Rightarrow> nat \<Rightarrow> string" where
  "child_path path i = path @ ''.targets['' @ digits_of i @ '']''"

subsection \<open>Runs\<close>

record walk_answer =
  an_status :: nat
  an_exception :: bool

datatype call_failure = Gateway_failure nat | Other_failure

datatype raise_reason = Router_failure router_error | Type_failure

text \<open>\<open>No_answer\<close> is \<open>undefined\<close>: no child was tried.\<close>

datatype run_result = Answered walk_answer | No_answer | Raised raise_reason

record 's run_state =
  rs_hooks :: hook_heap
  rs_world :: 's
  rs_calls :: "(string \<times> target_options) list"

record 's target_env =
  te_tryPost :: "'s \<Rightarrow> target_options \<Rightarrow> string \<Rightarrow> (call_failure + walk_answer) \<times> 's"
  te_breaker :: "'s \<Rightarrow> walk_answer \<Rightarrow> string \<Rightarrow> target_options \<Rightarrow> string \<Rightarrow> call_failure option \<times> 's"
  te_random :: "'s \<Rightarrow> rat \<times> 's"
  te_text :: "json list \<Rightarrow> string"
  te_parse :: "string \<Rightarrow> json option"
  te_metadata :: "string option"
  te_params :: json
  te_pathname :: string
  te_regex :: "json \<Rightarrow> json option \<Rightarrow> bool option"

definition answer_ok :: "walk_answer \<Rightarrow> bool" where
  "answer_ok a \<longleftrightarrow> 200 \<le> an_status a \<and> an_status a < 300"

text \<open>The answer made of what \<open>tryPost\<close> or the callback throws.\<close>

definition failure_answer :: "call_failure \<Rightarrow> walk_answer" where
  "failure_answer e = \<lparr>an_status = (case e of Gateway_failure n \<Rightarrow> n | Other_failure \<Rightarrow> 500), an_exception = True\<rparr>"

text \<open>A target without a known strategy: the call itself, then the circuit breaker hears of the answer.\<close>

definition post_target :: "'s target_env \<Rightarrow> string option \<Rightarrow> target_options \<Rightarrow> string \<Rightarrow> 's run_state \<Rightarrow> run_result \<times> 's run_state" where
  "post_target env cb t path st =
    (case te_tryPost env (rs_world st) t path of (r, w) \<Rightarrow>
      let st1 = st\<lparr>rs_world := w, rs_calls := rs_calls st @ [(path, t)]\<rparr> in
      (case r of
         Inl e \<Rightarrow> (Answered (failure_answer e), st1)
       | Inr a \<Rightarrow>
           if \<not> truthy_str cb then (Answered a, st1)
           else (case te_breaker env w a (the cb) t path of (e, w2) \<Rightarrow>
                   (Answered (case e of None \<Rightarrow> a | Some f \<Rightarrow> failure_answer f), st1\<lparr>rs_world := w2\<rparr>))))"

text \<open>When a fallback stops at a child's answer.\<close>

definition fallback_stops :: "nat list option \<Rightarrow> run_result \<Rightarrow> bool" where
  "fallback_stops codes r =
    (case r of
       Answered a \<Rightarrow> (case codes of Some cs \<Rightarrow> an_status a \<notin> set cs | None \<Rightarrow> answer_ok a) \<or> an_exception a
     | No_answer \<Rightarrow> codes \<noteq> None
     | Raised _ \<Rightarrow> True)"

fun fallback_loop ::
  "(nat \<times> target \<Rightarrow> 's run_state \<Rightarrow> run_result \<times> 's run_state) \<Rightarrow> nat list option \<Rightarrow> (nat \<times> target) list \<Rightarrow>
   run_result \<Rightarrow> 's run_state \<Rightarrow> run_result \<times> 's run_state" where
  "fallback_loop go codes [] r st = (r, st)"
| "fallback_loop go codes (c # cs) r st =
    (case go c st of (r1, st1) \<Rightarrow> if fallback_stops codes r1 then (r1, st1) else fallback_loop go codes cs r1 st1)"

definition conditional_context :: "'s target_env \<Rightarrow> router_context" where
  "conditional_context env =
    \<lparr>rc_metadata = (case te_metadata env of None \<Rightarrow> JObj [] | Some t \<Rightarrow> map_opt_or (te_parse env t) (JObj [])),
     rc_params = te_params env, rc_pathname = te_pathname env, rc_regex = te_regex env\<rparr>"

definition conditional_config :: "target_strategy \<Rightarrow> (nat \<times> target) list \<Rightarrow> router_config" where
  "conditional_config s cs =
    \<lparr>rf_conditions = st_conditions s, rf_default = st_default s, rf_names = map (\<lambda>c. to_name (options_of (snd c))) cs\<rparr>"

lemma fallback_loop_cong [fundef_cong]:
  assumes "codes = codes'" "cs = cs'" "r = r'" "st = st'" "\<And>c s. c \<in> set cs' \<Longrightarrow> go c s = go' c s"
  shows "fallback_loop go codes cs r st = fallback_loop go' codes' cs' r' st'"
proof -
  have "fallback_loop go codes' cs r st = fallback_loop go' codes' cs r st" if "\<And>c s. c \<in> set cs \<Longrightarrow> go c s = go' c s" for r st
    using that by (induction go codes' cs r st rule: fallback_loop.induct) (auto split: prod.splits)
  with assms show ?thesis by auto
qed

lemma healthy_targets_child: "(k, t) \<in> set (healthy_targets handling ts) \<Longrightarrow> t \<in> set ts"
  by (auto simp: healthy_targets_def Let_def split: if_splits)

lemma indexed_targets_child: "(i, t) \<in> set (indexed_targets handling ts) \<Longrightarrow> t \<in> set ts"
proof -
  assume "(i, t) \<in> set (indexed_targets handling ts)"
  then obtain k where "k < length (healthy_targets handling ts)" "t = snd (healthy_targets handling ts ! k)"
    by (auto simp: indexed_targets_def Let_def)
  then show ?thesis using healthy_targets_child [of "fst (healthy_targets handling ts ! k)" t] by (metis nth_mem prod.collapse)
qed

lemma pick_by_weight_in: "pick_by_weight r cs = Some c \<Longrightarrow> c \<in> set cs"
  by (induction r cs rule: pick_by_weight.induct) (auto split: if_splits)

lemma find_name_in: "find_name i n xs = Some j \<Longrightarrow> i \<le> j \<and> j - i < length xs"
  by (simp add: find_name_Some)

lemma resolveTarget_in: "resolveTarget ctx cfg = Inr i \<Longrightarrow> i < length (rf_names cfg)"
  using find_name_in [of 0 _ "rf_names cfg" i]
  by (auto simp: resolveTarget_def findTarget_def return_iff split: option.splits if_splits)

lemma child_smaller: "c \<in> set (indexed_targets handling ts) \<Longrightarrow> size (snd c) < Suc (Suc (size_list size ts))"
  using size_list_estimation' [of "snd c" ts "size (snd c)" size] indexed_targets_child [of "fst c" "snd c"] by simp

lemma picked_smaller:
  "pick_by_weight r (indexed_targets handling ts) = Some c \<Longrightarrow> size (snd c) < Suc (Suc (size_list size ts))"
  by (rule child_smaller [OF pick_by_weight_in])

lemma resolved_smaller:
  "resolveTarget ctx (conditional_config s (indexed_targets handling ts)) = Inr i \<Longrightarrow>
    size (snd (indexed_targets handling ts ! i)) < Suc (Suc (size_list size ts))"
  using child_smaller [OF nth_mem] resolveTarget_in [of ctx "conditional_config s (indexed_targets handling ts)" i]
  by (simp add: conditional_config_def)

lemma first_smaller: "(i, t) # cs = indexed_targets handling ts \<Longrightarrow> size t < Suc (Suc (size_list size ts))"
  using child_smaller [of "(i, t)" handling ts] by (metis list.set_intros(1) snd_conv)

text \<open>\<open>tryTargetsRecursively\<close>\<close>

function try_targets ::
  "'s target_env \<Rightarrow> inherited_config option \<Rightarrow> string \<Rightarrow> target \<Rightarrow> 's run_state \<Rightarrow> run_result \<times> 's run_state" where
  "try_targets env inh path (Target opts strat kids) st =
    (case merge_target (te_text env) inh opts (rs_hooks st) of
       (Inl _, h) \<Rightarrow> (Raised Type_failure, st\<lparr>rs_hooks := h\<rparr>)
     | (Inr (cur, inh1), h) \<Rightarrow>
         let st1 = st\<lparr>rs_hooks := h\<rparr>; cb = ih_id inh1 in
         (case (case strat of None \<Rightarrow> None | Some s \<Rightarrow> map_option (\<lambda>m. (m, s)) (st_mode s)) of
            None \<Rightarrow> post_target env cb cur path st1
          | Some (mode, s) \<Rightarrow>
             (case kids of None \<Rightarrow> (Raised (if mode = Conditional then
                 (case resolveTarget (conditional_context env) (conditional_config s []) of Inl e \<Rightarrow> Router_failure e | Inr _ \<Rightarrow> Type_failure)
                 else Type_failure), st1)
              | Some ts \<Rightarrow>
                 let cs = indexed_targets (truthy_str cb) ts in
                 (case mode of
                    Fallback \<Rightarrow> fallback_loop (\<lambda>c s. try_targets env (Some inh1) (child_path path (fst c)) (snd c) s) (st_onStatusCodes s) cs No_answer st1
                  | Loadbalance \<Rightarrow>
                      (case te_random env (rs_world st1) of (u, w) \<Rightarrow>
                        let st2 = st1\<lparr>rs_world := w\<rparr> in
                        (case pick_by_weight (u * total_weight cs) cs of
                           None \<Rightarrow> (No_answer, st2)
                         | Some c \<Rightarrow> try_targets env (Some inh1) (child_path path (fst c)) (snd c) st2))
                  | Single \<Rightarrow>
                      (case cs of [] \<Rightarrow> (Raised Type_failure, st1)
                       | c # _ \<Rightarrow> try_targets env (Some inh1) (child_path path (fst c)) (snd c) st1)
                  | Conditional \<Rightarrow>
                      (case resolveTarget (conditional_context env) (conditional_config s cs) of
                         Inl e \<Rightarrow> (Raised (Router_failure e), st1)
                       | Inr i \<Rightarrow> try_targets env (Some inh1) (child_path path (fst (cs ! i))) (snd (cs ! i)) st1)))))"
  by pat_completeness auto

termination
  by (relation "measure (\<lambda>(_, _, _, t, _). size t)")
    (auto simp: child_smaller picked_smaller resolved_smaller dest: first_smaller)

subsection \<open>What a walk calls\<close>

lemma healthy_indices:
  "filter (\<lambda>(_, t). \<not> to_isOpen (options_of t)) (map (\<lambda>i. (Some i, ts ! i)) [0..<length ts]) =
   map (\<lambda>i. (Some i, ts ! i)) (filter (\<lambda>i. \<not> to_isOpen (options_of (ts ! i))) [0..<length ts])"
  by (simp add: filter_map o_def)

lemma indexed_targets_ok:
  assumes "c \<in> set (indexed_targets handling ts)"
  shows "fst c < length ts" "snd c = ts ! fst c"
    "handling \<Longrightarrow> to_isOpen (options_of (snd c)) \<Longrightarrow> t \<in> set ts \<Longrightarrow> to_isOpen (options_of t)"
proof -
  define js where "js = filter (\<lambda>i. \<not> to_isOpen (options_of (ts ! i))) [0..<length ts]"
  define hs where "hs = healthy_targets handling ts"
  have hs: "hs = (if handling \<and> js \<noteq> [] then map (\<lambda>i. (Some i, ts ! i)) js else map (\<lambda>t. (None, t)) ts)"
    unfolding hs_def healthy_targets_def Let_def healthy_indices js_def by simp
  from assms obtain k where k: "k < length hs" "c = (or_index (fst (hs ! k)) k, snd (hs ! k))"
    by (auto simp: indexed_targets_def Let_def hs_def)
  have up: "k \<le> js ! k" if "k < length js" using that by (intro sorted_wrt_less_idx) (simp_all add: js_def sorted_wrt_filter)
  have mem: "js ! k < length ts \<and> \<not> to_isOpen (options_of (ts ! (js ! k)))" if "k < length js"
    using nth_mem [OF that] by (simp add: js_def)
  have "fst c < length ts \<and> snd c = ts ! fst c \<and>
      (handling \<longrightarrow> to_isOpen (options_of (snd c)) \<longrightarrow> t \<in> set ts \<longrightarrow> to_isOpen (options_of t))"
  proof (cases "handling \<and> js \<noteq> []")
    case True
    with k hs have "k < length js" "c = (or_index (Some (js ! k)) k, ts ! (js ! k))" by auto
    with up mem show ?thesis by (auto simp: or_index_def)
  next
    case False
    with k hs have c: "k < length ts" "c = (k, ts ! k)" by (auto simp: or_index_def)
    from False have "handling \<Longrightarrow> \<forall>t \<in> set ts. to_isOpen (options_of t)"
      by (auto simp: js_def filter_empty_conv in_set_conv_nth)
    with c show ?thesis by auto
  qed
  then show "fst c < length ts" "snd c = ts ! fst c"
    "handling \<Longrightarrow> to_isOpen (options_of (snd c)) \<Longrightarrow> t \<in> set ts \<Longrightarrow> to_isOpen (options_of t)" by auto
qed

fun target_at :: "target \<Rightarrow> nat list \<Rightarrow> target option" where
  "target_at t [] = Some t"
| "target_at (Target _ _ (Some ts)) (i # is) = (if i < length ts then target_at (ts ! i) is else None)"
| "target_at (Target _ _ None) (i # is) = None"

definition path_of :: "string \<Rightarrow> nat list \<Rightarrow> string" where
  "path_of = foldl child_path"

text \<open>From a node that asks for circuit breaking on, a walk enters a child whose circuit is open only when all are.\<close>

fun closed_path :: "string option \<Rightarrow> target \<Rightarrow> nat list \<Rightarrow> bool" where
  "closed_path cb (Target opts _ (Some ts)) (i # is) =
    (let cb' = (if truthy_str cb then cb else to_id opts) in
       (truthy_str cb' \<and> to_isOpen (options_of (ts ! i)) \<longrightarrow> (\<forall>t \<in> set ts. to_isOpen (options_of t))) \<and>
       closed_path cb' (ts ! i) is)"
| "closed_path _ _ _ = True"

definition own_or :: "string option \<Rightarrow> target_options \<Rightarrow> string option" where
  "own_or h opts = (if truthy_str (to_customHost opts) then to_customHost opts else if truthy_str h then h else None)"

text \<open>The custom host nearest to a node, from the node upwards.\<close>

fun nearest_host :: "string option \<Rightarrow> target \<Rightarrow> nat list \<Rightarrow> string option" where
  "nearest_host h (Target opts _ (Some ts)) (i # is) = nearest_host (own_or h opts) (ts ! i) is"
| "nearest_host h t _ = own_or h (options_of t)"

fun strategy_of :: "target \<Rightarrow> strategy_mode option" where
  "strategy_of (Target _ s _) = Option.bind s st_mode"

definition call_ok :: "string option \<Rightarrow> string option \<Rightarrow> string \<Rightarrow> target \<Rightarrow> string \<times> target_options \<Rightarrow> bool" where
  "call_ok cb host path t call \<longleftrightarrow>
    (\<exists>is leaf. fst call = path_of path is \<and> target_at t is = Some leaf \<and> strategy_of leaf = None \<and>
       to_rest (snd call) = to_rest (options_of leaf) \<and> closed_path cb t is \<and>
       (if truthy_str (to_customHost (snd call)) then to_customHost (snd call) else None) = nearest_host host t is)"

lemma hook_bind_return: "hook_bind m f = (Inr y, h) \<longleftrightarrow> (\<exists>x h1. m = (Inr x, h1) \<and> f x h1 = (Inr y, h))"
  by (auto simp: hook_bind_def split: prod.splits sum.splits)

lemma merge_target_return:
  assumes "merge_target str inh opts h = (Inr (cur, inh1), h')"
  obtains before after gi go where
    "(let p = inherit_settings (map_opt_or inh no_inherited) opts; q = inherit_hooks before after (snd p, fst p) in
       cur = (fst q)\<lparr>to_defaultInputHooks := gi, to_defaultOutputHooks := go\<rparr> \<and>
       inh1 = (snd q)\<lparr>ih_defaultInput := Some gi, ih_defaultOutput := Some go\<rparr>)"
proof -
  note m = assms [unfolded merge_target_def Let_def hook_bind_return]
  from m obtain din dout before after h6 where
    "(case (din, dout) of
         (Some gi, Some go) \<Rightarrow>
           (case inherit_settings (map_opt_or inh no_inherited) opts of (t1, inh1) \<Rightarrow>
            case inherit_hooks before after (inh1, t1) of (t2, inh2) \<Rightarrow>
              (Inr (t2\<lparr>to_defaultInputHooks := gi, to_defaultOutputHooks := go\<rparr>,
                    inh2\<lparr>ih_defaultInput := din, ih_defaultOutput := dout\<rparr>), h6))
       | _ \<Rightarrow> (Inl Guard_type, h6)) = (Inr (cur, inh1), h')" by blast
  then show thesis by (auto split: option.splits prod.splits intro!: that [of before after] simp: Let_def)
qed

lemma inherit_hooks_fields:
  "to_rest (fst (inherit_hooks b a p)) = to_rest (snd p)" "to_customHost (fst (inherit_hooks b a p)) = to_customHost (snd p)"
  "ih_id (snd (inherit_hooks b a p)) = ih_id (fst p)" "ih_customHost (snd (inherit_hooks b a p)) = ih_customHost (fst p)"
  by (cases p; simp add: inherit_hooks_def Let_def)+

lemma inherit_settings_fields:
  "to_rest (fst (inherit_settings i t)) = to_rest t"
  "to_customHost (fst (inherit_settings i t)) = (if own_or (ih_customHost i) t = None then to_customHost t else own_or (ih_customHost i) t)"
  "ih_id (snd (inherit_settings i t)) = (if truthy_str (ih_id i) then ih_id i else to_id t)"
  "ih_customHost (snd (inherit_settings i t)) = own_or (ih_customHost i) t"
  by (simp_all add: inherit_settings_def Let_def own_or_def)

lemma inherited_host:
  "(if truthy_str (to_customHost (fst (inherit_settings i t))) then to_customHost (fst (inherit_settings i t)) else None) =
     own_or (ih_customHost i) t"
  by (cases "to_customHost t"; cases "ih_customHost i") (auto simp: inherit_settings_fields own_or_def truthy_str_def)

lemma merge_target_fields:
  assumes "merge_target str inh opts h = (Inr (cur, inh1), h')"
  shows "to_rest cur = to_rest opts"
    "ih_id inh1 = (if truthy_str (ih_id (map_opt_or inh no_inherited)) then ih_id (map_opt_or inh no_inherited) else to_id opts)"
    "ih_customHost inh1 = own_or (ih_customHost (map_opt_or inh no_inherited)) opts"
    "(if truthy_str (to_customHost cur) then to_customHost cur else None) = own_or (ih_customHost (map_opt_or inh no_inherited)) opts"
proof -
  obtain before after gi go where e:
    "cur = (fst (inherit_hooks before after (snd (inherit_settings (map_opt_or inh no_inherited) opts),
        fst (inherit_settings (map_opt_or inh no_inherited) opts))))\<lparr>to_defaultInputHooks := gi, to_defaultOutputHooks := go\<rparr>"
    "inh1 = (snd (inherit_hooks before after (snd (inherit_settings (map_opt_or inh no_inherited) opts),
        fst (inherit_settings (map_opt_or inh no_inherited) opts))))\<lparr>ih_defaultInput := Some gi, ih_defaultOutput := Some go\<rparr>"
    by (rule merge_target_return [OF assms]) (simp add: Let_def)
  show "to_rest cur = to_rest opts" unfolding e by (simp add: inherit_hooks_fields inherit_settings_fields)
  show "ih_id inh1 = (if truthy_str (ih_id (map_opt_or inh no_inherited)) then ih_id (map_opt_or inh no_inherited) else to_id opts)"
    unfolding e by (simp add: inherit_hooks_fields inherit_settings_fields)
  show "ih_customHost inh1 = own_or (ih_customHost (map_opt_or inh no_inherited)) opts"
    unfolding e by (simp add: inherit_hooks_fields inherit_settings_fields)
  show "(if truthy_str (to_customHost cur) then to_customHost cur else None) = own_or (ih_customHost (map_opt_or inh no_inherited)) opts"
    unfolding inherited_host [symmetric] unfolding e by (simp add: inherit_hooks_fields)
qed


lemma post_target_calls:
  "post_target env cb cur path st = (r, st') \<Longrightarrow> rs_calls st' = rs_calls st @ [(path, cur)]"
  by (auto simp: post_target_def Let_def split: prod.splits sum.splits if_splits)

lemma call_ok_child:
  assumes m: "merge_target str inh opts h = (Inr (cur, inh1), h')"
    and c: "c \<in> set (indexed_targets (truthy_str (ih_id inh1)) ts)"
    and ok: "call_ok (ih_id inh1) (ih_customHost inh1) (child_path path (fst c)) (snd c) call"
  shows "call_ok (ih_id (map_opt_or inh no_inherited)) (ih_customHost (map_opt_or inh no_inherited)) path (Target opts strat (Some ts)) call"
proof -
  note f = merge_target_fields [OF m]
  note k = indexed_targets_ok [OF c]
  from ok obtain js leaf where js: "fst call = path_of (child_path path (fst c)) js" "target_at (snd c) js = Some leaf"
      "strategy_of leaf = None" "to_rest (snd call) = to_rest (options_of leaf)" "closed_path (ih_id inh1) (snd c) js"
      "(if truthy_str (to_customHost (snd call)) then to_customHost (snd call) else None) = nearest_host (ih_customHost inh1) (snd c) js"
    by (auto simp: call_ok_def)
  have "fst call = path_of path (fst c # js)" using js(1) by (simp add: path_of_def)
  moreover have "target_at (Target opts strat (Some ts)) (fst c # js) = Some leaf" using js(2) k(1,2) by simp
  moreover have "closed_path (ih_id (map_opt_or inh no_inherited)) (Target opts strat (Some ts)) (fst c # js)"
    using js(5) k f(2) by (simp add: Let_def)
  moreover have "nearest_host (ih_customHost (map_opt_or inh no_inherited)) (Target opts strat (Some ts)) (fst c # js) =
      nearest_host (ih_customHost inh1) (snd c) js"
    using k(2) f(3) by simp
  ultimately show ?thesis using js(3,4,6) unfolding call_ok_def by metis
qed

definition calls_added :: "string option \<Rightarrow> string option \<Rightarrow> string \<Rightarrow> target \<Rightarrow> 's run_state \<Rightarrow> 's run_state \<Rightarrow> bool" where
  "calls_added cb host path t st st' \<longleftrightarrow> (\<exists>new. rs_calls st' = rs_calls st @ new \<and> (\<forall>call \<in> set new. call_ok cb host path t call))"

lemma calls_added_refl: "rs_calls st' = rs_calls st \<Longrightarrow> calls_added cb host path t st st'"
  by (simp add: calls_added_def)

lemma calls_added_trans: "calls_added cb host path t s1 s2 \<Longrightarrow> calls_added cb host path t s2 s3 \<Longrightarrow> calls_added cb host path t s1 s3"
  unfolding calls_added_def by (auto 4 4)

lemma fallback_loop_calls:
  assumes "fallback_loop go codes cs r st = (r', st')"
    and "\<And>c s r1 s1. c \<in> set cs \<Longrightarrow> go c s = (r1, s1) \<Longrightarrow> calls_added cb host path t s s1"
  shows "calls_added cb host path t st st'"
  using assms
proof (induction go codes cs r st rule: fallback_loop.induct)
  case (2 go codes c cs r st)
  obtain r1 st1 where c: "go c st = (r1, st1)" by force
  from 2(3) [OF _ c] have first: "calls_added cb host path t st st1" by simp
  show ?case
  proof (cases "fallback_stops codes r1")
    case True
    with 2(2) c first show ?thesis by simp
  next
    case False
    with 2(2) c have "fallback_loop go codes cs r1 st1 = (r', st')" by simp
    from 2(1) [OF c [symmetric] False this] 2(3) have "calls_added cb host path t st1 st'" by (meson list.set_intros(2))
    with first show ?thesis by (rule calls_added_trans)
  qed
qed (simp add: calls_added_refl)

lemma resolved_in: "resolveTarget ctx (conditional_config s cs) = Inr i \<Longrightarrow> cs ! i \<in> set cs"
  using resolveTarget_in [of ctx "conditional_config s cs" i] by (simp add: conditional_config_def)

lemma pick_branch:
  assumes "try_targets env inh path (Target opts strat kids) st = (r, st')"
    and "merge_target (te_text env) inh opts (rs_hooks st) = (Inr (cur, inh1), h)"
    and "Option.bind strat (\<lambda>s. map_option (\<lambda>m. (m, s)) (st_mode s)) = Some (mode, s)" "kids = Some ts" "mode \<noteq> Fallback"
  obtains "rs_calls st' = rs_calls st"
  | c w where "c \<in> set (indexed_targets (truthy_str (ih_id inh1)) ts)"
      "try_targets env (Some inh1) (child_path path (fst c)) (snd c) (st\<lparr>rs_hooks := h, rs_world := w\<rparr>) = (r, st')"
proof -
  let ?cs = "indexed_targets (truthy_str (ih_id inh1)) ts"
  note run = assms(1) [unfolded try_targets.simps assms(2)]
  have m: "(case strat of None \<Rightarrow> None | Some s \<Rightarrow> map_option (\<lambda>m. (m, s)) (st_mode s)) = Some (mode, s)"
    using assms(3) by (cases strat) simp_all
  consider (none) "rs_calls st' = rs_calls st"
    | (one) c w where "c \<in> set ?cs" "try_targets env (Some inh1) (child_path path (fst c)) (snd c) (st\<lparr>rs_hooks := h, rs_world := w\<rparr>) = (r, st')"
  proof (cases mode)
    case Fallback
    with assms(5) show ?thesis by simp
  next
    case Loadbalance
    with run m assms(4) show ?thesis
      by (auto simp: Let_def dest!: pick_by_weight_in intro: that split: prod.splits option.splits)
  next
    case Single
    with run m assms(4) that(1) that(2) [of "hd ?cs" "rs_world st"] show ?thesis
      by (auto simp: Let_def split: list.splits)
  next
    case Conditional
    with run m assms(4) show ?thesis
      by (auto simp: Let_def dest!: resolved_in intro: that(1) that(2) [where w = "rs_world st", simplified] split: sum.splits)
  qed
  then show thesis using that by cases auto
qed

lemma try_targets_calls:
  assumes "try_targets env inh path t st = (r, st')"
  shows "calls_added (ih_id (map_opt_or inh no_inherited)) (ih_customHost (map_opt_or inh no_inherited)) path t st st'"
  using assms
proof (induction t arbitrary: inh path st r st' rule: measure_induct_rule [of size])
  case (less t)
  obtain opts strat kids where t: "t = Target opts strat kids" by (cases t)
  let ?ok = "calls_added (ih_id (map_opt_or inh no_inherited)) (ih_customHost (map_opt_or inh no_inherited)) path t"
  show ?case
  proof (cases "fst (merge_target (te_text env) inh opts (rs_hooks st))")
    case (Inl e)
    with less.prems show ?thesis by (auto simp: t intro!: calls_added_refl split: prod.splits)
  next
    case (Inr p)
    then obtain cur inh1 h where m: "merge_target (te_text env) inh opts (rs_hooks st) = (Inr (cur, inh1), h)"
      by (metis prod.collapse)
    show ?thesis
    proof (cases "Option.bind strat (\<lambda>s. map_option (\<lambda>m. (m, s)) (st_mode s))")
      case None
      with less.prems m have "post_target env (ih_id inh1) cur path (st\<lparr>rs_hooks := h\<rparr>) = (r, st')"
        by (cases strat) (simp_all add: t)
      from post_target_calls [OF this] have "rs_calls st' = rs_calls st @ [(path, cur)]" by simp
      moreover have "strategy_of t = None" using None by (cases strat) (simp_all add: t)
      with merge_target_fields [OF m] have "call_ok (ih_id (map_opt_or inh no_inherited)) (ih_customHost (map_opt_or inh no_inherited)) path t (path, cur)"
        unfolding call_ok_def t by (intro exI [of _ "[]"] exI [of _ t]) (auto simp: path_of_def t split: if_splits)
      ultimately show ?thesis by (simp add: calls_added_def)
    next
      case (Some ms)
      then obtain mode s where mode: "Option.bind strat (\<lambda>s. map_option (\<lambda>m. (m, s)) (st_mode s)) = Some (mode, s)" by (cases ms) simp
      show ?thesis
      proof (cases kids)
        case None
        with less.prems m mode show ?thesis by (cases strat) (auto simp: t Let_def intro!: calls_added_refl)
      next
        case kids: (Some ts)
        define cs where "cs = indexed_targets (truthy_str (ih_id inh1)) ts"
        have lift: "?ok s1 s2" if "c \<in> set cs" "try_targets env (Some inh1) (child_path path (fst c)) (snd c) s1 = (r1, s2)" for c s1 s2 r1
        proof -
          have "size (snd c) < size t" using child_smaller that(1) by (simp add: t kids cs_def)
          from less.IH [OF this that(2)] show ?thesis
            using that call_ok_child [OF m, where c = c and ts = ts and path = path and strat = strat] unfolding cs_def t kids calls_added_def by auto
        qed
        show ?thesis
        proof (cases "mode = Fallback")
          case True
          with less.prems m mode have "fallback_loop (\<lambda>c. try_targets env (Some inh1) (child_path path (fst c)) (snd c))
              (st_onStatusCodes s) cs No_answer (st\<lparr>rs_hooks := h\<rparr>) = (r, st')"
            by (cases strat) (auto simp: t kids Let_def cs_def)
          from fallback_loop_calls [OF this] lift have "?ok (st\<lparr>rs_hooks := h\<rparr>) st'" by blast
          then show ?thesis by (simp add: calls_added_def)
        next
          case False
          show ?thesis
          proof (rule pick_branch [OF less.prems [unfolded t] m mode kids False])
            assume "rs_calls st' = rs_calls st"
            then show ?thesis by (rule calls_added_refl)
          next
            fix c w assume "c \<in> set (indexed_targets (truthy_str (ih_id inh1)) ts)"
              "try_targets env (Some inh1) (child_path path (fst c)) (snd c) (st\<lparr>rs_hooks := h, rs_world := w\<rparr>) = (r, st')"
            from lift [OF this [folded cs_def]] show ?thesis by (simp add: calls_added_def)
          qed
        qed
      qed
    qed
  qed
qed

text \<open>C27. Every call a walk makes is of a leaf of the configuration, named by its place there, with that leaf's own settings and the
  custom host nearest to it; below a node with an id no target whose circuit is open is entered while a sibling's is closed.\<close>

theorem posted_targets_permitted:
  assumes "try_targets env None path t st = (r, st')" "call \<in> set (drop (length (rs_calls st)) (rs_calls st'))"
  shows "\<exists>is leaf. fst call = path_of path is \<and> target_at t is = Some leaf \<and> strategy_of leaf = None \<and>
     to_rest (snd call) = to_rest (options_of leaf) \<and> closed_path None t is \<and>
     (if truthy_str (to_customHost (snd call)) then to_customHost (snd call) else None) = nearest_host None t is"
proof -
  from try_targets_calls [OF assms(1)] assms(2) have "call_ok None None path t call"
    by (auto simp: calls_added_def no_inherited_def)
  then show ?thesis unfolding call_ok_def .
qed

subsection \<open>Strategies\<close>

text \<open>The children run one after another, each in the state the one before left.\<close>

fun child_runs :: "('c \<Rightarrow> 'st \<Rightarrow> 'r \<times> 'st) \<Rightarrow> 'st \<Rightarrow> 'c list \<Rightarrow> ('r \<times> 'st) list" where
  "child_runs go st [] = []"
| "child_runs go st (c # cs) = go c st # child_runs go (snd (go c st)) cs"

lemma fallback_loop_runs:
  "fallback_loop go codes cs r st =
    (case List.find (\<lambda>x. fallback_stops codes (fst x)) (child_runs go st cs) of
       Some x \<Rightarrow> x | None \<Rightarrow> last ((r, st) # child_runs go st cs))"
  by (induction go codes cs r st rule: fallback_loop.induct) (auto split: prod.splits option.splits)

lemma find_not_dropWhile:
  "(case List.find (\<lambda>x. \<not> P x) xs of Some x \<Rightarrow> f x | None \<Rightarrow> d) = (case dropWhile P xs of x # _ \<Rightarrow> f x | [] \<Rightarrow> d)"
  by (induction xs) auto

text \<open>C28. A fallback answers with the first of its children's results that ends it: any result but, without status codes,
  one that is not ok or, with them, one whose status is listed, where an exception of the gateway always ends it; none after it
  runs, and when none ends it the last one counts.\<close>

theorem fallback_first_stopping:
  assumes "merge_target (te_text env) inh opts (rs_hooks st) = (Inr (cur, inh1), h)" "st_mode s = Some Fallback"
  shows "try_targets env inh path (Target opts (Some s) (Some ts)) st =
    (let runs = child_runs (\<lambda>c. try_targets env (Some inh1) (child_path path (fst c)) (snd c)) (st\<lparr>rs_hooks := h\<rparr>)
                  (indexed_targets (truthy_str (ih_id inh1)) ts);
         goes_on = (\<lambda>x. case fst x of
            Answered a \<Rightarrow> \<not> an_exception a \<and> (case st_onStatusCodes s of
               None \<Rightarrow> an_status a < 200 \<or> 300 \<le> an_status a | Some codes \<Rightarrow> an_status a \<in> set codes)
          | No_answer \<Rightarrow> st_onStatusCodes s = None
          | Raised e \<Rightarrow> False)
     in case dropWhile goes_on runs of x # _ \<Rightarrow> x | [] \<Rightarrow> last ((No_answer, st\<lparr>rs_hooks := h\<rparr>) # runs))"
proof -
  define go where "go = (\<lambda>c. try_targets env (Some inh1) (child_path path (fst c)) (snd c))"
  define cs where "cs = indexed_targets (truthy_str (ih_id inh1)) ts"
  have stop: "fallback_stops (st_onStatusCodes s) = (\<lambda>r. \<not> (case r of
            Answered a \<Rightarrow> \<not> an_exception a \<and> (case st_onStatusCodes s of
               None \<Rightarrow> an_status a < 200 \<or> 300 \<le> an_status a | Some codes \<Rightarrow> an_status a \<in> set codes)
          | No_answer \<Rightarrow> st_onStatusCodes s = None
          | Raised e \<Rightarrow> False))"
    by (auto simp: fallback_stops_def answer_ok_def fun_eq_iff split: run_result.splits option.splits)
  have "try_targets env inh path (Target opts (Some s) (Some ts)) st = fallback_loop go (st_onStatusCodes s) cs No_answer (st\<lparr>rs_hooks := h\<rparr>)"
    using assms by (simp add: Let_def go_def cs_def)
  then show ?thesis
    unfolding fallback_loop_runs stop find_not_dropWhile Let_def go_def cs_def by simp
qed

lemma pick_by_weight_interval:
  assumes "\<And>c. c \<in> set cs \<Longrightarrow> 0 \<le> weight_of (snd c)" "0 \<le> r" "r < total_weight cs"
  shows "\<exists>k < length cs. pick_by_weight r cs = Some (cs ! k) \<and> total_weight (take k cs) \<le> r \<and> r < total_weight (take (Suc k) cs)"
  using assms
proof (induction cs arbitrary: r)
  case (Cons c cs)
  show ?case
  proof (cases "r < weight_of (snd c)")
    case True
    with Cons.prems show ?thesis by (intro exI [of _ 0]) (simp add: total_weight_def)
  next
    case False
    with Cons.prems have "\<exists>k < length cs. pick_by_weight (r - weight_of (snd c)) cs = Some (cs ! k) \<and>
        total_weight (take k cs) \<le> r - weight_of (snd c) \<and> r - weight_of (snd c) < total_weight (take (Suc k) cs)"
      by (intro Cons.IH) (auto simp: total_weight_def)
    then obtain k where "k < length cs" "pick_by_weight (r - weight_of (snd c)) cs = Some (cs ! k)"
        "total_weight (take k cs) \<le> r - weight_of (snd c)" "r - weight_of (snd c) < total_weight (take (Suc k) cs)" by blast
    with False show ?thesis by (intro exI [of _ "Suc k"]) (auto simp: total_weight_def)
  qed
qed (simp add: total_weight_def)

text \<open>A load balancer whose weights are not negative and not all zero always takes a child, and each child for
  exactly its share of the random numbers: the ones between the sum of the weights before it and that sum with its own.\<close>

lemma loadbalance_by_weight:
  assumes "\<And>c. c \<in> set cs \<Longrightarrow> 0 \<le> weight_of (snd c)" "0 < total_weight cs" "0 \<le> u" "u < 1"
  shows "\<exists>k < length cs. pick_by_weight (u * total_weight cs) cs = Some (cs ! k) \<and> 0 < weight_of (snd (cs ! k)) \<and>
    total_weight (take k cs) \<le> u * total_weight cs \<and> u * total_weight cs < total_weight (take k cs) + weight_of (snd (cs ! k))"
proof -
  have "0 \<le> u * total_weight cs" "u * total_weight cs < total_weight cs" using assms(2-4) by simp_all
  from pick_by_weight_interval [OF assms(1) this] obtain k where k: "k < length cs"
      "pick_by_weight (u * total_weight cs) cs = Some (cs ! k)" "total_weight (take k cs) \<le> u * total_weight cs"
      "u * total_weight cs < total_weight (take (Suc k) cs)" by blast
  moreover from k(1) have "total_weight (take (Suc k) cs) = total_weight (take k cs) + weight_of (snd (cs ! k))"
    by (simp add: total_weight_def take_Suc_conv_app_nth)
  ultimately show ?thesis by (intro exI [of _ k]) linarith
qed

text \<open>Weights that are all zero pick nobody: the walk answers \<open>undefined\<close>.\<close>

lemma zero_weights_no_answer:
  "(\<And>c. c \<in> set cs \<Longrightarrow> weight_of (snd c) = 0) \<Longrightarrow> pick_by_weight 0 cs = None"
  by (induction cs) auto

text \<open>A target does not get the \<open>strictOpenAiCompliance\<close> its parents set.\<close>

lemma strict_compliance_not_inherited:
  "to_strictOpenAiCompliance (fst (inherit_settings inh t)) = to_strictOpenAiCompliance t"
  "to_strictOpenAiCompliance t = None \<Longrightarrow>
    ih_strictOpenAiCompliance (snd (inherit_settings inh t)) = ih_strictOpenAiCompliance inh"
  by (simp_all add: inherit_settings_def Let_def)

text \<open>The second conversion of the same hooks, as the routed failover makes for its second candidate, finds none of their
  settings: the checks are the same, but a guardrail that denied no longer does.\<close>

fun without_settings :: "hook_entry \<Rightarrow> hook_entry" where
  "without_settings (Converted g) = Converted (g\<lparr>gh_settings := []\<rparr>)"
| "without_settings (Given j) = Given j"

lemma gateway_hook_of_stripped:
  assumes "gateway_hook_of str ht (JObj es) = Inr g"
  shows "gateway_hook_of str ht (stripped (JObj es)) = Inr (g\<lparr>gh_settings := []\<rparr>)"
    "stripped (stripped (JObj es)) = stripped (JObj es)"
proof -
  have n: "''hasOwnProperty'' \<notin> fst ` set es" using assms by (auto simp: gateway_hook_of_def split: if_splits)
  then have "''hasOwnProperty'' \<notin> fst ` set (filter (\<lambda>e. fst e \<notin> set SHORTHAND_KEYS) es)" by auto
  with n assms show "gateway_hook_of str ht (stripped (JObj es)) = Inr (g\<lparr>gh_settings := []\<rparr>)"
    "stripped (stripped (JObj es)) = stripped (JObj es)"
    by (auto simp: gateway_hook_of_def return_iff filter_empty_conv)
qed

lemma settings_lost_on_second_conversion:
  assumes "convertHooksShorthand str ht ref heap = (Inr gs, heap1)" "\<And>h. h \<in> set (heap ref) \<Longrightarrow> \<exists>es. h = JObj es"
  shows "convertHooksShorthand str ht ref heap1 = (Inr (map without_settings gs), heap1)"
proof -
  have "convert_loop str ht hs1 = (Inr (map without_settings gs), hs1)"
    if "convert_loop str ht hs = (Inr gs, hs1)" "\<And>h. h \<in> set hs \<Longrightarrow> \<exists>es. h = JObj es" for hs hs1 gs
    using that
  proof (induction hs arbitrary: hs1 gs)
    case (Cons h hs)
    obtain es where h: "h = JObj es" using Cons.prems(2) by (meson list.set_intros(1))
    obtain r' hs' where c: "convert_loop str ht hs = (r', hs')" by force
    from Cons.prems(1) c obtain g gs' where g: "gateway_hook_of str ht h = Inr g" "convert_loop str ht hs = (Inr gs', hs')"
        "gs = Converted g # gs'" "hs1 = stripped h # hs'"
      by - (cases "gateway_hook_of str ht h"; cases r'; auto)
    from Cons.IH [OF g(2)] Cons.prems(2) have "convert_loop str ht hs' = (Inr (map without_settings gs'), hs')" by simp
    with g gateway_hook_of_stripped [of str ht es g] show ?case unfolding h by (simp del: stripped.simps)
  qed simp
  with assms show ?thesis by (auto simp: convertHooksShorthand_def split: prod.splits)
qed

subsection \<open>A sample configuration\<close>

definition plain_options :: target_options where
  "plain_options = \<lparr>to_id = None, to_name = None, to_weight = None, to_isOpen = False, to_overrideParams = None, to_retry = None,
     to_cache = None, to_requestTimeout = None, to_strictOpenAiCompliance = None, to_messagesViaResponses = None,
     to_forwardHeaders = None, to_customHost = None, to_defaultInputGuardrails = Some 0, to_defaultOutputGuardrails = Some 1,
     to_inputGuardrails = None, to_outputGuardrails = None, to_inputMutators = None, to_outputMutators = None,
     to_beforeRequestHooks = None, to_afterRequestHooks = None, to_defaultInputHooks = [], to_defaultOutputHooks = [], to_rest = JNull\<rparr>"

definition plain_strategy :: "strategy_mode \<Rightarrow> target_strategy" where
  "plain_strategy m = \<lparr>st_mode = Some m, st_onStatusCodes = None, st_conditions = None, st_default = None\<rparr>"

definition leaf_target :: "string \<Rightarrow> bool \<Rightarrow> target" where
  "leaf_target n opened = Target (plain_options\<lparr>to_name := Some n, to_isOpen := opened, to_rest := JStr n\<rparr>) None None"

definition sample_tree :: "target_strategy \<Rightarrow> target" where
  "sample_tree s = Target (plain_options\<lparr>to_id := Some ''cfg''\<rparr>) (Some s) (Some [leaf_target ''a'' True, leaf_target ''b'' False, leaf_target ''c'' False])"

text \<open>A provider that answers 500 at its first call and 200 from then on.\<close>

definition sample_env :: "nat target_env" where
  "sample_env = \<lparr>te_tryPost = (\<lambda>n t p. (Inr \<lparr>an_status = (if n = 0 then 500 else 200), an_exception = False\<rparr>, Suc n)),
     te_breaker = (\<lambda>n a i t p. (None, n)), te_random = (\<lambda>n. (1 / 2, n)), te_text = (\<lambda>_. []), te_parse = (\<lambda>_. None),
     te_metadata = None, te_params = JObj [], te_pathname = ''/v1/chat/completions'', te_regex = (\<lambda>_ _. None)\<rparr>"

definition sample_state :: "nat run_state" where
  "sample_state = \<lparr>rs_hooks = (\<lambda>_. []), rs_world = 0, rs_calls = []\<rparr>"

lemma sample_fallback:
  "fst (try_targets sample_env None ''config'' (sample_tree (plain_strategy Fallback)) sample_state) = Answered \<lparr>an_status = 200, an_exception = False\<rparr>"
  "map fst (rs_calls (snd (try_targets sample_env None ''config'' (sample_tree (plain_strategy Fallback)) sample_state))) =
    [''config.targets[1]'', ''config.targets[2]'']"
  by code_simp+

text \<open>A condition that names a target whose circuit is open fails the request, even with a closed default: the target is
  no longer among the names.\<close>

lemma sample_conditional:
  "fst (try_targets sample_env None ''config'' (sample_tree \<lparr>st_mode = Some Conditional, st_onStatusCodes = None,
      st_conditions = Some [(JObj [], ''a'')], st_default = Some ''b''\<rparr>) sample_state) = Raised (Router_failure (Invalid_target ''a''))"
  by code_simp
theorem posted_targets_permitted_witness:
  "\<exists>is leaf. path_of ''config'' is = ''config.targets[2]'' \<and> target_at (sample_tree (plain_strategy Fallback)) is = Some leaf \<and>
     strategy_of leaf = None \<and> closed_path None (sample_tree (plain_strategy Fallback)) is"
proof -
  obtain r st' where run: "try_targets sample_env None ''config'' (sample_tree (plain_strategy Fallback)) sample_state = (r, st')" by force
  have "map fst (rs_calls st') = [''config.targets[1]'', ''config.targets[2]'']" using sample_fallback(2) run by simp
  then obtain call where "call \<in> set (rs_calls st')" "fst call = ''config.targets[2]''" by auto
  then show ?thesis using posted_targets_permitted [OF run, of call] by (auto simp: sample_state_def)
qed

theorem fallback_first_stopping_witness:
  "\<exists>cur inh1 h. merge_target (te_text sample_env) None (plain_options\<lparr>to_id := Some ''cfg''\<rparr>) (rs_hooks sample_state) = (Inr (cur, inh1), h) \<and>
     try_targets sample_env None ''config'' (sample_tree (plain_strategy Fallback)) sample_state =
    (let runs = child_runs (\<lambda>c. try_targets sample_env (Some inh1) (child_path ''config'' (fst c)) (snd c)) (sample_state\<lparr>rs_hooks := h\<rparr>)
                  (indexed_targets (truthy_str (ih_id inh1)) [leaf_target ''a'' True, leaf_target ''b'' False, leaf_target ''c'' False]);
         goes_on = (\<lambda>x. case fst x of
            Answered a \<Rightarrow> \<not> an_exception a \<and> (an_status a < 200 \<or> 300 \<le> an_status a) | No_answer \<Rightarrow> True | Raised e \<Rightarrow> False)
     in case dropWhile goes_on runs of x # _ \<Rightarrow> x | [] \<Rightarrow> last ((No_answer, sample_state\<lparr>rs_hooks := h\<rparr>) # runs))"
proof -
  have "isl (fst (merge_target (te_text sample_env) None (plain_options\<lparr>to_id := Some ''cfg''\<rparr>) (rs_hooks sample_state))) = False"
    by code_simp
  then obtain cur inh1 h where
    m: "merge_target (te_text sample_env) None (plain_options\<lparr>to_id := Some ''cfg''\<rparr>) (rs_hooks sample_state) = (Inr (cur, inh1), h)"
    by (metis isl_def prod.collapse sum.exhaust_sel)
  have st: "st_mode (plain_strategy Fallback) = Some Fallback" "st_onStatusCodes (plain_strategy Fallback) = None"
    by (simp_all add: plain_strategy_def)
  note f = fallback_first_stopping [OF m st(1), of "''config''" "[leaf_target ''a'' True, leaf_target ''b'' False, leaf_target ''c'' False]",
      folded sample_tree_def, unfolded st(2) option.case simp_thms]
  show ?thesis by (intro exI conjI, rule m, rule f)
qed

end
