(* ===== verification/Cache_Store.thy ===== *)
theory Cache_Store
  imports Prelude
begin

text \<open>
  The store of the response cache (\<open>src/middlewares/cache/store.ts\<close>): the interface \<open>CacheStore\<close> as a locale with
  what its client relies on, and \<open>InMemoryLruStore\<close>, a map in insertion order where a used key moves to the end.
\<close>

subsection \<open>The interface\<close>

datatype 'e store_event = Read_key string rat | Write_key string 'e | Delete_key string | Clear_all

locale response_store =
  fixes empty :: 's
    and get :: "string \<Rightarrow> rat \<Rightarrow> 's \<Rightarrow> 'e option \<times> 's"
    and put :: "string \<Rightarrow> 'e \<Rightarrow> 's \<Rightarrow> 's"
    and del :: "string \<Rightarrow> 's \<Rightarrow> 's"
    and clear :: "'s \<Rightarrow> 's"
    and holds :: "'s \<Rightarrow> string \<Rightarrow> 'e \<Rightarrow> bool"
    and fresh :: "'e \<Rightarrow> rat \<Rightarrow> bool"
  assumes empty_holds: "\<not> holds empty k e"
    and get_holds: "get k now s = (Some e, s') \<Longrightarrow> holds s k e \<and> fresh e now"
    and get_keeps: "get k now s = (r, s') \<Longrightarrow> holds s' k' e \<Longrightarrow> holds s k' e"
    and put_holds: "holds (put k v s) k' e \<Longrightarrow> (if k' = k then e = v else holds s k' e)"
    and del_holds: "holds (del k s) k' e \<Longrightarrow> k' \<noteq> k \<and> holds s k' e"
    and clear_holds: "\<not> holds (clear s) k e"
begin

fun step :: "'e store_event \<Rightarrow> 's \<Rightarrow> 's" where
  "step (Read_key k now) s = snd (get k now s)"
| "step (Write_key k v) s = put k v s"
| "step (Delete_key k) s = del k s"
| "step Clear_all s = clear s"

text \<open>What was written last under a key and not taken away since.\<close>

fun written :: "'e store_event \<Rightarrow> (string \<Rightarrow> 'e option) \<Rightarrow> string \<Rightarrow> 'e option" where
  "written (Read_key k now) m = m"
| "written (Write_key k v) m = m(k \<mapsto> v)"
| "written (Delete_key k) m = m(k := None)"
| "written Clear_all m = (\<lambda>_. None)"

lemma step_written:
  assumes "\<And>k e. holds s k e \<Longrightarrow> m k = Some e" "holds (step ev s) k e"
  shows "written ev m k = Some e"
  using assms(2)
proof (cases ev)
  case (Read_key k' now)
  with assms get_keeps [of k' now s _ "snd (get k' now s)" k e] show ?thesis by (metis prod.collapse step.simps(1) written.simps(1))
next
  case (Write_key k' v)
  with assms put_holds [of k' v s k e] show ?thesis by (auto split: if_splits)
next
  case (Delete_key k')
  with assms del_holds [of k' s k e] show ?thesis by auto
next
  case Clear_all
  with assms clear_holds show ?thesis by auto
qed

lemma run_written: "holds (fold step evs empty) k e \<Longrightarrow> fold written evs (\<lambda>_. None) k = Some e"
proof -
  have "holds (fold step evs s) k e \<Longrightarrow> fold written evs m k = Some e" if "\<And>k e. holds s k e \<Longrightarrow> m k = Some e" for s m
    using that
  proof (induction evs arbitrary: s m)
    case (Cons ev evs)
    from Cons.IH [of "step ev s" "written ev m"] Cons.prems step_written [of s m ev] show ?case by simp
  qed simp
  then show "holds (fold step evs empty) k e \<Longrightarrow> ?thesis" using empty_holds by blast
qed

lemma served_written:
  "get k now (fold step evs empty) = (Some e, s') \<Longrightarrow> fold written evs (\<lambda>_. None) k = Some e \<and> fresh e now"
  using get_holds run_written by blast

end

subsection \<open>The LRU store\<close>

record cache_entry =
  ce_responseBody :: string
  ce_maxAge :: "rat option"

record lru_store =
  ls_map :: "(string, cache_entry) jmap"
  ls_maxEntries :: jsnum

text \<open>\<open>Math.max(1, n)\<close>: a number that is not one makes the bound not a number.\<close>

definition new_InMemoryLruStore :: "jsnum \<Rightarrow> lru_store" where
  "new_InMemoryLruStore n = \<lparr>ls_map = [], ls_maxEntries = (if n = NaN then NaN else if js_lt n (Fin 1) then Fin 1 else n)\<rparr>"

definition expired :: "cache_entry \<Rightarrow> rat \<Rightarrow> bool" where
  "expired e now \<longleftrightarrow> (case ce_maxAge e of None \<Rightarrow> False | Some t \<Rightarrow> t \<noteq> 0 \<and> t < now)"

definition ls_get :: "string \<Rightarrow> rat \<Rightarrow> lru_store \<Rightarrow> cache_entry option \<times> lru_store" where
  "ls_get key now s =
    (case jm_get (ls_map s) key of
       None \<Rightarrow> (None, s)
     | Some e \<Rightarrow>
         if expired e now then (None, s\<lparr>ls_map := jm_del key (ls_map s)\<rparr>)
         else (Some e, s\<lparr>ls_map := jm_set key e (jm_del key (ls_map s))\<rparr>))"

text \<open>\<open>while (this.map.size > this.maxEntries)\<close> the first key goes.\<close>

fun ls_evict :: "jsnum \<Rightarrow> (string, cache_entry) jmap \<Rightarrow> (string, cache_entry) jmap" where
  "ls_evict mx [] = []"
| "ls_evict mx (x # xs) = (if js_gt (Fin (of_nat (length (x # xs)))) mx then ls_evict mx xs else x # xs)"

definition ls_set :: "string \<Rightarrow> cache_entry \<Rightarrow> lru_store \<Rightarrow> lru_store" where
  "ls_set key e s = s\<lparr>ls_map := ls_evict (ls_maxEntries s) (jm_set key e (jm_del key (ls_map s)))\<rparr>"

definition ls_delete :: "string \<Rightarrow> lru_store \<Rightarrow> lru_store" where
  "ls_delete key s = s\<lparr>ls_map := jm_del key (ls_map s)\<rparr>"

definition ls_clear :: "lru_store \<Rightarrow> lru_store" where
  "ls_clear s = s\<lparr>ls_map := []\<rparr>"

definition ls_holds :: "lru_store \<Rightarrow> string \<Rightarrow> cache_entry \<Rightarrow> bool" where
  "ls_holds s k e \<longleftrightarrow> (k, e) \<in> set (ls_map s)"

lemma ls_evict_suffix: "\<exists>n. ls_evict mx m = drop n m"
proof (induction m)
  case (Cons x m)
  then obtain n where "ls_evict mx m = drop n m" by blast
  then have "ls_evict mx m = drop (Suc n) (x # m)" by simp
  moreover have "x # m = drop 0 (x # m)" by simp
  ultimately show ?case unfolding ls_evict.simps by (metis (full_types))
qed simp

lemma set_ls_evict: "set (ls_evict mx m) \<subseteq> set m"
  using ls_evict_suffix [of mx m] set_drop_subset by metis

lemma set_jm_move: "set (jm_set k v (jm_del k m)) = insert (k, v) {x \<in> set m. fst x \<noteq> k}"
  unfolding jm_set_after_del by (auto simp: jm_del_def)

interpretation lru: response_store "new_InMemoryLruStore n" ls_get ls_set ls_delete ls_clear ls_holds "\<lambda>e now. \<not> expired e now" for n
proof unfold_locales
  fix k e show "\<not> ls_holds (new_InMemoryLruStore n) k e" by (simp add: ls_holds_def new_InMemoryLruStore_def)
next
  fix k now s e s' assume "ls_get k now s = (Some e, s')"
  then show "ls_holds s k e \<and> \<not> expired e now"
    by (auto simp: ls_get_def ls_holds_def dest: jm_get_Some_in split: option.splits if_splits)
next
  fix k now s r s' k' e assume g: "ls_get k now s = (r, s')" "ls_holds s' k' e"
  show "ls_holds s k' e"
  proof (cases "jm_get (ls_map s) k")
    case None
    with g show ?thesis by (simp add: ls_get_def)
  next
    case (Some v)
    with g jm_get_Some_in [OF Some] show ?thesis
      by (auto simp: ls_get_def ls_holds_def set_jm_move split: if_splits) (simp_all add: jm_del_def)
  qed
next
  fix k v s k' e assume "ls_holds (ls_set k v s) k' e"
  then have "(k', e) \<in> set (jm_set k v (jm_del k (ls_map s)))"
    using set_ls_evict by (fastforce simp: ls_holds_def ls_set_def)
  then show "if k' = k then e = v else ls_holds s k' e" by (auto simp: ls_holds_def set_jm_move)
qed (auto simp: ls_holds_def ls_delete_def ls_clear_def jm_del_def)

subsection \<open>Bounds and recency\<close>

definition lru_bound :: "lru_store \<Rightarrow> nat option" where
  "lru_bound s = (case ls_maxEntries s of Fin q \<Rightarrow> Some (nat \<lfloor>q\<rfloor>) | _ \<Rightarrow> None)"

lemma ls_evict_Fin:
  assumes "1 \<le> q"
  shows "ls_evict (Fin q) m = drop (length m - nat \<lfloor>q\<rfloor>) m"
proof (induction m)
  case (Cons x m)
  have "js_gt (Fin (of_nat (length (x # m)))) (Fin q) \<longleftrightarrow> nat \<lfloor>q\<rfloor> < length (x # m)"
    using assms by simp linarith
  with Cons show ?case by (auto simp: Suc_diff_le not_less)
qed simp

fun lru_step :: "cache_entry store_event \<Rightarrow> lru_store \<Rightarrow> lru_store" where
  "lru_step (Read_key k now) s = snd (ls_get k now s)"
| "lru_step (Write_key k v) s = ls_set k v s"
| "lru_step (Delete_key k) s = ls_delete k s"
| "lru_step Clear_all s = ls_clear s"

fun last_written :: "cache_entry store_event \<Rightarrow> (string \<Rightarrow> cache_entry option) \<Rightarrow> string \<Rightarrow> cache_entry option" where
  "last_written (Read_key k now) m = m"
| "last_written (Write_key k v) m = m(k \<mapsto> v)"
| "last_written (Delete_key k) m = m(k := None)"
| "last_written Clear_all m = (\<lambda>_. None)"

lemma lru_step_eq: "lru_step = lru.step"
proof (intro ext)
  fix ev s show "lru_step ev s = lru.step ev s" by (cases ev) (simp_all add: lru.step.simps)
qed

lemma last_written_eq: "last_written = lru.written"
proof (intro ext)
  fix ev m k show "last_written ev m k = lru.written ev m k" by (cases ev) (simp_all add: lru.written.simps)
qed

text \<open>Whatever was read, written, deleted and cleared before, a hit of the store is the value written last under its key,
  not deleted since and not expired.\<close>

lemma lru_serves_last_write:
  assumes "fst (ls_get k now (fold lru_step evs (new_InMemoryLruStore n))) = Some e"
  shows "fold last_written evs (\<lambda>_. None) k = Some e \<and> \<not> expired e now"
proof -
  obtain s' where "ls_get k now (fold lru_step evs (new_InMemoryLruStore n)) = (Some e, s')" using assms by (metis prod.collapse)
  from lru.served_written [OF this [unfolded lru_step_eq]] show ?thesis unfolding last_written_eq .
qed

definition lru_ok :: "nat \<Rightarrow> lru_store \<Rightarrow> bool" where
  "lru_ok b s \<longleftrightarrow> jm_wf (ls_map s) \<and> length (ls_map s) \<le> b \<and> 1 \<le> b \<and> (\<exists>q \<ge> 1. ls_maxEntries s = Fin q \<and> nat \<lfloor>q\<rfloor> = b)"

lemma lru_ok_evict: "1 \<le> q \<Longrightarrow> nat \<lfloor>q\<rfloor> = b \<Longrightarrow> length (ls_evict (Fin q) m) \<le> b \<and> (jm_wf m \<longrightarrow> jm_wf (ls_evict (Fin q) m))"
  by (auto simp: ls_evict_Fin intro: jm_wf_drop)

lemma lru_ok_step [inv_intros]:
  assumes "lru_ok b s"
  shows "lru_ok b (lru_step ev s)"
proof (cases ev)
  case (Read_key k now)
  show ?thesis
  proof (cases "jm_get (ls_map s) k")
    case None
    with assms Read_key show ?thesis by (simp add: ls_get_def)
  next
    case (Some e)
    then have "k \<in> fst ` set (ls_map s)" using jm_get_dom by fastforce
    with assms have "length (jm_set k e (jm_del k (ls_map s))) = length (ls_map s)"
      using length_jm_del_present [of "ls_map s" k] by (simp add: lru_ok_def jm_set_after_del)
    with assms Some Read_key show ?thesis
      using length_jm_del_le [of k "ls_map s"] by (auto simp: ls_get_def lru_ok_def intro: jm_wf_set jm_wf_del)
  qed
next
  case (Write_key k e)
  with assms lru_ok_evict [of _ b "jm_set k e (jm_del k (ls_map s))"] show ?thesis
    by (auto simp: ls_set_def lru_ok_def jm_wf_set jm_wf_del)
next
  case (Delete_key k)
  with assms length_jm_del_le [of k "ls_map s"] show ?thesis by (auto simp: ls_delete_def lru_ok_def jm_wf_del)
next
  case Clear_all
  with assms show ?thesis by (simp add: ls_clear_def lru_ok_def)
qed

fun key_used :: "cache_entry store_event \<Rightarrow> string set" where
  "key_used (Read_key k now) = {k}"
| "key_used (Write_key k v) = {k}"
| "key_used _ = {}"

text \<open>Events that leave the entry of a key as it is: no write under it, no deletion, no read after it expired.\<close>

fun leaves_alone :: "string \<Rightarrow> cache_entry \<Rightarrow> cache_entry store_event \<Rightarrow> bool" where
  "leaves_alone k e (Read_key k' now) = (k' = k \<longrightarrow> \<not> expired e now)"
| "leaves_alone k e (Write_key k' v) = (k' \<noteq> k)"
| "leaves_alone k e (Delete_key k') = (k' \<noteq> k)"
| "leaves_alone k e Clear_all = False"

text \<open>The entry of a key is followed only by entries of the keys used since.\<close>

definition recent :: "string \<Rightarrow> cache_entry \<Rightarrow> string set \<Rightarrow> lru_store \<Rightarrow> bool" where
  "recent k e used s \<longleftrightarrow> (\<exists>xs ys. ls_map s = xs @ (k, e) # ys \<and> fst ` set ys \<subseteq> used)"

lemma jm_del_append: "jm_del k (xs @ ys) = jm_del k xs @ jm_del k ys"
  by (simp add: jm_del_def)

lemma recent_del: "recent k e used s \<Longrightarrow> k' \<noteq> k \<Longrightarrow> used \<subseteq> used' \<Longrightarrow> recent k e used' (s\<lparr>ls_map := jm_del k' (ls_map s)\<rparr>)"
  unfolding recent_def by (fastforce simp: jm_del_def)

lemma recent_move:
  assumes "recent k e used s" "k' \<noteq> k" "used \<subseteq> used'" "k' \<in> used'"
  shows "\<exists>xs ys. jm_set k' v (jm_del k' (ls_map s)) = xs @ (k, e) # ys \<and> fst ` set ys \<subseteq> used'"
proof -
  from assms(1) obtain xs ys where "ls_map s = xs @ (k, e) # ys" "fst ` set ys \<subseteq> used" by (auto simp: recent_def)
  then have "jm_set k' v (jm_del k' (ls_map s)) = jm_del k' xs @ (k, e) # (jm_del k' ys @ [(k', v)])"
    using assms(2) unfolding jm_set_after_del by (simp add: jm_del_def)
  moreover have "fst ` set (jm_del k' ys @ [(k', v)]) \<subseteq> used'"
    using \<open>fst ` set ys \<subseteq> used\<close> assms(3,4) by (auto simp: jm_del_def)
  ultimately show ?thesis by blast
qed

lemma recent_evict:
  assumes "jm_wf (xs @ (k, e) # ys)" "fst ` set ys \<subseteq> used" "finite used" "card used < b" "1 \<le> q" "nat \<lfloor>q\<rfloor> = b"
  shows "\<exists>xs'. ls_evict (Fin q) (xs @ (k, e) # ys) = xs' @ (k, e) # ys"
proof -
  have "distinct (map fst ys)" using assms(1) by (simp add: jm_wf_def)
  then have "length ys = card (fst ` set ys)" by (metis distinct_card length_map list.set_map)
  also have "\<dots> \<le> card used" using assms(2,3) by (rule card_mono [rotated])
  finally have "length ys < b" using assms(4) by simp
  then show ?thesis using assms(5,6) by (auto simp: ls_evict_Fin)
qed

lemma recent_get:
  assumes "jm_wf (ls_map s)" "recent k e used s"
  shows "jm_get (ls_map s) k = Some e"
  using assms by (auto simp: recent_def jm_wf_def map_add_def split: option.splits dest: jm_get_Some_in)

lemma recent_step:
  assumes ok: "lru_ok b s" and r: "recent k e used s" and alone: "leaves_alone k e ev"
    and used: "used \<subseteq> used'" "key_used ev - {k} \<subseteq> used'" "finite used'" "card used' < b"
  shows "recent k e used' (lru_step ev s)"
proof (cases ev)
  case (Read_key k' now)
  show ?thesis
  proof (cases "k' = k")
    case True
    have "jm_get (ls_map s) k = Some e" using recent_get [OF _ r] ok by (simp add: lru_ok_def)
    with Read_key alone True have "ls_map (lru_step ev s) = jm_del k (ls_map s) @ (k, e) # []"
      by (simp add: ls_get_def jm_set_after_del)
    then show ?thesis unfolding recent_def by (metis empty_set image_empty empty_subsetI)
  next
    case False
    have same: "recent k e used' s" using r used(1) unfolding recent_def by blast
    have "k' \<in> used'" using Read_key False used(2) by simp
    from recent_move [OF r False used(1) this] have "recent k e used' (s\<lparr>ls_map := jm_set k' v (jm_del k' (ls_map s))\<rparr>)" for v
      by (simp add: recent_def)
    with same recent_del [OF r False used(1)] Read_key show ?thesis
      by (auto simp: ls_get_def split: option.splits)
  qed
next
  case (Write_key k' v)
  with alone have "k' \<noteq> k" by simp
  with Write_key used recent_move [OF r this used(1), of v] obtain xs ys where
    m: "jm_set k' v (jm_del k' (ls_map s)) = xs @ (k, e) # ys" "fst ` set ys \<subseteq> used'" by auto
  have wf: "jm_wf (xs @ (k, e) # ys)" using ok unfolding m(1) [symmetric] by (simp add: lru_ok_def jm_wf_set jm_wf_del)
  obtain q where q: "1 \<le> q" "nat \<lfloor>q\<rfloor> = b" "ls_maxEntries s = Fin q" using ok by (auto simp: lru_ok_def)
  obtain xs' where "ls_evict (Fin q) (xs @ (k, e) # ys) = xs' @ (k, e) # ys"
    using recent_evict [OF wf m(2) used(3,4) q(1,2)] by blast
  then have "ls_map (lru_step ev s) = xs' @ (k, e) # ys" using Write_key m(1) q(3) by (simp add: ls_set_def)
  with m(2) show ?thesis unfolding recent_def by blast
next
  case (Delete_key k')
  with alone recent_del [OF r _ used(1)] show ?thesis by (simp add: ls_delete_def)
next
  case Clear_all
  with alone show ?thesis by simp
qed

lemma recent_run:
  assumes "lru_ok b s" "recent k e used s" "\<And>ev. ev \<in> set evs \<Longrightarrow> leaves_alone k e ev"
    "finite used" "card (used \<union> (\<Union>ev \<in> set evs. key_used ev - {k})) < b"
  shows "\<exists>used'. recent k e used' (fold lru_step evs s) \<and> lru_ok b (fold lru_step evs s)"
  using assms
proof (induction evs arbitrary: s used)
  case (Cons ev evs)
  let ?u = "used \<union> (key_used ev - {k})"
  have fin: "finite (key_used ev)" for ev by (cases ev) auto
  have "card ?u \<le> card (used \<union> (\<Union>ev \<in> set (ev # evs). key_used ev - {k}))"
    using Cons.prems(4) fin by (intro card_mono) auto
  with Cons.prems recent_step [of b s k e used ev ?u] fin have "recent k e ?u (lru_step ev s)" by auto
  moreover have "?u \<union> (\<Union>ev \<in> set evs. key_used ev - {k}) = used \<union> (\<Union>ev \<in> set (ev # evs). key_used ev - {k})" by auto
  ultimately show ?case using Cons.IH [of "lru_step ev s" ?u] Cons.prems fin lru_ok_step by simp
qed auto

text \<open>The store holds at most its bound, and evicts the least recently used entries only: an entry stays until as many
  other keys were used as the store can hold, however often, or it is overwritten, deleted or read after it expired.\<close>

lemma lru_keeps_recent:
  assumes "lru_ok b s" "\<And>ev. ev \<in> set evs \<Longrightarrow> leaves_alone k e ev" "card (\<Union>ev \<in> set evs. key_used ev - {k}) < b"
    "\<not> expired e now"
  shows "fst (ls_get k now (fold lru_step evs (ls_set k e s))) = Some e \<and>
    length (ls_map (fold lru_step evs (ls_set k e s))) \<le> b"
proof -
  have ok: "lru_ok b (ls_set k e s)" using lru_ok_step [OF assms(1), of "Write_key k e"] by simp
  obtain q where q: "1 \<le> q" "nat \<lfloor>q\<rfloor> = b" "ls_maxEntries s = Fin q" using assms(1) by (auto simp: lru_ok_def)
  have "jm_wf (jm_del k (ls_map s) @ (k, e) # [])"
    using assms(1) unfolding jm_set_after_del [symmetric] by (simp add: lru_ok_def jm_wf_set jm_wf_del)
  from recent_evict [OF this, of "{}" b q] q assms(1) have "recent k e {} (ls_set k e s)"
    by (auto simp: ls_set_def recent_def jm_set_after_del lru_ok_def)
  from recent_run [OF ok this assms(2)] assms(3) obtain used' where
    "recent k e used' (fold lru_step evs (ls_set k e s))" "lru_ok b (fold lru_step evs (ls_set k e s))" by auto
  with recent_get [of _ k e used'] assms(4) show ?thesis by (auto simp: lru_ok_def ls_get_def)
qed

definition sample_entry :: cache_entry where
  "sample_entry = \<lparr>ce_responseBody = ''{}'', ce_maxAge = Some 10\<rparr>"

end
