(* ===== verification/Response_Cache.thy ===== *)
theory Response_Cache
  imports Cache_Store Canonical_Json
begin

text \<open>
  The response cache (\<open>src/middlewares/cache/index.ts\<close>, \<open>hash.ts\<close>, \<open>resolveMode.ts\<close>): which requests and responses may
  be cached, the scope that ties an entry to a caller, reads, and the write-back of \<open>memoryCache\<close>. SHA-256 and
  \<open>JSON.stringify\<close> are parameters; a write-back of the semantic mode is handed on as an outcome. Metrics are left out.
\<close>

subsection \<open>Mode\<close>

record resolved_mode =
  rm_mode :: string
  rm_forceRefresh :: bool

definition resolveCacheMode :: "string option \<Rightarrow> string option \<Rightarrow> resolved_mode option" where
  "resolveCacheMode header preset =
    (let txt = (\<lambda>v. to_lower (trim (case v of Some s \<Rightarrow> s | None \<Rightarrow> []))); raw = txt header; def = txt preset;
         mk = (\<lambda>m f. Some \<lparr>rm_mode = m, rm_forceRefresh = f\<rparr>)
     in if raw = ''on'' then mk ''simple'' False
        else if raw = ''semantic'' then mk ''semantic'' False
        else if raw = ''off'' then mk ''DISABLED'' False
        else if raw = ''refresh'' then mk (if def = ''semantic'' then ''semantic'' else ''simple'') True
        else if def = ''on'' then mk ''simple'' False
        else if def = ''semantic'' then mk ''semantic'' False
        else if def = ''off'' then mk ''DISABLED'' False
        else None)"

subsection \<open>What may be cached\<close>

text \<open>A body that is no plain object or array (form data, bytes, a stream) is \<open>Raw_body\<close>.\<close>

datatype cache_body = Json_body json | Raw_body

fun isCacheableBody :: "cache_body \<Rightarrow> bool" where
  "isCacheableBody (Json_body (JArr _)) = True"
| "isCacheableBody (Json_body (JObj _)) = True"
| "isCacheableBody _ = False"

record cache_response =
  cr_status :: nat
  cr_contentType :: "string option"
  cr_json :: "json option"

definition isCacheableResponse :: "cache_response option \<Rightarrow> bool" where
  "isCacheableResponse r =
    (case r of None \<Rightarrow> False
     | Some r \<Rightarrow> cr_status r = 200 \<and> (case cr_contentType r of None \<Rightarrow> False | Some t \<Rightarrow> includes_str t ''application/json''))"

definition UNFINISHED_STATUSES :: "string list" where
  "UNFINISHED_STATUSES = [''incomplete'', ''failed'', ''cancelled'', ''queued'', ''in_progress'']"

definition isCompleteResponseBody :: "json \<Rightarrow> bool" where
  "isCompleteResponseBody body \<longleftrightarrow>
    (case body of
       JObj _ \<Rightarrow> \<not> truthy_json (prop_of (Some body) ''error'') \<and> prop_of (Some body) ''type'' \<noteq> Some (JStr ''error'') \<and>
         (case prop_of (Some body) ''status'' of Some (JStr s) \<Rightarrow> s \<notin> set UNFINISHED_STATUSES | _ \<Rightarrow> True)
     | _ \<Rightarrow> False)"

text \<open>\<open>Array.isArray(v) && v.some(p)\<close>\<close>

fun array_some :: "(json \<Rightarrow> bool) \<Rightarrow> json option \<Rightarrow> bool" where
  "array_some p (Some (JArr vs)) = list_ex p vs"
| "array_some p _ = False"

definition is_refusal_part :: "json \<Rightarrow> bool" where
  "is_refusal_part p \<longleftrightarrow> prop_of (Some p) ''type'' = Some (JStr ''refusal'')"

definition isRefusalResponse :: "json \<Rightarrow> bool" where
  "isRefusalResponse body \<longleftrightarrow>
    prop_of (Some body) ''stop_reason'' = Some (JStr ''refusal'') \<or>
    array_some (\<lambda>ch. (case prop_of (prop_of (Some ch) ''message'') ''refusal'' of Some (JStr s) \<Rightarrow> s \<noteq> [] | _ \<Rightarrow> False) \<or>
        prop_of (Some ch) ''finish_reason'' = Some (JStr ''content_filter'')) (prop_of (Some body) ''choices'') \<or>
    array_some (\<lambda>out. is_refusal_part out \<or> array_some is_refusal_part (prop_of (Some out) ''content'')) (prop_of (Some body) ''output'') \<or>
    array_some is_refusal_part (prop_of (Some body) ''content'')"

definition DEFAULT_CACHE_TTL_MS :: rat where "DEFAULT_CACHE_TTL_MS = 24 * 60 * 60 * 1000"

definition cacheExpiresAt :: "json option \<Rightarrow> rat \<Rightarrow> rat" where
  "cacheExpiresAt maxAge now =
    (case (case maxAge of None \<Rightarrow> NaN | Some v \<Rightarrow> js_to_number v) of
       Fin s \<Rightarrow> if s \<le> 0 then now + DEFAULT_CACHE_TTL_MS else now + s * 1000
     | _ \<Rightarrow> now + DEFAULT_CACHE_TTL_MS)"

subsection \<open>The scope of a caller\<close>

definition with_separator :: "string \<Rightarrow> string \<Rightarrow> string list" where
  "with_separator a b = [a @ b, a @ ''-'' @ b, a @ ''_'' @ b]"

definition SENSITIVE_KEY :: "string list" where
  "SENSITIVE_KEY = [''authorization''] @ with_separator ''api'' ''key'' @
     [''secret'', ''token'', ''password'', ''passwd'', ''credential'', ''signature'', ''cookie''] @ with_separator ''session'' ''id'' @
     with_separator ''private'' ''key'' @ with_separator ''access'' ''key''"

definition isSensitiveKey :: "string \<Rightarrow> bool" where
  "isSensitiveKey key \<longleftrightarrow> list_ex (includes_str (to_lower key)) SENSITIVE_KEY"

definition IDENTITY_KEY :: "string list" where
  "IDENTITY_KEY = with_separator ''virtual'' ''key'' @ [''auth'', ''passphrase'', ''fingerprint'', ''tenan'', ''organisation'', ''organization'',
     ''project'', ''account''] @ with_separator ''role'' ''arn'' @ with_separator ''external'' ''id'' @ with_separator ''client'' ''id'' @
     [''workspace''] @ with_separator ''oracle'' ''user''"

definition isIdentityKey :: "string \<Rightarrow> bool" where
  "isIdentityKey key \<longleftrightarrow> isSensitiveKey key \<or> list_ex (includes_str (to_lower key)) IDENTITY_KEY"

definition GATEWAY_DERIVED_AWS_KEYS :: "string list" where
  "GATEWAY_DERIVED_AWS_KEYS = [''awsAccessKeyId'', ''awsSecretAccessKey'', ''awsSessionToken'']"

definition canonicalJSON :: "(json \<Rightarrow> string) \<Rightarrow> json \<Rightarrow> string" where
  "canonicalJSON = canonicalJson"

definition pickIdentity :: "(json \<Rightarrow> string) \<Rightarrow> (string \<times> json) list \<Rightarrow> string list \<Rightarrow> (string \<times> string) list" where
  "pickIdentity stringify record skip =
    sort_key fst (map (\<lambda>(k, v). (to_lower k, canonicalJSON stringify v))
      (filter (\<lambda>(k, v). isIdentityKey k \<and> k \<notin> set skip \<and> v \<noteq> JNull \<and> v \<noteq> JStr []) record))"

definition VOLATILE_FORWARDED_HEADERS :: "string list" where
  "VOLATILE_FORWARDED_HEADERS = [''accept-encoding'', ''baggage'', ''cdn-loop'', ''connection'', ''content-length'', ''date'', ''host'',
     ''sentry-trace'', ''traceparent'', ''tracestate'', ''x-amzn-trace-id'', ''x-correlation-id'', ''x-forwarded-for'', ''x-forwarded-host'',
     ''x-forwarded-port'', ''x-forwarded-proto'', ''x-real-ip'', ''x-request-id'']"

text \<open>Sorted by name, then by value.\<close>

definition pickForwarded :: "(string \<times> string) list \<Rightarrow> string option \<Rightarrow> string list \<Rightarrow> (string \<times> string) list" where
  "pickForwarded headers endpoint forwardHeaders =
    (let forwarded = map (\<lambda>h. to_lower (trim h)) forwardHeaders in
     sort_key fst (sort_key snd
       (filter (\<lambda>(k, _). (k \<in> set forwarded \<or> (endpoint = Some ''proxy'' \<and> \<not> starts_with k ''x-portkey-'')) \<and>
                  k \<notin> set VOLATILE_FORWARDED_HEADERS \<and> \<not> starts_with k ''cf-'')
         (map (\<lambda>(k, v). (to_lower k, v)) headers))))"

record scope_input =
  si_provider :: "string option"
  si_option :: "(string \<times> json) list"
  si_headers :: "(string \<times> string) list"
  si_endpoint :: "string option"
  si_requestURL :: "string option"
  si_forwardHeaders :: "string list"

definition ambient_aws :: "scope_input \<Rightarrow> bool" where
  "ambient_aws i \<longleftrightarrow> jm_get (si_option i) ''awsAuthType'' \<in> {Some (JStr ''assumedRole''), Some (JStr ''serviceRole'')}"

definition scope_provider :: "scope_input \<Rightarrow> string" where
  "scope_provider i = (case or_str (or_str (si_provider i) (json_text (jm_get (si_option i) ''provider''))) (Some []) of Some p \<Rightarrow> p | None \<Rightarrow> [])"

text \<open>The parts the scope digests.\<close>

definition scope_options :: "(json \<Rightarrow> string) \<Rightarrow> scope_input \<Rightarrow> (string \<times> string) list" where
  "scope_options stringify i = pickIdentity stringify (si_option i) (if ambient_aws i then GATEWAY_DERIVED_AWS_KEYS else [])"

definition scope_headers :: "(json \<Rightarrow> string) \<Rightarrow> scope_input \<Rightarrow> (string \<times> string) list" where
  "scope_headers stringify i = pickIdentity stringify (map (\<lambda>(k, v). (k, JStr v)) (si_headers i)) []"

definition scope_forwarded :: "scope_input \<Rightarrow> (string \<times> string) list" where
  "scope_forwarded i = pickForwarded (si_headers i) (si_endpoint i) (si_forwardHeaders i)"

definition scope_upstream :: "scope_input \<Rightarrow> string" where
  "scope_upstream i = (case si_requestURL i of Some u \<Rightarrow> u | None \<Rightarrow> [])"

definition pairs_json :: "(string \<times> string) list \<Rightarrow> json" where
  "pairs_json ps = JArr (map (\<lambda>(k, v). JArr [JStr k, JStr v]) ps)"

definition scope_text :: "(json \<Rightarrow> string) \<Rightarrow> scope_input \<Rightarrow> string" where
  "scope_text stringify i =
    canonicalJSON stringify (JObj [(''v'', JNum (Fin 1)), (''provider'', JStr (scope_provider i)),
      (''options'', pairs_json (scope_options stringify i)), (''headers'', pairs_json (scope_headers stringify i)),
      (''forwarded'', pairs_json (scope_forwarded i)), (''upstream'', JStr (scope_upstream i))])"

definition computeCacheScope :: "(json \<Rightarrow> string) \<Rightarrow> (string \<Rightarrow> string) \<Rightarrow> scope_input \<Rightarrow> string" where
  "computeCacheScope stringify sha256 i = sha256 (scope_text stringify i)"

subsection \<open>Reads and writes\<close>

definition key_text :: "(json \<Rightarrow> string) \<Rightarrow> json \<Rightarrow> string \<Rightarrow> string \<Rightarrow> string" where
  "key_text stringify body url scope = stringify body @ ''-'' @ url @ ''-'' @ scope"

definition getCacheKey :: "(json \<Rightarrow> string) \<Rightarrow> (string \<Rightarrow> string) \<Rightarrow> json \<Rightarrow> string \<Rightarrow> string \<Rightarrow> string" where
  "getCacheKey stringify sha256 body url scope = sha256 (key_text stringify body url scope)"

record cache_result =
  cx_body :: "string option"
  cx_status :: string
  cx_key :: "string option"

definition getFromCache ::
  "(json \<Rightarrow> string) \<Rightarrow> (string \<Rightarrow> string) \<Rightarrow> string list \<Rightarrow> cache_body \<Rightarrow> string \<Rightarrow> string option \<Rightarrow> rat \<Rightarrow> lru_store \<Rightarrow>
   cache_result \<times> lru_store" where
  "getFromCache stringify sha256 headers body url scope now s =
    (let none = (\<lambda>st. \<lparr>cx_body = None, cx_status = st, cx_key = None\<rparr>) in
     if \<not> truthy_str scope then (none ''DISABLED'', s)
     else if ''x-portkey-cache-force-refresh'' \<in> set headers then (none ''REFRESH'', s)
     else (case body of
        Json_body b \<Rightarrow>
          if \<not> isCacheableBody body then (none ''DISABLED'', s)
          else let key = getCacheKey stringify sha256 b url (the scope) in
            (case ls_get key now s of
               (Some e, s1) \<Rightarrow> (\<lparr>cx_body = Some (ce_responseBody e), cx_status = ''HIT'', cx_key = Some key\<rparr>, s1)
             | (None, s1) \<Rightarrow> (none ''MISS'', s1))
      | Raw_body \<Rightarrow> (none ''DISABLED'', s)))"

definition putInCache ::
  "(json \<Rightarrow> string) \<Rightarrow> (string \<Rightarrow> string) \<Rightarrow> cache_body \<Rightarrow> json \<Rightarrow> string \<Rightarrow> rat option \<Rightarrow> string option \<Rightarrow> lru_store \<Rightarrow> lru_store" where
  "putInCache stringify sha256 body response url maxAge scope s =
    (if \<not> truthy_str scope then s
     else (case body of
        Json_body b \<Rightarrow>
          if \<not> isCacheableBody body \<or> prop_of (Some b) ''stream'' = Some (JBool True) then s
          else ls_set (getCacheKey stringify sha256 b url (the scope))
                 \<lparr>ce_responseBody = stringify response, ce_maxAge = maxAge\<rparr> s
      | Raw_body \<Rightarrow> s))"

text \<open>One attempt of a request as it is logged.\<close>

record request_log =
  rl_mode :: "string option"
  rl_stream :: bool
  rl_status :: "string option"
  rl_response :: "cache_response option"
  rl_index :: string
  rl_body :: cache_body
  rl_url :: string
  rl_maxAge :: "json option"

datatype write_outcome = Not_written | Incomplete_body | Refusal | Stored bool | Semantic_write string json | Write_error

text \<open>\<open>memoryCache\<close> after the request: the last attempt is written back under the scope its read used.\<close>

definition memoryCache ::
  "(json \<Rightarrow> string) \<Rightarrow> (string \<Rightarrow> string) \<Rightarrow> request_log list \<Rightarrow> (string, string) jmap \<Rightarrow> rat \<Rightarrow> lru_store \<Rightarrow> write_outcome \<times> lru_store" where
  "memoryCache stringify sha256 logs scopes now s =
    (if logs = [] then (Not_written, s)
     else let l = last logs in
       if rl_stream l \<or> (rl_mode l \<noteq> Some ''simple'' \<and> rl_mode l \<noteq> Some ''semantic'') \<or> \<not> isCacheableResponse (rl_response l)
       then (Not_written, s)
       else let hit = (case rl_status l of Some st \<Rightarrow> ends_with st ''HIT'' | None \<Rightarrow> False); scope = jm_get scopes (rl_index l) in
         if \<not> truthy_str scope then (Not_written, s)
         else (case Option.bind (rl_response l) cr_json of
             None \<Rightarrow> (Write_error, s)
           | Some parsed \<Rightarrow>
               if \<not> isCompleteResponseBody parsed then (Incomplete_body, s)
               else if isRefusalResponse parsed then (Refusal, s)
               else if rl_mode l = Some ''semantic'' then (Semantic_write (rl_index l) parsed, s)
               else (Stored (\<not> hit),
                     putInCache stringify sha256 (rl_body l) parsed (rl_url l) (Some (cacheExpiresAt (rl_maxAge l) now)) scope s)))"

subsection \<open>Calls\<close>

text \<open>A target's read (\<open>src/handlers/services/cacheService.ts\<close>), with the mode its configuration gives.\<close>

definition NON_CACHE_ENDPOINTS :: "string list" where
  "NON_CACHE_ENDPOINTS = [''uploadFile'', ''listFiles'', ''retrieveFile'', ''deleteFile'', ''retrieveFileContent'', ''createBatch'', ''retrieveBatch'',
     ''cancelBatch'', ''listBatches'', ''getBatchOutput'', ''listFinetunes'', ''createFinetune'', ''retrieveFinetune'', ''cancelFinetune'', ''imageEdit'',
     ''cancelModelResponse'']"

definition isEndpointCacheable :: "string \<Rightarrow> bool" where
  "isEndpointCacheable e \<longleftrightarrow> e \<notin> set NON_CACHE_ENDPOINTS"

record cache_call =
  ca_endpoint :: string
  ca_mode :: "string option"
  ca_forceRefresh :: bool
  ca_mounted :: bool
  ca_scope :: scope_input
  ca_headers :: "string list"
  ca_body :: cache_body
  ca_index :: string

record cache_world =
  cw_store :: lru_store
  cw_scopes :: "nat \<Rightarrow> (string, string) jmap"

definition noCacheObject :: cache_result where
  "noCacheObject = \<lparr>cx_body = None, cx_status = ''DISABLED'', cx_key = None\<rparr>"

text \<open>\<open>semantic\<close> is the lookup of the semantic mode; the request \<open>rid\<close> keeps the scope for its write-back. What the handler then adds
  to a hit, the results of the request's own input hooks and with them the status 246 (\<open>cacheService.ts\<close>, lines 171 to 183), is
  left out: it is not of the cache.\<close>

definition getCachedResponse ::
  "(json \<Rightarrow> string) \<Rightarrow> (string \<Rightarrow> string) \<Rightarrow> (cache_call \<Rightarrow> string \<Rightarrow> cache_result) \<Rightarrow> nat \<Rightarrow> cache_call \<Rightarrow> rat \<Rightarrow> cache_world \<Rightarrow>
   cache_result \<times> cache_world" where
  "getCachedResponse stringify sha256 semantic rid call now w =
    (if \<not> isEndpointCacheable (ca_endpoint call) then (noCacheObject, w)
     else if \<not> truthy_str (ca_mode call) \<or> ca_mode call = Some ''DISABLED'' then (noCacheObject, w)
     else if \<not> ca_mounted call then (noCacheObject, w)
     else let scope = computeCacheScope stringify sha256 (ca_scope call);
              w1 = w\<lparr>cw_scopes := (cw_scopes w)(rid := jm_set (ca_index call) scope (cw_scopes w rid))\<rparr> in
       if ca_mode call = Some ''semantic'' then (semantic call scope, w1)
       else (case getFromCache stringify sha256 (if ca_forceRefresh call then ''x-portkey-cache-force-refresh'' # ca_headers call else ca_headers call)
                    (ca_body call) (ca_endpoint call) (Some scope) now (cw_store w1) of
               (r, s) \<Rightarrow> (r, w1\<lparr>cw_store := s\<rparr>)))"

datatype cache_event = Lookup nat cache_call rat | Finish nat "request_log list" rat

fun cache_step :: "(json \<Rightarrow> string) \<Rightarrow> (string \<Rightarrow> string) \<Rightarrow> (cache_call \<Rightarrow> string \<Rightarrow> cache_result) \<Rightarrow> cache_event \<Rightarrow> cache_world \<Rightarrow> cache_world" where
  "cache_step stringify sha256 semantic (Lookup rid call now) w = snd (getCachedResponse stringify sha256 semantic rid call now w)"
| "cache_step stringify sha256 semantic (Finish rid logs now) w =
    w\<lparr>cw_store := snd (memoryCache stringify sha256 logs (cw_scopes w rid) now (cw_store w))\<rparr>"

definition cache_start :: "jsnum \<Rightarrow> cache_world" where
  "cache_start n = \<lparr>cw_store = new_InMemoryLruStore n, cw_scopes = (\<lambda>_. [])\<rparr>"

subsection \<open>Isolation\<close>

text \<open>What is documented of \<open>JSON.stringify\<close>: a string's text and an object's or array's show where they end.\<close>

definition json_bodies :: "(json \<Rightarrow> string) \<Rightarrow> bool" where
  "json_bodies stringify \<longleftrightarrow>
    (\<forall>b c x y. isCacheableBody (Json_body b) \<and> isCacheableBody (Json_body c) \<and> stringify b @ x = stringify c @ y \<longrightarrow> x = y)"

definition same_caller :: "(json \<Rightarrow> string) \<Rightarrow> scope_input \<Rightarrow> scope_input \<Rightarrow> bool" where
  "same_caller stringify i j \<longleftrightarrow>
    scope_provider i = scope_provider j \<and> scope_options stringify i = scope_options stringify j \<and>
    scope_headers stringify i = scope_headers stringify j \<and> scope_forwarded i = scope_forwarded j \<and> scope_upstream i = scope_upstream j"

text \<open>The texts a run hashes: the scopes of its lookups, and the keys of their and the write-backs' bodies.\<close>

fun event_scopes :: "cache_event \<Rightarrow> scope_input list" where
  "event_scopes (Lookup rid call now) = [ca_scope call]"
| "event_scopes (Finish rid logs now) = []"

fun event_bodies :: "cache_event \<Rightarrow> (json \<times> string) list" where
  "event_bodies (Lookup rid call now) = (case ca_body call of Json_body b \<Rightarrow> [(b, ca_endpoint call)] | Raw_body \<Rightarrow> [])"
| "event_bodies (Finish rid logs now) = (if logs = [] then [] else case rl_body (last logs) of Json_body b \<Rightarrow> [(b, rl_url (last logs))] | Raw_body \<Rightarrow> [])"

definition hashed_texts :: "(json \<Rightarrow> string) \<Rightarrow> (string \<Rightarrow> string) \<Rightarrow> cache_event list \<Rightarrow> string set" where
  "hashed_texts stringify sha256 evs =
    (let scopes = concat (map event_scopes evs); bodies = concat (map event_bodies evs) in
     scope_text stringify ` set scopes \<union>
     (\<Union>i \<in> set scopes. \<Union>(b, url) \<in> set bodies. {key_text stringify b url (computeCacheScope stringify sha256 i)}))"

lemma pairs_tree: "string_tree (pairs_json ps)"
  by (auto simp: pairs_json_def list_all_iff)

lemma pairs_json_inj: "pairs_json ps = pairs_json qs \<Longrightarrow> ps = qs"
proof -
  assume "pairs_json ps = pairs_json qs"
  then have "map (\<lambda>(k, v). JArr [JStr k, JStr v]) ps = map (\<lambda>(k, v). JArr [JStr k, JStr v]) qs" by (simp add: pairs_json_def)
  moreover have "inj (\<lambda>(k, v). JArr [JStr k, JStr v])" by (auto simp: inj_def)
  ultimately show ?thesis by (rule map_injective)
qed

lemma scope_fields_sorted:
  "sort_key fst [(''v'', a), (''provider'', b), (''options'', c), (''headers'', d), (''forwarded'', e), (''upstream'', f)] =
    [(''forwarded'', e), (''headers'', d), (''options'', c), (''provider'', b), (''upstream'', f), (''v'', a)]"
  by (simp add: less_eq_char_def less_char_def)

lemma scope_text_unfold:
  "scope_text st i = ''{'' @ st (JStr ''forwarded'') @ '':'' @ canonicalJson st (pairs_json (scope_forwarded i)) @
     '','' @ st (JStr ''headers'') @ '':'' @ canonicalJson st (pairs_json (scope_headers st i)) @
     '','' @ st (JStr ''options'') @ '':'' @ canonicalJson st (pairs_json (scope_options st i)) @
     '','' @ st (JStr ''provider'') @ '':'' @ canonicalJson st (JStr (scope_provider i)) @
     '','' @ st (JStr ''upstream'') @ '':'' @ canonicalJson st (JStr (scope_upstream i)) @
     '','' @ st (JStr ''v'') @ '':'' @ st (JNum (Fin 1)) @ ''}''"
  by (simp add: scope_text_def canonicalJSON_def scope_fields_sorted)

lemma scope_text_same_caller:
  assumes "json_strings st" "scope_text st i = scope_text st j"
  shows "same_caller st i j"
proof -
  note u = string_tree_unambiguous [OF assms(1)]
  have strings: "s = t \<and> x = y" if "canonicalJson st (JStr s) @ x = canonicalJson st (JStr t) @ y" for s t x y
    using u [of "JStr s" "JStr t"] that by simp
  have string: "s = t" if "canonicalJson st (JStr s) = canonicalJson st (JStr t)" for s t
    using strings [of s "[]" t "[]"] that by simp
  show ?thesis
    using assms(2) unfolding scope_text_unfold same_caller_def
    by (auto dest!: u [OF pairs_tree pairs_tree] strings string pairs_json_inj simp del: canonicalJson.simps)
qed

text \<open>A key's text shows its parts: the scope after the last dash, and the body where it ends.\<close>

lemma last_dash:
  assumes "CHR ''-'' \<notin> set s" "CHR ''-'' \<notin> set t" "x @ CHR ''-'' # s = y @ CHR ''-'' # t"
  shows "x = y \<and> s = t"
proof -
  have "rev s @ CHR ''-'' # rev x = rev t @ CHR ''-'' # rev y" using assms(3) by (metis append.assoc append_Cons append_Nil rev.simps(2) rev_append)
  then have "rev s = rev t \<and> rev x = rev y" using assms(1,2) by (auto dest: append_sep_inj)
  then show ?thesis by simp
qed

lemma key_text_parts:
  assumes "json_bodies st" "isCacheableBody (Json_body b)" "isCacheableBody (Json_body c)"
    "CHR ''-'' \<notin> set s" "CHR ''-'' \<notin> set t" "key_text st b u s = key_text st c v t"
  shows "st b = st c \<and> u = v \<and> s = t"
proof -
  have "(st b @ CHR ''-'' # u) @ CHR ''-'' # s = (st c @ CHR ''-'' # v) @ CHR ''-'' # t"
    using assms(6) by (simp add: key_text_def)
  from last_dash [OF assms(4,5) this] have e: "st b @ CHR ''-'' # u = st c @ CHR ''-'' # v" "s = t" by auto
  with assms(1-3) have "CHR ''-'' # u = CHR ''-'' # v" unfolding json_bodies_def by blast
  with e show ?thesis by simp
qed

subsection \<open>What the store holds\<close>

definition scopes_known :: "(json \<Rightarrow> string) \<Rightarrow> (string \<Rightarrow> string) \<Rightarrow> cache_event list \<Rightarrow> cache_world \<Rightarrow> bool" where
  "scopes_known st sha evs w \<longleftrightarrow>
    (\<forall>rid idx scope. jm_get (cw_scopes w rid) idx = Some scope \<longrightarrow>
       (\<exists>call t. Lookup rid call t \<in> set evs \<and> ca_index call = idx \<and> scope = computeCacheScope st sha (ca_scope call)))"

text \<open>An entry comes from the finished request \<open>rid\<close>, which read under the scope of \<open>call\<close>.\<close>

definition entry_from ::
  "(json \<Rightarrow> string) \<Rightarrow> (string \<Rightarrow> string) \<Rightarrow> cache_event list \<Rightarrow> nat \<Rightarrow> cache_call \<Rightarrow> request_log \<Rightarrow> json \<Rightarrow> json \<Rightarrow> string \<Rightarrow> cache_entry \<Rightarrow> bool" where
  "entry_from st sha evs rid call l b parsed key e \<longleftrightarrow>
    (\<exists>logs t t'. Finish rid logs t \<in> set evs \<and> logs \<noteq> [] \<and> l = last logs \<and> Lookup rid call t' \<in> set evs) \<and>
    ca_index call = rl_index l \<and> rl_mode l = Some ''simple'' \<and> isCacheableResponse (rl_response l) \<and>
    Option.bind (rl_response l) cr_json = Some parsed \<and> isCompleteResponseBody parsed \<and> \<not> isRefusalResponse parsed \<and>
    rl_body l = Json_body b \<and> isCacheableBody (Json_body b) \<and>
    key = getCacheKey st sha b (rl_url l) (computeCacheScope st sha (ca_scope call)) \<and> ce_responseBody e = st parsed"

definition entries_known :: "(json \<Rightarrow> string) \<Rightarrow> (string \<Rightarrow> string) \<Rightarrow> cache_event list \<Rightarrow> cache_world \<Rightarrow> bool" where
  "entries_known st sha evs w \<longleftrightarrow>
    (\<forall>key e. ls_holds (cw_store w) key e \<longrightarrow> (\<exists>rid call l b parsed. entry_from st sha evs rid call l b parsed key e))"

lemma entry_from_mono: "entry_from st sha evs rid call l b parsed key e \<Longrightarrow> set evs \<subseteq> set evs' \<Longrightarrow> entry_from st sha evs' rid call l b parsed key e"
  unfolding entry_from_def by blast

lemma getFromCache_keeps:
  "getFromCache st sha hs body url scope now s = (r, s') \<Longrightarrow> ls_holds s' k e \<Longrightarrow> ls_holds s k e"
  by (auto simp: getFromCache_def Let_def split: if_splits cache_body.splits prod.splits option.splits intro: lru.get_keeps)

lemma memoryCache_holds:
  assumes "memoryCache st sha logs scopes now s = (out, s')" "ls_holds s' k e" "\<not> ls_holds s k e"
  obtains l b parsed scope where "logs \<noteq> []" "l = last logs" "rl_mode l = Some ''simple''" "isCacheableResponse (rl_response l)"
    "Option.bind (rl_response l) cr_json = Some parsed" "isCompleteResponseBody parsed" "\<not> isRefusalResponse parsed"
    "jm_get scopes (rl_index l) = Some scope" "rl_body l = Json_body b" "isCacheableBody (Json_body b)"
    "k = getCacheKey st sha b (rl_url l) scope" "ce_responseBody e = st parsed"
proof -
  let ?l = "last logs"
  from assms obtain parsed where p: "logs \<noteq> []" "rl_mode ?l = Some ''simple''" "isCacheableResponse (rl_response ?l)"
      "truthy_str (jm_get scopes (rl_index ?l))" "Option.bind (rl_response ?l) cr_json = Some parsed" "isCompleteResponseBody parsed"
      "\<not> isRefusalResponse parsed"
      "s' = putInCache st sha (rl_body ?l) parsed (rl_url ?l) (Some (cacheExpiresAt (rl_maxAge ?l) now)) (jm_get scopes (rl_index ?l)) s"
    by (auto simp: memoryCache_def Let_def split: if_splits option.splits)
  obtain scope where scope: "jm_get scopes (rl_index ?l) = Some scope" using p(4) by (cases "jm_get scopes (rl_index ?l)") auto
  show thesis
  proof (cases "rl_body ?l")
    case (Json_body b)
    with p(4,8) assms(2,3) scope have c: "isCacheableBody (Json_body b)"
        "ls_holds (ls_set (getCacheKey st sha b (rl_url ?l) scope)
           \<lparr>ce_responseBody = st parsed, ce_maxAge = Some (cacheExpiresAt (rl_maxAge ?l) now)\<rparr> s) k e"
      by (auto simp: putInCache_def split: if_splits)
    from lru.put_holds [OF c(2)] assms(3) have "k = getCacheKey st sha b (rl_url ?l) scope" "ce_responseBody e = st parsed"
      by (auto split: if_splits)
    with that [of ?l parsed scope b] p scope Json_body c(1) show thesis by blast
  next
    case Raw_body
    with p(8) assms(2,3) show thesis by (simp add: putInCache_def split: if_splits)
  qed
qed

lemma known_start: "scopes_known st sha [] (cache_start n) \<and> entries_known st sha [] (cache_start n)"
  using lru.empty_holds by (simp add: scopes_known_def entries_known_def cache_start_def)

lemma entries_known_mono:
  assumes "entries_known st sha evs w" "set evs \<subseteq> set evs'" "\<And>k e. ls_holds (cw_store w') k e \<Longrightarrow> ls_holds (cw_store w) k e"
  shows "entries_known st sha evs' w'"
  using assms entry_from_mono unfolding entries_known_def by meson

lemma scopes_known_mono:
  "scopes_known st sha evs w \<Longrightarrow> set evs \<subseteq> set evs' \<Longrightarrow> cw_scopes w' = cw_scopes w \<Longrightarrow> scopes_known st sha evs' w'"
  unfolding scopes_known_def by (metis subsetD)

lemma lookup_frame:
  assumes "getCachedResponse st sha sem rid call now w = (r, w')"
  shows "cw_scopes w' = cw_scopes w \<or>
      cw_scopes w' = (cw_scopes w)(rid := jm_set (ca_index call) (computeCacheScope st sha (ca_scope call)) (cw_scopes w rid))"
    "ls_holds (cw_store w') k e \<Longrightarrow> ls_holds (cw_store w) k e"
  using assms
  by (auto simp: getCachedResponse_def Let_def split: if_splits prod.splits dest: getFromCache_keeps)

lemma known_step:
  assumes "scopes_known st sha evs w" "entries_known st sha evs w"
  shows "scopes_known st sha (evs @ [ev]) (cache_step st sha sem ev w) \<and> entries_known st sha (evs @ [ev]) (cache_step st sha sem ev w)"
proof (cases ev)
  case (Lookup rid call now)
  obtain r w' where g: "getCachedResponse st sha sem rid call now w = (r, w')" by force
  have "entries_known st sha (evs @ [ev]) w'"
    by (rule entries_known_mono [OF assms(2)]) (use lookup_frame(2) [OF g] in auto)
  moreover have "scopes_known st sha (evs @ [ev]) w'"
    using lookup_frame(1) [OF g]
  proof
    assume "cw_scopes w' = cw_scopes w"
    then show ?thesis by (intro scopes_known_mono [OF assms(1)]) auto
  next
    assume "cw_scopes w' = (cw_scopes w)(rid := jm_set (ca_index call) (computeCacheScope st sha (ca_scope call)) (cw_scopes w rid))"
    with assms(1) Lookup show ?thesis unfolding scopes_known_def by (fastforce split: if_splits)
  qed
  ultimately show ?thesis using Lookup g by simp
next
  case (Finish rid logs now)
  obtain out s' where m: "memoryCache st sha logs (cw_scopes w rid) now (cw_store w) = (out, s')" by force
  have "entries_known st sha (evs @ [ev]) (w\<lparr>cw_store := s'\<rparr>)"
    unfolding entries_known_def
  proof (intro allI impI)
    fix k e assume "ls_holds (cw_store (w\<lparr>cw_store := s'\<rparr>)) k e"
    then have h: "ls_holds s' k e" by simp
    show "\<exists>rid call l b parsed. entry_from st sha (evs @ [ev]) rid call l b parsed k e"
    proof (cases "ls_holds (cw_store w) k e")
      case True
      with assms(2) obtain rid call l b parsed where "entry_from st sha evs rid call l b parsed k e" unfolding entries_known_def by blast
      then have "entry_from st sha (evs @ [ev]) rid call l b parsed k e" by (rule entry_from_mono) auto
      then show ?thesis by blast
    next
      case False
      obtain l b parsed scope where w: "logs \<noteq> []" "l = last logs" "rl_mode l = Some ''simple''"
        "isCacheableResponse (rl_response l)" "Option.bind (rl_response l) cr_json = Some parsed" "isCompleteResponseBody parsed"
        "\<not> isRefusalResponse parsed" "jm_get (cw_scopes w rid) (rl_index l) = Some scope" "rl_body l = Json_body b"
        "isCacheableBody (Json_body b)" "k = getCacheKey st sha b (rl_url l) scope" "ce_responseBody e = st parsed" by (rule memoryCache_holds [OF m h False])
      from assms(1) w(8) obtain call t' where c: "Lookup rid call t' \<in> set evs" "ca_index call = rl_index l"
          "scope = computeCacheScope st sha (ca_scope call)" unfolding scopes_known_def by blast
      have "\<exists>logs t t'. Finish rid logs t \<in> set (evs @ [ev]) \<and> logs \<noteq> [] \<and> l = last logs \<and> Lookup rid call t' \<in> set (evs @ [ev])"
        using Finish w(1,2) c(1) by auto
      with w c show ?thesis unfolding entry_from_def by blast
    qed
  qed
  moreover have "scopes_known st sha (evs @ [ev]) (w\<lparr>cw_store := s'\<rparr>)"
    using assms(1) by (rule scopes_known_mono) auto
  ultimately show ?thesis using Finish m by simp
qed

lemma known_run:
  "scopes_known st sha evs (fold (cache_step st sha sem) evs (cache_start n)) \<and>
   entries_known st sha evs (fold (cache_step st sha sem) evs (cache_start n))"
proof (induction evs rule: rev_induct)
  case Nil
  then show ?case using known_start by simp
next
  case (snoc ev evs)
  with known_step show ?case by (metis fold_append fold_simps comp_apply)
qed

lemma hit_holds:
  assumes "getCachedResponse st sha sem rid call now w = (r, w')" "cx_body r = Some body" "ca_mode call \<noteq> Some ''semantic''"
  obtains b e where "ca_body call = Json_body b" "isCacheableBody (Json_body b)" "body = ce_responseBody e" "\<not> expired e now"
    "ls_holds (cw_store w) (getCacheKey st sha b (ca_endpoint call) (computeCacheScope st sha (ca_scope call))) e"
proof -
  from assms obtain s' hs where g: "getFromCache st sha hs (ca_body call) (ca_endpoint call) (Some (computeCacheScope st sha (ca_scope call))) now (cw_store w) = (r, s')"
    by (auto simp: getCachedResponse_def noCacheObject_def Let_def split: if_splits prod.splits)
  then show thesis
    using assms(2) that lru.get_holds
    by (auto simp: getFromCache_def Let_def split: if_splits cache_body.splits prod.splits option.splits)
qed

text \<open>C29. A cached response is only served to the caller it was made for: a hit of the simple cache is the complete, successful
  answer, no refusal, that an earlier request got for a body with the same text at the same endpoint, and that request's
  provider, upstream URL, identity options and headers and forwarded headers were the reader's.\<close>

theorem cache_hit_same_caller:
  assumes st: "json_strings st" "json_bodies st" and sha: "\<And>t. CHR ''-'' \<notin> set (sha t)"
    and inj: "inj_on sha (hashed_texts st sha (evs @ [Lookup rid call now]))"
    and hit: "getCachedResponse st sha sem rid call now (fold (cache_step st sha sem) evs (cache_start n)) = (r, w')"
      "cx_body r = Some body" "ca_mode call \<noteq> Some ''semantic''"
  shows "\<exists>rid' logs call' t t' parsed b b'. Finish rid' logs t \<in> set evs \<and> Lookup rid' call' t' \<in> set evs \<and>
     ca_body call = Json_body b \<and> rl_body (last logs) = Json_body b' \<and> st b = st b' \<and> ca_endpoint call = rl_url (last logs) \<and>
     same_caller st (ca_scope call) (ca_scope call') \<and> body = st parsed \<and>
     Option.bind (rl_response (last logs)) cr_json = Some parsed \<and> isCacheableResponse (rl_response (last logs)) \<and>
     isCompleteResponseBody parsed \<and> \<not> isRefusalResponse parsed"
proof -
  let ?scope = "computeCacheScope st sha"
  let ?T = "hashed_texts st sha (evs @ [Lookup rid call now])"
  from hit_holds [OF hit] obtain b e where b: "ca_body call = Json_body b" "isCacheableBody (Json_body b)" "body = ce_responseBody e"
    "ls_holds (cw_store (fold (cache_step st sha sem) evs (cache_start n))) (getCacheKey st sha b (ca_endpoint call) (?scope (ca_scope call))) e" by blast
  with known_run [of st sha evs sem n] obtain rid' call' l b' parsed where
    f: "entry_from st sha evs rid' call' l b' parsed (getCacheKey st sha b (ca_endpoint call) (?scope (ca_scope call))) e"
    unfolding entries_known_def by blast
  then obtain logs t t' where ev: "Finish rid' logs t \<in> set evs" "logs \<noteq> []" "l = last logs" "Lookup rid' call' t' \<in> set evs"
    unfolding entry_from_def by blast
  from f have g: "rl_body l = Json_body b'" "isCacheableBody (Json_body b')"
      "sha (key_text st b (ca_endpoint call) (?scope (ca_scope call))) = sha (key_text st b' (rl_url l) (?scope (ca_scope call')))"
    unfolding entry_from_def getCacheKey_def by auto
  define ins bs where "ins = concat (map event_scopes (evs @ [Lookup rid call now]))"
    and "bs = concat (map event_bodies (evs @ [Lookup rid call now]))"
  have T: "?T = scope_text st ` set ins \<union> (\<Union>i \<in> set ins. \<Union>(b, url) \<in> set bs. {key_text st b url (?scope i)})"
    by (simp only: hashed_texts_def Let_def ins_def bs_def)
  have "ca_scope call \<in> set ins" by (simp add: ins_def)
  moreover have "ca_scope call' \<in> set ins"
    using ev(4) by (auto simp: ins_def intro!: bexI [of _ "Lookup rid' call' t'"])
  moreover have "(b, ca_endpoint call) \<in> set bs" by (simp add: bs_def b(1))
  moreover have "(b', rl_url l) \<in> set bs"
    using ev(1-3) g(1) by (auto simp: bs_def intro!: bexI [of _ "Finish rid' logs t"])
  ultimately have in_T: "scope_text st (ca_scope call) \<in> ?T" "scope_text st (ca_scope call') \<in> ?T"
      "key_text st b (ca_endpoint call) (?scope (ca_scope call)) \<in> ?T" "key_text st b' (rl_url l) (?scope (ca_scope call')) \<in> ?T"
    unfolding T by blast+
  have "key_text st b (ca_endpoint call) (?scope (ca_scope call)) = key_text st b' (rl_url l) (?scope (ca_scope call'))"
    by (rule inj_onD [OF inj g(3) in_T(3,4)])
  from key_text_parts [OF st(2) b(2) g(2) _ _ this] sha have same: "st b = st b'" "ca_endpoint call = rl_url l"
      "sha (scope_text st (ca_scope call)) = sha (scope_text st (ca_scope call'))"
    by (simp_all add: computeCacheScope_def)
  have "scope_text st (ca_scope call) = scope_text st (ca_scope call')"
    by (rule inj_onD [OF inj same(3) in_T(1,2)])
  from scope_text_same_caller [OF st(1) this] same f ev b(1,3) g(1) show ?thesis unfolding entry_from_def by blast
qed

text \<open>A stringify and a hash of the kind the property asks for.\<close>

fun escaped :: "string \<Rightarrow> string" where
  "escaped [] = [CHR 0x22]"
| "escaped (c # s) = (if c = CHR 0x22 \<or> c = CHR 0x5C then CHR 0x5C # c # escaped s else c # escaped s)"

fun sample_stringify :: "json \<Rightarrow> string" where
  "sample_stringify (JStr s) = CHR 0x22 # escaped s"
| "sample_stringify (JArr vs) = ''[]''"
| "sample_stringify (JObj fs) = ''{}''"
| "sample_stringify _ = ''1''"

fun sample_hash :: "string \<Rightarrow> string" where
  "sample_hash [] = []"
| "sample_hash (c # s) = (if c = CHR ''-'' then ''_a'' @ sample_hash s else if c = CHR ''_'' then ''_b'' @ sample_hash s else c # sample_hash s)"

lemma escaped_end: "escaped s @ x = escaped t @ y \<Longrightarrow> s = t \<and> x = y"
proof (induction s arbitrary: t)
  case Nil
  then show ?case by (cases t) (auto split: if_splits)
next
  case (Cons c s)
  then show ?case by (cases t) (auto split: if_splits)
qed

lemma sample_strings: "json_strings sample_stringify"
  unfolding json_strings_def
proof (intro conjI allI impI)
  fix s t x y assume "sample_stringify (JStr s) @ x = sample_stringify (JStr t) @ y"
  then have "escaped s @ x = escaped t @ y" by simp
  from escaped_end [OF this] show "s = t" "x = y" by blast+
qed simp

lemma sample_bodies: "json_bodies sample_stringify"
  unfolding json_bodies_def
proof (intro allI impI, elim conjE)
  fix b c x y
  assume "isCacheableBody (Json_body b)" "isCacheableBody (Json_body c)" "sample_stringify b @ x = sample_stringify c @ y"
  then show "x = y" by (cases b; cases c) auto
qed

lemma sample_hash_no_dash: "CHR ''-'' \<notin> set (sample_hash s)"
  by (induction s) auto

lemma sample_hash_inj: "sample_hash s = sample_hash t \<Longrightarrow> s = t"
proof (induction s arbitrary: t)
  case Nil
  then show ?case by (cases t) (auto split: if_splits)
next
  case (Cons c s)
  then show ?case by (cases t) (auto split: if_splits)
qed

definition sample_call :: cache_call where
  "sample_call = \<lparr>ca_endpoint = ''chatComplete'', ca_mode = Some ''simple'', ca_forceRefresh = False, ca_mounted = True,
     ca_scope = \<lparr>si_provider = Some ''openai'', si_option = [(''apiKey'', JStr ''k'')], si_headers = [(''x-tenant'', ''t'')],
       si_endpoint = Some ''chatComplete'', si_requestURL = None, si_forwardHeaders = []\<rparr>,
     ca_headers = [], ca_body = Json_body (JObj [(''model'', JStr ''m'')]), ca_index = ''0''\<rparr>"

definition sample_log :: request_log where
  "sample_log = \<lparr>rl_mode = Some ''simple'', rl_stream = False, rl_status = Some ''MISS'',
     rl_response = Some \<lparr>cr_status = 200, cr_contentType = Some ''application/json'', cr_json = Some (JObj [(''id'', JStr ''r'')])\<rparr>,
     rl_index = ''0'', rl_body = Json_body (JObj [(''model'', JStr ''m'')]), rl_url = ''chatComplete'', rl_maxAge = None\<rparr>"

definition sample_events :: "cache_event list" where
  "sample_events = [Lookup 0 sample_call 0, Finish 0 [sample_log] 1]"

lemma sample_scope_truthy: "truthy_str (Some (computeCacheScope sample_stringify sample_hash i))"
  by (simp add: computeCacheScope_def scope_text_unfold)

lemma sample_hit:
  "cx_body (fst (getCachedResponse sample_stringify sample_hash sem 1 sample_call 2
     (fold (cache_step sample_stringify sample_hash sem) sample_events (cache_start (Fin 8))))) = Some ''{}''"
  using sample_scope_truthy [of "ca_scope sample_call"]
  by (simp add: sample_events_def sample_call_def sample_log_def cache_start_def new_InMemoryLruStore_def getCachedResponse_def Let_def
      isEndpointCacheable_def NON_CACHE_ENDPOINTS_def getFromCache_def ls_get_def ls_set_def memoryCache_def isCacheableResponse_def
      isCompleteResponseBody_def isRefusalResponse_def putInCache_def expired_def cacheExpiresAt_def DEFAULT_CACHE_TTL_MS_def jm_del_def)

theorem cache_hit_same_caller_witness:
  "\<exists>rid' logs call' t t' parsed b b'. Finish rid' logs t \<in> set sample_events \<and> Lookup rid' call' t' \<in> set sample_events \<and>
     ca_body sample_call = Json_body b \<and> rl_body (last logs) = Json_body b' \<and> sample_stringify b = sample_stringify b' \<and>
     ca_endpoint sample_call = rl_url (last logs) \<and> same_caller sample_stringify (ca_scope sample_call) (ca_scope call') \<and>
     ''{}'' = sample_stringify parsed \<and> Option.bind (rl_response (last logs)) cr_json = Some parsed \<and>
     isCacheableResponse (rl_response (last logs)) \<and> isCompleteResponseBody parsed \<and> \<not> isRefusalResponse parsed"
proof (rule cache_hit_same_caller [OF sample_strings sample_bodies sample_hash_no_dash _ prod.collapse [symmetric] sample_hit])
  show "inj_on sample_hash (hashed_texts sample_stringify sample_hash (sample_events @ [Lookup 1 sample_call 2]))"
    using sample_hash_inj by (auto intro: inj_onI)
  show "ca_mode sample_call \<noteq> Some ''semantic''" by (simp add: sample_call_def)
qed

end
