(* ===== verification/Semantic_Store.thy ===== *)
theory Semantic_Store
  imports Prelude
begin

text \<open>
  The bounded in-memory store of the semantic cache (\<open>src/middlewares/cache/semanticStore.ts\<close>): entries in
  partitions, a lookup that compares vectors within one partition only, near-duplicate replacement, and eviction by
  three bounds. Arithmetic on vectors is exact; the square root and the rounding of \<open>normalize\<close> are a parameter.
\<close>

subsection \<open>A store in partitions\<close>

datatype 'v sem_event = Sem_lookup string 'v rat rat | Sem_insert string 'v string rat rat | Sem_clear

text \<open>\<open>holds s p v b t\<close>: partition \<open>p\<close> has the answer \<open>b\<close> for the vector \<open>v\<close> until \<open>t\<close>.\<close>

locale partitioned_store =
  fixes inv :: "'s \<Rightarrow> bool" and holds :: "'s \<Rightarrow> string \<Rightarrow> 'v \<Rightarrow> string \<Rightarrow> rat \<Rightarrow> bool" and empty :: 's
    and lookup :: "string \<Rightarrow> 'v \<Rightarrow> rat \<Rightarrow> rat \<Rightarrow> 's \<Rightarrow> (string \<times> rat) option \<times> 's"
    and insert :: "string \<Rightarrow> 'v \<Rightarrow> string \<Rightarrow> rat \<Rightarrow> rat \<Rightarrow> 's \<Rightarrow> bool \<times> 's"
    and clear :: "'s \<Rightarrow> 's"
    and close :: "'v \<Rightarrow> 'v \<Rightarrow> rat \<Rightarrow> bool"
  assumes empty_inv: "inv empty" and empty_holds: "\<not> holds empty p v b t"
    and lookup_inv: "inv s \<Longrightarrow> inv (snd (lookup p v th now s))"
    and insert_inv: "inv s \<Longrightarrow> inv (snd (insert p v b t now s))"
    and clear_inv: "inv s \<Longrightarrow> inv (clear s)" and clear_holds: "\<not> holds (clear s) p v b t"
    and lookup_keeps: "inv s \<Longrightarrow> holds (snd (lookup p v th now s)) q w b t \<Longrightarrow> holds s q w b t"
    and insert_keeps: "inv s \<Longrightarrow> holds (snd (insert p v b t now s)) q w c u \<Longrightarrow> holds s q w c u \<or> (q, w, c, u) = (p, v, b, t)"
    and lookup_match: "inv s \<Longrightarrow> fst (lookup p v th now s) = Some (b, sim) \<Longrightarrow>
      th \<le> sim \<and> (\<exists>w t. holds s p w b t \<and> now < t \<and> close w v sim)"
begin

fun step :: "'v sem_event \<Rightarrow> 's \<Rightarrow> 's" where
  "step (Sem_lookup p v th now) s = snd (lookup p v th now s)"
| "step (Sem_insert p v b t now) s = snd (insert p v b t now s)"
| "step Sem_clear s = clear s"

lemma run_inv: "inv (fold step evs empty)"
proof (induction evs rule: rev_induct)
  case (snoc ev evs)
  then show ?case by (cases ev) (simp_all add: lookup_inv insert_inv clear_inv)
qed (simp add: empty_inv)

text \<open>The store holds nothing it was not given.\<close>

lemma run_holds: "holds (fold step evs empty) p v b t \<Longrightarrow> \<exists>now. Sem_insert p v b t now \<in> set evs"
proof (induction evs rule: rev_induct)
  case Nil
  then show ?case using empty_holds by simp
next
  case (snoc ev evs)
  show ?case
  proof (cases ev)
    case (Sem_lookup q w th now)
    with snoc lookup_keeps [OF run_inv] show ?thesis by fastforce
  next
    case (Sem_insert q w c u now)
    with snoc.prems have "holds (snd (insert q w c u now (fold step evs empty))) p v b t" by simp
    from insert_keeps [OF run_inv this] Sem_insert snoc.IH show ?thesis by auto
  next
    case Sem_clear
    with snoc.prems clear_holds show ?thesis by simp
  qed
qed

lemma match_inserted:
  "fst (lookup p v th now (fold step evs empty)) = Some (b, sim) \<Longrightarrow>
    th \<le> sim \<and> (\<exists>w t t'. Sem_insert p w b t t' \<in> set evs \<and> now < t \<and> close w v sim)"
  using lookup_match [OF run_inv] run_holds by blast

end

subsection \<open>Vectors\<close>

type_synonym vector = "rat list"

definition dot :: "vector \<Rightarrow> vector \<Rightarrow> rat" where
  "dot a b = (\<Sum>i \<leftarrow> [0..<length a]. a ! i * b ! i)"

fun norm_loop :: "rat \<Rightarrow> jsnum list \<Rightarrow> (vector \<times> rat) option" where
  "norm_loop acc [] = Some ([], acc)"
| "norm_loop acc (Fin x # xs) = (case norm_loop (acc + x * x) xs of None \<Rightarrow> None | Some (v, n) \<Rightarrow> Some (x # v, n))"
| "norm_loop acc (_ # xs) = None"

text \<open>\<open>scale n x\<close> is the rounded \<open>x * (1 / Math.sqrt(n))\<close>.\<close>

definition normalize :: "(rat \<Rightarrow> rat \<Rightarrow> rat) \<Rightarrow> jsnum list \<Rightarrow> vector option" where
  "normalize scale v = (case norm_loop 0 v of
     None \<Rightarrow> None
   | Some (xs, n) \<Rightarrow> if v = [] \<or> n = 0 then None else Some (map (scale n) xs))"

definition DUPLICATE_SIMILARITY :: rat where "DUPLICATE_SIMILARITY = 9999 / 10000"

definition ENTRY_OVERHEAD_BYTES :: nat where "ENTRY_OVERHEAD_BYTES = 256"

subsection \<open>The store\<close>

record sem_entry =
  se_id :: nat
  se_partition :: string
  se_vector :: vector
  se_body :: string
  se_expires :: rat
  se_bytes :: nat

record sem_store =
  ss_entries :: "(nat, sem_entry) jmap"
  ss_partitions :: "(string, nat list) jmap"
  ss_totalBytes :: int
  ss_seq :: nat
  ss_maxEntries :: rat
  ss_maxBytes :: rat
  ss_maxPerPartition :: rat

definition new_SemanticStore :: "rat \<Rightarrow> rat \<Rightarrow> rat \<Rightarrow> sem_store" where
  "new_SemanticStore n b p =
    \<lparr>ss_entries = [], ss_partitions = [], ss_totalBytes = 0, ss_seq = 0,
     ss_maxEntries = max 1 n, ss_maxBytes = max 1 b, ss_maxPerPartition = max 1 p\<rparr>"

definition ss_size :: "sem_store \<Rightarrow> nat" where
  "ss_size s = length (ss_entries s)"

definition ss_remove :: "sem_entry \<Rightarrow> sem_store \<Rightarrow> sem_store" where
  "ss_remove e s =
    (if jm_get (ss_entries s) (se_id e) = None then s
     else let s1 = s\<lparr>ss_entries := jm_del (se_id e) (ss_entries s), ss_totalBytes := ss_totalBytes s - int (se_bytes e)\<rparr> in
       (case jm_get (ss_partitions s) (se_partition e) of
          None \<Rightarrow> s1
        | Some ids \<Rightarrow>
            let ids' = removeAll (se_id e) ids in
            s1\<lparr>ss_partitions := (if ids' = [] then jm_del (se_partition e) (ss_partitions s)
                                 else jm_set (se_partition e) ids' (ss_partitions s))\<rparr>))"

text \<open>The loop of a lookup over the ids of its partition: expired entries go, the most similar one is kept.\<close>

fun lookup_loop :: "rat \<Rightarrow> vector \<Rightarrow> nat list \<Rightarrow> sem_store \<Rightarrow> (sem_entry \<times> rat) option \<Rightarrow> (sem_entry \<times> rat) option \<times> sem_store" where
  "lookup_loop now vec [] s best = (best, s)"
| "lookup_loop now vec (i # ids) s best =
    (case jm_get (ss_entries s) i of
       None \<Rightarrow> lookup_loop now vec ids s best
     | Some e \<Rightarrow>
         if se_expires e \<le> now then lookup_loop now vec ids (ss_remove e s) best
         else if length (se_vector e) \<noteq> length vec then lookup_loop now vec ids s best
         else let sim = dot (se_vector e) vec in
           lookup_loop now vec ids s (case best of None \<Rightarrow> Some (e, sim) | Some (_, b) \<Rightarrow> if b < sim then Some (e, sim) else best))"

definition ss_lookup :: "string \<Rightarrow> vector \<Rightarrow> rat \<Rightarrow> rat \<Rightarrow> sem_store \<Rightarrow> (string \<times> rat) option \<times> sem_store" where
  "ss_lookup part vec threshold now s =
    (case jm_get (ss_partitions s) part of
       None \<Rightarrow> (None, s)
     | Some ids \<Rightarrow>
         (case lookup_loop now vec ids s None of
            (None, s1) \<Rightarrow> (None, s1)
          | (Some (best, sim), s1) \<Rightarrow>
              if sim < threshold then (None, s1)
              else (Some (se_body best, sim),
                    s1\<lparr>ss_entries := jm_set (se_id best) best (jm_del (se_id best) (ss_entries s1))\<rparr>)))"

fun drop_duplicates :: "vector \<Rightarrow> nat list \<Rightarrow> sem_store \<Rightarrow> sem_store" where
  "drop_duplicates vec [] s = s"
| "drop_duplicates vec (i # ids) s = drop_duplicates vec ids
    (case jm_get (ss_entries s) i of
       None \<Rightarrow> s
     | Some e \<Rightarrow> if length (se_vector e) = length vec \<and> DUPLICATE_SIMILARITY \<le> dot (se_vector e) vec then ss_remove e s else s)"

text \<open>The two loops take the first element left each time: the ids of the partition, then the entries.\<close>

fun partition_cap :: "nat list \<Rightarrow> sem_store \<Rightarrow> sem_store" where
  "partition_cap [] s = s"
| "partition_cap (i # ids) s =
    (if ss_maxPerPartition s < of_nat (length (i # ids))
     then (case jm_get (ss_entries s) i of None \<Rightarrow> s | Some oldest \<Rightarrow> partition_cap ids (ss_remove oldest s))
     else s)"

fun global_cap :: "sem_entry list \<Rightarrow> sem_store \<Rightarrow> sem_store" where
  "global_cap [] s = s"
| "global_cap (oldest # es) s =
    (if ss_maxEntries s < of_nat (length (ss_entries s)) \<or> ss_maxBytes s < of_int (ss_totalBytes s)
     then global_cap es (ss_remove oldest s) else s)"

definition entry_bytes :: "string \<Rightarrow> vector \<Rightarrow> string \<Rightarrow> nat" where
  "entry_bytes part vec body = length body * 2 + length vec * 4 + length part * 2 + ENTRY_OVERHEAD_BYTES"

definition partition_ids :: "sem_store \<Rightarrow> string \<Rightarrow> nat list" where
  "partition_ids s p = (case jm_get (ss_partitions s) p of None \<Rightarrow> [] | Some ids \<Rightarrow> ids)"

text \<open>The new entry, at the end of its partition and of the entries.\<close>

definition add_entry :: "string \<Rightarrow> vector \<Rightarrow> string \<Rightarrow> rat \<Rightarrow> sem_store \<Rightarrow> sem_store" where
  "add_entry part vec body expires s =
    (let e = \<lparr>se_id = Suc (ss_seq s), se_partition = part, se_vector = vec, se_body = body, se_expires = expires,
              se_bytes = entry_bytes part vec body\<rparr> in
     s\<lparr>ss_seq := Suc (ss_seq s), ss_entries := jm_set (se_id e) e (ss_entries s),
       ss_partitions := jm_set part (partition_ids s part @ [se_id e]) (ss_partitions s),
       ss_totalBytes := ss_totalBytes s + int (se_bytes e)\<rparr>)"

definition ss_insert :: "string \<Rightarrow> vector \<Rightarrow> string \<Rightarrow> rat \<Rightarrow> rat \<Rightarrow> sem_store \<Rightarrow> bool \<times> sem_store" where
  "ss_insert part vec body expires now s =
    (if ss_maxBytes s < of_nat (entry_bytes part vec body) \<or> expires \<le> now then (False, s)
     else let s1 = drop_duplicates vec (partition_ids s part) s;
              s2 = add_entry part vec body expires s1;
              s3 = partition_cap (partition_ids s2 part) s2;
              s4 = global_cap (map snd (ss_entries s3)) s3
          in (jm_get (ss_entries s4) (Suc (ss_seq s1)) \<noteq> None, s4))"

definition ss_clear :: "sem_store \<Rightarrow> sem_store" where
  "ss_clear s = s\<lparr>ss_entries := [], ss_partitions := [], ss_totalBytes := 0\<rparr>"

subsection \<open>The index and the accounting\<close>

abbreviation entry_at :: "sem_store \<Rightarrow> nat \<Rightarrow> sem_entry option" where
  "entry_at s k \<equiv> jm_get (ss_entries s) k"

definition all_bytes :: "(nat, sem_entry) jmap \<Rightarrow> int" where
  "all_bytes m = (\<Sum>(k, e) \<leftarrow> m. int (se_bytes e))"

text \<open>The partitions index exactly the entries, no partition is empty, and the byte count is the entries' sum.\<close>

definition ss_wf :: "sem_store \<Rightarrow> bool" where
  "ss_wf s \<longleftrightarrow> jm_wf (ss_entries s) \<and> jm_wf (ss_partitions s) \<and>
    (\<forall>k e. entry_at s k = Some e \<longrightarrow>
       se_id e = k \<and> k \<le> ss_seq s \<and> se_bytes e = entry_bytes (se_partition e) (se_vector e) (se_body e)) \<and>
    (\<forall>p k. k \<in> set (partition_ids s p) \<longleftrightarrow> (\<exists>e. entry_at s k = Some e \<and> se_partition e = p)) \<and>
    (\<forall>p ids. jm_get (ss_partitions s) p = Some ids \<longrightarrow> ids \<noteq> [] \<and> distinct ids) \<and>
    ss_totalBytes s = all_bytes (ss_entries s)"

definition same_limits :: "sem_store \<Rightarrow> sem_store \<Rightarrow> bool" where
  "same_limits s t \<longleftrightarrow> ss_maxEntries s = ss_maxEntries t \<and> ss_maxBytes s = ss_maxBytes t \<and> ss_maxPerPartition s = ss_maxPerPartition t"

definition ss_limits :: "sem_store \<Rightarrow> bool" where
  "ss_limits s \<longleftrightarrow> 1 \<le> ss_maxEntries s \<and> 1 \<le> ss_maxBytes s \<and> 1 \<le> ss_maxPerPartition s"

definition ss_bounded :: "sem_store \<Rightarrow> bool" where
  "ss_bounded s \<longleftrightarrow> of_nat (ss_size s) \<le> ss_maxEntries s \<and> of_int (ss_totalBytes s) \<le> ss_maxBytes s \<and>
    (\<forall>p. of_nat (length (partition_ids s p)) \<le> ss_maxPerPartition s)"

lemma ss_wfD:
  assumes "ss_wf s"
  shows "jm_wf (ss_entries s)" "jm_wf (ss_partitions s)"
    "entry_at s k = Some e \<Longrightarrow> se_id e = k \<and> k \<le> ss_seq s \<and> se_bytes e = entry_bytes (se_partition e) (se_vector e) (se_body e)"
    "k \<in> set (partition_ids s p) \<longleftrightarrow> (\<exists>e. entry_at s k = Some e \<and> se_partition e = p)"
    "jm_get (ss_partitions s) p = Some ids \<Longrightarrow> ids \<noteq> [] \<and> distinct ids" "ss_totalBytes s = all_bytes (ss_entries s)"
  using assms unfolding ss_wf_def by blast+

lemma distinct_partition_ids: "ss_wf s \<Longrightarrow> distinct (partition_ids s p)"
  using ss_wfD(5) by (auto simp: partition_ids_def split: option.splits)

lemma all_bytes_del:
  assumes "jm_wf m" "jm_get m k = Some e"
  shows "all_bytes (jm_del k m) = all_bytes m - int (se_bytes e)"
  using assms
proof (induction m)
  case (Cons x m)
  obtain k' e' where x: "x = (k', e')" by force
  show ?case
  proof (cases "k' = k")
    case True
    with Cons.prems x have "jm_del k m = m" by (intro jm_del_fresh) (auto simp: jm_wf_def)
    with True Cons.prems x show ?thesis by (auto simp: all_bytes_def jm_del_def)
  next
    case False
    with Cons x jm_wf_ConsD [of x m] show ?thesis by (auto simp: all_bytes_def jm_del_def)
  qed
qed simp

text \<open>What \<open>remove\<close> does to an entry of the store.\<close>

lemma remove_parts:
  assumes "ss_wf s" "entry_at s k = Some e"
  shows "ss_entries (ss_remove e s) = jm_del k (ss_entries s)" "ss_totalBytes (ss_remove e s) = ss_totalBytes s - int (se_bytes e)"
    "partition_ids (ss_remove e s) p = (if p = se_partition e then removeAll k (partition_ids s p) else partition_ids s p)"
    "ss_seq (ss_remove e s) = ss_seq s" "same_limits (ss_remove e s) s"
proof -
  have k: "se_id e = k" using ss_wfD(3) [OF assms] by simp
  have "k \<in> set (partition_ids s (se_partition e))" using ss_wfD(4) [OF assms(1)] assms(2) by blast
  then obtain ids where ids: "jm_get (ss_partitions s) (se_partition e) = Some ids"
    by (cases "jm_get (ss_partitions s) (se_partition e)") (auto simp: partition_ids_def)
  then show "ss_entries (ss_remove e s) = jm_del k (ss_entries s)" "ss_totalBytes (ss_remove e s) = ss_totalBytes s - int (se_bytes e)"
    "partition_ids (ss_remove e s) p = (if p = se_partition e then removeAll k (partition_ids s p) else partition_ids s p)"
    "ss_seq (ss_remove e s) = ss_seq s" "same_limits (ss_remove e s) s"
    using assms(2) k by (auto simp: ss_remove_def Let_def partition_ids_def same_limits_def split: option.splits)
qed

lemma remove_partitions:
  assumes "ss_wf s" "jm_get (ss_partitions (ss_remove e s)) p = Some ids"
  shows "ids \<noteq> [] \<and> distinct ids"
  using assms ss_wfD(5) [OF assms(1)]
  by (auto simp: ss_remove_def Let_def distinct_removeAll split: if_splits option.splits)

lemma remove_wf:
  assumes "ss_wf s" "entry_at s k = Some e"
  shows "ss_wf (ss_remove e s)"
  unfolding ss_wf_def
proof (intro conjI)
  note p = remove_parts [OF assms]
  show "jm_wf (ss_entries (ss_remove e s))" using ss_wfD(1) [OF assms(1)] by (simp add: p jm_wf_del)
  show "jm_wf (ss_partitions (ss_remove e s))"
    using ss_wfD(2) [OF assms(1)] by (auto simp: ss_remove_def Let_def jm_wf_del jm_wf_set split: option.splits)
  show "\<forall>k e'. entry_at (ss_remove e s) k = Some e' \<longrightarrow> se_id e' = k \<and> k \<le> ss_seq (ss_remove e s) \<and>
      se_bytes e' = entry_bytes (se_partition e') (se_vector e') (se_body e')"
    using ss_wfD(3) [OF assms(1)] by (simp add: p)
  show "\<forall>q k. k \<in> set (partition_ids (ss_remove e s) q) \<longleftrightarrow> (\<exists>e'. entry_at (ss_remove e s) k = Some e' \<and> se_partition e' = q)"
    using ss_wfD(4) [OF assms(1)] assms(2) by (auto simp: p)
  show "\<forall>q ids. jm_get (ss_partitions (ss_remove e s)) q = Some ids \<longrightarrow> ids \<noteq> [] \<and> distinct ids"
    using remove_partitions [OF assms(1)] by blast
  show "ss_totalBytes (ss_remove e s) = all_bytes (ss_entries (ss_remove e s))"
    using ss_wfD(1,6) [OF assms(1)] all_bytes_del [OF _ assms(2)] by (simp add: p)
qed

text \<open>What a run of removals leaves: a part of the entries, the limits and the numbering.\<close>

definition shrunk :: "sem_store \<Rightarrow> sem_store \<Rightarrow> bool" where
  "shrunk s t \<longleftrightarrow> ss_wf t \<and> same_limits t s \<and> ss_seq t = ss_seq s \<and> ss_size t \<le> ss_size s \<and> ss_totalBytes t \<le> ss_totalBytes s \<and>
    (\<forall>k e. entry_at t k = Some e \<longrightarrow> entry_at s k = Some e) \<and>
    (\<forall>p. length (partition_ids t p) \<le> length (partition_ids s p))"

lemma shrunk_refl: "ss_wf s \<Longrightarrow> shrunk s s"
  by (simp add: shrunk_def same_limits_def)

lemma shrunk_trans: "shrunk s t \<Longrightarrow> shrunk t u \<Longrightarrow> shrunk s u"
  unfolding shrunk_def same_limits_def by (metis order_trans)

lemma shrunk_remove: "ss_wf s \<Longrightarrow> entry_at s k = Some e \<Longrightarrow> shrunk s (ss_remove e s)"
  using remove_wf [of s k e] remove_parts [of s k e] length_jm_del_le [of k "ss_entries s"]
  by (auto simp: shrunk_def ss_size_def length_removeAll_less_eq split: if_splits)

lemma shrunkD:
  assumes "shrunk s t"
  shows "ss_wf t" "same_limits t s" "ss_seq t = ss_seq s" "entry_at t k = Some e \<Longrightarrow> entry_at s k = Some e"
  using assms unfolding shrunk_def by blast+

lemma shrunk_limits: "shrunk s t \<Longrightarrow> ss_limits s \<Longrightarrow> ss_limits t"
  by (simp add: shrunk_def same_limits_def ss_limits_def)

lemma shrunk_bounded:
  assumes "shrunk s t" "ss_bounded s"
  shows "ss_bounded t"
  unfolding ss_bounded_def
proof (intro conjI allI)
  from assms have l: "same_limits t s" "ss_size t \<le> ss_size s" "ss_totalBytes t \<le> ss_totalBytes s"
    "\<And>p. length (partition_ids t p) \<le> length (partition_ids s p)" unfolding shrunk_def by blast+
  from assms(2) have b: "of_nat (ss_size s) \<le> ss_maxEntries s" "of_int (ss_totalBytes s) \<le> ss_maxBytes s"
    "\<And>p. of_nat (length (partition_ids s p)) \<le> ss_maxPerPartition s" unfolding ss_bounded_def by blast+
  show "of_nat (ss_size t) \<le> ss_maxEntries t"
    using l(1,2) b(1) by (metis (no_types, lifting) of_nat_mono order_trans same_limits_def)
  show "of_int (ss_totalBytes t) \<le> ss_maxBytes t"
    using l(1,3) b(2) by (metis (no_types, lifting) of_int_le_iff order_trans same_limits_def)
  show "of_nat (length (partition_ids t p)) \<le> ss_maxPerPartition t" for p
    using l(1,4) b(3) by (metis (no_types, lifting) of_nat_mono order_trans same_limits_def)
qed

lemma shrunk_drop_duplicates: "ss_wf s \<Longrightarrow> shrunk s (drop_duplicates vec ids s)"
proof (induction ids arbitrary: s)
  case (Cons i ids)
  let ?s = "case entry_at s i of None \<Rightarrow> s
    | Some e \<Rightarrow> if length (se_vector e) = length vec \<and> DUPLICATE_SIMILARITY \<le> dot (se_vector e) vec then ss_remove e s else s"
  have "shrunk s ?s" using Cons.prems shrunk_refl shrunk_remove by (auto split: option.splits)
  moreover from this have "shrunk ?s (drop_duplicates vec ids ?s)" using Cons.IH shrunkD(1) by blast
  ultimately have "shrunk s (drop_duplicates vec ids ?s)" by (rule shrunk_trans)
  then show ?case by simp
qed (simp add: shrunk_refl)

lemma shrunk_partition_cap: "ss_wf s \<Longrightarrow> shrunk s (partition_cap ids s)"
proof (induction ids arbitrary: s)
  case (Cons i ids)
  show ?case
  proof (cases "entry_at s i")
    case (Some e)
    with shrunk_remove [OF Cons.prems] have "shrunk s (ss_remove e s)" by blast
    moreover from this have "shrunk (ss_remove e s) (partition_cap ids (ss_remove e s))" using Cons.IH shrunkD(1) by blast
    ultimately have "shrunk s (partition_cap ids (ss_remove e s))" by (rule shrunk_trans)
    with Some shrunk_refl [OF Cons.prems] show ?thesis by (simp del: of_nat_Suc)
  qed (simp add: shrunk_refl [OF Cons.prems])
qed (simp add: shrunk_refl)

lemma partition_cap_bound:
  assumes "ss_wf s" "ss_limits s" "ids = partition_ids s p" "t = partition_cap ids s"
  shows "of_nat (length (partition_ids t p)) \<le> ss_maxPerPartition t"
  using assms
proof (induction ids arbitrary: s)
  case Nil
  then show ?case by (simp add: ss_limits_def)
next
  case (Cons i ids)
  show ?case
  proof (cases "ss_maxPerPartition s < of_nat (length (i # ids))")
    case True
    from ss_wfD(4) [OF Cons.prems(1)] Cons.prems(3) obtain e where e: "entry_at s i = Some e" "se_partition e = p" by (metis list.set_intros(1))
    have "distinct (i # ids)" using distinct_partition_ids [OF Cons.prems(1)] Cons.prems(3) by metis
    then have "removeAll i (partition_ids s p) = ids" unfolding Cons.prems(3) [symmetric] by simp
    then have ids: "ids = partition_ids (ss_remove e s) p"
      using remove_parts(3) [OF Cons.prems(1) e(1)] e(2) by simp
    have sh: "shrunk s (ss_remove e s)" using shrunk_remove [OF Cons.prems(1) e(1)] .
    have "t = partition_cap ids (ss_remove e s)" unfolding Cons.prems(4) using True e(1) by (simp del: of_nat_Suc)
    with Cons.IH [OF shrunkD(1) [OF sh] shrunk_limits [OF sh Cons.prems(2)] ids] show ?thesis by blast
  next
    case False
    then have "t = s" using Cons.prems(4) by simp
    moreover have "\<not> ss_maxPerPartition s < of_nat (length (partition_ids s p))" using False unfolding Cons.prems(3) .
    ultimately show ?thesis by simp
  qed
qed

lemma shrunk_global_cap:
  assumes "ss_wf s" "es = map snd (ss_entries s)" "ss_limits s"
  shows "shrunk s (global_cap es s) \<and> of_nat (ss_size (global_cap es s)) \<le> ss_maxEntries (global_cap es s) \<and>
    of_int (ss_totalBytes (global_cap es s)) \<le> ss_maxBytes (global_cap es s)"
  using assms
proof (induction es arbitrary: s)
  case Nil
  with ss_wfD(6) [OF Nil.prems(1)] show ?case by (auto simp: shrunk_refl ss_limits_def ss_size_def all_bytes_def)
next
  case (Cons e es)
  show ?case
  proof (cases "ss_maxEntries s < of_nat (length (ss_entries s)) \<or> ss_maxBytes s < of_int (ss_totalBytes s)")
    case True
    from Cons.prems(2) obtain k m where m: "ss_entries s = (k, e) # m" "es = map snd m" by (cases "ss_entries s") auto
    then have e: "entry_at s k = Some e" by simp
    have "k \<notin> fst ` set m" using ss_wfD(1) [OF Cons.prems(1)] m(1) by (simp add: jm_wf_def)
    then have es: "es = map snd (ss_entries (ss_remove e s))"
      using remove_parts(1) [OF Cons.prems(1) e] m jm_del_fresh [of k m] by (simp add: jm_del_def)
    have sh: "shrunk s (ss_remove e s)" using shrunk_remove [OF Cons.prems(1) e] .
    from Cons.IH [OF shrunkD(1) [OF sh] es shrunk_limits [OF sh Cons.prems(3)]] True show ?thesis
      using shrunk_trans [OF sh] by simp
  next
    case False
    with shrunk_refl [OF Cons.prems(1)] show ?thesis by (auto simp: ss_size_def)
  qed
qed

subsection \<open>Insertion\<close>

definition ss_inv :: "sem_store \<Rightarrow> bool" where
  "ss_inv s \<longleftrightarrow> ss_wf s \<and> ss_limits s \<and> ss_bounded s"

lemma partition_ids_add:
  "partition_ids (add_entry part vec body t s) p = (if p = part then partition_ids s part @ [Suc (ss_seq s)] else partition_ids s p)"
  by (simp add: partition_ids_def add_entry_def Let_def)

lemma add_entry_wf:
  assumes "ss_wf s"
  shows "ss_wf (add_entry part vec body t s)"
  unfolding ss_wf_def
proof (intro conjI)
  note w = ss_wfD [OF assms]
  let ?n = "Suc (ss_seq s)"
  let ?t = "add_entry part vec body t s"
  have fresh: "entry_at s ?n = None" using w(3) [of ?n] by (cases "entry_at s ?n") auto
  then have fresh': "?n \<notin> fst ` set (ss_entries s)" by (simp add: map_of_eq_None_iff)
  show "jm_wf (ss_entries ?t)" "jm_wf (ss_partitions ?t)" using w(1,2) by (auto simp: add_entry_def Let_def intro: jm_wf_set)
  show "\<forall>k e. entry_at ?t k = Some e \<longrightarrow> se_id e = k \<and> k \<le> ss_seq ?t \<and> se_bytes e = entry_bytes (se_partition e) (se_vector e) (se_body e)"
    using w(3) by (auto simp: add_entry_def Let_def intro: le_SucI)
  show "\<forall>p k. k \<in> set (partition_ids ?t p) \<longleftrightarrow> (\<exists>e. entry_at ?t k = Some e \<and> se_partition e = p)"
    using w(4) fresh by (auto simp: partition_ids_add) (auto simp: add_entry_def Let_def split: if_splits)
  have "distinct (partition_ids s part @ [?n])" using distinct_partition_ids [OF assms] w(4) fresh by auto
  then show "\<forall>p ids. jm_get (ss_partitions ?t) p = Some ids \<longrightarrow> ids \<noteq> [] \<and> distinct ids"
    using w(5) by (auto simp: add_entry_def Let_def)
  show "ss_totalBytes ?t = all_bytes (ss_entries ?t)"
    using w(6) jm_set_fresh [OF fresh'] by (simp add: add_entry_def Let_def all_bytes_def)
qed

text \<open>The stages of an insertion that is not refused.\<close>

lemma insert_stages:
  assumes "ss_inv s" "\<not> (ss_maxBytes s < of_nat (entry_bytes part vec body) \<or> expires \<le> now)"
  obtains s1 s2 s3 s4 where "shrunk s s1" "s2 = add_entry part vec body expires s1" "shrunk s2 s3" "shrunk s3 s4"
    "of_nat (length (partition_ids s3 part)) \<le> ss_maxPerPartition s3" "of_nat (ss_size s4) \<le> ss_maxEntries s4"
    "of_int (ss_totalBytes s4) \<le> ss_maxBytes s4" "ss_limits s3"
    "ss_insert part vec body expires now s = (jm_get (ss_entries s4) (Suc (ss_seq s1)) \<noteq> None, s4)"
proof -
  define s1 s2 s3 s4 where "s1 = drop_duplicates vec (partition_ids s part) s" and "s2 = add_entry part vec body expires s1"
    and "s3 = partition_cap (partition_ids s2 part) s2" and "s4 = global_cap (map snd (ss_entries s3)) s3"
  have wf: "ss_wf s" "ss_limits s" using assms(1) by (simp_all add: ss_inv_def)
  have 1: "shrunk s s1" unfolding s1_def by (rule shrunk_drop_duplicates [OF wf(1)])
  have wf2: "ss_wf s2" unfolding s2_def by (rule add_entry_wf [OF shrunkD(1) [OF 1]])
  have lim2: "ss_limits s2" using shrunk_limits [OF 1 wf(2)] by (simp add: s2_def add_entry_def Let_def ss_limits_def)
  have 3: "shrunk s2 s3" unfolding s3_def by (rule shrunk_partition_cap [OF wf2])
  have cap: "of_nat (length (partition_ids s3 part)) \<le> ss_maxPerPartition s3" by (rule partition_cap_bound [OF wf2 lim2 refl s3_def])
  have lim3: "ss_limits s3" by (rule shrunk_limits [OF 3 lim2])
  have g: "shrunk s3 s4" "of_nat (ss_size s4) \<le> ss_maxEntries s4" "of_int (ss_totalBytes s4) \<le> ss_maxBytes s4"
    using shrunk_global_cap [OF shrunkD(1) [OF 3] refl lim3] unfolding s4_def by blast+
  have "ss_insert part vec body expires now s = (jm_get (ss_entries s4) (Suc (ss_seq s1)) \<noteq> None, s4)"
    using assms(2) unfolding ss_insert_def by (simp only: if_False Let_def s1_def s2_def s3_def s4_def)
  with that 1 s2_def 3 g cap lim3 show thesis by blast
qed

lemma insert_keeps_inv:
  assumes "ss_inv s"
  shows "ss_inv (snd (ss_insert part vec body expires now s))"
proof (cases "ss_maxBytes s < of_nat (entry_bytes part vec body) \<or> expires \<le> now")
  case True
  then have "ss_insert part vec body expires now s = (False, s)" by (auto simp: ss_insert_def)
  with assms show ?thesis by simp
next
  case False
  obtain s1 s2 s3 s4 where st: "shrunk s s1" "s2 = add_entry part vec body expires s1" "shrunk s2 s3" "shrunk s3 s4"
    "of_nat (length (partition_ids s3 part)) \<le> ss_maxPerPartition s3" "of_nat (ss_size s4) \<le> ss_maxEntries s4"
    "of_int (ss_totalBytes s4) \<le> ss_maxBytes s4" "ss_limits s3"
    "ss_insert part vec body expires now s = (jm_get (ss_entries s4) (Suc (ss_seq s1)) \<noteq> None, s4)" by (rule insert_stages [OF assms False])
  have "of_nat (length (partition_ids s4 p)) \<le> ss_maxPerPartition s4" for p
  proof -
    have "of_nat (length (partition_ids s3 p)) \<le> ss_maxPerPartition s3"
    proof (cases "p = part")
      case False
      have "ss_maxPerPartition s2 = ss_maxPerPartition s1" by (simp add: st(2) add_entry_def Let_def)
      moreover have "ss_maxPerPartition s1 = ss_maxPerPartition s" "ss_maxPerPartition s3 = ss_maxPerPartition s2"
        using shrunkD(2) [OF st(1)] shrunkD(2) [OF st(3)] by (simp_all add: same_limits_def)
      moreover have "length (partition_ids s3 p) \<le> length (partition_ids s2 p)" using st(3) by (simp add: shrunk_def)
      moreover have "partition_ids s2 p = partition_ids s1 p" unfolding st(2) using False by (simp add: partition_ids_add)
      moreover have "length (partition_ids s1 p) \<le> length (partition_ids s p)" using st(1) by (simp add: shrunk_def)
      moreover have "of_nat (length (partition_ids s p)) \<le> ss_maxPerPartition s" using assms by (simp add: ss_inv_def ss_bounded_def)
      ultimately show ?thesis by (metis of_nat_mono order_trans)
    qed (use st(5) in simp)
    moreover have "length (partition_ids s4 p) \<le> length (partition_ids s3 p)" "ss_maxPerPartition s4 = ss_maxPerPartition s3"
      using st(4) by (simp_all add: shrunk_def same_limits_def)
    ultimately show ?thesis by (metis of_nat_mono order_trans)
  qed
  with st(6-9) shrunkD(1) [OF st(4)] shrunk_limits [OF st(4)] show ?thesis by (simp add: ss_inv_def ss_bounded_def)
qed

definition ss_holds :: "sem_store \<Rightarrow> string \<Rightarrow> vector \<Rightarrow> string \<Rightarrow> rat \<Rightarrow> bool" where
  "ss_holds s p v b t \<longleftrightarrow> (\<exists>k e. entry_at s k = Some e \<and> (se_partition e, se_vector e, se_body e, se_expires e) = (p, v, b, t))"

lemma shrunk_holds: "shrunk s t \<Longrightarrow> ss_holds t p v b u \<Longrightarrow> ss_holds s p v b u"
  unfolding ss_holds_def using shrunkD(4) by blast

lemma insert_holds:
  assumes "ss_inv s" "ss_holds (snd (ss_insert part vec body expires now s)) q w c u"
  shows "ss_holds s q w c u \<or> (q, w, c, u) = (part, vec, body, expires)"
proof (cases "ss_maxBytes s < of_nat (entry_bytes part vec body) \<or> expires \<le> now")
  case True
  then have "ss_insert part vec body expires now s = (False, s)" by (auto simp: ss_insert_def)
  with assms show ?thesis by simp
next
  case False
  obtain s1 s2 s3 s4 where st: "shrunk s s1" "s2 = add_entry part vec body expires s1" "shrunk s2 s3" "shrunk s3 s4"
    "of_nat (length (partition_ids s3 part)) \<le> ss_maxPerPartition s3" "of_nat (ss_size s4) \<le> ss_maxEntries s4"
    "of_int (ss_totalBytes s4) \<le> ss_maxBytes s4" "ss_limits s3"
    "ss_insert part vec body expires now s = (jm_get (ss_entries s4) (Suc (ss_seq s1)) \<noteq> None, s4)" by (rule insert_stages [OF assms(1) False])
  have "ss_holds s4 q w c u" using assms(2) unfolding st(9) by simp
  then have "ss_holds s2 q w c u" by (intro shrunk_holds [OF st(3)] shrunk_holds [OF st(4)])
  then have "ss_holds s1 q w c u \<or> (q, w, c, u) = (part, vec, body, expires)"
    unfolding st(2) ss_holds_def by (auto simp: add_entry_def Let_def split: if_splits)
  with shrunk_holds [OF st(1)] show ?thesis by blast
qed

text \<open>The entry just stored is the newest everywhere, so that neither loop evicts it.\<close>

lemma entry_at_last: "ss_wf s \<Longrightarrow> ss_entries s = m @ [(n, e)] \<Longrightarrow> entry_at s n = Some e"
proof -
  assume a: "ss_wf s" "ss_entries s = m @ [(n, e)]"
  then have "jm_get m n = None" using ss_wfD(1) [OF a(1)] by (simp add: jm_wf_def map_of_eq_None_iff)
  with a(2) show ?thesis by (simp add: map_add_def)
qed

lemma remove_keeps_last:
  assumes "ss_wf s" "entry_at s i = Some e'" "i \<noteq> n" "ss_entries s = m @ [(n, e)]"
  shows "ss_entries (ss_remove e' s) = jm_del i m @ [(n, e)]"
  using assms(3,4) by (simp add: remove_parts(1) [OF assms(1,2)] jm_del_def)

lemma partition_cap_keeps_last:
  assumes "ss_wf s" "ss_limits s" "ids @ [n] = partition_ids s p" "ss_entries s = m @ [(n, e)]"
  shows "\<exists>m'. ss_entries (partition_cap (ids @ [n]) s) = m' @ [(n, e)]"
  using assms
proof (induction ids arbitrary: s m)
  case Nil
  have "partition_cap [n] s = s" using Nil.prems(2) by (simp add: ss_limits_def)
  with Nil.prems(4) show ?case by (simp del: partition_cap.simps)
next
  case (Cons i ids)
  have d: "distinct (partition_ids s p)" by (rule distinct_partition_ids [OF Cons.prems(1)])
  then have i: "i \<noteq> n" unfolding Cons.prems(3) [symmetric] by auto
  have "i \<in> set (partition_ids s p)" unfolding Cons.prems(3) [symmetric] by simp
  then obtain e' where e': "entry_at s i = Some e'" "se_partition e' = p" unfolding ss_wfD(4) [OF Cons.prems(1)] by blast
  have "removeAll i (partition_ids s p) = ids @ [n]" using d i unfolding Cons.prems(3) [symmetric] by simp
  then have ids: "ids @ [n] = partition_ids (ss_remove e' s) p" using remove_parts(3) [OF Cons.prems(1) e'(1)] e'(2) by simp
  have sh: "shrunk s (ss_remove e' s)" using shrunk_remove [OF Cons.prems(1) e'(1)] .
  from Cons.IH [OF shrunkD(1) [OF sh] shrunk_limits [OF sh Cons.prems(2)] ids remove_keeps_last [OF Cons.prems(1) e'(1) i Cons.prems(4)]]
    Cons.prems(4) e'(1) show ?case
    by (simp del: of_nat_Suc)
qed

lemma global_cap_keeps_last:
  assumes "ss_wf s" "ss_limits s" "ss_entries s = m @ [(n, e)]" "of_nat (se_bytes e) \<le> ss_maxBytes s"
  shows "\<exists>m'. ss_entries (global_cap (map snd (ss_entries s)) s) = m' @ [(n, e)]"
  using assms
proof (induction m arbitrary: s)
  case Nil
  then have "\<not> (ss_maxEntries s < of_nat (length (ss_entries s)) \<or> ss_maxBytes s < of_int (ss_totalBytes s))"
    using ss_wfD(6) [OF Nil.prems(1)] by (simp add: ss_limits_def all_bytes_def)
  then have "global_cap (map snd (ss_entries s)) s = s" using Nil.prems(3) by simp
  with Nil.prems(3) show ?case by (simp del: global_cap.simps)
next
  case (Cons x m)
  obtain k e' where x: "x = (k, e')" by force
  have at: "entry_at s k = Some e'" using Cons.prems(3) x by simp
  have k: "k \<noteq> n" "k \<notin> fst ` set m" using ss_wfD(1) [OF Cons.prems(1)] Cons.prems(3) x by (auto simp: jm_wf_def)
  have del: "ss_entries (ss_remove e' s) = m @ [(n, e)]"
    using remove_keeps_last [OF Cons.prems(1) at k(1), of "x # m"] Cons.prems(3) x jm_del_fresh [OF k(2)] by (simp add: jm_del_def)
  have sh: "shrunk s (ss_remove e' s)" using shrunk_remove [OF Cons.prems(1) at] .
  have "of_nat (se_bytes e) \<le> ss_maxBytes (ss_remove e' s)" using Cons.prems(4) shrunkD(2) [OF sh] by (simp add: same_limits_def)
  from Cons.IH [OF shrunkD(1) [OF sh] shrunk_limits [OF sh Cons.prems(2)] del this] Cons.prems(3) x del show ?case by simp
qed

lemma insert_stores:
  assumes "ss_inv s" "\<not> (ss_maxBytes s < of_nat (entry_bytes part vec body) \<or> expires \<le> now)"
  shows "fst (ss_insert part vec body expires now s)" "ss_holds (snd (ss_insert part vec body expires now s)) part vec body expires"
proof -
  define s1 s2 s3 where "s1 = drop_duplicates vec (partition_ids s part) s" and "s2 = add_entry part vec body expires s1"
    and "s3 = partition_cap (partition_ids s2 part) s2"
  define n e where "n = Suc (ss_seq s1)" and "e = \<lparr>se_id = n, se_partition = part, se_vector = vec, se_body = body, se_expires = expires,
      se_bytes = entry_bytes part vec body\<rparr>"
  have wf: "ss_wf s" "ss_limits s" using assms(1) by (simp_all add: ss_inv_def)
  have 1: "shrunk s s1" unfolding s1_def by (rule shrunk_drop_duplicates [OF wf(1)])
  have wf2: "ss_wf s2" unfolding s2_def by (rule add_entry_wf [OF shrunkD(1) [OF 1]])
  have lim2: "ss_limits s2" using shrunk_limits [OF 1 wf(2)] by (simp add: s2_def add_entry_def Let_def ss_limits_def)
  have "entry_at s1 n = None" using ss_wfD(3) [OF shrunkD(1) [OF 1], of n] by (cases "entry_at s1 n") (auto simp: n_def)
  then have "n \<notin> fst ` set (ss_entries s1)" by (simp add: map_of_eq_None_iff)
  then have e2: "ss_entries s2 = ss_entries s1 @ [(n, e)]"
    using jm_set_fresh by (simp add: s2_def add_entry_def Let_def n_def e_def)
  have ids: "partition_ids s1 part @ [n] = partition_ids s2 part" by (simp add: s2_def partition_ids_add n_def)
  have 3: "shrunk s2 s3" unfolding s3_def by (rule shrunk_partition_cap [OF wf2])
  from partition_cap_keeps_last [OF wf2 lim2 ids e2] obtain m3 where e3: "ss_entries s3 = m3 @ [(n, e)]"
    unfolding s3_def ids by blast
  have lim3: "ss_limits s3" by (rule shrunk_limits [OF 3 lim2])
  have "ss_maxBytes s3 = ss_maxBytes s"
    using shrunkD(2) [OF 1] shrunkD(2) [OF 3] by (simp add: same_limits_def s2_def add_entry_def Let_def)
  then have "of_nat (se_bytes e) \<le> ss_maxBytes s3" using assms(2) by (simp add: e_def)
  from global_cap_keeps_last [OF shrunkD(1) [OF 3] lim3 e3 this] shrunk_global_cap [OF shrunkD(1) [OF 3] refl lim3]
  have at: "entry_at (global_cap (map snd (ss_entries s3)) s3) n = Some e" using entry_at_last shrunkD(1) by blast
  have i: "ss_insert part vec body expires now s = (entry_at (global_cap (map snd (ss_entries s3)) s3) n \<noteq> None, global_cap (map snd (ss_entries s3)) s3)"
    using assms(2) unfolding ss_insert_def by (simp only: if_False Let_def s1_def s2_def s3_def n_def)
  show "fst (ss_insert part vec body expires now s)" unfolding i using at by simp
  show "ss_holds (snd (ss_insert part vec body expires now s)) part vec body expires"
    unfolding i ss_holds_def using at by (intro exI [of _ n] exI [of _ e]) (simp add: e_def)
qed

subsection \<open>Lookup\<close>

definition live_match :: "sem_store \<Rightarrow> rat \<Rightarrow> vector \<Rightarrow> nat list \<Rightarrow> sem_entry \<Rightarrow> bool" where
  "live_match s now vec ids e \<longleftrightarrow>
    (\<exists>i \<in> set ids. entry_at s i = Some e) \<and> now < se_expires e \<and> length (se_vector e) = length vec"

lemma live_match_Cons:
  "live_match s now vec (i # ids) e \<longleftrightarrow>
    (entry_at s i = Some e \<and> now < se_expires e \<and> length (se_vector e) = length vec) \<or> live_match s now vec ids e"
  by (auto simp: live_match_def)

lemma live_match_remove:
  assumes "ss_wf s" "entry_at s i = Some e" "i \<notin> set ids"
  shows "live_match (ss_remove e s) now vec ids e' \<longleftrightarrow> live_match s now vec ids e'"
  using assms(3) by (auto simp: live_match_def remove_parts(1) [OF assms(1,2)])

text \<open>The loop finds a most similar live entry, or the one it started with.\<close>

lemma lookup_loop_best:
  assumes "ss_wf s" "distinct ids" "lookup_loop now vec ids s best = (r, s')"
    and "\<And>b x. best = Some (b, x) \<Longrightarrow> x = dot (se_vector b) vec"
  shows "shrunk s s' \<and> (\<forall>e. live_match s now vec ids e \<longrightarrow> (\<exists>b. r = Some (b, dot (se_vector b) vec) \<and> dot (se_vector e) vec \<le> dot (se_vector b) vec)) \<and>
    (\<forall>b x. best = Some (b, x) \<longrightarrow> (\<exists>c. r = Some (c, dot (se_vector c) vec) \<and> x \<le> dot (se_vector c) vec)) \<and>
    (\<forall>b x. r = Some (b, x) \<longrightarrow> best = Some (b, x) \<or> (live_match s now vec ids b \<and> x = dot (se_vector b) vec)) \<and>
    (\<forall>k e. entry_at s k = Some e \<and> now < se_expires e \<longrightarrow> entry_at s' k = Some e)"
  using assms
proof (induction ids arbitrary: s best)
  case Nil
  then show ?case by (auto simp: live_match_def shrunk_refl)
next
  case (Cons i ids)
  have d: "distinct ids" "i \<notin> set ids" using Cons.prems(2) by auto
  show ?case
  proof (cases "entry_at s i")
    case None
    with Cons.prems have "lookup_loop now vec ids s best = (r, s')" by simp
    from Cons.IH [OF Cons.prems(1) d(1) this Cons.prems(4)] None show ?thesis by (simp add: live_match_Cons)
  next
    case (Some e)
    consider (expired) "se_expires e \<le> now" | (other) "now < se_expires e" "length (se_vector e) \<noteq> length vec"
      | (match) "now < se_expires e" "length (se_vector e) = length vec" by linarith
    then show ?thesis
    proof cases
      case expired
      with Some Cons.prems(3) have l: "lookup_loop now vec ids (ss_remove e s) best = (r, s')" by simp
      have sh: "shrunk s (ss_remove e s)" by (rule shrunk_remove [OF Cons.prems(1) Some])
      have keep: "entry_at (ss_remove e s) k = Some e'" if "entry_at s k = Some e'" "now < se_expires e'" for k e'
        using that expired Some remove_parts(1) [OF Cons.prems(1) Some] by auto
      from Cons.IH [OF shrunkD(1) [OF sh] d(1) l Cons.prems(4)] expired Some d(2) keep show ?thesis
        by (auto simp: live_match_Cons live_match_remove [OF Cons.prems(1) Some] intro: shrunk_trans [OF sh])
    next
      case other
      with Some Cons.prems(3) have "lookup_loop now vec ids s best = (r, s')" by simp
      from Cons.IH [OF Cons.prems(1) d(1) this Cons.prems(4)] Some other show ?thesis by (auto simp: live_match_Cons)
    next
      case match
      define best' where "best' = (case best of None \<Rightarrow> Some (e, dot (se_vector e) vec)
        | Some (_, b) \<Rightarrow> if b < dot (se_vector e) vec then Some (e, dot (se_vector e) vec) else best)"
      from match Some Cons.prems(3) have l: "lookup_loop now vec ids s best' = (r, s')" by (simp add: Let_def best'_def)
      have b: "x = dot (se_vector b) vec" if "best' = Some (b, x)" for b x
        using that Cons.prems(4) by (auto simp: best'_def split: option.splits if_splits)
      have ge: "\<exists>b x. best' = Some (b, x) \<and> dot (se_vector e) vec \<le> x \<and> (\<forall>c y. best = Some (c, y) \<longrightarrow> y \<le> x)"
        by (auto simp: best'_def split: option.splits)
      have from': "best' = best \<or> best' = Some (e, dot (se_vector e) vec)" by (auto simp: best'_def split: option.splits)
      note ih = Cons.IH [OF Cons.prems(1) d(1) l b]
      from ge obtain b0 x0 where g: "best' = Some (b0, x0)" "dot (se_vector e) vec \<le> x0" "\<And>c y. best = Some (c, y) \<Longrightarrow> y \<le> x0" by blast
      from ih g(1) obtain c where c: "r = Some (c, dot (se_vector c) vec)" "x0 \<le> dot (se_vector c) vec" by blast
      have "\<forall>e'. live_match s now vec (i # ids) e' \<longrightarrow> (\<exists>b. r = Some (b, dot (se_vector b) vec) \<and> dot (se_vector e') vec \<le> dot (se_vector b) vec)"
        using ih c g(2) Some by (auto simp: live_match_Cons)
      moreover have "\<forall>b x. best = Some (b, x) \<longrightarrow> (\<exists>c. r = Some (c, dot (se_vector c) vec) \<and> x \<le> dot (se_vector c) vec)"
        using c g(3) by fastforce
      moreover have "\<forall>b x. r = Some (b, x) \<longrightarrow> best = Some (b, x) \<or> (live_match s now vec (i # ids) b \<and> x = dot (se_vector b) vec)"
        using ih from' Some match by (auto simp: live_match_Cons)
      ultimately show ?thesis using ih by blast
    qed
  qed
qed

lemma touch_parts:
  assumes "ss_wf s" "entry_at s k = Some e" "t = s\<lparr>ss_entries := jm_set k e (jm_del k (ss_entries s))\<rparr>"
  shows "entry_at t = entry_at s" "ss_size t = ss_size s" "ss_wf t" "partition_ids t = partition_ids s" "same_limits t s"
    "ss_totalBytes t = ss_totalBytes s"
proof -
  have get: "entry_at t = entry_at s" using assms(2,3) by auto
  have ids: "partition_ids t = partition_ids s" using assms(3) by (auto simp: partition_ids_def)
  have k: "k \<in> fst ` set (ss_entries s)" using assms(2) jm_get_dom by fast
  have wf: "jm_wf (ss_entries s)" by (rule ss_wfD(1) [OF assms(1)])
  show "entry_at t = entry_at s" "partition_ids t = partition_ids s" by (fact get ids)+
  show "same_limits t s" "ss_totalBytes t = ss_totalBytes s" using assms(3) by (simp_all add: same_limits_def)
  show "ss_size t = ss_size s" using assms(3) length_jm_del_present [OF wf k] by (simp add: ss_size_def jm_set_after_del)
  have "all_bytes (ss_entries t) = all_bytes (ss_entries s)"
    using assms(3) all_bytes_del [OF wf assms(2)] by (simp add: jm_set_after_del) (simp add: all_bytes_def)
  moreover have "jm_wf (ss_entries t)" using assms(3) wf by (simp add: jm_wf_set jm_wf_del)
  moreover have "ss_partitions t = ss_partitions s" "ss_seq t = ss_seq s" "ss_totalBytes t = ss_totalBytes s" using assms(3) by simp_all
  ultimately show "ss_wf t" using assms(1) unfolding ss_wf_def get ids by simp
qed

text \<open>A lookup leaves the live entries as they are, and gives one of the most similar of its partition.\<close>

lemma lookup_spec:
  assumes "ss_inv s" "ss_lookup p v th now s = (r, s')"
  shows "ss_inv s'" "entry_at s' k = Some e \<Longrightarrow> entry_at s k = Some e" "entry_at s k = Some e \<Longrightarrow> now < se_expires e \<Longrightarrow> entry_at s' k = Some e"
    "r = Some (b, sim) \<Longrightarrow> th \<le> sim \<and> (\<exists>e. live_match s now v (partition_ids s p) e \<and> b = se_body e \<and> sim = dot (se_vector e) v)"
    "live_match s now v (partition_ids s p) e \<Longrightarrow> th \<le> dot (se_vector e) v \<Longrightarrow> \<exists>b sim. r = Some (b, sim) \<and> dot (se_vector e) v \<le> sim"
proof -
  have wf: "ss_wf s" "ss_limits s" "ss_bounded s" using assms(1) by (simp_all add: ss_inv_def)
  have "ss_inv s' \<and> (\<forall>k e. entry_at s' k = Some e \<longrightarrow> entry_at s k = Some e) \<and>
    (\<forall>k e. entry_at s k = Some e \<and> now < se_expires e \<longrightarrow> entry_at s' k = Some e) \<and>
    (\<forall>b sim. r = Some (b, sim) \<longrightarrow> th \<le> sim \<and> (\<exists>e. live_match s now v (partition_ids s p) e \<and> b = se_body e \<and> sim = dot (se_vector e) v)) \<and>
    (\<forall>e. live_match s now v (partition_ids s p) e \<and> th \<le> dot (se_vector e) v \<longrightarrow> (\<exists>b sim. r = Some (b, sim) \<and> dot (se_vector e) v \<le> sim))"
  proof (cases "jm_get (ss_partitions s) p")
    case None
    with assms show ?thesis by (auto simp: ss_lookup_def partition_ids_def live_match_def)
  next
    case (Some ids)
    obtain q s1 where l: "lookup_loop now v ids s None = (q, s1)" by force
    have ids: "partition_ids s p = ids" using Some by (simp add: partition_ids_def)
    have d: "distinct ids" using ss_wfD(5) [OF wf(1) Some] by simp
    have best: "shrunk s s1" "\<And>e. live_match s now v ids e \<Longrightarrow> \<exists>b. q = Some (b, dot (se_vector b) v) \<and> dot (se_vector e) v \<le> dot (se_vector b) v"
      "\<And>b x. q = Some (b, x) \<Longrightarrow> live_match s now v ids b \<and> x = dot (se_vector b) v"
      "\<And>k e. entry_at s k = Some e \<Longrightarrow> now < se_expires e \<Longrightarrow> entry_at s1 k = Some e"
      using lookup_loop_best [OF wf(1) d l] by simp_all
    have inv1: "ss_inv s1" using shrunkD(1) [OF best(1)] shrunk_limits [OF best(1) wf(2)] shrunk_bounded [OF best(1) wf(3)] by (simp add: ss_inv_def)
    show ?thesis
    proof (cases q)
      case None
      then have r: "r = None" "s' = s1" using assms(2) Some l by (simp_all add: ss_lookup_def)
      moreover have "\<not> live_match s now v ids e" for e using best(2) [of e] None by auto
      ultimately show ?thesis unfolding r ids using best(4) inv1 shrunkD(4) [OF best(1)] by blast
    next
      case (Some bx)
      obtain b x where q: "q = Some (b, x)" using Some by force
      with best(3) have b: "live_match s now v ids b" "x = dot (se_vector b) v" by auto
      then obtain i where i: "entry_at s i = Some b" "now < se_expires b" unfolding live_match_def by blast
      then have at: "entry_at s1 i = Some b" "se_id b = i" using best(4) ss_wfD(3) [OF wf(1) i(1)] by auto
      show ?thesis
      proof (cases "x < th")
        case True
        then have r: "r = None" "s' = s1" using assms(2) \<open>jm_get (ss_partitions s) p = Some ids\<close> l q by (simp_all add: ss_lookup_def)
        moreover have "\<not> th \<le> dot (se_vector e) v" if "live_match s now v ids e" for e
          using best(2) [OF that] q b(2) True by auto
        ultimately show ?thesis unfolding r ids using best(4) inv1 shrunkD(4) [OF best(1)] by blast
      next
        case False
        let ?t = "s1\<lparr>ss_entries := jm_set i b (jm_del i (ss_entries s1))\<rparr>"
        have r: "r = Some (se_body b, x)" "s' = ?t" using False assms(2) \<open>jm_get (ss_partitions s) p = Some ids\<close> l q at(2) by (simp_all add: ss_lookup_def)
        note t = touch_parts [OF shrunkD(1) [OF best(1)] at(1) refl]
        have "ss_inv ?t" using inv1 t unfolding ss_inv_def ss_limits_def ss_bounded_def same_limits_def by metis
        moreover have "\<exists>b' sim. r = Some (b', sim) \<and> dot (se_vector e) v \<le> sim" if "live_match s now v ids e" for e
          using best(2) [OF that] q r(1) b(2) by auto
        moreover have "th \<le> x" using False by simp
        ultimately show ?thesis unfolding r(2) ids t(1) using r(1) b best(4) shrunkD(4) [OF best(1)] by blast
      qed
    qed
  qed
  then show "ss_inv s'" "entry_at s' k = Some e \<Longrightarrow> entry_at s k = Some e" "entry_at s k = Some e \<Longrightarrow> now < se_expires e \<Longrightarrow> entry_at s' k = Some e"
    "r = Some (b, sim) \<Longrightarrow> th \<le> sim \<and> (\<exists>e. live_match s now v (partition_ids s p) e \<and> b = se_body e \<and> sim = dot (se_vector e) v)"
    "live_match s now v (partition_ids s p) e \<Longrightarrow> th \<le> dot (se_vector e) v \<Longrightarrow> \<exists>b sim. r = Some (b, sim) \<and> dot (se_vector e) v \<le> sim"
    by blast+
qed

subsection \<open>The contract\<close>

definition similar :: "vector \<Rightarrow> vector \<Rightarrow> rat \<Rightarrow> bool" where
  "similar w v sim \<longleftrightarrow> length w = length v \<and> sim = dot w v"

lemma new_inv: "ss_inv (new_SemanticStore n b p)"
  by (auto simp: ss_inv_def ss_wf_def ss_limits_def ss_bounded_def new_SemanticStore_def partition_ids_def all_bytes_def ss_size_def)

lemma clear_keeps_inv: "ss_inv s \<Longrightarrow> ss_inv (ss_clear s)"
  by (auto simp: ss_inv_def ss_wf_def ss_limits_def ss_bounded_def ss_clear_def partition_ids_def all_bytes_def ss_size_def)

lemma live_match_holds:
  "ss_wf s \<Longrightarrow> live_match s now v (partition_ids s p) e \<Longrightarrow>
    ss_holds s p (se_vector e) (se_body e) (se_expires e) \<and> now < se_expires e \<and> length (se_vector e) = length v"
  unfolding live_match_def ss_holds_def using ss_wfD(4) [of s _ p] by fastforce

lemma holds_live_match:
  "ss_wf s \<Longrightarrow> ss_holds s p w b t \<Longrightarrow> now < t \<Longrightarrow> length w = length v \<Longrightarrow> \<exists>e. live_match s now v (partition_ids s p) e \<and> se_vector e = w"
  unfolding live_match_def ss_holds_def using ss_wfD(4) [of s _ p] by fastforce

interpretation sem: partitioned_store ss_inv ss_holds "new_SemanticStore n b p" ss_lookup ss_insert ss_clear similar for n b p
proof unfold_locales
  show "ss_inv (new_SemanticStore n b p)" by (rule new_inv)
  show "\<not> ss_holds (new_SemanticStore n b p) q v c t" for q v c t by (simp add: ss_holds_def new_SemanticStore_def)
next
  fix s q v th now assume s: "ss_inv s"
  obtain r s' where l: "ss_lookup q v th now s = (r, s')" by force
  note spec = lookup_spec [OF s l]
  show "ss_inv (snd (ss_lookup q v th now s))" using spec(1) l by simp
  show "ss_holds s q' w c t" if "ss_holds (snd (ss_lookup q v th now s)) q' w c t" for q' w c t
    using that l spec(2) unfolding ss_holds_def by auto
  show "th \<le> sim \<and> (\<exists>w t. ss_holds s q w c t \<and> now < t \<and> similar w v sim)" if "fst (ss_lookup q v th now s) = Some (c, sim)" for c sim
  proof -
    from that l have "r = Some (c, sim)" by simp
    from spec(4) [OF this] s live_match_holds show ?thesis unfolding ss_inv_def similar_def by blast
  qed
next
  fix s q v c t now assume s: "ss_inv s"
  show "ss_inv (snd (ss_insert q v c t now s))" by (rule insert_keeps_inv [OF s])
  show "ss_holds s q' w d u \<or> (q', w, d, u) = (q, v, c, t)" if "ss_holds (snd (ss_insert q v c t now s)) q' w d u" for q' w d u
    by (rule insert_holds [OF s that])
next
  show "ss_inv (ss_clear s)" if "ss_inv s" for s by (rule clear_keeps_inv [OF that])
  show "\<not> ss_holds (ss_clear s) q v c t" for s q v c t by (simp add: ss_holds_def ss_clear_def)
qed

fun sem_run :: "vector sem_event list \<Rightarrow> sem_store \<Rightarrow> sem_store" where
  "sem_run [] s = s"
| "sem_run (Sem_lookup p v th now # evs) s = sem_run evs (snd (ss_lookup p v th now s))"
| "sem_run (Sem_insert p v b t now # evs) s = sem_run evs (snd (ss_insert p v b t now s))"
| "sem_run (Sem_clear # evs) s = sem_run evs (ss_clear s)"

lemma sem_run_fold: "sem_run evs s = fold sem.step evs s"
  by (induction evs s rule: sem_run.induct) simp_all

lemma sem_run_inv: "ss_inv (sem_run evs (new_SemanticStore n b p))"
  unfolding sem_run_fold by (rule sem.run_inv)

text \<open>No operation changes the limits.\<close>

lemma remove_limits: "same_limits (ss_remove e s) s"
  by (simp add: ss_remove_def same_limits_def Let_def split: option.splits)

lemma same_limits_trans: "same_limits s t \<Longrightarrow> same_limits t u \<Longrightarrow> same_limits s u"
  by (simp add: same_limits_def)

lemma lookup_loop_limits: "lookup_loop now v ids s best = (r, s') \<Longrightarrow> same_limits s' s"
proof (induction ids arbitrary: s best)
  case (Cons i ids)
  then show ?case by (auto simp: Let_def split: option.splits if_splits dest: same_limits_trans [OF _ remove_limits])
qed (simp add: same_limits_def)

lemma lookup_limits: "same_limits (snd (ss_lookup p v th now s)) s"
proof (cases "jm_get (ss_partitions s) p")
  case (Some ids)
  obtain r s1 where l: "lookup_loop now v ids s None = (r, s1)" by force
  from lookup_loop_limits [OF this] Some l show ?thesis by (auto simp: ss_lookup_def same_limits_def split: option.splits prod.splits)
qed (simp add: ss_lookup_def same_limits_def)

lemma insert_limits:
  assumes "ss_inv s"
  shows "same_limits (snd (ss_insert p v b t now s)) s"
proof (cases "ss_maxBytes s < of_nat (entry_bytes p v b) \<or> t \<le> now")
  case True
  then have "ss_insert p v b t now s = (False, s)" by (auto simp: ss_insert_def)
  then show ?thesis by (simp add: same_limits_def)
next
  case False
  obtain s1 s2 s3 s4 where st: "shrunk s s1" "s2 = add_entry p v b t s1" "shrunk s2 s3" "shrunk s3 s4"
    "of_nat (length (partition_ids s3 p)) \<le> ss_maxPerPartition s3" "of_nat (ss_size s4) \<le> ss_maxEntries s4"
    "of_int (ss_totalBytes s4) \<le> ss_maxBytes s4" "ss_limits s3"
    "ss_insert p v b t now s = (jm_get (ss_entries s4) (Suc (ss_seq s1)) \<noteq> None, s4)" by (rule insert_stages [OF assms False])
  then show ?thesis
    using shrunkD(2) [OF st(1)] shrunkD(2) [OF st(3)] shrunkD(2) [OF st(4)] by (simp add: same_limits_def add_entry_def Let_def)
qed

lemma clear_limits: "same_limits (ss_clear s) s"
  by (simp add: ss_clear_def same_limits_def)

definition sem_after :: "rat \<Rightarrow> rat \<Rightarrow> rat \<Rightarrow> vector sem_event list \<Rightarrow> sem_store" where
  "sem_after n b p evs = sem_run evs (new_SemanticStore n b p)"

lemma sem_after_inv: "ss_inv (sem_after n b p evs)"
  unfolding sem_after_def by (rule sem_run_inv)

lemma sem_after_limits: "same_limits (sem_after n b p evs) (new_SemanticStore n b p)"
  unfolding sem_after_def sem_run_fold
proof (induction evs rule: rev_induct)
  case (snoc ev evs)
  then show ?case
    by (cases ev) (simp_all add: same_limits_trans [OF lookup_limits] same_limits_trans [OF clear_limits] same_limits_trans [OF insert_limits [OF sem.run_inv]])
qed (simp add: same_limits_def)

text \<open>C30. Whatever was looked up and stored before: the store keeps its three bounds, its byte count is what its entries
  take, its partitions index exactly its entries, and an answer is stored unless it is alone too large or already expired.\<close>

theorem semantic_store_bounded:
  "of_nat (ss_size (sem_after n b p evs)) \<le> max 1 n \<and> of_int (ss_totalBytes (sem_after n b p evs)) \<le> max 1 b \<and>
   of_nat (length (partition_ids (sem_after n b p evs) q)) \<le> max 1 p \<and>
   ss_totalBytes (sem_after n b p evs) = all_bytes (ss_entries (sem_after n b p evs)) \<and>
   (k \<in> set (partition_ids (sem_after n b p evs) q) \<longleftrightarrow> (\<exists>e. entry_at (sem_after n b p evs) k = Some e \<and> se_partition e = q)) \<and>
   (fst (ss_insert q v c t now (sem_after n b p evs)) \<longleftrightarrow> of_nat (entry_bytes q v c) \<le> max 1 b \<and> now < t)"
proof -
  let ?s = "sem_after n b p evs"
  have inv: "ss_wf ?s" "ss_bounded ?s" using sem_after_inv [of n b p evs] by (simp_all add: ss_inv_def)
  have lims: "ss_maxEntries ?s = max 1 n" "ss_maxBytes ?s = max 1 b" "ss_maxPerPartition ?s = max 1 p"
    using sem_after_limits [of n b p evs] by (simp_all add: same_limits_def new_SemanticStore_def)
  have "fst (ss_insert q v c t now ?s) \<longleftrightarrow> \<not> (ss_maxBytes ?s < of_nat (entry_bytes q v c) \<or> t \<le> now)"
    using insert_stores(1) [OF sem_after_inv] by (auto simp: ss_insert_def)
  then have ok: "fst (ss_insert q v c t now ?s) \<longleftrightarrow> of_nat (entry_bytes q v c) \<le> max 1 b \<and> now < t" unfolding lims by auto
  from inv(2) have "of_nat (ss_size ?s) \<le> max 1 n" "of_int (ss_totalBytes ?s) \<le> max 1 b" "of_nat (length (partition_ids ?s q)) \<le> max 1 p"
    unfolding ss_bounded_def lims by blast+
  with ss_wfD(4,6) [OF inv(1)] ok show ?thesis by blast
qed

text \<open>C31. A lookup serves an answer stored before in its own partition, for a vector of the same length, live, and at least
  as similar as the threshold; none the partition still holds is more similar. It misses only when the partition holds no
  live answer similar enough.\<close>

theorem semantic_lookup_best:
  "case fst (ss_lookup p v th now (sem_after n b m evs)) of
     Some (c, sim) \<Rightarrow> th \<le> sim \<and> (\<exists>w t t'. Sem_insert p w c t t' \<in> set evs \<and> now < t \<and> similar w v sim) \<and>
       (\<nexists>w d t. ss_holds (sem_after n b m evs) p w d t \<and> now < t \<and> length w = length v \<and> sim < dot w v)
   | None \<Rightarrow> \<nexists>w d t. ss_holds (sem_after n b m evs) p w d t \<and> now < t \<and> length w = length v \<and> th \<le> dot w v"
proof -
  let ?s = "sem_after n b m evs"
  obtain r s' where l: "ss_lookup p v th now ?s = (r, s')" by force
  note spec = lookup_spec [OF sem_after_inv l]
  have wf: "ss_wf ?s" using sem_after_inv [of n b m evs] by (simp add: ss_inv_def)
  have best: "\<exists>c sim. r = Some (c, sim) \<and> dot w v \<le> sim"
    if "ss_holds ?s p w d t" "now < t" "length w = length v" "th \<le> dot w v" for w d t
    using holds_live_match [OF wf that(1-3)] spec(5) that(4) by blast
  show ?thesis
  proof (cases r)
    case None
    with best l show ?thesis by fastforce
  next
    case (Some cs)
    obtain c sim where r: "r = Some (c, sim)" using Some by force
    have "fst (ss_lookup p v th now (fold sem.step evs (new_SemanticStore n b m))) = Some (c, sim)"
      using l r by (simp add: sem_after_def sem_run_fold)
    from sem.match_inserted [OF this] have m: "th \<le> sim" "\<exists>w t t'. Sem_insert p w c t t' \<in> set evs \<and> now < t \<and> similar w v sim" by blast+
    have "\<not> sim < dot w v" if "ss_holds ?s p w d t" "now < t" "length w = length v" for w d t
    proof
      assume "sim < dot w v"
      with m(1) best [OF that] r show False by auto
    qed
    with m l r show ?thesis by auto
  qed
qed

end
