(* ===== verification/Semantic_Cache.thy ===== *)
theory Semantic_Cache
  imports Response_Cache Semantic_Store Router_Gate Upstream_Url "HOL-Library.Word"
begin

unbundle bit_operations_syntax

text \<open>
  The semantic mode of the response cache (\<open>src/middlewares/cache/semantic.ts\<close>): its settings, the embedders, which
  calls may use it, the partition of a call, and the lookup and write-back of one target. The embedding request, Unicode
  normalisation with the word pattern, the PII scan, the URL parser, SHA-256, \<open>JSON.stringify\<close> and the JSON form of a
  route policy are parameters. Metrics are left out.
\<close>

subsection \<open>Settings\<close>

definition sem_num :: "string option \<Rightarrow> rat \<Rightarrow> rat \<Rightarrow> rat" where
  "sem_num raw fallback mn =
    (case raw of None \<Rightarrow> fallback
     | Some s \<Rightarrow> if s = [] then fallback
         else (case js_Number s of Fin n \<Rightarrow> if mn \<le> n then n else fallback | _ \<Rightarrow> fallback))"

record semantic_config =
  sf_threshold :: rat
  sf_ttlSeconds :: rat
  sf_maxInputChars :: rat
  sf_maxSensitivity :: "string option"
  sf_allowPii :: bool
  sf_sharePrincipals :: bool

type_synonym environment = "string \<Rightarrow> string option"

definition semanticConfig :: "environment \<Rightarrow> semantic_config" where
  "semanticConfig env =
    (let threshold = sem_num (env ''PS_SEMANTIC_CACHE_THRESHOLD'') (95 / 100) 0 in
     \<lparr>sf_threshold = (if 0 < threshold \<and> threshold \<le> 1 then threshold else 95 / 100),
      sf_ttlSeconds = sem_num (env ''PS_SEMANTIC_CACHE_TTL_SECONDS'') 3600 1,
      sf_maxInputChars = sem_num (env ''PS_SEMANTIC_CACHE_MAX_INPUT_CHARS'') 4000 1,
      sf_maxSensitivity = nonempty (map_option trim (env ''PS_SEMANTIC_CACHE_MAX_SENSITIVITY'')),
      sf_allowPii = (env ''PS_SEMANTIC_CACHE_ALLOW_PII'' = Some ''true''),
      sf_sharePrincipals = (env ''PS_SEMANTIC_CACHE_SHARE_PRINCIPALS'' = Some ''true'')\<rparr>)"

subsection \<open>Embedders\<close>

record embedder =
  eb_id :: string
  eb_local :: bool
  eb_model :: string
  eb_url :: "string option"
  eb_facts :: "model_tier option"
  eb_dims :: nat

fun fnv1a_loop :: "32 word \<Rightarrow> string \<Rightarrow> 32 word" where
  "fnv1a_loop h [] = h"
| "fnv1a_loop h (c # s) = fnv1a_loop ((h XOR of_nat (of_char c)) * 0x01000193) s"

definition fnv1a :: "string \<Rightarrow> 32 word" where
  "fnv1a s = fnv1a_loop 0x811c9dc5 s"

text \<open>\<open>add\<close> of the local embedder: the top bit of the hash is the sign.\<close>

definition add_feature :: "nat \<Rightarrow> string \<Rightarrow> rat \<Rightarrow> vector \<Rightarrow> vector" where
  "add_feature d feature weight v =
    (let h = fnv1a feature; i = unat h mod d in
     v[i := v ! i + (if h AND 0x80000000 \<noteq> 0 then - weight else weight)])"

fun add_trigrams :: "nat \<Rightarrow> string \<Rightarrow> vector \<Rightarrow> vector" where
  "add_trigrams d (a # b # c # s) v = add_trigrams d (b # c # s) (add_feature d (''t:'' @ [a, b, c]) (1 / 2) v)"
| "add_trigrams d _ v = v"

definition add_word :: "nat \<Rightarrow> string \<Rightarrow> vector \<Rightarrow> vector" where
  "add_word d w v = add_trigrams d ('' '' @ w @ '' '') (add_feature d (''w:'' @ w) 1 v)"

definition local_embed :: "(string \<Rightarrow> string list) \<Rightarrow> nat \<Rightarrow> string \<Rightarrow> vector" where
  "local_embed words d txt = fold (add_word d) (words txt) (replicate d 0)"

definition localHashEmbedder :: "rat \<Rightarrow> embedder" where
  "localHashEmbedder dims =
    (let d = max 16 (nat \<lfloor>dims\<rfloor>) in
     \<lparr>eb_id = ''local-hash-v1:'' @ digits_of d, eb_local = True, eb_model = ''local-hash-v1'', eb_url = None, eb_facts = None, eb_dims = d\<rparr>)"

definition httpEmbedder :: "environment \<Rightarrow> embedder option" where
  "httpEmbedder env =
    (let url = nonempty (map_option trim (env ''PS_SEMANTIC_CACHE_EMBEDDING_URL''));
         model = nonempty (map_option trim (env ''PS_SEMANTIC_CACHE_EMBEDDING_MODEL''));
         cloudAct = env ''PS_SEMANTIC_CACHE_EMBEDDING_US_CLOUD_ACT_EXPOSURE''
     in case (url, model) of
          (Some u, Some m) \<Rightarrow>
            Some \<lparr>eb_id = ''http:'' @ u @ ''#'' @ m, eb_local = False, eb_model = m, eb_url = Some u,
              eb_facts = Some ((bare_tier m [])
                \<lparr>mt_provider := nonempty (env ''PS_SEMANTIC_CACHE_EMBEDDING_PROVIDER''),
                 mt_jurisdiction := nonempty (env ''PS_SEMANTIC_CACHE_EMBEDDING_JURISDICTION''),
                 mt_zdr := map_option (\<lambda>z. z = ''true'') (env ''PS_SEMANTIC_CACHE_EMBEDDING_ZDR''),
                 mt_usCloudActExposure :=
                   (if cloudAct = Some ''true'' then Some True else if cloudAct = Some ''false'' then Some False else None)\<rparr>),
              eb_dims = 0\<rparr>
        | _ \<Rightarrow> None)"

definition configuredEmbedder :: "environment \<Rightarrow> embedder option" where
  "configuredEmbedder env =
    (let kind = to_lower (trim (case env ''PS_SEMANTIC_CACHE_EMBEDDER'' of Some s \<Rightarrow> s | None \<Rightarrow> [])) in
     if kind = ''local'' then Some (localHashEmbedder (sem_num (env ''PS_SEMANTIC_CACHE_LOCAL_DIMS'') 512 16))
     else if kind = ''http'' then httpEmbedder env
     else None)"

definition getStore :: "environment \<Rightarrow> sem_store" where
  "getStore env = new_SemanticStore (sem_num (env ''PS_SEMANTIC_CACHE_MAX_ENTRIES'') 1000 1)
     (sem_num (env ''PS_SEMANTIC_CACHE_MAX_MB'') 64 (1 / 1000) * 1024 * 1024)
     (sem_num (env ''PS_SEMANTIC_CACHE_MAX_PER_PARTITION'') 256 1)"

text \<open>What an embedder answers: the local one computes, the remote one (\<open>remote\<close>) may fail.\<close>

definition embed_text :: "(string \<Rightarrow> string list) \<Rightarrow> (embedder \<Rightarrow> string \<Rightarrow> jsnum list option) \<Rightarrow> embedder \<Rightarrow> string \<Rightarrow> jsnum list option" where
  "embed_text words remote e txt = (if eb_local e then Some (map Fin (local_embed words (eb_dims e) txt)) else remote e txt)"

subsection \<open>The request\<close>

fun part_texts :: "json list \<Rightarrow> string list option" where
  "part_texts [] = Some []"
| "part_texts (p # ps) =
    (if prop_of (Some p) ''type'' \<noteq> Some (JStr ''text'') then None
     else (case prop_of (Some p) ''text'' of
        Some (JStr t) \<Rightarrow> map_option (\<lambda>ts. t # ts) (part_texts ps)
      | _ \<Rightarrow> None))"

definition textOf :: "json option \<Rightarrow> string option" where
  "textOf content = (case content of
     Some (JStr s) \<Rightarrow> Some s
   | Some (JArr ps) \<Rightarrow> if ps = [] then None else map_option (join [CHR 0x0A]) (part_texts ps)
   | _ \<Rightarrow> None)"

definition without_key :: "string \<Rightarrow> json option \<Rightarrow> json" where
  "without_key k v = (case v of Some (JObj fs) \<Rightarrow> JObj (filter (\<lambda>f. fst f \<noteq> k) fs) | _ \<Rightarrow> JObj [])"

definition splitPrompt :: "json option \<Rightarrow> rat \<Rightarrow> string + (string \<times> json)" where
  "splitPrompt params maxInputChars =
    (case prop_of params ''messages'' of
       Some (JArr messages) \<Rightarrow>
         if messages = [] then Inl ''no_messages''
         else let lst = Some (last messages) in
           if prop_of lst ''role'' \<noteq> Some (JStr ''user'') then Inl ''last_not_user''
           else (case textOf (prop_of lst ''content'') of
               None \<Rightarrow> Inl ''non_text_content''
             | Some txt \<Rightarrow>
                 if trim txt = [] then Inl ''empty_text''
                 else if maxInputChars < of_nat (length txt) then Inl ''too_long''
                 else Inr (txt, JObj [(''params'', without_key ''messages'' params), (''history'', JArr (butlast messages)),
                        (''last'', without_key ''content'' lst)]))
     | _ \<Rightarrow> Inl ''no_messages'')"

text \<open>What the other middlewares left on the request.\<close>

record sem_context =
  sx_gate :: "data_policy_gate option"
  sx_routeLevel :: "string option"
  sx_policy :: "route_policy option"
  sx_subjectHash :: "string option"

definition active_policy :: "sem_context \<Rightarrow> route_policy option" where
  "active_policy c = nullish (map_option dg_policy (sx_gate c)) (sx_policy c)"

definition call_level :: "sem_context \<Rightarrow> (string, string) jmap \<Rightarrow> string list \<Rightarrow> string option" where
  "call_level c headers pii =
    (case nullish (Option.bind (sx_gate c) dg_level) (sx_routeLevel c) of
       Some l \<Rightarrow> Some l
     | None \<Rightarrow>
         let declared = rh_dataClassification (parseRouteHeaders headers) in
         (case active_policy c of Some p \<Rightarrow> fst (classifySensitivity p declared pii) | None \<Rightarrow> nonempty declared))"

definition policy_levels :: "route_policy option \<Rightarrow> string list" where
  "policy_levels p = (case Option.bind p rp_sensitivity of Some sc \<Rightarrow> levels_of sc | None \<Rightarrow> DEFAULT_LEVELS)"

definition max_rank :: "semantic_config \<Rightarrow> string list \<Rightarrow> int" where
  "max_rank cfg levels =
    (case sf_maxSensitivity cfg of
       Some m \<Rightarrow> index_of levels m
     | None \<Rightarrow> let confidential = index_of levels ''confidential'' in if 0 < confidential then confidential - 1 else 0)"

definition sensitivityAllows ::
  "(json option \<Rightarrow> string list) \<Rightarrow> sem_context \<Rightarrow> json option \<Rightarrow> (string, string) jmap \<Rightarrow> semantic_config \<Rightarrow> string + string" where
  "sensitivityAllows scan c params headers cfg =
    (let pii = scan params in
     if pii \<noteq> [] \<and> \<not> sf_allowPii cfg then Inl ''pii''
     else (case call_level c headers pii of
         None \<Rightarrow> Inr ''unclassified''
       | Some level \<Rightarrow>
           let levels = policy_levels (active_policy c); rank = index_of levels level; mx = max_rank cfg levels in
           if rank < 0 then Inl ''unknown_sensitivity''
           else if mx < 0 \<or> mx < rank then Inl ''sensitivity''
           else Inr level))"

definition embedderAllowed :: "embedder \<Rightarrow> data_policy_gate option \<Rightarrow> bool" where
  "embedderAllowed e gate =
    (case gate of None \<Rightarrow> True
     | Some g \<Rightarrow>
        if dg_rule g = None \<or> eb_local e then True
        else (case eb_facts e of
            Some f \<Rightarrow>
              if mt_provider f \<noteq> None \<or> mt_jurisdiction f \<noteq> None \<or> mt_zdr f \<noteq> None \<or> mt_usCloudActExposure f \<noteq> None
              then tierComplies f (dg_rule g)
              else modelComplies (dg_policy g) (Some (eb_model e)) (dg_rule g) (\<lambda>_. True)
          | None \<Rightarrow> modelComplies (dg_policy g) (Some (eb_model e)) (dg_rule g) (\<lambda>_. True)))"

text \<open>\<open>policyJson\<close> is the policy as the JSON object it is.\<close>

definition policyVersionOf :: "(json \<Rightarrow> string) \<Rightarrow> (string \<Rightarrow> string) \<Rightarrow> (route_policy \<Rightarrow> json) \<Rightarrow> route_policy option \<Rightarrow> string" where
  "policyVersionOf stringify sha256 policyJson p =
    (case p of None \<Rightarrow> ''none''
     | Some p \<Rightarrow> if truthy_str (rp_policyVersion p) then ''v:'' @ the (rp_policyVersion p)
                 else ''sha256:'' @ sha256 (canonicalJSON stringify (policyJson p)))"

record sem_input =
  sm_endpoint :: string
  sm_params :: "json option"
  sm_headers :: "(string, string) jmap"
  sm_index :: string
  sm_cacheScope :: string
  sm_maxAge :: "jsnum option"
  sm_forceRefresh :: bool

subsection \<open>The partition of a call\<close>

record part_fields =
  pf_scope :: string
  pf_tenant :: string
  pf_principal :: string
  pf_useCase :: string
  pf_model :: json
  pf_policyVersion :: string
  pf_sensitivity :: string
  pf_endpoint :: string
  pf_embedder :: string
  pf_exact :: json

definition partition_fields ::
  "(json \<Rightarrow> string) \<Rightarrow> (string \<Rightarrow> string) \<Rightarrow> (route_policy \<Rightarrow> json) \<Rightarrow> environment \<Rightarrow> sem_context \<Rightarrow> sem_input \<Rightarrow> json \<Rightarrow> string \<Rightarrow> embedder \<Rightarrow>
   part_fields" where
  "partition_fields stringify sha256 policyJson env c input exact level e =
    \<lparr>pf_scope = sm_cacheScope input,
     pf_tenant = (case nonempty (env ''PS_API_KEY'') of Some k \<Rightarrow> sha256 (''ps-tenant'' @ [CHR 0x0A] @ k) | None \<Rightarrow> []),
     pf_principal = (if sf_sharePrincipals (semanticConfig env) then [] else case sx_subjectHash c of Some h \<Rightarrow> h | None \<Rightarrow> []),
     pf_useCase = (case rh_useCase (parseRouteHeaders (sm_headers input)) of Some u \<Rightarrow> u | None \<Rightarrow> []),
     pf_model = json_or (prop_of (sm_params input) ''model'') (JStr []),
     pf_policyVersion = policyVersionOf stringify sha256 policyJson (active_policy c),
     pf_sensitivity = level, pf_endpoint = sm_endpoint input, pf_embedder = eb_id e, pf_exact = exact\<rparr>"

definition partition_text :: "(json \<Rightarrow> string) \<Rightarrow> part_fields \<Rightarrow> string" where
  "partition_text stringify f =
    canonicalJSON stringify (JObj [(''v'', JNum (Fin 1)), (''scope'', JStr (pf_scope f)), (''tenant'', JStr (pf_tenant f)),
      (''principal'', JStr (pf_principal f)), (''use_case'', JStr (pf_useCase f)), (''model'', pf_model f),
      (''policy_version'', JStr (pf_policyVersion f)), (''sensitivity'', JStr (pf_sensitivity f)), (''endpoint'', JStr (pf_endpoint f)),
      (''embedder'', JStr (pf_embedder f)), (''exact'', pf_exact f)])"

definition partitionKey :: "(json \<Rightarrow> string) \<Rightarrow> (string \<Rightarrow> string) \<Rightarrow> part_fields \<Rightarrow> string" where
  "partitionKey stringify sha256 f = sha256 (partition_text stringify f)"

subsection \<open>Lookup and write-back\<close>

text \<open>The code outside the program.\<close>

record sem_platform =
  sp_stringify :: "json \<Rightarrow> string"
  sp_sha256 :: "string \<Rightarrow> string"
  sp_policyJson :: "route_policy \<Rightarrow> json"
  sp_scan :: "json option \<Rightarrow> string list"
  sp_parse :: "string \<Rightarrow> url_parts option"
  sp_words :: "string \<Rightarrow> string list"
  sp_remote :: "embedder \<Rightarrow> string \<Rightarrow> jsnum list option"
  sp_scale :: "rat \<Rightarrow> rat \<Rightarrow> rat"

definition SEMANTIC_ENDPOINTS :: "string list" where
  "SEMANTIC_ENDPOINTS = [''chatComplete'', ''messages'']"

definition safe_embedder :: "sem_platform \<Rightarrow> environment \<Rightarrow> embedder \<Rightarrow> bool" where
  "safe_embedder P env e \<longleftrightarrow> eb_local e \<or>
    (truthy_str (eb_url e) \<and> isSafeUpstreamURL (sp_parse P) (env ''TRUSTED_CUSTOM_HOSTS'') (the (eb_url e)))"

text \<open>The checks of a lookup in their order, and the partition and vector of a call that passes them.\<close>

definition semantic_plan :: "sem_platform \<Rightarrow> environment \<Rightarrow> sem_context \<Rightarrow> sem_input \<Rightarrow> string + (part_fields \<times> vector)" where
  "semantic_plan P env c input =
    (let cfg = semanticConfig env in
     if sm_cacheScope input = [] then Inl ''no_scope''
     else if sm_endpoint input \<notin> set SEMANTIC_ENDPOINTS then Inl ''endpoint''
     else if prop_of (sm_params input) ''stream'' = Some (JBool True) then Inl ''stream''
     else (case configuredEmbedder env of
         None \<Rightarrow> Inl ''no_embedder''
       | Some e \<Rightarrow>
           rbind (splitPrompt (sm_params input) (sf_maxInputChars cfg)) (\<lambda>(txt, exact).
           rbind (sensitivityAllows (sp_scan P) c (sm_params input) (sm_headers input) cfg) (\<lambda>level.
             if \<not> embedderAllowed e (sx_gate c) then Inl ''embedder_not_allowed''
             else if \<not> safe_embedder P env e then Inl ''embedder_unsafe_url''
             else (case Option.bind (embed_text (sp_words P) (sp_remote P) e txt) (normalize (sp_scale P)) of
                 None \<Rightarrow> Inl ''embedding_error''
               | Some vec \<Rightarrow> Inr (partition_fields (sp_stringify P) (sp_sha256 P) (sp_policyJson P) env c input exact level e, vec))))))"

record sem_pending =
  pe_partition :: string
  pe_vector :: vector
  pe_expiresAt :: rat

record sem_world =
  sw_store :: sem_store
  sw_pending :: "nat \<Rightarrow> (string, sem_pending) jmap"

record sem_result =
  sr_status :: string
  sr_body :: "string option"
  sr_key :: "string option"
  sr_similarity :: "rat option"
  sr_reason :: "string option"

definition sem_ttl :: "jsnum option \<Rightarrow> rat \<Rightarrow> rat" where
  "sem_ttl maxAge ttl = min (case maxAge of Some (Fin a) \<Rightarrow> if 0 < a then a else ttl | _ \<Rightarrow> ttl) ttl"

definition remember :: "nat \<Rightarrow> string \<Rightarrow> sem_pending \<Rightarrow> sem_world \<Rightarrow> sem_world" where
  "remember rid idx p w = w\<lparr>sw_pending := (sw_pending w)(rid := jm_set idx p (sw_pending w rid))\<rparr>"

text \<open>The lookup of one target of the request \<open>rid\<close>.\<close>

definition semanticLookup :: "sem_platform \<Rightarrow> environment \<Rightarrow> nat \<Rightarrow> sem_context \<Rightarrow> sem_input \<Rightarrow> rat \<Rightarrow> sem_world \<Rightarrow> sem_result \<times> sem_world" where
  "semanticLookup P env rid c input now w =
    (case semantic_plan P env c input of
       Inl reason \<Rightarrow>
         (\<lparr>sr_status = ''SEMANTIC BYPASS'', sr_body = None, sr_key = None, sr_similarity = None, sr_reason = Some reason\<rparr>, w)
     | Inr (flds, vec) \<Rightarrow>
         let cfg = semanticConfig env; part = partitionKey (sp_stringify P) (sp_sha256 P) flds;
             pending = \<lparr>pe_partition = part, pe_vector = vec, pe_expiresAt = now + sem_ttl (sm_maxAge input) (sf_ttlSeconds cfg) * 1000\<rparr>;
             done = (\<lambda>st. \<lparr>sr_status = st, sr_body = None, sr_key = Some part, sr_similarity = None, sr_reason = None\<rparr>)
         in if sm_forceRefresh input then (done ''REFRESH'', remember rid (sm_index input) pending w)
            else (case ss_lookup part vec (sf_threshold cfg) now (sw_store w) of
                (Some (body, sim), s) \<Rightarrow>
                  (\<lparr>sr_status = ''SEMANTIC HIT'', sr_body = Some body, sr_key = Some part, sr_similarity = Some sim, sr_reason = None\<rparr>,
                   w\<lparr>sw_store := s\<rparr>)
              | (None, s) \<Rightarrow> (done ''SEMANTIC MISS'', remember rid (sm_index input) pending (w\<lparr>sw_store := s\<rparr>))))"

datatype sem_outcome = Sem_stored | Too_large | No_lookup

definition semanticStore :: "sem_platform \<Rightarrow> nat \<Rightarrow> string \<Rightarrow> json \<Rightarrow> rat \<Rightarrow> sem_world \<Rightarrow> sem_outcome \<times> sem_world" where
  "semanticStore P rid idx response now w =
    (case jm_get (sw_pending w rid) idx of
       None \<Rightarrow> (No_lookup, w)
     | Some p \<Rightarrow>
         (case ss_insert (pe_partition p) (pe_vector p) (sp_stringify P response) (pe_expiresAt p) now (sw_store w) of
            (ok, s) \<Rightarrow> (if ok then Sem_stored else Too_large, w\<lparr>sw_store := s\<rparr>)))"

text \<open>What \<open>memoryCache\<close> hands on at the end of a request.\<close>

definition semantic_write ::
  "sem_platform \<Rightarrow> request_log list \<Rightarrow> (string, string) jmap \<Rightarrow> (string \<times> json) option" where
  "semantic_write P logs scopes =
    (case fst (memoryCache (sp_stringify P) (sp_sha256 P) logs scopes 0 (new_InMemoryLruStore (Fin 1))) of
       Semantic_write idx parsed \<Rightarrow> Some (idx, parsed) | _ \<Rightarrow> None)"

datatype sem_request = Sem_read nat sem_context sem_input rat | Sem_write nat "request_log list" "(string, string) jmap" rat

fun sem_serve :: "sem_platform \<Rightarrow> environment \<Rightarrow> sem_request \<Rightarrow> sem_world \<Rightarrow> sem_world" where
  "sem_serve P env (Sem_read rid c input now) w = snd (semanticLookup P env rid c input now w)"
| "sem_serve P env (Sem_write rid logs scopes now) w =
    (case semantic_write P logs scopes of None \<Rightarrow> w | Some (idx, parsed) \<Rightarrow> snd (semanticStore P rid idx parsed now w))"

definition sem_world_after :: "sem_platform \<Rightarrow> environment \<Rightarrow> sem_request list \<Rightarrow> sem_world" where
  "sem_world_after P env evs = fold (sem_serve P env) evs \<lparr>sw_store = getStore env, sw_pending = (\<lambda>_. [])\<rparr>"

subsection \<open>Isolation of partitions\<close>

definition same_partition :: "(json \<Rightarrow> string) \<Rightarrow> part_fields \<Rightarrow> part_fields \<Rightarrow> bool" where
  "same_partition stringify f g \<longleftrightarrow>
    pf_scope f = pf_scope g \<and> pf_tenant f = pf_tenant g \<and> pf_principal f = pf_principal g \<and> pf_useCase f = pf_useCase g \<and>
    canonicalJSON stringify (pf_model f) = canonicalJSON stringify (pf_model g) \<and> pf_policyVersion f = pf_policyVersion g \<and>
    pf_sensitivity f = pf_sensitivity g \<and> pf_endpoint f = pf_endpoint g \<and> pf_embedder f = pf_embedder g \<and>
    canonicalJSON stringify (pf_exact f) = canonicalJSON stringify (pf_exact g)"

definition partition_object :: "part_fields \<Rightarrow> (string \<times> json) list" where
  "partition_object f = [(''v'', JNum (Fin 1)), (''scope'', JStr (pf_scope f)), (''tenant'', JStr (pf_tenant f)),
      (''principal'', JStr (pf_principal f)), (''use_case'', JStr (pf_useCase f)), (''model'', pf_model f),
      (''policy_version'', JStr (pf_policyVersion f)), (''sensitivity'', JStr (pf_sensitivity f)), (''endpoint'', JStr (pf_endpoint f)),
      (''embedder'', JStr (pf_embedder f)), (''exact'', pf_exact f)]"

lemma partition_text_same:
  assumes "json_texts st" "partition_text st f = partition_text st g"
  shows "same_partition st f g"
proof -
  have e: "canonicalJson st (JObj (partition_object f)) = canonicalJson st (JObj (partition_object g))"
    using assms(2) by (simp only: partition_text_def partition_object_def canonicalJSON_def)
  have d: "distinct (map fst (partition_object g))" by (simp add: partition_object_def)
  have field: "canonicalJson st v = canonicalJson st w" if "(k, v) \<in> set (partition_object f)" "(k, w) \<in> set (partition_object g)" for k v w
    by (rule object_field_text [OF assms(1) e d that])
  have str: "s = t" if "(k, JStr s) \<in> set (partition_object f)" "(k, JStr t) \<in> set (partition_object g)" for k s t
    by (rule string_text [OF assms(1) field [OF that]])
  show ?thesis
    unfolding same_partition_def canonicalJSON_def
  proof (intro conjI)
    show "pf_scope f = pf_scope g" by (rule str [of "''scope''"]) (simp_all add: partition_object_def)
    show "pf_tenant f = pf_tenant g" by (rule str [of "''tenant''"]) (simp_all add: partition_object_def)
    show "pf_principal f = pf_principal g" by (rule str [of "''principal''"]) (simp_all add: partition_object_def)
    show "pf_useCase f = pf_useCase g" by (rule str [of "''use_case''"]) (simp_all add: partition_object_def)
    show "pf_policyVersion f = pf_policyVersion g" by (rule str [of "''policy_version''"]) (simp_all add: partition_object_def)
    show "pf_sensitivity f = pf_sensitivity g" by (rule str [of "''sensitivity''"]) (simp_all add: partition_object_def)
    show "pf_endpoint f = pf_endpoint g" by (rule str [of "''endpoint''"]) (simp_all add: partition_object_def)
    show "pf_embedder f = pf_embedder g" by (rule str [of "''embedder''"]) (simp_all add: partition_object_def)
    show "canonicalJson st (pf_model f) = canonicalJson st (pf_model g)" by (rule field [of "''model''"]) (simp_all add: partition_object_def)
    show "canonicalJson st (pf_exact f) = canonicalJson st (pf_exact g)" by (rule field [of "''exact''"]) (simp_all add: partition_object_def)
  qed
qed

text \<open>What a write-back of the semantic mode was given.\<close>

definition written_back :: "request_log list \<Rightarrow> string \<Rightarrow> json \<Rightarrow> bool" where
  "written_back logs idx parsed \<longleftrightarrow> logs \<noteq> [] \<and> idx = rl_index (last logs) \<and> isCacheableResponse (rl_response (last logs)) \<and>
    Option.bind (rl_response (last logs)) cr_json = Some parsed \<and> isCompleteResponseBody parsed \<and> \<not> isRefusalResponse parsed"

lemma semantic_write_back: "semantic_write P logs scopes = Some (idx, parsed) \<Longrightarrow> written_back logs idx parsed"
  by (auto simp: semantic_write_def written_back_def memoryCache_def Let_def split: if_splits option.splits write_outcome.splits)

text \<open>A call of the run that passed the checks, with its partition and vector.\<close>

definition planned :: "sem_platform \<Rightarrow> environment \<Rightarrow> sem_request list \<Rightarrow> nat \<Rightarrow> string \<Rightarrow> part_fields \<Rightarrow> vector \<Rightarrow> bool" where
  "planned P env evs rid idx f v \<longleftrightarrow> (\<exists>c input t. Sem_read rid c input t \<in> set evs \<and> sm_index input = idx \<and> semantic_plan P env c input = Inr (f, v))"

definition stored_by :: "sem_platform \<Rightarrow> environment \<Rightarrow> sem_request list \<Rightarrow> part_fields \<Rightarrow> vector \<Rightarrow> json \<Rightarrow> bool" where
  "stored_by P env evs f v parsed \<longleftrightarrow>
    (\<exists>rid idx logs scopes t. planned P env evs rid idx f v \<and> Sem_write rid logs scopes t \<in> set evs \<and> written_back logs idx parsed)"

definition key_of :: "sem_platform \<Rightarrow> part_fields \<Rightarrow> string" where
  "key_of P f = partitionKey (sp_stringify P) (sp_sha256 P) f"

definition sem_known :: "sem_platform \<Rightarrow> environment \<Rightarrow> sem_request list \<Rightarrow> sem_world \<Rightarrow> bool" where
  "sem_known P env evs w \<longleftrightarrow> ss_inv (sw_store w) \<and>
    (\<forall>rid idx p. jm_get (sw_pending w rid) idx = Some p \<longrightarrow>
       (\<exists>f. planned P env evs rid idx f (pe_vector p) \<and> pe_partition p = key_of P f)) \<and>
    (\<forall>q v b t. ss_holds (sw_store w) q v b t \<longrightarrow>
       (\<exists>f parsed. stored_by P env evs f v parsed \<and> q = key_of P f \<and> b = sp_stringify P parsed))"

lemma planned_mono: "planned P env evs rid idx f v \<Longrightarrow> set evs \<subseteq> set evs' \<Longrightarrow> planned P env evs' rid idx f v"
  unfolding planned_def by blast

lemma stored_by_mono: "stored_by P env evs f v parsed \<Longrightarrow> set evs \<subseteq> set evs' \<Longrightarrow> stored_by P env evs' f v parsed"
  unfolding stored_by_def using planned_mono by blast

lemma sem_knownD:
  assumes "sem_known P env evs w"
  shows "ss_inv (sw_store w)"
    "jm_get (sw_pending w rid) idx = Some p \<Longrightarrow> \<exists>f. planned P env evs rid idx f (pe_vector p) \<and> pe_partition p = key_of P f"
    "ss_holds (sw_store w) q v b t \<Longrightarrow> \<exists>f parsed. stored_by P env evs f v parsed \<and> q = key_of P f \<and> b = sp_stringify P parsed"
  using assms unfolding sem_known_def by blast+

lemma sem_known_start: "sem_known P env [] \<lparr>sw_store = getStore env, sw_pending = (\<lambda>_. [])\<rparr>"
  by (simp add: sem_known_def getStore_def new_inv sem.empty_holds)

lemma sem_known_later:
  assumes "sem_known P env evs w" "set evs \<subseteq> set evs'" "ss_inv (sw_store w')"
    and "\<And>q v b t. ss_holds (sw_store w') q v b t \<Longrightarrow> ss_holds (sw_store w) q v b t \<or>
           (\<exists>f parsed. stored_by P env evs' f v parsed \<and> q = key_of P f \<and> b = sp_stringify P parsed)"
    and "\<And>rid idx p. jm_get (sw_pending w' rid) idx = Some p \<Longrightarrow> jm_get (sw_pending w rid) idx = Some p \<or>
           (\<exists>f. planned P env evs' rid idx f (pe_vector p) \<and> pe_partition p = key_of P f)"
  shows "sem_known P env evs' w'"
  unfolding sem_known_def
proof (intro conjI allI impI)
  show "ss_inv (sw_store w')" by (rule assms(3))
  show "\<exists>f. planned P env evs' rid idx f (pe_vector p) \<and> pe_partition p = key_of P f"
    if "jm_get (sw_pending w' rid) idx = Some p" for rid idx p
    using assms(5) [OF that] sem_knownD(2) [OF assms(1)] planned_mono [OF _ assms(2)] by meson
  show "\<exists>f parsed. stored_by P env evs' f v parsed \<and> q = key_of P f \<and> b = sp_stringify P parsed"
    if "ss_holds (sw_store w') q v b t" for q v b t
    using assms(4) [OF that] sem_knownD(3) [OF assms(1)] stored_by_mono [OF _ assms(2)] by meson
qed

lemma sem_known_more: "sem_known P env evs w \<Longrightarrow> sem_known P env (evs @ [ev]) w"
  by (rule sem_known_later) (auto dest: sem_knownD(1))

text \<open>What a lookup may change.\<close>

lemma sem_lookup_frame:
  assumes "ss_inv (sw_store w)" "semanticLookup P env rid c input now w = (r, w')"
  shows "ss_inv (sw_store w')" "ss_holds (sw_store w') q v b t \<Longrightarrow> ss_holds (sw_store w) q v b t"
    "jm_get (sw_pending w' rid') idx = Some p \<Longrightarrow> jm_get (sw_pending w rid') idx = Some p \<or>
       (rid' = rid \<and> idx = sm_index input \<and> (\<exists>f. semantic_plan P env c input = Inr (f, pe_vector p) \<and> pe_partition p = key_of P f))"
proof -
  have "ss_inv (sw_store w') \<and> (ss_holds (sw_store w') q v b t \<longrightarrow> ss_holds (sw_store w) q v b t) \<and>
    (jm_get (sw_pending w' rid') idx = Some p \<longrightarrow> jm_get (sw_pending w rid') idx = Some p \<or>
       (rid' = rid \<and> idx = sm_index input \<and> (\<exists>f. semantic_plan P env c input = Inr (f, pe_vector p) \<and> pe_partition p = key_of P f)))"
  proof (cases "semantic_plan P env c input")
    case (Inl reason)
    with assms show ?thesis by (simp add: semanticLookup_def)
  next
    case (Inr fv)
    obtain f vec where fv: "semantic_plan P env c input = Inr (f, vec)" using Inr by (cases fv) auto
    obtain m s where l: "ss_lookup (key_of P f) vec (sf_threshold (semanticConfig env)) now (sw_store w) = (m, s)" by force
    have s: "ss_inv s" "ss_holds s q v b t \<Longrightarrow> ss_holds (sw_store w) q v b t"
      using sem.lookup_inv [OF assms(1), of "key_of P f" vec _ now] sem.lookup_keeps [OF assms(1), of "key_of P f" vec _ now] l by (metis snd_conv)+
    show ?thesis
    proof (cases "sm_forceRefresh input")
      case True
      with fv assms show ?thesis by (auto simp: semanticLookup_def Let_def remember_def key_of_def split: if_splits)
    next
      case False
      with fv l s assms show ?thesis
        by (auto simp: semanticLookup_def Let_def remember_def key_of_def split: if_splits option.splits)
    qed
  qed
  then show "ss_inv (sw_store w')" "ss_holds (sw_store w') q v b t \<Longrightarrow> ss_holds (sw_store w) q v b t"
    "jm_get (sw_pending w' rid') idx = Some p \<Longrightarrow> jm_get (sw_pending w rid') idx = Some p \<or>
       (rid' = rid \<and> idx = sm_index input \<and> (\<exists>f. semantic_plan P env c input = Inr (f, pe_vector p) \<and> pe_partition p = key_of P f))"
    by blast+
qed

lemma sem_known_step:
  assumes "sem_known P env evs w"
  shows "sem_known P env (evs @ [ev]) (sem_serve P env ev w)"
proof (cases ev)
  case (Sem_read rid c input now)
  obtain r w' where l: "semanticLookup P env rid c input now w = (r, w')" by force
  note fr = sem_lookup_frame [OF sem_knownD(1) [OF assms] l]
  have "sem_known P env (evs @ [ev]) w'"
  proof (rule sem_known_later [OF assms _ fr(1)])
    show "jm_get (sw_pending w rid') idx = Some p \<or> (\<exists>f. planned P env (evs @ [ev]) rid' idx f (pe_vector p) \<and> pe_partition p = key_of P f)"
      if "jm_get (sw_pending w' rid') idx = Some p" for rid' idx p
      using fr(3) [OF that] Sem_read unfolding planned_def by auto
  qed (use fr(2) in auto)
  with Sem_read l show ?thesis by simp
next
  case (Sem_write rid logs scopes now)
  show ?thesis
  proof (cases "semantic_write P logs scopes")
    case None
    with Sem_write sem_known_more [OF assms] show ?thesis by simp
  next
    case (Some ip)
    obtain idx parsed where wr: "semantic_write P logs scopes = Some (idx, parsed)" using Some by (cases ip) auto
    show ?thesis
    proof (cases "jm_get (sw_pending w rid) idx")
      case None
      with Sem_write wr sem_known_more [OF assms] show ?thesis by (simp add: semanticStore_def)
    next
      case (Some p)
      from sem_knownD(2) [OF assms Some] obtain f where f: "planned P env evs rid idx f (pe_vector p)" "pe_partition p = key_of P f" by blast
      obtain ok s where i: "ss_insert (pe_partition p) (pe_vector p) (sp_stringify P parsed) (pe_expiresAt p) now (sw_store w) = (ok, s)" by force
      have "stored_by P env (evs @ [ev]) f (pe_vector p) parsed"
        unfolding stored_by_def using planned_mono [OF f(1), of "evs @ [ev]"] semantic_write_back [OF wr] Sem_write by fastforce
      then have new: "\<exists>f parsed'. stored_by P env (evs @ [ev]) f v parsed' \<and> q = key_of P f \<and> b = sp_stringify P parsed'"
        if "(q, v, b, t) = (pe_partition p, pe_vector p, sp_stringify P parsed, pe_expiresAt p)" for q v b t
        using that f(2) by auto
      have "sem_known P env (evs @ [ev]) (w\<lparr>sw_store := s\<rparr>)"
      proof (rule sem_known_later [OF assms])
        show "ss_inv (sw_store (w\<lparr>sw_store := s\<rparr>))" using sem.insert_inv [OF sem_knownD(1) [OF assms]] i by (metis sem_world.select_convs(1) sem_world.surjective sem_world.update_convs(1) snd_conv)
        fix q v b t assume "ss_holds (sw_store (w\<lparr>sw_store := s\<rparr>)) q v b t"
        then have "ss_holds (snd (ss_insert (pe_partition p) (pe_vector p) (sp_stringify P parsed) (pe_expiresAt p) now (sw_store w))) q v b t" using i by simp
        from sem.insert_keeps [OF sem_knownD(1) [OF assms] this] new
        show "ss_holds (sw_store w) q v b t \<or> (\<exists>f parsed. stored_by P env (evs @ [ev]) f v parsed \<and> q = key_of P f \<and> b = sp_stringify P parsed)" by blast
      qed auto
      with Sem_write wr Some i show ?thesis by (simp add: semanticStore_def)
    qed
  qed
qed

lemma sem_known_run: "sem_known P env evs (sem_world_after P env evs)"
proof (induction evs rule: rev_induct)
  case Nil
  then show ?case using sem_known_start by (simp add: sem_world_after_def)
next
  case (snoc ev evs)
  from sem_known_step [OF this, of ev] show ?case by (simp add: sem_world_after_def)
qed

text \<open>A hit is a match in the partition of the call.\<close>

lemma hit_match:
  assumes "semanticLookup P env rid c input now w = (r, w')" "sr_body r = Some body"
  obtains f v sim where "semantic_plan P env c input = Inr (f, v)" "sr_similarity r = Some sim"
    "fst (ss_lookup (key_of P f) v (sf_threshold (semanticConfig env)) now (sw_store w)) = Some (body, sim)"
proof (cases "semantic_plan P env c input")
  case (Inr fv)
  obtain f v where fv: "semantic_plan P env c input = Inr (f, v)" using Inr by (cases fv) auto
  show thesis
  proof (rule that [OF fv])
    obtain m s where l: "ss_lookup (key_of P f) v (sf_threshold (semanticConfig env)) now (sw_store w) = (m, s)" by force
    show "sr_similarity r = Some (the (sr_similarity r))"
      "fst (ss_lookup (key_of P f) v (sf_threshold (semanticConfig env)) now (sw_store w)) = Some (body, the (sr_similarity r))"
      using assms fv l by (auto simp: semanticLookup_def Let_def key_of_def split: if_splits option.splits)
  qed
qed (use assms in \<open>auto simp: semanticLookup_def\<close>)

text \<open>The texts a run hashes into partitions.\<close>

fun hashed_partition :: "sem_platform \<Rightarrow> environment \<Rightarrow> sem_request \<Rightarrow> string list" where
  "hashed_partition P env (Sem_read rid c input now) =
    (case semantic_plan P env c input of Inl e \<Rightarrow> [] | Inr (f, v) \<Rightarrow> [partition_text (sp_stringify P) f])"
| "hashed_partition P env (Sem_write rid logs scopes now) = []"

lemma planned_hashed:
  "planned P env evs rid idx f v \<Longrightarrow> partition_text (sp_stringify P) f \<in> set (concat (map (hashed_partition P env) evs))"
proof -
  assume "planned P env evs rid idx f v"
  then obtain c input t where e: "Sem_read rid c input t \<in> set evs" "semantic_plan P env c input = Inr (f, v)" unfolding planned_def by blast
  then have "partition_text (sp_stringify P) f \<in> set (hashed_partition P env (Sem_read rid c input t))" by simp
  with e(1) show ?thesis by (metis (no_types) UN_I set_concat set_map image_eqI UN_iff)
qed

lemma threshold_range: "0 < sf_threshold (semanticConfig env) \<and> sf_threshold (semanticConfig env) \<le> 1"
  by (simp add: semanticConfig_def Let_def)

text \<open>Two calls of one caller: the scope of their credentials, their verified subject unless principals share, and what they ask
  for.\<close>

definition same_caller :: "sem_platform \<Rightarrow> environment \<Rightarrow> sem_context \<Rightarrow> sem_input \<Rightarrow> sem_context \<Rightarrow> sem_input \<Rightarrow> bool" where
  "same_caller P env c input c' input' \<longleftrightarrow> sm_cacheScope input' = sm_cacheScope input \<and> sm_endpoint input' = sm_endpoint input \<and>
     (sf_sharePrincipals (semanticConfig env) \<or> nullish (sx_subjectHash c') (Some []) = nullish (sx_subjectHash c) (Some [])) \<and>
     nullish (rh_useCase (parseRouteHeaders (sm_headers input'))) (Some []) = nullish (rh_useCase (parseRouteHeaders (sm_headers input))) (Some []) \<and>
     canonicalJSON (sp_stringify P) (json_or (prop_of (sm_params input') ''model'') (JStr [])) =
       canonicalJSON (sp_stringify P) (json_or (prop_of (sm_params input) ''model'') (JStr [])) \<and>
     policyVersionOf (sp_stringify P) (sp_sha256 P) (sp_policyJson P) (active_policy c') =
       policyVersionOf (sp_stringify P) (sp_sha256 P) (sp_policyJson P) (active_policy c)"

lemma plan_fields:
  "semantic_plan P env c input = Inr (f, v) \<Longrightarrow>
   \<exists>exact level e. f = partition_fields (sp_stringify P) (sp_sha256 P) (sp_policyJson P) env c input exact level e"
  by (auto simp: semantic_plan_def Let_def return_iff split: if_splits option.splits sum.splits prod.splits)

lemma same_partition_caller:
  assumes "semantic_plan P env c input = Inr (f, v)" "semantic_plan P env c' input' = Inr (g, w)" "same_partition (sp_stringify P) f g"
  shows "same_caller P env c input c' input'"
proof -
  from plan_fields [OF assms(1)] plan_fields [OF assms(2)] obtain x l e x' l' e' where
    fg: "f = partition_fields (sp_stringify P) (sp_sha256 P) (sp_policyJson P) env c input x l e"
      "g = partition_fields (sp_stringify P) (sp_sha256 P) (sp_policyJson P) env c' input' x' l' e'" by blast
  from assms(3) show ?thesis
    unfolding fg by (auto simp: same_partition_def partition_fields_def same_caller_def split: option.splits if_splits)
qed

text \<open>C32. The semantic cache crosses no partition: a hit is the complete, successful answer, no refusal, that was written
  back for an earlier call by the same caller (scope of the credentials, verified subject unless principals share, use case) with
  the same tenant, model, policy version, sensitivity level, endpoint, embedder, parameters and history, whose last message is at
  least as similar as the threshold, a number above 0 and at most 1.\<close>

theorem semantic_hit_same_partition:
  assumes "json_texts (sp_stringify P)"
    and "inj_on (sp_sha256 P) (set (concat (map (hashed_partition P env) (evs @ [Sem_read rid c input now]))))"
    and "semanticLookup P env rid c input now (sem_world_after P env evs) = (r, w')" "sr_body r = Some body"
  shows "\<exists>f v g w rid' idx logs scopes t parsed sim c' input' t'. semantic_plan P env c input = Inr (f, v) \<and> planned P env evs rid' idx g w \<and>
     Sem_read rid' c' input' t' \<in> set evs \<and> sm_index input' = idx \<and> semantic_plan P env c' input' = Inr (g, w) \<and> same_caller P env c input c' input' \<and>
     same_partition (sp_stringify P) f g \<and> Sem_write rid' logs scopes t \<in> set evs \<and> written_back logs idx parsed \<and>
     body = sp_stringify P parsed \<and> sr_similarity r = Some sim \<and> similar w v sim \<and> sf_threshold (semanticConfig env) \<le> sim \<and>
     0 < sf_threshold (semanticConfig env) \<and> sf_threshold (semanticConfig env) \<le> 1"
proof -
  let ?T = "set (concat (map (hashed_partition P env) (evs @ [Sem_read rid c input now])))"
  note known = sem_known_run [of P env evs]
  obtain f v sim where h: "semantic_plan P env c input = Inr (f, v)" "sr_similarity r = Some sim"
    "fst (ss_lookup (key_of P f) v (sf_threshold (semanticConfig env)) now (sw_store (sem_world_after P env evs))) = Some (body, sim)"
    by (rule hit_match [OF assms(3,4)])
  from sem.lookup_match [OF sem_knownD(1) [OF known] h(3)] obtain w t where m: "sf_threshold (semanticConfig env) \<le> sim"
    "ss_holds (sw_store (sem_world_after P env evs)) (key_of P f) w body t" "similar w v sim" by blast
  from sem_knownD(3) [OF known m(2)] obtain g parsed where g: "stored_by P env evs g w parsed" "key_of P f = key_of P g"
    "body = sp_stringify P parsed" by blast
  from g(1) obtain rid' idx logs scopes t' where s: "planned P env evs rid' idx g w" "Sem_write rid' logs scopes t' \<in> set evs"
    "written_back logs idx parsed" unfolding stored_by_def by blast
  have "partition_text (sp_stringify P) f \<in> ?T" using h(1) by simp
  moreover have "partition_text (sp_stringify P) g \<in> ?T" using planned_hashed [OF s(1)] by simp
  ultimately have "partition_text (sp_stringify P) f = partition_text (sp_stringify P) g"
    using assms(2) g(2) unfolding key_of_def partitionKey_def by (metis inj_onD)
  then have same: "same_partition (sp_stringify P) f g" by (rule partition_text_same [OF assms(1)])
  from s(1) obtain c' input' t2 where p: "Sem_read rid' c' input' t2 \<in> set evs" "sm_index input' = idx" "semantic_plan P env c' input' = Inr (g, w)"
    unfolding planned_def by blast
  show ?thesis
    using h(1,2) s g(3) m(1,3) threshold_range same p same_partition_caller [OF h(1) p(3) same] by blast
qed

text \<open>A run with a hit: a remote embedder, a digest of at most 64 characters.\<close>

definition sample_environment :: environment where
  "sample_environment = map_of [(''PS_SEMANTIC_CACHE_EMBEDDER'', ''http''),
     (''PS_SEMANTIC_CACHE_EMBEDDING_URL'', ''https://api.example.com/v1''), (''PS_SEMANTIC_CACHE_EMBEDDING_MODEL'', ''m'')]"

definition sample_platform :: sem_platform where
  "sample_platform = \<lparr>sp_stringify = sample_stringify, sp_sha256 = (\<lambda>t. take 64 (sample_hash t)), sp_policyJson = (\<lambda>_. JObj []),
     sp_scan = (\<lambda>_. []), sp_parse = example_parser, sp_words = (\<lambda>t. [t]), sp_remote = (\<lambda>_ _. Some [Fin 1, Fin 0]), sp_scale = (\<lambda>n x. x / n)\<rparr>"

definition sample_context :: sem_context where
  "sample_context = \<lparr>sx_gate = None, sx_routeLevel = None, sx_policy = None, sx_subjectHash = Some ''u''\<rparr>"

definition sample_input :: sem_input where
  "sample_input = \<lparr>sm_endpoint = ''chatComplete'',
     sm_params = Some (JObj [(''model'', JStr ''m''), (''messages'', JArr [JObj [(''role'', JStr ''user''), (''content'', JStr ''hi'')]])]),
     sm_headers = [(''x-ps-data-classification'', ''internal'')], sm_index = ''0'', sm_cacheScope = ''s'', sm_maxAge = None, sm_forceRefresh = False\<rparr>"

definition sample_write :: sem_request where
  "sample_write = Sem_write 0 [\<lparr>rl_mode = Some ''semantic'', rl_stream = False, rl_status = Some ''SEMANTIC MISS'',
     rl_response = Some \<lparr>cr_status = 200, cr_contentType = Some ''application/json'', cr_json = Some (JObj [(''id'', JStr ''r'')])\<rparr>,
     rl_index = ''0'', rl_body = Json_body (JObj []), rl_url = ''chatComplete'', rl_maxAge = None\<rparr>] [(''0'', ''s'')] 1"

definition sample_requests :: "sem_request list" where
  "sample_requests = [Sem_read 0 sample_context sample_input 0, sample_write]"

lemma sample_texts: "json_texts sample_stringify"
  unfolding json_texts_def
proof (intro conjI allI impI)
  show "json_strings sample_stringify" by (rule sample_strings)
  show "sample_stringify v \<noteq> []" "set (sample_stringify v) \<inter> json_marks = {}" if "is_plain v" for v
    using that by (cases v; simp add: json_marks_def)+
qed

lemma sample_config:
  "semanticConfig sample_environment = \<lparr>sf_threshold = 95 / 100, sf_ttlSeconds = 3600, sf_maxInputChars = 4000, sf_maxSensitivity = None,
     sf_allowPii = False, sf_sharePrincipals = False\<rparr>"
  by (simp add: semanticConfig_def sample_environment_def sem_num_def nonempty_def)

lemma sample_embedder:
  "\<exists>e. configuredEmbedder sample_environment = Some e \<and> \<not> eb_local e \<and> eb_url e = Some ''https://api.example.com/v1''"
  by (simp add: configuredEmbedder_def httpEmbedder_def sample_environment_def nonempty_def trim_def js_space_def to_lower_def lower_char_def)

lemma sample_url: "isSafeUpstreamURL example_parser None ''https://api.example.com/v1''"
  by (simp add: isSafeUpstreamURL_def isSafeURLForTrustedHosts_def safe_host_def trusted_host_def unbracket_def
      TRUSTED_CUSTOM_HOSTS_def BLOCKED_HOSTS_def example_parser_def numeric_defs string_defs)

lemma sample_plan: "\<exists>f. semantic_plan sample_platform sample_environment sample_context sample_input = Inr (f, [1, 0])"
proof -
  obtain e where e: "configuredEmbedder sample_environment = Some e" "\<not> eb_local e" "eb_url e = Some ''https://api.example.com/v1''"
    using sample_embedder by blast
  have split: "\<exists>x. splitPrompt (sm_params sample_input) 4000 = Inr (''hi'', x)"
    by (simp add: splitPrompt_def sample_input_def textOf_def trim_def js_space_def)
  have sens: "sensitivityAllows (sp_scan sample_platform) sample_context (sm_params sample_input) (sm_headers sample_input)
      (semanticConfig sample_environment) = Inr ''internal''"
    by (simp add: sensitivityAllows_def sample_platform_def call_level_def sample_context_def sample_input_def active_policy_def parseRouteHeaders_def
        header_def nonempty_def to_lower_def lower_char_def policy_levels_def DEFAULT_LEVELS_def index_of_def max_rank_def sample_config)
  have env: "sample_environment ''TRUSTED_CUSTOM_HOSTS'' = None" by (simp add: sample_environment_def)
  have safe: "safe_embedder sample_platform sample_environment e"
    using e sample_url env by (simp add: safe_embedder_def sample_platform_def)
  have vec: "Option.bind (embed_text (sp_words sample_platform) (sp_remote sample_platform) e ''hi'') (normalize (sp_scale sample_platform)) = Some [1, 0]"
    using e(2) by (simp add: embed_text_def sample_platform_def normalize_def)
  have gate: "embedderAllowed e (sx_gate sample_context)" by (simp add: embedderAllowed_def sample_context_def)
  have start: "sm_cacheScope sample_input \<noteq> []" "sm_endpoint sample_input \<in> set SEMANTIC_ENDPOINTS"
    "prop_of (sm_params sample_input) ''stream'' \<noteq> Some (JBool True)" by (simp_all add: sample_input_def SEMANTIC_ENDPOINTS_def)
  have cfg: "sf_maxInputChars (semanticConfig sample_environment) = 4000" by (simp add: sample_config)
  from split start e(1) sens gate safe vec cfg show ?thesis by (auto simp: semantic_plan_def Let_def)
qed

lemma sample_platform_stringify: "sp_stringify sample_platform = sample_stringify"
  by (simp add: sample_platform_def)

lemma sample_miss:
  assumes "semantic_plan sample_platform sample_environment sample_context sample_input = Inr (f, [1, 0])"
  shows "sem_world_after sample_platform sample_environment [Sem_read 0 sample_context sample_input 0] =
    remember 0 ''0'' \<lparr>pe_partition = key_of sample_platform f, pe_vector = [1, 0], pe_expiresAt = 3600000\<rparr>
      \<lparr>sw_store = getStore sample_environment, sw_pending = (\<lambda>_. [])\<rparr>"
  using assms
  by (simp add: sem_world_after_def semanticLookup_def Let_def ss_lookup_def getStore_def new_SemanticStore_def sample_config sem_ttl_def key_of_def)
     (simp add: sample_input_def)

lemma sample_written: "semantic_write sample_platform [\<lparr>rl_mode = Some ''semantic'', rl_stream = False, rl_status = Some ''SEMANTIC MISS'',
     rl_response = Some \<lparr>cr_status = 200, cr_contentType = Some ''application/json'', cr_json = Some (JObj [(''id'', JStr ''r'')])\<rparr>,
     rl_index = ''0'', rl_body = Json_body (JObj []), rl_url = ''chatComplete'', rl_maxAge = None\<rparr>] [(''0'', ''s'')] =
   Some (''0'', JObj [(''id'', JStr ''r'')])"
  by (simp add: semantic_write_def memoryCache_def Let_def isCacheableResponse_def isCompleteResponseBody_def isRefusalResponse_def sublist_code)

lemma sample_store:
  assumes "semantic_plan sample_platform sample_environment sample_context sample_input = Inr (f, [1, 0])"
  shows "ss_holds (sw_store (sem_world_after sample_platform sample_environment sample_requests)) (key_of sample_platform f) [1, 0] ''{}'' 3600000"
proof -
  let ?k = "key_of sample_platform f"
  have k: "length ?k \<le> 64" by (simp add: key_of_def partitionKey_def sample_platform_def)
  have w: "sem_world_after sample_platform sample_environment sample_requests =
      snd (semanticStore sample_platform 0 ''0'' (JObj [(''id'', JStr ''r'')]) 1
        (sem_world_after sample_platform sample_environment [Sem_read 0 sample_context sample_input 0]))"
    using sample_written by (simp add: sem_world_after_def sample_requests_def sample_write_def)
  have s: "ss_inv (getStore sample_environment)" by (simp add: getStore_def new_inv)
  have limit: "ss_maxBytes (getStore sample_environment) = 67108864"
    by (simp add: getStore_def new_SemanticStore_def sample_environment_def sem_num_def)
  have "entry_bytes ?k [1, 0] ''{}'' \<le> 1000" using k by (simp add: entry_bytes_def ENTRY_OVERHEAD_BYTES_def)
  then have "(of_nat (entry_bytes ?k [1, 0] ''{}'') :: rat) \<le> of_nat 1000" by (simp only: of_nat_le_iff)
  then have "\<not> (ss_maxBytes (getStore sample_environment) < of_nat (entry_bytes ?k [1, 0] ''{}'') \<or> 3600000 \<le> (1 :: rat))"
    unfolding limit by simp
  from insert_stores(2) [OF s this]
  have "ss_holds (snd (ss_insert ?k [1, 0] ''{}'' 3600000 1 (getStore sample_environment))) ?k [1, 0] ''{}'' 3600000" .
  then show ?thesis
    unfolding w sample_miss [OF assms] by (simp add: semanticStore_def remember_def sample_platform_stringify split_beta)
qed

lemma sample_semantic_hit:
  obtains body where "sr_body (fst (semanticLookup sample_platform sample_environment 1 sample_context sample_input 2
      (sem_world_after sample_platform sample_environment sample_requests))) = Some body"
proof -
  let ?w = "sem_world_after sample_platform sample_environment sample_requests"
  obtain f where f: "semantic_plan sample_platform sample_environment sample_context sample_input = Inr (f, [1, 0])" using sample_plan by blast
  have inv: "ss_inv (sw_store ?w)" by (rule sem_knownD(1) [OF sem_known_run])
  then have wf: "ss_wf (sw_store ?w)" by (simp add: ss_inv_def)
  obtain m s where l: "ss_lookup (key_of sample_platform f) [1, 0] (95 / 100) 2 (sw_store ?w) = (m, s)" by force
  obtain e where "live_match (sw_store ?w) 2 [1, 0] (partition_ids (sw_store ?w) (key_of sample_platform f)) e" "se_vector e = [1, 0]"
    using holds_live_match [OF wf sample_store [OF f], of 2 "[1, 0]"] by auto
  moreover have "95 / 100 \<le> dot [1, 0] [1, 0]" by (simp add: dot_def)
  ultimately obtain b sim where "m = Some (b, sim)" using lookup_spec(5) [OF inv l] by metis
  with that f l show thesis by (simp add: semanticLookup_def Let_def sample_config key_of_def sample_input_def)
qed

theorem semantic_hit_same_partition_witness:
  "\<exists>body f v g w rid' idx logs scopes t parsed sim c' input' t'.
     sr_body (fst (semanticLookup sample_platform sample_environment 1 sample_context sample_input 2
       (sem_world_after sample_platform sample_environment sample_requests))) = Some body \<and>
     semantic_plan sample_platform sample_environment sample_context sample_input = Inr (f, v) \<and>
     planned sample_platform sample_environment sample_requests rid' idx g w \<and>
     Sem_read rid' c' input' t' \<in> set sample_requests \<and> same_caller sample_platform sample_environment sample_context sample_input c' input' \<and>
     same_partition sample_stringify f g \<and> Sem_write rid' logs scopes t \<in> set sample_requests \<and> written_back logs idx parsed \<and>
     body = sample_stringify parsed \<and> similar w v sim \<and> 95 / 100 \<le> sim"
proof -
  obtain body where b: "sr_body (fst (semanticLookup sample_platform sample_environment 1 sample_context sample_input 2
      (sem_world_after sample_platform sample_environment sample_requests))) = Some body" by (rule sample_semantic_hit)
  obtain f where f: "semantic_plan sample_platform sample_environment sample_context sample_input = Inr (f, [1, 0])" using sample_plan by blast
  have "inj_on (sp_sha256 sample_platform) (set (concat (map (hashed_partition sample_platform sample_environment)
      (sample_requests @ [Sem_read 1 sample_context sample_input 2]))))"
    by (rule inj_on_subset [of _ "{partition_text (sp_stringify sample_platform) f}"])
       (auto simp: f sample_requests_def sample_write_def)
  moreover have "json_texts (sp_stringify sample_platform)" by (simp add: sample_platform_stringify sample_texts)
  ultimately show ?thesis
    using semantic_hit_same_partition [OF _ _ prod.collapse [symmetric] b] b
    unfolding sample_platform_stringify sample_config semantic_config.select_convs by blast
qed

end
