(* ===== verification/Js_Regex.thy ===== *)
theory Js_Regex
  imports Prelude
begin

text \<open>
  The regular expressions of the language as far as the scanners of \<open>src/middlewares/router/pii.ts\<close> use them: classes,
  sequence, alternative, greedy and lazy repetition, groups, and assertions around a position. A match is found by
  backtracking: \<open>re_paths\<close> lists the ways to match from a position in the order they are tried, and the first counts.
\<close>

datatype re =
    Eps
  | Cls "char \<Rightarrow> bool"
  | Sequ re re
  | Alte re re
  | Rept bool nat "nat option" re
  | Grp nat re
  | Ahead bool re
  | Behind bool "char \<Rightarrow> bool"

text \<open>A state: the position, and what the groups took.\<close>

type_synonym re_state = "nat \<times> (nat \<times> string) list"

text \<open>At least \<open>lo\<close> and at most \<open>n\<close> rounds; a round beyond the minimum must take something.\<close>

fun rounds :: "(re_state \<Rightarrow> re_state list) \<Rightarrow> bool \<Rightarrow> nat \<Rightarrow> nat \<Rightarrow> re_state \<Rightarrow> re_state list" where
  "rounds f greedy lo 0 st = (if lo = 0 then [st] else [])"
| "rounds f greedy lo (Suc n) st =
    (let more = concat (map (rounds f greedy (lo - 1) n) (filter (\<lambda>st'. 0 < lo \<or> fst st' \<noteq> fst st) (f st)))
     in if 0 < lo then more else if greedy then more @ [st] else st # more)"

primrec re_paths :: "re \<Rightarrow> string \<Rightarrow> re_state \<Rightarrow> re_state list" where
  "re_paths Eps s st = [st]"
| "re_paths (Cls p) s st = (if fst st < length s \<and> p (s ! fst st) then [(Suc (fst st), snd st)] else [])"
| "re_paths (Sequ a b) s st = concat (map (re_paths b s) (re_paths a s st))"
| "re_paths (Alte a b) s st = re_paths a s st @ re_paths b s st"
| "re_paths (Rept greedy lo hi r) s st = rounds (re_paths r s) greedy lo (case hi of Some n \<Rightarrow> n | None \<Rightarrow> lo + length s) st"
| "re_paths (Grp k r) s st = map (\<lambda>(i, gs). (i, (k, take (i - fst st) (drop (fst st) s)) # gs)) (re_paths r s st)"
| "re_paths (Ahead yes r) s st = (if (re_paths r s st \<noteq> []) = yes then [st] else [])"
| "re_paths (Behind yes p) s st = (if (0 < fst st \<and> p (s ! (fst st - 1))) = yes then [st] else [])"

lemma rounds_grow:
  assumes "\<And>st st'. st' \<in> set (f st) \<Longrightarrow> fst st \<le> fst st' \<and> (fst st \<le> m \<longrightarrow> fst st' \<le> m)" "st' \<in> set (rounds f greedy lo n st)"
  shows "fst st \<le> fst st' \<and> (fst st \<le> m \<longrightarrow> fst st' \<le> m)"
  using assms(2)
proof (induction n arbitrary: lo st)
  case 0
  then show ?case by (simp split: if_splits)
next
  case (Suc n)
  then consider "st' = st" | st1 where "st1 \<in> set (f st)" "st' \<in> set (rounds f greedy (lo - 1) n st1)"
    by (auto simp: Let_def split: if_splits)
  then show ?case
  proof cases
    case 2
    from assms(1) [OF 2(1)] Suc.IH [OF 2(2)] show ?thesis by auto
  qed simp
qed

lemma re_paths_grow: "st' \<in> set (re_paths r s st) \<Longrightarrow> fst st \<le> fst st' \<and> (fst st \<le> length s \<longrightarrow> fst st' \<le> length s)"
proof (induction r arbitrary: st st')
  case (Sequ a b)
  then obtain st1 where "st1 \<in> set (re_paths a s st)" "st' \<in> set (re_paths b s st1)" by auto
  with Sequ.IH(1) [of st1 st] Sequ.IH(2) [of st' st1] show ?case by auto
next
  case (Rept greedy lo hi r)
  show ?case by (rule rounds_grow [where f = "re_paths r s"]) (use Rept in auto)
next
  case (Grp k r)
  then obtain i gs where "(i, gs) \<in> set (re_paths r s st)" "fst st' = i" by auto
  with Grp.IH show ?case by fastforce
qed (auto split: if_splits)

record re_match =
  rm_start :: nat
  rm_end :: nat
  rm_text :: string
  rm_groups :: "(nat \<times> string) list"

definition group_of :: "re_match \<Rightarrow> nat \<Rightarrow> string" where
  "group_of m k = (case map_of (rm_groups m) k of Some t \<Rightarrow> t | None \<Rightarrow> [])"

text \<open>The first position from \<open>i\<close> on where the expression matches.\<close>

definition match_at :: "re \<Rightarrow> string \<Rightarrow> nat \<Rightarrow> re_match option" where
  "match_at r s i = (case re_paths r s (i, []) of
     [] \<Rightarrow> None
   | (j, gs) # _ \<Rightarrow> Some \<lparr>rm_start = i, rm_end = j, rm_text = take (j - i) (drop i s), rm_groups = gs\<rparr>)"

fun first_match :: "re \<Rightarrow> string \<Rightarrow> nat list \<Rightarrow> re_match option" where
  "first_match r s [] = None"
| "first_match r s (i # is') = (case match_at r s i of Some m \<Rightarrow> Some m | None \<Rightarrow> first_match r s is')"

lemma match_at_bounds:
  assumes "match_at r s i = Some m" "i \<le> length s"
  shows "rm_start m = i \<and> i \<le> rm_end m \<and> rm_end m \<le> length s \<and> rm_text m = take (rm_end m - i) (drop i s)"
proof -
  from assms(1) obtain j gs ps where "re_paths r s (i, []) = (j, gs) # ps" "m = \<lparr>rm_start = i, rm_end = j, rm_text = take (j - i) (drop i s), rm_groups = gs\<rparr>"
    by (auto simp: match_at_def split: list.splits prod.splits)
  with re_paths_grow [of "(j, gs)" r s "(i, [])"] assms(2) show ?thesis by simp
qed

lemma first_match_at: "first_match r s is' = Some m \<Longrightarrow> \<exists>i \<in> set is'. match_at r s i = Some m"
  by (induction is') (auto split: option.splits)

text \<open>\<open>while ((m = re.exec(s)) !== null)\<close> of a global expression, with the step over an empty match.\<close>

function all_matches :: "re \<Rightarrow> string \<Rightarrow> nat \<Rightarrow> re_match list" where
  "all_matches r s i =
    (case first_match r s [i..<Suc (length s)] of
       None \<Rightarrow> []
     | Some m \<Rightarrow> m # all_matches r s (if rm_end m = rm_start m then Suc (rm_end m) else rm_end m))"
  by pat_completeness auto

termination
proof (relation "measure (\<lambda>(r, s, i). Suc (length s) - i)")
  fix r s i m
  assume "first_match r s [i..<Suc (length s)] = Some m"
  then obtain j where j: "i \<le> j" "j \<le> length s" "match_at r s j = Some m" using first_match_at by fastforce
  with match_at_bounds [OF j(3)] show "((r, s, if rm_end m = rm_start m then Suc (rm_end m) else rm_end m), r, s, i) \<in> measure (\<lambda>(r, s, i). Suc (length s) - i)"
    by auto
qed simp

declare all_matches.simps [simp del]

abbreviation re_matches :: "re \<Rightarrow> string \<Rightarrow> re_match list" where
  "re_matches r s \<equiv> all_matches r s 0"

definition regex_test :: "re \<Rightarrow> string \<Rightarrow> bool" where
  "regex_test r s \<longleftrightarrow> first_match r s [0..<Suc (length s)] \<noteq> None"

lemma regex_test_matches: "regex_test r s \<longleftrightarrow> re_matches r s \<noteq> []"
  by (simp add: regex_test_def all_matches.simps [of r s 0] split: option.splits)

text \<open>The matches lie in the text, one after the other.\<close>

lemma all_matches_bounds:
  "i \<le> Suc (length s) \<Longrightarrow> m \<in> set (all_matches r s i) \<Longrightarrow>
    i \<le> rm_start m \<and> rm_start m \<le> rm_end m \<and> rm_end m \<le> length s \<and>
    match_at r s (rm_start m) = Some m \<and> rm_text m = take (rm_end m - rm_start m) (drop (rm_start m) s)"
proof (induction r s i rule: all_matches.induct)
  case (1 r s i)
  show ?case
  proof (cases "first_match r s [i..<Suc (length s)]")
    case None
    with 1 show ?thesis by (simp add: all_matches.simps [of r s i])
  next
    case (Some n)
    obtain j where j: "i \<le> j" "j \<le> length s" "match_at r s j = Some n" using first_match_at [OF Some] by auto
    note b = match_at_bounds [OF j(3,2)]
    from 1(3) Some consider "m = n" | "m \<in> set (all_matches r s (if rm_end n = rm_start n then Suc (rm_end n) else rm_end n))"
      by (auto simp: all_matches.simps [of r s i])
    then show ?thesis
    proof cases
      case 1
      with b j show ?thesis by simp
    next
      case 2
      have "(if rm_end n = rm_start n then Suc (rm_end n) else rm_end n) \<le> Suc (length s)" using b by auto
      from "1.IH" [OF Some this 2] have m: "rm_end n \<le> rm_start m" "rm_start m \<le> rm_end m" "rm_end m \<le> length s"
        "match_at r s (rm_start m) = Some m" "rm_text m = take (rm_end m - rm_start m) (drop (rm_start m) s)"
        by (auto split: if_splits)
      from b j have "i \<le> rm_end n" by linarith
      with m show ?thesis by simp
    qed
  qed
qed

lemma matches_sorted: "i \<le> Suc (length s) \<Longrightarrow> sorted_wrt (\<lambda>m n. rm_end m \<le> rm_start n) (all_matches r s i)"
proof (induction r s i rule: all_matches.induct)
  case (1 r s i)
  show ?case
  proof (cases "first_match r s [i..<Suc (length s)]")
    case None
    then show ?thesis by (simp add: all_matches.simps [of r s i])
  next
    case (Some n)
    obtain j where j: "i \<le> j" "j \<le> length s" "match_at r s j = Some n" using first_match_at [OF Some] by auto
    note b = match_at_bounds [OF j(3,2)]
    let ?k = "if rm_end n = rm_start n then Suc (rm_end n) else rm_end n"
    have k: "?k \<le> Suc (length s)" using b by auto
    have "rm_end n \<le> rm_start m" if "m \<in> set (all_matches r s ?k)" for m
      using all_matches_bounds [OF k that] by (auto split: if_splits)
    with "1.IH" [OF Some k] Some show ?thesis by (simp add: all_matches.simps [of r s i])
  qed
qed

text \<open>The least length of a match.\<close>

primrec min_length :: "re \<Rightarrow> nat" where
  "min_length Eps = 0"
| "min_length (Cls p) = 1"
| "min_length (Sequ a b) = min_length a + min_length b"
| "min_length (Alte a b) = min (min_length a) (min_length b)"
| "min_length (Rept greedy lo hi r) = lo * min_length r"
| "min_length (Grp k r) = min_length r"
| "min_length (Ahead yes r) = 0"
| "min_length (Behind yes p) = 0"

lemma rounds_length:
  assumes "\<And>st st'. st' \<in> set (f st) \<Longrightarrow> fst st + k \<le> fst st'" "st' \<in> set (rounds f greedy lo n st)"
  shows "fst st + lo * k \<le> fst st'"
  using assms(2)
proof (induction n arbitrary: lo st)
  case 0
  then show ?case by (simp split: if_splits)
next
  case (Suc n)
  then consider "st' = st" "lo = 0" | st1 where "st1 \<in> set (f st)" "st' \<in> set (rounds f greedy (lo - 1) n st1)"
    by (auto simp: Let_def split: if_splits)
  then show ?case
  proof cases
    case 2
    from assms(1) [OF 2(1)] Suc.IH [OF 2(2)] show ?thesis by (cases lo) auto
  qed simp
qed

lemma re_paths_length: "st' \<in> set (re_paths r s st) \<Longrightarrow> fst st + min_length r \<le> fst st'"
proof (induction r arbitrary: st st')
  case (Sequ a b)
  then obtain st1 where "st1 \<in> set (re_paths a s st)" "st' \<in> set (re_paths b s st1)" by auto
  with Sequ.IH(1) [of st1 st] Sequ.IH(2) [of st' st1] show ?case by auto
next
  case (Alte a b)
  then show ?case by fastforce
next
  case (Rept greedy lo hi r)
  show ?case unfolding min_length.simps by (rule rounds_length [where f = "re_paths r s"]) (use Rept in auto)
next
  case (Grp k r)
  then obtain i gs where "(i, gs) \<in> set (re_paths r s st)" "fst st' = i" by auto
  with Grp.IH show ?case by fastforce
qed (auto split: if_splits)

lemma match_at_length:
  assumes "match_at r s i = Some m"
  shows "i + min_length r \<le> rm_end m"
proof -
  from assms obtain j gs ps where "re_paths r s (i, []) = (j, gs) # ps" "rm_end m = j"
    by (auto simp: match_at_def split: list.splits prod.splits)
  with re_paths_length [of "(j, gs)" r s "(i, [])"] show ?thesis by simp
qed

lemma matches_bounds:
  assumes "m \<in> set (re_matches r s)"
  shows "rm_start m \<le> rm_end m" "rm_end m \<le> length s" "match_at r s (rm_start m) = Some m"
    "rm_text m = take (rm_end m - rm_start m) (drop (rm_start m) s)" "length (rm_text m) = rm_end m - rm_start m"
    "rm_start m + min_length r \<le> rm_end m"
  using all_matches_bounds [OF _ assms] match_at_length by auto

subsection \<open>Classes\<close>

definition in_range :: "char \<Rightarrow> char \<Rightarrow> char \<Rightarrow> bool" where
  "in_range a b c \<longleftrightarrow> (of_char a :: nat) \<le> of_char c \<and> (of_char c :: nat) \<le> of_char b"

text \<open>\<open>\p{L}\<close> and \<open>\p{N}\<close> below 256.\<close>

definition is_letter :: "char \<Rightarrow> bool" where
  "is_letter c \<longleftrightarrow> (let n = of_char c :: nat in (65 \<le> n \<and> n \<le> 90) \<or> (97 \<le> n \<and> n \<le> 122) \<or> n \<in> {170, 181, 186} \<or>
     (192 \<le> n \<and> n \<noteq> 215 \<and> n \<noteq> 247))"

definition is_number :: "char \<Rightarrow> bool" where
  "is_number c \<longleftrightarrow> is_digit c \<or> (of_char c :: nat) \<in> {178, 179, 185, 188, 189, 190}"

definition regex_word :: "char \<Rightarrow> bool" where
  "regex_word c \<longleftrightarrow> is_letter c \<or> is_number c \<or> c = CHR ''_''"

definition one_of :: "string \<Rightarrow> char \<Rightarrow> bool" where
  "one_of cs c \<longleftrightarrow> c \<in> set cs"

text \<open>Shorthands for the expressions: a sequence, a literal, \<open>r?\<close>, \<open>r{m,n}\<close>, \<open>r+\<close>.\<close>

fun Sequs :: "re list \<Rightarrow> re" where
  "Sequs [] = Eps"
| "Sequs [r] = r"
| "Sequs (r # rs) = Sequ r (Sequs rs)"

definition Lit :: "char \<Rightarrow> re" where
  "Lit c = Cls (\<lambda>x. x = c)"

abbreviation Opt :: "re \<Rightarrow> re" where "Opt r \<equiv> Rept True 0 (Some 1) r"
abbreviation Times :: "nat \<Rightarrow> nat \<Rightarrow> re \<Rightarrow> re" where "Times m n r \<equiv> Rept True m (Some n) r"
abbreviation Plus1 :: "re \<Rightarrow> re" where "Plus1 r \<equiv> Rept True 1 None r"
abbreviation Dig :: re where "Dig \<equiv> Cls is_digit"

end
