(* ===== verification/Pii_Checks.thy ===== *)
theory Pii_Checks
  imports Js_Regex
begin

text \<open>
  The validators of the PII scanner (\<open>src/middlewares/router/pii.ts\<close>): card numbers (Luhn), IBAN (remainder 97), phone
  shapes, and the Nordic national numbers with their dates and check digits.
\<close>

named_theorems pii_simps \<open>evaluation of the checks\<close>

subsection \<open>Luhn\<close>

definition luhn_double :: "nat \<Rightarrow> nat" where
  "luhn_double d = (if 9 < 2 * d then 2 * d - 9 else 2 * d)"

text \<open>\<open>luhnRangeOk\<close> walks the characters from the end and skips those that are no digit.\<close>

fun luhn_loop :: "bool \<Rightarrow> nat \<Rightarrow> string \<Rightarrow> nat" where
  "luhn_loop dbl acc [] = acc"
| "luhn_loop dbl acc (c # cs) =
    (if \<not> is_digit c then luhn_loop dbl acc cs
     else luhn_loop (\<not> dbl) (acc + (if dbl then luhn_double (digit_val c) else digit_val c)) cs)"

definition luhnRangeOk :: "string \<Rightarrow> nat \<Rightarrow> nat \<Rightarrow> bool" where
  "luhnRangeOk s from to \<longleftrightarrow> luhn_loop False 0 (rev (take (to - from) (drop from s))) mod 10 = 0"

definition luhnOk :: "string \<Rightarrow> bool" where
  "luhnOk digits \<longleftrightarrow>
    (\<Sum>(i, c) \<leftarrow> enumerate 0 (rev digits). if odd i then luhn_double (digit_val c) else digit_val c) mod 10 = 0"

lemma luhn_loop_sum:
  "list_all is_digit ds \<Longrightarrow> luhn_loop (odd n) acc ds =
    acc + (\<Sum>(i, c) \<leftarrow> enumerate n ds. if odd i then luhn_double (digit_val c) else digit_val c)"
proof (induction ds arbitrary: n acc)
  case (Cons c ds)
  have "luhn_loop (odd (Suc n)) (acc + k) ds =
      acc + k + (\<Sum>(i, c) \<leftarrow> enumerate (Suc n) ds. if odd i then luhn_double (digit_val c) else digit_val c)" for k
    by (rule Cons.IH) (use Cons.prems in simp)
  with Cons.prems show ?case by simp
qed simp

lemma luhn_loop_digits: "luhn_loop dbl acc s = luhn_loop dbl acc (filter is_digit s)"
  by (induction dbl acc s rule: luhn_loop.induct) auto

text \<open>The two forms of the check agree: separators do not matter.\<close>

lemma luhn_forms_agree: "luhnRangeOk s from to \<longleftrightarrow> luhnOk (filter is_digit (take (to - from) (drop from s)))"
proof -
  have "list_all is_digit (rev (filter is_digit xs))" for xs by (simp add: list_all_iff)
  from luhn_loop_sum [OF this, of 0 0] show ?thesis
    using luhn_loop_digits [of False 0 "rev (take (to - from) (drop from s))"]
    by (simp add: luhnRangeOk_def luhnOk_def rev_filter)
qed

subsection \<open>IBAN\<close>

definition mod97 :: "nat \<Rightarrow> char \<Rightarrow> nat" where
  "mod97 rest c = (let v = radix_val c in (rest * (if v < 10 then 10 else 100) + v) mod 97)"

text \<open>\<open>body[k]\<close> of the code: the remainder of the characters from the fifth on, \<open>k\<close> of them.\<close>

definition iban_body :: "string \<Rightarrow> nat \<Rightarrow> nat" where
  "iban_body cmp k = foldl mod97 0 (take k (drop 4 cmp))"

text \<open>The loop over the groups from the last to the first, with the lengths without and with spaces.\<close>

fun iban_loop :: "string \<Rightarrow> string list \<Rightarrow> nat \<Rightarrow> nat \<Rightarrow> nat option" where
  "iban_loop cmp [] nCompact nSpaced = None"
| "iban_loop cmp (g # gs) nCompact nSpaced =
    (if 15 \<le> nCompact \<and> nCompact \<le> 34 \<and> foldl mod97 (iban_body cmp (nCompact - 4)) (take 4 cmp) = 1 then Some nSpaced
     else iban_loop cmp gs (nCompact - length g) (nSpaced - (length g + 1)))"

definition ibanValidLength :: "string \<Rightarrow> nat option" where
  "ibanValidLength m = (let groups = split_on (CHR '' '') m; cmp = concat groups
     in iban_loop cmp (rev groups) (length cmp) (length m))"

definition maskIban :: "string \<Rightarrow> string" where
  "maskIban m = (case ibanValidLength m of None \<Rightarrow> m | Some n \<Rightarrow> replicate n (CHR '' '') @ drop n m)"

text \<open>The rule: 15 to 34 characters, and the number that the rest and then the first four stand for is 1 modulo 97.\<close>

fun iban_number :: "nat \<Rightarrow> string \<Rightarrow> nat" where
  "iban_number n [] = n"
| "iban_number n (c # cs) = iban_number (n * (if radix_val c < 10 then 10 else 100) + radix_val c) cs"

definition iban_rule :: "string \<Rightarrow> bool" where
  "iban_rule cmp \<longleftrightarrow> 15 \<le> length cmp \<and> length cmp \<le> 34 \<and> iban_number 0 (drop 4 cmp @ take 4 cmp) mod 97 = 1"

lemma iban_number_mod: "foldl mod97 (n mod 97) cs = iban_number n cs mod 97"
proof (induction cs arbitrary: n)
  case (Cons c cs)
  have "mod97 (n mod 97) c = (n * (if radix_val c < 10 then 10 else 100) + radix_val c) mod 97"
    by (simp add: mod97_def Let_def mod_add_left_eq mod_mult_left_eq)
      (metis mod_add_left_eq mod_mult_left_eq)
  with Cons show ?case by simp
qed simp

lemma iban_number_append: "iban_number n (xs @ ys) = iban_number (iban_number n xs) ys"
  by (induction n xs rule: iban_number.induct) auto

lemma iban_check:
  assumes "15 \<le> n" "n \<le> length cmp"
  shows "foldl mod97 (iban_body cmp (n - 4)) (take 4 cmp) = 1 \<longleftrightarrow> iban_number 0 (drop 4 (take n cmp) @ take 4 (take n cmp)) mod 97 = 1"
proof -
  have e: "take (n - 4) (drop 4 cmp) = drop 4 (take n cmp)" "take 4 (take n cmp) = take 4 cmp"
    using assms by (simp_all add: drop_take min_absorb1)
  have "iban_body cmp (n - 4) = iban_number 0 (drop 4 (take n cmp)) mod 97"
    using iban_number_mod [of 0] by (simp add: iban_body_def e)
  then show ?thesis unfolding e(2) by (simp add: iban_number_append iban_number_mod)
qed

text \<open>A prefix that ends with a group, as it is compared with the rule.\<close>

lemma length_join_space: "gs \<noteq> [] \<Longrightarrow> length (join '' '' gs) = length (concat gs) + length gs - 1"
  by (induction "'' ''" gs rule: join.induct) auto

lemma join_split_on: "join [c] (split_on c s) = s"
proof (induction c s rule: split_on.induct)
  case (2 c x xs)
  show ?case
  proof (cases "split_on c xs")
    case (Cons p ps)
    with 2 show ?thesis by (cases ps) (auto split: if_splits)
  qed simp
qed simp

lemma iban_loop_spec:
  assumes "cmp = concat (gs @ hs)" "gs \<noteq> [] \<longrightarrow> n = length (join '' '' gs)"
  shows "(case iban_loop cmp (rev gs) (length (concat gs)) n of
      Some k \<Rightarrow> \<exists>ps qs. gs = ps @ qs \<and> ps \<noteq> [] \<and> k = length (join '' '' ps) \<and> iban_rule (concat ps)
    | None \<Rightarrow> \<nexists>ps qs. gs = ps @ qs \<and> ps \<noteq> [] \<and> iban_rule (concat ps))"
  using assms
proof (induction gs arbitrary: hs n rule: rev_induct)
  case (snoc g gs)
  let ?n = "length (concat (gs @ [g]))"
  have tk: "take ?n cmp = concat (gs @ [g])" "?n \<le> length cmp" using snoc.prems(1) by simp_all
  have rule: "(15 \<le> ?n \<and> ?n \<le> 34 \<and> foldl mod97 (iban_body cmp (?n - 4)) (take 4 cmp) = 1) \<longleftrightarrow> iban_rule (concat (gs @ [g]))"
  proof -
    have "foldl mod97 (iban_body cmp (?n - 4)) (take 4 cmp) = 1 \<longleftrightarrow>
        iban_number 0 (drop 4 (concat (gs @ [g])) @ take 4 (concat (gs @ [g]))) mod 97 = 1" if "15 \<le> ?n"
      using iban_check [OF that tk(2)] by (simp only: tk(1))
    then show ?thesis unfolding iban_rule_def by blast
  qed
  show ?case
  proof (cases "iban_rule (concat (gs @ [g]))")
    case True
    with rule snoc.prems(2) have l: "iban_loop cmp (rev (gs @ [g])) ?n n = Some (length (join '' '' (gs @ [g])))" by simp
    show ?thesis unfolding l option.case
      using True by (intro exI [of _ "gs @ [g]"] exI [of _ "[]"]) simp
  next
    case False
    have len: "gs \<noteq> [] \<longrightarrow> n - (length g + 1) = length (join '' '' gs)"
      using snoc.prems(2) length_join_space [of "gs @ [g]"] length_join_space [of gs] by (auto simp: Suc_le_eq)
    from False rule have l: "iban_loop cmp (rev (gs @ [g])) ?n n = iban_loop cmp (rev gs) (length (concat gs)) (n - (length g + 1))" by auto
    have "cmp = concat (gs @ g # hs)" using snoc.prems(1) by simp
    note ih = snoc.IH [OF this len]
    show ?thesis
    proof (cases "iban_loop cmp (rev gs) (length (concat gs)) (n - (length g + 1))")
      case None
      have "\<not> iban_rule (concat ps)" if "gs @ [g] = ps @ qs" "ps \<noteq> []" for ps qs
      proof (cases qs rule: rev_cases)
        case Nil
        with that False show ?thesis by simp
      next
        case (snoc qs' q)
        with that(1) have "gs = ps @ qs'" by simp
        with ih None that(2) show ?thesis by auto
      qed
      then show ?thesis unfolding l None option.case by blast
    next
      case (Some k)
      with ih obtain ps qs where "gs = ps @ qs" "ps \<noteq> []" "k = length (join '' '' ps)" "iban_rule (concat ps)" by auto
      then show ?thesis unfolding l Some option.case by (intro exI [of _ ps] exI [of _ "qs @ [g]"]) simp
    qed
  qed
qed simp

text \<open>What the loop gives for a match: the longest prefix of whole groups that follows the rule.\<close>

lemma iban_length_spec:
  "case ibanValidLength m of
     Some k \<Rightarrow> \<exists>ps qs. split_on (CHR '' '') m = ps @ qs \<and> ps \<noteq> [] \<and> k = length (join '' '' ps) \<and> iban_rule (concat ps)
   | None \<Rightarrow> \<nexists>ps qs. split_on (CHR '' '') m = ps @ qs \<and> ps \<noteq> [] \<and> iban_rule (concat ps)"
proof -
  have "length m = length (join '' '' (split_on (CHR '' '') m))" by (simp add: join_split_on)
  with iban_loop_spec [of "concat (split_on (CHR '' '') m)" "split_on (CHR '' '') m" "[]" "length m"] show ?thesis
    unfolding ibanValidLength_def Let_def by simp
qed

lemma join_prefix_length: "length (join sep ps) \<le> length (join sep (ps @ qs))"
proof (induction sep ps rule: join.induct)
  case (1 sep)
  then show ?case by simp
next
  case (2 sep x)
  then show ?case by (cases qs) auto
qed simp

lemma iban_length_bounds:
  assumes "ibanValidLength m = Some k"
  shows "15 \<le> k \<and> k \<le> length m"
proof -
  from assms iban_length_spec [of m] obtain ps qs where p: "split_on (CHR '' '') m = ps @ qs" "ps \<noteq> []" "k = length (join '' '' ps)" "iban_rule (concat ps)"
    by auto
  have "15 \<le> length (concat ps)" using p(4) by (simp add: iban_rule_def)
  moreover have "length (concat ps) \<le> k" using p(3) length_join_space [OF p(2)] p(2) by (cases ps) auto
  moreover have "k \<le> length m" using join_prefix_length [of "'' ''" ps qs] p(1,3) join_split_on [of "CHR '' ''" m] by simp
  ultimately show ?thesis by simp
qed

lemma length_maskIban [simp]: "length (maskIban m) = length m"
  using iban_length_bounds by (auto simp: maskIban_def split: option.splits)

subsection \<open>Phone shapes\<close>

definition phone_sep :: "char \<Rightarrow> bool" where
  "phone_sep c \<longleftrightarrow> c \<in> set '' ./-''"

text \<open>The maximal runs of separators, \<open>match(/[ ./-]+/g)\<close>.\<close>

fun sep_runs :: "string \<Rightarrow> string \<Rightarrow> string list" where
  "sep_runs run [] = (if run = [] then [] else [run])"
| "sep_runs run (c # cs) =
    (if phone_sep c then sep_runs (run @ [c]) cs
     else (if run = [] then sep_runs [] cs else run # sep_runs [] cs))"

definition phoneShapeOk :: "string \<Rightarrow> nat \<Rightarrow> nat \<Rightarrow> bool" where
  "phoneShapeOk s mn mx \<longleftrightarrow>
    (let digits = length (filter is_digit s); seps = sep_runs [] (filter (\<lambda>c. c \<notin> set ''()'') s)
     in if digits < mn \<or> mx < digits then False
        else if list_ex (\<lambda>sep. 1 < length sep) seps then False
        else length (remdups (tl seps)) \<le> 1)"

subsection \<open>Dates\<close>

abbreviation number_of :: "string \<Rightarrow> nat" where
  "number_of s \<equiv> nat_of_digits 0 s"

definition leap_year :: "nat \<Rightarrow> bool" where
  "leap_year y \<longleftrightarrow> y mod 4 = 0 \<and> (y mod 100 \<noteq> 0 \<or> y mod 400 = 0)"

text \<open>\<open>new Date(Date.UTC(year, month, 0)).getUTCDate()\<close>, the last day of a month, for the years the numbers encode (from 1800 on).\<close>

definition month_days :: "nat \<Rightarrow> nat \<Rightarrow> nat" where
  "month_days year month = (if month = 2 then (if leap_year year then 29 else 28) else if month \<in> {4, 6, 9, 11} then 30 else 31)"

definition validDate :: "nat \<Rightarrow> nat \<Rightarrow> nat \<Rightarrow> bool" where
  "validDate year month day \<longleftrightarrow> \<not> (month < 1 \<or> 12 < month \<or> day < 1) \<and> day \<le> month_days year month"

subsection \<open>National numbers\<close>

definition validSe :: "re_match \<Rightarrow> bool" where
  "validSe m =
    (let century = group_of m 1; yy = group_of m 2; mm = group_of m 3; dd = group_of m 4; sep = group_of m 5; serial = group_of m 6;
         check = group_of m 7
     in if century = [] \<and> sep = [] then False
        else let day = (if 60 < number_of dd then number_of dd - 60 else number_of dd);
                 year = (if century \<noteq> [] then number_of (century @ yy) else 2000 + number_of yy)
          in if \<not> validDate year (number_of mm) day then False
             else luhnOk (yy @ mm @ dd @ serial @ check))"

definition NO_W1 :: "nat list" where "NO_W1 = [3, 7, 6, 1, 8, 9, 4, 5, 2]"
definition NO_W2 :: "nat list" where "NO_W2 = [5, 4, 3, 2, 7, 6, 5, 4, 3, 2]"

definition weighted_sum :: "string \<Rightarrow> nat list \<Rightarrow> nat" where
  "weighted_sum digits weights = (\<Sum>(i, w) \<leftarrow> enumerate 0 weights. digit_val (digits ! i) * w)"

definition mod11Check :: "string \<Rightarrow> nat list \<Rightarrow> nat option" where
  "mod11Check digits weights =
    (let rest = weighted_sum digits weights mod 11; k = (if rest = 0 then 0 else 11 - rest) in if k = 10 then None else Some k)"

definition noYear :: "nat \<Rightarrow> nat \<Rightarrow> nat option" where
  "noYear yy individual =
    (if individual \<le> 499 then Some (1900 + yy)
     else if individual \<le> 749 \<and> 54 \<le> yy then Some (1800 + yy)
     else if 500 \<le> individual \<and> yy \<le> 39 then Some (2000 + yy)
     else if 900 \<le> individual \<and> 40 \<le> yy then Some (1900 + yy)
     else None)"

text \<open>\<open>s.slice(i, j)\<close>\<close>

abbreviation slice :: "nat \<Rightarrow> nat \<Rightarrow> string \<Rightarrow> string" where
  "slice i j s \<equiv> take (j - i) (drop i s)"

definition validNo :: "re_match \<Rightarrow> bool" where
  "validNo m =
    (let digits = group_of m 1 @ group_of m 2;
         day = (let d = number_of (slice 0 2 digits) in if 40 < d then d - 40 else d);
         month = (let n = number_of (slice 2 4 digits) in if 80 < n then n - 80 else if 40 < n then n - 40 else n);
         yy = number_of (slice 4 6 digits)
     in (case noYear yy (number_of (slice 6 9 digits)) of
           None \<Rightarrow> False
         | Some year \<Rightarrow>
             if \<not> validDate year month day then False
             else if mod11Check (slice 0 9 digits) NO_W1 \<noteq> Some (digit_val (digits ! 9)) then False
             else mod11Check (slice 0 10 digits) NO_W2 = Some (digit_val (digits ! 10))))"

definition DK_W :: "nat list" where "DK_W = [4, 3, 2, 7, 6, 5, 4, 3, 2, 1]"

definition dkYear :: "nat \<Rightarrow> nat \<Rightarrow> nat" where
  "dkYear yy d7 =
    (if d7 \<le> 3 then 1900 + yy
     else if d7 = 4 \<or> d7 = 9 then (if yy \<le> 36 then 2000 + yy else 1900 + yy)
     else if yy \<le> 57 then 2000 + yy else 1800 + yy)"

definition validDk :: "re_match \<Rightarrow> bool" where
  "validDk m =
    (let dd = group_of m 1; mm = group_of m 2; yy = group_of m 3; sep = group_of m 4; serial = group_of m 5;
         year = dkYear (number_of yy) (digit_val (serial ! 0))
     in if \<not> validDate year (number_of mm) (number_of dd) then False
        else if sep \<noteq> [] then True
        else weighted_sum (dd @ mm @ yy @ serial) DK_W mod 11 = 0)"

definition FI_CHECK :: string where "FI_CHECK = ''0123456789ABCDEFHJKLMNPRSTUVWXY''"

definition FI_CENTURY :: "(string \<times> nat) list" where
  "FI_CENTURY = [(''+'', 1800), (''-'', 1900), (''A'', 2000)] @ map (\<lambda>c. ([c], 1900)) ''UVWXY'' @ map (\<lambda>c. ([c], 2000)) ''BCDEF''"

definition validFi :: "re_match \<Rightarrow> bool" where
  "validFi m =
    (let dd = group_of m 1; mm = group_of m 2; yy = group_of m 3; marker = group_of m 4; individual = group_of m 5; check = group_of m 6
     in (case map_of FI_CENTURY (to_upper marker) of
           None \<Rightarrow> False
         | Some century \<Rightarrow>
             if \<not> validDate (century + number_of yy) (number_of mm) (number_of dd) then False
             else if number_of individual < 2 then False
             else [FI_CHECK ! (number_of (dd @ mm @ yy @ individual) mod 31)] = to_upper check))"

end
