(* ===== verification/Pii_Scan.thy ===== *)
theory Pii_Scan
  imports Pii_Checks "HOL-Library.List_Lexorder" "HOL-Library.Char_ord"
begin

text \<open>
  The PII scanner (\<open>src/middlewares/router/pii.ts\<close>): its expressions and validators, the categories found in a text, the
  spans of the matches with their merging, redaction, and the request text a body is scanned for. Texts are code units
  below 256, so that the Unicode classes are those of that range.
\<close>

subsection \<open>Expressions\<close>

text \<open>\<open>B\<close>, \<open>L\<close> and \<open>R\<close>: the word boundary and the edges of a national number.\<close>

definition Edge :: re where
  "Edge = Alte (Sequ (Behind True regex_word) (Ahead False (Cls regex_word))) (Sequ (Behind False regex_word) (Ahead True (Cls regex_word)))"

definition id_char :: "char \<Rightarrow> bool" where
  "id_char c \<longleftrightarrow> regex_word c \<or> one_of ''+-'' c"

definition Left :: re where "Left = Behind False id_char"

definition Right :: re where
  "Right = Sequ (Ahead False (Cls regex_word)) (Ahead False (Sequ (Cls (one_of ''-.'')) Dig))"

definition ascii_letter :: "char \<Rightarrow> bool" where
  "ascii_letter c \<longleftrightarrow> in_range (CHR ''a'') (CHR ''z'') c \<or> in_range (CHR ''A'') (CHR ''Z'') c"

definition local_char :: "char \<Rightarrow> bool" where
  "local_char c \<longleftrightarrow> ascii_letter c \<or> is_digit c \<or> one_of ''._%+-'' c"

definition EMAIL_RE :: re where
  "EMAIL_RE = Sequs [Behind False local_char, Plus1 (Cls local_char), Lit (CHR ''@''),
     Plus1 (Cls (\<lambda>c. ascii_letter c \<or> is_digit c \<or> one_of ''.-'' c)), Lit (CHR ''.''), Rept True 2 None (Cls ascii_letter)]"

definition phone_gap :: "char \<Rightarrow> bool" where
  "phone_gap c \<longleftrightarrow> one_of ''-.'' c \<or> js_space c"

definition PHONE_RE :: re where
  "PHONE_RE = Sequs [Behind False is_digit,
     Opt (Sequs [Opt (Lit (CHR ''+'')), Times 1 3 Dig, Opt (Cls phone_gap)]),
     Opt (Lit (CHR ''('')), Times 3 3 Dig, Opt (Lit (CHR '')'')), Opt (Cls phone_gap),
     Times 3 4 Dig, Opt (Cls phone_gap), Times 4 4 Dig, Ahead False Dig]"

definition SSN_RE :: re where
  "SSN_RE = Sequs [Edge, Times 3 3 Dig, Lit (CHR ''-''), Times 2 2 Dig, Lit (CHR ''-''), Times 4 4 Dig, Edge]"

definition IP_RE :: re where
  "IP_RE = Sequs [Edge, Times 3 3 (Sequ (Times 1 3 Dig) (Lit (CHR ''.''))), Times 1 3 Dig, Edge]"

definition PATTERNS :: "(string \<times> re) list" where
  "PATTERNS = [(''email'', EMAIL_RE), (''phone'', PHONE_RE), (''ssn'', SSN_RE), (''ip_address'', IP_RE)]"

definition CARD_RUN_RE :: re where
  "CARD_RUN_RE = Sequs [Dig, Ahead True (Times 12 12 (Sequ (Rept True 0 None (Cls (one_of '' -''))) Dig)), Rept True 0 None Dig,
     Rept True 0 None (Sequ (Plus1 (Cls (one_of '' -''))) (Plus1 Dig))]"

definition upper_alnum :: "char \<Rightarrow> bool" where
  "upper_alnum c \<longleftrightarrow> in_range (CHR ''A'') (CHR ''Z'') c \<or> is_digit c"

definition IBAN_RE :: re where
  "IBAN_RE = Sequs [Edge, Times 2 2 (Cls (in_range (CHR ''A'') (CHR ''Z''))), Times 2 2 Dig,
     Times 2 7 (Sequ (Opt (Lit (CHR '' ''))) (Times 4 4 (Cls upper_alnum))),
     Opt (Sequ (Opt (Lit (CHR '' ''))) (Times 1 3 (Cls upper_alnum))), Edge]"

definition phone_body :: "char \<Rightarrow> bool" where
  "phone_body c \<longleftrightarrow> is_digit c \<or> one_of '' ()./-'' c"

definition INTL_PHONE_RE :: re where
  "INTL_PHONE_RE = Sequs [Behind False (\<lambda>c. regex_word c \<or> c = CHR ''+''), Lit (CHR ''+''), Dig, Times 6 20 (Cls phone_body), Dig,
     Ahead False (Cls regex_word)]"

definition TRUNK_PHONE_RE :: re where
  "TRUNK_PHONE_RE = Sequs [Behind False (\<lambda>c. regex_word c \<or> one_of ''+.,/-'' c), Opt (Lit (CHR ''('')), Lit (CHR ''0''), Dig,
     Times 6 16 (Cls phone_body), Dig, Ahead False (Cls regex_word)]"

definition SE_RE :: re where
  "SE_RE = Sequs [Left,
     Grp 1 (Opt (Alte (Sequ (Lit (CHR ''1'')) (Lit (CHR ''8''))) (Alte (Sequ (Lit (CHR ''1'')) (Lit (CHR ''9''))) (Sequ (Lit (CHR ''2'')) (Lit (CHR ''0'')))))),
     Grp 2 (Times 2 2 Dig), Grp 3 (Times 2 2 Dig), Grp 4 (Times 2 2 Dig), Grp 5 (Opt (Cls (one_of ''-+''))), Grp 6 (Times 3 3 Dig),
     Grp 7 Dig, Right]"

definition NO_RE :: re where
  "NO_RE = Sequs [Left, Grp 1 (Times 6 6 Dig), Opt (Lit (CHR '' '')), Grp 2 (Times 5 5 Dig), Right]"

definition DK_RE :: re where
  "DK_RE = Sequs [Left, Grp 1 (Times 2 2 Dig), Grp 2 (Times 2 2 Dig), Grp 3 (Times 2 2 Dig), Grp 4 (Opt (Lit (CHR ''-''))),
     Grp 5 (Times 4 4 Dig), Right]"

text \<open>With the flag \<open>i\<close> a class takes both cases.\<close>

definition either_case :: "(char \<Rightarrow> bool) \<Rightarrow> char \<Rightarrow> bool" where
  "either_case p c \<longleftrightarrow> p c \<or> p (lower_char c) \<or> list_ex p (to_upper [c])"

definition FI_RE :: re where
  "FI_RE = Sequs [Left, Grp 1 (Times 2 2 Dig), Grp 2 (Times 2 2 Dig), Grp 3 (Times 2 2 Dig),
     Grp 4 (Cls (either_case (one_of ''-+ABCDEFUVWXY''))), Grp 5 (Times 3 3 Dig),
     Grp 6 (Cls (either_case (\<lambda>c. is_digit c \<or> in_range (CHR ''A'') (CHR ''Y'') c))), Right]"

definition VALIDATED :: "(string \<times> re \<times> (re_match \<Rightarrow> bool)) list" where
  "VALIDATED =
    [(''phone'', INTL_PHONE_RE, \<lambda>m. phoneShapeOk (rm_text m) 8 15),
     (''phone'', TRUNK_PHONE_RE, \<lambda>m. list_ex phone_sep (rm_text m) \<and> phoneShapeOk (rm_text m) 9 12)]"

definition DETECTORS :: "(re \<times> (re_match \<Rightarrow> bool)) list" where
  "DETECTORS = [(SE_RE, validSe), (NO_RE, validNo), (DK_RE, validDk), (FI_RE, validFi)]"

subsection \<open>Card numbers\<close>

text \<open>The digit groups of a run, as offsets from its start.\<close>

fun digit_groups :: "nat \<Rightarrow> nat option \<Rightarrow> string \<Rightarrow> (nat \<times> nat) list" where
  "digit_groups p from [] = (case from of None \<Rightarrow> [] | Some f \<Rightarrow> [(f, p)])"
| "digit_groups p from (c # cs) =
    (if is_digit c then digit_groups (Suc p) (case from of None \<Rightarrow> Some p | Some f \<Rightarrow> Some f) cs
     else (case from of None \<Rightarrow> digit_groups (Suc p) None cs | Some f \<Rightarrow> (f, p) # digit_groups (Suc p) None cs))"

text \<open>\<open>cum[e]\<close>: the digits before group \<open>e\<close>.\<close>

definition digits_before :: "(nat \<times> nat) list \<Rightarrow> nat \<Rightarrow> nat" where
  "digits_before gs e = sum_list (map (\<lambda>(a, b). b - a) (take e gs))"

text \<open>The starts whose window, the fewest groups with 13 digits, ends with the group before \<open>e\<close>.\<close>

function window_starts :: "(nat \<times> nat) list \<Rightarrow> nat \<Rightarrow> nat \<Rightarrow> nat list" where
  "window_starts gs e i = (if i < e \<and> 13 \<le> digits_before gs e - digits_before gs i then i # window_starts gs e (Suc i) else [])"
  by pat_completeness auto

termination by (relation "measure (\<lambda>(gs, e, i). e - i)") auto

declare window_starts.simps [simp del]

fun window_scan :: "string \<Rightarrow> bool \<Rightarrow> (nat \<times> nat) list \<Rightarrow> nat list \<Rightarrow> nat \<Rightarrow> (nat \<times> nat) list" where
  "window_scan run lastOk gs [] i = []"
| "window_scan run lastOk gs (e # es) i =
    (let starts = window_starts gs e i in
     map (\<lambda>j. (fst (gs ! j), snd (gs ! (e - 1))))
       (filter (\<lambda>j. digits_before gs e - digits_before gs j \<le> 19 \<and> (e < length gs \<or> lastOk) \<and>
                 luhnRangeOk run (fst (gs ! j)) (snd (gs ! (e - 1)))) starts)
     @ window_scan run lastOk gs es (i + length starts))"

definition run_windows :: "string \<Rightarrow> re_match \<Rightarrow> (nat \<times> nat) list" where
  "run_windows txt m =
    (let gs = digit_groups 0 None (rm_text m);
         lastOk = \<not> (rm_end m < length txt \<and> regex_word (txt ! rm_end m));
         first = (if 0 < rm_start m \<and> regex_word (txt ! (rm_start m - 1)) then 1 else 0)
     in map (\<lambda>(a, b). (rm_start m + a, rm_start m + b)) (window_scan (rm_text m) lastOk gs [1..<Suc (length gs)] first))"

definition cardWindows :: "string \<Rightarrow> (nat \<times> nat) list" where
  "cardWindows txt = concat (map (run_windows txt) (re_matches CARD_RUN_RE txt))"

definition hasCard :: "string \<Rightarrow> bool" where
  "hasCard txt \<longleftrightarrow> cardWindows txt \<noteq> []"

subsection \<open>Detection\<close>

text \<open>\<open>text.replace(IBAN_RE, maskIban)\<close>: the matches replaced, the text between them kept.\<close>

fun replace_matches :: "(re_match \<Rightarrow> string) \<Rightarrow> string \<Rightarrow> nat \<Rightarrow> re_match list \<Rightarrow> string" where
  "replace_matches f txt pos [] = drop pos txt"
| "replace_matches f txt pos (m # ms) = slice pos (rm_start m) txt @ f m @ replace_matches f txt (rm_end m) ms"

definition masked :: "string \<Rightarrow> string" where
  "masked txt = replace_matches (\<lambda>m. maskIban (rm_text m)) txt 0 (re_matches IBAN_RE txt)"

definition anyValid :: "re \<Rightarrow> string \<Rightarrow> (re_match \<Rightarrow> bool) \<Rightarrow> bool" where
  "anyValid r txt validate \<longleftrightarrow> list_ex validate (re_matches r txt)"

definition containsNordicNationalId :: "string \<Rightarrow> bool" where
  "containsNordicNationalId txt \<longleftrightarrow> list_ex (\<lambda>(r, validate). anyValid r txt validate) DETECTORS"

definition KEYWORD_CATEGORIES :: "(string \<times> string list) list" where
  "KEYWORD_CATEGORIES =
    [(''health_data'', [''diagnosis'', ''prescription'', ''medication'', ''patient id'', ''medical record'', ''icd-10'', ''blood pressure'', ''lab result'']),
     (''financial_data'', [''account number'', ''routing number'', ''iban'', ''swift code'', ''tax id'', ''vat number''])]"

definition detectPiiCategories :: "string \<Rightarrow> string list" where
  "detectPiiCategories original =
    (if original = [] then []
     else let txt = masked original;
              iban = (if txt \<noteq> original then [''iban''] else []);
              card = (if hasCard txt then [''credit_card''] else []);
              plain = map fst (filter (\<lambda>(n, r). regex_test r txt) PATTERNS);
              known = iban @ card @ plain;
              valid = map fst (filter (\<lambda>(n, r, v). n \<notin> set known \<and> anyValid r txt v) VALIDATED);
              nordic = (if containsNordicNationalId txt then [''national_id''] else []);
              words = map fst (filter (\<lambda>(n, ks). list_ex (includes_str (to_lower original)) ks) KEYWORD_CATEGORIES)
          in sort (remdups (known @ valid @ nordic @ words)))"

subsection \<open>Spans\<close>

record pii_span =
  ps_start :: nat
  ps_end :: nat
  ps_category :: string

definition SPAN_PRIORITY :: "string list" where
  "SPAN_PRIORITY = [''iban'', ''credit_card'', ''national_id'', ''ssn'', ''email'', ''ip_address'', ''phone'']"

definition validMatches :: "re \<Rightarrow> string \<Rightarrow> (re_match \<Rightarrow> bool) \<Rightarrow> re_match list" where
  "validMatches r txt validate = filter validate (re_matches r txt)"

abbreviation match_span :: "string \<Rightarrow> re_match \<Rightarrow> pii_span" where
  "match_span n m \<equiv> \<lparr>ps_start = rm_start m, ps_end = rm_start m + length (rm_text m), ps_category = n\<rparr>"

definition iban_spans :: "string \<Rightarrow> pii_span list" where
  "iban_spans txt = concat (map (\<lambda>m. case ibanValidLength (rm_text m) of None \<Rightarrow> []
       | Some n \<Rightarrow> [\<lparr>ps_start = rm_start m, ps_end = rm_start m + n, ps_category = ''iban''\<rparr>]) (re_matches IBAN_RE txt))"

text \<open>All matches, in the order the code adds them.\<close>

definition all_spans :: "string \<Rightarrow> pii_span list" where
  "all_spans original =
    (let txt = masked original in
     iban_spans original @
     map (\<lambda>(a, b). \<lparr>ps_start = a, ps_end = b, ps_category = ''credit_card''\<rparr>) (cardWindows txt) @
     concat (map (\<lambda>(n, r). map (match_span n) (validMatches r txt (\<lambda>_. True))) PATTERNS) @
     concat (map (\<lambda>(n, r, v). map (match_span n) (validMatches r txt v)) VALIDATED) @
     concat (map (\<lambda>(r, v). map (match_span ''national_id'') (validMatches r txt v)) DETECTORS))"

definition raw_spans :: "string \<Rightarrow> pii_span list" where
  "raw_spans original = filter (\<lambda>s. ps_start s < ps_end s) (all_spans original)"

definition span_order :: "pii_span list \<Rightarrow> pii_span list" where
  "span_order ss = sort_key ps_start (sort_key (\<lambda>s. - int (ps_end s)) ss)"

text \<open>The last merged span and those that follow it.\<close>

fun merge_spans :: "pii_span \<Rightarrow> pii_span list \<Rightarrow> pii_span list" where
  "merge_spans lst [] = [lst]"
| "merge_spans lst (s # ss) =
    (if ps_start s < ps_end lst
     then merge_spans (lst\<lparr>ps_end := max (ps_end lst) (ps_end s),
            ps_category := (if index_of SPAN_PRIORITY (ps_category s) < index_of SPAN_PRIORITY (ps_category lst) then ps_category s else ps_category lst)\<rparr>) ss
     else lst # merge_spans s ss)"

definition findPiiSpans :: "string \<Rightarrow> pii_span list" where
  "findPiiSpans original =
    (if original = [] then []
     else (case span_order (raw_spans original) of [] \<Rightarrow> [] | s # ss \<Rightarrow> merge_spans s ss))"

subsection \<open>Redaction\<close>

definition piiPlaceholder :: "string \<Rightarrow> string" where
  "piiPlaceholder category = ''['' @ to_upper category @ '']''"

fun redact_from :: "string \<Rightarrow> nat \<Rightarrow> pii_span list \<Rightarrow> string" where
  "redact_from txt pos [] = drop pos txt"
| "redact_from txt pos (s # ss) = slice pos (ps_start s) txt @ piiPlaceholder (ps_category s) @ redact_from txt (ps_end s) ss"

definition redactPii :: "string \<Rightarrow> string" where
  "redactPii txt = (let spans = findPiiSpans txt in if spans = [] then txt else redact_from txt 0 spans)"

subsection \<open>The text of a request\<close>

definition TEXT_KEYS :: "string list" where
  "TEXT_KEYS = [''content'', ''text'', ''input'', ''prompt'', ''instructions'', ''system'', ''arguments'', ''output'', ''query'', ''documents'']"

definition ARG_KEYS :: "string list" where
  "ARG_KEYS = [''input'', ''arguments'', ''args'']"

definition SKIP_KEYS :: "string list" where
  "SKIP_KEYS = [''model'', ''image_url'', ''file'', ''file_data'', ''file_id'', ''b64_json'', ''data'', ''audio'', ''input_audio'', ''source'',
     ''image'', ''mask'', ''url'', ''tools'', ''functions'', ''tool_choice'', ''response_format'', ''metadata'']"

fun object_value :: "json \<Rightarrow> bool" where
  "object_value (JObj fs) = True"
| "object_value JNull = True"
| "object_value _ = False"

text \<open>\<open>walk\<close>, with the depth left: 65 at the root, as the code stops below 64.\<close>

fun walk_text :: "nat \<Rightarrow> string \<Rightarrow> bool \<Rightarrow> json \<Rightarrow> string list" where
  "walk_text 0 key every node = []"
| "walk_text (Suc n) key every (JStr s) = (if every \<or> key \<in> set TEXT_KEYS then [s] else [])"
| "walk_text (Suc n) key every (JArr vs) = concat (map (walk_text n key every) vs)"
| "walk_text (Suc n) key every (JObj fs) =
    concat (map (\<lambda>(k, v). if k \<in> set SKIP_KEYS then [] else walk_text n k (every \<or> (k \<in> set ARG_KEYS \<and> object_value v)) v) fs)"
| "walk_text (Suc n) key every _ = []"

definition requestText :: "json option \<Rightarrow> string" where
  "requestText body = (case body of None \<Rightarrow> [] | Some b \<Rightarrow> join '' '' (walk_text 65 [] False b))"

definition scanRequestBody :: "json option \<Rightarrow> string list" where
  "scanRequestBody body = detectPiiCategories (requestText body)"

end
