(* ===== verification/Pii_Spans.thy ===== *)
theory Pii_Spans
  imports Pii_Scan
begin

text \<open>
  What the scanner of \<open>Pii_Scan\<close> guarantees: the spans are in order and disjoint, they cover every match, the categories
  found are those of the matches, and redaction keeps no character of a match.
\<close>

subsection \<open>Masking\<close>

lemma replace_length:
  assumes "sorted_wrt (\<lambda>m n. rm_end m \<le> rm_start n) ms" "pos \<le> length s"
    and "\<And>m. m \<in> set ms \<Longrightarrow> pos \<le> rm_start m \<and> rm_start m \<le> rm_end m \<and> rm_end m \<le> length s \<and> length (f m) = rm_end m - rm_start m"
  shows "length (replace_matches f s pos ms) = length s - pos"
  using assms
proof (induction ms arbitrary: pos)
  case (Cons m ms)
  have m: "pos \<le> rm_start m" "rm_start m \<le> rm_end m" "rm_end m \<le> length s" "length (f m) = rm_end m - rm_start m"
    using Cons.prems(3) [of m] by auto
  have "length (replace_matches f s (rm_end m) ms) = length s - rm_end m"
    by (rule Cons.IH) (use Cons.prems m in auto)
  with m show ?case by simp
qed simp

text \<open>Where the whole text is unchanged, every replacement was.\<close>

lemma replace_same:
  assumes "sorted_wrt (\<lambda>m n. rm_end m \<le> rm_start n) ms"
    and "\<And>m. m \<in> set ms \<Longrightarrow> pos \<le> rm_start m \<and> rm_start m \<le> rm_end m \<and> rm_end m \<le> length s \<and>
      length (f m) = rm_end m - rm_start m \<and> rm_text m = slice (rm_start m) (rm_end m) s"
  shows "replace_matches f s pos ms = drop pos s \<longleftrightarrow> (\<forall>m \<in> set ms. f m = rm_text m)"
  using assms
proof (induction ms arbitrary: pos)
  case (Cons m ms)
  have m: "pos \<le> rm_start m" "rm_start m \<le> rm_end m" "rm_end m \<le> length s" "length (f m) = rm_end m - rm_start m"
    "rm_text m = slice (rm_start m) (rm_end m) s" using Cons.prems(2) [of m] by auto
  have ih: "replace_matches f s (rm_end m) ms = drop (rm_end m) s \<longleftrightarrow> (\<forall>m \<in> set ms. f m = rm_text m)"
    by (rule Cons.IH) (use Cons.prems m in auto)
  have "drop (rm_start m) s = rm_text m @ drop (rm_end m) s"
    using m(2,5) by (metis append_take_drop_id drop_drop le_add_diff_inverse2)
  moreover have "drop pos s = slice pos (rm_start m) s @ drop (rm_start m) s"
    using m(1) by (metis append_take_drop_id drop_drop le_add_diff_inverse2)
  ultimately have d: "drop pos s = slice pos (rm_start m) s @ rm_text m @ drop (rm_end m) s" by (simp only:)
  define A where "A = slice pos (rm_start m) s"
  have A: "slice pos (rm_start m) s = A" "drop pos s = A @ rm_text m @ drop (rm_end m) s" using d by (simp_all only: A_def)
  moreover have "length (f m) = length (rm_text m)" using m by simp
  ultimately show ?case using ih by simp
qed simp

lemma length_rm_text: "m \<in> set (re_matches r s) \<Longrightarrow> length (rm_text m) = rm_end m - rm_start m"
  by (rule matches_bounds(5))

lemma length_masked [simp]: "length (masked s) = length s"
proof -
  have "length (masked s) = length s - 0"
    unfolding masked_def
  proof (rule replace_length)
    show "sorted_wrt (\<lambda>m n. rm_end m \<le> rm_start n) (re_matches IBAN_RE s)" by (rule matches_sorted) simp
  qed (use matches_bounds in auto)
  then show ?thesis by simp
qed

text \<open>An IBAN starts with a letter, so that blanking it changes the text.\<close>

lemma starts_with_class:
  assumes "match_at (Sequ Edge (Sequ (Times 2 2 (Cls p)) r)) s i = Some m"
  shows "i < length s \<and> p (s ! i)"
proof -
  from assms obtain j gs ps where "re_paths (Sequ Edge (Sequ (Times 2 2 (Cls p)) r)) s (i, []) = (j, gs) # ps"
    by (auto simp: match_at_def split: list.splits prod.splits)
  then have "(j, gs) \<in> set (re_paths (Sequ Edge (Sequ (Times 2 2 (Cls p)) r)) s (i, []))" by simp
  then obtain st1 st2 where e: "st1 \<in> set (re_paths Edge s (i, []))" "st2 \<in> set (re_paths (Times 2 2 (Cls p)) s st1)"
    by (auto simp del: rounds.simps)
  have "st1 = (i, [])" using e(1) by (auto simp: Edge_def split: if_splits)
  with e(2) show ?thesis by (auto simp: eval_nat_numeral Let_def split: if_splits)
qed

lemma iban_starts_upper:
  assumes "m \<in> set (re_matches IBAN_RE s)"
  shows "rm_start m < length s \<and> in_range (CHR ''A'') (CHR ''Z'') (s ! rm_start m)"
  using matches_bounds(3) [OF assms] unfolding IBAN_RE_def Sequs.simps by (rule starts_with_class)

lemma masked_changes: "masked s \<noteq> s \<longleftrightarrow> (\<exists>m \<in> set (re_matches IBAN_RE s). ibanValidLength (rm_text m) \<noteq> None)"
proof -
  have "masked s = drop 0 s \<longleftrightarrow> (\<forall>m \<in> set (re_matches IBAN_RE s). maskIban (rm_text m) = rm_text m)"
    unfolding masked_def
  proof (rule replace_same)
    show "sorted_wrt (\<lambda>m n. rm_end m \<le> rm_start n) (re_matches IBAN_RE s)" by (rule matches_sorted) simp
  qed (use matches_bounds in auto)
  moreover have "maskIban (rm_text m) = rm_text m \<longleftrightarrow> ibanValidLength (rm_text m) = None" if m: "m \<in> set (re_matches IBAN_RE s)" for m
  proof (cases "ibanValidLength (rm_text m)")
    case (Some n)
    note b = matches_bounds [OF m] iban_starts_upper [OF m] iban_length_bounds [OF Some]
    then have "0 < length (rm_text m)" by linarith
    with b have "rm_text m ! 0 = s ! rm_start m" by simp
    then have "rm_text m ! 0 \<noteq> CHR '' ''" using b(7) by (auto simp: in_range_def)
    moreover have "maskIban (rm_text m) ! 0 = CHR '' ''" using Some b(8) by (simp add: maskIban_def nth_append)
    ultimately show ?thesis using Some by auto
  qed (simp add: maskIban_def)
  ultimately show ?thesis by auto
qed

subsection \<open>Card windows\<close>

lemma digit_groups_bounds:
  assumes "\<And>f. from = Some f \<Longrightarrow> f < p"
  shows "(\<forall>(a, b) \<in> set (digit_groups p from s). a < b \<and> b \<le> p + length s \<and> (case from of Some f \<Rightarrow> f \<le> a | None \<Rightarrow> p \<le> a)) \<and>
    sorted_wrt (\<lambda>g h. snd g < fst h) (digit_groups p from s)"
  using assms
proof (induction p "from" s rule: digit_groups.induct)
  case (1 p "from")
  then show ?case by (cases "from") auto
next
  case (2 p "from" c cs)
  show ?case
  proof (cases "is_digit c")
    case True
    with 2(1) [OF True] 2(4) show ?thesis by (cases "from") (fastforce simp: less_Suc_eq)+
  next
    case False
    show ?thesis
    proof (cases "from")
      case None
      with False 2(2) [OF False None] show ?thesis by fastforce
    next
      case (Some f)
      with False 2(3) [OF False Some] 2(4) show ?thesis by fastforce
    qed
  qed
qed

lemma window_starts_range: "j \<in> set (window_starts gs e i) \<Longrightarrow> i \<le> j \<and> j < e"
proof (induction gs e i rule: window_starts.induct)
  case (1 gs e i)
  from 1(2) have "i < e \<and> 13 \<le> digits_before gs e - digits_before gs i" and "j = i \<or> j \<in> set (window_starts gs e (Suc i))"
    by (auto simp: window_starts.simps [of gs e i] split: if_splits)
  with 1(1) show ?case by auto
qed

lemma window_scan_windows:
  "(a, b) \<in> set (window_scan run ok gs es i) \<Longrightarrow> \<exists>j e. e \<in> set es \<and> j < e \<and> a = fst (gs ! j) \<and> b = snd (gs ! (e - 1)) \<and> luhnRangeOk run a b"
proof (induction run ok gs es i rule: window_scan.induct)
  case (2 run ok gs e es i)
  then show ?case by (auto simp: Let_def dest!: window_starts_range)
qed simp

lemma groups_ordered:
  fixes gs :: "(nat \<times> nat) list"
  assumes "sorted_wrt (\<lambda>g h. snd g < fst h) gs" "\<forall>(a, b) \<in> set gs. a < b" "j \<le> k" "k < length gs"
  shows "fst (gs ! j) < snd (gs ! k)"
proof (cases "j = k")
  case True
  have "gs ! k \<in> set gs" using assms(4) by simp
  with assms(2) True show ?thesis by (auto simp: split_beta)
next
  case False
  with assms have "snd (gs ! j) < fst (gs ! k)" by (auto simp: sorted_wrt_iff_nth_less)
  moreover have "gs ! j \<in> set gs" "gs ! k \<in> set gs" using assms(3,4) by simp_all
  then have "fst (gs ! j) < snd (gs ! j)" "fst (gs ! k) < snd (gs ! k)" using assms(2) by (auto simp: split_beta)
  ultimately show ?thesis by simp
qed

lemma card_window_bounds:
  assumes "(a, b) \<in> set (cardWindows s)"
  shows "a < b \<and> b \<le> length s"
proof -
  from assms obtain m where m: "m \<in> set (re_matches CARD_RUN_RE s)" "(a, b) \<in> set (run_windows s m)" by (auto simp: cardWindows_def)
  let ?gs = "digit_groups 0 None (rm_text m)"
  note g = digit_groups_bounds [of None 0 "rm_text m", simplified]
  from m(2) obtain a' b' ok i where w: "(a', b') \<in> set (window_scan (rm_text m) ok ?gs [1..<Suc (length ?gs)] i)"
    "a = rm_start m + a'" "b = rm_start m + b'" by (auto simp: run_windows_def Let_def)
  from window_scan_windows [OF w(1)] obtain j e where e: "e \<in> set [1..<Suc (length ?gs)]" "j < e" "a' = fst (?gs ! j)" "b' = snd (?gs ! (e - 1))" by blast
  then have k: "e - 1 < length ?gs" "j \<le> e - 1" by auto
  have "a' < b'" unfolding e(3,4) by (rule groups_ordered [OF _ _ k(2,1)]) (use g in auto)
  moreover have "?gs ! (e - 1) \<in> set ?gs" using k(1) by simp
  then have "b' \<le> length (rm_text m)" using g e(4) by (fastforce simp: split_beta)
  ultimately show ?thesis using w(2,3) matches_bounds [OF m(1)] by auto
qed

subsection \<open>The matches\<close>

lemma expressions_take:
  "list_all (\<lambda>(n, r). 0 < min_length r) PATTERNS" "list_all (\<lambda>(n, r, v). 0 < min_length r) VALIDATED"
  "list_all (\<lambda>(r, v). 0 < min_length r) DETECTORS"
  by (simp_all add: PATTERNS_def VALIDATED_def DETECTORS_def EMAIL_RE_def PHONE_RE_def SSN_RE_def IP_RE_def INTL_PHONE_RE_def
      TRUNK_PHONE_RE_def SE_RE_def NO_RE_def DK_RE_def FI_RE_def Edge_def Left_def Right_def Lit_def)

definition span_ok :: "nat \<Rightarrow> pii_span \<Rightarrow> bool" where
  "span_ok n s \<longleftrightarrow> ps_start s < ps_end s \<and> ps_end s \<le> n"

lemma match_span_ok:
  assumes "m \<in> set (re_matches r s)" "0 < min_length r"
  shows "span_ok (length s) (match_span n m)"
proof -
  note b = matches_bounds(1,2,6) [OF assms(1)] matches_bounds(5) [OF assms(1)]
  then have "0 < length (rm_text m)" "rm_start m + length (rm_text m) \<le> length s" using assms(2) by linarith+
  then show ?thesis by (simp add: span_ok_def)
qed

lemma iban_span_ok: "x \<in> set (iban_spans s) \<Longrightarrow> span_ok (length s) x"
proof -
  assume "x \<in> set (iban_spans s)"
  then obtain m where m1: "m \<in> set (re_matches IBAN_RE s)"
    "x \<in> set (case ibanValidLength (rm_text m) of None \<Rightarrow> []
       | Some n \<Rightarrow> [\<lparr>ps_start = rm_start m, ps_end = rm_start m + n, ps_category = ''iban''\<rparr>])"
    unfolding iban_spans_def set_concat set_map by blast
  from m1(2) obtain n where n: "ibanValidLength (rm_text m) = Some n" "x = \<lparr>ps_start = rm_start m, ps_end = rm_start m + n, ps_category = ''iban''\<rparr>"
    by (cases "ibanValidLength (rm_text m)") simp_all
  note m = m1(1) n
  note b = matches_bounds(1,2) [OF m(1)] matches_bounds(5) [OF m(1)] iban_length_bounds [OF m(2)]
  then have "0 < n" "rm_start m + n \<le> length s" by linarith+
  with m(3) show ?thesis by (simp add: span_ok_def)
qed

lemma all_spans_ok: "x \<in> set (all_spans s) \<Longrightarrow> span_ok (length s) x"
proof -
  let ?t = "masked s"
  assume "x \<in> set (all_spans s)"
  then consider "x \<in> set (iban_spans s)"
    | a b where "(a, b) \<in> set (cardWindows ?t)" "x = \<lparr>ps_start = a, ps_end = b, ps_category = ''credit_card''\<rparr>"
    | n r m where "(n, r) \<in> set PATTERNS" "m \<in> set (re_matches r ?t)" "x = match_span n m"
    | n r v m where "(n, r, v) \<in> set VALIDATED" "m \<in> set (re_matches r ?t)" "x = match_span n m"
    | r v m where "(r, v) \<in> set DETECTORS" "m \<in> set (re_matches r ?t)" "x = match_span ''national_id'' m"
    by (auto simp: all_spans_def Let_def validMatches_def)
  then show ?thesis
  proof cases
    case 2
    with card_window_bounds [OF 2(1)] show ?thesis by (simp add: span_ok_def)
  next
    case 3
    with expressions_take(1) match_span_ok [OF 3(2)] show ?thesis by (auto simp: list_all_iff)
  next
    case 4
    with expressions_take(2) match_span_ok [OF 4(2)] show ?thesis by (auto simp: list_all_iff)
  next
    case 5
    with expressions_take(3) match_span_ok [OF 5(2)] show ?thesis by (auto simp: list_all_iff)
  qed (rule iban_span_ok)
qed

lemma raw_spans_all: "raw_spans s = all_spans s"
  using all_spans_ok by (auto simp: raw_spans_def span_ok_def filter_id_conv)

lemma raw_spans_Nil [simp]: "raw_spans [] = []"
proof -
  have "\<not> x \<in> set (raw_spans [])" for x using all_spans_ok [of x "[]"] unfolding raw_spans_all span_ok_def by auto
  then show ?thesis by (cases "raw_spans []") auto
qed

subsection \<open>Categories\<close>

abbreviation categories :: "pii_span list \<Rightarrow> string set" where
  "categories ss \<equiv> ps_category ` set ss"

lemma iban_categories: "categories (iban_spans s) = (if masked s \<noteq> s then {''iban''} else {})"
proof -
  have "iban_spans s \<noteq> [] \<longleftrightarrow> masked s \<noteq> s"
    unfolding masked_changes by (auto simp: iban_spans_def split: option.splits)
  moreover have "ps_category x = ''iban''" if "x \<in> set (iban_spans s)" for x
    using that by (auto simp: iban_spans_def split: option.splits)
  ultimately show ?thesis by (cases "iban_spans s") force+
qed

lemma match_categories: "categories (map (match_span n) ms) = (if ms = [] then {} else {n})"
  by (cases ms) auto

lemma pattern_categories:
  "categories (concat (map (\<lambda>(n, r). map (match_span n) (validMatches r t (\<lambda>_. True))) ps)) = fst ` set (filter (\<lambda>(n, r). regex_test r t) ps)"
proof (induction ps)
  case (Cons p ps)
  obtain n r where "p = (n, r)" by force
  with Cons show ?case
    by (simp only: list.map concat.simps set_append image_Un prod.case match_categories)
      (simp add: validMatches_def regex_test_matches)
qed simp

lemma valid_categories:
  "categories (concat (map (\<lambda>(n, r, v). map (match_span n) (validMatches r t v)) ps)) = fst ` set (filter (\<lambda>(n, r, v). anyValid r t v) ps)"
proof (induction ps)
  case (Cons p ps)
  obtain n r v where "p = (n, r, v)" by (cases p)
  with Cons show ?case
    by (simp only: list.map concat.simps set_append image_Un prod.case match_categories)
      (auto simp add: validMatches_def anyValid_def list_ex_iff filter_empty_conv)
qed simp

lemma nordic_categories:
  "categories (concat (map (\<lambda>(r, v). map (match_span ''national_id'') (validMatches r t v)) ds)) =
    (if list_ex (\<lambda>(r, v). anyValid r t v) ds then {''national_id''} else {})"
proof (induction ds)
  case (Cons d ds)
  obtain r v where "d = (r, v)" by force
  with Cons show ?case
    by (simp only: list.map concat.simps set_append image_Un prod.case match_categories)
      (auto simp add: validMatches_def anyValid_def list_ex_iff filter_empty_conv)
qed simp

lemma card_categories:
  "categories (map (\<lambda>(a, b). \<lparr>ps_start = a, ps_end = b, ps_category = ''credit_card''\<rparr>) (cardWindows t)) = (if hasCard t then {''credit_card''} else {})"
  by (cases "cardWindows t") (auto simp: hasCard_def)

lemma set_guard: "set (if b then [x] else []) = (if b then {x} else {})"
  by (cases b) simp_all

lemma known_or_valid: "K \<union> fst ` set (filter (\<lambda>(n, r, v). n \<notin> K \<and> q r v) xs) = K \<union> fst ` set (filter (\<lambda>(n, r, v). q r v) xs)"
  by force

text \<open>Detection and the spans agree: the categories a text is found to hold, apart from the keyword categories, are exactly
  those of its matches.\<close>

lemma pii_categories_of_spans:
  "set (detectPiiCategories txt) \<inter> set SPAN_PRIORITY = ps_category ` set (raw_spans txt)"
proof (cases "txt = []")
  case True
  then show ?thesis by (simp add: detectPiiCategories_def)
next
  case False
  let ?t = "masked txt"
  let ?known = "(if ?t \<noteq> txt then [''iban''] else []) @ (if hasCard ?t then [''credit_card''] else []) @ map fst (filter (\<lambda>(n, r). regex_test r ?t) PATTERNS)"
  let ?words = "map fst (filter (\<lambda>(n, ks). list_ex (includes_str (to_lower txt)) ks) KEYWORD_CATEGORIES)"
  have "set (detectPiiCategories txt) = set ?known \<union> fst ` set (filter (\<lambda>(n, r, v). n \<notin> set ?known \<and> anyValid r ?t v) VALIDATED) \<union>
      (if containsNordicNationalId ?t then {''national_id''} else {}) \<union> set ?words"
    using False by (simp add: detectPiiCategories_def Let_def Un_assoc)
  also have "set ?known \<union> fst ` set (filter (\<lambda>(n, r, v). n \<notin> set ?known \<and> anyValid r ?t v) VALIDATED) =
      set ?known \<union> fst ` set (filter (\<lambda>(n, r, v). anyValid r ?t v) VALIDATED)"
    by (rule known_or_valid)
  finally have d: "set (detectPiiCategories txt) = set ?known \<union> fst ` set (filter (\<lambda>(n, r, v). anyValid r ?t v) VALIDATED) \<union>
      (if containsNordicNationalId ?t then {''national_id''} else {}) \<union> set ?words" .
  have raw: "ps_category ` set (raw_spans txt) = set ?known \<union> fst ` set (filter (\<lambda>(n, r, v). anyValid r ?t v) VALIDATED) \<union>
      (if containsNordicNationalId ?t then {''national_id''} else {})"
    unfolding raw_spans_all all_spans_def Let_def set_append image_Un iban_categories card_categories pattern_categories valid_categories nordic_categories
    by (simp only: containsNordicNationalId_def set_guard set_append set_map image_Un Un_assoc)
  have "set ?known \<subseteq> set SPAN_PRIORITY" by (auto simp: SPAN_PRIORITY_def PATTERNS_def)
  moreover have "fst ` set (filter (\<lambda>(n, r, v). anyValid r ?t v) VALIDATED) \<subseteq> set SPAN_PRIORITY" by (auto simp: SPAN_PRIORITY_def VALIDATED_def)
  moreover have "set ?words \<inter> set SPAN_PRIORITY = {}" by (auto simp: SPAN_PRIORITY_def KEYWORD_CATEGORIES_def)
  moreover have "(if containsNordicNationalId ?t then {''national_id''} else {}) \<subseteq> set SPAN_PRIORITY" by (simp add: SPAN_PRIORITY_def)
  ultimately show ?thesis unfolding d raw Int_Un_distrib2 by (metis Int_absorb2 Un_empty_right)
qed

subsection \<open>Merging\<close>

definition covers :: "nat \<Rightarrow> pii_span \<Rightarrow> bool" where
  "covers k s \<longleftrightarrow> ps_start s \<le> k \<and> k < ps_end s"

definition disjoint_spans :: "pii_span list \<Rightarrow> bool" where
  "disjoint_spans ss \<longleftrightarrow> sorted_wrt (\<lambda>x y. ps_end x \<le> ps_start y) ss"

text \<open>A span that holds another, with a category no less important.\<close>

definition inside :: "pii_span \<Rightarrow> pii_span \<Rightarrow> bool" where
  "inside s r \<longleftrightarrow> ps_start r \<le> ps_start s \<and> ps_end s \<le> ps_end r \<and>
     index_of SPAN_PRIORITY (ps_category r) \<le> index_of SPAN_PRIORITY (ps_category s)"

lemma inside_trans: "inside s r \<Longrightarrow> inside r q \<Longrightarrow> inside s q"
  by (auto simp: inside_def)

lemma inside_refl [simp]: "inside s s"
  by (simp add: inside_def)

lemma merge_start: "r \<in> set (merge_spans lst ss) \<Longrightarrow> sorted (map ps_start (lst # ss)) \<Longrightarrow> ps_start lst \<le> ps_start r"
proof (induction lst ss rule: merge_spans.induct)
  case (2 lst s ss)
  show ?case
  proof (cases "ps_start s < ps_end lst")
    case True
    with 2 show ?thesis by (simp add: Let_def)
  next
    case False
    with 2 show ?thesis by fastforce
  qed
qed simp

lemma merge_disjoint:
  "sorted (map ps_start (lst # ss)) \<Longrightarrow> list_all (span_ok n) (lst # ss) \<Longrightarrow>
    disjoint_spans (merge_spans lst ss) \<and> list_all (span_ok n) (merge_spans lst ss)"
proof (induction lst ss rule: merge_spans.induct)
  case (2 lst s ss)
  show ?case
  proof (cases "ps_start s < ps_end lst")
    case True
    with 2 show ?thesis by (simp add: span_ok_def less_max_iff_disj split del: if_split)
  next
    case False
    with 2 have ih: "disjoint_spans (merge_spans s ss)" "list_all (span_ok n) (merge_spans s ss)" by auto
    moreover have "ps_end lst \<le> ps_start r" if "r \<in> set (merge_spans s ss)" for r
      using merge_start [OF that] 2(3) False by simp
    ultimately show ?thesis using False 2(4) by (simp add: disjoint_spans_def)
  qed
qed (simp add: disjoint_spans_def)

lemma merge_covers:
  "sorted (map ps_start (lst # ss)) \<Longrightarrow> list_ex (covers k) (merge_spans lst ss) \<longleftrightarrow> list_ex (covers k) (lst # ss)"
proof (induction lst ss rule: merge_spans.induct)
  case (2 lst s ss)
  show ?case
  proof (cases "ps_start s < ps_end lst")
    case True
    with 2 have "list_ex (covers k) (merge_spans lst (s # ss)) \<longleftrightarrow>
        covers k (lst\<lparr>ps_end := max (ps_end lst) (ps_end s)\<rparr>) \<or> list_ex (covers k) ss"
      by (simp add: covers_def [abs_def] split del: if_split)
    also have "covers k (lst\<lparr>ps_end := max (ps_end lst) (ps_end s)\<rparr>) \<longleftrightarrow> covers k lst \<or> covers k s"
      using True 2(3) by (auto simp: covers_def)
    finally show ?thesis by simp
  next
    case False
    with 2 show ?thesis by simp
  qed
qed simp

lemma merge_inside:
  "sorted (map ps_start (lst # ss)) \<Longrightarrow> s \<in> set (lst # ss) \<Longrightarrow> \<exists>r \<in> set (merge_spans lst ss). inside s r"
proof (induction lst ss arbitrary: s rule: merge_spans.induct)
  case (2 lst t ss)
  show ?case
  proof (cases "ps_start t < ps_end lst")
    case True
    let ?l = "lst\<lparr>ps_end := max (ps_end lst) (ps_end t),
       ps_category := (if index_of SPAN_PRIORITY (ps_category t) < index_of SPAN_PRIORITY (ps_category lst) then ps_category t else ps_category lst)\<rparr>"
    have l: "inside lst ?l" "inside t ?l" using 2(3) by (auto simp: inside_def)
    have ih: "\<exists>r \<in> set (merge_spans ?l ss). inside q r" if "q \<in> set (?l # ss)" for q
      using 2(1) [OF True _ that] 2(3) by simp
    from 2(4) consider "s \<in> {lst, t}" | "s \<in> set ss" by auto
    then show ?thesis
    proof cases
      case 1
      with l have "inside s ?l" by auto
      with ih [of ?l] True show ?thesis by (auto intro: inside_trans)
    next
      case 2
      with ih [of s] True show ?thesis by simp
    qed
  next
    case False
    with 2 show ?thesis by auto
  qed
qed simp

lemma span_order_sorted: "sorted (map ps_start (span_order ss))"
  by (simp add: span_order_def)

lemma set_span_order [simp]: "set (span_order ss) = set ss"
  by (simp add: span_order_def)

lemma found_cases:
  obtains "findPiiSpans txt = []" "raw_spans txt = []" |
    s ss where "span_order (raw_spans txt) = s # ss" "findPiiSpans txt = merge_spans s ss" "sorted (map ps_start (s # ss))"
      "set (s # ss) = set (raw_spans txt)"
proof (cases "span_order (raw_spans txt)")
  case Nil
  then have "set (raw_spans txt) = {}" using set_span_order [of "raw_spans txt"] by simp
  with Nil show ?thesis using that(1) by (simp add: findPiiSpans_def)
next
  case (Cons s ss)
  have r: "set (s # ss) = set (raw_spans txt)" using set_span_order [of "raw_spans txt"] Cons by simp
  then have "txt \<noteq> []" by auto
  with Cons r span_order_sorted [of "raw_spans txt"] show ?thesis using that(2) [of s ss] by (simp add: findPiiSpans_def)
qed

lemma found_disjoint: "disjoint_spans (findPiiSpans txt) \<and> list_all (span_ok (length txt)) (findPiiSpans txt)"
proof (cases rule: found_cases [of "txt"])
  case (2 s ss)
  have "list_all (span_ok (length txt)) (s # ss)"
    using all_spans_ok [of _ "txt"] 2(4) unfolding raw_spans_all list_all_iff by blast
  with merge_disjoint [OF 2(3)] 2(2) show ?thesis by simp
qed (simp add: disjoint_spans_def)

lemma found_covers: "list_ex (covers k) (findPiiSpans txt) \<longleftrightarrow> list_ex (covers k) (raw_spans txt)"
proof (cases rule: found_cases [of "txt"])
  case (2 s ss)
  with merge_covers [OF 2(3), of k] show ?thesis unfolding list_ex_iff by metis
qed simp

lemma found_inside:
  assumes "s \<in> set (raw_spans txt)"
  shows "\<exists>r \<in> set (findPiiSpans txt). inside s r"
proof (cases rule: found_cases [of "txt"])
  case (2 q ss)
  have "s \<in> set (q # ss)" using assms 2(4) by blast
  with merge_inside [OF 2(3)] 2(2) show ?thesis by simp
qed (use assms in simp)

text \<open>C33. The spans found are in order, disjoint and within the text, and each match, of an IBAN, a card, an e-mail address, a
  number, lies in one of them, whose category is as important as its own.\<close>

theorem pii_spans_right:
  "disjoint_spans (findPiiSpans txt) \<and> list_all (span_ok (length txt)) (findPiiSpans txt) \<and>
   list_all (\<lambda>s. list_ex (inside s) (findPiiSpans txt)) (raw_spans txt)"
  using found_disjoint found_inside by (simp add: list_all_iff list_ex_iff)

subsection \<open>Redaction\<close>

text \<open>Character by character: what no match covers is kept, what a match covers is dropped, and where a span starts stands the
  placeholder of its category.\<close>

definition starting :: "pii_span list \<Rightarrow> nat \<Rightarrow> string" where
  "starting ss k = (case find (\<lambda>x. ps_start x = k) ss of Some x \<Rightarrow> piiPlaceholder (ps_category x) | None \<Rightarrow> [])"

definition kept_char :: "pii_span list \<Rightarrow> string \<Rightarrow> nat \<Rightarrow> string" where
  "kept_char ms txt k = (if list_ex (covers k) ms then [] else [txt ! k])"

lemma starting_Cons: "starting (s # ss) k = (if ps_start s = k then piiPlaceholder (ps_category s) else starting ss k)"
  by (simp add: starting_def)

lemma starting_none: "(\<And>x. x \<in> set ss \<Longrightarrow> ps_start x \<noteq> k) \<Longrightarrow> starting ss k = []"
  by (induction ss) (simp_all add: starting_def)

lemma concat_const_Nil: "(\<And>k. k \<in> set ks \<Longrightarrow> f k = []) \<Longrightarrow> concat (map f ks) = []"
  by simp

lemma concat_chars: "a \<le> b \<Longrightarrow> b \<le> length txt \<Longrightarrow> (\<And>k. a \<le> k \<Longrightarrow> k < b \<Longrightarrow> f k = [txt ! k]) \<Longrightarrow> concat (map f [a..<b]) = slice a b txt"
proof (induction "b - a" arbitrary: a)
  case (Suc n)
  then have "a < b" "a < length txt" by auto
  with Suc show ?case by (simp add: upt_conv_Cons Cons_nth_drop_Suc [symmetric] take_Cons' flip: Suc_diff_Suc)
qed simp

lemma upt_parts: "i \<le> j \<Longrightarrow> j \<le> k \<Longrightarrow> [i..<k] = [i..<j] @ [j..<k]"
  using upt_add_eq_append [of i j "k - j"] by simp

lemma not_covered_before: "list_all (\<lambda>x. b \<le> ps_start x) ss \<Longrightarrow> k < b \<Longrightarrow> \<not> list_ex (covers k) ss \<and> starting ss k = []"
  by (auto simp: list_ex_iff list_all_iff covers_def intro!: starting_none)

lemma redact_from_chars:
  assumes "disjoint_spans ss" "list_all (span_ok (length txt)) ss" "list_all (\<lambda>x. pos \<le> ps_start x) ss" "pos \<le> length txt"
  shows "redact_from txt pos ss = concat (map (\<lambda>k. starting ss k @ kept_char ss txt k) [pos..<length txt])"
  using assms
proof (induction ss arbitrary: pos)
  case Nil
  then show ?case
    using concat_chars [of pos "length txt" "txt" "\<lambda>k. starting [] k @ kept_char [] txt k"] by (simp add: starting_def kept_char_def)
next
  case (Cons s ss)
  let ?f = "\<lambda>k. starting (s # ss) k @ kept_char (s # ss) txt k"
  have b: "pos \<le> ps_start s" "ps_start s < ps_end s" "ps_end s \<le> length txt" and later: "list_all (\<lambda>x. ps_end s \<le> ps_start x) ss"
    using Cons.prems by (auto simp: span_ok_def disjoint_spans_def list_all_iff)
  have ih: "redact_from txt (ps_end s) ss = concat (map (\<lambda>k. starting ss k @ kept_char ss txt k) [ps_end s..<length txt])"
    by (rule Cons.IH) (use Cons.prems b later in \<open>simp_all add: disjoint_spans_def\<close>)
  note none = not_covered_before [OF later]
  have before: "concat (map ?f [pos..<ps_start s]) = slice pos (ps_start s) txt"
    by (rule concat_chars) (use b none in \<open>auto simp: starting_Cons kept_char_def covers_def\<close>)
  have start: "?f (ps_start s) = piiPlaceholder (ps_category s)" using b(2) by (simp add: starting_Cons kept_char_def covers_def)
  have within: "concat (map ?f [Suc (ps_start s)..<ps_end s]) = []"
    by (rule concat_const_Nil) (use none in \<open>auto simp: starting_Cons kept_char_def covers_def\<close>)
  have after: "map ?f [ps_end s..<length txt] = map (\<lambda>k. starting ss k @ kept_char ss txt k) [ps_end s..<length txt]"
    by (rule map_cong) (use b(2) in \<open>auto simp: starting_Cons kept_char_def covers_def\<close>)
  have "[pos..<length txt] = [pos..<ps_start s] @ ps_start s # [Suc (ps_start s)..<ps_end s] @ [ps_end s..<length txt]"
    using upt_parts [of pos "ps_start s" "length txt"] upt_parts [of "ps_start s" "ps_end s" "length txt"] b by (simp add: upt_conv_Cons)
  then have "concat (map ?f [pos..<length txt]) = slice pos (ps_start s) txt @ piiPlaceholder (ps_category s) @
      concat (map (\<lambda>k. starting ss k @ kept_char ss txt k) [ps_end s..<length txt])"
    by (simp only: map_append list.map concat_append concat.simps before start within after append_Nil)
  with ih show ?case by simp
qed

text \<open>C34. Redaction is exact: of the text every character outside the matches is kept, in its order, every character a match covers
  is dropped, and each span leaves the placeholder of its category where it started.\<close>

theorem redaction_exact:
  "redactPii txt = concat (map (\<lambda>k. starting (findPiiSpans txt) k @ kept_char (raw_spans txt) txt k) [0..<length txt])"
proof -
  have "redactPii txt = redact_from txt 0 (findPiiSpans txt)" by (simp add: redactPii_def Let_def)
  also have "\<dots> = concat (map (\<lambda>k. starting (findPiiSpans txt) k @ kept_char (findPiiSpans txt) txt k) [0..<length txt])"
    by (rule redact_from_chars) (use found_disjoint in \<open>auto simp: list_all_iff\<close>)
  finally show ?thesis by (simp add: kept_char_def found_covers)
qed

end
