(* ===== verification/Hook_Executor.thy ===== *)
theory Hook_Executor
  imports Prelude
begin

text \<open>
  The hooks of a request (\<open>src/middlewares/hooks/index.ts\<close>, \<open>types.ts\<close>): the span of a request with the context the checks see, the
  run of each hook with its checks in sequence or at once, the verdict of a hook, and \<open>executeHooks\<close>, which runs hooks
  concurrently. What a check answers is an event \<open>(i, j, outcome)\<close>: check \<open>j\<close> of hook \<open>i\<close> is done; the events of a run come in any
  order the running checks allow. The plugins behind the checks are not modelled: their outcomes are arbitrary. Times, ids of
  spans and the reporting callback, whose failure is ignored, are left out.
\<close>

subsection \<open>Data\<close>

datatype hook_event = Before_request | After_request

record gate_check =
  gck_id :: "json option"
  gck_parameters :: "json option"
  gck_is_enabled :: "json option"

record hook_feedback =
  hfb_value :: "json option"
  hfb_weight :: "json option"
  hfb_metadata :: "(string, json) jmap"

record gate_hook =
  gho_type :: string
  gho_id :: "json option"
  gho_checks :: "gate_check list option"
  gho_async :: bool
  gho_sequential :: bool
  gho_deny :: bool
  gho_event :: hook_event
  gho_onFail :: "hook_feedback option"
  gho_onSuccess :: "hook_feedback option"

record hook_context =
  hct_requestJson :: json
  hct_requestText :: "json option"
  hct_streaming :: bool
  hct_requestTransformed :: bool
  hct_headers :: "(string, string) jmap"
  hct_responseJson :: json
  hct_responseText :: "json option"
  hct_statusCode :: "nat option"
  hct_responseTransformed :: bool
  hct_provider :: string
  hct_requestType :: string
  hct_metadata :: json

text \<open>What a plugin hands back: \<open>Broken\<close> is a \<open>transformedData\<close> without a request or a response object.\<close>

datatype body_transform = No_transform | Transform "json option" "json option" | Broken

record plugin_result =
  plr_verdict :: "json option"
  plr_error :: "(json option \<times> json option) option"
  plr_data :: "json option"
  plr_transformed :: bool
  plr_transformedData :: body_transform
  plr_log :: "json option"

datatype plugin_outcome = Plugin_throws | Plugin_returns plugin_result

record check_result =
  ckr_verdict :: "json option"
  ckr_error :: "(json option \<times> json option) option"
  ckr_id :: string
  ckr_data :: json
  ckr_log :: "json option"
  ckr_transformed :: bool
  ckr_fail_on_error :: bool

record hook_report =
  hre_id :: "json option"
  hre_type :: string
  hre_skipped :: bool
  hre_verdict :: bool
  hre_transformed :: bool
  hre_checks :: "check_result list"
  hre_feedback :: "hook_feedback option"
  hre_async :: bool
  hre_deny :: bool

record hook_span =
  hsp_context :: hook_context
  hsp_before :: "gate_hook list"
  hsp_after :: "gate_hook list"
  hsp_parent :: "string option"
  hsp_beforeResults :: "hook_report list"
  hsp_afterResults :: "hook_report list"

text \<open>\<open>String\<close> on a JSON value, and on the number that indexes the last element of an object with a \<open>length\<close>.\<close>

record text_env =
  txe_string :: "json \<Rightarrow> string"
  txe_number :: "jsnum \<Rightarrow> string"

subsection \<open>The text of a request or a response\<close>

text \<open>Reading a property throws on \<open>undefined\<close> and \<open>null\<close>: the outer \<open>None\<close>.\<close>

definition read_prop :: "json option \<Rightarrow> string \<Rightarrow> json option option" where
  "read_prop v n = (if present v = None then None else Some (prop_of v n))"

fun truthy_length :: "json option \<Rightarrow> bool" where
  "truthy_length (Some (JArr vs)) = (vs \<noteq> [])"
| "truthy_length (Some (JStr s)) = (s \<noteq> [])"
| "truthy_length v = truthy_json (prop_of v ''length'')"

fun last_item :: "text_env \<Rightarrow> json option \<Rightarrow> json option" where
  "last_item env (Some (JArr vs)) = Some (last vs)"
| "last_item env (Some (JStr s)) = Some (JStr [last s])"
| "last_item env v = prop_of v (txe_number env (js_add (js_to_number (json_or (prop_of v ''length'') JNull)) (Fin (-1))))"

fun first_item :: "json option \<Rightarrow> json option" where
  "first_item (Some (JArr vs)) = Some (hd vs)"
| "first_item (Some (JStr s)) = Some (JStr [hd s])"
| "first_item v = prop_of v ''0''"

text \<open>\<open>vs.join('\n')\<close>: \<open>undefined\<close> and \<open>null\<close> count as empty.\<close>

fun part_string :: "text_env \<Rightarrow> json option \<Rightarrow> string" where
  "part_string env None = []"
| "part_string env (Some JNull) = []"
| "part_string env (Some (JStr s)) = s"
| "part_string env (Some v) = txe_string env v"

abbreviation join_lines :: "text_env \<Rightarrow> json option list \<Rightarrow> string" where
  "join_lines env vs \<equiv> join [CHR 0x0A] (map (part_string env) vs)"

abbreviation has_type :: "string list \<Rightarrow> json \<Rightarrow> bool" where
  "has_type ts v \<equiv> (case prop_of (Some v) ''type'' of Some (JStr t) \<Rightarrow> t \<in> set ts | _ \<Rightarrow> False)"

definition extractResponsesApiInputText :: "text_env \<Rightarrow> json \<Rightarrow> string" where
  "extractResponsesApiInputText env item =
    (let other = (case prop_of (Some item) ''output'' of
                    Some (JStr t) \<Rightarrow> if has_type [''function_call_output''] item then t else [] | _ \<Rightarrow> []) in
     if has_type [''message''] item \<or> truthy_json (prop_of (Some item) ''role'')
     then (case prop_of (Some item) ''content'' of
             Some (JStr t) \<Rightarrow> t
           | Some (JArr cs) \<Rightarrow> join_lines env (filter truthy_json (map (\<lambda>c. prop_of (Some c) ''text'') (filter (has_type [''input_text'', ''text'']) cs)))
           | _ \<Rightarrow> other)
     else other)"

definition message_text :: "text_env \<Rightarrow> json option \<Rightarrow> json option option" where
  "message_text env message =
    (case read_prop message ''content'' of
       None \<Rightarrow> None
     | Some content \<Rightarrow>
        (case (case content of Some (JArr parts) \<Rightarrow> map_option (join_lines env) (those (map (\<lambda>p. read_prop (Some p) ''text'') parts)) | _ \<Rightarrow> Some []) of
           None \<Rightarrow> None
         | Some t \<Rightarrow> Some (if t \<noteq> [] then Some (JStr t) else content)))"

definition extractRequestText :: "text_env \<Rightarrow> json \<Rightarrow> json option option" where
  "extractRequestText env params =
    (let g = prop_of (Some params) in
     if truthy_json (g ''prompt'') then Some (g ''prompt'')
     else if truthy_length (g ''messages'') then message_text env (last_item env (g ''messages''))
     else if truthy_json (g ''input'')
     then (case g ''input'' of
             Some (JArr items) \<Rightarrow> Some (Some (JStr (join [CHR 0x0A] (filter (\<lambda>t. t \<noteq> [])
                (map (\<lambda>i. case i of JStr t \<Rightarrow> t | _ \<Rightarrow> extractResponsesApiInputText env i) items)))))
           | v \<Rightarrow> Some v)
     else Some (Some (JStr [])))"

definition output_text :: "text_env \<Rightarrow> json \<Rightarrow> string" where
  "output_text env r =
    (case prop_of (Some r) ''output'' of
       Some (JArr items) \<Rightarrow>
         (let parts = concat (map (\<lambda>i. let c = prop_of (Some i) ''content'' in
                        if truthy_json c then (case c of Some (JArr cs) \<Rightarrow> cs | Some v \<Rightarrow> [v] | None \<Rightarrow> []) else [])
                      (filter (has_type [''message'']) items))
          in join_lines env (filter truthy_json (map (\<lambda>c. if has_type [''output_text'', ''text''] c then prop_of (Some c) ''text''
                  else if has_type [''refusal''] c then prop_of (Some c) ''refusal'' else Some (JStr [])) parts)))
     | _ \<Rightarrow> [])"

definition extractResponseText :: "text_env \<Rightarrow> json \<Rightarrow> json option option" where
  "extractResponseText env r =
    (let choices = prop_of (Some r) ''choices''; other = Some (Some (JStr (output_text env r))) in
     if truthy_length choices
     then (let choice = first_item choices; content = prop_of (prop_of choice ''message'') ''content'' in
           case read_prop choice ''text'' of
             None \<Rightarrow> None
           | Some t \<Rightarrow>
              if truthy_json t then Some t
              else if truthy_json content
              then Some (if truthy_json (prop_of content ''text'') then prop_of content ''text'' else content)
              else other)
     else other)"

subsection \<open>The span\<close>

definition createContext ::
  "text_env \<Rightarrow> json \<Rightarrow> json \<Rightarrow> string \<Rightarrow> bool \<Rightarrow> string \<Rightarrow> (string, string) jmap \<Rightarrow> hook_context option" where
  "createContext env params metadata provider streaming requestType headers =
    map_option (\<lambda>t. \<lparr>hct_requestJson = params, hct_requestText = t, hct_streaming = streaming, hct_requestTransformed = False,
       hct_headers = headers, hct_responseJson = JObj [], hct_responseText = Some (JStr []), hct_statusCode = None,
       hct_responseTransformed = False, hct_provider = provider, hct_requestType = requestType, hct_metadata = metadata\<rparr>)
      (extractRequestText env params)"

definition initializeHooks :: "hook_event \<Rightarrow> gate_hook list \<Rightarrow> gate_hook list" where
  "initializeHooks event hooks = map (\<lambda>h. h\<lparr>gho_event := event\<rparr>) hooks"

text \<open>\<open>new HookSpan\<close>; \<open>None\<close> where the text of the request cannot be read.\<close>

definition new_HookSpan ::
  "text_env \<Rightarrow> json \<Rightarrow> json \<Rightarrow> string \<Rightarrow> bool \<Rightarrow> gate_hook list \<Rightarrow> gate_hook list \<Rightarrow> string option \<Rightarrow> string \<Rightarrow>
   (string, string) jmap \<Rightarrow> hook_span option" where
  "new_HookSpan env params metadata provider streaming before after parent requestType headers =
    map_option (\<lambda>c. \<lparr>hsp_context = c, hsp_before = initializeHooks Before_request before, hsp_after = initializeHooks After_request after,
       hsp_parent = parent, hsp_beforeResults = [], hsp_afterResults = []\<rparr>)
      (createContext env params metadata provider streaming requestType headers)"

text \<open>\<open>setContextResponse\<close>; \<open>None\<close> where the text of the response cannot be read.\<close>

definition setContextResponse :: "text_env \<Rightarrow> json \<Rightarrow> nat \<Rightarrow> hook_span \<Rightarrow> hook_span option" where
  "setContextResponse env r status sp =
    map_option (\<lambda>t. sp\<lparr>hsp_context := (hsp_context sp)\<lparr>hct_responseJson := r, hct_responseText := t, hct_statusCode := Some status\<rparr>\<rparr>)
      (extractResponseText env r)"

text \<open>\<open>setContextAfterTransform\<close>: each half that is given replaces the JSON, then its text is read, which may throw.\<close>

definition transform_response :: "text_env \<Rightarrow> json \<Rightarrow> hook_context \<Rightarrow> hook_context \<times> bool" where
  "transform_response env r c =
    (let c1 = c\<lparr>hct_responseJson := r\<rparr> in
     case extractResponseText env r of None \<Rightarrow> (c1, False)
     | Some t \<Rightarrow> (c1\<lparr>hct_responseText := t, hct_responseTransformed := True\<rparr>, True))"

definition transform_request :: "text_env \<Rightarrow> json \<Rightarrow> hook_context \<Rightarrow> hook_context \<times> bool" where
  "transform_request env r c =
    (let c1 = c\<lparr>hct_requestJson := r\<rparr> in
     case extractRequestText env r of None \<Rightarrow> (c1, False)
     | Some t \<Rightarrow> (c1\<lparr>hct_requestText := t, hct_requestTransformed := True\<rparr>, True))"

definition setContextAfterTransform :: "text_env \<Rightarrow> json option \<Rightarrow> json option \<Rightarrow> hook_context \<Rightarrow> hook_context \<times> bool" where
  "setContextAfterTransform env response request c =
    (case (if truthy_json response then transform_response env (the response) c else (c, True)) of
       (c1, False) \<Rightarrow> (c1, False)
     | (c1, True) \<Rightarrow> if truthy_json request then transform_request env (the request) c1 else (c1, True))"

definition addHookResult :: "hook_event \<Rightarrow> hook_report \<Rightarrow> hook_span \<Rightarrow> hook_span" where
  "addHookResult event r sp =
    (case event of Before_request \<Rightarrow> sp\<lparr>hsp_beforeResults := hsp_beforeResults sp @ [r]\<rparr>
     | After_request \<Rightarrow> sp\<lparr>hsp_afterResults := hsp_afterResults sp @ [r]\<rparr>)"

definition resetHookResult :: "hook_event \<Rightarrow> hook_span \<Rightarrow> hook_span" where
  "resetHookResult event sp =
    (case event of Before_request \<Rightarrow> sp\<lparr>hsp_beforeResults := []\<rparr> | After_request \<Rightarrow> sp\<lparr>hsp_afterResults := []\<rparr>)"

subsection \<open>A check\<close>

definition failOnError :: "gate_check \<Rightarrow> bool" where
  "failOnError c \<longleftrightarrow> truthy_json (prop_of (gck_parameters c) ''failOnError'')"

definition check_name :: "gate_check \<Rightarrow> string" where
  "check_name c = (case gck_id c of Some (JStr i) \<Rightarrow> i | _ \<Rightarrow> [])"

text \<open>\<open>executeFunction\<close> on what the plugin did; a check whose id is no string throws before (\<open>runnable\<close>). A result is data first,
  then the transformation it asks for.\<close>

definition runnable :: "gate_check \<Rightarrow> bool" where
  "runnable c \<longleftrightarrow> gck_id c = Some (JStr (check_name c))"

definition data_or_null :: "json option \<Rightarrow> json" where
  "data_or_null v = (if truthy_json v then the v else JNull)"

definition executeFunction :: "gate_check \<Rightarrow> plugin_outcome \<Rightarrow> check_result \<times> body_transform" where
  "executeFunction c out =
    (case out of
       Plugin_throws \<Rightarrow>
         (\<lparr>ckr_verdict = Some (JBool False), ckr_error = Some (Some (JStr ''Check error''), Some (JStr ''Error executing check'')),
           ckr_id = check_name c, ckr_data = JNull, ckr_log = None, ckr_transformed = False, ckr_fail_on_error = failOnError c\<rparr>, No_transform)
     | Plugin_returns r \<Rightarrow>
         (\<lparr>ckr_verdict = (if plr_error r \<noteq> None then Some (JBool False) else plr_verdict r), ckr_error = plr_error r, ckr_id = check_name c,
           ckr_data = data_or_null (plr_data r), ckr_log = Some (data_or_null (plr_log r)), ckr_transformed = plr_transformed r,
           ckr_fail_on_error = failOnError c\<rparr>, plr_transformedData r))"

text \<open>The transformation a check asked for; throws on a broken one.\<close>

definition apply_transform :: "text_env \<Rightarrow> body_transform \<Rightarrow> hook_context \<Rightarrow> hook_context \<times> bool" where
  "apply_transform env t c =
    (case t of No_transform \<Rightarrow> (c, True) | Broken \<Rightarrow> (c, False)
     | Transform response request \<Rightarrow>
        if truthy_json response \<or> truthy_json request then setContextAfterTransform env response request c else (c, True))"

fun apply_transforms :: "text_env \<Rightarrow> body_transform list \<Rightarrow> hook_context \<Rightarrow> hook_context \<times> bool" where
  "apply_transforms env [] c = (c, True)"
| "apply_transforms env (t # ts) c = (case apply_transform env t c of (c1, True) \<Rightarrow> apply_transforms env ts c1 | (c1, False) \<Rightarrow> (c1, False))"

subsection \<open>A hook\<close>

definition getCheckIds :: "check_result list \<Rightarrow> bool \<Rightarrow> bool \<Rightarrow> string" where
  "getCheckIds rs successful errored =
    join '', '' (map ckr_id (filter (\<lambda>r. if successful then ckr_verdict r = Some (JBool True)
        else ckr_verdict r = Some (JBool False) \<and> errored = (ckr_error r \<noteq> None)) rs))"

definition createFeedbackObject :: "check_result list \<Rightarrow> hook_feedback option \<Rightarrow> hook_feedback option \<Rightarrow> hook_feedback option" where
  "createFeedbackObject rs onFail onSuccess =
    map_option (\<lambda>f. f\<lparr>hfb_metadata := jm_set ''erroredChecks'' (JStr (getCheckIds rs False True))
        (jm_set ''failedChecks'' (JStr (getCheckIds rs False False)) (jm_set ''successfulChecks'' (JStr (getCheckIds rs True False)) (hfb_metadata f)))\<rparr>)
      (if list_all (\<lambda>r. truthy_json (ckr_verdict r) \<or> ckr_error r \<noteq> None) rs then onSuccess else onFail)"

definition check_passes :: "check_result \<Rightarrow> bool" where
  "check_passes r \<longleftrightarrow> truthy_json (ckr_verdict r) \<or> (ckr_error r \<noteq> None \<and> \<not> ckr_fail_on_error r)"

definition report_of :: "gate_hook \<Rightarrow> check_result list \<Rightarrow> hook_report" where
  "report_of h rs =
    (let verdict = list_all check_passes rs in
     \<lparr>hre_id = gho_id h, hre_type = gho_type h, hre_skipped = False, hre_verdict = verdict, hre_transformed = list_ex ckr_transformed rs,
      hre_checks = rs, hre_feedback = createFeedbackObject rs (gho_onFail h) (gho_onSuccess h), hre_async = gho_async h,
      hre_deny = (gho_deny h \<and> \<not> verdict)\<rparr>)"

definition skipped_report :: "gate_hook \<Rightarrow> hook_report" where
  "skipped_report h = \<lparr>hre_id = gho_id h, hre_type = gho_type h, hre_skipped = True, hre_verdict = False, hre_transformed = False,
     hre_checks = [], hre_feedback = None, hre_async = False, hre_deny = False\<rparr>"

definition HOOK_REQUESTS :: "string list" where
  "HOOK_REQUESTS = [''chatComplete'', ''complete'', ''embed'', ''messages'', ''createModelResponse'']"

definition shouldSkipHook :: "hook_context \<Rightarrow> string option \<Rightarrow> gate_hook \<Rightarrow> bool" where
  "shouldSkipHook c parent h \<longleftrightarrow>
    hct_requestType c \<notin> set HOOK_REQUESTS \<or>
    (hct_requestType c = ''embed'' \<and> gho_event h \<noteq> Before_request) \<or>
    (hct_requestType c = ''embed'' \<and> gho_type h = ''mutator'') \<or>
    (gho_event h = After_request \<and> hct_statusCode c \<noteq> Some 200) \<or>
    (gho_event h = Before_request \<and> parent \<noteq> None) \<or>
    (gho_type h = ''mutator'' \<and> gho_async h)"

text \<open>The checks of a hook that are run: a mutator runs all of them, a guardrail those not switched off.\<close>

definition checks_run :: "gate_hook \<Rightarrow> gate_check list" where
  "checks_run h =
    (case gho_checks h of None \<Rightarrow> []
     | Some cs \<Rightarrow> if gho_type h = ''mutator'' then cs
                  else if gho_type h = ''guardrail'' then filter (\<lambda>c. gck_is_enabled c \<noteq> Some (JBool False)) cs else [])"

definition in_sequence :: "gate_hook \<Rightarrow> bool" where
  "in_sequence h \<longleftrightarrow> gho_type h = ''mutator'' \<or> gho_sequential h"

subsection \<open>The executor\<close>

text \<open>A hook under way: the checks left in sequence, the head running, with the results so far; or all checks at once, with those
  that are back and what they transform.\<close>

datatype hook_proc =
    Serial "gate_check list" "check_result list"
  | Parallel "gate_check list" "(check_result \<times> body_transform) option list"
  | Finished hook_report
  | Crashed

text \<open>A hook is done: its result enters the span.\<close>

definition finish_hook :: "gate_hook \<Rightarrow> check_result list \<Rightarrow> hook_span \<Rightarrow> hook_proc \<times> hook_span" where
  "finish_hook h rs sp = (Finished (report_of h rs), addHookResult (gho_event h) (report_of h rs) sp)"

fun next_check :: "gate_hook \<Rightarrow> gate_check list \<Rightarrow> check_result list \<Rightarrow> hook_span \<Rightarrow> hook_proc \<times> hook_span" where
  "next_check h [] rs sp = finish_hook h rs sp"
| "next_check h (c # cs) rs sp = (if runnable c then Serial (c # cs) rs else Crashed, sp)"

definition all_back :: "gate_hook \<Rightarrow> gate_check list \<Rightarrow> (check_result \<times> body_transform) option list \<Rightarrow> text_env \<Rightarrow> hook_span \<Rightarrow> hook_proc \<times> hook_span" where
  "all_back h cs outs env sp =
    (if None \<in> set outs then (Parallel cs outs, sp)
     else case apply_transforms env (map (snd \<circ> the) outs) (hsp_context sp) of
       (c, ok) \<Rightarrow> let sp1 = sp\<lparr>hsp_context := c\<rparr> in if ok then finish_hook h (map (fst \<circ> the) outs) sp1 else (Crashed, sp1))"

text \<open>\<open>executeEachHook\<close> up to its first \<open>await\<close>.\<close>

definition start_hook :: "text_env \<Rightarrow> gate_hook \<Rightarrow> hook_span \<Rightarrow> hook_proc \<times> hook_span" where
  "start_hook env h sp =
    (if shouldSkipHook (hsp_context sp) (hsp_parent sp) h then (Finished (skipped_report h), sp)
     else if in_sequence h then next_check h (checks_run h) [] sp
     else if list_all runnable (checks_run h) then all_back h (checks_run h) (replicate (length (checks_run h)) None) env sp
     else (Crashed, sp))"

fun start_hooks :: "text_env \<Rightarrow> gate_hook list \<Rightarrow> hook_span \<Rightarrow> hook_proc list \<times> hook_span" where
  "start_hooks env [] sp = ([], sp)"
| "start_hooks env (h # hs) sp =
    (case start_hook env h sp of (p, sp1) \<Rightarrow> case start_hooks env hs sp1 of (ps, sp2) \<Rightarrow> (p # ps, sp2))"

text \<open>Check \<open>j\<close> of a hook is done; \<open>None\<close> when that check is not running.\<close>

fun check_done :: "text_env \<Rightarrow> gate_hook \<Rightarrow> hook_proc \<Rightarrow> nat \<Rightarrow> plugin_outcome \<Rightarrow> hook_span \<Rightarrow> (hook_proc \<times> hook_span) option" where
  "check_done env h (Serial (c # cs) rs) j out sp =
    (if j \<noteq> length rs then None
     else Some (case executeFunction c out of (r, t) \<Rightarrow>
       case apply_transform env t (hsp_context sp) of (c1, ok) \<Rightarrow>
         let sp1 = sp\<lparr>hsp_context := c1\<rparr> in if ok then next_check h cs (rs @ [r]) sp1 else (Crashed, sp1)))"
| "check_done env h (Parallel cs outs) j out sp =
    (if j < length outs \<and> outs ! j = None then Some (all_back h cs (outs[j := Some (executeFunction (cs ! j) out)]) env sp) else None)"
| "check_done env h p j out sp = None"

type_synonym check_event = "nat \<times> nat \<times> plugin_outcome"

record hook_run =
  hru_span :: hook_span
  hru_procs :: "hook_proc list"

definition run_event :: "text_env \<Rightarrow> gate_hook list \<Rightarrow> hook_run \<Rightarrow> check_event \<Rightarrow> hook_run option" where
  "run_event env hooks st e =
    (case e of (i, j, out) \<Rightarrow>
      if i < length hooks
      then map_option (\<lambda>(p, sp). \<lparr>hru_span = sp, hru_procs = (hru_procs st)[i := p]\<rparr>)
             (check_done env (hooks ! i) (hru_procs st ! i) j out (hru_span st))
      else None)"

text \<open>What \<open>executeHooks\<close> answers, once it does: an exception in any hook is caught and lets the request pass. (The run ends
  there; hooks that are still running then go on in the background, and what they change in the span after the answer is not
  modelled.)\<close>

definition denies :: "gate_hook \<Rightarrow> hook_report \<Rightarrow> bool" where
  "denies h r \<longleftrightarrow> \<not> hre_verdict r \<and> gho_deny h \<and> \<not> hre_skipped r"

definition report_in :: "hook_proc \<Rightarrow> hook_report option" where
  "report_in p = (case p of Finished r \<Rightarrow> Some r | _ \<Rightarrow> None)"

definition run_answer :: "gate_hook list \<Rightarrow> hook_proc list \<Rightarrow> (hook_report list \<times> bool) option" where
  "run_answer hooks procs =
    (if Crashed \<in> set procs then Some ([], False)
     else map_option (\<lambda>rs. (rs, list_ex (\<lambda>(h, r). denies h r) (zip hooks rs))) (those (map report_in procs)))"

text \<open>The run until its answer: \<open>None\<close> where the events are not those of a run.\<close>

fun run_events :: "text_env \<Rightarrow> gate_hook list \<Rightarrow> hook_run \<Rightarrow> check_event list \<Rightarrow> hook_run option" where
  "run_events env hooks st [] = Some st"
| "run_events env hooks st (e # es) =
    (if run_answer hooks (hru_procs st) \<noteq> None then None
     else Option.bind (run_event env hooks st e) (\<lambda>st1. run_events env hooks st1 es))"

definition getHooksToExecute :: "hook_span \<Rightarrow> string list \<Rightarrow> gate_hook list" where
  "getHooksToExecute sp presets =
    (if ''asyncBeforeRequestHook'' \<in> set presets then filter gho_async (hsp_before sp) else []) @
    (if ''syncBeforeRequestHook'' \<in> set presets then filter (\<lambda>h. \<not> gho_async h) (hsp_before sp) else []) @
    (if ''asyncAfterRequestHook'' \<in> set presets then filter gho_async (hsp_after sp) else []) @
    (if ''syncAfterRequestHook'' \<in> set presets then filter (\<lambda>h. \<not> gho_async h) (hsp_after sp) else [])"

definition executeHooks ::
  "text_env \<Rightarrow> string list \<Rightarrow> hook_span \<Rightarrow> check_event list \<Rightarrow> ((hook_report list \<times> bool) \<times> hook_span) option" where
  "executeHooks env presets sp events =
    (let hooks = getHooksToExecute sp presets in
     if hooks = [] then (if events = [] then Some (([], False), sp) else None)
     else case start_hooks env hooks sp of (ps, sp1) \<Rightarrow>
       Option.bind (run_events env hooks \<lparr>hru_span = sp1, hru_procs = ps\<rparr> events)
         (\<lambda>st. map_option (\<lambda>a. (a, hru_span st)) (run_answer hooks (hru_procs st))))"

subsection \<open>What a check means\<close>

text \<open>The outcome of check \<open>j\<close> of hook \<open>i\<close> in a run.\<close>

definition outcome_at :: "check_event list \<Rightarrow> nat \<Rightarrow> nat \<Rightarrow> plugin_outcome option" where
  "outcome_at events i j = map_of (map (\<lambda>(i, j, out). ((i, j), out)) events) (i, j)"

text \<open>A check stands in the way when it fails without an error, or when an error counts as failure.\<close>

definition check_fails :: "gate_check \<Rightarrow> plugin_outcome \<Rightarrow> bool" where
  "check_fails c out =
    (case out of Plugin_throws \<Rightarrow> failOnError c
     | Plugin_returns r \<Rightarrow> if plr_error r \<noteq> None then failOnError c else \<not> truthy_json (plr_verdict r))"

lemma check_passes_iff: "check_passes (fst (executeFunction c out)) \<longleftrightarrow> \<not> check_fails c out"
  by (auto simp: check_passes_def executeFunction_def check_fails_def split: plugin_outcome.splits)

definition ran_with :: "gate_check list \<Rightarrow> (nat \<Rightarrow> plugin_outcome option) \<Rightarrow> check_result list \<Rightarrow> bool" where
  "ran_with cs hist rs \<longleftrightarrow> length rs \<le> length cs \<and>
     (\<forall>j < length rs. \<exists>out. hist j = Some out \<and> rs ! j = fst (executeFunction (cs ! j) out))"

text \<open>The state of a hook agrees with the events so far.\<close>

fun proc_ok :: "gate_hook \<Rightarrow> bool \<Rightarrow> (nat \<Rightarrow> plugin_outcome option) \<Rightarrow> hook_proc \<Rightarrow> bool" where
  "proc_ok h skip hist (Serial cs rs) \<longleftrightarrow> \<not> skip \<and> in_sequence h \<and> cs = drop (length rs) (checks_run h) \<and> cs \<noteq> [] \<and> ran_with (checks_run h) hist rs \<and>
     (\<forall>j \<ge> length rs. hist j = None)"
| "proc_ok h skip hist (Parallel cs outs) \<longleftrightarrow> \<not> skip \<and> \<not> in_sequence h \<and> cs = checks_run h \<and> length outs = length cs \<and> None \<in> set outs \<and>
     (\<forall>j < length cs. outs ! j = map_option (executeFunction (cs ! j)) (hist j))"
| "proc_ok h skip hist (Finished r) \<longleftrightarrow>
     (if skip then r = skipped_report h
      else \<exists>rs. r = report_of h rs \<and> length rs = length (checks_run h) \<and> ran_with (checks_run h) hist rs)"
| "proc_ok h skip hist Crashed \<longleftrightarrow> True"

lemma ran_with_upd: "ran_with cs hist rs \<Longrightarrow> hist (length rs) = None \<Longrightarrow> length rs < length cs \<Longrightarrow>
    ran_with cs (hist(length rs \<mapsto> out)) (rs @ [fst (executeFunction (cs ! length rs) out)])"
  by (auto simp: ran_with_def nth_append less_Suc_eq)

lemma next_check_ok:
  assumes "cs = drop (length rs) (checks_run h)" "ran_with (checks_run h) hist rs" "\<forall>j \<ge> length rs. hist j = None" "\<not> skip" "in_sequence h"
  shows "proc_ok h skip hist (fst (next_check h cs rs sp))"
proof (cases cs)
  case Nil
  with assms have "length (checks_run h) \<le> length rs" "length rs \<le> length (checks_run h)" by (auto simp: ran_with_def)
  then have "length rs = length (checks_run h)" by simp
  with Nil assms show ?thesis by (auto simp: finish_hook_def)
qed (use assms in auto)

lemma all_back_ok:
  assumes "length outs = length (checks_run h)" "\<not> skip" "\<not> in_sequence h"
    "\<And>j. j < length outs \<Longrightarrow> outs ! j = map_option (executeFunction (checks_run h ! j)) (hist j)"
  shows "proc_ok h skip hist (fst (all_back h (checks_run h) outs env sp))"
proof (cases "None \<in> set outs")
  case True
  with assms show ?thesis by (simp add: all_back_def)
next
  case False
  have "ran_with (checks_run h) hist (map (fst \<circ> the) outs)"
    unfolding ran_with_def
  proof (intro conjI allI impI)
    fix j assume j: "j < length (map (fst \<circ> the) outs)"
    then have "outs ! j \<noteq> None" using False by (metis length_map nth_mem)
    with assms(4) [of j] j obtain out where "hist j = Some out" "outs ! j = Some (executeFunction (checks_run h ! j) out)" by (cases "hist j") auto
    with j show "\<exists>out. hist j = Some out \<and> map (fst \<circ> the) outs ! j = fst (executeFunction (checks_run h ! j) out)" by simp
  qed (use assms in simp)
  with False assms show ?thesis
    by (auto simp: all_back_def finish_hook_def Let_def split: prod.splits)
qed

lemma start_hook_ok:
  "proc_ok h (shouldSkipHook (hsp_context sp) (hsp_parent sp) h) (\<lambda>_. None) (fst (start_hook env h sp))"
proof (cases "shouldSkipHook (hsp_context sp) (hsp_parent sp) h")
  case False
  then show ?thesis
    by (auto simp: start_hook_def ran_with_def intro!: next_check_ok all_back_ok)
qed (simp add: start_hook_def)

lemma check_done_ok:
  assumes "check_done env h p j out sp = Some (p', sp')" "proc_ok h skip hist p"
  shows "proc_ok h skip (hist(j \<mapsto> out)) p' \<and> hist j = None"
proof (cases p)
  case (Serial cs rs)
  with assms obtain c cs' where cs: "cs = c # cs'" "j = length rs" by (cases cs) (auto split: if_splits)
  with Serial assms(2) have i: "\<not> skip" "in_sequence h" "c # cs' = drop (length rs) (checks_run h)" "ran_with (checks_run h) hist rs"
    "\<And>j. j \<ge> length rs \<Longrightarrow> hist j = None" by auto
  then have l: "length rs < length (checks_run h)" by (metis drop_all list.distinct(1) not_le_imp_less)
  with i(3) have c: "c = checks_run h ! length rs" "cs' = drop (Suc (length rs)) (checks_run h)"
    by (metis Cons_nth_drop_Suc list.inject)+
  let ?r = "fst (executeFunction c out)"
  have "proc_ok h skip (hist(j \<mapsto> out)) (fst (next_check h cs' (rs @ [?r]) s))" for s
    by (rule next_check_ok) (use i c l cs ran_with_upd [OF i(4) _ l, of out] in auto)
  with assms(1) Serial cs i(5) show ?thesis
    by (auto simp: Let_def split: prod.splits if_splits) (metis fst_conv)+
next
  case (Parallel cs outs)
  with assms have i: "j < length outs" "outs ! j = None" "\<not> skip" "\<not> in_sequence h" "cs = checks_run h" "length outs = length cs"
    "\<And>k. k < length cs \<Longrightarrow> outs ! k = map_option (executeFunction (cs ! k)) (hist k)"
    and p': "all_back h cs (outs[j := Some (executeFunction (cs ! j) out)]) env sp = (p', sp')" by (auto split: if_splits)
  have "hist j = None" using i(1,2,6) i(7) [of j] by simp
  moreover have "proc_ok h skip (hist(j \<mapsto> out)) (fst (all_back h (checks_run h) (outs[j := Some (executeFunction (cs ! j) out)]) env sp))"
    by (rule all_back_ok) (use i in \<open>auto simp: nth_list_update\<close>)
  ultimately show ?thesis using p' i(5) by simp
qed (use assms in simp_all)

subsection \<open>Runs\<close>

definition run_ok :: "gate_hook list \<Rightarrow> (gate_hook \<Rightarrow> bool) \<Rightarrow> check_event list \<Rightarrow> hook_run \<Rightarrow> bool" where
  "run_ok hooks skip past st \<longleftrightarrow> length (hru_procs st) = length hooks \<and>
     (\<forall>i < length hooks. proc_ok (hooks ! i) (skip (hooks ! i)) (outcome_at past i) (hru_procs st ! i))"

lemma outcome_at_Nil [simp]: "outcome_at [] i = (\<lambda>_. None)"
  by (simp add: outcome_at_def fun_eq_iff)

lemma outcome_at_snoc:
  "outcome_at past i j = None \<Longrightarrow> outcome_at (past @ [(i, j, out)]) k = (if k = i then (outcome_at past i)(j \<mapsto> out) else outcome_at past k)"
  by (auto simp: outcome_at_def fun_eq_iff map_add_def split: option.splits)

lemma run_event_ok:
  assumes "run_event env hooks st (i, j, out) = Some st'" "run_ok hooks skip past st"
  shows "run_ok hooks skip (past @ [(i, j, out)]) st'"
proof -
  from assms(1) obtain p sp where i: "i < length hooks" and d: "check_done env (hooks ! i) (hru_procs st ! i) j out (hru_span st) = Some (p, sp)"
    and st': "st' = \<lparr>hru_span = sp, hru_procs = (hru_procs st)[i := p]\<rparr>" by (auto simp: run_event_def split: if_splits)
  have "proc_ok (hooks ! i) (skip (hooks ! i)) (outcome_at past i) (hru_procs st ! i)" using assms(2) i by (simp add: run_ok_def)
  note n = check_done_ok [OF d this]
  then have o: "outcome_at (past @ [(i, j, out)]) k = (if k = i then (outcome_at past i)(j \<mapsto> out) else outcome_at past k)" for k
    by (simp add: outcome_at_snoc)
  from assms(2) n show ?thesis unfolding run_ok_def st' o by (auto simp: nth_list_update)
qed

lemma run_events_ok:
  "run_events env hooks st events = Some st' \<Longrightarrow> run_ok hooks skip past st \<Longrightarrow> run_ok hooks skip (past @ events) st'"
proof (induction env hooks st events arbitrary: past rule: run_events.induct)
  case (2 env hooks st e es)
  from 2(2) obtain st1 where st1: "run_event env hooks st e = Some st1" "run_events env hooks st1 es = Some st'"
    and a: "\<not> run_answer hooks (hru_procs st) \<noteq> None" by (auto split: if_splits Option.bind_splits)
  obtain i j out where e: "e = (i, j, out)" by (cases e)
  have "run_ok hooks skip (past @ [e]) st1" using run_event_ok [of env hooks st i j out st1] st1(1) 2(3) e by simp
  from 2(1) [OF a st1 this] show ?case by simp
qed simp

text \<open>Starting a hook changes neither the context nor the parent.\<close>

lemma next_check_span: "snd (next_check h cs rs sp) = sp \<or> (\<exists>r. snd (next_check h cs rs sp) = addHookResult (gho_event h) r sp)"
  by (cases cs) (auto simp: finish_hook_def)

lemma addHookResult_same [simp]:
  "hsp_context (addHookResult e r sp) = hsp_context sp" "hsp_parent (addHookResult e r sp) = hsp_parent sp"
  by (simp_all add: addHookResult_def split: hook_event.split)

lemma start_hook_same:
  "hsp_context (snd (start_hook env h sp)) = hsp_context sp \<and> hsp_parent (snd (start_hook env h sp)) = hsp_parent sp"
proof (cases "in_sequence h")
  case True
  then show ?thesis using next_check_span [of h "checks_run h" "[]" sp] by (auto simp: start_hook_def)
next
  case False
  then show ?thesis by (cases "checks_run h") (auto simp: start_hook_def all_back_def finish_hook_def)
qed

lemma start_hooks_ok:
  "length (fst (start_hooks env hooks sp)) = length hooks \<and>
   (\<forall>i < length hooks. proc_ok (hooks ! i) (shouldSkipHook (hsp_context sp) (hsp_parent sp) (hooks ! i)) (\<lambda>_. None) (fst (start_hooks env hooks sp) ! i))"
proof (induction env hooks sp rule: start_hooks.induct)
  case (2 env h hs sp)
  obtain p sp1 where p: "start_hook env h sp = (p, sp1)" by force
  have c: "hsp_context sp1 = hsp_context sp" "hsp_parent sp1 = hsp_parent sp" using start_hook_same [of env h sp] p by auto
  have "proc_ok h (shouldSkipHook (hsp_context sp) (hsp_parent sp) h) (\<lambda>_. None) p" using start_hook_ok [of h sp env] p by simp
  with 2 [OF p [symmetric]] c show ?case by (auto simp: p less_Suc_eq_0_disj split: prod.split)
qed simp

subsection \<open>The answer\<close>

abbreviation hook_skips :: "hook_span \<Rightarrow> gate_hook \<Rightarrow> bool" where
  "hook_skips sp \<equiv> shouldSkipHook (hsp_context sp) (hsp_parent sp)"

lemma those_Some: "those xs = Some ys \<longleftrightarrow> xs = map Some ys"
  by (induction xs arbitrary: ys) (auto split: option.splits)

lemma map_report_in:
  assumes "map report_in procs = map Some rs"
  shows "length rs = length procs \<and> (\<forall>i < length rs. procs ! i = Finished (rs ! i))"
proof (intro conjI allI impI)
  show l: "length rs = length procs" using assms by (metis length_map)
  fix i assume i: "i < length rs"
  then have "report_in (procs ! i) = Some (rs ! i)" using assms l by (metis nth_map)
  then show "procs ! i = Finished (rs ! i)" by (auto simp: report_in_def split: hook_proc.splits)
qed

lemma executeHooks_reports:
  assumes "executeHooks env presets sp events = Some ((rs, deny), sp')" "rs \<noteq> []"
  shows "length rs = length (getHooksToExecute sp presets)"
    and "i < length rs \<Longrightarrow> proc_ok (getHooksToExecute sp presets ! i) (hook_skips sp (getHooksToExecute sp presets ! i)) (outcome_at events i) (Finished (rs ! i))"
    and "deny \<longleftrightarrow> list_ex (\<lambda>(h, r). denies h r) (zip (getHooksToExecute sp presets) rs)"
proof -
  define hooks where "hooks = getHooksToExecute sp presets"
  obtain ps sp1 where s: "start_hooks env hooks sp = (ps, sp1)" by force
  from assms obtain st where run: "run_events env hooks \<lparr>hru_span = sp1, hru_procs = ps\<rparr> events = Some st"
    and ans: "run_answer hooks (hru_procs st) = Some (rs, deny)"
    by (auto simp: executeHooks_def hooks_def Let_def s [unfolded hooks_def] split: if_splits Option.bind_splits)
  have "run_ok hooks (hook_skips sp) [] \<lparr>hru_span = sp1, hru_procs = ps\<rparr>"
    using start_hooks_ok [of env hooks sp] s by (simp add: run_ok_def)
  from run_events_ok [OF run this] have ok: "length (hru_procs st) = length hooks"
    "\<And>i. i < length hooks \<Longrightarrow> proc_ok (hooks ! i) (hook_skips sp (hooks ! i)) (outcome_at events i) (hru_procs st ! i)"
    by (simp_all add: run_ok_def)
  from ans assms(2) have t: "those (map report_in (hru_procs st)) = Some rs" and d: "deny \<longleftrightarrow> list_ex (\<lambda>(h, r). denies h r) (zip hooks rs)"
    by (auto simp: run_answer_def split: if_splits)
  have "map report_in (hru_procs st) = map Some rs" using t by (simp add: those_Some)
  then have fin: "length rs = length (hru_procs st) \<and> (\<forall>i < length rs. hru_procs st ! i = Finished (rs ! i))"
    by (rule map_report_in)
  show "length rs = length (getHooksToExecute sp presets)" "deny \<longleftrightarrow> list_ex (\<lambda>(h, r). denies h r) (zip (getHooksToExecute sp presets) rs)"
    using fin ok(1) d by (simp_all add: hooks_def)
  show "i < length rs \<Longrightarrow> proc_ok (getHooksToExecute sp presets ! i) (hook_skips sp (getHooksToExecute sp presets ! i)) (outcome_at events i) (Finished (rs ! i))"
    using fin ok by (metis hooks_def)
qed

lemma hooks_deny_iff:
  assumes "executeHooks env presets sp events = Some ((rs, deny), sp')" "rs \<noteq> []"
  shows "deny \<longleftrightarrow> (\<exists>i j out. i < length (getHooksToExecute sp presets) \<and>
    gho_deny (getHooksToExecute sp presets ! i) \<and> \<not> hook_skips sp (getHooksToExecute sp presets ! i) \<and>
    j < length (checks_run (getHooksToExecute sp presets ! i)) \<and> outcome_at events i j = Some out \<and>
    check_fails (checks_run (getHooksToExecute sp presets ! i) ! j) out)"
proof -
  let ?h = "\<lambda>i. getHooksToExecute sp presets ! i"
  note r = executeHooks_reports [OF assms]
  have one: "denies (?h i) (rs ! i) \<longleftrightarrow> gho_deny (?h i) \<and> \<not> hook_skips sp (?h i) \<and>
      (\<exists>j out. j < length (checks_run (?h i)) \<and> outcome_at events i j = Some out \<and> check_fails (checks_run (?h i) ! j) out)" if i: "i < length rs" for i
  proof (cases "hook_skips sp (?h i)")
    case True
    with r(2) [OF i] show ?thesis by (simp add: denies_def skipped_report_def)
  next
    case False
    with r(2) [OF i] obtain qs where q: "rs ! i = report_of (?h i) qs" "length qs = length (checks_run (?h i))" "ran_with (checks_run (?h i)) (outcome_at events i) qs"
      by auto
    have "\<not> list_all check_passes qs \<longleftrightarrow> (\<exists>j < length qs. \<not> check_passes (qs ! j))" by (auto simp: list_all_length)
    also have "\<dots> \<longleftrightarrow> (\<exists>j out. j < length (checks_run (?h i)) \<and> outcome_at events i j = Some out \<and> check_fails (checks_run (?h i) ! j) out)"
      using q(2,3) check_passes_iff unfolding ran_with_def by (metis option.inject)
    finally show ?thesis using False q(1) by (auto simp: denies_def report_of_def)
  qed
  have "deny \<longleftrightarrow> (\<exists>i < length rs. denies (?h i) (rs ! i))" using r(1,3) by (auto simp: list_ex_length)
  with one r(1) show ?thesis by auto
qed

text \<open>C35. A run of hooks that is not cut short by an exception denies exactly when a hook that denies, and is not skipped, has a check
  that failed: without an error, or with one that its \<open>failOnError\<close> makes a failure. The order in which the checks came back and
  what they transformed do not matter.\<close>

theorem hooks_deny_exact:
  assumes "executeHooks env presets sp events = Some ((rs, deny), sp')" "rs \<noteq> []"
  shows "deny \<longleftrightarrow> (\<exists>i j out. i < length (getHooksToExecute sp presets) \<and>
    gho_deny (getHooksToExecute sp presets ! i) \<and> \<not> hook_skips sp (getHooksToExecute sp presets ! i) \<and>
    j < length (checks_run (getHooksToExecute sp presets ! i)) \<and> outcome_at events i j = Some out \<and>
    check_fails (checks_run (getHooksToExecute sp presets ! i) ! j) out)"
  using assms by (rule hooks_deny_iff)

text \<open>A word filter that denies, and a request on which its check fails.\<close>

definition sample_check :: gate_check where
  "sample_check = \<lparr>gck_id = Some (JStr ''default.contains''), gck_parameters = Some (JObj [(''operator'', JStr ''none'')]), gck_is_enabled = None\<rparr>"

definition sample_hook :: gate_hook where
  "sample_hook = \<lparr>gho_type = ''guardrail'', gho_id = Some (JStr ''g1''), gho_checks = Some [sample_check], gho_async = False,
     gho_sequential = False, gho_deny = True, gho_event = Before_request, gho_onFail = None, gho_onSuccess = None\<rparr>"

definition sample_text :: text_env where
  "sample_text = \<lparr>txe_string = (\<lambda>_. []), txe_number = (\<lambda>_. [])\<rparr>"

definition sample_hook_context :: hook_context where
  "sample_hook_context = \<lparr>hct_requestJson = JObj [(''prompt'', JStr ''badword'')], hct_requestText = Some (JStr ''badword''), hct_streaming = False,
     hct_requestTransformed = False, hct_headers = [], hct_responseJson = JObj [], hct_responseText = Some (JStr []),
     hct_statusCode = None, hct_responseTransformed = False, hct_provider = ''openai'', hct_requestType = ''complete'', hct_metadata = JObj []\<rparr>"

definition sample_span :: hook_span where
  "sample_span = \<lparr>hsp_context = sample_hook_context, hsp_before = [sample_hook], hsp_after = [], hsp_parent = None, hsp_beforeResults = [], hsp_afterResults = []\<rparr>"

definition sample_failure :: plugin_outcome where
  "sample_failure = Plugin_returns \<lparr>plr_verdict = Some (JBool False), plr_error = None, plr_data = None, plr_transformed = False,
     plr_transformedData = No_transform, plr_log = None\<rparr>"

lemmas sample_defs = sample_check_def sample_hook_def sample_hook_context_def sample_span_def sample_failure_def

lemma sample_created: "new_HookSpan sample_text (hct_requestJson sample_hook_context) (JObj []) ''openai'' False [sample_hook] [] None ''complete'' [] = Some sample_span"
  by (simp add: new_HookSpan_def createContext_def extractRequestText_def initializeHooks_def sample_defs Let_def)

lemma sample_hooks: "getHooksToExecute sample_span [''syncBeforeRequestHook''] = [sample_hook]"
  by (simp add: getHooksToExecute_def sample_span_def sample_hook_def)

lemma sample_hook_run:
  "map_option (\<lambda>((rs, d), _). (length rs, d)) (executeHooks sample_text [''syncBeforeRequestHook''] sample_span [(0, 0, sample_failure)]) = Some (1, True)"
proof -
  have c: "checks_run sample_hook = [sample_check]" by (simp add: checks_run_def sample_hook_def sample_check_def)
  have f: "\<not> in_sequence sample_hook" "\<not> hook_skips sample_span sample_hook" "runnable sample_check" "gho_deny sample_hook"
    by (simp_all add: in_sequence_def shouldSkipHook_def HOOK_REQUESTS_def runnable_def check_name_def sample_defs)
  have s: "start_hook sample_text sample_hook sample_span = (Parallel [sample_check] [None], sample_span)"
    using f by (simp add: start_hook_def c all_back_def)
  have e: "\<exists>r. executeFunction sample_check sample_failure = (r, No_transform) \<and> \<not> check_passes r"
    by (simp add: executeFunction_def sample_failure_def check_passes_def)
  then obtain r where r: "executeFunction sample_check sample_failure = (r, No_transform)" "\<not> check_passes r" by blast
  show ?thesis
    unfolding executeHooks_def sample_hooks
    using f r by (simp add: s run_answer_def report_in_def run_event_def all_back_def apply_transform_def finish_hook_def report_of_def denies_def Let_def)
qed

theorem hooks_deny_exact_witness:
  "\<exists>rs sp'. executeHooks sample_text [''syncBeforeRequestHook''] sample_span [(0, 0, sample_failure)] = Some ((rs, True), sp') \<and> rs \<noteq> [] \<and>
     (\<exists>i j out. i < 1 \<and> gho_deny ([sample_hook] ! i) \<and> \<not> hook_skips sample_span ([sample_hook] ! i) \<and>
        j < length (checks_run ([sample_hook] ! i)) \<and> outcome_at [(0, 0, sample_failure)] i j = Some out \<and>
        check_fails (checks_run ([sample_hook] ! i) ! j) out)"
proof -
  from sample_hook_run obtain rs sp' where r: "executeHooks sample_text [''syncBeforeRequestHook''] sample_span [(0, 0, sample_failure)] = Some ((rs, True), sp')"
    "length rs = 1" by auto
  then have "rs \<noteq> []" by auto
  with hooks_deny_exact [OF r(1) this] r(1) sample_hooks show ?thesis by auto
qed

subsection \<open>Every run answers\<close>

text \<open>The checks a hook still waits for.\<close>

fun waiting :: "hook_proc \<Rightarrow> nat" where
  "waiting (Serial cs rs) = length cs"
| "waiting (Parallel cs outs) = length (filter (\<lambda>x. x = None) outs)"
| "waiting p = 0"

lemma waiting_next_check: "waiting (fst (next_check h cs rs sp)) \<le> length cs"
  by (cases cs) (auto simp: finish_hook_def)

lemma waiting_all_back: "waiting (fst (all_back h cs outs env sp)) \<le> length (filter (\<lambda>x. x = None) outs)"
  by (auto simp: all_back_def finish_hook_def Let_def split: prod.splits)

lemma filter_None_update:
  "j < length outs \<Longrightarrow> outs ! j = None \<Longrightarrow> length (filter (\<lambda>x. x = None) (outs[j := Some r])) < length (filter (\<lambda>x. x = None) outs)"
proof (induction outs arbitrary: j)
  case (Cons a outs)
  then show ?case by (cases j) (auto simp: less_Suc_eq_le Suc_le_eq)
qed simp

lemma check_done_waiting: "check_done env h p j out sp = Some (p', sp') \<Longrightarrow> waiting p' < waiting p"
proof (cases p)
  case (Serial cs rs)
  assume a: "check_done env h p j out sp = Some (p', sp')"
  with Serial obtain c cs' where cs: "cs = c # cs'" by (cases cs) auto
  obtain r t where r: "executeFunction c out = (r, t)" by force
  obtain c1 ok where c1: "apply_transform env t (hsp_context sp) = (c1, ok)" by force
  have "p' = Crashed \<or> p' = fst (next_check h cs' (rs @ [r]) (sp\<lparr>hsp_context := c1\<rparr>))"
    using a unfolding Serial cs by (cases ok) (simp_all add: r c1 Let_def split: if_splits)
  with waiting_next_check [of h cs' "rs @ [r]" "sp\<lparr>hsp_context := c1\<rparr>"] Serial cs show ?thesis by auto
next
  case (Parallel cs outs)
  assume a: "check_done env h p j out sp = Some (p', sp')"
  with Parallel have j: "j < length outs" "outs ! j = None" and
    b: "all_back h cs (outs[j := Some (executeFunction (cs ! j) out)]) env sp = (p', sp')" by (auto split: if_splits)
  let ?outs = "outs[j := Some (executeFunction (cs ! j) out)]"
  have "waiting p' \<le> length (filter (\<lambda>x. x = None) ?outs)" using waiting_all_back [of h cs ?outs env sp] b by simp
  also have "\<dots> < waiting p" using filter_None_update [OF j] Parallel by simp
  finally show ?thesis .
qed simp_all

lemma run_event_waiting:
  assumes "run_event env hooks st e = Some st'" "length (hru_procs st) = length hooks"
  shows "sum_list (map waiting (hru_procs st')) < sum_list (map waiting (hru_procs st))"
proof -
  obtain i j out where e: "e = (i, j, out)" by (cases e)
  with assms obtain p sp where i: "i < length (hru_procs st)" and d: "check_done env (hooks ! i) (hru_procs st ! i) j out (hru_span st) = Some (p, sp)"
    and st': "hru_procs st' = (hru_procs st)[i := p]" by (auto simp: run_event_def split: if_splits)
  have "waiting (hru_procs st ! i) \<le> sum_list (map waiting (hru_procs st))"
    using elem_le_sum_list [of i "map waiting (hru_procs st)"] i by simp
  then have "sum_list (map waiting ((hru_procs st)[i := p])) + waiting (hru_procs st ! i) = sum_list (map waiting (hru_procs st)) + waiting p"
    using i by (simp add: map_update sum_list_update)
  with check_done_waiting [OF d] st' show ?thesis by simp
qed

text \<open>A run in which the checks come back in the order of the hooks, each with the outcome an oracle gives.\<close>

definition running_in :: "hook_proc \<Rightarrow> nat option" where
  "running_in p = (case p of Serial cs rs \<Rightarrow> Some (length rs) | Parallel cs outs \<Rightarrow> find (\<lambda>j. outs ! j = None) [0..<length outs] | _ \<Rightarrow> None)"

fun first_running :: "nat \<Rightarrow> hook_proc list \<Rightarrow> (nat \<times> nat) option" where
  "first_running i [] = None"
| "first_running i (p # ps) = (case running_in p of Some j \<Rightarrow> Some (i, j) | None \<Rightarrow> first_running (Suc i) ps)"

fun drive :: "nat \<Rightarrow> text_env \<Rightarrow> gate_hook list \<Rightarrow> (nat \<Rightarrow> nat \<Rightarrow> plugin_outcome) \<Rightarrow> hook_run \<Rightarrow> check_event list \<times> hook_run" where
  "drive 0 env hooks oracle st = ([], st)"
| "drive (Suc n) env hooks oracle st =
    (if run_answer hooks (hru_procs st) \<noteq> None then ([], st)
     else case first_running 0 (hru_procs st) of None \<Rightarrow> ([], st)
     | Some (i, j) \<Rightarrow> (case run_event env hooks st (i, j, oracle i j) of None \<Rightarrow> ([], st)
         | Some st1 \<Rightarrow> (case drive n env hooks oracle st1 of (es, st2) \<Rightarrow> ((i, j, oracle i j) # es, st2))))"

definition run_hooks :: "text_env \<Rightarrow> (nat \<Rightarrow> nat \<Rightarrow> plugin_outcome) \<Rightarrow> string list \<Rightarrow> hook_span \<Rightarrow> check_event list" where
  "run_hooks env oracle presets sp =
    (let hooks = getHooksToExecute sp presets in
     if hooks = [] then []
     else case start_hooks env hooks sp of (ps, sp1) \<Rightarrow>
       fst (drive (sum_list (map waiting ps)) env hooks oracle \<lparr>hru_span = sp1, hru_procs = ps\<rparr>))"

lemma first_running_event:
  "first_running k ps = Some (i, j) \<Longrightarrow> k \<le> i \<and> i < k + length ps \<and> running_in (ps ! (i - k)) = Some j"
proof (induction k ps rule: first_running.induct)
  case (2 k p ps)
  show ?case
  proof (cases "running_in p")
    case None
    with 2(2) have "first_running (Suc k) ps = Some (i, j)" by simp
    from 2(1) [OF None this] have "Suc k \<le> i" "i < Suc k + length ps" "running_in (ps ! (i - Suc k)) = Some j" by simp_all
    moreover from this have "i - k = Suc (i - Suc k)" by simp
    ultimately show ?thesis by simp
  next
    case (Some q)
    with 2(2) show ?thesis by simp
  qed
qed simp

lemma first_running_None: "first_running k ps = None \<Longrightarrow> p \<in> set ps \<Longrightarrow> running_in p = None"
  by (induction k ps rule: first_running.induct) (auto split: option.splits)

text \<open>Without an answer some check is running, whatever it will give.\<close>

lemma run_progress:
  assumes "run_ok hooks skip past st" "run_answer hooks (hru_procs st) = None"
  shows "\<exists>i j. first_running 0 (hru_procs st) = Some (i, j) \<and> (\<forall>out. run_event env hooks st (i, j, out) \<noteq> None)"
proof -
  have n: "Crashed \<notin> set (hru_procs st)" "those (map report_in (hru_procs st)) = None"
    using assms(2) by (auto simp: run_answer_def split: if_splits)
  have "those (map report_in ps) = None \<Longrightarrow> \<exists>p \<in> set ps. report_in p = None" for ps
    by (induction ps) (auto split: option.splits)
  with n obtain k where k: "k < length (hru_procs st)" "report_in (hru_procs st ! k) = None" "hru_procs st ! k \<noteq> Crashed"
    by (metis in_set_conv_nth nth_mem)
  have ok: "proc_ok (hooks ! i) (skip (hooks ! i)) (outcome_at past i) (hru_procs st ! i)" "i < length hooks" if "i < length (hru_procs st)" for i
    using assms(1) that by (auto simp: run_ok_def)
  have run: "running_in (hru_procs st ! k) \<noteq> None"
  proof (cases "hru_procs st ! k")
    case (Parallel cs outs)
    with ok(1) [OF k(1)] obtain j where "j < length outs" "outs ! j = None" by (auto simp: in_set_conv_nth)
    then have "find (\<lambda>j. outs ! j = None) [0..<length outs] \<noteq> None" unfolding find_None_iff by auto
    with Parallel show ?thesis by (simp add: running_in_def)
  qed (use k in \<open>auto simp: running_in_def report_in_def\<close>)
  then obtain i j where ij: "first_running 0 (hru_procs st) = Some (i, j)"
    using first_running_None [of 0 "hru_procs st" "hru_procs st ! k"] k(1) by (cases "first_running 0 (hru_procs st)") auto
  from first_running_event [OF ij] have i: "i < length (hru_procs st)" "running_in (hru_procs st ! i) = Some j" by simp_all
  have "run_event env hooks st (i, j, out) \<noteq> None" for out
  proof (cases "hru_procs st ! i")
    case (Serial cs rs)
    with ok(1) [OF i(1)] obtain c cs' where "cs = c # cs'" by (cases cs) auto
    with Serial i ok(2) [OF i(1)] show ?thesis by (simp add: run_event_def running_in_def)
  next
    case (Parallel cs outs)
    with i have "j < length outs" "outs ! j = None" by (auto simp: running_in_def find_Some_iff)
    with Parallel ok(2) [OF i(1)] show ?thesis by (simp add: run_event_def)
  qed (use i in \<open>auto simp: running_in_def\<close>)
  with ij show ?thesis by blast
qed

lemma drive_answers:
  "run_ok hooks skip past st \<Longrightarrow> sum_list (map waiting (hru_procs st)) \<le> n \<Longrightarrow> drive n env hooks oracle st = (es, st') \<Longrightarrow>
    list_all (\<lambda>(i, j, out). out = oracle i j) es \<and> run_events env hooks st es = Some st' \<and> run_answer hooks (hru_procs st') \<noteq> None"
proof (induction n arbitrary: st past es)
  case (0 st)
  show ?case
  proof (cases "run_answer hooks (hru_procs st)")
    case None
    from run_progress [OF 0(1) None] obtain i j st1 where "run_event env hooks st (i, j, oracle i j) = Some st1" by blast
    from run_event_waiting [OF this] 0 show ?thesis by (simp add: run_ok_def)
  next
    case (Some a)
    with 0 show ?thesis by auto
  qed
next
  case (Suc n st)
  show ?case
  proof (cases "run_answer hooks (hru_procs st)")
    case None
    from run_progress [OF Suc.prems(1) None] obtain i j st1 where f: "first_running 0 (hru_procs st) = Some (i, j)"
      and e: "run_event env hooks st (i, j, oracle i j) = Some st1" by blast
    obtain es1 where d: "drive n env hooks oracle st1 = (es1, st')" and es: "es = (i, j, oracle i j) # es1"
      using Suc.prems(3) None f e by (auto split: prod.splits)
    have "sum_list (map waiting (hru_procs st1)) \<le> n"
      using run_event_waiting [OF e] Suc.prems(1,2) by (simp add: run_ok_def)
    from Suc.IH [OF run_event_ok [OF e Suc.prems(1)] this d] None e es show ?thesis by simp
  next
    case (Some a)
    with Suc.prems(3) show ?thesis by auto
  qed
qed

lemma run_hooks_answer:
  "list_all (\<lambda>(i, j, out). out = oracle i j) (run_hooks env oracle presets sp) \<and> executeHooks env presets sp (run_hooks env oracle presets sp) \<noteq> None"
proof (cases "getHooksToExecute sp presets = []")
  case False
  let ?hooks = "getHooksToExecute sp presets"
  obtain ps sp1 where s: "start_hooks env ?hooks sp = (ps, sp1)" by force
  have ok: "run_ok ?hooks (hook_skips sp) [] \<lparr>hru_span = sp1, hru_procs = ps\<rparr>"
    using start_hooks_ok [of env ?hooks sp] s by (simp add: run_ok_def)
  obtain es st' where d: "drive (sum_list (map waiting ps)) env ?hooks oracle \<lparr>hru_span = sp1, hru_procs = ps\<rparr> = (es, st')" by force
  from drive_answers [OF ok _ d] False s d show ?thesis by (auto simp: executeHooks_def run_hooks_def Let_def)
qed (simp add: run_hooks_def executeHooks_def)

subsection \<open>No run is stuck\<close>

text \<open>The state of a run after some events; \<open>None\<close> where they are not those of a run.\<close>

definition hook_state :: "text_env \<Rightarrow> string list \<Rightarrow> hook_span \<Rightarrow> check_event list \<Rightarrow> hook_run option" where
  "hook_state env presets sp events =
    (let hooks = getHooksToExecute sp presets in
     case start_hooks env hooks sp of (ps, sp1) \<Rightarrow> run_events env hooks \<lparr>hru_span = sp1, hru_procs = ps\<rparr> events)"

text \<open>By the events alone: check \<open>j\<close> of hook \<open>i\<close> has been started and has not come back. The checks of a hook in sequence
  wait for the ones before them; all others run from the start.\<close>

definition awaited :: "hook_span \<Rightarrow> gate_hook list \<Rightarrow> check_event list \<Rightarrow> nat \<Rightarrow> nat \<Rightarrow> bool" where
  "awaited sp hooks events i j \<longleftrightarrow> i < length hooks \<and> \<not> hook_skips sp (hooks ! i) \<and> j < length (checks_run (hooks ! i)) \<and>
     outcome_at events i j = None \<and> (in_sequence (hooks ! i) \<longrightarrow> (\<forall>k < j. outcome_at events i k \<noteq> None))"

lemma check_done_iff:
  assumes "proc_ok h skip hist p" "p \<noteq> Crashed"
  shows "check_done env h p j out sp \<noteq> None \<longleftrightarrow>
    \<not> skip \<and> j < length (checks_run h) \<and> hist j = None \<and> (in_sequence h \<longrightarrow> (\<forall>k < j. hist k \<noteq> None))"
proof (cases p)
  case (Serial cs rs)
  with assms obtain c cs' where cs: "cs = c # cs'" by (cases cs) auto
  from assms Serial have i: "\<not> skip" "in_sequence h" "length rs < length (checks_run h)" "\<And>k. length rs \<le> k \<Longrightarrow> hist k = None"
    "\<And>k. k < length rs \<Longrightarrow> hist k \<noteq> None" by (auto simp: ran_with_def)
  have "j = length rs \<longleftrightarrow> hist j = None \<and> (\<forall>k < j. hist k \<noteq> None)"
    using i(4,5) by (metis linorder_cases order_refl)
  with Serial cs i show ?thesis by auto
next
  case (Parallel cs outs)
  with assms show ?thesis by (auto simp: all_back_def)
next
  case (Finished r)
  with assms have "skip \<or> (\<forall>k < length (checks_run h). hist k \<noteq> None)" by (fastforce simp: ran_with_def split: if_splits)
  with Finished show ?thesis by auto
qed (use assms in simp)

lemma run_event_iff:
  assumes "run_ok hooks skip past st" "Crashed \<notin> set (hru_procs st)"
  shows "run_event env hooks st (i, j, out) \<noteq> None \<longleftrightarrow> i < length hooks \<and> \<not> skip (hooks ! i) \<and>
    j < length (checks_run (hooks ! i)) \<and> outcome_at past i j = None \<and>
    (in_sequence (hooks ! i) \<longrightarrow> (\<forall>k < j. outcome_at past i k \<noteq> None))"
proof (cases "i < length hooks")
  case True
  with assms have "proc_ok (hooks ! i) (skip (hooks ! i)) (outcome_at past i) (hru_procs st ! i)" "hru_procs st ! i \<noteq> Crashed"
    by (auto simp: run_ok_def) (metis nth_mem)
  from check_done_iff [OF this, of env j out "hru_span st"] True show ?thesis by (auto simp: run_event_def)
qed (simp add: run_event_def)

lemma run_events_snoc:
  "run_events env hooks st (events @ [e]) = Option.bind (run_events env hooks st events)
     (\<lambda>st1. if run_answer hooks (hru_procs st1) \<noteq> None then None else run_event env hooks st1 e)"
  by (induction env hooks st events rule: run_events.induct) (auto split: Option.bind_splits)

definition checks_total :: "gate_hook list \<Rightarrow> nat" where
  "checks_total hooks = sum_list (map (length \<circ> checks_run) hooks)"

lemma waiting_start: "waiting (fst (start_hook env h sp)) \<le> length (checks_run h)"
  using waiting_next_check [of h "checks_run h" "[]" sp]
    waiting_all_back [of h "checks_run h" "replicate (length (checks_run h)) None" env sp]
  by (auto simp: start_hook_def)

lemma waiting_starts: "sum_list (map waiting (fst (start_hooks env hooks sp))) \<le> checks_total hooks"
proof (induction env hooks sp rule: start_hooks.induct)
  case (2 env h hs sp)
  obtain p sp1 where p: "start_hook env h sp = (p, sp1)" by force
  from 2 [OF p [symmetric]] waiting_start [of env h sp] p show ?case by (auto simp: checks_total_def split: prod.split)
qed (simp add: checks_total_def)

lemma run_events_waiting:
  "run_events env hooks st events = Some st' \<Longrightarrow> run_ok hooks skip past st \<Longrightarrow>
   length events + sum_list (map waiting (hru_procs st')) \<le> sum_list (map waiting (hru_procs st))"
proof (induction env hooks st events arbitrary: past rule: run_events.induct)
  case (2 env hooks st e es)
  from 2(2) obtain st1 where st1: "run_event env hooks st e = Some st1" "run_events env hooks st1 es = Some st'"
    and a: "\<not> run_answer hooks (hru_procs st) \<noteq> None" by (auto split: if_splits Option.bind_splits)
  obtain i j out where e: "e = (i, j, out)" by (cases e)
  have "run_ok hooks skip (past @ [e]) st1" using run_event_ok [of env hooks st i j out st1] st1(1) 2(3) e by simp
  from 2(1) [OF a st1 this] run_event_waiting [OF st1(1)] 2(3) show ?case by (simp add: run_ok_def)
qed simp

text \<open>C36. No run of the hooks is stuck. Take any answers of checks in any order that a run of the hooks admits. They are at
  most as many as the checks configured; and as long as \<open>executeHooks\<close> has not answered, some check is out, and whichever of those
  that are out comes back next, with whatever outcome, the run goes on with it, and with no other. So every run, if its
  checks come back, answers, however their answers interleave.\<close>

theorem hooks_never_stuck:
  assumes "hook_state env presets sp events = Some st"
  shows "length events \<le> checks_total (getHooksToExecute sp presets) \<and>
    (executeHooks env presets sp events = None \<longrightarrow>
      (\<exists>i j. awaited sp (getHooksToExecute sp presets) events i j) \<and>
      (\<forall>i j out. hook_state env presets sp (events @ [(i, j, out)]) \<noteq> None \<longleftrightarrow>
         awaited sp (getHooksToExecute sp presets) events i j))"
proof -
  let ?hooks = "getHooksToExecute sp presets"
  obtain ps sp1 where s: "start_hooks env ?hooks sp = (ps, sp1)" by force
  let ?st = "\<lparr>hru_span = sp1, hru_procs = ps\<rparr>"
  from assms have run: "run_events env ?hooks ?st events = Some st" by (simp add: hook_state_def Let_def s)
  have ok: "run_ok ?hooks (hook_skips sp) [] ?st" using start_hooks_ok [of env ?hooks sp] s by (simp add: run_ok_def)
  have "length events \<le> checks_total ?hooks"
    using run_events_waiting [OF run ok] waiting_starts [of env ?hooks sp] s by simp
  moreover have "(\<exists>i j. awaited sp ?hooks events i j) \<and>
      (\<forall>i j out. hook_state env presets sp (events @ [(i, j, out)]) \<noteq> None \<longleftrightarrow> awaited sp ?hooks events i j)"
    if none: "executeHooks env presets sp events = None"
  proof -
    have ne: "?hooks \<noteq> []"
    proof
      assume h: "?hooks = []"
      with s have "ps = []" by simp
      with run h have "events = []" by (cases events) (auto simp: run_answer_def)
      with none h show False by (simp add: executeHooks_def)
    qed
    from none ne run s have a: "run_answer ?hooks (hru_procs st) = None" by (simp add: executeHooks_def)
    then have c: "Crashed \<notin> set (hru_procs st)" by (auto simp: run_answer_def)
    have ok': "run_ok ?hooks (hook_skips sp) events st" using run_events_ok [OF run ok] by simp
    have step: "hook_state env presets sp (events @ [(i, j, out)]) \<noteq> None \<longleftrightarrow> awaited sp ?hooks events i j" for i j out
      using run_event_iff [OF ok' c, of env i j out] a
      by (simp add: hook_state_def Let_def s run_events_snoc run awaited_def)
    from run_progress [OF ok' a, of env] obtain i j where "run_event env ?hooks st (i, j, Plugin_throws) \<noteq> None" by blast
    with run_event_iff [OF ok' c] have "awaited sp ?hooks events i j" by (simp add: awaited_def)
    with step show ?thesis by blast
  qed
  ultimately show ?thesis by blast
qed

text \<open>Two checks in parallel: the second may answer first, and the run waits for the first.\<close>

definition sample_pair :: gate_hook where
  "sample_pair = sample_hook\<lparr>gho_checks := Some [sample_check, sample_check]\<rparr>"

definition sample_pair_span :: hook_span where
  "sample_pair_span = sample_span\<lparr>hsp_before := [sample_pair]\<rparr>"

lemma sample_pair_hooks: "getHooksToExecute sample_pair_span [''syncBeforeRequestHook''] = [sample_pair]"
  by (simp add: getHooksToExecute_def sample_pair_span_def sample_pair_def sample_defs)

lemma sample_pair_state:
  "\<exists>st. hook_state sample_text [''syncBeforeRequestHook''] sample_pair_span [(0, 1, sample_failure)] = Some st \<and>
     executeHooks sample_text [''syncBeforeRequestHook''] sample_pair_span [(0, 1, sample_failure)] = None"
proof -
  have c: "checks_run sample_pair = [sample_check, sample_check]" by (simp add: checks_run_def sample_pair_def sample_defs)
  have f: "\<not> in_sequence sample_pair" "\<not> hook_skips sample_pair_span sample_pair" "runnable sample_check"
    by (simp_all add: in_sequence_def shouldSkipHook_def HOOK_REQUESTS_def runnable_def check_name_def sample_pair_def sample_pair_span_def sample_defs)
  have s: "start_hook sample_text sample_pair sample_pair_span = (Parallel [sample_check, sample_check] [None, None], sample_pair_span)"
    using f by (simp add: start_hook_def c all_back_def)
  show ?thesis
    by (simp add: hook_state_def executeHooks_def sample_pair_hooks s run_answer_def report_in_def run_event_def all_back_def Let_def)
qed

theorem hooks_never_stuck_witness:
  "\<exists>st. hook_state sample_text [''syncBeforeRequestHook''] sample_pair_span [(0, 1, sample_failure)] = Some st \<and>
     (\<exists>i j. awaited sample_pair_span [sample_pair] [(0, 1, sample_failure)] i j)"
proof -
  from sample_pair_state obtain st where
    st: "hook_state sample_text [''syncBeforeRequestHook''] sample_pair_span [(0, 1, sample_failure)] = Some st"
      "executeHooks sample_text [''syncBeforeRequestHook''] sample_pair_span [(0, 1, sample_failure)] = None" by blast
  from hooks_never_stuck [OF st(1)] st sample_pair_hooks show ?thesis by simp
qed

subsection \<open>What a run leaves unchanged\<close>

definition same_hooks :: "hook_span \<Rightarrow> hook_span \<Rightarrow> bool" where
  "same_hooks sp sp' \<longleftrightarrow> hsp_before sp' = hsp_before sp \<and> hsp_after sp' = hsp_after sp \<and> hsp_parent sp' = hsp_parent sp"

lemma same_hooks_refl [simp]: "same_hooks sp sp"
  by (simp add: same_hooks_def)

lemma same_hooks_trans: "same_hooks a b \<Longrightarrow> same_hooks b c \<Longrightarrow> same_hooks a c"
  by (simp add: same_hooks_def)

lemma same_hooks_add [simp]: "same_hooks sp (addHookResult e r sp)" "same_hooks sp (sp\<lparr>hsp_context := c\<rparr>)"
  "same_hooks sp (addHookResult e r (sp\<lparr>hsp_context := c\<rparr>))"
  by (simp_all add: same_hooks_def addHookResult_def split: hook_event.split)

lemma next_check_same: "same_hooks sp (snd (next_check h cs rs sp))"
  by (cases cs) (simp_all add: finish_hook_def)

lemma all_back_same: "same_hooks sp (snd (all_back h cs outs env sp))"
  by (auto simp: all_back_def finish_hook_def Let_def split: prod.split)

lemma start_hooks_same: "same_hooks sp (snd (start_hooks env hs sp))"
proof (induction env hs sp rule: start_hooks.induct)
  case (2 env h hs sp)
  obtain p sp1 where p: "start_hook env h sp = (p, sp1)" by force
  have "same_hooks sp (snd (start_hook env h sp))" by (simp add: start_hook_def next_check_same all_back_same)
  with 2 [OF p [symmetric]] p show ?case by (auto split: prod.split intro: same_hooks_trans)
qed simp

lemma check_done_same: "check_done env h p j out sp = Some (p', sp') \<Longrightarrow> same_hooks sp sp'"
proof (cases p)
  case (Serial cs rs)
  assume a: "check_done env h p j out sp = Some (p', sp')"
  with Serial obtain c cs' where cs: "cs = c # cs'" by (cases cs) auto
  obtain r t where r: "executeFunction c out = (r, t)" by force
  obtain c1 ok where c1: "apply_transform env t (hsp_context sp) = (c1, ok)" by force
  have "sp' = sp\<lparr>hsp_context := c1\<rparr> \<or> sp' = snd (next_check h cs' (rs @ [r]) (sp\<lparr>hsp_context := c1\<rparr>))"
    using a unfolding Serial cs by (cases ok) (simp_all add: r c1 Let_def split: if_splits)
  then show ?thesis using next_check_same same_hooks_trans same_hooks_add(2) by metis
next
  case (Parallel cs outs)
  assume "check_done env h p j out sp = Some (p', sp')"
  with Parallel have "all_back h cs (outs[j := Some (executeFunction (cs ! j) out)]) env sp = (p', sp')" by (auto split: if_splits)
  then show ?thesis using all_back_same [of sp h cs "outs[j := Some (executeFunction (cs ! j) out)]" env] by simp
qed simp_all

lemma run_events_same: "run_events env hooks st events = Some st' \<Longrightarrow> same_hooks (hru_span st) (hru_span st')"
proof (induction env hooks st events rule: run_events.induct)
  case (2 env hooks st e es)
  obtain i j out where e: "e = (i, j, out)" by (cases e)
  from 2(2) obtain st1 where st1: "run_event env hooks st e = Some st1" "run_events env hooks st1 es = Some st'"
    and a: "\<not> run_answer hooks (hru_procs st) \<noteq> None" by (auto split: if_splits Option.bind_splits)
  have "same_hooks (hru_span st) (hru_span st1)" using st1(1) check_done_same by (auto simp: e run_event_def split: if_splits)
  with 2(1) [OF a st1] show ?case by (rule same_hooks_trans [rotated]) 
qed simp

lemma executeHooks_same: "executeHooks env presets sp events = Some (a, sp') \<Longrightarrow> same_hooks sp sp'"
  using start_hooks_same [of sp env "getHooksToExecute sp presets"] run_events_same
  by (fastforce simp: executeHooks_def Let_def split: if_splits prod.splits Option.bind_splits intro: same_hooks_trans)

text \<open>An exception in any hook lets the request pass, whatever the other hooks find: a guardrail whose check has no string id, or
  a check that asks for a transformation without a response object.\<close>

lemma crash_passes: "Crashed \<in> set procs \<Longrightarrow> run_answer hooks procs = Some ([], False)"
  by (simp add: run_answer_def)

end
