(* ===== verification/Retry_Request.thy ===== *)
theory Retry_Request
  imports Prelude "HOL-Library.While_Combinator"
begin

text \<open>
  One target's call with its retries (\<open>src/handlers/retryHandler.ts\<close>, \<open>src/utils/fetch.ts\<close>, \<open>errorClassOf\<close> of
  \<open>src/middlewares/psAttempts.ts\<close>). The retry loop is the package \<open>async-retry\<close>, which
  is not in the repository but for the patch that hands the callback its timeouts: it is the parameter \<open>retry\<close> with the
  contract of its documentation (\<open>retry_contract\<close>). Waiting changes nothing but the time and is left out; the world
  \<open>'w\<close> answers the calls.
\<close>

subsection \<open>Responses and errors\<close>

text \<open>Header names are lower case. Reading the body may fail.\<close>

record up_error =
  uer_type_error :: bool
  uer_name :: string
  uer_message :: string
  uer_status :: "nat option"
  uer_headers :: "(string, string) jmap"
  uer_cause_name :: "string option"
  uer_cause :: string

record up_response =
  urp_status :: nat
  urp_headers :: "(string, string) jmap"
  urp_text :: "up_error + string"
  urp_opaque :: bool

datatype call_result = Answer up_response | Failure up_error

definition json_headers :: "(string, string) jmap" where
  "json_headers = [(''content-type'', ''application/json'')]"

definition isRedirectResponse :: "up_response \<Rightarrow> bool" where
  "isRedirectResponse r \<longleftrightarrow> urp_opaque r \<or> (300 \<le> urp_status r \<and> urp_status r < 400 \<and> urp_status r \<noteq> 304)"

definition redirect_text :: "nat \<Rightarrow> string" where
  "redirect_text status = ''{\"error\":{\"message\":\"The upstream answered with a redirect ('' @
     (if status = 0 then ''opaque'' else digits_of status) @
     ''), which the gateway does not follow\",\"type\":\"upstream_redirect\",\"param\":null,\"code\":null}}''"

definition upstreamRedirectErrorResponse :: "nat \<Rightarrow> up_response" where
  "upstreamRedirectErrorResponse status = \<lparr>urp_status = 502, urp_headers = json_headers, urp_text = Inr (redirect_text status), urp_opaque = False\<rparr>"

definition rejectUpstreamRedirect :: "up_response \<Rightarrow> up_response" where
  "rejectUpstreamRedirect r = (if isRedirectResponse r then upstreamRedirectErrorResponse (urp_status r) else r)"

text \<open>\<open>new Error(text)\<close> with the status and headers of a response.\<close>

definition response_error :: "string \<Rightarrow> up_response \<Rightarrow> up_error" where
  "response_error t r = \<lparr>uer_type_error = False, uer_name = ''Error'', uer_message = t, uer_status = Some (urp_status r),
     uer_headers = urp_headers r, uer_cause_name = None, uer_cause = ''NA''\<rparr>"

definition errorClassOf :: "nat option \<Rightarrow> string \<Rightarrow> string option" where
  "errorClassOf status errorName =
    (case status of
       None \<Rightarrow> Some (if errorName = ''AbortError'' then ''timeout'' else ''network_error'')
     | Some n \<Rightarrow>
        if 200 \<le> n \<and> n < 300 then None
        else if n = 408 \<or> n = 504 then Some ''timeout''
        else if n = 429 then Some ''rate_limited''
        else if 500 \<le> n then Some ''server_error''
        else if 400 \<le> n then Some ''client_error'' else Some ''unexpected_status'')"

subsection \<open>Settings\<close>

record retry_settings =
  rts_count :: nat
  rts_codes :: "nat list"
  rts_timeout :: nat
  rts_follow :: bool

definition MAX_RETRY_LIMIT_MS :: int where
  "MAX_RETRY_LIMIT_MS = 60000"

definition POSSIBLE_RETRY_STATUS_HEADERS :: "string list" where
  "POSSIBLE_RETRY_STATUS_HEADERS = [''retry-after-ms'', ''x-ms-retry-after-ms'', ''retry-after'']"

text \<open>\<open>parseInt\<close> of a trimmed text: a sign, \<open>0x\<close> or nothing, and the digits that follow.\<close>

definition parse_radix :: "nat \<Rightarrow> string \<Rightarrow> int option" where
  "parse_radix r s = (let ds = takeWhile (radix_digit r) s in
     if ds = [] then None else Some (int (foldl (\<lambda>n c. n * r + radix_val c) 0 ds)))"

definition parse_unsigned :: "string \<Rightarrow> int option" where
  "parse_unsigned s = (if starts_with (to_lower s) ''0x'' then parse_radix 16 (drop 2 s) else parse_radix 10 s)"

definition js_parseInt :: "string \<Rightarrow> int option" where
  "js_parseInt s =
    (case s of CHR ''-'' # t \<Rightarrow> map_option uminus (parse_unsigned t) | CHR ''+'' # t \<Rightarrow> parse_unsigned t | _ \<Rightarrow> parse_unsigned s)"

subsection \<open>One attempt\<close>

datatype attempt_end = Returns | Bails up_error | Throws up_error

record 'w retry_state =
  rty_world :: 'w
  rty_response :: "up_response option"
  rty_attempt :: "nat option"
  rty_skipped :: bool
  rty_remaining :: int
  rty_reports :: "(nat option \<times> string option) list"

text \<open>\<open>fetchWithTimeout\<close>: with a timeout an aborted call is answered with 408.\<close>

definition timeout_response :: "nat \<Rightarrow> up_response" where
  "timeout_response ms = \<lparr>urp_status = 408, urp_headers = json_headers,
     urp_text = Inr (''{\"error\":{\"message\":\"Request exceeded the timeout sent in the request: '' @ digits_of ms @
       ''ms\",\"type\":\"timeout_error\",\"param\":null,\"code\":null}}''), urp_opaque = False\<rparr>"

definition fetchWithTimeout :: "nat \<Rightarrow> call_result \<Rightarrow> call_result" where
  "fetchWithTimeout ms res =
    (case res of Failure e \<Rightarrow> if uer_name e = ''AbortError'' then Answer (timeout_response ms) else Failure e | Answer r \<Rightarrow> Answer r)"

definition timed :: "retry_settings \<Rightarrow> call_result \<Rightarrow> call_result" where
  "timed s res = (if rts_timeout s = 0 then res else fetchWithTimeout (rts_timeout s) res)"

text \<open>\<open>headers.get('')\<close>: the empty name is no header name.\<close>

definition empty_name_error :: up_error where
  "empty_name_error = \<lparr>uer_type_error = True, uer_name = ''TypeError'', uer_message = ''Headers.get: \"\" is an invalid header name.'',
     uer_status = None, uer_headers = [], uer_cause_name = None, uer_cause = ''NA''\<rparr>"

text \<open>The milliseconds a provider asks to wait; \<open>None\<close> where the number is missing or 0.\<close>

definition retry_after :: "string \<Rightarrow> string \<Rightarrow> int option" where
  "retry_after header value =
    (case js_parseInt (trim value) of
       Some n \<Rightarrow> if n = 0 then None else Some (if header = ''retry-after'' then n * 1000 else n)
     | None \<Rightarrow> None)"

definition retry_header :: "up_response \<Rightarrow> string option" where
  "retry_header r = find (\<lambda>h. truthy_str (jm_get (urp_headers r) h)) POSSIBLE_RETRY_STATUS_HEADERS"

text \<open>A status to retry: what is thrown, the timeouts left, and the state.\<close>

definition retriable_answer :: "retry_settings \<Rightarrow> nat \<Rightarrow> nat \<Rightarrow> up_response \<Rightarrow> 'w retry_state \<Rightarrow> up_error \<times> nat \<times> 'w retry_state" where
  "retriable_answer s n ts r st =
    (case urp_text r of Inl e \<Rightarrow> (e, ts, st)
     | Inr t \<Rightarrow>
        let err = response_error t r in
        if urp_status r = 429 \<and> rts_follow s
        then (case retry_header r of
                None \<Rightarrow> (empty_name_error, ts, st)
              | Some h \<Rightarrow>
                 (case retry_after h (the (jm_get (urp_headers r) h)) of
                    None \<Rightarrow> (err, ts, st)
                  | Some ms \<Rightarrow>
                      if MAX_RETRY_LIMIT_MS \<le> ms \<or> rty_remaining st < ms then (err, 0, st\<lparr>rty_skipped := True\<rparr>)
                      else (err, rts_count s + 1 - n, st\<lparr>rty_remaining := rty_remaining st - ms\<rparr>)))
        else (err, ts, st))"

definition thrown_in :: "retry_settings \<Rightarrow> nat \<Rightarrow> up_error \<Rightarrow> attempt_end" where
  "thrown_in s n e = (if rts_count s + 1 \<le> n then Bails e else Throws e)"

definition retry_attempt :: "('w \<Rightarrow> call_result \<times> 'w) \<Rightarrow> retry_settings \<Rightarrow> nat \<Rightarrow> nat \<Rightarrow> 'w retry_state \<Rightarrow> attempt_end \<times> nat \<times> 'w retry_state" where
  "retry_attempt call s n ts st =
    (case call (rty_world st) of (res, w) \<Rightarrow>
      case timed s res of
        Failure e \<Rightarrow> (thrown_in s n e, ts, st\<lparr>rty_world := w, rty_reports := rty_reports st @ [(uer_status e, errorClassOf (uer_status e) (uer_name e))]\<rparr>)
      | Answer r \<Rightarrow>
          let st1 = st\<lparr>rty_world := w, rty_reports := rty_reports st @ [(Some (urp_status r), errorClassOf (Some (urp_status r)) [])]\<rparr> in
          if isRedirectResponse r
          then (Bails (response_error (redirect_text (urp_status r)) (rejectUpstreamRedirect r)), ts, st1\<lparr>rty_skipped := True\<rparr>)
          else if urp_status r \<in> set (rts_codes s)
          then (case retriable_answer s n ts r st1 of (e, ts1, st2) \<Rightarrow> (thrown_in s n e, ts1, st2))
          else if 200 \<le> urp_status r \<and> urp_status r \<le> 204 then (Returns, ts, st1\<lparr>rty_response := Some r\<rparr>)
          else (case urp_text r of Inl e \<Rightarrow> (thrown_in s n e, ts, st1) | Inr t \<Rightarrow> (Bails (response_error t r), ts, st1)))"

subsection \<open>The call\<close>

text \<open>The contract of \<open>async-retry\<close>: the callback runs with the number of the attempt; what it throws is retried while timeouts are
  left, each retry taking one and announced by \<open>onRetry\<close>; bailing out rejects with the error, and without timeouts the loop
  rejects with its main error.\<close>

type_synonym 'w retry_lib =
  "(nat \<Rightarrow> nat \<Rightarrow> 'w retry_state \<Rightarrow> attempt_end \<times> nat \<times> 'w retry_state) \<Rightarrow> (nat \<Rightarrow> 'w retry_state \<Rightarrow> 'w retry_state) \<Rightarrow>
   nat \<Rightarrow> nat \<Rightarrow> up_error list \<Rightarrow> 'w retry_state \<Rightarrow> up_error option \<times> 'w retry_state"

definition retry_contract :: "(up_error list \<Rightarrow> up_error) \<Rightarrow> 'w retry_lib \<Rightarrow> bool" where
  "retry_contract main retry \<longleftrightarrow> (\<forall>fn onRetry n ts es st.
     retry fn onRetry n ts es st =
       (case fn n ts st of
          (Returns, ts1, st1) \<Rightarrow> (None, st1)
        | (Bails e, ts1, st1) \<Rightarrow> (Some e, st1)
        | (Throws e, ts1, st1) \<Rightarrow>
            (case ts1 of 0 \<Rightarrow> (Some (main (es @ [e])), st1)
             | Suc ts2 \<Rightarrow> retry fn onRetry (Suc n) ts2 (es @ [e]) (onRetry n st1))))"

text \<open>The main error, as \<open>retry\<close> documents it: one of those thrown whose message was thrown most often.\<close>

definition thrown_times :: "up_error list \<Rightarrow> up_error \<Rightarrow> nat" where
  "thrown_times es e = length (filter (\<lambda>x. uer_message x = uer_message e) es)"

definition main_contract :: "(up_error list \<Rightarrow> up_error) \<Rightarrow> bool" where
  "main_contract main \<longleftrightarrow> (\<forall>es. es \<noteq> [] \<longrightarrow> main es \<in> set es \<and> (\<forall>e \<in> set es. thrown_times es e \<le> thrown_times es (main es)))"

text \<open>\<open>new Response(error.message, ...)\<close>: statuses out of range, and those that allow no body, throw.\<close>

definition valid_status :: "nat \<Rightarrow> bool" where
  "valid_status n \<longleftrightarrow> 200 \<le> n \<and> n \<le> 599 \<and> n \<notin> {204, 205, 304}"

definition status_error :: "nat \<Rightarrow> up_error" where
  "status_error n = \<lparr>uer_type_error = (n \<in> {204, 205, 304}), uer_name = (if n \<in> {204, 205, 304} then ''TypeError'' else ''RangeError''),
     uer_message = ''Response constructor: Invalid response status code '' @ digits_of n, uer_status = None, uer_headers = [],
     uer_cause_name = None, uer_cause = ''NA''\<rparr>"

text \<open>A text body brings its content type along unless the headers name one.\<close>

definition text_headers :: "(string, string) jmap \<Rightarrow> (string, string) jmap" where
  "text_headers hs = (if jm_get hs ''content-type'' = None then jm_set ''content-type'' ''text/plain;charset=UTF-8'' hs else hs)"

definition plain_response :: "nat \<Rightarrow> string \<Rightarrow> up_response" where
  "plain_response n t = \<lparr>urp_status = n, urp_headers = text_headers [], urp_text = Inr t, urp_opaque = False\<rparr>"

definition answer_of_error :: "up_error \<Rightarrow> up_error + up_response" where
  "answer_of_error e =
    (if uer_type_error e \<and> uer_cause_name e = Some ''ConnectTimeoutError'' then Inr (plain_response 503 (uer_message e))
     else if uer_status e \<in> {None, Some 0} \<or> uer_type_error e
     then Inr (plain_response 500 (''Message: '' @ uer_message e @ '' Cause: '' @ uer_cause e @ '' Name: '' @ uer_name e))
     else let n = the (uer_status e) in
       if valid_status n then Inr \<lparr>urp_status = n, urp_headers = text_headers (uer_headers e), urp_text = Inr (uer_message e), urp_opaque = False\<rparr>
       else Inl (status_error n))"

record retry_answer =
  rta_response :: "up_response option"
  rta_attempt :: "nat option"
  rta_skip :: bool

definition retryRequest :: "'w retry_lib \<Rightarrow> ('w \<Rightarrow> call_result \<times> 'w) \<Rightarrow> retry_settings \<Rightarrow> 'w \<Rightarrow> (up_error + retry_answer) \<times> 'w retry_state" where
  "retryRequest retry call s w =
    (case retry (retry_attempt call s) (\<lambda>n st. st\<lparr>rty_attempt := Some n\<rparr>) 1 (rts_count s) []
            \<lparr>rty_world = w, rty_response = None, rty_attempt = None, rty_skipped = False, rty_remaining = MAX_RETRY_LIMIT_MS, rty_reports = []\<rparr> of
       (failure, st) \<Rightarrow>
         (case (case failure of None \<Rightarrow> Inr (rty_response st) | Some e \<Rightarrow> map_sum id Some (answer_of_error e)) of
            Inl e \<Rightarrow> (Inl e, st)
          | Inr r \<Rightarrow> (Inr \<lparr>rta_response = r, rta_attempt = rty_attempt st, rta_skip = rty_skipped st\<rparr>, st)))"

subsection \<open>Which calls are made\<close>

definition ok_status :: "nat \<Rightarrow> bool" where
  "ok_status n \<longleftrightarrow> 200 \<le> n \<and> n \<le> 204"

text \<open>An outcome after which another attempt may follow, and the error it throws.\<close>

definition retried :: "retry_settings \<Rightarrow> call_result \<Rightarrow> bool" where
  "retried s res = (case res of Failure e \<Rightarrow> True
     | Answer r \<Rightarrow> \<not> isRedirectResponse r \<and> (urp_status r \<in> set (rts_codes s) \<or> (\<not> ok_status (urp_status r) \<and> isl (urp_text r))))"

definition retry_error_of :: "retry_settings \<Rightarrow> call_result \<Rightarrow> up_error" where
  "retry_error_of s res = (case res of Failure e \<Rightarrow> e
     | Answer r \<Rightarrow> (case urp_text r of Inl e \<Rightarrow> e
         | Inr t \<Rightarrow> if urp_status r = 429 \<and> rts_follow s \<and> retry_header r = None \<and> urp_status r \<in> set (rts_codes s) then empty_name_error else response_error t r))"

definition redirect_error :: "up_response \<Rightarrow> up_error" where
  "redirect_error r = response_error (redirect_text (urp_status r)) (upstreamRedirectErrorResponse (urp_status r))"

text \<open>One attempt: it returns the answer, gives up with its error, or throws to be retried, with as many timeouts as before or none.\<close>

lemma attempt_cases:
  assumes "call (rty_world st) = (res, w)" "rts_count s + 1 = n + ts" "\<not> rty_skipped st"
  obtains
    r where "timed s res = Answer r" "isRedirectResponse r"
      "\<exists>st1. retry_attempt call s n ts st = (Bails (redirect_error r), ts, st1) \<and> rty_world st1 = w \<and> rty_attempt st1 = rty_attempt st \<and> rty_skipped st1"
  | r where "timed s res = Answer r" "\<not> isRedirectResponse r" "urp_status r \<notin> set (rts_codes s)" "ok_status (urp_status r)"
      "\<exists>st1. retry_attempt call s n ts st = (Returns, ts, st1) \<and> rty_world st1 = w \<and> rty_attempt st1 = rty_attempt st \<and> \<not> rty_skipped st1 \<and> rty_response st1 = Some r"
  | r t where "timed s res = Answer r" "\<not> isRedirectResponse r" "urp_status r \<notin> set (rts_codes s)" "\<not> ok_status (urp_status r)" "urp_text r = Inr t"
      "\<exists>st1. retry_attempt call s n ts st = (Bails (response_error t r), ts, st1) \<and> rty_world st1 = w \<and> rty_attempt st1 = rty_attempt st \<and> \<not> rty_skipped st1"
  | st1 ts1 where "retried s (timed s res)" "retry_attempt call s n ts st = (thrown_in s n (retry_error_of s (timed s res)), ts1, st1)"
      "rty_world st1 = w" "rty_attempt st1 = rty_attempt st" "if rty_skipped st1 then ts1 = 0 else ts1 = ts"
proof (cases "timed s res")
  case (Failure e)
  then show ?thesis using assms that(4) by (simp add: retry_attempt_def retried_def retry_error_of_def)
next
  case (Answer r)
  show ?thesis
  proof (cases "isRedirectResponse r")
    case True
    with Answer assms that(1) show ?thesis by (simp add: retry_attempt_def Let_def redirect_error_def rejectUpstreamRedirect_def)
  next
    case False
    note red = False
    show ?thesis
    proof (cases "urp_status r \<in> set (rts_codes s)")
      case True
      let ?st = "st\<lparr>rty_world := w, rty_reports := rty_reports st @ [(Some (urp_status r), errorClassOf (Some (urp_status r)) [])]\<rparr>"
      obtain e ts1 st2 where e: "retriable_answer s n ts r ?st = (e, ts1, st2)" by (metis prod_cases3)
      have "e = retry_error_of s (Answer r) \<and> rty_world st2 = w \<and> rty_attempt st2 = rty_attempt st \<and> (if rty_skipped st2 then ts1 = 0 else ts1 = ts)"
        using e assms True by (auto simp: retriable_answer_def retry_error_of_def Let_def split: sum.splits option.splits if_splits)
      moreover have "retry_attempt call s n ts st = (thrown_in s n e, ts1, st2)" using Answer assms red True e by (simp add: retry_attempt_def Let_def)
      ultimately show ?thesis using that(4) [of ts1 st2] Answer red True by (simp add: retried_def)
    next
      case False
      show ?thesis
      proof (cases "ok_status (urp_status r)")
        case True
        with Answer assms red False that(2) show ?thesis by (simp add: retry_attempt_def Let_def ok_status_def)
      next
        case no: False
        show ?thesis
        proof (cases "urp_text r")
          case (Inl e)
          let ?st = "st\<lparr>rty_world := w, rty_reports := rty_reports st @ [(Some (urp_status r), errorClassOf (Some (urp_status r)) [])]\<rparr>"
          have "retry_attempt call s n ts st = (thrown_in s n e, ts, ?st)" using Answer assms red False no Inl by (auto simp: retry_attempt_def Let_def ok_status_def)
          with Answer assms red False no Inl that(4) [of ts ?st] show ?thesis by (simp add: retried_def retry_error_of_def)
        next
          case (Inr t)
          with Answer assms red False no that(3) show ?thesis by (auto simp: retry_attempt_def Let_def ok_status_def)
        qed
      qed
    qed
  qed
qed

text \<open>The errors of the first \<open>k\<close> calls.\<close>

definition errors_of :: "retry_settings \<Rightarrow> (nat \<Rightarrow> call_result) \<Rightarrow> nat \<Rightarrow> up_error list" where
  "errors_of s answers k = map (\<lambda>i. retry_error_of s (timed s (answers i))) [0..<k]"

text \<open>How a run of \<open>k\<close> calls ends, by the answer to the last one: a success or an error that is not retried is final; a retriable
  one ends it with its error when the attempts are used up; and when a provider asks for too long a wait (\<open>skip\<close>) the main error
  of all the calls decides.\<close>

definition retry_ends :: "(up_error list \<Rightarrow> up_error) \<Rightarrow> retry_settings \<Rightarrow> (nat \<Rightarrow> call_result) \<Rightarrow> nat \<Rightarrow> up_error option \<Rightarrow> up_response option \<Rightarrow> bool \<Rightarrow> bool" where
  "retry_ends main s answers k failure response skip \<longleftrightarrow>
    (let res = timed s (answers (k - 1)) in
     (\<exists>r. res = Answer r \<and> isRedirectResponse r \<and> failure = Some (redirect_error r) \<and> skip) \<or>
     (\<exists>r. res = Answer r \<and> \<not> isRedirectResponse r \<and> urp_status r \<notin> set (rts_codes s) \<and> ok_status (urp_status r) \<and>
          failure = None \<and> response = Some r \<and> \<not> skip) \<or>
     (\<exists>r t. res = Answer r \<and> \<not> isRedirectResponse r \<and> urp_status r \<notin> set (rts_codes s) \<and> \<not> ok_status (urp_status r) \<and> urp_text r = Inr t \<and>
          failure = Some (response_error t r) \<and> \<not> skip) \<or>
     (retried s res \<and> k = rts_count s + 1 \<and> failure = Some (retry_error_of s res)) \<or>
     (retried s res \<and> k < rts_count s + 1 \<and> skip \<and> failure = Some (main (errors_of s answers k))))"

abbreviation counted :: "(nat \<Rightarrow> call_result) \<Rightarrow> nat \<Rightarrow> call_result \<times> nat" where
  "counted answers k \<equiv> (answers k, Suc k)"

abbreviation note_retry :: "nat \<Rightarrow> 'w retry_state \<Rightarrow> 'w retry_state" where
  "note_retry n st \<equiv> st\<lparr>rty_attempt := Some n\<rparr>"

text \<open>Before attempt \<open>n\<close>, and after the run.\<close>

definition retry_inv :: "retry_settings \<Rightarrow> (nat \<Rightarrow> call_result) \<Rightarrow> nat \<Rightarrow> nat \<Rightarrow> nat \<Rightarrow> up_error list \<Rightarrow> nat retry_state \<Rightarrow> bool" where
  "retry_inv s answers b n ts es st \<longleftrightarrow> rts_count s + 1 = n + ts \<and> 0 < n \<and> rty_world st = b + (n - 1) \<and> \<not> rty_skipped st \<and>
     rty_attempt st = (if n = 1 then None else Some (n - 1)) \<and>
     es = errors_of s answers (n - 1) \<and> (\<forall>i < n - 1. retried s (timed s (answers i)))"

definition run_right :: "(up_error list \<Rightarrow> up_error) \<Rightarrow> retry_settings \<Rightarrow> (nat \<Rightarrow> call_result) \<Rightarrow> nat \<Rightarrow> up_error option \<Rightarrow> nat retry_state \<Rightarrow> bool" where
  "run_right main s answers b failure st \<longleftrightarrow>
    (let k = rty_world st - b in
     b < rty_world st \<and> k \<le> rts_count s + 1 \<and> (\<forall>i < k - 1. retried s (timed s (answers i))) \<and>
     rty_attempt st = (if k = 1 then None else Some (k - 1)) \<and>
     retry_ends main s answers k failure (rty_response st) (rty_skipped st))"

lemma retry_step:
  assumes "retry_contract main retry" "retry_inv s (\<lambda>i. answers (b + i)) b n ts es st"
    "retry (retry_attempt (counted answers) s) note_retry n ts es st = (failure, st')"
  shows "run_right main s (\<lambda>i. answers (b + i)) b failure st' \<or>
    (\<exists>ts2 st1 e. ts = Suc ts2 \<and> retry_inv s (\<lambda>i. answers (b + i)) b (Suc n) ts2 (es @ [e]) (note_retry n st1) \<and>
      retry (retry_attempt (counted answers) s) note_retry (Suc n) ts2 (es @ [e]) (note_retry n st1) = (failure, st'))"
proof -
  let ?a = "retry_attempt (counted answers) s"
  note unfold = assms(1) [unfolded retry_contract_def, rule_format, of ?a note_retry n ts es st]
  from assms(2) have p: "rts_count s + 1 = n + ts" "0 < n" "rty_world st = b + (n - 1)" "\<not> rty_skipped st"
    "rty_attempt st = (if n = 1 then None else Some (n - 1))" "es = errors_of s (\<lambda>i. answers (b + i)) (n - 1)"
    "\<forall>i < n - 1. retried s (timed s (answers (b + i)))" by (simp_all add: retry_inv_def)
  have c: "counted answers (rty_world st) = (answers (b + (n - 1)), b + n)" using p(2,3) by simp
  show ?thesis
  proof (cases rule: attempt_cases [where call = "counted answers", OF c p(1,4)])
    case (1 r)
    then obtain st1 where "?a n ts st = (Bails (redirect_error r), ts, st1)" "rty_world st1 = b + n" "rty_attempt st1 = rty_attempt st" "rty_skipped st1" by blast
    with 1 p assms(3) unfold show ?thesis by (auto simp: run_right_def retry_ends_def Let_def)
  next
    case (2 r)
    then obtain st1 where "?a n ts st = (Returns, ts, st1)" "rty_world st1 = b + n" "rty_attempt st1 = rty_attempt st" "\<not> rty_skipped st1" "rty_response st1 = Some r" by blast
    with 2 p assms(3) unfold show ?thesis by (auto simp: run_right_def retry_ends_def Let_def)
  next
    case (3 r t)
    then obtain st1 where "?a n ts st = (Bails (response_error t r), ts, st1)" "rty_world st1 = b + n" "rty_attempt st1 = rty_attempt st" "\<not> rty_skipped st1" by blast
    with 3 p assms(3) unfold show ?thesis by (auto simp: run_right_def retry_ends_def Let_def)
  next
    case (4 st1 ts1)
    let ?e = "retry_error_of s (timed s (answers (b + (n - 1))))"
    show ?thesis
    proof (cases "rts_count s + 1 \<le> n")
      case True
      with 4 p assms(3) unfold show ?thesis by (auto simp: run_right_def retry_ends_def Let_def thrown_in_def)
    next
      case False
      have errors: "es @ [?e] = errors_of s (\<lambda>i. answers (b + i)) n"
        using p(2,6) by (cases n) (simp_all add: errors_of_def)
      have again: "retried s (timed s (answers (b + i)))" if "i < n" for i
      proof (cases "i = n - 1")
        case True
        with 4(1) show ?thesis by simp
      next
        case False
        with that have "i < n - 1" by simp
        with p(7) show ?thesis by blast
      qed
      show ?thesis
      proof (cases "rty_skipped st1")
        case True
        with 4 False assms(3) unfold have f: "failure = Some (main (es @ [?e]))" "st' = st1" by (auto simp: thrown_in_def)
        have "n < rts_count s + 1" using False by simp
        with True 4 p(1-5,7) f errors show ?thesis by (auto simp: run_right_def retry_ends_def Let_def)
      next
        case no: False
        with 4 have t: "ts1 = ts" by simp
        with p(1) False obtain ts2 where ts2: "ts = Suc ts2" by (cases ts) auto
        have "retry ?a note_retry (Suc n) ts2 (es @ [?e]) (note_retry n st1) = (failure, st')"
          using assms(3) unfold 4 False ts2 t by (simp add: thrown_in_def)
        moreover have "retry_inv s (\<lambda>i. answers (b + i)) b (Suc n) ts2 (es @ [?e]) (note_retry n st1)"
          using p(1,2) ts2 4 no errors again by (simp add: retry_inv_def)
        ultimately show ?thesis using ts2 by blast
      qed
    qed
  qed
qed

lemma retry_run:
  assumes "retry_contract main retry"
  shows "retry_inv s (\<lambda>i. answers (b + i)) b n ts es st \<Longrightarrow> retry (retry_attempt (counted answers) s) note_retry n ts es st = (failure, st') \<Longrightarrow>
    run_right main s (\<lambda>i. answers (b + i)) b failure st'"
proof (induction ts arbitrary: n st es)
  case 0
  with retry_step [OF assms 0] show ?case by auto
next
  case (Suc ts)
  from retry_step [OF assms Suc.prems] Suc.IH show ?case by blast
qed

definition answer_record :: "up_response option \<Rightarrow> nat \<Rightarrow> bool \<Rightarrow> retry_answer" where
  "answer_record r k skip = \<lparr>rta_response = r, rta_attempt = (if k = 1 then None else Some (k - 1)), rta_skip = skip\<rparr>"

lemma retry_rules:
  assumes "retry_contract main retry" "retryRequest retry (counted answers) s b = (result, st)"
  shows "\<exists>failure. run_right main s (\<lambda>i. answers (b + i)) b failure st \<and>
       result = (case failure of
           None \<Rightarrow> Inr (answer_record (rty_response st) (rty_world st - b) (rty_skipped st))
         | Some e \<Rightarrow> map_sum id (\<lambda>r. answer_record (Some r) (rty_world st - b) (rty_skipped st)) (answer_of_error e))"
proof -
  let ?st = "\<lparr>rty_world = b, rty_response = None, rty_attempt = None, rty_skipped = False, rty_remaining = MAX_RETRY_LIMIT_MS, rty_reports = []\<rparr>"
  obtain failure st' where run: "retry (retry_attempt (counted answers) s) note_retry 1 (rts_count s) [] ?st = (failure, st')" by force
  have "retry_inv s (\<lambda>i. answers (b + i)) b 1 (rts_count s) [] ?st" by (simp add: retry_inv_def errors_of_def)
  from retry_run [OF assms(1) this run] have r: "run_right main s (\<lambda>i. answers (b + i)) b failure st'" .
  have att: "rty_attempt st' = (if rty_world st' - b = 1 then None else Some (rty_world st' - b - 1))" using r by (simp add: run_right_def Let_def)
  have "st = st' \<and> result = (case failure of
           None \<Rightarrow> Inr (answer_record (rty_response st') (rty_world st' - b) (rty_skipped st'))
         | Some e \<Rightarrow> map_sum id (\<lambda>r. answer_record (Some r) (rty_world st' - b) (rty_skipped st')) (answer_of_error e))"
  proof (cases failure)
    case None
    with assms(2) run att show ?thesis by (auto simp: retryRequest_def answer_record_def)
  next
    case (Some e)
    with assms(2) run att show ?thesis by (cases "answer_of_error e") (auto simp: retryRequest_def answer_record_def)
  qed
  with r show ?thesis by blast
qed


subsection \<open>A driver\<close>

text \<open>A loop with the contract, which shows that it can hold.\<close>

type_synonym 'w loop_state = "(nat \<times> nat \<times> up_error list \<times> 'w retry_state) + (up_error option \<times> 'w retry_state)"

fun loop_step ::
  "(up_error list \<Rightarrow> up_error) \<Rightarrow> (nat \<Rightarrow> nat \<Rightarrow> 'w retry_state \<Rightarrow> attempt_end \<times> nat \<times> 'w retry_state) \<Rightarrow>
   (nat \<Rightarrow> 'w retry_state \<Rightarrow> 'w retry_state) \<Rightarrow> 'w loop_state \<Rightarrow> 'w loop_state" where
  "loop_step main fn onRetry (Inl (n, ts, es, st)) =
    (case fn n ts st of
       (Returns, ts1, st1) \<Rightarrow> Inr (None, st1)
     | (Bails e, ts1, st1) \<Rightarrow> Inr (Some e, st1)
     | (Throws e, ts1, st1) \<Rightarrow>
         (case ts1 of 0 \<Rightarrow> Inr (Some (main (es @ [e])), st1) | Suc ts2 \<Rightarrow> Inl (Suc n, ts2, es @ [e], onRetry n st1)))"
| "loop_step main fn onRetry (Inr x) = Inr x"

definition retry_loop :: "(up_error list \<Rightarrow> up_error) \<Rightarrow> 'w retry_lib" where
  "retry_loop main fn onRetry n ts es st = projr (while isl (loop_step main fn onRetry) (Inl (n, ts, es, st)))"

lemma while_done: "while isl f (Inr x) = Inr x"
  by (subst while_unfold) simp

lemma retry_loop_contract: "retry_contract main (retry_loop main)"
  unfolding retry_contract_def
proof (intro allI)
  fix fn :: "nat \<Rightarrow> nat \<Rightarrow> 'a retry_state \<Rightarrow> attempt_end \<times> nat \<times> 'a retry_state" and onRetry n ts es st
  show "retry_loop main fn onRetry n ts es st =
       (case fn n ts st of
          (Returns, ts1, st1) \<Rightarrow> (None, st1)
        | (Bails e, ts1, st1) \<Rightarrow> (Some e, st1)
        | (Throws e, ts1, st1) \<Rightarrow>
            (case ts1 of 0 \<Rightarrow> (Some (main (es @ [e])), st1)
             | Suc ts2 \<Rightarrow> retry_loop main fn onRetry (Suc n) ts2 (es @ [e]) (onRetry n st1)))"
    unfolding retry_loop_def by (subst while_unfold) (simp add: while_done split: prod.split attempt_end.split nat.split)
qed

text \<open>The main error of \<open>retry\<close>: the last of the most frequent ones.\<close>

definition main_error :: "up_error list \<Rightarrow> up_error" where
  "main_error es = last (filter (\<lambda>e. list_all (\<lambda>x. thrown_times es x \<le> thrown_times es e) es) es)"

lemma main_error_contract: "main_contract main_error"
  unfolding main_contract_def
proof (intro allI impI)
  fix es :: "up_error list"
  assume "es \<noteq> []"
  let ?most = "filter (\<lambda>e. list_all (\<lambda>x. thrown_times es x \<le> thrown_times es e) es) es"
  have "Max (thrown_times es ` set es) \<in> thrown_times es ` set es" using \<open>es \<noteq> []\<close> by (intro Max_in) auto
  then obtain e where "e \<in> set es" "thrown_times es e = Max (thrown_times es ` set es)" by auto
  then have "e \<in> set ?most" by (simp add: list_all_iff)
  then have "?most \<noteq> []" by (metis list.set_cases list.distinct(1))
  then have "main_error es \<in> set ?most" unfolding main_error_def by (rule last_in_set)
  then show "main_error es \<in> set es \<and> (\<forall>e \<in> set es. thrown_times es e \<le> thrown_times es (main_error es))"
    by (simp add: list_all_iff)
qed

definition sample_retry_answers :: "nat \<Rightarrow> call_result" where
  "sample_retry_answers i = Answer \<lparr>urp_status = (if i = 0 then 429 else 200), urp_headers = [], urp_text = Inr ''{}'', urp_opaque = False\<rparr>"

definition sample_retries :: retry_settings where
  "sample_retries = \<lparr>rts_count = 1, rts_codes = [429], rts_timeout = 0, rts_follow = False\<rparr>"

lemmas retry_loop_unfold = retry_loop_contract [unfolded retry_contract_def, rule_format]

lemma sample_retried:
  "\<exists>st. retryRequest (retry_loop main_error) (counted sample_retry_answers) sample_retries 0 =
     (Inr (answer_record (Some \<lparr>urp_status = 200, urp_headers = [], urp_text = Inr ''{}'', urp_opaque = False\<rparr>) 2 False), st) \<and> rty_world st = 2"
proof -
  have a: "retry_attempt (counted sample_retry_answers) sample_retries n ts st =
      (if rty_world st = 0 then (thrown_in sample_retries n (retry_error_of sample_retries (sample_retry_answers 0)), ts,
          st\<lparr>rty_world := 1, rty_reports := rty_reports st @ [(Some 429, Some ''rate_limited'')]\<rparr>)
       else (Returns, ts, st\<lparr>rty_world := Suc (rty_world st), rty_reports := rty_reports st @ [(Some 200, None)],
          rty_response := Some \<lparr>urp_status = 200, urp_headers = [], urp_text = Inr ''{}'', urp_opaque = False\<rparr>\<rparr>))" for n ts st
    by (simp add: retry_attempt_def timed_def sample_retries_def sample_retry_answers_def isRedirectResponse_def retriable_answer_def retry_error_of_def errorClassOf_def)
  have c: "rts_count sample_retries = Suc 0" by (simp add: sample_retries_def)
  show ?thesis
    unfolding retryRequest_def c by (simp add: retry_loop_unfold [of main_error "retry_attempt _ _" _ "Suc 0"] retry_loop_unfold [of main_error "retry_attempt _ _" _ "Suc (Suc 0)"]
      a thrown_in_def c answer_record_def)
qed


end
