(* ===== verification/Upstream_Request.thy ===== *)
theory Upstream_Request
  imports Response_Cache Upstream_Url
begin

text \<open>
  The request a provider is sent (\<open>src/handlers/handlerUtils.ts\<close> \<open>constructRequest\<close>, \<open>src/handlers/services/requestContext.ts\<close>,
  \<open>providerContext.ts\<close>, \<open>src/utils/psInternalHeaders.ts\<close>, \<open>src/utils/redact.ts\<close>): its headers, its body and its URL. The
  provider's own part (base URL, endpoint path, headers, the transformed body) and the URL parser are parameters.
\<close>

subsection \<open>Internal headers and credentials\<close>

definition isPSInternalHeader :: "string \<Rightarrow> bool" where
  "isPSInternalHeader name \<longleftrightarrow> starts_with (to_lower name) ''x-ps-''"

definition stripPSInternalHeaders :: "(string, 'v) jmap \<Rightarrow> (string, 'v) jmap" where
  "stripPSInternalHeaders headers = filter (\<lambda>(k, v). \<not> isPSInternalHeader k) headers"

text \<open>\<open>isMeaningfulCredential\<close>: not empty, not a bare scheme, not the text of a missing value.\<close>

definition ends_undefined :: "string \<Rightarrow> bool" where
  "ends_undefined v \<longleftrightarrow> list_ex (\<lambda>w. v = w \<or> (ends_with v w \<and> js_space (v ! (length v - length w - 1)))) [''undefined'', ''null'']"

definition isMeaningfulCredential :: "string \<Rightarrow> bool" where
  "isMeaningfulCredential value \<longleftrightarrow>
    (let v = trim value in v \<noteq> [] \<and> to_lower v \<notin> {''bearer'', ''basic''} \<and> \<not> ends_undefined v)"

definition pickCredentialHeaders :: "(string, string) jmap \<Rightarrow> (string, string) jmap" where
  "pickCredentialHeaders headers = filter (\<lambda>(h, v). isSensitiveKey h \<and> isMeaningfulCredential v) headers"

subsection \<open>Headers\<close>

record request_parts =
  rqp_method :: string
  rqp_endpoint :: string
  rqp_headers :: "(string, string) jmap"
  rqp_forwardHeaders :: "string list"

definition INTERNAL_PREFIX :: string where
  "INTERNAL_PREFIX = ''x-portkey-''"

text \<open>\<open>{...a, ...b}\<close>\<close>

definition header_spread :: "(string, string) jmap \<Rightarrow> (string, string) jmap \<Rightarrow> (string, string) jmap" where
  "header_spread a b = fold (\<lambda>(k, v). jm_set k v) b a"

text \<open>The headers of a proxied call that go on: \<open>ignored\<close> is the environment's list.\<close>

definition proxy_headers :: "string list \<Rightarrow> request_parts \<Rightarrow> (string, string) jmap" where
  "proxy_headers ignored q =
    (if rqp_endpoint q = ''proxy''
     then filter (\<lambda>(k, v). k \<notin> set (ignored @ [''expect'', ''content-length'']) \<and> \<not> starts_with k INTERNAL_PREFIX) (rqp_headers q)
     else [])"

definition provider_headers :: "(string, string) jmap \<Rightarrow> (string, string) jmap" where
  "provider_headers mapped = fold (\<lambda>(h, v). jm_set (to_lower h) v) mapped []"

definition forwarded_headers :: "request_parts \<Rightarrow> (string, string) jmap" where
  "forwarded_headers q = fold (\<lambda>h m. case jm_get (rqp_headers q) (to_lower h) of
       Some v \<Rightarrow> if v \<noteq> [] then jm_set (to_lower h) v m else m | None \<Rightarrow> m) (rqp_forwardHeaders q) []"

definition merged_headers :: "string list \<Rightarrow> request_parts \<Rightarrow> (string, string) jmap \<Rightarrow> (string, string) jmap" where
  "merged_headers ignored q mapped =
    (let headers = provider_headers mapped in
     header_spread (header_spread (header_spread (header_spread [(''content-type'', ''application/json'')] headers) (forwarded_headers q))
       (proxy_headers ignored q)) (pickCredentialHeaders headers))"

definition MULTIPART :: string where
  "MULTIPART = ''multipart/form-data''"

text \<open>A missing header is sent as \<open>undefined\<close> where it is set regardless.\<close>

definition upload_headers :: "request_parts \<Rightarrow> (string, string) jmap \<Rightarrow> (string, string) jmap" where
  "upload_headers q hs =
    (if rqp_endpoint q = ''uploadFile''
     then (let h1 = jm_set ''Content-Type'' (case jm_get (rqp_headers q) ''content-type'' of Some v \<Rightarrow> v | None \<Rightarrow> ''undefined'') hs;
               purpose = jm_get (rqp_headers q) ''x-portkey-file-purpose''
           in if truthy_str purpose then jm_set ''x-portkey-file-purpose'' (the purpose) h1 else h1)
     else hs)"

definition header_media_type :: "string \<Rightarrow> string" where
  "header_media_type v = hd (split_on (CHR '';'') v)"

definition constructRequestHeaders :: "string list \<Rightarrow> request_parts \<Rightarrow> (string, string) jmap \<Rightarrow> (string, string) jmap" where
  "constructRequestHeaders ignored q mapped =
    (let headers = merged_headers ignored q mapped;
         multipart = (map_option header_media_type (jm_get headers ''content-type'') = Some MULTIPART)
     in stripPSInternalHeaders (if rqp_method q = ''GET'' \<or> multipart then upload_headers q (jm_del ''content-type'' headers) else headers))"

subsection \<open>Where headers come from\<close>

lemma get_spread: "jm_get (header_spread a b) = jm_get a ++ map_of (rev b)"
  unfolding header_spread_def
proof (induction b arbitrary: a)
  case (Cons e b)
  then show ?case by (cases e) (simp add: map_add_def fun_eq_iff split: option.splits)
qed simp

lemma map_of_rev: "distinct (map fst m) \<Longrightarrow> map_of (rev m) = map_of m"
proof (induction m)
  case (Cons e m)
  obtain k v where e: "e = (k, v)" by force
  with Cons have "map_of m k = None" by (simp add: map_of_eq_None_iff)
  with Cons e show ?case by (auto simp: map_add_def fun_eq_iff split: option.splits)
qed simp

lemma get_spread_wf: "jm_wf b \<Longrightarrow> jm_get (header_spread a b) = jm_get a ++ jm_get b"
  by (simp add: get_spread map_of_rev jm_wf_def)

lemma jm_wf_restrict: "jm_wf m \<Longrightarrow> jm_wf (filter p m)"
  by (simp add: jm_wf_def distinct_map_filter)

lemma jm_wf_provider: "jm_wf (provider_headers mapped)"
proof -
  have "jm_wf m \<Longrightarrow> jm_wf (fold (\<lambda>(h, v). jm_set (to_lower h) v) mapped m)" for m :: "(string, string) jmap"
    by (induction mapped arbitrary: m) (auto simp: jm_wf_set)
  then show ?thesis unfolding provider_headers_def by simp
qed

lemma forwarded_origin:
  "jm_get (forwarded_headers q) k = Some v \<Longrightarrow> k \<in> to_lower ` set (rqp_forwardHeaders q) \<and> jm_get (rqp_headers q) k = Some v"
proof -
  have "(\<forall>k v. jm_get m k = Some v \<longrightarrow> jm_get (rqp_headers q) k = Some v \<and> k \<in> K) \<Longrightarrow>
    jm_get (fold (\<lambda>h m. case jm_get (rqp_headers q) (to_lower h) of Some v \<Rightarrow> if v \<noteq> [] then jm_set (to_lower h) v m else m | None \<Rightarrow> m) fs m) k = Some v \<Longrightarrow>
    jm_get (rqp_headers q) k = Some v \<and> k \<in> K \<union> to_lower ` set fs" for fs m K
  proof (induction fs arbitrary: m K)
    case (Cons f fs)
    let ?m = "case jm_get (rqp_headers q) (to_lower f) of Some v \<Rightarrow> if v \<noteq> [] then jm_set (to_lower f) v m else m | None \<Rightarrow> m"
    have "\<forall>k v. jm_get ?m k = Some v \<longrightarrow> jm_get (rqp_headers q) k = Some v \<and> k \<in> insert (to_lower f) K"
      using Cons.prems(1) by (auto split: option.splits if_splits)
    from Cons.IH [OF this] Cons.prems(2) show ?case by auto
  qed simp
  from this [of "[]" "{}" "rqp_forwardHeaders q"] show "jm_get (forwarded_headers q) k = Some v \<Longrightarrow> ?thesis"
    by (simp add: forwarded_headers_def)
qed

lemma jm_wf_forwarded: "jm_wf (forwarded_headers q)"
proof -
  have "jm_wf m \<Longrightarrow> jm_wf (fold (\<lambda>h m. case jm_get (rqp_headers q) (to_lower h) of Some v \<Rightarrow> if v \<noteq> [] then jm_set (to_lower h) v m else m | None \<Rightarrow> m) fs m)" for fs m
    by (induction fs arbitrary: m) (auto simp: jm_wf_set split: option.splits)
  then show ?thesis unfolding forwarded_headers_def by simp
qed

lemma jm_get_filter_key: "jm_wf m \<Longrightarrow> jm_get (filter (\<lambda>(k, v). p k v) m) k = (case jm_get m k of Some v \<Rightarrow> if p k v then Some v else None | None \<Rightarrow> None)"
proof (induction m)
  case (Cons e m)
  obtain a b where e: "e = (a, b)" by force
  from Cons.prems e have "jm_wf m" "a \<notin> fst ` set m" by (auto simp: jm_wf_def)
  then have n: "jm_get m a = None" by (simp add: map_of_eq_None_iff)
  from Cons.IH [OF \<open>jm_wf m\<close>] show ?case by (cases "k = a") (auto simp: e n)
qed simp

lemma merged_get:
  assumes "jm_wf (rqp_headers q)"
  shows "jm_get (merged_headers ignored q mapped) k =
    (case jm_get (pickCredentialHeaders (provider_headers mapped)) k of Some v \<Rightarrow> Some v | None \<Rightarrow>
     case jm_get (proxy_headers ignored q) k of Some v \<Rightarrow> Some v | None \<Rightarrow>
     case jm_get (forwarded_headers q) k of Some v \<Rightarrow> Some v | None \<Rightarrow>
     case jm_get (provider_headers mapped) k of Some v \<Rightarrow> Some v | None \<Rightarrow>
     if k = ''content-type'' then Some ''application/json'' else None)"
proof -
  have p: "jm_wf (proxy_headers ignored q)" using assms by (simp add: proxy_headers_def jm_wf_restrict)
  have c: "jm_wf (pickCredentialHeaders (provider_headers mapped))" by (simp add: pickCredentialHeaders_def jm_wf_restrict jm_wf_provider)
  show ?thesis
    unfolding merged_headers_def Let_def get_spread_wf [OF c] get_spread_wf [OF p] get_spread_wf [OF jm_wf_forwarded] get_spread_wf [OF jm_wf_provider]
    by (simp add: map_add_def split: option.split)
qed

lemma strip_get:
  assumes "jm_wf m"
  shows "jm_get (stripPSInternalHeaders m) k = (if isPSInternalHeader k then None else jm_get m k)"
  using jm_get_filter_key [OF assms, of "\<lambda>k v. \<not> isPSInternalHeader k" k] by (auto simp: stripPSInternalHeaders_def split: option.splits)

lemma jm_wf_spread: "jm_wf a \<Longrightarrow> jm_wf (header_spread a b)"
  unfolding header_spread_def by (induction b arbitrary: a) (auto simp: jm_wf_set)

lemma jm_wf_merged: "jm_wf (merged_headers ignored q mapped)"
proof -
  have "jm_wf [(''content-type'', ''application/json'')]" unfolding jm_wf_def by simp
  then show ?thesis unfolding merged_headers_def Let_def by (intro jm_wf_spread)
qed

lemma jm_wf_upload: "jm_wf m \<Longrightarrow> jm_wf (upload_headers q m)"
  by (simp add: upload_headers_def Let_def jm_wf_set)

lemma sent_get:
  assumes "jm_wf (rqp_headers q)" "jm_get (constructRequestHeaders ignored q mapped) k = Some v"
  shows "\<not> isPSInternalHeader k" "jm_get (merged_headers ignored q mapped) k = Some v \<or> (rqp_endpoint q = ''uploadFile'' \<and> k \<in> {''Content-Type'', ''x-portkey-file-purpose''})"
proof -
  let ?m = "merged_headers ignored q mapped"
  define m where "m = (if rqp_method q = ''GET'' \<or> map_option header_media_type (jm_get ?m ''content-type'') = Some MULTIPART
    then upload_headers q (jm_del ''content-type'' ?m) else ?m)"
  have "jm_wf m" by (simp add: m_def jm_wf_merged jm_wf_upload jm_wf_del)
  from strip_get [OF this, of k] assms(2) show "\<not> isPSInternalHeader k" and "jm_get ?m k = Some v \<or> (rqp_endpoint q = ''uploadFile'' \<and> k \<in> {''Content-Type'', ''x-portkey-file-purpose''})"
    by (auto simp: constructRequestHeaders_def Let_def m_def upload_headers_def split: if_splits)
qed

definition header_origin :: "string list \<Rightarrow> request_parts \<Rightarrow> (string, string) jmap \<Rightarrow> string \<Rightarrow> string \<Rightarrow> bool" where
  "header_origin ignored q mapped k v \<longleftrightarrow>
     jm_get (provider_headers mapped) k = Some v \<or>
     (k = ''content-type'' \<and> v = ''application/json'') \<or>
     (k \<in> to_lower ` set (rqp_forwardHeaders q) \<and> jm_get (rqp_headers q) k = Some v) \<or>
     (rqp_endpoint q = ''proxy'' \<and> jm_get (rqp_headers q) k = Some v \<and> k \<notin> set ignored \<and> k \<notin> {''expect'', ''content-length''} \<and>
        \<not> starts_with k INTERNAL_PREFIX) \<or>
     (rqp_endpoint q = ''uploadFile'' \<and> k \<in> {''Content-Type'', ''x-portkey-file-purpose''})"

text \<open>C38. No business metadata leaves with a request, a client's header only when the configuration forwards it or the call is
  proxied, the gateway's own headers never on a proxied call, and a credential the provider's configuration makes is the one sent,
  whatever the client sends. The exception is a file upload, whose content type and purpose are the client's.\<close>

theorem upstream_headers_private:
  assumes "jm_wf (rqp_headers q)" "jm_get (constructRequestHeaders ignored q mapped) k = Some v"
  shows "\<not> isPSInternalHeader k \<and> header_origin ignored q mapped k v \<and>
    (k \<in> {''Content-Type'', ''x-portkey-file-purpose''} \<or> jm_get (pickCredentialHeaders (provider_headers mapped)) k \<in> {None, Some v})"
proof -
  note s = sent_get [OF assms]
  have o: "header_origin ignored q mapped k v" if "jm_get (merged_headers ignored q mapped) k = Some v"
  proof -
    have pick: "jm_get (provider_headers mapped) k = Some c" if "jm_get (pickCredentialHeaders (provider_headers mapped)) k = Some c" for c
      using that jm_get_filter_key [OF jm_wf_provider, of "\<lambda>h v. isSensitiveKey h \<and> isMeaningfulCredential v" mapped k]
      by (auto simp: pickCredentialHeaders_def split: option.splits if_splits)
    have prox: "rqp_endpoint q = ''proxy'' \<and> jm_get (rqp_headers q) k = Some c \<and> k \<notin> set ignored \<and> k \<notin> {''expect'', ''content-length''} \<and>
        \<not> starts_with k INTERNAL_PREFIX" if "jm_get (proxy_headers ignored q) k = Some c" for c
      using that jm_get_filter_key [OF assms(1), of "\<lambda>k v. k \<notin> set (ignored @ [''expect'', ''content-length'']) \<and> \<not> starts_with k INTERNAL_PREFIX" k]
      by (auto simp: proxy_headers_def split: option.splits if_splits)
    have "jm_get (pickCredentialHeaders (provider_headers mapped)) k = Some v \<or> jm_get (proxy_headers ignored q) k = Some v \<or>
      jm_get (forwarded_headers q) k = Some v \<or> jm_get (provider_headers mapped) k = Some v \<or> (k = ''content-type'' \<and> v = ''application/json'')"
      using that unfolding merged_get [OF assms(1)] by (simp split: option.splits if_splits)
    then show ?thesis
    proof (elim disjE)
      assume "jm_get (pickCredentialHeaders (provider_headers mapped)) k = Some v"
      from pick [OF this] show ?thesis unfolding header_origin_def by blast
    next
      assume "jm_get (proxy_headers ignored q) k = Some v"
      from prox [OF this] show ?thesis unfolding header_origin_def by blast
    next
      assume "jm_get (forwarded_headers q) k = Some v"
      from forwarded_origin [OF this] show ?thesis unfolding header_origin_def by blast
    qed (unfold header_origin_def, blast+)
  qed
  from s(2) show ?thesis
  proof
    assume m: "jm_get (merged_headers ignored q mapped) k = Some v"
    then have "jm_get (pickCredentialHeaders (provider_headers mapped)) k \<in> {None, Some v}"
      unfolding merged_get [OF assms(1)] by (auto split: option.splits)
    with s(1) o [OF m] show ?thesis by simp
  qed (use s(1) in \<open>auto simp: header_origin_def\<close>)
qed

definition sample_parts :: request_parts where
  "sample_parts = \<lparr>rqp_method = ''POST'', rqp_endpoint = ''proxy'',
     rqp_headers = [(''authorization'', ''Bearer attacker''), (''x-ps-owner'', ''alice''), (''accept'', ''b'')], rqp_forwardHeaders = []\<rparr>"

theorem upstream_headers_private_witness:
  "jm_get (constructRequestHeaders [] sample_parts [(''Authorization'', ''Bearer sk-provider-123'')]) ''authorization'' = Some ''Bearer sk-provider-123'' \<and>
   \<not> isPSInternalHeader ''authorization'' \<and>
   header_origin [] sample_parts [(''Authorization'', ''Bearer sk-provider-123'')] ''authorization'' ''Bearer sk-provider-123''"
proof -
  have w: "jm_wf (rqp_headers sample_parts)" by (simp add: sample_parts_def jm_wf_def)
  have g: "jm_get (constructRequestHeaders [] sample_parts [(''Authorization'', ''Bearer sk-provider-123'')]) ''authorization'' = Some ''Bearer sk-provider-123''"
    by code_simp
  from upstream_headers_private [OF w g] g show ?thesis by simp
qed

subsection \<open>Body\<close>

text \<open>What a request brings, and what of it goes out: nothing, the stream as it came, or the transformed body as it is or as JSON.\<close>

datatype gateway_body = Json_body json | Form_data "(string, string) jmap" | Stream_body | Buffer_body

datatype sent_body = Sent_nothing | Sent_stream | Sent_as_is | Sent_json

definition request_content_type :: "(string, string) jmap \<Rightarrow> string" where
  "request_content_type headers = (case jm_get headers ''content-type'' of Some v \<Rightarrow> header_media_type v | None \<Rightarrow> [])"

definition constructRequestBody :: "request_parts \<Rightarrow> gateway_body \<Rightarrow> (string, string) jmap \<Rightarrow> sent_body" where
  "constructRequestBody q body mapped =
    (let ct = request_content_type (rqp_headers q);
         multipart = (jm_get mapped ''Content-Type'' = Some MULTIPART \<or> (rqp_endpoint q = ''proxy'' \<and> ct = MULTIPART));
         audio = (rqp_endpoint q = ''proxy'' \<and> starts_with ct ''audio'')
     in if rqp_method q \<in> {''GET'', ''DELETE''} then Sent_nothing
        else if multipart then Sent_as_is
        else if body = Stream_body then Sent_stream
        else if audio then Sent_as_is
        else if ct \<noteq> [] then Sent_json else Sent_nothing)"

subsection \<open>URL\<close>

record url_view =
  uvw_protocol :: string
  uvw_username :: string
  uvw_password :: string
  uvw_host :: string
  uvw_origin :: string

definition proxyBaseHost :: "(string \<Rightarrow> url_view option) \<Rightarrow> string \<Rightarrow> string" where
  "proxyBaseHost parse base =
    (case parse base of None \<Rightarrow> []
     | Some u \<Rightarrow> if uvw_protocol u \<notin> {''https:'', ''http:''} \<or> uvw_username u \<noteq> [] \<or> uvw_password u \<noteq> [] then [] else to_lower (uvw_host u))"

text \<open>\<open>assertProxyURLOrigin\<close>: whether the URL passes.\<close>

definition assertProxyURLOrigin :: "(string \<Rightarrow> url_view option) \<Rightarrow> string \<Rightarrow> string \<Rightarrow> bool" where
  "assertProxyURLOrigin parse url base \<longleftrightarrow>
    (case (parse url, parse base) of
       (Some t, Some b) \<Rightarrow> proxyBaseHost parse base \<noteq> [] \<and> uvw_username t = [] \<and> uvw_password t = [] \<and> uvw_origin t = uvw_origin b
     | _ \<Rightarrow> False)"

text \<open>\<open>s.replace(pat, rep)\<close>: the first occurrence.\<close>

fun replace_first :: "string \<Rightarrow> string \<Rightarrow> string \<Rightarrow> string" where
  "replace_first pat rep s =
    (if starts_with s pat then rep @ drop (length pat) s
     else (case s of [] \<Rightarrow> [] | c # cs \<Rightarrow> c # replace_first pat rep cs))"

definition stripProxyEndpointPath :: "string \<Rightarrow> string" where
  "stripProxyEndpointPath pathname =
    replace_first (if includes_str pathname ''/v1/proxy'' then ''/v1/proxy'' else ''/v1'') [] pathname"

record provider_config =
  pvc_name :: string
  pvc_baseURL :: string
  pvc_endpointPath :: string
  pvc_proxyEndpoint :: "(string \<Rightarrow> string \<Rightarrow> string) option"
  pvc_handler :: bool

definition getProxyPath :: "(string \<Rightarrow> url_view option) \<Rightarrow> provider_config \<Rightarrow> string \<Rightarrow> string \<Rightarrow> string \<Rightarrow> string option" where
  "getProxyPath parse pv pathname search base =
    (let path = stripProxyEndpointPath pathname in
     if path \<noteq> [] \<and> \<not> starts_with path ''/'' then None
     else if pvc_name pv = ''azure-openai'' \<and> includes_str path ''.openai.azure.com''
     then (let host = proxyBaseHost parse base in
           if host = [] \<or> to_lower (hd (split_on (CHR ''/'') (drop 1 path))) \<noteq> host then None else Some (''https:/'' @ path @ search))
     else case pvc_proxyEndpoint pv of
       Some f \<Rightarrow> Some (base @ f path search)
     | None \<Rightarrow> (let url = base @ path @ search in Some (if pvc_name pv = ''anthropic'' then replace_first ''/v1/v1/'' ''/v1/'' url else url)))"

text \<open>The URL of the call; \<open>None\<close> where a \<open>GatewayError\<close> is thrown.\<close>

definition getFullURL :: "(string \<Rightarrow> url_view option) \<Rightarrow> provider_config \<Rightarrow> string \<Rightarrow> string \<Rightarrow> string \<Rightarrow> string \<Rightarrow> string option" where
  "getFullURL parse pv endpoint customHost pathname search =
    (let base = (if customHost \<noteq> [] then customHost else pvc_baseURL pv) in
     if endpoint = ''proxy''
     then (case getProxyPath parse pv pathname search base of
             None \<Rightarrow> None
           | Some url \<Rightarrow> if assertProxyURLOrigin parse url base then Some url else None)
     else (let url = base @ pvc_endpointPath pv in
           if base \<noteq> [] \<and> \<not> pvc_handler pv \<and> \<not> assertProxyURLOrigin parse url base then None else Some url))"

text \<open>The URL has the origin of the configured base or custom host.\<close>

definition same_origin :: "(string \<Rightarrow> url_view option) \<Rightarrow> string \<Rightarrow> string \<Rightarrow> bool" where
  "same_origin parse url base \<longleftrightarrow>
    (\<exists>t b. parse url = Some t \<and> parse base = Some b \<and> uvw_origin t = uvw_origin b \<and> uvw_username t = [] \<and> uvw_password t = [] \<and>
       uvw_protocol b \<in> {''https:'', ''http:''})"

lemma assert_same_origin: "assertProxyURLOrigin parse url base \<Longrightarrow> same_origin parse url base"
  by (auto simp: assertProxyURLOrigin_def same_origin_def proxyBaseHost_def split: option.splits if_splits)

lemma full_url_origin:
  assumes "getFullURL parse pv endpoint customHost pathname search = Some url" "endpoint = ''proxy'' \<or> \<not> pvc_handler pv"
  shows "same_origin parse url (if customHost \<noteq> [] then customHost else pvc_baseURL pv) \<or> (customHost = [] \<and> pvc_baseURL pv = [] \<and> url = pvc_endpointPath pv)"
proof (cases "endpoint = ''proxy''")
  case True
  with assms(1) have "assertProxyURLOrigin parse url (if customHost \<noteq> [] then customHost else pvc_baseURL pv)"
    by (auto simp: getFullURL_def Let_def split: option.splits if_splits)
  then show ?thesis by (simp add: assert_same_origin)
next
  case False
  with assms assert_same_origin show ?thesis unfolding getFullURL_def Let_def by (auto split: if_splits)
qed

end
