(* ===== verification/Response_Pipeline.thy ===== *)
theory Response_Pipeline
  imports Hook_Executor Retry_Request Upstream_Request
begin

text \<open>
  What becomes of an upstream answer (\<open>src/handlers/responseHandlers.ts\<close>, \<open>src/handlers/responseSizeLimit.ts\<close>,
  \<open>src/handlers/streamHandler.ts\<close> \<open>handleNonStreamingMode\<close> and \<open>handleTextResponse\<close>, \<open>src/handlers/handlerUtils.ts\<close>
  \<open>recursiveAfterRequestHookHandler\<close>): the size limit, the choice between stream, text and JSON, the output hooks and the retries
  they cause. The provider's transformation of a body, the transformation of a stream and \<open>JSON.parse\<close> are parameters.
\<close>

subsection \<open>Size limit\<close>

definition DEFAULT_MAX_CUSTOM_HOST_RESPONSE_BYTES :: nat where
  "DEFAULT_MAX_CUSTOM_HOST_RESPONSE_BYTES = 50 * 1024 * 1024"

definition maxCustomHostResponseBytes :: "string option \<Rightarrow> nat" where
  "maxCustomHostResponseBytes raw =
    (case raw of None \<Rightarrow> DEFAULT_MAX_CUSTOM_HOST_RESPONSE_BYTES
     | Some v \<Rightarrow> (case js_integer (js_Number v) of Some n \<Rightarrow> if 0 < n then nat n else DEFAULT_MAX_CUSTOM_HOST_RESPONSE_BYTES
                | None \<Rightarrow> DEFAULT_MAX_CUSTOM_HOST_RESPONSE_BYTES))"

definition too_large_response :: "string \<Rightarrow> nat \<Rightarrow> up_response" where
  "too_large_response declared maxBytes = \<lparr>urp_status = 502, urp_headers = json_headers,
     urp_text = Inr (''{\"status\":\"failure\",\"message\":\"Upstream response of '' @ declared @ '' bytes exceeds the '' @ digits_of maxBytes @
       '' byte limit for custom hosts\"}''), urp_opaque = False\<rparr>"

definition stream_error :: "nat \<Rightarrow> up_error" where
  "stream_error maxBytes = \<lparr>uer_type_error = False, uer_name = ''Error'', uer_message = ''Upstream response exceeded the '' @ digits_of maxBytes @ '' byte limit for custom hosts'',
     uer_status = None, uer_headers = [], uer_cause_name = None, uer_cause = ''NA''\<rparr>"

text \<open>A declared length above the limit is refused at once; a longer body fails while it is read. A missing header counts as 0;
  \<open>shown\<close> is \<open>String\<close> on a number.\<close>

definition limitResponseSize :: "(jsnum \<Rightarrow> string) \<Rightarrow> nat \<Rightarrow> up_response \<Rightarrow> up_response" where
  "limitResponseSize shown maxBytes r =
    (let declared = (case jm_get (urp_headers r) ''content-length'' of None \<Rightarrow> Fin 0 | Some v \<Rightarrow> js_Number v) in
     if is_finite declared \<and> js_gt declared (Fin (of_nat maxBytes)) then too_large_response (shown declared) maxBytes
     else (case urp_text r of Inr t \<Rightarrow> if maxBytes < length t then r\<lparr>urp_text := Inl (stream_error maxBytes)\<rparr> else r | Inl e \<Rightarrow> r))"

subsection \<open>Mapping\<close>

datatype out_body = Out_json json | Out_text string | Out_stream up_response

record out_response =
  our_status :: nat
  our_headers :: "(string, string) jmap"
  our_body :: out_body

text \<open>\<open>responseJson\<close> of a mapped response: \<open>JNull\<close> where there is none.\<close>

record mapped_response =
  mpr_response :: out_response
  mpr_json :: json

record map_env =
  mpe_parse :: "string \<Rightarrow> json option"
  mpe_transform :: "json \<Rightarrow> nat \<Rightarrow> json"
  mpe_has_transform :: bool
  mpe_stream :: "up_response \<Rightarrow> up_response"

definition parse_error :: up_error where
  "parse_error = \<lparr>uer_type_error = False, uer_name = ''SyntaxError'', uer_message = ''Unexpected token in JSON'', uer_status = None,
     uer_headers = [], uer_cause_name = None, uer_cause = ''NA''\<rparr>"

text \<open>\<open>await response.json()\<close>\<close>

definition read_json :: "map_env \<Rightarrow> up_response \<Rightarrow> up_error + json" where
  "read_json env r = rbind (urp_text r) (\<lambda>t. lift_option parse_error (mpe_parse env t))"

definition as_is :: "up_response \<Rightarrow> mapped_response" where
  "as_is r = \<lparr>mpr_response = \<lparr>our_status = urp_status r, our_headers = urp_headers r, our_body = Out_stream r\<rparr>, mpr_json = JNull\<rparr>"

definition json_out :: "up_response \<Rightarrow> json \<Rightarrow> mapped_response" where
  "json_out r v = \<lparr>mpr_response = \<lparr>our_status = urp_status r, our_headers = urp_headers r, our_body = Out_json v\<rparr>, mpr_json = v\<rparr>"

definition handleNonStreamingMode :: "map_env \<Rightarrow> bool \<Rightarrow> up_response \<Rightarrow> up_error + mapped_response" where
  "handleNonStreamingMode env areSyncHooksAvailable r =
    (if urp_status r \<in> {408, 412} then rbind (read_json env r) (\<lambda>v. Inr \<lparr>mpr_response = mpr_response (as_is r), mpr_json = v\<rparr>)
     else if mpe_has_transform env then rbind (read_json env r) (\<lambda>v. Inr (json_out r (mpe_transform env v (urp_status r))))
     else if areSyncHooksAvailable then rbind (read_json env r) (\<lambda>v. Inr (json_out r v))
     else Inr (as_is r))"

definition handleTextResponse :: "map_env \<Rightarrow> up_response \<Rightarrow> up_error + mapped_response" where
  "handleTextResponse env r =
    rbind (urp_text r) (\<lambda>t. Inr \<lparr>mpr_response =
       (if mpe_has_transform env
        then \<lparr>our_status = urp_status r, our_headers = jm_set ''content-type'' ''application/json'' (urp_headers r),
              our_body = Out_json (mpe_transform env (JObj [(''html-message'', JStr t)]) (urp_status r))\<rparr>
        else \<lparr>our_status = urp_status r, our_headers = urp_headers r, our_body = Out_text t\<rparr>), mpr_json = JNull\<rparr>)"

text \<open>\<open>responseHandler\<close> on an answer that is no cache hit.\<close>

definition responseHandler :: "map_env \<Rightarrow> bool \<Rightarrow> bool \<Rightarrow> up_response \<Rightarrow> up_error + mapped_response" where
  "responseHandler env streamingMode areSyncHooksAvailable r =
    (let ct = jm_get (urp_headers r) ''content-type'';
         starts = (\<lambda>p. case ct of Some v \<Rightarrow> starts_with v p | None \<Rightarrow> False)
     in if streamingMode \<and> urp_status r \<in> {200, 246} then Inr (as_is (mpe_stream env r))
        else if starts ''audio'' then Inr (as_is r)
        else if ct \<in> {Some ''application/octet-stream'', Some ''binary/octet-stream''} then Inr (as_is r)
        else if starts ''image/'' then Inr (as_is r)
        else if starts ''text/plain'' \<or> starts ''text/html'' then handleTextResponse env r
        else if \<not> truthy_str ct \<and> urp_status r = 204 then Inr (as_is r)
        else handleNonStreamingMode env areSyncHooksAvailable r)"

subsection \<open>Output hooks\<close>

text \<open>The hooks of a request as they run: some events complete the run.\<close>

type_synonym 'w hook_runner = "string list \<Rightarrow> hook_span \<Rightarrow> 'w \<Rightarrow> ((hook_report list \<times> bool) \<times> hook_span) \<times> 'w"

definition hooks_contract :: "text_env \<Rightarrow> 'w hook_runner \<Rightarrow> bool" where
  "hooks_contract txt run \<longleftrightarrow> (\<forall>presets sp w. \<exists>events. executeHooks txt presets sp events = Some (fst (run presets sp w)))"

definition hooks_failed_error :: json where
  "hooks_failed_error = JObj [(''message'', JStr ''The guardrail checks defined in the config failed. You can find more information in the `hook_results` object.''),
     (''type'', JStr ''hooks_failed''), (''param'', JNull), (''code'', JNull)]"

definition hook_results_json :: "(hook_report list \<Rightarrow> json) \<Rightarrow> hook_span \<Rightarrow> json" where
  "hook_results_json reports sp =
    JObj [(''before_request_hooks'', reports (hsp_beforeResults sp)), (''after_request_hooks'', reports (hsp_afterResults sp))]"

definition createHookResponse :: "(hook_report list \<Rightarrow> json) \<Rightarrow> out_response \<Rightarrow> json \<Rightarrow> hook_span \<Rightarrow> nat option \<Rightarrow> (string, string) jmap option \<Rightarrow> bool \<Rightarrow> out_response" where
  "createHookResponse reports base responseData sp status headers forceError =
    (let body = (if forceError then [(''error'', hooks_failed_error)] else (case own_entries responseData of Some es \<Rightarrow> es | None \<Rightarrow> []));
         results = (if hsp_beforeResults sp \<noteq> [] \<or> hsp_afterResults sp \<noteq> [] then jm_set ''hook_results'' (hook_results_json reports sp) body else body)
     in \<lparr>our_status = (case status of Some n \<Rightarrow> n | None \<Rightarrow> our_status base), our_headers = (case headers of Some h \<Rightarrow> h | None \<Rightarrow> our_headers base),
         our_body = Out_json (JObj results)\<rparr>)"

definition failed_hooks :: "hook_span \<Rightarrow> bool" where
  "failed_hooks sp \<longleftrightarrow> list_ex (\<lambda>h. \<not> hre_verdict h) (hsp_beforeResults sp) \<or> list_ex (\<lambda>h. \<not> hre_verdict h) (hsp_afterResults sp)"

text \<open>The answer after the output hooks have run, by whether they deny. A response without JSON, as a stream, is never denied.\<close>

definition hooked_response :: "(hook_report list \<Rightarrow> json) \<Rightarrow> mapped_response \<Rightarrow> bool \<Rightarrow> hook_span \<Rightarrow> out_response" where
  "hooked_response reports m shouldDeny sp =
    (let r = mpr_response m; soft = failed_hooks sp \<and> our_status r = 200 in
     if \<not> truthy_json (Some (mpr_json m)) then (if soft then r\<lparr>our_status := 246\<rparr> else r)
     else if shouldDeny then createHookResponse reports r JNull sp (Some 446) (Some json_headers) True
     else let responseData = (if hct_responseTransformed (hsp_context sp) then hct_responseJson (hsp_context sp) else mpr_json m) in
       if soft then createHookResponse reports r responseData sp (Some 246) None False
       else createHookResponse reports r responseData sp None None False)"

text \<open>An exception on the way, while the text of the response is read, gives the response out as it is.\<close>

definition afterRequestHookHandler ::
  "text_env \<Rightarrow> (hook_report list \<Rightarrow> json) \<Rightarrow> 'w hook_runner \<Rightarrow> mapped_response \<Rightarrow> nat \<Rightarrow> hook_span \<Rightarrow> 'w \<Rightarrow> out_response \<times> hook_span \<times> 'w" where
  "afterRequestHookHandler txt reports run m retryAttemptsMade sp w =
    (case setContextResponse txt (mpr_json m) (our_status (mpr_response m)) sp of
       None \<Rightarrow> (mpr_response m, sp, w)
     | Some sp1 \<Rightarrow>
        let sp2 = (if 0 < retryAttemptsMade then resetHookResult After_request sp1 else sp1) in
        case run [''syncAfterRequestHook''] sp2 w of (((results, shouldDeny), sp3), w1) \<Rightarrow> (hooked_response reports m shouldDeny sp3, sp3, w1))"

subsection \<open>Retries\<close>

record 'w after_env =
  afe_text :: text_env
  afe_reports :: "hook_report list \<Rightarrow> json"
  afe_hooks :: "'w hook_runner"
  afe_retry :: "'w retry_lib"
  afe_call :: "'w \<Rightarrow> call_result \<times> 'w"
  afe_map :: map_env
  afe_settings :: retry_settings
  afe_streaming :: bool
  afe_limit :: "nat option"
  afe_syncHooks :: bool

record after_result =
  afr_response :: out_response
  afr_retryCount :: int

text \<open>One round: the call with its retries, the mapping and the output hooks. \<open>afe_limit\<close> is the size limit of a custom host.\<close>

definition limited :: "'w after_env \<Rightarrow> up_response \<Rightarrow> up_response" where
  "limited env r = (case afe_limit env of None \<Rightarrow> r | Some n \<Rightarrow> limitResponseSize (txe_number (afe_text env)) n r)"

definition one_round ::
  "'w after_env \<Rightarrow> nat \<Rightarrow> hook_span \<Rightarrow> 'w \<Rightarrow> (up_error + out_response \<times> nat \<times> bool) \<times> hook_span \<times> 'w" where
  "one_round env made sp w =
    (case retryRequest (afe_retry env) (afe_call env) (afe_settings env) w of
       (Inl e, st) \<Rightarrow> (Inl e, sp, rty_world st)
     | (Inr a, st) \<Rightarrow>
        (case rta_response a of
           None \<Rightarrow> (Inl parse_error, sp, rty_world st)
         | Some r0 \<Rightarrow>
            (case responseHandler (afe_map env) (afe_streaming env) (afe_syncHooks env) (limited env r0) of
               Inl e \<Rightarrow> (Inl e, sp, rty_world st)
             | Inr m \<Rightarrow>
                (case afterRequestHookHandler (afe_text env) (afe_reports env) (afe_hooks env) m made sp (rty_world st) of
                   (out, sp1, w1) \<Rightarrow> (Inr (out, (case rta_attempt a of None \<Rightarrow> 0 | Some k \<Rightarrow> k), rta_skip a), sp1, w1)))))"

text \<open>\<open>recursiveAfterRequestHookHandler\<close>: another round for a status of the list, as long as attempts remain.\<close>

definition retry_again :: "'w after_env \<Rightarrow> nat \<Rightarrow> out_response \<times> nat \<times> bool \<Rightarrow> bool" where
  "retry_again env made res =
    (case res of (out, retryCount, skipped) \<Rightarrow>
      retryCount + made < rts_count (afe_settings env) \<and> \<not> skipped \<and> our_status out \<in> set (rts_codes (afe_settings env)))"

definition last_attempt :: "'w after_env \<Rightarrow> nat \<Rightarrow> out_response \<times> nat \<times> bool \<Rightarrow> int" where
  "last_attempt env made res =
    (case res of (out, retryCount, skipped) \<Rightarrow>
      if (retryCount + made = rts_count (afe_settings env) \<and> our_status out \<in> set (rts_codes (afe_settings env))) \<or> skipped then -1
      else int (retryCount + made))"

function recursiveAfterRequestHookHandler ::
  "'w after_env \<Rightarrow> nat \<Rightarrow> hook_span \<Rightarrow> 'w \<Rightarrow> (up_error + after_result) \<times> hook_span \<times> 'w" where
  "recursiveAfterRequestHookHandler env made sp w =
    (case one_round env made sp w of
       (Inl e, sp1, w1) \<Rightarrow> (Inl e, sp1, w1)
     | (Inr res, sp1, w1) \<Rightarrow>
        if retry_again env made res then recursiveAfterRequestHookHandler env (fst (snd res) + 1 + made) sp1 w1
        else (Inr \<lparr>afr_response = fst res, afr_retryCount = last_attempt env made res\<rparr>, sp1, w1))"
  by pat_completeness auto

termination
  by (relation "measure (\<lambda>(env, made, sp, w). rts_count (afe_settings env) - made)") (auto simp: retry_again_def)

declare recursiveAfterRequestHookHandler.simps [simp del]

subsection \<open>What the output hooks let through\<close>

lemma hooks_run_events:
  assumes "hooks_contract txt run" "run presets sp w = (((rs, deny), sp'), w')"
  shows "\<exists>events. executeHooks txt presets sp events = Some ((rs, deny), sp')"
  using assms(1) unfolding hooks_contract_def by (metis assms(2) fst_conv)

text \<open>The answer of a mapped response went through the output hooks, or the text of its JSON could not be read. The hooks see that
  JSON.\<close>

definition hook_outcome ::
  "text_env \<Rightarrow> (hook_report list \<Rightarrow> json) \<Rightarrow> 'w hook_runner \<Rightarrow> hook_span \<Rightarrow> mapped_response \<Rightarrow> 'w \<Rightarrow> out_response \<Rightarrow> hook_span \<Rightarrow> 'w \<Rightarrow> bool" where
  "hook_outcome txt reports run sp m w out sp' w' \<longleftrightarrow>
    (extractResponseText txt (mpr_json m) = None \<and> out = mpr_response m \<and> sp' = sp \<and> w' = w) \<or>
    (\<exists>sp1 rs deny. same_hooks sp sp1 \<and> hct_responseJson (hsp_context sp1) = mpr_json m \<and>
       run [''syncAfterRequestHook''] sp1 w = (((rs, deny), sp'), w') \<and> out = hooked_response reports m deny sp')"

lemma after_hooks_outcome:
  assumes "afterRequestHookHandler txt reports run m made sp w = (out, sp', w')"
  shows "hook_outcome txt reports run sp m w out sp' w'"
proof (cases "extractResponseText txt (mpr_json m)")
  case None
  with assms show ?thesis by (simp add: afterRequestHookHandler_def setContextResponse_def hook_outcome_def)
next
  case (Some t)
  let ?sp1 = "sp\<lparr>hsp_context := (hsp_context sp)\<lparr>hct_responseJson := mpr_json m, hct_responseText := t,
    hct_statusCode := Some (our_status (mpr_response m))\<rparr>\<rparr>"
  let ?sp2 = "if 0 < made then resetHookResult After_request ?sp1 else ?sp1"
  obtain rs deny sp3 w1 where r: "run [''syncAfterRequestHook''] ?sp2 w = (((rs, deny), sp3), w1)" by (metis surj_pair)
  with assms Some have o: "out = hooked_response reports m deny sp'" "sp3 = sp'" "w1 = w'"
    by (auto simp: afterRequestHookHandler_def setContextResponse_def Let_def simp del: if_split)
  have s: "same_hooks sp ?sp2" "hct_responseJson (hsp_context ?sp2) = mpr_json m"
    by (simp_all add: same_hooks_def resetHookResult_def)
  from r o s show ?thesis unfolding hook_outcome_def by blast
qed

lemma hook_outcome_same: "hooks_contract txt run \<Longrightarrow> hook_outcome txt reports run sp m w out sp' w' \<Longrightarrow> same_hooks sp sp'"
  unfolding hook_outcome_def by (blast dest: hooks_run_events executeHooks_same intro: same_hooks_refl same_hooks_trans)

text \<open>The upstream was asked from \<open>w\<close> to \<open>w'\<close>, and \<open>m\<close> is its mapped answer.\<close>

definition answered :: "'w after_env \<Rightarrow> 'w \<Rightarrow> 'w \<Rightarrow> mapped_response \<Rightarrow> bool" where
  "answered env w w' m \<longleftrightarrow> (\<exists>a st r0. retryRequest (afe_retry env) (afe_call env) (afe_settings env) w = (Inr a, st) \<and> rty_world st = w' \<and>
     rta_response a = Some r0 \<and> responseHandler (afe_map env) (afe_streaming env) (afe_syncHooks env) (limited env r0) = Inr m)"

definition round_outcome :: "'w after_env \<Rightarrow> hook_span \<Rightarrow> out_response \<Rightarrow> hook_span \<Rightarrow> 'w \<Rightarrow> bool" where
  "round_outcome env sp out sp' w' \<longleftrightarrow>
    (\<exists>w1 w2 m. answered env w1 w2 m \<and> hook_outcome (afe_text env) (afe_reports env) (afe_hooks env) sp m w2 out sp' w')"

lemma one_round_outcome:
  assumes "one_round env made sp w = (Inr (out, r), sp', w')"
  shows "round_outcome env sp out sp' w'"
proof -
  obtain result st where run: "retryRequest (afe_retry env) (afe_call env) (afe_settings env) w = (result, st)" by force
  with assms obtain a r0 m where a: "result = Inr a" "rta_response a = Some r0"
      "responseHandler (afe_map env) (afe_streaming env) (afe_syncHooks env) (limited env r0) = Inr m"
      "afterRequestHookHandler (afe_text env) (afe_reports env) (afe_hooks env) m made sp (rty_world st) = (out, sp', w')"
    by (auto simp: one_round_def split: prod.splits sum.splits option.splits)
  have "answered env w (rty_world st) m" using run a unfolding answered_def by blast
  with after_hooks_outcome [OF a(4)] show ?thesis unfolding round_outcome_def by blast
qed

lemma round_outcome_same: "hooks_contract (afe_text env) (afe_hooks env) \<Longrightarrow> round_outcome env sp out sp' w' \<Longrightarrow> same_hooks sp sp'"
  unfolding round_outcome_def by (blast dest: hook_outcome_same)

lemma last_round_outcome:
  assumes "hooks_contract (afe_text env) (afe_hooks env)"
  shows "recursiveAfterRequestHookHandler env made sp w = (Inr res, sp', w') \<Longrightarrow>
    \<exists>sp1. same_hooks sp sp1 \<and> round_outcome env sp1 (afr_response res) sp' w'"
  using assms
proof (induction env made sp w rule: recursiveAfterRequestHookHandler.induct)
  case (1 env made sp w)
  from 1(2) obtain out r sp1 w1 where o: "one_round env made sp w = (Inr (out, r), sp1, w1)"
    by (subst (asm) recursiveAfterRequestHookHandler.simps) (auto split: prod.splits sum.splits)
  note m = one_round_outcome [OF o]
  note same = round_outcome_same [OF 1(3) m]
  show ?case
  proof (cases "retry_again env made (out, r)")
    case True
    with 1(2) o have "recursiveAfterRequestHookHandler env (fst (snd (out, r)) + 1 + made) sp1 w1 = (Inr res, sp', w')"
      by (subst (asm) recursiveAfterRequestHookHandler.simps) simp
    with 1(1) [OF o [symmetric] refl refl True _ 1(3)] same show ?thesis by (blast intro: same_hooks_trans)
  next
    case False
    with 1(2) o have "afr_response res = out" "sp' = sp1" "w' = w1"
      by (auto simp: recursiveAfterRequestHookHandler.simps [of env made sp w])
    with m same_hooks_refl show ?thesis by blast
  qed
qed

text \<open>A check of a guardrail that denies failed; and the answer of a denial, which is made of the fixed error and of the
  reports of the hooks alone.\<close>

definition output_denied :: "hook_span \<Rightarrow> check_event list \<Rightarrow> bool" where
  "output_denied sp events \<longleftrightarrow>
    (let hooks = getHooksToExecute sp [''syncAfterRequestHook''] in
     \<exists>i j out. i < length hooks \<and> gho_deny (hooks ! i) \<and> \<not> hook_skips sp (hooks ! i) \<and> j < length (checks_run (hooks ! i)) \<and>
       outcome_at events i j = Some out \<and> check_fails (checks_run (hooks ! i) ! j) out)"

definition refusal :: "(hook_report list \<Rightarrow> json) \<Rightarrow> hook_span \<Rightarrow> out_response" where
  "refusal reports sp = \<lparr>our_status = 446, our_headers = json_headers,
     our_body = Out_json (JObj ((''error'', hooks_failed_error) #
       (if hsp_beforeResults sp = [] \<and> hsp_afterResults sp = [] then []
        else [(''hook_results'', JObj [(''before_request_hooks'', reports (hsp_beforeResults sp)),
                                       (''after_request_hooks'', reports (hsp_afterResults sp))])])))\<rparr>"

lemma hooked_refusal: "truthy_json (Some (mpr_json m)) \<Longrightarrow> hooked_response reports m True sp = refusal reports sp"
  by (simp add: hooked_response_def createHookResponse_def hook_results_json_def refusal_def Let_def)

text \<open>C39. The output guardrails are enforced on answers with JSON. The answer that goes out is the mapped answer \<open>m\<close> of an upstream
  call, taken through a run of the after-request hooks over the JSON of that very answer; where a check of a guardrail that denies
  failed in the run, the caller gets the \<open>refusal\<close>: status 446, the fixed error and the reports of the hooks, and
  nothing else of the answer or its headers. (The data of a report is the plugin's own, and some plugins quote the text they
  checked.) The exceptions: a denial is ignored where the mapped answer carries no JSON (streams, text, audio, images, binary
  answers), the text of its JSON may not be readable, and an exception in a hook may cut the run short (\<open>rs = []\<close>).\<close>

theorem output_guardrails_enforced:
  assumes "hooks_contract (afe_text env) (afe_hooks env)" "recursiveAfterRequestHookHandler env made sp w = (Inr res, sp', w')"
  shows "\<exists>w1 w2 m. answered env w1 w2 m \<and>
    ((extractResponseText (afe_text env) (mpr_json m) = None \<and> afr_response res = mpr_response m \<and> w' = w2) \<or>
     (\<exists>sp1 events rs deny. same_hooks sp sp1 \<and> hct_responseJson (hsp_context sp1) = mpr_json m \<and>
       executeHooks (afe_text env) [''syncAfterRequestHook''] sp1 events = Some ((rs, deny), sp') \<and>
       afr_response res = hooked_response (afe_reports env) m deny sp' \<and>
       (output_denied sp1 events \<and> truthy_json (Some (mpr_json m)) \<longrightarrow>
          rs = [] \<or> afr_response res = refusal (afe_reports env) sp')))"
proof -
  from last_round_outcome [OF assms] obtain sp1 w1 w2 m where same: "same_hooks sp sp1" and a: "answered env w1 w2 m"
    and o: "hook_outcome (afe_text env) (afe_reports env) (afe_hooks env) sp1 m w2 (afr_response res) sp' w'" unfolding round_outcome_def by blast
  from o show ?thesis unfolding hook_outcome_def
  proof (elim disjE exE conjE)
    fix sp2 rs deny
    assume r: "same_hooks sp1 sp2" "hct_responseJson (hsp_context sp2) = mpr_json m"
      "afe_hooks env [''syncAfterRequestHook''] sp2 w2 = (((rs, deny), sp'), w')"
      "afr_response res = hooked_response (afe_reports env) m deny sp'"
    from hooks_run_events [OF assms(1) r(3)] obtain events where
      ev: "executeHooks (afe_text env) [''syncAfterRequestHook''] sp2 events = Some ((rs, deny), sp')" by blast
    have "afr_response res = refusal (afe_reports env) sp'" if "output_denied sp2 events" "truthy_json (Some (mpr_json m))" "rs \<noteq> []"
    proof -
      have deny using hooks_deny_iff [OF ev that(3)] that(1) by (simp add: output_denied_def Let_def)
      with hooked_refusal [OF that(2)] r(4) show ?thesis by simp
    qed
    with a r(2,4) ev same_hooks_trans [OF same r(1)] show ?thesis by blast
  qed (use a in blast)
qed

subsection \<open>A sample\<close>

text \<open>A runner with the contract: the checks fail, in the order of the requests.\<close>

definition sample_runner :: "nat hook_runner" where
  "sample_runner presets sp w =
    ((case executeHooks sample_text presets sp [(0, 0, sample_failure)] of Some a \<Rightarrow> a
      | None \<Rightarrow> the (executeHooks sample_text presets sp (run_hooks sample_text (\<lambda>_ _. sample_failure) presets sp))), w)"

lemma sample_runner_contract: "hooks_contract sample_text sample_runner"
  unfolding hooks_contract_def sample_runner_def
proof (intro allI)
  fix presets :: "string list" and sp and w :: nat
  have "executeHooks sample_text presets sp (run_hooks sample_text (\<lambda>_ _. sample_failure) presets sp) \<noteq> None"
    using run_hooks_answer by blast
  then show "\<exists>events. executeHooks sample_text presets sp events = Some (fst ((case executeHooks sample_text presets sp [(0, 0, sample_failure)] of
      Some a \<Rightarrow> a | None \<Rightarrow> the (executeHooks sample_text presets sp (run_hooks sample_text (\<lambda>_ _. sample_failure) presets sp))), w))"
    by (cases "executeHooks sample_text presets sp [(0, 0, sample_failure)]") auto
qed

definition sample_json :: json where
  "sample_json = JObj [(''choices'', JArr [JObj [(''text'', JStr ''badword'')]])]"

definition sample_after :: "nat after_env" where
  "sample_after = \<lparr>afe_text = sample_text, afe_reports = (\<lambda>_. JArr []), afe_hooks = sample_runner, afe_retry = retry_loop main_error,
     afe_call = counted sample_retry_answers,
     afe_map = \<lparr>mpe_parse = (\<lambda>_. Some sample_json), mpe_transform = (\<lambda>v _. v), mpe_has_transform = False, mpe_stream = id\<rparr>,
     afe_settings = sample_retries, afe_streaming = False, afe_limit = None, afe_syncHooks = True\<rparr>"

definition sample_out_span :: hook_span where
  "sample_out_span = sample_span\<lparr>hsp_before := [], hsp_after := [sample_hook\<lparr>gho_event := After_request\<rparr>]\<rparr>"

lemma sample_answered:
  "\<exists>st. retryRequest (retry_loop main_error) (counted sample_retry_answers) sample_retries 1 =
     (Inr \<lparr>rta_response = Some \<lparr>urp_status = 200, urp_headers = [], urp_text = Inr ''{}'', urp_opaque = False\<rparr>, rta_attempt = None, rta_skip = False\<rparr>, st)"
proof -
  have a: "retry_attempt (counted sample_retry_answers) sample_retries n ts st =
      (Returns, ts, st\<lparr>rty_world := Suc (rty_world st), rty_reports := rty_reports st @ [(Some 200, None)],
          rty_response := Some \<lparr>urp_status = 200, urp_headers = [], urp_text = Inr ''{}'', urp_opaque = False\<rparr>\<rparr>)" if "rty_world st = 1" for n ts st
    using that by (simp add: retry_attempt_def timed_def sample_retries_def sample_retry_answers_def isRedirectResponse_def retriable_answer_def retry_error_of_def errorClassOf_def)
  show ?thesis
    unfolding retryRequest_def by (simp add: retry_loop_unfold [of main_error "retry_attempt _ _" _ "Suc 0"] a)
qed

lemma sample_refused:
  "\<exists>res sp' w'. recursiveAfterRequestHookHandler sample_after 0 sample_out_span 1 = (Inr res, sp', w') \<and> our_status (afr_response res) = 446"
proof -
  let ?h = "sample_hook\<lparr>gho_event := After_request\<rparr>"
  let ?sp = "sample_out_span\<lparr>hsp_context := (hsp_context sample_out_span)\<lparr>hct_responseJson := sample_json, hct_responseText := Some (JStr ''badword''), hct_statusCode := Some 200\<rparr>\<rparr>"
  have c: "checks_run ?h = [sample_check]" by (simp add: checks_run_def sample_hook_def sample_check_def)
  have f: "\<not> in_sequence ?h" "\<not> hook_skips ?sp ?h" "runnable sample_check" "gho_deny ?h"
    by (simp_all add: in_sequence_def shouldSkipHook_def HOOK_REQUESTS_def runnable_def check_name_def sample_defs sample_out_span_def)
  have s: "start_hook sample_text ?h ?sp = (Parallel [sample_check] [None], ?sp)"
    using f by (simp add: start_hook_def c all_back_def)
  obtain r where r: "executeFunction sample_check sample_failure = (r, No_transform)" "\<not> check_passes r"
    by (simp add: executeFunction_def sample_failure_def check_passes_def)
  have h: "getHooksToExecute ?sp [''syncAfterRequestHook''] = [?h]"
    by (simp add: getHooksToExecute_def sample_out_span_def sample_hook_def)
  have "\<exists>rs sp'. executeHooks sample_text [''syncAfterRequestHook''] ?sp [(0, 0, sample_failure)] = Some ((rs, True), sp')"
    unfolding executeHooks_def h
    using f r by (simp add: s run_answer_def report_in_def run_event_def all_back_def apply_transform_def finish_hook_def report_of_def denies_def Let_def)
  then obtain rs sp' where e: "executeHooks sample_text [''syncAfterRequestHook''] ?sp [(0, 0, sample_failure)] = Some ((rs, True), sp')" by blast
  have x: "extractResponseText sample_text sample_json = Some (Some (JStr ''badword''))"
    by (simp add: extractResponseText_def read_prop_def sample_json_def)
  from sample_answered obtain st where st: "retryRequest (retry_loop main_error) (counted sample_retry_answers) sample_retries 1 =
     (Inr \<lparr>rta_response = Some \<lparr>urp_status = 200, urp_headers = [], urp_text = Inr ''{}'', urp_opaque = False\<rparr>, rta_attempt = None, rta_skip = False\<rparr>, st)" by blast
  have m: "responseHandler (afe_map sample_after) False True \<lparr>urp_status = 200, urp_headers = [], urp_text = Inr ''{}'', urp_opaque = False\<rparr> =
      Inr (json_out \<lparr>urp_status = 200, urp_headers = [], urp_text = Inr ''{}'', urp_opaque = False\<rparr> sample_json)"
    by (simp add: responseHandler_def handleNonStreamingMode_def read_json_def sample_after_def return_iff)
  have a: "\<exists>out w1. afterRequestHookHandler sample_text (\<lambda>_. JArr []) sample_runner (json_out \<lparr>urp_status = 200, urp_headers = [], urp_text = Inr ''{}'', urp_opaque = False\<rparr> sample_json)
      0 sample_out_span (rty_world st) = (out, sp', w1) \<and> our_status out = 446"
    by (simp add: afterRequestHookHandler_def setContextResponse_def json_out_def x e sample_runner_def hooked_response_def createHookResponse_def sample_json_def [symmetric])
      (simp add: sample_json_def createHookResponse_def Let_def)
  then obtain out w1 where a: "afterRequestHookHandler sample_text (\<lambda>_. JArr []) sample_runner (json_out \<lparr>urp_status = 200, urp_headers = [], urp_text = Inr ''{}'', urp_opaque = False\<rparr> sample_json)
      0 sample_out_span (rty_world st) = (out, sp', w1)" "our_status out = 446" by blast
  have "one_round sample_after 0 sample_out_span 1 = (Inr (out, 0, False), sp', w1)"
    using st m a by (simp add: one_round_def sample_after_def limited_def)
  with a(2) show ?thesis
    by (subst recursiveAfterRequestHookHandler.simps) (simp add: retry_again_def sample_after_def sample_retries_def)
qed

lemma sample_mapped: "responseHandler (afe_map sample_after) streaming hooks r = Inr m \<Longrightarrow> mpr_json m = JNull \<or> mpr_json m = sample_json"
  by (auto simp: sample_after_def responseHandler_def handleNonStreamingMode_def handleTextResponse_def read_json_def json_out_def
      as_is_def Let_def return_iff split: if_splits)

lemma sample_readable:
  assumes "answered sample_after w1 w2 m"
  shows "extractResponseText sample_text (mpr_json m) \<noteq> None"
proof -
  from assms have "mpr_json m = JNull \<or> mpr_json m = sample_json" unfolding answered_def by (blast dest: sample_mapped)
  then show ?thesis by (auto simp: extractResponseText_def read_prop_def sample_json_def Let_def)
qed

theorem output_guardrails_enforced_witness:
  "\<exists>(res :: after_result) m sp1 sp' events rs deny. our_status (afr_response res) = 446 \<and> same_hooks sample_out_span sp1 \<and> hct_responseJson (hsp_context sp1) = mpr_json m \<and>
     executeHooks sample_text [''syncAfterRequestHook''] sp1 events = Some ((rs, deny), sp') \<and> afr_response res = hooked_response (\<lambda>_. JArr []) m deny sp'"
proof -
  from sample_refused obtain res sp' w' where r: "recursiveAfterRequestHookHandler sample_after 0 sample_out_span 1 = (Inr res, sp', w')" "our_status (afr_response res) = 446" by blast
  have e: "afe_text sample_after = sample_text" "afe_reports sample_after = (\<lambda>_. JArr [])" by (simp_all add: sample_after_def)
  have "hooks_contract (afe_text sample_after) (afe_hooks sample_after)" using sample_runner_contract by (simp add: sample_after_def)
  from output_guardrails_enforced [OF this r(1)] obtain w1 w2 m where a: "answered sample_after w1 w2 m"
    and o: "(extractResponseText sample_text (mpr_json m) = None \<and> afr_response res = mpr_response m \<and> w' = w2) \<or>
      (\<exists>sp1 events rs deny. same_hooks sample_out_span sp1 \<and> hct_responseJson (hsp_context sp1) = mpr_json m \<and>
        executeHooks sample_text [''syncAfterRequestHook''] sp1 events = Some ((rs, deny), sp') \<and>
        afr_response res = hooked_response (\<lambda>_. JArr []) m deny sp')" unfolding e by blast
  from o sample_readable [OF a] obtain sp1 events rs deny where
    x: "same_hooks sample_out_span sp1" "hct_responseJson (hsp_context sp1) = mpr_json m"
      "executeHooks sample_text [''syncAfterRequestHook''] sp1 events = Some ((rs, deny), sp')"
      "afr_response res = hooked_response (\<lambda>_. JArr []) m deny sp'" by auto
  show ?thesis by (intro exI conjI) (rule r(2) x)+
qed

subsection \<open>How often the upstream is called\<close>

definition hooks_call_nothing :: "'w hook_runner \<Rightarrow> bool" where
  "hooks_call_nothing run \<longleftrightarrow> (\<forall>presets sp w. snd (run presets sp w) = w)"

lemma after_hooks_calls: "hooks_call_nothing run \<Longrightarrow> snd (snd (afterRequestHookHandler txt reports run m made sp w)) = w"
  by (auto simp: hooks_call_nothing_def afterRequestHookHandler_def Let_def split: option.splits prod.splits) (metis snd_conv)+

text \<open>A round makes at least one call and at most one more than the attempts; one that succeeds reports the calls after its first.\<close>

lemma one_round_calls:
  assumes "retry_contract main (afe_retry env)" "hooks_call_nothing (afe_hooks env)"
    "afe_call env = counted answers" "one_round env made sp b = (r, sp', w')"
  shows "b < w' \<and> w' \<le> b + rts_count (afe_settings env) + 1 \<and> (case r of Inl e \<Rightarrow> True | Inr (out, k, skipped) \<Rightarrow> w' = b + k + 1)"
proof -
  obtain result st where run: "retryRequest (afe_retry env) (counted answers) (afe_settings env) b = (result, st)" by force
  from retry_rules [OF assms(1) run] obtain failure where
    k: "b < rty_world st" "rty_world st \<le> b + rts_count (afe_settings env) + 1" and
    res: "result = (case failure of None \<Rightarrow> Inr (answer_record (rty_response st) (rty_world st - b) (rty_skipped st))
       | Some e \<Rightarrow> map_sum id (\<lambda>r. answer_record (Some r) (rty_world st - b) (rty_skipped st)) (answer_of_error e))"
    by (auto simp: run_right_def Let_def)
  have att: "(case rta_attempt a of None \<Rightarrow> 0 | Some j \<Rightarrow> j) = rty_world st - b - 1" if "result = Inr a" for a
    using that res k(1) by (cases failure; cases "answer_of_error (the failure)") (auto simp: answer_record_def)
  show ?thesis
  proof (cases result)
    case (Inl e)
    with assms(4) run k show ?thesis by (auto simp: one_round_def assms(3))
  next
    case (Inr a)
    have "w' = rty_world st \<and> (case r of Inl e \<Rightarrow> True | Inr (out, k, skipped) \<Rightarrow> k = rty_world st - b - 1)"
      using assms(4) run Inr att [OF Inr] after_hooks_calls [OF assms(2)]
      by (auto simp: one_round_def assms(3) Let_def split: option.splits sum.splits prod.splits) (metis snd_conv)+
    with k show ?thesis by (auto split: sum.splits)
  qed
qed

lemma rounds_calls:
  assumes "retry_contract main (afe_retry env)" "hooks_call_nothing (afe_hooks env)" "afe_call env = counted answers"
  shows "made \<le> rts_count (afe_settings env) \<Longrightarrow> recursiveAfterRequestHookHandler env made sp b = (res, sp', w') \<Longrightarrow>
    b < w' \<and> w' + made \<le> b + 2 * rts_count (afe_settings env) + 1"
  using assms
proof (induction env made sp b rule: recursiveAfterRequestHookHandler.induct)
  case (1 env made sp b)
  obtain r sp1 w1 where o: "one_round env made sp b = (r, sp1, w1)" by (metis surj_pair)
  note calls = one_round_calls [OF 1(4-6) o]
  show ?case
  proof (cases r)
    case (Inl e)
    with o 1(2,3) calls show ?thesis by (subst (asm) recursiveAfterRequestHookHandler.simps) auto
  next
    case (Inr q)
    obtain out k skipped where q: "q = (out, k, skipped)" by (metis surj_pair)
    show ?thesis
    proof (cases "retry_again env made q")
      case True
      then have le: "k + 1 + made \<le> rts_count (afe_settings env)" by (simp add: retry_again_def q)
      have rec: "recursiveAfterRequestHookHandler env (fst (snd q) + 1 + made) sp1 w1 = (res, sp', w')"
        using 1(3) o Inr True by (subst (asm) recursiveAfterRequestHookHandler.simps) simp
      have "w1 < w' \<and> w' + (fst (snd q) + 1 + made) \<le> w1 + 2 * rts_count (afe_settings env) + 1"
        by (rule 1(1) [OF o [symmetric] Inr refl True _ rec 1(4-6)]) (use le q in simp)
      with calls Inr q show ?thesis by auto
    next
      case False
      with 1(3) o Inr have "w' = w1" by (subst (asm) recursiveAfterRequestHookHandler.simps) simp
      with calls 1(2) show ?thesis by auto
    qed
  qed
qed

text \<open>C40. Whatever the upstream answers and the hooks find, a request with \<open>n\<close> attempts calls its upstream at least once and at
  most \<open>2 * n + 1\<close> times, and returns.\<close>

theorem output_call_bound:
  assumes "retry_contract main (afe_retry env)" "hooks_call_nothing (afe_hooks env)" "afe_call env = counted answers"
  shows "\<exists>res sp' calls. recursiveAfterRequestHookHandler env 0 sp 0 = (res, sp', calls) \<and> 0 < calls \<and> calls \<le> 2 * rts_count (afe_settings env) + 1"
proof -
  obtain res sp' calls where r: "recursiveAfterRequestHookHandler env 0 sp 0 = (res, sp', calls)" by (metis surj_pair)
  from rounds_calls [OF assms _ r] r show ?thesis by simp
qed

theorem output_call_bound_witness:
  "\<exists>res sp' calls. recursiveAfterRequestHookHandler sample_after 0 sample_out_span 0 = (res, sp', calls) \<and> 0 < calls \<and> calls \<le> 3"
proof -
  have "retry_contract main_error (afe_retry sample_after)" "hooks_call_nothing (afe_hooks sample_after)" "afe_call sample_after = counted sample_retry_answers"
    using retry_loop_contract by (simp_all add: sample_after_def hooks_call_nothing_def sample_runner_def)
  from output_call_bound [OF this] show ?thesis by (simp add: sample_after_def sample_retries_def)
qed

end
