(* ===== verification/Proxy_Guardrails.thy ===== *)
theory Proxy_Guardrails
  imports Hook_Executor Upstream_Request
begin

text \<open>
  Guardrails on proxied calls and on the Responses API (\<open>src/handlers/proxyGuardrails.ts\<close>, \<open>src/middlewares/hooks/responsesSupport.ts\<close>):
  which proxied calls the hooks understand, whether a configuration has hooks, and the checks that cannot run on a Responses request.
  A path is the \<open>pathname\<close> of a parsed URL, which holds no line break.
\<close>

subsection \<open>Configurations with hooks\<close>

definition HOOK_FIELDS :: "string list" where
  "HOOK_FIELDS = [''beforeRequestHooks'', ''afterRequestHooks'', ''inputGuardrails'', ''outputGuardrails'', ''defaultInputGuardrails'',
     ''defaultOutputGuardrails'', ''before_request_hooks'', ''after_request_hooks'', ''input_guardrails'', ''output_guardrails'',
     ''default_input_guardrails'', ''default_output_guardrails'', ''inputMutators'', ''outputMutators'', ''input_mutators'', ''output_mutators'']"

definition MAX_CONFIG_DEPTH :: nat where
  "MAX_CONFIG_DEPTH = 32"

definition declares_hooks :: "json \<Rightarrow> bool" where
  "declares_hooks config \<longleftrightarrow>
    list_ex (\<lambda>key. case prop_of (Some config) key of Some (JArr vs) \<Rightarrow> vs \<noteq> [] | v \<Rightarrow> truthy_json v) HOOK_FIELDS"

definition is_object :: "json \<Rightarrow> bool" where
  "is_object v = (case v of JObj _ \<Rightarrow> True | JArr _ \<Rightarrow> True | _ \<Rightarrow> False)"

text \<open>\<open>levels\<close> is how many levels of the tree are still looked at.\<close>

fun hooks_within :: "nat \<Rightarrow> json \<Rightarrow> bool" where
  "hooks_within 0 config = False"
| "hooks_within (Suc levels) config =
    (is_object config \<and> (declares_hooks config \<or>
       (case prop_of (Some config) ''targets'' of Some (JArr ts) \<Rightarrow> list_ex (hooks_within levels) ts | _ \<Rightarrow> False)))"

definition configHasHooks :: "json \<Rightarrow> bool" where
  "configHasHooks config = hooks_within (MAX_CONFIG_DEPTH + 1) config"

subsection \<open>Proxied calls\<close>

definition proxiedPath :: "string \<Rightarrow> string" where
  "proxiedPath pathname = rev (dropWhile (\<lambda>c. c = CHR ''/'') (rev (stripProxyEndpointPath pathname)))"

text \<open>\<open>/(^|\/)name$/\<close>\<close>

definition path_ends :: "string \<Rightarrow> string \<Rightarrow> bool" where
  "path_ends path name \<longleftrightarrow> path = name \<or> ends_with path (CHR ''/'' # name)"

definition isTextOrList :: "json option \<Rightarrow> bool" where
  "isTextOrList v \<longleftrightarrow> (case v of Some (JStr _) \<Rightarrow> True | Some (JArr vs) \<Rightarrow> vs \<noteq> [] | _ \<Rightarrow> False)"

definition is_list :: "json option \<Rightarrow> bool" where
  "is_list v \<longleftrightarrow> (case v of Some (JArr vs) \<Rightarrow> vs \<noteq> [] | _ \<Rightarrow> False)"

record proxy_route =
  prr_path :: "string \<Rightarrow> bool"
  prr_fn :: string
  prr_body :: "json \<Rightarrow> bool"

definition PROXY_HOOK_ROUTES :: "proxy_route list" where
  "PROXY_HOOK_ROUTES =
    [\<lparr>prr_path = (\<lambda>p. path_ends p ''chat/completions''), prr_fn = ''chatComplete'', prr_body = (\<lambda>b. is_list (prop_of (Some b) ''messages''))\<rparr>,
     \<lparr>prr_path = (\<lambda>p. path_ends p ''completions'' \<or> path_ends p ''complete''), prr_fn = ''complete'', prr_body = (\<lambda>b. isTextOrList (prop_of (Some b) ''prompt''))\<rparr>,
     \<lparr>prr_path = (\<lambda>p. \<not> includes_str p ''/threads/'' \<and> path_ends p ''messages''), prr_fn = ''messages'', prr_body = (\<lambda>b. is_list (prop_of (Some b) ''messages''))\<rparr>,
     \<lparr>prr_path = (\<lambda>p. path_ends p ''responses''), prr_fn = ''createModelResponse'', prr_body = (\<lambda>b. isTextOrList (prop_of (Some b) ''input''))\<rparr>,
     \<lparr>prr_path = (\<lambda>p. path_ends p ''embeddings''), prr_fn = ''embed'', prr_body = (\<lambda>b. isTextOrList (prop_of (Some b) ''input''))\<rparr>]"

text \<open>\<open>/^(\/[^/]+)*\/models(\/[^/]+)?$/\<close>: the segments after the leading slash.\<close>

definition NO_CONTENT_GET :: "string \<Rightarrow> bool" where
  "NO_CONTENT_GET path \<longleftrightarrow>
    (case split_on (CHR ''/'') path of
       [] # segs \<Rightarrow> segs \<noteq> [] \<and> [] \<notin> set segs \<and> (last segs = ''models'' \<or> (2 \<le> length segs \<and> last (butlast segs) = ''models''))
     | _ \<Rightarrow> False)"

datatype proxy_decision = Hooks_as string | No_content | Unsupported string

definition or_text :: "string option \<Rightarrow> string \<Rightarrow> string" where
  "or_text v d = (if truthy_str v then the v else d)"

definition classifyProxyRequest :: "string \<Rightarrow> string \<Rightarrow> gateway_body \<Rightarrow> (string, string) jmap \<Rightarrow> proxy_decision" where
  "classifyProxyRequest pathname method body headers =
    (let path = proxiedPath pathname; verb = to_upper method;
         contentType = map_option (\<lambda>v. trim (header_media_type v)) (jm_get headers ''content-type'')
     in if verb = ''GET'' \<and> NO_CONTENT_GET path then No_content
        else if verb \<noteq> ''POST'' then Unsupported (verb @ '' requests cannot be inspected'')
        else if contentType \<noteq> Some ''application/json'' then Unsupported (or_text contentType ''body-less'' @ '' requests cannot be inspected'')
        else (case body of
            Json_body (JObj fs) \<Rightarrow>
              (case List.find (\<lambda>r. prr_path r path) PROXY_HOOK_ROUTES of
                 None \<Rightarrow> Unsupported (''the path '' @ (if path = [] then ''/'' else path) @
                    '' is not a Chat Completions, Completions, Messages, Responses or Embeddings endpoint'')
               | Some r \<Rightarrow> if prr_body r (JObj fs) then Hooks_as (prr_fn r) else Unsupported (''the body is not a '' @ prr_fn r @ '' request''))
          | _ \<Rightarrow> Unsupported ''the body is not a JSON object''))"

definition proxyGuardrailsUnsupportedMessage :: "string \<Rightarrow> string" where
  "proxyGuardrailsUnsupportedMessage reason =
    ''Guardrails are configured for this target but cannot be applied to this proxied request ('' @ reason @
    ''). Use the matching /v1 endpoint, or a target without guardrails.''"

subsection \<open>Responses API\<close>

definition RESPONSES_SUPPORTED_CHECKS :: "string list" where
  "RESPONSES_SUPPORTED_CHECKS =
    [''default.regexMatch'', ''default.sentenceCount'', ''default.wordCount'', ''default.characterCount'', ''default.jsonSchema'',
     ''default.jsonKeys'', ''default.contains'', ''default.validUrls'', ''default.containsCode'', ''default.alluppercase'',
     ''default.alllowercase'', ''default.endsWith'', ''default.regexReplace'', ''default.notNull'', ''default.log'',
     ''default.modelWhitelist'', ''default.modelRules'', ''default.jwt'', ''default.requiredMetadataKeys'', ''default.allowedRequestTypes'',
     ''qualifire.contentModeration'', ''qualifire.grounding'', ''qualifire.policy'', ''qualifire.hallucinations'', ''qualifire.pii'',
     ''qualifire.promptInjections'', ''portkey.moderateContent'', ''portkey.language'', ''portkey.pii'', ''portkey.gibberish'',
     ''sydelabs.sydeguard'', ''pillar.scanPrompt'', ''pillar.scanResponse'', ''patronus.phi'', ''patronus.pii'', ''patronus.isConcise'',
     ''patronus.isHelpful'', ''patronus.isPolite'', ''patronus.noApologies'', ''patronus.noGenderBias'', ''patronus.noRacialBias'',
     ''patronus.retrievalAnswerRelevance'', ''patronus.toxicity'', ''patronus.custom'', ''mistral.moderateContent'', ''pangea.textGuard'',
     ''pangea.pii'', ''promptfoo.pii'', ''promptfoo.harm'', ''promptfoo.guard'', ''bedrock.guard'', ''acuvity.scan'', ''azure.pii'',
     ''azure.contentSafety'', ''azure.protectedMaterial'', ''azure.shieldPrompt'', ''promptsecurity.protectPrompt'',
     ''promptsecurity.protectResponse'', ''panw-prisma-airs.intercept'', ''walledai.walledprotect'', ''javelin.guardrails'', ''f5-guardrails.scan'']"

text \<open>\<open>String(check?.id)\<close>; the set keeps the first occurrence of each.\<close>

definition id_text :: "text_env \<Rightarrow> json option \<Rightarrow> string" where
  "id_text env v = (case v of None \<Rightarrow> ''undefined'' | Some (JStr s) \<Rightarrow> s | Some x \<Rightarrow> txe_string env x)"

definition unsupported_check :: "gate_check \<Rightarrow> bool" where
  "unsupported_check c \<longleftrightarrow> gck_is_enabled c \<noteq> Some (JBool False) \<and> \<not> (\<exists>i \<in> set RESPONSES_SUPPORTED_CHECKS. gck_id c = Some (JStr i))"

definition all_checks :: "gate_hook list list \<Rightarrow> gate_check list" where
  "all_checks hooks = concat (map (\<lambda>h. case gho_checks h of Some cs \<Rightarrow> cs | None \<Rightarrow> []) (concat hooks))"

definition responsesUnsupportedChecks :: "text_env \<Rightarrow> gate_hook list list \<Rightarrow> string list" where
  "responsesUnsupportedChecks env hooks =
    rev (remdups (rev (map (\<lambda>c. id_text env (gck_id c)) (filter unsupported_check (all_checks hooks)))))"

subsection \<open>What is let through\<close>

lemma no_unsupported: "responsesUnsupportedChecks env hooks = [] \<longleftrightarrow> list_all (\<lambda>c. \<not> unsupported_check c) (all_checks hooks)"
  by (simp add: responsesUnsupportedChecks_def filter_empty_conv list_all_iff)

text \<open>A proxied call is inspected only as what it is: a POST of a JSON object with the field the hooks of that endpoint read, at a path
  that ends as the endpoint's does.\<close>

lemma classified_route:
  assumes "classifyProxyRequest pathname method body headers = Hooks_as fn"
  shows "\<exists>fs r. body = Json_body (JObj fs) \<and> r \<in> set PROXY_HOOK_ROUTES \<and> prr_fn r = fn \<and> prr_path r (proxiedPath pathname) \<and> prr_body r (JObj fs) \<and>
    to_upper method = ''POST''"
proof -
  from assms obtain fs r where b: "body = Json_body (JObj fs)" and f: "List.find (\<lambda>r. prr_path r (proxiedPath pathname)) PROXY_HOOK_ROUTES = Some r"
    and r: "prr_body r (JObj fs)" "prr_fn r = fn" "to_upper method = ''POST''"
    by (auto simp: classifyProxyRequest_def Let_def split: if_splits gateway_body.splits json.splits option.splits)
  from f have "r \<in> set PROXY_HOOK_ROUTES" "prr_path r (proxiedPath pathname)" by (auto simp: find_Some_iff)
  with b r show ?thesis by blast
qed

lemma hooks_request: "classifyProxyRequest pathname method body headers = Hooks_as fn \<Longrightarrow> fn \<in> set HOOK_REQUESTS"
  by (drule classified_route) (auto simp: PROXY_HOOK_ROUTES_def HOOK_REQUESTS_def)

text \<open>The path that is classified is the one the provider is sent, up to trailing slashes.\<close>

lemma proxied_same_path: "\<exists>n. stripProxyEndpointPath pathname = proxiedPath pathname @ replicate n (CHR ''/'')"
proof -
  let ?p = "stripProxyEndpointPath pathname"
  have "rev ?p = takeWhile (\<lambda>c. c = CHR ''/'') (rev ?p) @ dropWhile (\<lambda>c. c = CHR ''/'') (rev ?p)" by simp
  moreover have "takeWhile (\<lambda>c. c = CHR ''/'') (rev ?p) = replicate (length (takeWhile (\<lambda>c. c = CHR ''/'') (rev ?p))) (CHR ''/'')"
    by (rule replicate_eqI) (auto dest: set_takeWhileD)
  ultimately have "?p = rev (dropWhile (\<lambda>c. c = CHR ''/'') (rev ?p)) @ replicate (length (takeWhile (\<lambda>c. c = CHR ''/'') (rev ?p))) (CHR ''/'')"
    by (metis rev_append rev_replicate rev_rev_ident)
  then show ?thesis unfolding proxiedPath_def by blast
qed

text \<open>A configuration is seen to have hooks wherever within 33 levels a target declares them.\<close>

inductive target_within :: "nat \<Rightarrow> json \<Rightarrow> json \<Rightarrow> bool" where
  Here: "target_within 0 config config"
| Below: "prop_of (Some config) ''targets'' = Some (JArr ts) \<Longrightarrow> t \<in> set ts \<Longrightarrow> target_within n t node \<Longrightarrow> target_within (Suc n) config node"

lemma prop_of_object: "prop_of (Some v) k = Some (JArr ts) \<Longrightarrow> is_object v"
  by (cases v) (auto simp: is_object_def)

lemma hooks_within_found:
  "target_within n config node \<Longrightarrow> is_object node \<Longrightarrow> declares_hooks node \<Longrightarrow> hooks_within (Suc n + k) config"
proof (induction rule: target_within.induct)
  case (Below config ts t n node)
  then show ?case using prop_of_object [OF Below(1)] by (auto simp: list_ex_iff)
qed simp

lemma configHasHooks_complete:
  assumes "target_within n config node" "n \<le> MAX_CONFIG_DEPTH" "is_object node" "declares_hooks node"
  shows "configHasHooks config"
  using hooks_within_found [OF assms(1,3,4), of "MAX_CONFIG_DEPTH - n"] assms(2) by (simp add: configHasHooks_def)

end
