(* ===== verification/Spec2Isabelle.thy ===== *)
theory Spec2Isabelle
  imports Route_Failover Budget_Keys Budget_Store Budget_Middleware Telemetry_Sender
    Oidc_Auth Mcp_Handler Mcp_Sanitize Mcp_Sse Policy_Pull Upstream_Url Gateway_Targets Semantic_Cache Pii_Spans Response_Pipeline Proxy_Guardrails
begin

text \<open>
  Verification development of the Prompt Shields gateway (\<open>src/gateway/src/\<close>, TypeScript), the part of the repository
  that decides which model call leaves the house, to whom, at what cost, and what comes back. Paths below are relative
  to \<open>src/gateway/src/\<close>.

  \<^bold>\<open>The program and its parts.\<close> A request passes the middlewares in turn. OIDC (\<open>middlewares/psOidc\<close>) verifies the token
  and finds the caller's group policy. The router (\<open>middlewares/router\<close>) classifies the sensitivity of the call, picks a
  model among the policy's tiers and leaves a gate that every target of the call must pass. The budgets
  (\<open>middlewares/psBudget\<close>) reserve an estimate, block, downgrade or warn, and settle the real cost by the prices of
  \<open>middlewares/psPricing.ts\<close>. The handler (\<open>handlers/handlerUtils.ts\<close>, \<open>services/conditionalRouter.ts\<close>) walks the targets of
  the configuration, the failover engine (\<open>middlewares/psFailover\<close>, \<open>middlewares/router/failover.ts\<close>) calls one routed model
  after the other under circuit breakers, and the caches (\<open>middlewares/cache\<close>) may answer instead of a provider. Telemetry
  events leave through a bounded queue (\<open>middlewares/psTelemetrySender.ts\<close>). The MCP proxy (\<open>mcp/\<close>) checks tool calls and
  listings in both directions. The policies may be replaced at run time by the central puller (\<open>middlewares/policyPull\<close>).

  \<^bold>\<open>Conventions.\<close> \<open>Prelude\<close> holds the language: JavaScript numbers (exact rationals with the infinities and NaN, rounding
  of doubles abstracted), strings of code units below 256, insertion-ordered maps, JSON values, thrown errors as \<open>Inl\<close>.
  A definition has the name of the function it translates, or, for a part of a longer function, a name of its own in
  snake case. Every awaited call, timer and concurrent request is a step of an explicit sequence or an arbitrary change of
  the shared state. Code that is not in the repository (URL parsing, SHA-256, JSON text, Redis, jose) is
  a parameter, regular expressions too except in the PII scanner; where a property needs documented behaviour of it, it is a named hypothesis with a witness.

  \<^bold>\<open>Theories.\<close>
  \<^item> Failover. \<open>Failover_Classify\<close>, \<open>Circuit_Breaker\<close>, \<open>Breaker_Registry\<close> and \<open>Failover_Engine\<close> model
    \<open>middlewares/psFailover/index.ts\<close>: which failures count, the breaker as a state machine with its legal transitions and
    threshold, the registry of breakers bounded by eviction, and \<open>runFailover\<close> as a loop over candidates and retries, with the
    locale \<open>breaker_service\<close> between engine and registry. The lemmas show that only permitted candidates are called, how
    often, that an error a retry cannot help is raised at once, and that the call fails closed only when every candidate was
    tried or closed. \<open>Route_Failover\<close> (\<open>middlewares/router/failover.ts\<close>) composes engine and router: what is served complies
    with the data policy.
  \<^item> Router. \<open>Router_Policy\<close> (\<open>types.ts\<close>, \<open>constraints.ts\<close>, \<open>policy.ts\<close>), \<open>Router_Resolve\<close> (\<open>heuristic.ts\<close>, \<open>index.ts\<close>, with the
    locale \<open>router_strategy\<close>) and \<open>Router_Gate\<close> (\<open>psServedTarget.ts\<close>, \<open>dataPolicyGate.ts\<close>, \<open>middleware.ts\<close>, \<open>hono.ts\<close>): a route
    complies with the policy whatever the strategy answers, the gate passes only models a tier vouches for, and a policy
    error fails closed.
  \<^item> PII. \<open>Js_Regex\<close> is a backtracking matcher for regular expressions; \<open>Pii_Checks\<close>, \<open>Pii_Scan\<close> and \<open>Pii_Spans\<close>
    (\<open>middlewares/router/pii.ts\<close>): validators, detection and redaction; what is redacted is what is detected, to the character.
  \<^item> Budgets. \<open>Budget_Keys\<close> (\<open>keys.ts\<close>: the calendar on integers, counter keys), \<open>Budget_Config\<close> (\<open>config.ts\<close>),
    \<open>Budget_Store\<close> (\<open>store.ts\<close>: the locale \<open>budget_store\<close> and the in-memory store), \<open>Budget_Decide\<close>,
    \<open>Budget_Downgrade\<close> and \<open>Budget_Middleware\<close> (\<open>index.ts\<close>, \<open>downgrade.ts\<close>, \<open>runtime.ts\<close>): amounts are JavaScript numbers
    throughout. While reserved amounts are finite and not negative, a blocking budget is overspent by at most one estimate and
    the errors of the estimates; the code does not ensure that they are (\<open>nan_reservation_admits\<close>). No reservation leaks: a
    streamed answer is returned with its settlement pending, which releases everything at the end of the stream. A downgraded
    call still complies. \<open>Pricing\<close> (\<open>psPricing.ts\<close>) gives the cost.
  \<^item> Identity. \<open>Oidc_Config\<close>, \<open>Oidc_Policy\<close> and \<open>Oidc_Auth\<close> (\<open>middlewares/psOidc\<close>): a sound configuration or an error, the
    exact group policy and rate limit, and that only verified callers are forwarded.
  \<^item> Targets. \<open>Gateway_Targets\<close> and \<open>Conditional_Router\<close>: the recursive walk with inheritance and the single, fallback,
    loadbalance and conditional strategies.
  \<^item> One call. \<open>Hook_Executor\<close> (\<open>middlewares/hooks\<close>): hooks run concurrently, their checks answer in any order; a denial is
    exactly a failed check of a denying hook, and whichever check that is out answers next, the run goes on. \<open>Retry_Request\<close> (\<open>handlers/retryHandler.ts\<close>, \<open>utils/fetch.ts\<close>):
    which outcomes are retried and how often, over the contract of the retry package. \<open>Upstream_Request\<close> (\<open>handlerUtils.ts\<close>,
    \<open>services/providerContext.ts\<close>, \<open>utils/psInternalHeaders.ts\<close>): the headers, body and URL sent; no business metadata leaves.
    \<open>Response_Pipeline\<close> (\<open>responseHandlers.ts\<close>, \<open>responseSizeLimit.ts\<close>, \<open>streamHandler.ts\<close>) composes hooks and retries: output
    guardrails are enforced on the very answer that goes out, and the calls are bounded. \<open>Proxy_Guardrails\<close>
    (\<open>handlers/proxyGuardrails.ts\<close>, \<open>middlewares/hooks/responsesSupport.ts\<close>): which proxied and Responses calls the hooks
    understand.
  \<^item> Caches. \<open>Canonical_Json\<close> (\<open>middlewares/cache/hash.ts\<close>, \<open>mcp/policy.ts\<close>), \<open>Cache_Store\<close> (\<open>store.ts\<close>, locale
    \<open>response_store\<close>), \<open>Response_Cache\<close> (\<open>index.ts\<close>, \<open>handlers/services/cacheService.ts\<close>): an entry is served only to the
    caller scope it was made for. \<open>Semantic_Store\<close> (\<open>semanticStore.ts\<close>, locale \<open>partitioned_store\<close>): bounds, and best match
    within one partition. \<open>Semantic_Cache\<close> (\<open>semantic.ts\<close>) composes both: a hit crosses no partition.
  \<^item> MCP. \<open>Mcp_Policy\<close>, \<open>Mcp_Sanitize\<close>, \<open>Mcp_Request\<close>, \<open>Mcp_Guardrails\<close>, \<open>Mcp_Handler\<close> and \<open>Mcp_Sse\<close> (\<open>mcp/\<close>): what is
    forwarded was cleared, what is released was checked, also when it comes in a stream cut anywhere.
  \<^item> Operations. \<open>Telemetry_Sender\<close>: every event is delivered, queued, dropped or in flight, exactly once in the accounts.
    \<open>Policy_Pull\<close>: the active policy is the last good bundle. \<open>Ipv4_Hosts\<close> and \<open>Upstream_Url\<close>
    (\<open>middlewares/requestValidator/index.ts\<close>): a host let through is trusted or public, in every notation of an address, except the custom host \<open>localhost\<close>.

  \<^bold>\<open>Bounds.\<close> No definition is partial and none is cut off by fuel of the model's own. \<open>visit\<close> and \<open>sanitizeSchema\<close> of
  \<open>Mcp_Policy\<close> start with depth 65 because the code gives up below depth 64; \<open>MAX_BUCKETS\<close> and the bounds of the stores are
  the code's. Loops over lists recurse on the list; the engine's retries are bounded by its configuration, which
  \<open>failover_call_bound\<close> states.

  \<^bold>\<open>Not modelled.\<close>
  \<^item> \<open>providers/\<close>: tables and field-by-field conversions of request and response bodies for some seventy vendors, without
    state or policy of their own; \<open>plugins/\<close>: guardrail checks that call third-party services.
  \<^item> \<open>RedisBudgetStore\<close>: its operations are Lua scripts that run in Redis; the contract both stores share is the locale
    \<open>budget_store\<close>.
  \<^item> The rest of \<open>handlers/\<close> (\<open>tryPost\<close>, the transformation of streams, realtime, files), \<open>adapters/\<close>, the header checks of the
    request validator: I/O with web platform objects and conversions of formats; what they call is modelled part by part.
  \<^item> Admin authentication, payload limits, the parsing of route policy documents and the cloud credential exchanges.
  \<^item> Metrics, security events, OpenTelemetry spans and log redaction: they observe and decide nothing.
  \<^item> The generated price and policy tables, \<open>shared/services/cache\<close>, the SDKs and the collector in other languages.
\<close>

end
